(* ===== verification/Prelude.thy ===== *)
theory Prelude
  imports Main "HOL-Library.Word" "HOL-Library.AList"
begin

text \<open>
  Shared vocabulary of the development.

  The program is Go. A Go \<open>string\<close> is a \<open>string\<close> here (a list of bytes, so
  \<open>length\<close> is \<open>len\<close>), a \<open>byte\<close> is an 8-bit word, a \<open>time.Time\<close> is an \<open>int\<close> counting
  nanoseconds since some fixed origin and a \<open>time.Duration\<close> is an \<open>int\<close> of
  nanoseconds unless a theory says that the width matters. A Go \<open>map\<close> is a partial
  function, a fallible function returns \<open>err + value\<close>.

  The collections below gather what the component theories unfold and split.
  The locale \<open>status_machine\<close> is the contract of every status column of the program:
  rows move only by updates guarded by the present status.
\<close>

named_theorems step_defs \<open>definitions of the handlers, unfolded when an operation is executed symbolically\<close>
named_theorems inv_intros \<open>preservation lemmas of component invariants\<close>

type_synonym byte = "8 word"
type_synonym u16 = "16 word"
type_synonym u32 = "32 word"
type_synonym u64 = "64 word"
type_synonym time = int
type_synonym duration = int
type_synonym 'a bytes_of = "'a \<Rightarrow> byte list"

text \<open>Durations, in nanoseconds.\<close>

abbreviation second :: duration where "second \<equiv> 1000000000"
abbreviation minute :: duration where "minute \<equiv> 60000000000"

text \<open>The in-process counters every service keeps, by name.\<close>

type_synonym metrics = "string \<Rightarrow> int"

definition Add :: "string \<Rightarrow> int \<Rightarrow> metrics \<Rightarrow> metrics" where
  "Add name n m = m(name := m name + n)"

definition Inc :: "string \<Rightarrow> metrics \<Rightarrow> metrics" where
  "Inc name m = Add name 1 m"

lemma Inc_at [simp]: "Inc a m b = (if a = b then m b + 1 else m b)"
  by (simp add: Inc_def Add_def)

lemma Add_at [simp]: "Add a n m b = (if a = b then m b + n else m b)"
  by (simp add: Add_def)

subsection \<open>Lists\<close>

lemma filter_eq_self [simp]: "(\<And>x. x \<in> set xs \<Longrightarrow> P x) \<Longrightarrow> filter P xs = xs"
  by (induction xs) auto

lemma sum_list_update_nat:
  "i < length xs \<Longrightarrow> sum_list (xs[i := y]) + (xs ! i :: nat) = sum_list xs + y"
  by (induction xs arbitrary: i) (auto split: nat.splits)

lemma map_filter_insert_last:
  "map f (filter P (xs @ [x])) = map f (filter P xs) @ (if P x then [f x] else [])"
  by simp

text \<open>\<open>update_where P f rows\<close> is an \<open>UPDATE ... WHERE P\<close> on a table held as a list of rows.\<close>

definition update_where :: "('r \<Rightarrow> bool) \<Rightarrow> ('r \<Rightarrow> 'r) \<Rightarrow> 'r list \<Rightarrow> 'r list" where
  "update_where P f rows = map (\<lambda>r. if P r then f r else r) rows"

definition affected :: "('r \<Rightarrow> bool) \<Rightarrow> 'r list \<Rightarrow> nat" where
  "affected P rows = length (filter P rows)"

lemma update_where_Nil [simp]: "update_where P f [] = []"
  by (simp add: update_where_def)

lemma update_where_Cons [simp]:
  "update_where P f (r # rs) = (if P r then f r else r) # update_where P f rs"
  by (simp add: update_where_def)

lemma length_update_where [simp]: "length (update_where P f rows) = length rows"
  by (simp add: update_where_def)

lemma nth_update_where [simp]:
  "i < length rows \<Longrightarrow> update_where P f rows ! i = (if P (rows ! i) then f (rows ! i) else rows ! i)"
  by (simp add: update_where_def)

lemma set_update_where:
  "set (update_where P f rows) = f ` {r \<in> set rows. P r} \<union> {r \<in> set rows. \<not> P r}"
  by (auto simp: update_where_def)

lemma ball_update_where:
  "(\<forall>r\<in>set (update_where P f rows). Q r) \<longleftrightarrow> (\<forall>r\<in>set rows. Q (if P r then f r else r))"
  by (induction rows) auto

lemma affected_0_iff: "affected P rows = 0 \<longleftrightarrow> (\<forall>r\<in>set rows. \<not> P r)"
  by (auto simp: affected_def filter_empty_conv)

lemma update_where_unaffected [simp]: "affected P rows = 0 \<Longrightarrow> update_where P f rows = rows"
  by (induction rows) (auto simp: affected_def split: if_splits)

lemma affected_update_where_in:
  "(\<And>r. P r \<Longrightarrow> \<not> Q r \<and> Q (f r)) \<Longrightarrow> affected Q (update_where P f rows) = affected Q rows + affected P rows"
  by (induction rows) (auto simp: affected_def)

lemma affected_update_where_out:
  "(\<And>r. P r \<Longrightarrow> \<not> Q r \<and> \<not> Q (f r)) \<Longrightarrow> affected Q (update_where P f rows) = affected Q rows"
  by (induction rows) (auto simp: affected_def)

lemma affected_append [simp]: "affected P (xs @ ys) = affected P xs + affected P ys"
  by (simp add: affected_def)

lemma affected_Cons [simp]: "affected P (x # xs) = (if P x then 1 else 0) + affected P xs"
  by (simp add: affected_def)

lemma affected_Nil [simp]: "affected P [] = 0"
  by (simp add: affected_def)

lemma find_update_where:
  "(\<And>r. P r \<Longrightarrow> key (f r) = key r) \<Longrightarrow>
   find (\<lambda>r. key r = k) (update_where P f rows) =
   map_option (\<lambda>r. if P r then f r else r) (find (\<lambda>r. key r = k) rows)"
  by (induction rows) auto

lemma map_update_where_frame:
  "(\<And>r. P r \<Longrightarrow> g (f r) = g r) \<Longrightarrow> map g (update_where P f rows) = map g rows"
  by (simp add: update_where_def)

lemma filter_update_where_frame:
  "(\<And>r. P r \<Longrightarrow> \<not> Q r) \<Longrightarrow> (\<And>r. P r \<Longrightarrow> \<not> Q (f r)) \<Longrightarrow>
   filter Q (update_where P f rows) = filter Q rows"
  by (induction rows) auto

lemma distinct_map_remove1: "distinct (map f xs) \<Longrightarrow> distinct (map f (remove1 x xs))"
  by (induction xs) (auto dest: set_mp[OF set_remove1_subset])

lemma remove1_fresh: "distinct (map f xs) \<Longrightarrow> x \<in> set xs \<Longrightarrow> y \<in> set (remove1 x xs) \<Longrightarrow> f y \<noteq> f x"
  by (metis distinct_map inj_onD set_mp[OF set_remove1_subset] set_remove1_eq DiffE insertI1)

subsection \<open>Guarded status columns\<close>

text \<open>
  A status column with a table of permitted moves. \<open>rank\<close> orders the states; the law
  says that a permitted move strictly increases it, so a row never returns to a state
  it has left. The components with such a column interpret the locale on their table.
\<close>

locale status_machine =
  fixes allowed :: "'s \<Rightarrow> 's \<Rightarrow> bool"
    and rank :: "'s \<Rightarrow> nat"
  assumes allowed_rank: "allowed a b \<Longrightarrow> rank a < rank b"
begin

lemma irreflexive: "\<not> allowed a a"
  using allowed_rank by blast

lemma moves_rank: "allowed\<^sup>+\<^sup>+ a b \<Longrightarrow> rank a < rank b"
  by (induction rule: tranclp_induct) (auto dest: allowed_rank)

lemma history_rank: "allowed\<^sup>*\<^sup>* a b \<Longrightarrow> rank a \<le> rank b"
  by (induction rule: rtranclp_induct) (auto dest: allowed_rank)

lemma no_return: "allowed\<^sup>*\<^sup>* a b \<Longrightarrow> allowed\<^sup>*\<^sup>* b a \<Longrightarrow> a = b"
  by (metis history_rank leD moves_rank rtranclpD)

lemma absorbing: "allowed\<^sup>*\<^sup>* a b \<Longrightarrow> (\<And>c. \<not> allowed a c) \<Longrightarrow> b = a"
  by (erule converse_rtranclpE) auto

end

end
