(* ===== verification/Breaker.thy ===== *)
theory Breaker
  imports Prelude
begin

text \<open>
  The connection gate, \<open>internal/conngate\<close>: the circuit breaker of \<open>breaker.go\<close> (a
  mutex-protected state machine, so every method is one atomic operation) and the
  handling of one accepted connection, \<open>Proxy.Handle\<close> of \<open>proxy.go\<close>.

  The clock \<open>Now\<close> is injected in the code; every read of it is an argument here.
  The zero \<open>time.Time\<close> of \<open>openUntil\<close>, which \<open>IsZero\<close> tests, is \<open>None\<close>. The rate
  limiter is \<open>golang.org/x/time/rate\<close> and the dialled upstream is the network: their
  answers are arguments of \<open>Handle\<close>. Byte copying (\<open>pipe\<close>) and the set of tracked
  connections are not modelled.
\<close>

subsection \<open>The breaker\<close>

datatype State = Closed | Open

record Breaker =
  Threshold :: int
  OpenFor :: duration
  failures :: int
  openUntil :: "time option"
  trips :: int

definition NewBreaker :: "int \<Rightarrow> duration \<Rightarrow> Breaker" where
  "NewBreaker threshold openFor =
     \<lparr>Threshold = (if threshold \<le> 0 then 1 else threshold), OpenFor = openFor,
      failures = 0, openUntil = None, trips = 0\<rparr>"

definition stateLocked :: "time \<Rightarrow> Breaker \<Rightarrow> State \<times> Breaker" where
  "stateLocked now b =
     (case openUntil b of
        None \<Rightarrow> (Closed, b)
      | Some u \<Rightarrow>
          if now < u then (Open, b)
          else (Closed, b\<lparr>openUntil := None, failures := 0\<rparr>))"

definition Allow :: "time \<Rightarrow> Breaker \<Rightarrow> bool \<times> Breaker" where
  "Allow now b = (let (s, b') = stateLocked now b in (s = Closed, b'))"

text \<open>\<open>Failure\<close> reads the clock in \<open>stateLocked\<close> (\<open>now\<close>) and again to set the deadline (\<open>now'\<close>).\<close>

definition Failure :: "time \<Rightarrow> time \<Rightarrow> Breaker \<Rightarrow> Breaker" where
  "Failure now now' b =
     (let (s, b1) = stateLocked now b in
      if s = Open then b1
      else
        let b2 = b1\<lparr>failures := failures b1 + 1\<rparr> in
        if failures b2 \<ge> Threshold b2
        then b2\<lparr>openUntil := Some (now' + OpenFor b2), trips := trips b2 + 1\<rparr>
        else b2)"

definition Success :: "time \<Rightarrow> Breaker \<Rightarrow> Breaker" where
  "Success now b =
     (let (s, b1) = stateLocked now b in if s = Closed then b1\<lparr>failures := 0\<rparr> else b1)"

lemmas breaker_ops = stateLocked_def Allow_def Failure_def Success_def NewBreaker_def

subsection \<open>Histories of calls\<close>

text \<open>
  A call with the clock readings it makes. \<open>run\<close> plays a history; \<open>clock_ok\<close> says that
  the readings never go back (Go's monotonic clock).
\<close>

datatype call = CAllow time | CFailure time time | CSuccess time

fun call_from :: "call \<Rightarrow> time" where
  "call_from (CAllow t) = t" | "call_from (CFailure t _) = t" | "call_from (CSuccess t) = t"

fun call_to :: "call \<Rightarrow> time" where
  "call_to (CAllow t) = t" | "call_to (CFailure _ t) = t" | "call_to (CSuccess t) = t"

fun step :: "Breaker \<Rightarrow> call \<Rightarrow> Breaker" where
  "step b (CAllow t) = snd (Allow t b)"
| "step b (CFailure t t') = Failure t t' b"
| "step b (CSuccess t) = Success t b"

fun run :: "Breaker \<Rightarrow> call list \<Rightarrow> Breaker" where
  "run b [] = b"
| "run b (c # cs) = run (step b c) cs"

fun clock_ok :: "time \<Rightarrow> call list \<Rightarrow> bool" where
  "clock_ok t [] = True"
| "clock_ok t (c # cs) = (t \<le> call_from c \<and> call_from c \<le> call_to c \<and> clock_ok (call_to c) cs)"

fun last_clock :: "time \<Rightarrow> call list \<Rightarrow> time" where
  "last_clock t [] = t"
| "last_clock t (c # cs) = last_clock (call_to c) cs"

text \<open>The moments at which a history trips the breaker, in order.\<close>

fun trip_times :: "Breaker \<Rightarrow> call list \<Rightarrow> time list" where
  "trip_times b [] = []"
| "trip_times b (c # cs) =
     (if trips (step b c) \<noteq> trips b then [call_to c] else []) @ trip_times (step b c) cs"

subsection \<open>The breaker invariant\<close>

definition breaker_inv :: "Breaker \<Rightarrow> bool" where
  "breaker_inv b \<longleftrightarrow> 1 \<le> Threshold b \<and> 0 \<le> failures b \<and> failures b \<le> Threshold b \<and>
     (openUntil b = None \<longrightarrow> failures b < Threshold b)"

lemma NewBreaker_fields [simp]:
  "Threshold (NewBreaker n d) = (if n \<le> 0 then 1 else n)" "OpenFor (NewBreaker n d) = d"
  "failures (NewBreaker n d) = 0" "openUntil (NewBreaker n d) = None" "trips (NewBreaker n d) = 0"
  by (simp_all add: NewBreaker_def)

lemma NewBreaker_inv [inv_intros]: "breaker_inv (NewBreaker n d)"
  by (simp add: breaker_inv_def NewBreaker_def)

lemma stateLocked_inv [inv_intros]: "breaker_inv b \<Longrightarrow> breaker_inv (snd (stateLocked t b))"
  by (auto simp: breaker_inv_def stateLocked_def split: option.splits)

lemma step_inv [inv_intros]: "breaker_inv b \<Longrightarrow> breaker_inv (step b c)"
  by (cases c) (auto simp: breaker_inv_def breaker_ops Let_def split: option.splits prod.splits)

lemma run_inv: "breaker_inv b \<Longrightarrow> breaker_inv (run b cs)"
  by (induction cs arbitrary: b) (auto intro: inv_intros)

lemma step_config [simp]: "Threshold (step b c) = Threshold b" "OpenFor (step b c) = OpenFor b"
  by (cases c; auto simp: breaker_ops Let_def split: option.splits prod.splits)+

lemma run_config [simp]: "Threshold (run b cs) = Threshold b" "OpenFor (run b cs) = OpenFor b"
  by (induction cs arbitrary: b) auto

lemma trips_step: "trips (step b c) = trips b \<or> trips (step b c) = trips b + 1"
  by (cases c) (auto simp: breaker_ops Let_def split: option.splits prod.splits)

lemma trips_run: "trips (run b cs) = trips b + int (length (trip_times b cs))"
proof (induction cs arbitrary: b)
  case (Cons c cs)
  then show ?case using trips_step [of b c] by auto
qed simp

subsection \<open>When connections are refused\<close>

text \<open>
  Between two calls the breaker is described by its last trip: the deadline that is set,
  if any, is \<open>OpenFor\<close> after it, and a cleared deadline means the window has passed.
\<close>

definition explained :: "Breaker \<Rightarrow> time list \<Rightarrow> time \<Rightarrow> bool" where
  "explained b ts t \<longleftrightarrow>
     (\<forall>u. openUntil b = Some u \<longrightarrow> (\<exists>s\<in>set ts. u = s + OpenFor b)) \<and>
     (\<forall>s\<in>set ts. t < s + OpenFor b \<longrightarrow> openUntil b = Some (s + OpenFor b))"

lemma explained_later: "explained b ts t \<Longrightarrow> t \<le> t' \<Longrightarrow> explained b ts t'"
  by (auto simp: explained_def)

lemma explained_expire:
  "explained b ts t \<Longrightarrow> t \<le> now \<Longrightarrow> explained (snd (stateLocked now b)) ts now"
  by (fastforce simp: explained_def stateLocked_def split: option.splits)

lemma explained_failures [simp]: "explained (b\<lparr>failures := n\<rparr>) ts t = explained b ts t"
  by (simp add: explained_def)

lemma explained_trip:
  assumes "explained b ts t" "openUntil b = None" "t \<le> t'"
    and "openUntil b' = Some (t' + OpenFor b)" "OpenFor b' = OpenFor b"
  shows "explained b' (ts @ [t']) t'"
proof -
  have "\<not> t' < s + OpenFor b" if "s \<in> set ts" for s
    using assms(1,2,3) that by (auto simp: explained_def)
  with assms(4,5) show ?thesis by (auto simp: explained_def)
qed

lemma stateLocked_cases:
  obtains (closed) "fst (stateLocked t b) = Closed" "openUntil (snd (stateLocked t b)) = None"
  | (still_open) u where "fst (stateLocked t b) = Open" "snd (stateLocked t b) = b" "openUntil b = Some u" "t < u"
proof (cases "openUntil b")
  case None
  then show ?thesis by (intro closed) (simp_all add: stateLocked_def)
next
  case (Some u)
  then show ?thesis
    by (cases "t < u") (auto simp: stateLocked_def intro: closed still_open)
qed

lemma stateLocked_config [simp]:
  "Threshold (snd (stateLocked t b)) = Threshold b" "OpenFor (snd (stateLocked t b)) = OpenFor b"
  "trips (snd (stateLocked t b)) = trips b"
  by (auto simp: stateLocked_def split: option.splits)

lemma Failure_open: "fst (stateLocked n b) = Open \<Longrightarrow> Failure n n' b = snd (stateLocked n b)"
  by (cases "stateLocked n b") (simp add: Failure_def)

lemma Failure_trip:
  "fst (stateLocked n b) = Closed \<Longrightarrow> Threshold b \<le> failures (snd (stateLocked n b)) + 1 \<Longrightarrow>
   Failure n n' b = (snd (stateLocked n b))\<lparr>failures := failures (snd (stateLocked n b)) + 1,
     openUntil := Some (n' + OpenFor b), trips := trips b + 1\<rparr>"
  using stateLocked_config [of n b] by (cases "stateLocked n b") (simp add: Failure_def Let_def)

lemma Failure_count:
  "fst (stateLocked n b) = Closed \<Longrightarrow> failures (snd (stateLocked n b)) + 1 < Threshold b \<Longrightarrow>
   Failure n n' b = (snd (stateLocked n b))\<lparr>failures := failures (snd (stateLocked n b)) + 1\<rparr>"
  using stateLocked_config [of n b] by (cases "stateLocked n b") (simp add: Failure_def Let_def)

lemma explained_step:
  assumes "explained b ts t" "t \<le> call_from c" "call_from c \<le> call_to c"
  shows "explained (step b c) (ts @ (if trips (step b c) \<noteq> trips b then [call_to c] else [])) (call_to c)"
proof -
  let ?b = "snd (stateLocked (call_from c) b)"
  have ex: "explained ?b ts (call_from c)" using assms(1,2) by (rule explained_expire)
  then have ex': "explained ?b ts (call_to c)" using assms(3) by (rule explained_later)
  show ?thesis
  proof (cases c)
    case (CAllow x1)
    then show ?thesis using ex by (simp add: Allow_def split_beta)
  next
    case (CSuccess x3)
    then show ?thesis using ex by (simp add: Success_def split_beta)
  next
    case (CFailure n n')
    note ex = ex [unfolded CFailure, simplified] and ex' = ex' [unfolded CFailure, simplified]
    have le: "n \<le> n'" using assms(3) CFailure by simp
    consider (op) "fst (stateLocked n b) = Open"
      | (tr) "fst (stateLocked n b) = Closed" "Threshold b \<le> failures (snd (stateLocked n b)) + 1"
      | (co) "fst (stateLocked n b) = Closed" "failures (snd (stateLocked n b)) + 1 < Threshold b"
      by (meson State.exhaust not_le)
    then show ?thesis
    proof cases
      case op
      then show ?thesis using CFailure ex' by (simp add: Failure_open)
    next
      case tr
      from tr(1) have none: "openUntil (snd (stateLocked n b)) = None"
        by (cases rule: stateLocked_cases [of n b]) auto
      have "explained (Failure n n' b) (ts @ [n']) n'"
        by (rule explained_trip [OF ex none le]) (simp_all add: Failure_trip [OF tr])
      then show ?thesis using CFailure by (simp add: Failure_trip [OF tr])
    next
      case co
      then show ?thesis using CFailure ex' by (simp add: Failure_count)
    qed
  qed
qed

lemma explained_run:
  "explained b ts t \<Longrightarrow> clock_ok t cs \<Longrightarrow> explained (run b cs) (ts @ trip_times b cs) (last_clock t cs)"
proof (induction cs arbitrary: b ts t)
  case (Cons c cs)
  then show ?case
    using Cons.IH [OF explained_step [of b ts t c]] by (simp add: append_assoc del: append_assoc [symmetric])
qed simp

lemma Allow_explained:
  assumes "explained b ts t" "t \<le> now"
  shows "fst (Allow now b) \<longleftrightarrow> (\<forall>s\<in>set ts. s + OpenFor b \<le> now)"
proof (cases rule: stateLocked_cases [of now b])
  case closed
  have "explained (snd (stateLocked now b)) ts now" using assms by (rule explained_expire)
  with closed show ?thesis by (auto simp: explained_def Allow_def split_beta not_le)
next
  case (still_open u)
  with assms(1) obtain s where "s \<in> set ts" "u = s + OpenFor b" by (auto simp: explained_def)
  with still_open show ?thesis by (auto simp: Allow_def split_beta not_le)
qed

subsection \<open>The contract the proxy relies on\<close>

text \<open>
  What \<open>Proxy.Handle\<close> needs of a breaker: a refusal is exactly an open window, and an
  open window survives whatever is called before its end.
\<close>

locale circuit_breaker =
  fixes is_open :: "time \<Rightarrow> 'b \<Rightarrow> bool"
    and allow :: "time \<Rightarrow> 'b \<Rightarrow> bool \<times> 'b"
    and failure :: "time \<Rightarrow> time \<Rightarrow> 'b \<Rightarrow> 'b"
    and success :: "time \<Rightarrow> 'b \<Rightarrow> 'b"
  assumes allow_iff: "fst (allow t b) \<longleftrightarrow> \<not> is_open t b"
    and open_earlier: "is_open t b \<Longrightarrow> s \<le> t \<Longrightarrow> is_open s b"
    and open_allow: "is_open t b \<Longrightarrow> s \<le> t \<Longrightarrow> is_open t (snd (allow s b))"
    and open_failure: "is_open t b \<Longrightarrow> s \<le> t \<Longrightarrow> is_open t (failure s s' b)"
    and open_success: "is_open t b \<Longrightarrow> s \<le> t \<Longrightarrow> is_open t (success s b)"
begin

fun play :: "'b \<Rightarrow> call list \<Rightarrow> 'b" where
  "play b [] = b"
| "play b (CAllow t # cs) = play (snd (allow t b)) cs"
| "play b (CFailure t t' # cs) = play (failure t t' b) cs"
| "play b (CSuccess t # cs) = play (success t b) cs"

lemma play_open:
  "is_open t b \<Longrightarrow> \<forall>c\<in>set cs. call_from c \<le> t \<Longrightarrow> is_open t (play b cs)"
  by (induction b cs rule: play.induct) (auto intro: open_allow open_failure open_success)

lemma refused_during_window:
  "is_open t b \<Longrightarrow> \<forall>c\<in>set cs. call_from c \<le> t \<Longrightarrow> s \<le> t \<Longrightarrow> \<not> fst (allow s (play b cs))"
  using open_earlier [OF play_open] by (simp add: allow_iff)

end

definition is_open :: "time \<Rightarrow> Breaker \<Rightarrow> bool" where
  "is_open t b \<longleftrightarrow> fst (stateLocked t b) = Open"

lemma is_open_iff: "is_open t b \<longleftrightarrow> (\<exists>u. openUntil b = Some u \<and> t < u)"
  by (auto simp: is_open_def stateLocked_def split: option.splits)

lemma stateLocked_window: "is_open t b \<Longrightarrow> s \<le> t \<Longrightarrow> stateLocked s b = (Open, b)"
  by (auto simp: is_open_iff stateLocked_def)

interpretation gate: circuit_breaker is_open Allow Failure Success
proof unfold_locales
  fix t s s' :: time and b :: Breaker
  show "fst (Allow t b) \<longleftrightarrow> \<not> is_open t b"
    by (cases rule: stateLocked_cases [of t b]) (auto simp: Allow_def is_open_def split_beta)
  assume o: "is_open t b" and le: "s \<le> t"
  note st = stateLocked_window [OF o le]
  from st show "is_open s b" by (simp add: is_open_def)
  from st o show "is_open t (snd (Allow s b))" by (simp add: Allow_def)
  from st o show "is_open t (Failure s s' b)" by (simp add: Failure_def)
  from st o show "is_open t (Success s b)" by (simp add: Success_def)
qed

lemma play_run: "gate.play b cs = run b cs"
  by (induction b cs rule: gate.play.induct) auto

subsection \<open>One connection through the proxy\<close>

record Gauges =
  Accepted :: int
  RejectedRate :: int
  RejectedBreaker :: int
  Active :: int
  UpstreamFail :: int
  BreakerOpen :: int

datatype verdict = NoToken | Broken | NoUpstream | Served

text \<open>
  \<open>Handle\<close> up to the start of \<open>pipe\<close>; \<open>lim\<close> is the limiter's answer (\<open>None\<close>: no limiter
  configured), \<open>br\<close> the breaker (\<open>None\<close>: none configured), \<open>dial\<close> whether the upstream
  answered in time. The clock readings are \<open>clk 0, clk 1, \<dots>\<close> in the order the code takes
  them. The last component says whether the upstream was dialled.
\<close>

definition snapshot :: "time \<Rightarrow> Breaker option \<Rightarrow> Gauges \<Rightarrow> Breaker option \<times> Gauges" where
  "snapshot t br m =
     (case br of None \<Rightarrow> (None, m)
      | Some b \<Rightarrow> (let (s, b') = stateLocked t b in
                    (Some b', m\<lparr>BreakerOpen := (if s = Open then 1 else 0)\<rparr>)))"

definition Handle ::
  "bool option \<Rightarrow> bool \<Rightarrow> (nat \<Rightarrow> time) \<Rightarrow> Breaker option \<Rightarrow> Gauges \<Rightarrow>
   verdict \<times> Breaker option \<times> Gauges \<times> bool" where
  "Handle lim dial clk br m =
     (let (br1, m1) = snapshot (clk 0) br m in
      if lim = Some False
      then (NoToken, br1, m1\<lparr>RejectedRate := RejectedRate m1 + 1\<rparr>, False)
      else
        let (pass, br2) = (case br1 of None \<Rightarrow> (True, None)
                           | Some b \<Rightarrow> (let (a, b') = Allow (clk 1) b in (a, Some b'))) in
        if \<not> pass
        then (Broken, br2, m1\<lparr>RejectedBreaker := RejectedBreaker m1 + 1, BreakerOpen := 1\<rparr>, False)
        else if \<not> dial
        then (let m2 = m1\<lparr>UpstreamFail := UpstreamFail m1 + 1\<rparr> in
              case br2 of None \<Rightarrow> (NoUpstream, None, m2, True)
              | Some b \<Rightarrow>
                  let (s, b') = stateLocked (clk 4) (Failure (clk 2) (clk 3) b) in
                  (NoUpstream, Some b', if s = Open then m2\<lparr>BreakerOpen := 1\<rparr> else m2, True))
        else (Served, map_option (Success (clk 2)) br2,
              m1\<lparr>Accepted := Accepted m1 + 1, Active := Active m1 + 1\<rparr>, True))"

definition handled :: "Gauges \<Rightarrow> int" where
  "handled m = Accepted m + RejectedRate m + RejectedBreaker m + UpstreamFail m"

lemma snapshot_gauges:
  "snapshot t br m = (br', m') \<Longrightarrow>
   handled m' = handled m \<and> Active m' = Active m \<and> (br' = None \<longleftrightarrow> br = None)"
  by (auto simp: snapshot_def handled_def split: option.splits prod.splits)

lemma snapshot_window:
  "is_open t b \<Longrightarrow> s \<le> t \<Longrightarrow> snapshot s (Some b) m = (Some b, m\<lparr>BreakerOpen := 1\<rparr>)"
  by (simp add: snapshot_def stateLocked_window)

lemma Allow_window: "is_open t b \<Longrightarrow> s \<le> t \<Longrightarrow> Allow s b = (False, b)"
  by (simp add: Allow_def stateLocked_window)

lemma Handle_refused:
  assumes "is_open t b" "clk 0 \<le> t" "clk 1 \<le> t"
  shows "\<exists>v m'. Handle lim dial clk (Some b) m = (v, Some b, m', False) \<and> v \<in> {NoToken, Broken}"
  using snapshot_window [OF assms(1,2)] Allow_window [OF assms(1,3)]
  by (auto simp: Handle_def Let_def)

lemma Handle_counts:
  "Handle lim dial clk br m = (v, br', m', dialled) \<Longrightarrow> handled m' = handled m + 1"
  by (cases "snapshot (clk 0) br m")
     (auto dest!: snapshot_gauges simp: Handle_def Let_def handled_def split: if_splits option.splits prod.splits)

lemma Handle_dialled:
  "Handle lim dial clk br m = (v, br', m', dialled) \<Longrightarrow> dialled \<longleftrightarrow> v \<in> {NoUpstream, Served}"
  by (auto simp: Handle_def Let_def split: if_splits option.splits prod.splits)

subsection \<open>Trips and failures\<close>

fun failure_calls :: "call list \<Rightarrow> int" where
  "failure_calls [] = 0"
| "failure_calls (CFailure _ _ # cs) = failure_calls cs + 1"
| "failure_calls (c # cs) = failure_calls cs"

text \<open>Failures that have been counted and not yet spent on a trip, under an open deadline or not.\<close>

definition budget :: "Breaker \<Rightarrow> int" where
  "budget b = Threshold b * trips b + (if openUntil b = None then failures b else 0)"

lemma budget_stateLocked:
  "breaker_inv b \<Longrightarrow> budget (snd (stateLocked t b)) = budget b"
  by (auto simp: budget_def stateLocked_def split: option.splits)

lemma budget_step:
  assumes "breaker_inv b"
  shows "budget (step b c) \<le> budget b + failure_calls [c]"
proof (cases c)
  case (CAllow t)
  then show ?thesis using budget_stateLocked [OF assms] by (simp add: Allow_def split_beta)
next
  case (CSuccess t)
  have "breaker_inv (snd (stateLocked t b))" using assms by (rule stateLocked_inv)
  then show ?thesis using CSuccess budget_stateLocked [OF assms, of t]
    by (auto simp: Success_def split_beta budget_def breaker_inv_def)
next
  case (CFailure n n')
  let ?b = "snd (stateLocked n b)"
  have inv: "breaker_inv ?b" and bud: "budget ?b = budget b"
    using assms by (simp_all add: stateLocked_inv budget_stateLocked)
  show ?thesis
  proof (cases rule: stateLocked_cases [of n b])
    case closed
    then show ?thesis using CFailure inv bud
      by (cases "Threshold b \<le> failures ?b + 1")
         (auto simp: Failure_trip Failure_count budget_def breaker_inv_def algebra_simps)
  next
    case still_open
    then show ?thesis using CFailure bud by (simp add: Failure_open)
  qed
qed

lemma budget_run: "breaker_inv b \<Longrightarrow> budget (run b cs) \<le> budget b + failure_calls cs"
proof (induction cs arbitrary: b)
  case (Cons c cs)
  have "budget (run (step b c) cs) \<le> budget (step b c) + failure_calls cs"
    using Cons by (simp add: step_inv)
  with budget_step [OF Cons.prems, of c] show ?case by (cases c) simp_all
qed simp

lemma failures_in_a_row:
  "openUntil b = None \<Longrightarrow> breaker_inv b \<Longrightarrow> int (length ts) < Threshold b - failures b \<Longrightarrow>
   run b (map (\<lambda>t. CFailure t t) ts) = b\<lparr>failures := failures b + int (length ts)\<rparr>"
proof (induction ts arbitrary: b)
  case (Cons t ts)
  have st: "stateLocked t b = (Closed, b)" using Cons.prems by (simp add: stateLocked_def)
  have "Failure t t b = b\<lparr>failures := failures b + 1\<rparr>"
    using Cons.prems(3) Failure_count [of t b t] by (simp add: st)
  then show ?case using Cons.prems Cons.IH [of "b\<lparr>failures := failures b + 1\<rparr>"]
    by (simp add: breaker_inv_def)
qed simp

lemma run_append: "run b (cs @ ds) = run (run b cs) ds"
  by (induction cs arbitrary: b) auto

subsection \<open>Properties\<close>

text \<open>a new breaker, after any history of calls on a clock that does not go back, lets a
  connection through at \<open>now\<close> exactly when every trip of the history lies at least
  \<open>OpenFor\<close> in the past.\<close>

theorem breaker_allow_iff_no_recent_trip:
  assumes "clock_ok t0 cs" and "last_clock t0 cs \<le> now"
  shows "fst (Allow now (run (NewBreaker n d) cs)) \<longleftrightarrow>
         (\<forall>s\<in>set (trip_times (NewBreaker n d) cs). s + d \<le> now)"
proof -
  have "explained (NewBreaker n d) [] t0" by (simp add: explained_def NewBreaker_def)
  from explained_run [OF this assms(1)] assms(2)
  show ?thesis by (simp add: Allow_explained)
qed

lemma breaker_allow_iff_no_recent_trip_witness:
  "\<not> fst (Allow 14 (run (NewBreaker 2 10) [CFailure 1 1, CFailure 4 5]))"
  by (subst breaker_allow_iff_no_recent_trip [of 0]) (simp_all add: breaker_ops)

text \<open>whatever the history, each trip of the breaker has used up \<open>Threshold\<close> failures of
  its own, and \<open>Threshold\<close> failures in a row on a closed breaker do trip it, with the
  deadline \<open>OpenFor\<close> after the last of them.\<close>

theorem breaker_trips_on_threshold:
  "Threshold (run (NewBreaker n d) cs) * trips (run (NewBreaker n d) cs) \<le> failure_calls cs \<and>
   (1 \<le> n \<longrightarrow> int (length ts) + 1 = n \<longrightarrow>
      openUntil (run (NewBreaker n d) (map (\<lambda>t. CFailure t t) ts @ [CFailure s s'])) = Some (s' + d))"
proof (intro conjI impI)
  have "breaker_inv (run (NewBreaker n d) cs)" by (intro run_inv NewBreaker_inv)
  then show "Threshold (run (NewBreaker n d) cs) * trips (run (NewBreaker n d) cs) \<le> failure_calls cs"
    using budget_run [OF NewBreaker_inv, of n d cs]
    by (cases "openUntil (run (NewBreaker n d) cs)") (auto simp: budget_def breaker_inv_def)
next
  assume n: "1 \<le> n" "int (length ts) + 1 = n"
  then have "run (NewBreaker n d) (map (\<lambda>t. CFailure t t) ts) = (NewBreaker n d)\<lparr>failures := int (length ts)\<rparr>"
    by (subst failures_in_a_row) (simp_all add: NewBreaker_inv)
  then show "openUntil (run (NewBreaker n d) (map (\<lambda>t. CFailure t t) ts @ [CFailure s s'])) = Some (s' + d)"
    using n by (simp add: run_append Failure_def stateLocked_def)
qed

lemma breaker_trips_on_threshold_witness:
  "openUntil (run (NewBreaker 3 10) (map (\<lambda>t. CFailure t t) [1, 2] @ [CFailure 4 5])) = Some 15"
  using breaker_trips_on_threshold [of 3 10 "[]" "[1, 2]" 4 5] by simp

text \<open>while a window is open, whatever calls other connections make meanwhile, a new
  connection is refused before any upstream is dialled and leaves the breaker as it was.\<close>

theorem open_gate_refuses_undialled:
  assumes "is_open t b" and "\<forall>c\<in>set cs. call_from c \<le> t" and "clk 0 \<le> t" and "clk 1 \<le> t"
  shows "\<exists>v m'. Handle lim dial clk (Some (run b cs)) m = (v, Some (run b cs), m', False) \<and>
           v \<in> {NoToken, Broken} \<and> handled m' = handled m + 1"
proof -
  have "is_open t (run b cs)" using gate.play_open [OF assms(1,2)] by (simp add: play_run)
  from Handle_refused [OF this assms(3,4)]
  obtain v m' where "Handle lim dial clk (Some (run b cs)) m = (v, Some (run b cs), m', False)"
    and "v \<in> {NoToken, Broken}" by blast
  then show ?thesis using Handle_counts by fastforce
qed

lemma open_gate_refuses_undialled_witness:
  defines "m0 \<equiv> \<lparr>Accepted = 0, RejectedRate = 0, RejectedBreaker = 0, Active = 0, UpstreamFail = 0, BreakerOpen = 0\<rparr>"
  shows "\<exists>v m'. Handle None True (\<lambda>_. 8) (Some (run (run (NewBreaker 1 10) [CFailure 1 1]) [CSuccess 5])) m0
           = (v, Some (run (run (NewBreaker 1 10) [CFailure 1 1]) [CSuccess 5]), m', False) \<and>
           v \<in> {NoToken, Broken} \<and> handled m' = handled m0 + 1"
  by (rule open_gate_refuses_undialled [of 9]) (simp_all add: is_open_def breaker_ops)

end
