(* ===== verification/Mqtt.thy ===== *)
theory Mqtt
  imports Prelude
begin

unbundle bit_operations_syntax

text \<open>
  The two hand-written MQTT 3.1.1 codecs: \<open>internal/simulator/mqtt/packet.go\<close> (the
  simulator's client) and the publishing half of \<open>internal/ota/mqttmini.go\<close> (the OTA
  service's dispatcher). Bytes are 8-bit words, strings byte lists; a read from the
  connection consumes a prefix of the bytes that are still to come, and the end of the
  list is the end of the stream. \<open>encodeString\<close> and \<open>lenStr\<close> keep Go's conversion
  \<open>uint16(len(s))\<close>, which wraps.
\<close>

type_synonym bytes = "byte list"

datatype read_error = EOF | UnexpectedEOF | Malformed | TooLarge nat

record packet =
  ptyp :: byte
  pflags :: byte
  pbody :: bytes

abbreviation typeCONNECT :: byte where "typeCONNECT \<equiv> 1"
abbreviation typePUBLISH :: byte where "typePUBLISH \<equiv> 3"
abbreviation typePUBACK :: byte where "typePUBACK \<equiv> 4"
abbreviation typeSUBSCRIBE :: byte where "typeSUBSCRIBE \<equiv> 8"

definition maxPacketSize :: nat where "maxPacketSize = 4 * 1024 * 1024"

subsection \<open>Encoding\<close>

fun encodeRemainingLength :: "nat \<Rightarrow> bytes" where
  "encodeRemainingLength n =
     (let b = word_of_nat (n mod 128); n' = n div 128 in
      if 0 < n' then (b OR 0x80) # encodeRemainingLength n' else [b])"

declare encodeRemainingLength.simps [simp del]

definition putUint16 :: "u16 \<Rightarrow> bytes" where
  "putUint16 v = [ucast (drop_bit 8 v), ucast v]"

definition uint16_of :: "byte \<Rightarrow> byte \<Rightarrow> u16" where
  "uint16_of hi lo = ucast lo OR push_bit 8 (ucast hi)"

definition encodeString :: "bytes \<Rightarrow> bytes" where
  "encodeString s = putUint16 (word_of_nat (length s)) @ s"

definition readString :: "bytes \<Rightarrow> read_error + bytes \<times> bytes" where
  "readString b =
     (case b of
        hi # lo # rest \<Rightarrow>
          (let n = unat (uint16_of hi lo) in
           if length b < 2 + n then Inl Malformed else Inr (take n rest, drop n rest))
      | _ \<Rightarrow> Inl Malformed)"

definition frame :: "byte \<Rightarrow> byte \<Rightarrow> bytes \<Rightarrow> bytes" where
  "frame t f b = (push_bit 4 t OR (f AND 0x0f)) # encodeRemainingLength (length b) @ b"

subsection \<open>Decoding\<close>

text \<open>The \<open>for\<close> loop of \<open>readPacket\<close>: \<open>i\<close> counts the length bytes read, at most four.\<close>

fun readLength :: "nat \<Rightarrow> nat \<Rightarrow> nat \<Rightarrow> bytes \<Rightarrow> read_error + nat \<times> bytes" where
  "readLength i n mult [] = Inl EOF"
| "readLength i n mult (b # bs) =
     (let n' = n + unat (b AND 0x7f) * mult in
      if b AND 0x80 = 0 then Inr (n', bs)
      else if i = 3 then Inl Malformed
      else readLength (Suc i) n' (mult * 128) bs)"

definition readPacket :: "bytes \<Rightarrow> read_error + packet \<times> bytes" where
  "readPacket bs =
     (case bs of
        [] \<Rightarrow> Inl EOF
      | h # bs1 \<Rightarrow>
          (case readLength 0 0 1 bs1 of
             Inl e \<Rightarrow> Inl e
           | Inr (n, bs2) \<Rightarrow>
               if maxPacketSize < n then Inl (TooLarge n)
               else if length bs2 < n then Inl (if bs2 = [] then EOF else UnexpectedEOF)
               else Inr (\<lparr>ptyp = drop_bit 4 h, pflags = h AND 0x0f, pbody = take n bs2\<rparr>, drop n bs2)))"

subsection \<open>The packets of the client\<close>

definition connectPacket :: "bytes \<Rightarrow> bytes \<Rightarrow> bytes \<Rightarrow> bool \<Rightarrow> u16 \<Rightarrow> bytes" where
  "connectPacket clientID username password cleanSession keepAliveSec =
     (let f1 = (if cleanSession then 0x02 else 0 :: byte);
          f2 = (if username \<noteq> [] then f1 OR 0x80 else f1);
          f3 = (if username \<noteq> [] \<and> password \<noteq> [] then f2 OR 0x40 else f2);
          b = encodeString [0x4d, 0x51, 0x54, 0x54] @ [4] @ [f3] @ putUint16 keepAliveSec @
              encodeString clientID @
              (if username \<noteq> [] then encodeString username @
                 (if password \<noteq> [] then encodeString password else []) else [])
      in frame typeCONNECT 0 b)"

definition publishPacket :: "bytes \<Rightarrow> byte \<Rightarrow> u16 \<Rightarrow> bytes \<Rightarrow> bytes" where
  "publishPacket topic qos pid payload =
     frame typePUBLISH (push_bit 1 qos)
       (encodeString topic @ (if 0 < qos then putUint16 pid else []) @ payload)"

definition pubackPacket :: "u16 \<Rightarrow> bytes" where
  "pubackPacket pid = frame typePUBACK 0 (putUint16 pid)"

definition subscribePacket :: "u16 \<Rightarrow> bytes \<Rightarrow> byte \<Rightarrow> bytes" where
  "subscribePacket pid filt qos = frame typeSUBSCRIBE 0x02 (putUint16 pid @ encodeString filt @ [qos])"

record Message =
  Topic :: bytes
  Payload :: bytes
  QoS :: byte
  PID :: u16

definition parsePublish :: "packet \<Rightarrow> read_error + Message" where
  "parsePublish p =
     (case readString (pbody p) of
        Inl e \<Rightarrow> Inl e
      | Inr (topic, rest) \<Rightarrow>
          (let q = drop_bit 1 (pflags p) AND 0x03 in
           if 0 < q then
             (case rest of
                hi # lo # rest' \<Rightarrow> Inr \<lparr>Topic = topic, Payload = rest', QoS = q, PID = uint16_of hi lo\<rparr>
              | _ \<Rightarrow> Inl Malformed)
           else Inr \<lparr>Topic = topic, Payload = rest, QoS = q, PID = 0\<rparr>))"

subsection \<open>The publishing codec of the OTA service\<close>

fun encLen :: "nat \<Rightarrow> bytes" where
  "encLen n =
     (let b = word_of_nat (n mod 128); n' = n div 128 in
      if 0 < n' then (b OR 0x80) # encLen n' else [b])"

declare encLen.simps [simp del]

definition lenStr :: "bytes \<Rightarrow> bytes" where
  "lenStr s = putUint16 (word_of_nat (length s)) @ s"

definition miniConnect :: "bytes \<Rightarrow> bytes \<Rightarrow> bytes \<Rightarrow> bytes" where
  "miniConnect clientID user pass =
     (let f1 = (0x02 :: byte);
          f2 = (if user \<noteq> [] then f1 OR 0x80 else f1);
          f3 = (if user \<noteq> [] \<and> pass \<noteq> [] then f2 OR 0x40 else f2);
          b = lenStr [0x4d, 0x51, 0x54, 0x54] @ [4] @ [f3] @ [0, 60] @ lenStr clientID @
              (if user \<noteq> [] then lenStr user @ (if pass \<noteq> [] then lenStr pass else []) else [])
      in 0x10 # encLen (length b) @ b)"

definition miniPublish :: "bytes \<Rightarrow> bytes \<Rightarrow> bytes" where
  "miniPublish topic payload =
     (let b = lenStr topic @ payload in 0x30 # encLen (length b) @ b)"

subsection \<open>Packet identifiers\<close>

definition allocPID :: "u16 \<Rightarrow> u16 \<times> u16" where
  "allocPID nextPID = (let n = nextPID + 1; n' = (if n = 0 then 1 else n) in (n', n'))"

subsection \<open>Words\<close>

lemmas bit_rules = bit_or_iff bit_and_iff bit_push_bit_iff bit_drop_bit_eq bit_mask_iff
  bit_take_bit_iff bit_1_iff possible_bit_word o_apply

lemma masks: "(0x0f :: byte) = mask 4" "(0x7f :: byte) = mask 7" "(0x80 :: byte) = push_bit 7 1"
  by (simp_all add: mask_eq_exp_minus_1)

lemma unat_small: "m < 128 \<Longrightarrow> unat (word_of_nat m :: byte) = m"
  by (simp add: unat_of_nat take_bit_eq_mod)

lemma take_bit_small: "unat (t :: byte) < 2 ^ n \<Longrightarrow> take_bit n t = t"
  by (rule word_unat_eq_iff [THEN iffD2]) (simp only: unsigned_take_bit_eq take_bit_nat_eq_self)

lemma low7: "((b OR 0x80) AND 0x7f :: byte) = take_bit 7 b" "(b AND 0x7f :: byte) = take_bit 7 b"
  unfolding masks by (rule bit_word_eqI; simp only: bit_rules; auto)+

lemma unat_low7 [simp]:
  "m < 128 \<Longrightarrow> unat ((word_of_nat m OR 0x80) AND 0x7f :: byte) = m"
  "m < 128 \<Longrightarrow> unat ((word_of_nat m :: byte) AND 0x7f) = m"
  by (simp_all only: low7 take_bit_small unat_small numeral_power_eq_of_nat_cancel_iff) (simp_all add: take_bit_small unat_small)

lemma cont_bit [simp]: "(b OR 0x80 :: byte) AND 0x80 \<noteq> 0"
proof -
  have "bit ((b OR 0x80) AND 0x80 :: byte) 7" unfolding masks by (simp only: bit_simps) simp
  then show ?thesis by (metis bit_0_eq bot_fun_def bot_bool_def)
qed

lemma low_no_cont [simp]: "m < 128 \<Longrightarrow> (word_of_nat m :: byte) AND 0x80 = 0"
proof -
  assume "m < 128"
  then have "take_bit 7 (word_of_nat m :: byte) = word_of_nat m"
    by (intro take_bit_small) (simp add: unat_small)
  moreover have "take_bit 7 (word_of_nat m :: byte) AND 0x80 = 0"
    unfolding masks by (rule bit_word_eqI) (simp only: bit_rules, auto)
  ultimately show ?thesis by simp
qed

lemma uint16_roundtrip [simp]: "uint16_of (ucast (drop_bit 8 v)) (ucast v) = v"
  unfolding uint16_of_def
  by (rule bit_word_eqI) (auto simp: bit_simps)

lemma nibble_hi: "drop_bit 4 (push_bit 4 t OR (f AND 0x0f) :: byte) = take_bit 4 t"
  unfolding masks by (rule bit_word_eqI) (simp only: bit_rules, auto)

lemma nibble_shift: "drop_bit 4 (push_bit 4 t) = take_bit 4 (t :: byte)"
  by (rule bit_word_eqI) (simp only: bit_rules, auto)

lemma nibble_lo: "(push_bit 4 t OR (f AND 0x0f) :: byte) AND 0x0f = f AND 0x0f"
  unfolding masks by (rule bit_word_eqI) (simp only: bit_rules, auto)

subsection \<open>Length and string round trips\<close>

lemma encodeRemainingLength_nonempty [simp]: "encodeRemainingLength n \<noteq> []"
  by (subst encodeRemainingLength.simps) (simp add: Let_def)

lemma readLength_roundtrip:
  "n < 128 ^ (4 - i) \<Longrightarrow> i \<le> 3 \<Longrightarrow>
   readLength i acc mult (encodeRemainingLength n @ r) = Inr (acc + n * mult, r)"
proof (induction n arbitrary: i acc mult rule: encodeRemainingLength.induct)
  case (1 n)
  show ?case
  proof (cases "0 < n div 128")
    case False
    then have "n < 128" by simp
    with False show ?thesis by (subst encodeRemainingLength.simps) (simp add: Let_def)
  next
    case True
    with "1.prems" have "i \<noteq> 3" by (auto simp: div_greater_zero_iff)
    then have i: "Suc i \<le> 3" using "1.prems" by simp
    then have "4 - i = Suc (4 - Suc i)" by simp
    with "1.prems" have "n div 128 < 128 ^ (4 - Suc i)"
      by (simp add: less_mult_imp_div_less mult.commute)
    from "1.IH" [OF refl refl True this i]
    have "readLength (Suc i) (acc + n mod 128 * mult) (mult * 128) (encodeRemainingLength (n div 128) @ r)
        = Inr (acc + n mod 128 * mult + n div 128 * (mult * 128), r)" .
    moreover have "n mod 128 * mult + n div 128 * (mult * 128) = n * mult"
      by (metis (no_types, lifting) add.commute add_mult_distrib mod_mult_div_eq mult.assoc mult.commute)
    ultimately show ?thesis using True \<open>i \<noteq> 3\<close>
      by (subst encodeRemainingLength.simps) (simp add: Let_def)
  qed
qed

lemma length_encodeString [simp]: "length (encodeString s) = length s + 2"
  by (simp add: encodeString_def putUint16_def)

lemma unat_length16: "unat (word_of_nat n :: u16) = n mod 65536"
  by (simp add: unat_of_nat take_bit_eq_mod)

lemma readString_encode:
  "length s < 65536 \<Longrightarrow> readString (encodeString s @ r) = Inr (s, r)"
  by (simp add: readString_def encodeString_def putUint16_def Let_def unat_length16)

subsection \<open>Framings\<close>

text \<open>
  The contract between a writer and a reader of a byte stream: what was written is read
  back and the rest of the stream is left. The client lemmas say that frames can be
  concatenated: no frame is confused with another, and a sequence of frames is read
  back as it was sent.
\<close>

locale framing =
  fixes enc :: "'a \<Rightarrow> bytes"
    and dec :: "bytes \<Rightarrow> read_error + 'a \<times> bytes"
    and ok :: "'a \<Rightarrow> bool"
  assumes roundtrip: "ok x \<Longrightarrow> dec (enc x @ r) = Inr (x, r)"
begin

lemma prefix_free: "ok x \<Longrightarrow> ok y \<Longrightarrow> enc x @ r = enc y @ s \<Longrightarrow> x = y \<and> r = s"
  by (metis roundtrip sum.inject(2) prod.inject)

lemma enc_inj: "ok x \<Longrightarrow> ok y \<Longrightarrow> enc x = enc y \<Longrightarrow> x = y"
  using prefix_free [of x y "[]" "[]"] by simp

fun dec_many :: "nat \<Rightarrow> bytes \<Rightarrow> read_error + 'a list \<times> bytes" where
  "dec_many 0 bs = Inr ([], bs)"
| "dec_many (Suc n) bs =
     (case dec bs of Inl e \<Rightarrow> Inl e
      | Inr (x, bs') \<Rightarrow> (case dec_many n bs' of Inl e \<Rightarrow> Inl e | Inr (xs, bs'') \<Rightarrow> Inr (x # xs, bs'')))"

lemma stream_roundtrip:
  "list_all ok xs \<Longrightarrow> dec_many (length xs) (concat (map enc xs) @ r) = Inr (xs, r)"
  by (induction xs) (simp_all add: roundtrip)

end

interpretation str: framing encodeString readString "\<lambda>s. length s < 65536"
  by unfold_locales (rule readString_encode)

definition wire :: "packet \<Rightarrow> bytes" where
  "wire p = frame (ptyp p) (pflags p) (pbody p)"

definition sendable :: "packet \<Rightarrow> bool" where
  "sendable p \<longleftrightarrow> unat (ptyp p) < 16 \<and> pflags p AND 0x0f = pflags p \<and> length (pbody p) \<le> maxPacketSize"

lemma readPacket_frame:
  assumes "unat t < 16" "length b \<le> maxPacketSize"
  shows "readPacket (frame t f b @ r) = Inr (\<lparr>ptyp = t, pflags = f AND 0x0f, pbody = b\<rparr>, r)"
proof -
  have "length b < 128 ^ (4 - 0)" using assms(2) by (simp add: maxPacketSize_def)
  from readLength_roundtrip [OF this, of 0 1 "b @ r"]
  show ?thesis using assms(2) take_bit_small [of t 4] assms(1)
    by (simp add: readPacket_def frame_def nibble_shift nibble_lo)
qed

interpretation pkt: framing wire readPacket sendable
  by unfold_locales (simp add: wire_def sendable_def readPacket_frame)

subsection \<open>Truncated input\<close>

lemma readLength_truncated:
  "k < length (encodeRemainingLength n) \<Longrightarrow> n < 128 ^ (4 - i) \<Longrightarrow> i \<le> 3 \<Longrightarrow>
   readLength i acc mult (take k (encodeRemainingLength n)) = Inl EOF"
proof (induction n arbitrary: k i acc mult rule: encodeRemainingLength.induct)
  case (1 n)
  show ?case
  proof (cases "0 < n div 128")
    case False
    with "1.prems"(1) show ?thesis
      by (subst (asm) encodeRemainingLength.simps) (simp add: Let_def)
  next
    case True
    with "1.prems" have "i \<noteq> 3" by (auto simp: div_greater_zero_iff)
    then have i: "Suc i \<le> 3" using "1.prems" by simp
    then have "4 - i = Suc (4 - Suc i)" by simp
    with "1.prems" have n: "n div 128 < 128 ^ (4 - Suc i)"
      by (simp add: less_mult_imp_div_less mult.commute)
    have eq: "encodeRemainingLength n
        = (word_of_nat (n mod 128) OR 0x80) # encodeRemainingLength (n div 128)"
      using True by (subst encodeRemainingLength.simps) (simp add: Let_def)
    show ?thesis
    proof (cases k)
      case (Suc k')
      with "1.prems"(1) have "k' < length (encodeRemainingLength (n div 128))" by (simp add: eq)
      from "1.IH" [OF refl refl True this n i] \<open>i \<noteq> 3\<close> Suc
      show ?thesis by (simp add: eq Let_def)
    qed simp
  qed
qed

lemma readPacket_truncated:
  assumes "length b \<le> maxPacketSize" "k < length (frame t f b)"
  shows "readPacket (take k (frame t f b)) \<in> {Inl EOF, Inl UnexpectedEOF}"
proof -
  let ?L = "encodeRemainingLength (length b)"
  have len: "length b < 128 ^ (4 - 0)" using assms(1) by (simp add: maxPacketSize_def)
  show ?thesis
  proof (cases k)
    case 0
    then show ?thesis by (simp add: readPacket_def)
  next
    case (Suc k')
    show ?thesis
    proof (cases "k' < length ?L")
      case True
      have "readLength 0 0 1 (take k' ?L) = Inl EOF"
        by (rule readLength_truncated [OF True len]) simp
      with Suc True show ?thesis by (simp add: readPacket_def frame_def)
    next
      case False
      with readLength_roundtrip [OF len, of 0 1 "take (k' - length ?L) b"]
      show ?thesis using Suc assms by (auto simp: readPacket_def frame_def)
    qed
  qed
qed

subsection \<open>The read loop of the client\<close>

lemma readLength_shorter: "readLength i n mult bs = Inr (m, bs') \<Longrightarrow> length bs' < length bs"
  by (induction i n mult bs rule: readLength.induct) (auto simp: Let_def split: if_splits)

lemma readPacket_shorter: "readPacket bs = Inr (p, bs') \<Longrightarrow> length bs' < length bs"
  by (auto simp: readPacket_def split: list.splits sum.splits if_splits dest!: readLength_shorter)

text \<open>
  What \<open>readLoop\<close> (\<open>client.go\<close>) has done so far: the messages handed to \<open>onMessage\<close>,
  the identifiers it has written PUBACKs for, the calls of \<open>OnPubAck\<close>, the
  subscriptions still waiting and those resolved (with \<open>True\<close> when accepted). Writes are
  taken to succeed; a failed write closes the connection, which ends the loop at the
  next read.
\<close>

record Loop =
  delivered :: "Message list"
  pubacked :: "u16 list"
  onPubAck :: nat
  waiters :: "u16 set"
  resolved :: "(u16 \<times> bool) list"

definition onPacket :: "packet \<Rightarrow> Loop \<Rightarrow> read_error + Loop" where
  "onPacket p l =
     (if ptyp p = 3 then
        (case parsePublish p of
           Inl e \<Rightarrow> Inl e
         | Inr m \<Rightarrow> Inr (l\<lparr>delivered := delivered l @ [m],
                           pubacked := pubacked l @ (if 0 < QoS m then [PID m] else [])\<rparr>))
      else if ptyp p = 4 then Inr (l\<lparr>onPubAck := onPubAck l + 1\<rparr>)
      else if ptyp p = 9 then
        (case pbody p of
           hi # lo # rc # _ \<Rightarrow>
             (let pid = uint16_of hi lo in
              Inr (if pid \<in> waiters l
                   then l\<lparr>waiters := waiters l - {pid}, resolved := resolved l @ [(pid, rc \<noteq> 0x80)]\<rparr>
                   else l))
         | _ \<Rightarrow> Inl Malformed)
      else Inr l)"

function readLoop :: "bytes \<Rightarrow> Loop \<Rightarrow> Loop \<times> read_error" where
  "readLoop bs l =
     (case readPacket bs of
        Inl e \<Rightarrow> (l, e)
      | Inr (p, bs') \<Rightarrow> (case onPacket p l of Inl e \<Rightarrow> (l, e) | Inr l' \<Rightarrow> readLoop bs' l'))"
  by pat_completeness auto
termination
  by (relation "measure (\<lambda>(bs, l). length bs)") (auto dest: readPacket_shorter)

declare readLoop.simps [simp del]

subsection \<open>Publish packets\<close>

definition publish_ok :: "bytes \<Rightarrow> byte \<Rightarrow> bytes \<Rightarrow> bool" where
  "publish_ok topic qos payload \<longleftrightarrow>
     length topic < 65536 \<and> unat qos < 4 \<and> length topic + length payload + 4 \<le> maxPacketSize"

definition message :: "bytes \<Rightarrow> byte \<Rightarrow> u16 \<Rightarrow> bytes \<Rightarrow> Message" where
  "message topic qos pid payload =
     \<lparr>Topic = topic, Payload = payload, QoS = qos, PID = (if 0 < qos then pid else 0)\<rparr>"

definition publish_frame :: "bytes \<Rightarrow> byte \<Rightarrow> u16 \<Rightarrow> bytes \<Rightarrow> packet" where
  "publish_frame topic qos pid payload =
     \<lparr>ptyp = 3, pflags = push_bit 1 qos AND 0x0f,
      pbody = encodeString topic @ (if 0 < qos then putUint16 pid else []) @ payload\<rparr>"

lemma qos_flags: "unat q < 4 \<Longrightarrow> drop_bit 1 (push_bit 1 q AND 0x0f) AND (0x03 :: byte) = q"
proof -
  assume "unat q < 4"
  then have "take_bit 2 q = q" by (intro take_bit_small) simp
  moreover have "drop_bit 1 (push_bit 1 q AND mask 4) AND (mask 2 :: byte) = take_bit 2 q"
    by (rule bit_word_eqI) (simp only: bit_rules, auto)
  moreover have "(0x03 :: byte) = mask 2" by (simp add: mask_eq_exp_minus_1)
  ultimately show ?thesis by (simp only: masks)
qed

lemma readPacket_publish:
  "publish_ok topic qos payload \<Longrightarrow>
   readPacket (publishPacket topic qos pid payload @ r) = Inr (publish_frame topic qos pid payload, r)"
  unfolding publishPacket_def publish_frame_def
  by (rule readPacket_frame) (auto simp: publish_ok_def putUint16_def)

lemma parsePublish_frame:
  assumes "publish_ok topic qos payload"
  shows "parsePublish (publish_frame topic qos pid payload) = Inr (message topic qos pid payload)"
proof -
  have q: "drop_bit 1 (pflags (publish_frame topic qos pid payload)) AND 0x03 = qos"
    using assms qos_flags [of qos] by (simp only: publish_ok_def publish_frame_def packet.simps)
  have r: "readString (pbody (publish_frame topic qos pid payload))
      = Inr (topic, (if 0 < qos then putUint16 pid else []) @ payload)"
    using assms readString_encode [of topic] by (simp add: publish_ok_def publish_frame_def)
  show ?thesis unfolding parsePublish_def q r Let_def
    by (auto simp: message_def putUint16_def)
qed

lemma readLoop_publish:
  assumes "publish_ok topic qos payload"
  shows "readLoop (publishPacket topic qos pid payload @ r) l =
    readLoop r (l\<lparr>delivered := delivered l @ [message topic qos pid payload],
                 pubacked := pubacked l @ (if 0 < qos then [pid] else [])\<rparr>)"
  by (subst readLoop.simps)
     (simp add: readPacket_publish [OF assms] onPacket_def parsePublish_frame [OF assms],
      simp add: publish_frame_def message_def)

lemma encLen_eq: "encLen n = encodeRemainingLength n"
proof (induction n rule: encLen.induct)
  case (1 n)
  then show ?case
    by (subst encLen.simps, subst encodeRemainingLength.simps) (simp add: Let_def)
qed

lemma lenStr_eq: "lenStr s = encodeString s"
  by (simp add: lenStr_def encodeString_def)

lemma allocPID_nonzero: "fst (allocPID p) \<noteq> 0"
  by (simp add: allocPID_def Let_def)

subsection \<open>Properties\<close>

text \<open>a packet written by \<open>publishPacket\<close> is read back by \<open>readPacket\<close> and
  \<open>parsePublish\<close> as the same message, and what follows it in the stream is untouched.\<close>

theorem publish_roundtrip:
  assumes "publish_ok topic qos payload"
  shows "\<exists>p. readPacket (publishPacket topic qos pid payload @ r) = Inr (p, r) \<and>
             parsePublish p = Inr \<lparr>Topic = topic, Payload = payload, QoS = qos,
                                   PID = (if 0 < qos then pid else 0)\<rparr>"
  using readPacket_publish [OF assms] parsePublish_frame [OF assms] by (simp add: message_def)

lemma publish_roundtrip_witness:
  "\<exists>p. readPacket (publishPacket [0x75, 0x70] 1 258 [1, 2, 3] @ [0xC0]) = Inr (p, [0xC0]) \<and>
       parsePublish p = Inr \<lparr>Topic = [0x75, 0x70], Payload = [1, 2, 3], QoS = 1, PID = (if (0::byte) < 1 then 258 else 0)\<rparr>"
  by (rule publish_roundtrip) (simp add: publish_ok_def maxPacketSize_def)

text \<open>a frame cut short anywhere, inside its header, its length or its body, is reported
  as an end of stream: no truncated input is taken for a packet.\<close>

theorem truncated_frame_is_eof:
  assumes "length b \<le> maxPacketSize" and "k < length (frame t f b)"
  shows "readPacket (take k (frame t f b)) \<in> {Inl EOF, Inl UnexpectedEOF}"
  using assms by (rule readPacket_truncated)

lemma truncated_frame_is_eof_witness:
  "readPacket (take 3 (frame 3 0 [7, 8, 9])) \<in> {Inl EOF, Inl UnexpectedEOF}"
  by (rule truncated_frame_is_eof)
     (simp_all add: maxPacketSize_def frame_def encodeRemainingLength.simps)

text \<open>a stream of publishes, in any number and at any QoS, reaches \<open>onMessage\<close> complete
  and in order, and exactly the QoS 1 ones are acknowledged, with their own identifiers; the
  loop ends with the end of the stream.\<close>

theorem readLoop_delivers_in_order:
  assumes "\<forall>(topic, qos, pid, payload)\<in>set ms. publish_ok topic qos payload"
  shows "readLoop (concat (map (\<lambda>(topic, qos, pid, payload). publishPacket topic qos pid payload) ms)) l =
    (l\<lparr>delivered := delivered l @ map (\<lambda>(topic, qos, pid, payload). message topic qos pid payload) ms,
       pubacked := pubacked l @ map (\<lambda>(topic, qos, pid, payload). pid)
                     (filter (\<lambda>(topic, qos, pid, payload). 0 < qos) ms)\<rparr>, EOF)"
  using assms
proof (induction ms arbitrary: l)
  case Nil
  then show ?case by (subst readLoop.simps) (simp add: readPacket_def)
next
  case (Cons m ms)
  obtain topic qos pid payload where m: "m = (topic, qos, pid, payload)" by (cases m)
  with Cons.prems have "publish_ok topic qos payload" by simp
  then show ?case using Cons by (simp add: m readLoop_publish)
qed

lemma readLoop_delivers_in_order_witness:
  "fst (readLoop (concat (map (\<lambda>(topic, qos, pid, payload). publishPacket topic qos pid payload)
       [([0x61], 1, 5, [1]), ([0x62], 0, 0, [2])]))
     \<lparr>delivered = [], pubacked = [], onPubAck = 0, waiters = {}, resolved = []\<rparr>) =
   \<lparr>delivered = [message [0x61] 1 5 [1], message [0x62] 0 0 [2]], pubacked = [5], onPubAck = 0,
    waiters = {}, resolved = []\<rparr>"
  by (subst readLoop_delivers_in_order) (simp_all add: publish_ok_def maxPacketSize_def)

text \<open>the two MQTT codecs of the repository agree: the OTA dispatcher's publish is the
  simulator client's QoS 0 publish, and its connect is the client's clean-session connect
  with a 60 second keep-alive.\<close>

theorem mini_codec_agrees:
  "miniPublish topic payload = publishPacket topic 0 pid payload \<and>
   miniConnect clientID user pass = connectPacket clientID user pass True 60"
  by (simp add: miniPublish_def publishPacket_def miniConnect_def connectPacket_def frame_def
      encLen_eq lenStr_eq Let_def putUint16_def)

text \<open>what a receiver reads for a string of any length: the length field is the length
  modulo 65536, so strings shorter than that round trip, and of a longer one only the
  remainder arrives and the rest is taken for the next field.\<close>

theorem encodeString_length_wraps:
  "readString (encodeString s @ r) =
     Inr (take (length s mod 65536) s, drop (length s mod 65536) s @ r)"
  by (simp add: readString_def encodeString_def putUint16_def Let_def unat_length16)

end
