(* ===== verification/GoStrings.thy ===== *)
theory GoStrings
  imports Prelude "HOL-Library.Multiset"
begin

text \<open>
  The functions of Go's \<open>strings\<close> and \<open>strconv\<close> packages the program uses, on byte
  strings. \<open>TrimSpace\<close>, \<open>ToLower\<close> and \<open>Fields\<close> are given for the ASCII characters: the
  program applies them to clock times, action names, serial numbers and time-zone names.
\<close>

abbreviation slash :: char where "slash \<equiv> CHR ''/''"

definition code :: "char \<Rightarrow> nat" where "code c = of_char c"

definition between :: "char \<Rightarrow> char \<Rightarrow> char \<Rightarrow> bool" where
  "between lo hi c \<longleftrightarrow> code lo \<le> code c \<and> code c \<le> code hi"

abbreviation is_digit :: "char \<Rightarrow> bool" where "is_digit \<equiv> between CHR ''0'' CHR ''9''"

subsection \<open>Split and join\<close>

fun splitc :: "char \<Rightarrow> string \<Rightarrow> string list" where
  "splitc c [] = [[]]"
| "splitc c (x # xs) =
     (if x = c then [] # splitc c xs
      else case splitc c xs of [] \<Rightarrow> [[x]] | p # ps \<Rightarrow> (x # p) # ps)"

fun joinc :: "char \<Rightarrow> string list \<Rightarrow> string" where
  "joinc c [] = []"
| "joinc c [p] = p"
| "joinc c (p # ps) = p @ c # joinc c ps"

lemma splitc_nonempty [simp]: "splitc c s \<noteq> []"
  by (cases s) (auto split: list.splits)

lemma joinc_Cons: "ps \<noteq> [] \<Longrightarrow> joinc c (p # ps) = p @ c # joinc c ps"
  by (cases ps) auto

lemma joinc_splitc: "joinc c (splitc c s) = s"
proof (induction s)
  case (Cons x s)
  obtain p ps where ps: "splitc c s = p # ps" by (meson neq_Nil_conv splitc_nonempty)
  then show ?case using Cons by (cases ps) (auto simp: joinc_Cons)
qed simp

lemma splitc_no_sep: "p \<in> set (splitc c s) \<Longrightarrow> c \<notin> set p"
proof (induction s arbitrary: p)
  case (Cons x s)
  obtain q qs where "splitc c s = q # qs" by (meson neq_Nil_conv splitc_nonempty)
  then show ?case using Cons by (auto split: if_splits)
qed simp

lemma splitc_plain: "c \<notin> set p \<Longrightarrow> splitc c p = [p]"
  by (induction p) auto

lemma splitc_append: "c \<notin> set p \<Longrightarrow> splitc c (p @ c # s) = p # splitc c s"
  by (induction p) auto

lemma sep_inj: "c \<notin> set a \<Longrightarrow> c \<notin> set b \<Longrightarrow> a @ c # x = b @ c # y \<longleftrightarrow> a = b \<and> x = y"
proof (induction a arbitrary: b)
  case Nil
  then show ?case by (cases b) auto
next
  case (Cons u a)
  then show ?case by (cases b) auto
qed

lemma splitc_joinc: "ps \<noteq> [] \<Longrightarrow> \<forall>p\<in>set ps. c \<notin> set p \<Longrightarrow> splitc c (joinc c ps) = ps"
  by (induction ps rule: joinc.induct) (auto simp: splitc_plain splitc_append)

lemma splitc_eq_iff:
  "ps \<noteq> [] \<Longrightarrow> splitc c s = ps \<longleftrightarrow> s = joinc c ps \<and> (\<forall>p\<in>set ps. c \<notin> set p)"
  using splitc_joinc joinc_splitc splitc_no_sep by metis

subsection \<open>Searching\<close>

definition hasPrefix :: "string \<Rightarrow> string \<Rightarrow> bool" where
  "hasPrefix s p \<longleftrightarrow> take (length p) s = p"

fun indexByte :: "char \<Rightarrow> string \<Rightarrow> nat option" where
  "indexByte c [] = None"
| "indexByte c (x # xs) = (if x = c then Some 0 else map_option Suc (indexByte c xs))"

definition containsAny :: "string \<Rightarrow> string \<Rightarrow> bool" where
  "containsAny s chars \<longleftrightarrow> list_ex (\<lambda>c. c \<in> set chars) s"

lemma containsAny_iff: "containsAny s chars \<longleftrightarrow> set s \<inter> set chars \<noteq> {}"
  by (auto simp: containsAny_def list_ex_iff)

lemma hasPrefix_iff: "hasPrefix s p \<longleftrightarrow> (\<exists>r. s = p @ r)"
  by (metis append_eq_conv_conj append_take_drop_id hasPrefix_def)

lemma indexByte_Some: "indexByte c s = Some i \<Longrightarrow> s = take i s @ c # drop (Suc i) s \<and> c \<notin> set (take i s)"
  by (induction s arbitrary: i) (auto split: if_splits)

lemma indexByte_None: "indexByte c s = None \<longleftrightarrow> c \<notin> set s"
  by (induction s) auto

subsection \<open>Spaces, case, numbers\<close>

definition is_space :: "char \<Rightarrow> bool" where
  "is_space c \<longleftrightarrow> code c = 32 \<or> (9 \<le> code c \<and> code c \<le> 13)"

definition trimSpace :: "string \<Rightarrow> string" where
  "trimSpace s = rev (dropWhile is_space (rev (dropWhile is_space s)))"

definition toLower :: "string \<Rightarrow> string" where
  "toLower s = map (\<lambda>c. if between CHR ''A'' CHR ''Z'' c then char_of (code c + 32) else c) s"

definition toUpper :: "string \<Rightarrow> string" where
  "toUpper s = map (\<lambda>c. if between CHR ''a'' CHR ''z'' c then char_of (code c - 32) else c) s"

lemma trimSpace_id: "(\<And>c. c \<in> set s \<Longrightarrow> \<not> is_space c) \<Longrightarrow> trimSpace s = s"
proof -
  assume ns: "\<And>c. c \<in> set s \<Longrightarrow> \<not> is_space c"
  have "dropWhile is_space t = t" if "set t = set s" for t
    using that ns by (cases t) auto
  then show ?thesis by (simp add: trimSpace_def)
qed

text \<open>\<open>strings.Fields\<close> and \<open>strings.Cut\<close>.\<close>

definition stringFields :: "string \<Rightarrow> string list" where
  "stringFields s = filter (\<lambda>p. p \<noteq> []) (splitc CHR '' '' (map (\<lambda>c. if is_space c then CHR '' '' else c) s))"

definition cut :: "char \<Rightarrow> string \<Rightarrow> (string \<times> string) option" where
  "cut c s = map_option (\<lambda>i. (take i s, drop (Suc i) s)) (indexByte c s)"

definition digit_val :: "char \<Rightarrow> nat" where "digit_val c = code c - 48"

text \<open>Decimal value of a digit string, most significant digit first.\<close>

definition decimal :: "string \<Rightarrow> nat" where
  "decimal s = foldl (\<lambda>n c. n * 10 + digit_val c) 0 s"

text \<open>The sign and the rest of a number, and \<open>strconv.ParseInt(s, 10, 64)\<close>.\<close>

definition signed_digits :: "string \<Rightarrow> (bool \<times> string) option" where
  "signed_digits s =
     (case s of
        [] \<Rightarrow> None
      | c # r \<Rightarrow> if c = CHR ''-'' then Some (True, r) else if c = CHR ''+'' then Some (False, r) else Some (False, s))"

definition ParseInt :: "string \<Rightarrow> int option" where
  "ParseInt s =
     (case signed_digits s of
        None \<Rightarrow> None
      | Some (neg, ds) \<Rightarrow>
          (let v = (if neg then - int (decimal ds) else int (decimal ds)) in
           if ds = [] \<or> \<not> list_all is_digit ds \<or> v < - (2 ^ 63) \<or> 2 ^ 63 \<le> v then None else Some v))"

text \<open>\<open>strconv.FormatInt(n, 10)\<close>, which \<open>ParseInt\<close> reads back.\<close>

fun itoa_nat :: "nat \<Rightarrow> string" where
  "itoa_nat n = (if n < 10 then [char_of (48 + n)] else itoa_nat (n div 10) @ [char_of (48 + n mod 10)])"

declare itoa_nat.simps [simp del]

definition FormatInt :: "int \<Rightarrow> string" where
  "FormatInt n = (if n < 0 then CHR ''-'' # itoa_nat (nat (- n)) else itoa_nat (nat n))"

lemma digit_char: "d < 10 \<Longrightarrow> is_digit (char_of (48 + d :: nat)) \<and> digit_val (char_of (48 + d :: nat)) = d"
  by (simp add: between_def code_def digit_val_def)

lemma decimal_snoc: "decimal (s @ [c]) = decimal s * 10 + digit_val c"
  by (simp add: decimal_def)

lemma itoa_nat_digits: "decimal (itoa_nat n) = n \<and> list_all is_digit (itoa_nat n) \<and> itoa_nat n \<noteq> []"
proof (induction n rule: itoa_nat.induct)
  case (1 n)
  show ?case
  proof (cases "n < 10")
    case True
    have "decimal [char_of (48 + n :: nat)] = n" using digit_char[OF True] decimal_snoc[of "[]"] by (simp add: decimal_def)
    then show ?thesis using digit_char[OF True] True by (subst (1 2 3) itoa_nat.simps) simp
  next
    case False
    have m: "n mod 10 < 10" by simp
    from False have "itoa_nat n = itoa_nat (n div 10) @ [char_of (48 + n mod 10)]" by (subst itoa_nat.simps) simp
    then show ?thesis using 1[OF False] digit_char[OF m] by (simp add: decimal_snoc)
  qed
qed

lemma length_itoa_nat: "length (itoa_nat n) \<le> Suc k \<longleftrightarrow> n < 10 ^ Suc k"
proof (induction k arbitrary: n)
  case 0
  have "itoa_nat (n div 10) \<noteq> []" using itoa_nat_digits by blast
  then show ?case by (subst itoa_nat.simps) simp
next
  case (Suc k)
  have "length (itoa_nat n) \<le> Suc (Suc k) \<longleftrightarrow> n < 10 \<or> n div 10 < 10 ^ Suc k"
    using Suc.IH[of "n div 10"] by (subst itoa_nat.simps) auto
  also have "\<dots> \<longleftrightarrow> n < 10 ^ Suc (Suc k)"
  proof -
    have "(1::nat) \<le> 10 ^ k" by simp
    then have "n < 10 \<Longrightarrow> n < 10 ^ k * 100" by linarith
    then show ?thesis by (auto simp: div_less_iff_less_mult mult.commute)
  qed
  finally show ?case .
qed

lemma hd_itoa_nat: "0 < n \<Longrightarrow> hd (itoa_nat n) \<noteq> CHR ''0''"
proof (induction n rule: itoa_nat.induct)
  case (1 n)
  show ?case
  proof (cases "n < 10")
    case True
    have "code (char_of (48 + n :: nat)) = 48 + n" using True by (simp add: code_def)
    moreover have "code CHR ''0'' = 48" by (simp add: code_def)
    ultimately have "(char_of (48 + n :: nat) :: char) \<noteq> CHR ''0''" using 1(2) by force
    then show ?thesis using True by (subst itoa_nat.simps) simp
  next
    case False
    have "itoa_nat (n div 10) \<noteq> []" using itoa_nat_digits by blast
    then show ?thesis using 1(1)[OF False] False by (subst itoa_nat.simps) simp
  qed
qed

lemma digit_not_sign: "is_digit c \<Longrightarrow> c \<noteq> CHR ''-'' \<and> c \<noteq> CHR ''+'' \<and> \<not> is_space c"
  by (auto simp: between_def code_def is_space_def)

lemma itoa_nat_trim: "trimSpace (itoa_nat n) = itoa_nat n"
  using itoa_nat_digits[of n] digit_not_sign by (intro trimSpace_id) (auto simp: list_all_iff)

lemma ParseInt_FormatInt: "- (2 ^ 63) \<le> n \<Longrightarrow> n < 2 ^ 63 \<Longrightarrow> ParseInt (FormatInt n) = Some n"
proof -
  assume n: "- (2 ^ 63) \<le> n" "n < 2 ^ 63"
  have "signed_digits (itoa_nat m) = Some (False, itoa_nat m)" for m
    using itoa_nat_digits[of m] digit_not_sign by (cases "itoa_nat m") (auto simp: signed_digits_def)
  then show ?thesis using n itoa_nat_digits
    by (auto simp: FormatInt_def ParseInt_def signed_digits_def Let_def)
qed

subsection \<open>Hexadecimal\<close>

text \<open>\<open>hex.EncodeToString\<close>.\<close>

definition hex_lower :: "nat \<Rightarrow> char" where
  "hex_lower n = ''0123456789abcdef'' ! n"

definition EncodeHex :: "byte list \<Rightarrow> string" where
  "EncodeHex bs = concat (map (\<lambda>b. [hex_lower (unat b div 16), hex_lower (unat b mod 16)]) bs)"

definition lower_hex :: "char \<Rightarrow> bool" where
  "lower_hex c \<longleftrightarrow> is_digit c \<or> between CHR ''a'' CHR ''f'' c"

lemma hex_lower_ok: "n < 16 \<Longrightarrow> lower_hex (hex_lower n)"
proof -
  have "list_all lower_hex ''0123456789abcdef''" by code_simp
  then show "n < 16 \<Longrightarrow> lower_hex (hex_lower n)" by (simp add: list_all_length hex_lower_def)
qed

lemma EncodeHex_ok: "list_all lower_hex (EncodeHex bs)" "length (EncodeHex bs) = 2 * length bs"
proof -
  have "unat b div 16 < 16" for b :: byte
  proof -
    have "unat b < 256" using unsigned_less[of b] by simp
    then show ?thesis by simp
  qed
  then show "list_all lower_hex (EncodeHex bs)" by (induction bs) (simp_all add: EncodeHex_def hex_lower_ok)
  show "length (EncodeHex bs) = 2 * length bs" by (induction bs) (simp_all add: EncodeHex_def)
qed

subsection \<open>The order of strings\<close>

text \<open>Byte by byte. \<open>sort_str\<close> is a stable sort by a string of each element.\<close>

definition str_le :: "string \<Rightarrow> string \<Rightarrow> bool" where
  "str_le a b \<longleftrightarrow> (a, b) \<in> lexord {(x, y). code x < code y} \<or> a = b"

fun insort_str :: "('a \<Rightarrow> string) \<Rightarrow> 'a \<Rightarrow> 'a list \<Rightarrow> 'a list" where
  "insort_str f x [] = [x]"
| "insort_str f x (y # ys) = (if str_le (f x) (f y) then x # y # ys else y # insort_str f x ys)"

definition sort_str :: "('a \<Rightarrow> string) \<Rightarrow> 'a list \<Rightarrow> 'a list" where
  "sort_str f xs = foldr (insort_str f) xs []"

lemma mset_insort_str: "mset (insort_str f x ys) = add_mset x (mset ys)"
  by (induction ys) auto

lemma mset_sort_str [simp]: "mset (sort_str f xs) = mset xs"
  by (induction xs) (auto simp: sort_str_def mset_insort_str)

lemma set_sort_str [simp]: "set (sort_str f xs) = set xs"
  by (metis mset_sort_str set_mset_mset)

lemma distinct_sort_str [simp]: "distinct (sort_str f xs) = distinct xs"
  by (metis mset_sort_str mset_eq_imp_distinct_iff)

subsection \<open>Serial numbers\<close>

text \<open>The regular expression \<open>^[A-Z0-9_-]{4,32}$\<close> of \<open>internal/auth/acl.go\<close> and
  \<open>internal/bootstrap/decide.go\<close>.\<close>

definition sn_char :: "char \<Rightarrow> bool" where
  "sn_char c \<longleftrightarrow> between CHR ''A'' CHR ''Z'' c \<or> is_digit c \<or> c = CHR ''_'' \<or> c = CHR ''-''"

definition ValidSN :: "string \<Rightarrow> bool" where
  "ValidSN sn \<longleftrightarrow> 4 \<le> length sn \<and> length sn \<le> 32 \<and> list_all sn_char sn"

lemma ValidSN_chars:
  "ValidSN sn \<Longrightarrow> slash \<notin> set sn \<and> CHR ''+'' \<notin> set sn \<and> CHR ''#'' \<notin> set sn \<and> sn \<noteq> []"
  by (auto simp: ValidSN_def list_all_iff sn_char_def between_def code_def)

end
