(* ===== verification/Topics.thy ===== *)
theory Topics
  imports GoStrings
begin

unbundle bit_operations_syntax

text \<open>
  Routing: the device topics (\<open>internal/simulator/payload.go\<close>), what a device may publish and
  subscribe to (\<open>internal/auth/acl.go\<close>), how the bridge reads an uplink topic
  (\<open>internal/bridge/topic.go\<close>), the cell a device belongs to
  (\<open>internal/pkg/cellmap/cellmap.go\<close>), the stream subjects
  (\<open>internal/pkg/envelope/envelope.go\<close>) and the advisory-lock keys
  (\<open>internal/pkg/pglock/pglock.go\<close>).
\<close>

subsection \<open>Envelopes\<close>

abbreviation KindTelemetry :: string where "KindTelemetry \<equiv> ''telemetry''"
abbreviation KindEvent :: string where "KindEvent \<equiv> ''event''"
abbreviation KindCmdAck :: string where "KindCmdAck \<equiv> ''cmd_ack''"
abbreviation KindOTAProgress :: string where "KindOTAProgress \<equiv> ''ota_progress''"

definition knownKinds :: "string list" where
  "knownKinds = [KindTelemetry, KindEvent, KindCmdAck, KindOTAProgress]"

record 'p Envelope =
  PK :: string
  SN :: string
  Kind :: string
  Seq :: int
  RecvTs :: int
  EPayload :: 'p

definition SafetyCodes :: "string list" where
  "SafetyCodes = [''FLAME_DETECTED'', ''OVER_TEMP'', ''TILT'', ''ESTOP'', ''WATER_FLOW'',
                  ''FIRE_SUPPRESSED'', ''SMOKE_HIGH'']"

definition AccessorySafetyCodes :: "string list" where
  "AccessorySafetyCodes = [''FIRE_SUPPRESSED'', ''SMOKE_HIGH'']"

definition Subject :: "string \<Rightarrow> nat \<Rightarrow> string" where
  "Subject kind cell = ''iot.up.'' @ kind @ ''.'' @ itoa_nat cell"

definition SubjectDLQ :: "string \<Rightarrow> string" where
  "SubjectDLQ kind = (if kind \<in> set knownKinds then ''iot.dlq.'' @ kind else ''iot.dlq.unknown'')"

subsection \<open>Hashing\<close>

fun fnv1a32 :: "u32 \<Rightarrow> byte list \<Rightarrow> u32" where
  "fnv1a32 h [] = h"
| "fnv1a32 h (b # bs) = fnv1a32 ((h XOR ucast b) * 16777619) bs"

fun fnv1a64 :: "u64 \<Rightarrow> byte list \<Rightarrow> u64" where
  "fnv1a64 h [] = h"
| "fnv1a64 h (b # bs) = fnv1a64 ((h XOR ucast b) * 1099511628211) bs"

definition bytes_of_string :: "string \<Rightarrow> byte list" where
  "bytes_of_string s = map (\<lambda>c. word_of_nat (code c)) s"

text \<open>
  \<open>CellOf\<close> on Go's 64-bit \<open>int\<close>; \<open>uint32(n)\<close> keeps the low 32 bits, so an \<open>n\<close> that is a
  multiple of \<open>2^32\<close> would divide by zero: \<open>None\<close> is that panic.
\<close>

definition CellOf :: "string \<Rightarrow> int \<Rightarrow> nat option" where
  "CellOf sn n =
     (if n \<le> 1 then Some 1
      else let h = fnv1a32 0x811c9dc5 (bytes_of_string sn); d = (word_of_int n :: u32) in
           if d = 0 then None else Some (unat (h mod d) + 1))"

definition Names :: "string list" where
  "Names = [''alarm-reconcile'', ''support-audit'', ''job-optin'', ''job-purge'',
            ''accessory-owner'', ''accessory-filter'', ''accessory-reconcile'', ''accessory-offtimer'',
            ''health-batch'', ''health-reminder'', ''fleet-scheduler'', ''fleet-reconcile'',
            ''ota-stale-sweep'', ''support-defect'', ''probe'', ''fleet-scheduler-expire'']"

definition LockKey :: "string \<Rightarrow> u64" where
  "LockKey name = fnv1a64 0xcbf29ce484222325 (bytes_of_string (''xtool-aiot:'' @ name))"

subsection \<open>Device topics\<close>

definition TopicUp :: "string \<Rightarrow> string \<Rightarrow> string \<Rightarrow> string" where
  "TopicUp pk sn kind = ''up/'' @ pk @ ''/'' @ sn @ ''/'' @ kind"

definition TopicDown :: "string \<Rightarrow> string" where
  "TopicDown sn = ''down/'' @ sn @ ''/#''"

subsection \<open>Access control\<close>

datatype Action = ActionUnknown | ActionPublish | ActionSubscribe

definition ParseAction :: "string \<Rightarrow> Action" where
  "ParseAction s =
     (let a = toLower (trimSpace s) in
      if a = ''publish'' \<or> a = ''pub'' then ActionPublish
      else if a = ''subscribe'' \<or> a = ''sub'' then ActionSubscribe
      else ActionUnknown)"

definition AllowTopic :: "string \<Rightarrow> string \<Rightarrow> Action \<Rightarrow> bool" where
  "AllowTopic clientID topic action =
     (if \<not> ValidSN clientID \<or> topic = [] then False
      else let parts = splitc slash topic in
        case action of
          ActionPublish \<Rightarrow>
            (if length parts < 4 \<or> parts ! 0 \<noteq> ''up'' \<or> parts ! 1 = [] \<or> parts ! 2 \<noteq> clientID
             then False
             else if containsAny topic ''+#'' then False
             else list_all (\<lambda>p. p \<noteq> []) (drop 3 parts))
        | ActionSubscribe \<Rightarrow>
            length parts = 3 \<and> parts ! 0 = ''down'' \<and> parts ! 1 = clientID \<and> parts ! 2 = ''#''
        | ActionUnknown \<Rightarrow> False)"

subsection \<open>The bridge's parser\<close>

datatype topic_error = ErrBadTopic

record Topic =
  TPK :: string
  TSN :: string
  TKind :: string

definition stripShare :: "string \<Rightarrow> topic_error + string" where
  "stripShare topic =
     (if hasPrefix topic ''$share/''
      then let rest = drop (length ''$share/'') topic in
           (case indexByte slash rest of
              None \<Rightarrow> Inl ErrBadTopic
            | Some i \<Rightarrow> Inr (drop (i + 1) rest))
      else Inr topic)"

text \<open>\<open>ParseTopic\<close> after the shared-subscription prefix has been removed.\<close>

definition ParseUp :: "string \<Rightarrow> topic_error + Topic" where
  "ParseUp t =
     (let parts = splitc slash t in
      if length parts \<noteq> 4 \<or> parts ! 0 \<noteq> ''up'' then Inl ErrBadTopic
      else if list_ex (\<lambda>p. p = [] \<or> containsAny p ''+#'') (drop 1 parts) then Inl ErrBadTopic
      else if parts ! 3 \<notin> set knownKinds then Inl ErrBadTopic
      else Inr \<lparr>TPK = parts ! 1, TSN = parts ! 2, TKind = parts ! 3\<rparr>)"

definition ParseTopic :: "string \<Rightarrow> topic_error + Topic" where
  "ParseTopic topic = (case stripShare topic of Inl e \<Rightarrow> Inl e | Inr t \<Rightarrow> ParseUp t)"

subsection \<open>Lemmas\<close>

definition segment :: "string \<Rightarrow> bool" where
  "segment p \<longleftrightarrow> p \<noteq> [] \<and> slash \<notin> set p \<and> CHR ''+'' \<notin> set p \<and> CHR ''#'' \<notin> set p"

lemma segment_alt: "segment p \<longleftrightarrow> slash \<notin> set p \<and> \<not> (p = [] \<or> containsAny p ''+#'')"
  by (auto simp: segment_def containsAny_iff)

lemma ValidSN_segment: "ValidSN sn \<Longrightarrow> segment sn"
  using ValidSN_chars by (auto simp: segment_def)

lemma knownKinds_segment: "k \<in> set knownKinds \<Longrightarrow> segment k"
  by (auto simp: knownKinds_def segment_def)

lemma TopicUp_join: "TopicUp pk sn kind = joinc slash [''up'', pk, sn, kind]"
  by (simp add: TopicUp_def)

lemma split4:
  "length (splitc slash u) = 4 \<and> splitc slash u ! 0 = ''up'' \<longleftrightarrow>
   (\<exists>a b c. u = TopicUp a b c \<and> splitc slash u = [''up'', a, b, c])"
proof
  assume "length (splitc slash u) = 4 \<and> splitc slash u ! 0 = ''up''"
  then obtain a b c where "splitc slash u = [''up'', a, b, c]"
    by (auto simp: numeral_eq_Suc length_Suc_conv)
  moreover from this have "u = TopicUp a b c" by (metis TopicUp_join joinc_splitc)
  ultimately show "\<exists>a b c. u = TopicUp a b c \<and> splitc slash u = [''up'', a, b, c]" by blast
qed auto

lemma split_TopicUp:
  "splitc slash (TopicUp a b c) = [''up'', a, b, c] \<longleftrightarrow> slash \<notin> set a \<and> slash \<notin> set b \<and> slash \<notin> set c"
  by (subst splitc_eq_iff) (auto simp: TopicUp_join)

lemma ParseUp_TopicUp:
  "segment a \<Longrightarrow> segment b \<Longrightarrow> c \<in> set knownKinds \<Longrightarrow>
   ParseUp (TopicUp a b c) = Inr \<lparr>TPK = a, TSN = b, TKind = c\<rparr>"
  using knownKinds_segment [of c] split_TopicUp [of a b c]
  by (simp add: ParseUp_def Let_def segment_alt)

lemma ParseUp_sound:
  assumes "ParseUp u = Inr tp"
  shows "u = TopicUp (TPK tp) (TSN tp) (TKind tp) \<and> segment (TPK tp) \<and> segment (TSN tp) \<and>
         TKind tp \<in> set knownKinds"
proof -
  from assms have "length (splitc slash u) = 4 \<and> splitc slash u ! 0 = ''up''"
    by (auto simp: ParseUp_def Let_def split: if_splits)
  then obtain a b c where u: "u = TopicUp a b c" and sp: "splitc slash u = [''up'', a, b, c]"
    by (auto simp: split4)
  have "slash \<notin> set a" "slash \<notin> set b" using splitc_no_sep [of _ slash u] sp by auto
  moreover have "\<not> (a = [] \<or> containsAny a ''+#'')" "\<not> (b = [] \<or> containsAny b ''+#'')"
    and "c \<in> set knownKinds" and "tp = \<lparr>TPK = a, TSN = b, TKind = c\<rparr>"
    using assms unfolding ParseUp_def sp Let_def by (simp_all split: if_splits)
  ultimately show ?thesis by (simp add: u segment_alt)
qed

lemma ParseTopic_TopicUp:
  "segment a \<Longrightarrow> segment b \<Longrightarrow> c \<in> set knownKinds \<Longrightarrow>
   ParseTopic (TopicUp a b c) = Inr \<lparr>TPK = a, TSN = b, TKind = c\<rparr>"
  by (simp add: ParseTopic_def stripShare_def ParseUp_TopicUp) (simp add: hasPrefix_def TopicUp_def)

lemma indexByte_append: "slash \<notin> set g \<Longrightarrow> indexByte slash (g @ slash # u) = Some (length g)"
  by (induction g) auto

lemma stripShare_shared: "slash \<notin> set g \<Longrightarrow> stripShare (''$share/'' @ g @ ''/'' @ u) = Inr u"
  by (simp add: stripShare_def hasPrefix_def indexByte_append)

lemma stripShare_sound:
  assumes "stripShare t = Inr u"
  shows "t = u \<or> (\<exists>g. slash \<notin> set g \<and> t = ''$share/'' @ g @ ''/'' @ u)"
proof (cases "hasPrefix t ''$share/''")
  case True
  then obtain r where r: "t = ''$share/'' @ r" by (auto simp: hasPrefix_iff)
  with assms True obtain i where i: "indexByte slash r = Some i" "u = drop (i + 1) r"
    by (auto simp: stripShare_def split: option.splits)
  with indexByte_Some [OF i(1)]
  have "slash \<notin> set (take i r)" "r = take i r @ ''/'' @ u" by simp_all
  with r show ?thesis by (metis append.assoc)
qed (use assms in \<open>simp add: stripShare_def\<close>)

lemma not_share_up: "\<not> hasPrefix (TopicUp a b c) ''$share/''"
  by (simp add: hasPrefix_def TopicUp_def)

text \<open>The low byte of the hash, for evaluation: it depends on low bytes only.\<close>

fun fnv_low :: "int \<Rightarrow> int list \<Rightarrow> int" where
  "fnv_low h [] = h"
| "fnv_low h (b # bs) = fnv_low (((h XOR b) * 179) mod 256) bs"

lemma mod256_xor: "(a XOR b) mod 256 = (a mod 256 XOR b mod 256 :: int)"
  using take_bit_xor [of 8 a b] by (simp add: take_bit_eq_mod)

lemma uint_step:
  "uint ((h XOR ucast (b :: byte)) * 1099511628211 :: u64) mod 256 = ((uint h mod 256 XOR uint b) * 179) mod 256"
proof -
  have b: "uint b < 256" using uint_lt2p [of b] by simp
  then have "uint (ucast b :: u64) = uint b"
    by (simp add: unsigned_ucast_eq take_bit_eq_mod)
  then have "uint ((h XOR ucast b) * 1099511628211) mod 256 = ((uint h XOR uint b) * 1099511628211) mod 256"
    by (simp add: uint_word_ariths unsigned_xor_eq mod_mod_cancel)
  also have "\<dots> = (((uint h XOR uint b) mod 256) * (1099511628211 mod 256)) mod 256"
    by (rule mod_mult_eq [symmetric])
  also have "\<dots> = ((uint h mod 256 XOR uint b) * 179) mod 256"
    using b by (simp add: mod256_xor)
  finally show ?thesis .
qed

lemma uint_fnv1a64: "uint (fnv1a64 h bs) mod 256 = fnv_low (uint h mod 256) (map uint bs)"
  by (induction bs arbitrary: h) (simp_all only: fnv1a64.simps fnv_low.simps list.map uint_step)

definition lock_key_low :: "string \<Rightarrow> int" where
  "lock_key_low name = fnv_low 0x25 (map (\<lambda>c. int (code c)) (''xtool-aiot:'' @ name))"

lemma code_less: "code c < 256"
  unfolding code_def by (metis nat_of_char_less_256)

lemma LockKey_low: "lock_key_low name = uint (LockKey name) mod 256"
proof -
  have "map uint (bytes_of_string s) = map (\<lambda>c. int (code c)) s" for s
    using code_less by (simp add: bytes_of_string_def unsigned_of_nat take_bit_nat_eq_self)
  moreover have "uint (0xcbf29ce484222325 :: u64) mod 256 = 0x25" by simp
  ultimately show ?thesis unfolding LockKey_def uint_fnv1a64 lock_key_low_def by (simp only:)
qed

subsection \<open>Properties\<close>

text \<open>the bridge accepts exactly the topics \<open>up/{pk}/{sn}/{kind}\<close> with non-empty,
  wildcard-free segments and a known kind, bare or behind one shared-subscription prefix, and
  returns the very segments the topic was built from.\<close>

theorem ParseTopic_accepts_exactly:
  "ParseTopic t = Inr \<lparr>TPK = pk, TSN = sn, TKind = k\<rparr> \<longleftrightarrow>
     segment pk \<and> segment sn \<and> k \<in> set knownKinds \<and>
     (t = TopicUp pk sn k \<or> (\<exists>g. slash \<notin> set g \<and> t = ''$share/'' @ g @ ''/'' @ TopicUp pk sn k))"
proof
  assume p: "ParseTopic t = Inr \<lparr>TPK = pk, TSN = sn, TKind = k\<rparr>"
  then obtain u where u: "stripShare t = Inr u" "ParseUp u = Inr \<lparr>TPK = pk, TSN = sn, TKind = k\<rparr>"
    by (auto simp: ParseTopic_def split: sum.splits)
  then show "segment pk \<and> segment sn \<and> k \<in> set knownKinds \<and>
     (t = TopicUp pk sn k \<or> (\<exists>g. slash \<notin> set g \<and> t = ''$share/'' @ g @ ''/'' @ TopicUp pk sn k))"
    using ParseUp_sound [OF u(2)] stripShare_sound [OF u(1)] by auto
next
  assume r: "segment pk \<and> segment sn \<and> k \<in> set knownKinds \<and>
     (t = TopicUp pk sn k \<or> (\<exists>g. slash \<notin> set g \<and> t = ''$share/'' @ g @ ''/'' @ TopicUp pk sn k))"
  moreover have "stripShare (TopicUp pk sn k) = Inr (TopicUp pk sn k)"
    using not_share_up by (simp add: stripShare_def)
  ultimately have "stripShare t = Inr (TopicUp pk sn k)"
    using stripShare_shared by metis
  with r show "ParseTopic t = Inr \<lparr>TPK = pk, TSN = sn, TKind = k\<rparr>"
    by (simp add: ParseTopic_def ParseUp_TopicUp)
qed

lemma ParseTopic_accepts_exactly_witness:
  "ParseTopic ''$share/bridge/up/LM_S1/SIM00001/event''
     = Inr \<lparr>TPK = ''LM_S1'', TSN = ''SIM00001'', TKind = ''event''\<rparr>"
  by (subst ParseTopic_accepts_exactly)
     (intro conjI disjI2 exI [of _ "''bridge''"]; simp add: segment_def knownKinds_def TopicUp_def)

text \<open>C6: no device can speak for another. Whatever a client may publish under the access
  rules, if the bridge accepts it then the envelope carries the client's own serial number;
  and every uplink of its own, of a known kind, is both permitted and accepted.\<close>

theorem publish_only_as_itself:
  "(AllowTopic c t ActionPublish \<longrightarrow> ParseTopic t = Inr tp \<longrightarrow> TSN tp = c) \<and>
   (ValidSN c \<longrightarrow> segment pk \<longrightarrow> k \<in> set knownKinds \<longrightarrow>
      AllowTopic c (TopicUp pk c k) ActionPublish \<and>
      ParseTopic (TopicUp pk c k) = Inr \<lparr>TPK = pk, TSN = c, TKind = k\<rparr>)"
proof (intro conjI impI)
  assume a: "AllowTopic c t ActionPublish" and p: "ParseTopic t = Inr tp"
  then have up: "splitc slash t ! 0 = ''up''" "splitc slash t ! 2 = c"
    by (auto simp: AllowTopic_def Let_def split: if_splits)
  have "\<not> hasPrefix t ''$share/''"
  proof
    assume "hasPrefix t ''$share/''"
    then obtain r where "t = ''$share'' @ slash # r" by (auto simp: hasPrefix_iff)
    then have "splitc slash t = ''$share'' # splitc slash r"
      using splitc_append [of slash "''$share''" r] by simp
    with up(1) show False by simp
  qed
  with p have "ParseUp t = Inr tp" by (auto simp: ParseTopic_def stripShare_def split: if_splits)
  with up(2) show "TSN tp = c" by (auto simp: ParseUp_def Let_def split: if_splits)
next
  assume sn: "ValidSN c" and s: "segment pk" and k: "k \<in> set knownKinds"
  note segs = s ValidSN_segment [OF sn] knownKinds_segment [OF k]
  then have "splitc slash (TopicUp pk c k) = [''up'', pk, c, k]"
    by (simp add: split_TopicUp segment_def)
  moreover have "\<not> containsAny (TopicUp pk c k) ''+#''"
    using segs by (auto simp: containsAny_iff TopicUp_def segment_def)
  ultimately show "AllowTopic c (TopicUp pk c k) ActionPublish"
    using sn segs by (simp add: AllowTopic_def segment_def TopicUp_def)
  show "ParseTopic (TopicUp pk c k) = Inr \<lparr>TPK = pk, TSN = c, TKind = k\<rparr>"
    using segs k by (intro ParseTopic_TopicUp)
qed

lemma publish_only_as_itself_witness:
  "AllowTopic ''SIM00001'' (TopicUp ''LM_S1'' ''SIM00001'' ''event'') ActionPublish"
  using publish_only_as_itself [of "''SIM00001''" _ _ "''LM_S1''" "''event''"]
  by (simp add: ValidSN_def sn_char_def between_def code_def segment_def knownKinds_def)

text \<open>for every cell count of at least one that fits in 32 bits the bridge and the
  bootstrap service assign each serial number a cell between 1 and the count.\<close>

theorem CellOf_in_range:
  assumes "1 \<le> n" "n < 2 ^ 32"
  shows "\<exists>c. CellOf sn n = Some c \<and> 1 \<le> c \<and> int c \<le> n"
proof (cases "n = 1")
  case False
  let ?d = "word_of_int n :: u32"
  have u: "uint ?d = n" using assms by (simp add: take_bit_int_eq_self unsigned_of_int)
  then have "?d \<noteq> 0" using assms by auto
  then have c: "CellOf sn n = Some (unat (fnv1a32 0x811c9dc5 (bytes_of_string sn) mod ?d) + 1)"
    using assms False by (simp add: CellOf_def Let_def)
  have "unat (fnv1a32 0x811c9dc5 (bytes_of_string sn) mod ?d) < unat ?d"
    using \<open>?d \<noteq> 0\<close> by (simp add: unat_mod_distrib unat_gt_0)
  then obtain k where "CellOf sn n = Some (k + 1)" "k < unat ?d" using c by blast
  moreover have "int (unat ?d) = n" using u by simp
  ultimately show ?thesis by (intro exI [of _ "k + 1"]) linarith
qed (simp add: CellOf_def)

lemma CellOf_in_range_witness: "\<exists>c. CellOf ''SIM00001'' 4 = Some c \<and> 1 \<le> c \<and> int c \<le> 4"
  by (rule CellOf_in_range) simp_all

text \<open>the sixteen registered singleton tasks have sixteen different advisory-lock keys, so
  no task can ever keep another from running.\<close>

theorem lock_keys_distinct: "distinct (map LockKey Names)"
proof -
  have "map lock_key_low Names =
    [131, 170, 75, 34, 127, 250, 172, 58, 126, 28, 215, 38, 244, 194, 61, 129]"
    unfolding Names_def lock_key_low_def by (simp add: code_def)
  then have "distinct (map lock_key_low Names)" by simp
  then show ?thesis by (auto simp: distinct_map LockKey_low inj_on_def)
qed

end
