(* ===== verification/Access.thy ===== *)
theory Access
  imports Topics
begin

text \<open>
  Admission of devices: the authentication back end of the broker (\<open>internal/auth/service.go\<close>,
  \<open>cache.go\<close>) and the bootstrap service that assigns a cell (\<open>internal/bootstrap/decide.go\<close>,
  \<open>cache.go\<close>, \<open>handler.go\<close>, \<open>repo.go\<close>). The PostgreSQL tables are part of the state; whether a query
  fails is an argument, since the code must decide what to do when it does. Go maps whose
  size is taken or that are iterated are association lists with distinct keys.
\<close>

subsection \<open>Authentication against the store\<close>

record AuthDB =
  device_status :: "string \<rightharpoonup> string"
  device_cert :: "string \<rightharpoonup> string \<times> string"

text \<open>Which of the two queries of an authentication fail.\<close>

record Faults =
  status_fails :: bool
  cert_fails :: bool

datatype store_error = StoreError

definition DeviceStatus :: "Faults \<Rightarrow> AuthDB \<Rightarrow> string \<Rightarrow> store_error + string option" where
  "DeviceStatus f db sn = (if status_fails f then Inl StoreError else Inr (device_status db sn))"

definition Cert :: "Faults \<Rightarrow> AuthDB \<Rightarrow> string \<Rightarrow> store_error + (string \<times> string) option" where
  "Cert f db fp =
     (if cert_fails f then Inl StoreError
      else Inr (map_option (\<lambda>(sn, st). (trimSpace sn, st)) (device_cert db fp)))"

text \<open>The verdict, its reason and whether the store failed.\<close>

definition Authenticate :: "Faults \<Rightarrow> AuthDB \<Rightarrow> string \<Rightarrow> string \<Rightarrow> bool \<times> string \<times> bool" where
  "Authenticate f db clientID certFP =
     (if \<not> ValidSN clientID then (False, ''invalid sn'', False)
      else case DeviceStatus f db clientID of
        Inl _ \<Rightarrow> (False, ''store error'', True)
      | Inr None \<Rightarrow> (False, ''device not found'', False)
      | Inr (Some status) \<Rightarrow>
          if status \<noteq> ''activated'' then (False, ''device status '' @ status, False)
          else let fp = trimSpace certFP in
            if fp \<noteq> [] then
              (case Cert f db fp of
                 Inl _ \<Rightarrow> (False, ''store error'', True)
               | Inr None \<Rightarrow> (False, ''cert not found'', False)
               | Inr (Some (sn, cst)) \<Rightarrow>
                   if cst \<noteq> ''active'' then (False, ''cert status '' @ cst, False)
                   else if sn \<noteq> clientID then (False, ''cert sn mismatch'', False)
                   else (True, [], False))
            else (True, [], False))"

subsection \<open>The cache of recent successes\<close>

type_synonym AuthCache = "(string \<times> time) list"

definition CacheKey :: "string \<Rightarrow> string \<Rightarrow> string" where
  "CacheKey clientID certFP = clientID @ ''|'' @ certFP"

definition Remember :: "string \<Rightarrow> time \<Rightarrow> AuthCache \<Rightarrow> AuthCache" where
  "Remember key now c = AList.update key now c"

definition Recent :: "string \<Rightarrow> time \<Rightarrow> duration \<Rightarrow> AuthCache \<Rightarrow> bool \<times> AuthCache" where
  "Recent key now ttl c =
     (case map_of c key of
        None \<Rightarrow> (False, c)
      | Some t \<Rightarrow> if now - t > ttl then (False, AList.delete key c) else (True, c))"

definition Sweep :: "time \<Rightarrow> duration \<Rightarrow> AuthCache \<Rightarrow> nat \<times> AuthCache" where
  "Sweep now ttl c =
     (length (filter (\<lambda>(k, t). now - t > ttl) c), filter (\<lambda>(k, t). \<not> now - t > ttl) c)"

fun slug_loop :: "string \<Rightarrow> nat \<Rightarrow> string \<Rightarrow> string" where
  "slug_loop out words [] = (if out = [] then ''unknown'' else out)"
| "slug_loop out words (ch # rest) =
     (if between CHR ''a'' CHR ''z'' ch \<or> is_digit ch then slug_loop (out @ [ch]) words rest
      else if between CHR ''A'' CHR ''Z'' ch then slug_loop (out @ [char_of (code ch + 32)]) words rest
      else if ch = CHR '' '' \<or> ch = CHR ''-'' \<or> ch = CHR ''_'' then
        (if out \<noteq> [] \<and> last out \<noteq> CHR ''_'' then
           (if words + 1 \<ge> 3 then out else slug_loop (out @ ''_'') (words + 1) rest)
         else slug_loop out words rest)
      else slug_loop out words rest)"

definition reasonSlug :: "string \<Rightarrow> string" where
  "reasonSlug reason = slug_loop [] 0 reason"

definition IncDenyReason :: "string \<Rightarrow> metrics \<Rightarrow> metrics" where
  "IncDenyReason reason m = Inc (''deny_reason_'' @ reasonSlug reason) m"

subsection \<open>The authenticator with its fail-open mode\<close>

record Authenticator =
  Cache :: "AuthCache option"
  FailOpen :: bool
  TTL :: duration
  AM :: metrics

definition NewAuthenticator :: "bool \<Rightarrow> duration \<Rightarrow> Authenticator" where
  "NewAuthenticator failOpen ttl =
     \<lparr>Cache = Some [], FailOpen = failOpen,
      TTL = (if ttl \<le> 0 then 24 * 60 * minute else ttl), AM = (\<lambda>_. 0)\<rparr>"

definition denied :: "string \<Rightarrow> Authenticator \<Rightarrow> Authenticator" where
  "denied reason a = a\<lparr>AM := IncDenyReason reason (Inc ''auth_deny'' (AM a))\<rparr>"

definition AuthenticateCached ::
  "Faults \<Rightarrow> AuthDB \<Rightarrow> time \<Rightarrow> string \<Rightarrow> string \<Rightarrow> Authenticator \<Rightarrow>
   (bool \<times> string \<times> bool) \<times> Authenticator" where
  "AuthenticateCached f db now clientID certFP a =
     (let key = CacheKey clientID (trimSpace certFP);
          (ok, reason, err) = Authenticate f db clientID certFP in
      if err then
        let a1 = a\<lparr>AM := Inc ''auth_store_error'' (AM a)\<rparr>;
            (hit, a2) = (if FailOpen a1 then
                           (case Cache a1 of None \<Rightarrow> (False, a1)
                            | Some c \<Rightarrow> let (r, c') = Recent key now (TTL a1) c in (r, a1\<lparr>Cache := Some c'\<rparr>))
                         else (False, a1)) in
        if hit
        then ((True, ''cache-failopen'', True),
              a2\<lparr>AM := Inc ''auth_allow'' (Inc ''auth_failopen_allowed'' (AM a2))\<rparr>)
        else ((False, ''store error'', True), denied ''store error'' a2)
      else if ok then
        let a1 = (case Cache a of None \<Rightarrow> a
                  | Some c \<Rightarrow> let c' = Remember key now c in
                      a\<lparr>Cache := Some c', AM := (AM a)(''cache_size'' := int (length c'))\<rparr>) in
        ((True, [], False), a1\<lparr>AM := Inc ''auth_allow'' (AM a1)\<rparr>)
      else ((False, reason, False), denied reason a))"

definition RunSweep :: "time \<Rightarrow> Authenticator \<Rightarrow> Authenticator" where
  "RunSweep now a =
     (case Cache a of None \<Rightarrow> a
      | Some c \<Rightarrow> let (n, c') = Sweep now (TTL a) c in
          a\<lparr>Cache := Some c', AM := (AM a)(''cache_size'' := int (length c'))\<rparr>)"

subsection \<open>Assigning a cell\<close>

record Cell =
  CID :: int
  Region :: string
  MQTTHost :: string
  MQTTPort :: int
  CStatus :: string

type_synonym cells = "(int \<times> Cell) list"

record Response =
  RCellID :: int
  RHost :: string
  RPort :: int
  RetryAfter :: int
  RMapVer :: int

definition pickStandby :: "cells \<Rightarrow> Cell option" where
  "pickStandby cells =
     (case sort (map fst (filter (\<lambda>(i, c). CStatus c = ''standby'') cells)) of
        [] \<Rightarrow> None
      | i # _ \<Rightarrow> map_of cells i)"

definition Decide :: "cells \<Rightarrow> int \<Rightarrow> int \<Rightarrow> Response option" where
  "Decide cells home cellMapVer =
     (case map_of cells home of
        None \<Rightarrow> None
      | Some c \<Rightarrow>
          let resp = \<lparr>RCellID = CID c, RHost = MQTTHost c, RPort = MQTTPort c, RetryAfter = 0,
                      RMapVer = cellMapVer\<rparr> in
          if CStatus c = ''overloaded'' then Some (resp\<lparr>RetryAfter := 30\<rparr>)
          else if CStatus c = ''draining'' then
            (let r = resp\<lparr>RetryAfter := 30\<rparr> in
             case pickStandby cells of
               None \<Rightarrow> Some r
             | Some sb \<Rightarrow> Some (r\<lparr>RCellID := CID sb, RHost := MQTTHost sb, RPort := MQTTPort sb\<rparr>))
          else Some resp)"

record Device =
  DSN :: string
  ProductKey :: string
  DRegion :: string
  CellID :: int
  CellMapVer :: int
  DStatus :: string

record BootDB =
  devices :: "string \<rightharpoonup> Device"
  cell_table :: cells

text \<open>Faults of the three queries of \<open>lookupOrCreate\<close>, and of the cell count's hash (a panic
  that \<open>CellOf\<close> reports as \<open>None\<close>).\<close>

datatype boot_error = DBError | CellPanic | BadSN | CellMissing

record BootFaults =
  get_fails :: bool
  insert_fails :: bool
  reget_fails :: bool

definition GetDevice :: "bool \<Rightarrow> BootDB \<Rightarrow> string \<Rightarrow> boot_error + Device option" where
  "GetDevice fails db sn = (if fails then Inl DBError else Inr (devices db sn))"

definition InsertDevice :: "bool \<Rightarrow> BootDB \<Rightarrow> Device \<Rightarrow> boot_error + BootDB" where
  "InsertDevice fails db d =
     (if fails then Inl DBError
      else Inr (case devices db (DSN d) of
                  None \<Rightarrow> db\<lparr>devices := (devices db)(DSN d \<mapsto> d)\<rparr>
                | Some _ \<Rightarrow> db))"

text \<open>\<open>between\<close> is what other replicas do to the table between the look-up and the insert.\<close>

definition lookupOrCreate ::
  "BootFaults \<Rightarrow> (BootDB \<Rightarrow> BootDB) \<Rightarrow> int \<Rightarrow> string \<Rightarrow> string \<Rightarrow> BootDB \<Rightarrow> boot_error + Device \<times> BootDB" where
  "lookupOrCreate f others nCells sn pk db =
     (case GetDevice (get_fails f) db sn of
        Inl e \<Rightarrow> Inl e
      | Inr (Some dev) \<Rightarrow> Inr (dev, db)
      | Inr None \<Rightarrow>
          let n = (if nCells \<le> 0 then 1 else nCells) in
          (case CellOf sn n of
             None \<Rightarrow> Inl CellPanic
           | Some cell \<Rightarrow>
               let d = \<lparr>DSN = sn, ProductKey = pk, DRegion = ''US'', CellID = int cell,
                        CellMapVer = 1, DStatus = ''activated''\<rparr> in
               (case InsertDevice (insert_fails f) (others db) d of
                  Inl e \<Rightarrow> Inl e
                | Inr db' \<Rightarrow>
                    (case GetDevice (reget_fails f) db' sn of
                       Inr (Some got) \<Rightarrow> Inr (got, db')
                     | _ \<Rightarrow> Inr (d, db')))))"

text \<open>The memory image of the cell table and the two administrative calls on it.\<close>

definition Refresh :: "bool \<Rightarrow> BootDB \<Rightarrow> cells \<Rightarrow> cells" where
  "Refresh fails db cache = (if fails then cache else fold (\<lambda>c m. AList.update (CID c) c m) (map snd (cell_table db)) [])"

definition CacheSetStatus :: "int \<Rightarrow> string \<Rightarrow> cells \<Rightarrow> cells" where
  "CacheSetStatus i status cache =
     (case map_of cache i of None \<Rightarrow> cache | Some c \<Rightarrow> AList.update i (c\<lparr>CStatus := status\<rparr>) cache)"

datatype http = Status int int

definition setStatus :: "bool \<Rightarrow> int option \<Rightarrow> string \<Rightarrow> BootDB \<Rightarrow> cells \<Rightarrow> http \<times> BootDB \<times> cells" where
  "setStatus fails pathId status db cache =
     (case pathId of
        None \<Rightarrow> (Status 400 10001, db, cache)
      | Some i \<Rightarrow>
          if i \<le> 0 then (Status 400 10001, db, cache)
          else if fails then (Status 500 50000, db, cache)
          else let hit = (\<lambda>(k, c). k = i) in
            if affected hit (cell_table db) = 0 then (Status 404 10004, db, cache)
            else (Status 200 0,
                  db\<lparr>cell_table := update_where hit (\<lambda>(k, c). (k, c\<lparr>CStatus := status\<rparr>)) (cell_table db)\<rparr>,
                  CacheSetStatus i status cache))"

definition handleBootstrap ::
  "BootFaults \<Rightarrow> (BootDB \<Rightarrow> BootDB) \<Rightarrow> int \<Rightarrow> cells \<Rightarrow> string \<Rightarrow> string \<Rightarrow> BootDB \<Rightarrow>
   (http + Response) \<times> BootDB" where
  "handleBootstrap f others nCells cache sn pk db =
     (if \<not> ValidSN sn then (Inl (Status 400 10001), db)
      else case lookupOrCreate f others nCells sn (if pk = [] then ''LM_S1'' else pk) db of
        Inl _ \<Rightarrow> (Inl (Status 500 50000), db)
      | Inr (dev, db') \<Rightarrow>
          (case Decide cache (CellID dev) (CellMapVer dev) of
             None \<Rightarrow> (Inl (Status 503 10004), db')
           | Some r \<Rightarrow> (Inr r, db')))"

subsection \<open>Histories of authentication\<close>

datatype auth_event = Auth Faults AuthDB time string string | SweepAt time

fun auth_step :: "Authenticator \<Rightarrow> auth_event \<Rightarrow> Authenticator" where
  "auth_step a (Auth f db now cid fp) = snd (AuthenticateCached f db now cid fp a)"
| "auth_step a (SweepAt now) = RunSweep now a"

fun auth_run :: "Authenticator \<Rightarrow> auth_event list \<Rightarrow> Authenticator" where
  "auth_run a [] = a"
| "auth_run a (e # es) = auth_run (auth_step a e) es"

lemma auth_run_append: "auth_run a (es @ [e]) = auth_step (auth_run a es) e"
  by (induction es arbitrary: a) auto

lemma Recent_hit: "Recent key now ttl c = (True, c') \<Longrightarrow> \<exists>t. map_of c key = Some t \<and> now - t \<le> ttl"
  by (auto simp: Recent_def split: option.splits if_splits)

lemma Recent_sub: "map_of (snd (Recent key now ttl c)) k = Some t \<Longrightarrow> map_of c k = Some t"
  by (auto simp: Recent_def delete_conv' split: option.splits if_splits)

lemma map_of_filter_sub: "distinct (map fst c) \<Longrightarrow> map_of (filter P c) k = Some t \<Longrightarrow> map_of c k = Some t"
  by (auto intro!: map_of_is_SomeI dest!: map_of_SomeD)

text \<open>Every entry of the cache is an earlier success of the store for that key.\<close>

definition cache_justified :: "AuthCache \<Rightarrow> auth_event list \<Rightarrow> bool" where
  "cache_justified c es \<longleftrightarrow> distinct (map fst c) \<and>
     (\<forall>k t. map_of c k = Some t \<longrightarrow>
        (\<exists>f db cid fp. Auth f db t cid fp \<in> set es \<and> k = CacheKey cid (trimSpace fp) \<and>
           fst (Authenticate f db cid fp)))"

definition auth_inv :: "Authenticator \<Rightarrow> auth_event list \<Rightarrow> bool" where
  "auth_inv a es \<longleftrightarrow> (\<forall>c. Cache a = Some c \<longrightarrow> cache_justified c es)"

lemma cache_justified_more: "cache_justified c es \<Longrightarrow> cache_justified c (es @ [e])"
  unfolding cache_justified_def by (metis UnI1 set_append)

lemma cache_justified_Recent:
  "cache_justified c es \<Longrightarrow> cache_justified (snd (Recent key now ttl c)) es"
  unfolding cache_justified_def
  by (auto dest!: Recent_sub) (auto simp: Recent_def distinct_delete split: option.splits)

lemma cache_justified_Remember:
  assumes "cache_justified c es" "fst (Authenticate f db cid fp)"
  shows "cache_justified (Remember (CacheKey cid (trimSpace fp)) now c) (es @ [Auth f db now cid fp])"
proof -
  have "distinct (map fst (Remember k t c))" for k t
    using assms(1) by (simp add: cache_justified_def Remember_def distinct_update)
  moreover have "map_of (Remember (CacheKey cid (trimSpace fp)) now c) k = Some t \<Longrightarrow>
      (k = CacheKey cid (trimSpace fp) \<and> t = now) \<or> map_of c k = Some t" for k t
    by (auto simp: Remember_def update_conv' split: if_splits)
  ultimately show ?thesis
    using assms unfolding cache_justified_def by (metis UnI1 UnI2 list.set_intros(1) set_append)
qed

lemma cache_justified_Sweep: "cache_justified c es \<Longrightarrow> cache_justified (snd (Sweep now ttl c)) es"
  unfolding cache_justified_def Sweep_def
  by (auto simp: distinct_map_filter dest: map_of_filter_sub)

lemma denied_cache [simp]: "Cache (denied r a) = Cache a"
  by (simp add: denied_def)

lemma auth_step_config [simp]: "FailOpen (auth_step a e) = FailOpen a" "TTL (auth_step a e) = TTL a"
  by (cases e; auto simp: AuthenticateCached_def RunSweep_def denied_def Let_def
      split: prod.splits option.splits if_splits)+

lemma auth_run_config [simp]: "FailOpen (auth_run a es) = FailOpen a" "TTL (auth_run a es) = TTL a"
  by (induction es arbitrary: a) auto

lemma auth_inv_step:
  assumes "auth_inv a es"
  shows "auth_inv (auth_step a e) (es @ [e])"
proof (cases e)
  case (SweepAt now)
  show ?thesis
  proof (cases "Cache a")
    case (Some c)
    then have "cache_justified c es" using assms by (simp add: auth_inv_def)
    then show ?thesis using Some SweepAt
      by (auto simp: auth_inv_def RunSweep_def split_beta intro!: cache_justified_more cache_justified_Sweep)
  qed (simp add: auth_inv_def RunSweep_def SweepAt)
next
  case (Auth f db now cid fp)
  let ?k = "CacheKey cid (trimSpace fp)"
  obtain ok r err where v: "Authenticate f db cid fp = (ok, r, err)" by (metis prod_cases3)
  show ?thesis
  proof (cases "Cache a")
    case None
    then have "Cache (auth_step a e) = None"
      using v Auth by (auto simp: AuthenticateCached_def Let_def)
    then show ?thesis by (simp add: auth_inv_def)
  next
    case (Some c)
    then have j: "cache_justified c es" using assms by (simp add: auth_inv_def)
    have "Cache (auth_step a e) \<in> {Some c, Some (snd (Recent ?k now (TTL a) c))} \<or>
        Cache (auth_step a e) = Some (Remember ?k now c) \<and> ok"
      using v Auth Some by (auto simp: AuthenticateCached_def Let_def split_beta)
    then show ?thesis
      using cache_justified_more [OF j] cache_justified_more [OF cache_justified_Recent [OF j]]
        cache_justified_Remember [OF j, of f db cid fp now] v Auth
      by (auto simp: auth_inv_def)
  qed
qed

lemma auth_inv_run: "auth_inv a [] \<Longrightarrow> auth_inv (auth_run a es) es"
  by (induction es rule: rev_induct) (simp_all add: auth_run_append auth_inv_step)

lemma auth_inv_new: "auth_inv (NewAuthenticator fo ttl) []"
  by (simp add: auth_inv_def NewAuthenticator_def cache_justified_def)

lemma CacheKey_inj:
  "ValidSN a \<Longrightarrow> ValidSN b \<Longrightarrow> CacheKey a x = CacheKey b y \<Longrightarrow> a = b \<and> x = y"
proof -
  have bar: "CHR ''|'' \<notin> set s" if "ValidSN s" for s
    using that by (auto simp: ValidSN_def list_all_iff sn_char_def between_def code_def)
  assume "ValidSN a" "ValidSN b" and "CacheKey a x = CacheKey b y"
  then show ?thesis
    using bar sep_inj [of "CHR ''|''" a b x y] by (auto simp: CacheKey_def)
qed

lemma Authenticate_valid: "Authenticate f db cid fp = (ok, r, err) \<Longrightarrow> ok \<or> err \<Longrightarrow> ValidSN cid"
  by (auto simp: Authenticate_def split: if_splits)

lemma AuthenticateCached_allow:
  assumes "fst (fst (AuthenticateCached f db now cid fp a))"
  shows "fst (Authenticate f db cid fp) \<or>
     (snd (snd (Authenticate f db cid fp)) \<and> FailOpen a \<and>
      (\<exists>c t. Cache a = Some c \<and> map_of c (CacheKey cid (trimSpace fp)) = Some t \<and> now - t \<le> TTL a))"
proof -
  obtain ok r err where v: "Authenticate f db cid fp = (ok, r, err)" by (metis prod_cases3)
  show ?thesis
  proof (cases err)
    case True
    then obtain c c' where "Cache a = Some c" "FailOpen a"
        "Recent (CacheKey cid (trimSpace fp)) now (TTL a) c = (True, c')"
      using assms v by (auto simp: AuthenticateCached_def Let_def split_beta prod_eq_iff split: if_splits option.splits)
    with v True show ?thesis by (auto dest!: Recent_hit)
  next
    case False
    with assms v show ?thesis by (auto simp: AuthenticateCached_def Let_def split: if_splits)
  qed
qed

subsection \<open>Cells\<close>

lemma pickStandby_spec:
  assumes "distinct (map fst cells)"
  shows "case pickStandby cells of
      None \<Rightarrow> \<forall>(i, c)\<in>set cells. CStatus c \<noteq> ''standby''
    | Some sb \<Rightarrow> \<exists>i. (i, sb) \<in> set cells \<and> CStatus sb = ''standby'' \<and>
        (\<forall>(j, c)\<in>set cells. CStatus c = ''standby'' \<longrightarrow> i \<le> j)"
proof -
  let ?ids = "sort (map fst (filter (\<lambda>(i, c). CStatus c = ''standby'') cells))"
  have mem: "i \<in> set ?ids \<longleftrightarrow> (\<exists>c. (i, c) \<in> set cells \<and> CStatus c = ''standby'')" for i
    by force
  show ?thesis
  proof (cases ?ids)
    case Nil
    then have "\<not> (\<exists>c. (i, c) \<in> set cells \<and> CStatus c = ''standby'')" for i using mem by (metis empty_iff list.set(1))
    then show ?thesis using Nil by (auto simp: pickStandby_def)
  next
    case (Cons i js)
    then obtain c where c: "(i, c) \<in> set cells" "CStatus c = ''standby''" using mem by (metis list.set_intros(1))
    have "sorted ?ids" by simp
    then have "\<forall>j\<in>set ?ids. i \<le> j" using Cons by auto
    then have "\<forall>(j, c)\<in>set cells. CStatus c = ''standby'' \<longrightarrow> i \<le> j" using mem by blast
    with c show ?thesis using Cons assms by (auto simp: pickStandby_def)
  qed
qed

lemma lookupOrCreate_known:
  "devices db sn = Some d \<Longrightarrow> \<not> get_fails f \<Longrightarrow> lookupOrCreate f others n sn pk db = Inr (d, db)"
  by (simp add: lookupOrCreate_def GetDevice_def)

lemma lookupOrCreate_stored:
  "lookupOrCreate f others n sn pk db = Inr (d, db') \<Longrightarrow> \<not> reget_fails f \<Longrightarrow> devices db' sn = Some d"
  by (auto simp: lookupOrCreate_def GetDevice_def InsertDevice_def Let_def split: option.splits sum.splits if_splits)

subsection \<open>Properties\<close>

text \<open>C5: a device is let in only on the store's yes, or, when the store could not be asked and
  the operator has switched fail-open on, on a success of the very same client and certificate
  within the time-to-live. An explicit refusal is never overridden, whatever the history.\<close>

theorem allow_is_justified:
  assumes "fst (fst (AuthenticateCached f db now cid fp (auth_run (NewAuthenticator fo ttl) es)))"
  shows "fst (Authenticate f db cid fp) \<or>
    (fo \<and> snd (snd (Authenticate f db cid fp)) \<and>
     (\<exists>f' db' t fp'. Auth f' db' t cid fp' \<in> set es \<and> trimSpace fp' = trimSpace fp \<and>
        fst (Authenticate f' db' cid fp') \<and> now - t \<le> TTL (NewAuthenticator fo ttl)))"
proof -
  let ?a = "auth_run (NewAuthenticator fo ttl) es"
  from AuthenticateCached_allow [OF assms] show ?thesis
  proof (elim disjE conjE exE, goal_cases)
    case 1
    then show ?case by simp
  next
    case (2 c t)
    have "cache_justified c es"
      using auth_inv_run [OF auth_inv_new] 2 by (simp add: auth_inv_def)
    then obtain f' db' cid' fp' where e: "Auth f' db' t cid' fp' \<in> set es"
        "CacheKey cid (trimSpace fp) = CacheKey cid' (trimSpace fp')" "fst (Authenticate f' db' cid' fp')"
      using 2 unfolding cache_justified_def by blast
    then have "ValidSN cid" "ValidSN cid'"
      using 2 Authenticate_valid by (metis prod.collapse)+
    with e have "cid' = cid" "trimSpace fp' = trimSpace fp" using CacheKey_inj by metis+
    with e 2 show ?case by (auto simp: NewAuthenticator_def)
  qed
qed

definition demo_up :: Faults where "demo_up = \<lparr>status_fails = False, cert_fails = False\<rparr>"
definition demo_down :: Faults where "demo_down = \<lparr>status_fails = True, cert_fails = False\<rparr>"
definition demo_db :: AuthDB where
  "demo_db = \<lparr>device_status = [''SIM1'' \<mapsto> ''activated''], device_cert = Map.empty\<rparr>"

lemma allow_is_justified_witness:
  "fst (Authenticate demo_down demo_db ''SIM1'' []) \<or>
    (True \<and> snd (snd (Authenticate demo_down demo_db ''SIM1'' [])) \<and>
     (\<exists>f' db' t fp'. Auth f' db' t ''SIM1'' fp' \<in> set [Auth demo_up demo_db 5 ''SIM1'' []] \<and>
        trimSpace fp' = trimSpace [] \<and> fst (Authenticate f' db' ''SIM1'' fp') \<and>
        9 - t \<le> TTL (NewAuthenticator True 10)))"
  by (rule allow_is_justified)
     (simp add: AuthenticateCached_def Authenticate_def DeviceStatus_def NewAuthenticator_def demo_up_def
       demo_down_def demo_db_def ValidSN_def sn_char_def between_def code_def trimSpace_def Remember_def
       Recent_def CacheKey_def Let_def)

text \<open>what the scheduler answers for a home cell that exists: a healthy cell is given as it is,
  an overloaded one with a retry hint, and a draining one is replaced by the standby cell of
  least number whenever there is one.\<close>

theorem Decide_redirects:
  assumes "distinct (map fst cells)" and "map_of cells home = Some c"
  shows "\<exists>r. Decide cells home ver = Some r \<and> RMapVer r = ver \<and>
     (RetryAfter r = (if CStatus c \<in> {''overloaded'', ''draining''} then 30 else 0)) \<and>
     (CStatus c \<noteq> ''draining'' \<longrightarrow> RCellID r = CID c \<and> RHost r = MQTTHost c \<and> RPort r = MQTTPort c) \<and>
     (CStatus c = ''draining'' \<longrightarrow>
        (if \<exists>(i, d)\<in>set cells. CStatus d = ''standby''
         then \<exists>(i, d)\<in>set cells. CStatus d = ''standby'' \<and>
                (\<forall>(j, e)\<in>set cells. CStatus e = ''standby'' \<longrightarrow> i \<le> j) \<and>
                RCellID r = CID d \<and> RHost r = MQTTHost d \<and> RPort r = MQTTPort d
         else RCellID r = CID c))"
proof (cases "pickStandby cells")
  case None
  then show ?thesis using pickStandby_spec [OF assms(1)] assms(2)
    by (auto simp: Decide_def Let_def)
next
  case (Some sb)
  then obtain i where i: "(i, sb) \<in> set cells" "CStatus sb = ''standby''"
      "\<forall>(j, e)\<in>set cells. CStatus e = ''standby'' \<longrightarrow> i \<le> j"
    using pickStandby_spec [OF assms(1)] by auto
  then have "\<exists>(i, d)\<in>set cells. CStatus d = ''standby'' \<and>
      (\<forall>(j, e)\<in>set cells. CStatus e = ''standby'' \<longrightarrow> i \<le> j) \<and>
      CID sb = CID d \<and> MQTTHost sb = MQTTHost d \<and> MQTTPort sb = MQTTPort d" by blast
  moreover from i have "\<exists>(i, d)\<in>set cells. CStatus d = ''standby''" by blast
  ultimately show ?thesis using Some assms(2) by (simp add: Decide_def Let_def)
qed

definition demo_cells :: cells where
  "demo_cells =
    [(1, \<lparr>CID = 1, Region = ''US'', MQTTHost = ''a'', MQTTPort = 1884, CStatus = ''draining''\<rparr>),
     (3, \<lparr>CID = 3, Region = ''US'', MQTTHost = ''c'', MQTTPort = 1884, CStatus = ''standby''\<rparr>),
     (2, \<lparr>CID = 2, Region = ''US'', MQTTHost = ''b'', MQTTPort = 1884, CStatus = ''standby''\<rparr>)]"

lemma Decide_redirects_witness: "\<exists>r. Decide demo_cells 1 7 = Some r \<and> RCellID r = 2 \<and> RMapVer r = 7"
  using Decide_redirects [of demo_cells 1 "\<lparr>CID = 1, Region = ''US'', MQTTHost = ''a'', MQTTPort = 1884, CStatus = ''draining''\<rparr>" 7]
  by (auto simp: demo_cells_def)

text \<open>a cell assignment is sticky: once the bootstrap service has answered for a serial number
  from the table, every later request gets the same device row, whatever cell count or product
  key it comes with, and changes nothing.\<close>

theorem assignment_sticky:
  assumes "lookupOrCreate f others n sn pk db = Inr (d, db')" and "\<not> reget_fails f"
    and "\<not> get_fails f'"
  shows "lookupOrCreate f' others' n' sn pk' db' = Inr (d, db')"
  using lookupOrCreate_stored [OF assms(1,2)] assms(3) by (rule lookupOrCreate_known)

lemma assignment_sticky_witness:
  "let db = \<lparr>devices = Map.empty, cell_table = demo_cells\<rparr>;
       ok = \<lparr>get_fails = False, insert_fails = False, reget_fails = False\<rparr>;
       d = \<lparr>DSN = ''SIM00001'', ProductKey = ''LM_S1'', DRegion = ''US'', CellID = 1, CellMapVer = 1, DStatus = ''activated''\<rparr>;
       db' = db\<lparr>devices := [''SIM00001'' \<mapsto> d]\<rparr>
   in lookupOrCreate ok id 4 ''SIM00001'' ''LM_P2'' db' = Inr (d, db')"
  unfolding Let_def
  by (rule assignment_sticky [where n = 1 and pk = "''LM_S1''" and others = id and
        f = "\<lparr>get_fails = False, insert_fails = False, reget_fails = False\<rparr>" and
        db = "\<lparr>devices = Map.empty, cell_table = demo_cells\<rparr>"])
     (simp_all add: lookupOrCreate_def GetDevice_def InsertDevice_def CellOf_def Let_def)

end
