(* ===== verification/Buffer.thy ===== *)
theory Buffer
  imports Prelude
begin

text \<open>
  The bridge's disk buffer, \<open>internal/bridge/buffer.go\<close>: envelopes that could not be
  published are appended as lines to a file; \<open>Replay\<close> renames the file to \<open>.replay\<close>,
  publishes its lines and writes back what failed.

  A file is the list of its lines (every writer ends a line with a newline, and a JSON
  line contains none and no carriage return at its end); an absent and an empty main file
  are both \<open>[]\<close>, as \<open>Replay\<close> treats them alike. The scanner's line limit is kept:
  \<open>bufio.Scanner\<close> gives up at a line that does not fit its 4 MiB buffer. A file operation
  either happens completely or fails; a crash may fall between any two of them.
  Unmarshalling a line is an argument \<open>decode\<close>; so are the answers of the publisher.
\<close>

type_synonym line = string

definition maxToken :: nat where "maxToken = 4 * 1024 * 1024"

definition fits :: "line \<Rightarrow> bool" where "fits l \<longleftrightarrow> length l < maxToken"

record Files =
  main :: "line list"
  rotated :: "line list option"

definition appendLines :: "bool \<Rightarrow> line list \<Rightarrow> Files \<Rightarrow> Files option" where
  "appendLines ok ls fs = (if ok then Some (fs\<lparr>main := main fs @ ls\<rparr>) else None)"

definition Append :: "bool \<Rightarrow> line \<Rightarrow> Files \<Rightarrow> Files option" where
  "Append ok l fs = appendLines ok [l] fs"

text \<open>\<open>Len\<close>: the lines the scanner sees, up to one that is too long.\<close>

definition scanned :: "line list \<Rightarrow> line list" where
  "scanned ls = takeWhile fits ls"

definition scan_error :: "line list \<Rightarrow> bool" where
  "scan_error ls \<longleftrightarrow> \<not> list_all fits ls"

definition Len :: "Files \<Rightarrow> nat" where
  "Len fs = length (filter (\<lambda>l. l \<noteq> []) (scanned (main fs)))"

subsection \<open>One line of a replay\<close>

record Progress =
  replayed :: nat
  skipped :: nat
  requeue :: "line list"
  stopped :: bool
  sent :: "line list"

definition start_progress :: Progress where
  "start_progress = \<lparr>replayed = 0, skipped = 0, requeue = [], stopped = False, sent = []\<rparr>"

text \<open>
  The body of the scan loop. \<open>cancelled\<close> is \<open>ctx.Err() != nil\<close> at this line, \<open>ok\<close> the
  publisher's answer should it be asked; \<open>stopped\<close> is \<open>firstErr != nil\<close>.
\<close>

definition replay_line :: "(line \<Rightarrow> 'e option) \<Rightarrow> bool \<Rightarrow> bool \<Rightarrow> line \<Rightarrow> Progress \<Rightarrow> Progress" where
  "replay_line decode cancelled ok l p =
     (if l = [] then p
      else if stopped p \<or> cancelled then p\<lparr>requeue := requeue p @ [l]\<rparr>
      else case decode l of
        None \<Rightarrow> p\<lparr>skipped := skipped p + 1\<rparr>
      | Some _ \<Rightarrow>
          if ok then p\<lparr>replayed := replayed p + 1, sent := sent p @ [l]\<rparr>
          else p\<lparr>stopped := True, requeue := requeue p @ [l]\<rparr>)"

fun replay_lines ::
  "(line \<Rightarrow> 'e option) \<Rightarrow> (nat \<Rightarrow> bool) \<Rightarrow> (nat \<Rightarrow> bool) \<Rightarrow> nat \<Rightarrow> line list \<Rightarrow> Progress \<Rightarrow> Progress" where
  "replay_lines decode cancelled ok i [] p = p"
| "replay_lines decode cancelled ok i (l # ls) p =
     replay_lines decode cancelled ok (Suc i) ls (replay_line decode (cancelled i) (ok i) l p)"

subsection \<open>A whole replay\<close>

datatype replay_error = RotateErr | OpenErr | RequeueErr | RemoveErr | ScanErr | PublishErr

record FileFaults =
  rename_fails :: bool
  open_fails :: bool
  requeue_fails :: bool
  remove_fails :: bool

record ReplayResult =
  Replayed :: nat
  Requeued :: nat
  Skipped :: nat

definition no_result :: ReplayResult where
  "no_result = \<lparr>Replayed = 0, Requeued = 0, Skipped = 0\<rparr>"

fun lines_of :: "line list option \<Rightarrow> line list" where
  "lines_of None = []"
| "lines_of (Some ls) = ls"

text \<open>First critical section: \<open>Inr None\<close> is the early return on an empty buffer.\<close>

definition rotate :: "FileFaults \<Rightarrow> Files \<Rightarrow> replay_error + Files option" where
  "rotate f fs =
     (case rotated fs of
        Some _ \<Rightarrow> Inr (Some fs)
      | None \<Rightarrow>
          if main fs = [] then Inr None
          else if rename_fails f then Inl RotateErr
          else Inr (Some (fs\<lparr>main := [], rotated := Some (main fs)\<rparr>)))"

text \<open>Second critical section, after the lines have been read.\<close>

definition finish :: "FileFaults \<Rightarrow> bool \<Rightarrow> Progress \<Rightarrow> Files \<Rightarrow> (replay_error option \<times> ReplayResult) \<times> Files" where
  "finish f scanErr p fs =
     (let res = \<lparr>Replayed = replayed p, Requeued = 0, Skipped = skipped p\<rparr> in
      if requeue p \<noteq> [] \<and> requeue_fails f then ((Some RequeueErr, res), fs)
      else
        let fs1 = fs\<lparr>main := main fs @ requeue p\<rparr>;
            res1 = res\<lparr>Requeued := length (requeue p)\<rparr> in
        if remove_fails f then ((Some RemoveErr, res1), fs1)
        else ((if scanErr then Some ScanErr else if stopped p then Some PublishErr else None, res1),
              fs1\<lparr>rotated := None\<rparr>))"

text \<open>
  \<open>meanwhile\<close> are the lines other goroutines append while the lock is free, \<open>sent\<close> in the
  progress what was published. The result is the error, the statistics, the published lines and the files.
\<close>

definition Replay ::
  "(line \<Rightarrow> 'e option) \<Rightarrow> (nat \<Rightarrow> bool) \<Rightarrow> (nat \<Rightarrow> bool) \<Rightarrow> FileFaults \<Rightarrow> line list \<Rightarrow> Files \<Rightarrow>
   (replay_error option \<times> ReplayResult) \<times> line list \<times> Files" where
  "Replay decode cancelled ok f meanwhile fs =
     (case rotate f fs of
        Inl e \<Rightarrow> ((Some e, no_result), [], fs)
      | Inr None \<Rightarrow> ((None, no_result), [], fs)
      | Inr (Some fs1) \<Rightarrow>
          if open_fails f then ((Some OpenErr, no_result), [], fs1)
          else
            let ls = lines_of (rotated fs1);
                p = replay_lines decode cancelled ok 0 (scanned ls) start_progress;
                (r, fs2) = finish f (scan_error ls) p (fs1\<lparr>main := main fs1 @ meanwhile\<rparr>)
            in (r, sent p, fs2))"

subsection \<open>What a replay does to the lines\<close>

text \<open>A line that may be dropped: blank, or not an envelope.\<close>

definition junk :: "(line \<Rightarrow> 'e option) \<Rightarrow> line \<Rightarrow> bool" where
  "junk decode l \<longleftrightarrow> l = [] \<or> decode l = None"

abbreviation nonblank :: "line list \<Rightarrow> line list" where
  "nonblank ls \<equiv> filter (\<lambda>l. l \<noteq> []) ls"

lemma replay_lines_held:
  "stopped p \<or> (\<forall>j\<ge>i. cancelled j) \<Longrightarrow>
   replay_lines decode cancelled ok i ls p = p\<lparr>requeue := requeue p @ nonblank ls\<rparr>"
proof (induction ls arbitrary: i p)
  case (Cons l ls)
  then have "replay_line decode (cancelled i) (ok i) l p = (if l = [] then p else p\<lparr>requeue := requeue p @ [l]\<rparr>)"
    by (auto simp: replay_line_def)
  then show ?case using Cons.prems Cons.IH [of p "Suc i"] Cons.IH [of "p\<lparr>requeue := requeue p @ [l]\<rparr>" "Suc i"]
    by auto
qed simp

text \<open>The outcome of the loop after \<open>k\<close> non-blank lines have been dealt with.\<close>

definition outcome :: "(line \<Rightarrow> 'e option) \<Rightarrow> line list \<Rightarrow> nat \<Rightarrow> Progress \<Rightarrow> Progress \<Rightarrow> bool" where
  "outcome decode nb k p q \<longleftrightarrow> k \<le> length nb \<and>
     sent q = sent p @ filter (\<lambda>l. decode l \<noteq> None) (take k nb) \<and>
     requeue q = requeue p @ drop k nb \<and>
     replayed q = replayed p + length (filter (\<lambda>l. decode l \<noteq> None) (take k nb)) \<and>
     skipped q = skipped p + length (filter (\<lambda>l. decode l = None) (take k nb)) \<and>
     (stopped q \<longrightarrow> stopped p \<or> k < length nb)"

lemma outcome_step:
  "outcome decode nb k (p\<lparr>replayed := Suc (replayed p), sent := sent p @ [l]\<rparr>) q \<Longrightarrow> decode l \<noteq> None \<Longrightarrow>
   outcome decode (l # nb) (Suc k) p q"
  "outcome decode nb k (p\<lparr>skipped := Suc (skipped p)\<rparr>) q \<Longrightarrow> decode l = None \<Longrightarrow>
   outcome decode (l # nb) (Suc k) p q"
  by (auto simp: outcome_def)

lemma replay_lines_outcome:
  assumes mono: "\<forall>i j. i \<le> j \<longrightarrow> cancelled i \<longrightarrow> cancelled j"
  shows "\<not> stopped p \<Longrightarrow> \<exists>k. outcome decode (nonblank ls) k p (replay_lines decode cancelled ok i ls p)"
proof (induction ls arbitrary: i p)
  case Nil
  then show ?case by (auto simp: outcome_def)
next
  case (Cons l ls)
  consider (blank) "l = []" | (held) "l \<noteq> []" "cancelled i"
    | (junk) "l \<noteq> []" "\<not> cancelled i" "decode l = None"
    | (good) e where "l \<noteq> []" "\<not> cancelled i" "decode l = Some e" "ok i"
    | (bad) e where "l \<noteq> []" "\<not> cancelled i" "decode l = Some e" "\<not> ok i"
    by blast
  then show ?case
  proof cases
    case blank
    then show ?thesis using Cons by (simp add: replay_line_def)
  next
    case held
    then have "\<forall>j\<ge>i. cancelled j" using mono by blast
    then show ?thesis using held Cons.prems
      by (subst replay_lines_held) (auto simp: outcome_def intro!: exI [of _ 0])
  next
    case junk
    then have "replay_line decode (cancelled i) (ok i) l p = p\<lparr>skipped := skipped p + 1\<rparr>"
      using Cons.prems by (simp add: replay_line_def)
    then show ?thesis using junk Cons.prems Cons.IH [of "p\<lparr>skipped := skipped p + 1\<rparr>" "Suc i"]
      by (auto intro: exI dest: outcome_step(2))
  next
    case good
    then have "replay_line decode (cancelled i) (ok i) l p = p\<lparr>replayed := replayed p + 1, sent := sent p @ [l]\<rparr>"
      using Cons.prems by (simp add: replay_line_def)
    then show ?thesis using good Cons.prems
        Cons.IH [of "p\<lparr>replayed := replayed p + 1, sent := sent p @ [l]\<rparr>" "Suc i"]
      by (auto intro: exI dest: outcome_step(1))
  next
    case bad
    then have "replay_line decode (cancelled i) (ok i) l p = p\<lparr>stopped := True, requeue := requeue p @ [l]\<rparr>"
      using Cons.prems by (simp add: replay_line_def)
    then show ?thesis using bad
      by (auto simp: replay_lines_held outcome_def intro!: exI [of _ 0])
  qed
qed

lemma scanned_all [simp]: "list_all fits ls \<Longrightarrow> scanned ls = ls"
  by (simp add: scanned_def list_all_iff)

subsection \<open>The buffer as a system of steps\<close>

text \<open>
  One replayer, any number of appending goroutines, and crashes. The replayer is either idle
  or has the rest of the scan and its progress in memory; a crash loses that memory and
  nothing on disk. \<open>given\<close> and \<open>out\<close> record what was appended and what was published. \<open>Written\<close> is the
  moment between writing back and removing \<open>.replay\<close>.
\<close>

datatype worker = Idle | Draining "line list" Progress | Written

record Sys =
  files :: Files
  worker :: worker
  given :: "line list"
  out :: "line list"

inductive buf_step :: "(line \<Rightarrow> 'e option) \<Rightarrow> Sys \<Rightarrow> Sys \<Rightarrow> bool" for decode where
  append: "Append True l (files s) = Some fs \<Longrightarrow>
     buf_step decode s (s\<lparr>files := fs, given := given s @ [l]\<rparr>)"
| rotate: "worker s = Idle \<Longrightarrow> rotate f (files s) = Inr (Some fs) \<Longrightarrow> \<not> open_fails f \<Longrightarrow> rotated fs = Some ls \<Longrightarrow>
     buf_step decode s (s\<lparr>files := fs, worker := Draining (scanned ls) start_progress\<rparr>)"
| rotate_only: "worker s = Idle \<Longrightarrow> rotate f (files s) = Inr (Some fs) \<Longrightarrow> open_fails f \<Longrightarrow>
     buf_step decode s (s\<lparr>files := fs\<rparr>)"
| line: "worker s = Draining (l # ls) p \<Longrightarrow>
     buf_step decode s (s\<lparr>worker := Draining ls (replay_line decode c ok l p),
                        out := out s @ drop (length (sent p)) (sent (replay_line decode c ok l p))\<rparr>)"
| requeue_failed: "worker s = Draining [] p \<Longrightarrow> buf_step decode s (s\<lparr>worker := Idle\<rparr>)"
| requeued: "worker s = Draining [] p \<Longrightarrow> appendLines True (requeue p) (files s) = Some fs \<Longrightarrow>
     buf_step decode s (s\<lparr>files := fs, worker := Written\<rparr>)"
| removed: "worker s = Written \<Longrightarrow>
     buf_step decode s (s\<lparr>files := (files s)\<lparr>rotated := None\<rparr>, worker := Idle\<rparr>)"
| crash: "buf_step decode s (s\<lparr>worker := Idle\<rparr>)"

inductive_cases buf_stepE: "buf_step decode s s'"

definition start_sys :: Sys where
  "start_sys = \<lparr>files = \<lparr>main = [], rotated = None\<rparr>, worker = Idle, given = [], out = []\<rparr>"

inductive buf_reach :: "(line \<Rightarrow> 'e option) \<Rightarrow> Sys \<Rightarrow> bool" for decode where
  buf_start: "buf_reach decode start_sys"
| buf_next: "buf_reach decode s \<Longrightarrow> buf_step decode s s' \<Longrightarrow> buf_reach decode s'"

text \<open>Where a line may be: on disk, in either file, or published.\<close>

definition kept :: "Sys \<Rightarrow> line \<Rightarrow> bool" where
  "kept s l \<longleftrightarrow> l \<in> set (main (files s)) \<or> l \<in> set (lines_of (rotated (files s))) \<or> l \<in> set (out s)"

text \<open>
  The invariant, for runs in which the scanner can read every appended line. While lines are
  being published each rotated line is still to be read, or set aside, or published, or junk; when they
  have been written back each is in the main file, or published, or junk.
\<close>

definition all_fit :: "Sys \<Rightarrow> bool" where
  "all_fit s \<longleftrightarrow> list_all fits (given s)"

definition buf_inv :: "(line \<Rightarrow> 'e option) \<Rightarrow> Sys \<Rightarrow> bool" where
  "buf_inv decode s \<longleftrightarrow>
     set (main (files s)) \<union> set (lines_of (rotated (files s))) \<subseteq> set (given s) \<and>
     (\<forall>l\<in>set (given s). junk decode l \<or> kept s l) \<and>
     (case worker s of
        Idle \<Rightarrow> True
      | Draining rest p \<Rightarrow> set (requeue p) \<subseteq> set (lines_of (rotated (files s))) \<and> set rest \<subseteq> set (lines_of (rotated (files s))) \<and>
          (\<forall>l\<in>set (lines_of (rotated (files s))). junk decode l \<or> l \<in> set rest \<or> l \<in> set (requeue p) \<or> l \<in> set (out s))
      | Written \<Rightarrow>
          (\<forall>l\<in>set (lines_of (rotated (files s))). junk decode l \<or> l \<in> set (main (files s)) \<or> l \<in> set (out s)))"

lemma replay_line_cases:
  "replay_line decode c ok l p = p\<lparr>requeue := requeue p @ [l]\<rparr> \<or>
   replay_line decode c ok l p = p\<lparr>stopped := True, requeue := requeue p @ [l]\<rparr> \<or>
   (junk decode l \<and> sent (replay_line decode c ok l p) = sent p \<and> requeue (replay_line decode c ok l p) = requeue p) \<or>
   replay_line decode c ok l p = p\<lparr>replayed := replayed p + 1, sent := sent p @ [l]\<rparr>"
  by (auto simp: replay_line_def junk_def split: option.splits)

lemma rotate_Some:
  "rotate f fs = Inr (Some fs') \<Longrightarrow>
   (fs' = fs \<and> rotated fs \<noteq> None) \<or> (rotated fs = None \<and> fs' = fs\<lparr>main := [], rotated := Some (main fs)\<rparr>)"
  by (auto simp: rotate_def split: option.splits if_splits)

lemma buf_inv_rotate:
  assumes "rotate f (files s) = Inr (Some fs)" "buf_inv decode s"
  shows "buf_inv decode (s\<lparr>files := fs, worker := Idle\<rparr>)" "\<exists>ls. rotated fs = Some ls \<and> set ls \<subseteq> set (given s)"
  using rotate_Some [OF assms(1)] assms(2)
  by (auto simp: buf_inv_def kept_def split: option.splits)

lemma buf_inv_step:
  assumes "buf_step decode s s'" "all_fit s" "buf_inv decode s"
  shows "buf_inv decode s'"
  using assms(1)
proof cases
  case (append l fs)
  then show ?thesis using assms(3)
    by (auto simp: buf_inv_def kept_def Append_def appendLines_def split: worker.splits)
next
  case (rotate f fs ls)
  have i: "buf_inv decode (s\<lparr>files := fs, worker := Idle\<rparr>)" and "set ls \<subseteq> set (given s)"
    using buf_inv_rotate [OF rotate(3) assms(3)] rotate(5) by auto
  then have "list_all fits ls" using assms(2) by (auto simp: all_fit_def list_all_iff)
  then show ?thesis using i rotate
    by (auto simp: buf_inv_def kept_def start_progress_def)
next
  case (rotate_only f fs)
  then show ?thesis using buf_inv_rotate(1) [OF rotate_only(3) assms(3)]
    by (simp add: buf_inv_def kept_def)
next
  case (line l ls p c ok)
  show ?thesis
    using replay_line_cases [of decode c ok l p]
    by (elim disjE) (use line assms(3) in \<open>auto simp: buf_inv_def kept_def\<close>)
next
  case (requeue_failed p)
  then show ?thesis using assms(3) by (simp add: buf_inv_def kept_def)
next
  case (requeued p fs)
  have fs: "fs = (files s)\<lparr>main := main (files s) @ requeue p\<rparr>"
    using requeued(3) by (simp add: appendLines_def)
  show ?thesis using requeued(1,2) assms(3)
    by (simp add: fs buf_inv_def kept_def) blast
next
  case removed
  then show ?thesis using assms(3)
    by (auto simp: buf_inv_def kept_def)
next
  case crash
  then show ?thesis using assms(3) by (simp add: buf_inv_def kept_def)
qed

lemma given_grows: "buf_step decode s s' \<Longrightarrow> set (given s) \<subseteq> set (given s')"
  by (cases rule: buf_step.cases) auto

lemma buf_inv_reach: "buf_reach decode s \<Longrightarrow> all_fit s \<Longrightarrow> buf_inv decode s"
proof (induction rule: buf_reach.induct)
  case buf_start
  then show ?case by (simp add: buf_inv_def start_sys_def)
next
  case (buf_next s s')
  then have "all_fit s" using given_grows by (fastforce simp: all_fit_def list_all_iff)
  then show ?case using buf_next buf_inv_step by blast
qed

subsection \<open>Properties\<close>

text \<open>a replay that runs to its end publishes, in file order, the envelopes of a prefix of
  the rotated lines, puts every line after that prefix back, in order, behind what was
  appended meanwhile, and accounts for each non-blank line exactly once.\<close>

theorem Replay_prefix:
  assumes "rotated fs = None" "list_all fits (main fs)" "\<forall>i j. i \<le> j \<longrightarrow> cancelled i \<longrightarrow> cancelled j"
    and "main fs \<noteq> []"
    and "f = \<lparr>rename_fails = False, open_fails = False, requeue_fails = False, remove_fails = False\<rparr>"
  shows "\<exists>k r e. let nb = nonblank (main fs) in
    Replay decode cancelled ok f meanwhile fs =
      ((e, r), filter (\<lambda>l. decode l \<noteq> None) (take k nb), \<lparr>main = meanwhile @ drop k nb, rotated = None\<rparr>) \<and>
    Replayed r + Skipped r + Requeued r = length nb \<and> (e = None \<or> k < length nb)"
proof -
  have "\<not> stopped start_progress" by (simp add: start_progress_def)
  from replay_lines_outcome [OF assms(3) this, where decode = decode and ls = "main fs" and ok = ok and i = 0]
  obtain k where k: "outcome decode (nonblank (main fs)) k start_progress
      (replay_lines decode cancelled ok 0 (main fs) start_progress)" by blast
  have split: "length (filter (\<lambda>l. decode l \<noteq> None) xs) + length (filter (\<lambda>l. decode l = None) xs) = length xs" for xs
    using sum_length_filter_compl [of "\<lambda>l. decode l = None" xs] by simp
  show ?thesis
    using k assms split [of "take k (nonblank (main fs))"]
    by (auto simp: Replay_def rotate_def finish_def outcome_def Let_def start_progress_def scan_error_def
        intro!: exI [of _ k])
qed

lemma Replay_prefix_witness:
  "\<exists>k r e. let nb = nonblank [''a'', [], ''x'', ''b''] in
    Replay (\<lambda>l. if l = ''x'' then None else Some l) (\<lambda>_. False) (\<lambda>i. i < 2)
      \<lparr>rename_fails = False, open_fails = False, requeue_fails = False, remove_fails = False\<rparr> [''n'']
      \<lparr>main = [''a'', [], ''x'', ''b''], rotated = None\<rparr> =
      ((e, r), filter (\<lambda>l. (if l = ''x'' then None else Some l) \<noteq> None) (take k nb),
       \<lparr>main = [''n''] @ drop k nb, rotated = None\<rparr>) \<and>
    Replayed r + Skipped r + Requeued r = length nb \<and> (e = None \<or> k < length nb)"
  using Replay_prefix [of "\<lparr>main = [''a'', [], ''x'', ''b''], rotated = None\<rparr>" "\<lambda>_. False"
      "\<lparr>rename_fails = False, open_fails = False, requeue_fails = False, remove_fails = False\<rparr>"
      "\<lambda>l. if l = ''x'' then None else Some l" "\<lambda>i. i < 2" "[''n'']"]
  by (simp add: fits_def maxToken_def)


definition demo_sys :: Sys where
  "demo_sys = \<lparr>files = \<lparr>main = [], rotated = Some [''a'']\<rparr>, worker = Idle, given = [''a''], out = []\<rparr>"

lemma demo_reach: "buf_reach (\<lambda>l. Some l) demo_sys"
proof -
  let ?s1 = "start_sys\<lparr>files := \<lparr>main = [''a''], rotated = None\<rparr>, given := [''a'']\<rparr>"
  let ?s2 = "?s1\<lparr>files := \<lparr>main = [], rotated = Some [''a'']\<rparr>, worker := Draining (scanned [''a'']) start_progress\<rparr>"
  have "buf_step (\<lambda>l. Some l) start_sys ?s1"
    using buf_step.append [of "''a''" start_sys "\<lparr>main = [''a''], rotated = None\<rparr>" "\<lambda>l. Some l"]
    by (simp add: Append_def appendLines_def start_sys_def)
  then have 1: "buf_reach (\<lambda>l. Some l) ?s1" by (rule buf_next [OF buf_start])
  have "buf_step (\<lambda>l. Some l) ?s1 ?s2"
    by (rule buf_step.rotate [where f = "\<lparr>rename_fails = False, open_fails = False, requeue_fails = False, remove_fails = False\<rparr>"])
       (simp_all add: rotate_def start_sys_def)
  with 1 have 2: "buf_reach (\<lambda>l. Some l) ?s2" by (rule buf_next)
  have "buf_step (\<lambda>l. Some l) ?s2 (?s2\<lparr>worker := Idle\<rparr>)" by (rule buf_step.crash)
  with 2 have "buf_reach (\<lambda>l. Some l) (?s2\<lparr>worker := Idle\<rparr>)" by (rule buf_next)
  then show ?thesis by (simp add: demo_sys_def start_sys_def)
qed


text \<open>
  the limit of that promise. If a rotated line is too long for the scanner, the replay still removes the
  rotated file: the lines after it are neither published nor written back, and the only trace is the returned
  scan error.
\<close>

theorem long_line_loses_rest:
  assumes "\<not> fits l" and "list_all fits ls" and "rotated fs = Some (ls @ l # rest)"
    and "f = \<lparr>rename_fails = False, open_fails = False, requeue_fails = False, remove_fails = False\<rparr>"
  shows "\<exists>p r. Replay decode cancelled ok f meanwhile fs =
      ((Some ScanErr, r), sent p, \<lparr>main = main fs @ meanwhile @ requeue p, rotated = None\<rparr>) \<and>
    p = replay_lines decode cancelled ok 0 ls start_progress"
proof -
  have "scanned (ls @ l # rest) = ls"
    using assms(1,2) by (simp add: scanned_def takeWhile_append2 list_all_iff)
  moreover have "scan_error (ls @ l # rest)" using assms(1) by (simp add: scan_error_def)
  ultimately show ?thesis using assms(3,4) by (simp add: Replay_def rotate_def finish_def Let_def)
qed

lemma long_line_loses_rest_witness:
  "\<exists>p r. Replay Some (\<lambda>_. False) (\<lambda>_. True)
      \<lparr>rename_fails = False, open_fails = False, requeue_fails = False, remove_fails = False\<rparr> []
      \<lparr>main = [], rotated = Some ([''a''] @ replicate maxToken CHR ''x'' # [''b''])\<rparr> =
      ((Some ScanErr, r), sent p, \<lparr>main = [] @ [] @ requeue p, rotated = None\<rparr>) \<and>
    p = replay_lines Some (\<lambda>_. False) (\<lambda>_. True) 0 [''a''] start_progress"
  using long_line_loses_rest [of "replicate maxToken CHR ''x''" "[''a'']"
      "\<lparr>main = [], rotated = Some ([''a''] @ replicate maxToken CHR ''x'' # [''b''])\<rparr>" "[''b'']"
      "\<lparr>rename_fails = False, open_fails = False, requeue_fails = False, remove_fails = False\<rparr>"
      Some "\<lambda>_. False" "\<lambda>_. True" "[]"]
  by (simp add: fits_def maxToken_def)

end
