(* ===== verification/Bridge.thy ===== *)
theory Bridge
  imports Topics Buffer
begin

text \<open>
  The bridge from MQTT to JetStream, \<open>internal/bridge/bridge.go\<close>: every uplink becomes an
  envelope that is published asynchronously within a window of unacknowledged messages; a
  failed telemetry message is dropped and counted, any other goes to the disk buffer.

  JetStream's answers and the clock are arguments, and so are \<open>ExtractSeq\<close> and the JSON encoding of an
  envelope. \<open>acks\<close> is the channel of
  pending acknowledgements; each pending message holds one slot of the semaphore \<open>sem\<close>, and a
  message whose slot is not free yet is a \<open>Handle\<close> that has not happened (the callback blocks).
  \<open>accepted\<close> and \<open>acked\<close> record, for the statements, what was received well-formed and what JetStream acknowledged.
\<close>

record ('p, 's) BridgeSt =
  acks :: "'p Envelope list"
  sem :: nat
  closed :: bool
  BM :: metrics
  store :: 's
  accepted :: "'p Envelope list"
  acked :: "'p Envelope list"

definition new_bridge :: "'s \<Rightarrow> ('p, 's) BridgeSt" where
  "new_bridge s = \<lparr>acks = [], sem = 0, closed = False, BM = (\<lambda>_. 0), store = s, accepted = [], acked = []\<rparr>"

text \<open>\<open>buf\<close> is the buffer's append operation, \<open>None\<close> when no buffer is configured.\<close>

definition onFailure ::
  "(line \<Rightarrow> 's \<Rightarrow> 's option) option \<Rightarrow> ('p Envelope \<Rightarrow> line) \<Rightarrow> 'p Envelope \<Rightarrow>
   ('p, 's) BridgeSt \<Rightarrow> ('p, 's) BridgeSt" where
  "onFailure buf marshal env b =
     (let b1 = b\<lparr>BM := Inc ''publish_err'' (BM b)\<rparr> in
      if Kind env = KindTelemetry then b1\<lparr>BM := Inc ''dropped_telemetry'' (BM b1)\<rparr>
      else case buf of
        None \<Rightarrow> b1\<lparr>BM := Inc ''buffer_err'' (BM b1)\<rparr>
      | Some add \<Rightarrow>
          (case add (marshal env) (store b1) of
             None \<Rightarrow> b1\<lparr>BM := Inc ''buffer_err'' (BM b1)\<rparr>
           | Some s' \<Rightarrow> b1\<lparr>store := s', BM := Inc ''buffered'' (BM b1)\<rparr>))"

definition Handle ::
  "(line \<Rightarrow> 's \<Rightarrow> 's option) option \<Rightarrow> ('p Envelope \<Rightarrow> line) \<Rightarrow> ('p \<Rightarrow> int) \<Rightarrow> nat \<Rightarrow> int \<Rightarrow> bool \<Rightarrow>
   string \<Rightarrow> 'p \<Rightarrow> ('p, 's) BridgeSt \<Rightarrow> ('p, 's) BridgeSt option" where
  "Handle buf marshal extractSeq window now async_ok topic payload b =
     (let b1 = b\<lparr>BM := Inc ''received'' (BM b)\<rparr> in
      case ParseTopic topic of
        Inl _ \<Rightarrow> Some (b1\<lparr>BM := Inc ''bad_topic'' (BM b1)\<rparr>)
      | Inr tp \<Rightarrow>
          let env = \<lparr>PK = TPK tp, SN = TSN tp, Kind = TKind tp, Seq = extractSeq payload, RecvTs = now,
                     EPayload = payload\<rparr>;
              b2 = b1\<lparr>accepted := accepted b1 @ [env]\<rparr> in
          if closed b2 then Some (onFailure buf marshal env b2)
          else if window \<le> sem b2 then None
          else if \<not> async_ok then Some (onFailure buf marshal env b2)
          else Some (b2\<lparr>sem := sem b2 + 1, acks := acks b2 @ [env]\<rparr>))"

text \<open>One turn of \<open>ackLoop\<close>: the oldest pending message is acknowledged, or fails or times out.\<close>

definition ackTurn ::
  "(line \<Rightarrow> 's \<Rightarrow> 's option) option \<Rightarrow> ('p Envelope \<Rightarrow> line) \<Rightarrow> bool \<Rightarrow>
   ('p, 's) BridgeSt \<Rightarrow> ('p, 's) BridgeSt option" where
  "ackTurn buf marshal ok b =
     (case acks b of
        [] \<Rightarrow> None
      | env # rest \<Rightarrow>
          let b1 = b\<lparr>acks := rest\<rparr>;
              b2 = (if ok then b1\<lparr>BM := Inc ''published'' (BM b1), acked := acked b1 @ [env]\<rparr>
                    else onFailure buf marshal env b1);
              b3 = b2\<lparr>sem := sem b2 - 1\<rparr>
          in Some (b3\<lparr>BM := (BM b3)(''pending'' := int (sem b3))\<rparr>))"

definition Close :: "('p, 's) BridgeSt \<Rightarrow> ('p, 's) BridgeSt" where
  "Close b = b\<lparr>closed := True\<rparr>"

text \<open>\<open>Bridge.Replay\<close>, whose work on the buffer is a step \<open>s \<rightarrow> s'\<close> of the buffer.\<close>

definition replayed_by :: "int \<Rightarrow> int \<Rightarrow> 's \<Rightarrow> ('p, 's) BridgeSt \<Rightarrow> ('p, 's) BridgeSt" where
  "replayed_by n len s' b =
     b\<lparr>store := s', BM := (Add ''replayed'' n (BM b))(''buffer_len'' := len)\<rparr>"

inductive bridge_step ::
  "(line \<Rightarrow> 's \<Rightarrow> 's option) option \<Rightarrow> ('s \<Rightarrow> 's \<Rightarrow> bool) \<Rightarrow> ('p Envelope \<Rightarrow> line) \<Rightarrow> ('p \<Rightarrow> int) \<Rightarrow> nat \<Rightarrow>
   ('p, 's) BridgeSt \<Rightarrow> ('p, 's) BridgeSt \<Rightarrow> bool"
  for buf own marshal extractSeq window where
  handle: "Handle buf marshal extractSeq window now async_ok topic payload b = Some b' \<Longrightarrow>
     bridge_step buf own marshal extractSeq window b b'"
| ack: "ackTurn buf marshal ok b = Some b' \<Longrightarrow> bridge_step buf own marshal extractSeq window b b'"
| close: "bridge_step buf own marshal extractSeq window b (Close b)"
| replay: "own (store b) s' \<Longrightarrow> bridge_step buf own marshal extractSeq window b (replayed_by n len s' b)"

inductive bridge_reach ::
  "(line \<Rightarrow> 's \<Rightarrow> 's option) option \<Rightarrow> ('s \<Rightarrow> 's \<Rightarrow> bool) \<Rightarrow> ('p Envelope \<Rightarrow> line) \<Rightarrow> ('p \<Rightarrow> int) \<Rightarrow> nat \<Rightarrow>
   's \<Rightarrow> ('p, 's) BridgeSt \<Rightarrow> bool"
  for buf own marshal extractSeq window s0 where
  bridge_start: "bridge_reach buf own marshal extractSeq window s0 (new_bridge s0)"
| bridge_next: "bridge_reach buf own marshal extractSeq window s0 b \<Longrightarrow>
     bridge_step buf own marshal extractSeq window b b' \<Longrightarrow>
     bridge_reach buf own marshal extractSeq window s0 b'"

subsection \<open>Accounting\<close>

definition accounted :: "nat \<Rightarrow> ('p, 's) BridgeSt \<Rightarrow> bool" where
  "accounted window b \<longleftrightarrow>
     BM b ''received'' = BM b ''bad_topic'' + BM b ''published'' + BM b ''publish_err'' + int (length (acks b)) \<and>
     BM b ''publish_err'' = BM b ''dropped_telemetry'' + BM b ''buffered'' + BM b ''buffer_err'' \<and>
     sem b = length (acks b) \<and> sem b \<le> window"

lemma onFailure_frame [simp]:
  "acks (onFailure buf marshal e b) = acks b" "sem (onFailure buf marshal e b) = sem b"
  "closed (onFailure buf marshal e b) = closed b"
  "accepted (onFailure buf marshal e b) = accepted b" "acked (onFailure buf marshal e b) = acked b"
  by (simp_all add: onFailure_def Let_def split: option.splits)

lemma onFailure_counts:
  "BM (onFailure buf marshal e b) ''received'' = BM b ''received''"
  "BM (onFailure buf marshal e b) ''bad_topic'' = BM b ''bad_topic''"
  "BM (onFailure buf marshal e b) ''published'' = BM b ''published''"
  "BM (onFailure buf marshal e b) ''publish_err'' = BM b ''publish_err'' + 1"
  "BM (onFailure buf marshal e b) ''dropped_telemetry'' + BM (onFailure buf marshal e b) ''buffered''
     + BM (onFailure buf marshal e b) ''buffer_err''
   = BM b ''dropped_telemetry'' + BM b ''buffered'' + BM b ''buffer_err'' + 1"
  by (simp_all add: onFailure_def Let_def split: option.splits)

lemma accounted_new: "accounted window (new_bridge s)"
  by (simp add: accounted_def new_bridge_def)

lemma accounted_Handle:
  assumes "Handle buf marshal ex window now ok topic payload b = Some b'" "accounted window b"
  shows "accounted window b'"
proof (cases "ParseTopic topic")
  case (Inl e)
  then show ?thesis using assms by (auto simp: Handle_def accounted_def)
next
  case (Inr tp)
  let ?env = "\<lparr>PK = TPK tp, SN = TSN tp, Kind = TKind tp, Seq = ex payload, RecvTs = now, EPayload = payload\<rparr>"
  let ?b = "b\<lparr>BM := Inc ''received'' (BM b), accepted := accepted b @ [?env]\<rparr>"
  from assms(1) Inr consider "b' = onFailure buf marshal ?env ?b"
    | "b' = ?b\<lparr>sem := sem ?b + 1, acks := acks ?b @ [?env]\<rparr>" "sem b < window"
    by (auto simp: Handle_def Let_def split: if_splits)
  then show ?thesis
  proof cases
    case 1
    show ?thesis using assms(2) onFailure_counts [of buf marshal ?env ?b] unfolding 1
      by (simp add: accounted_def)
  next
    case 2
    then show ?thesis using assms(2) by (auto simp: accounted_def)
  qed
qed

lemma accounted_ackTurn:
  assumes "ackTurn buf marshal ok b = Some b'" "accounted window b"
  shows "accounted window b'"
proof -
  obtain env rest where a: "acks b = env # rest" using assms(1) by (auto simp: ackTurn_def split: list.splits)
  let ?b = "b\<lparr>acks := rest\<rparr>"
  show ?thesis
  proof (cases ok)
    case True
    then show ?thesis using assms a by (auto simp: ackTurn_def accounted_def Let_def)
  next
    case False
    then have b': "b' = (onFailure buf marshal env ?b)\<lparr>sem := sem b - 1,
        BM := (BM (onFailure buf marshal env ?b))(''pending'' := int (sem b - 1))\<rparr>"
      using assms(1) a by (simp add: ackTurn_def Let_def)
    show ?thesis using assms(2) a onFailure_counts [of buf marshal env ?b] unfolding b'
      by (simp add: accounted_def)
  qed
qed

lemma accounted_step:
  "bridge_step buf own marshal ex window b b' \<Longrightarrow> accounted window b \<Longrightarrow> accounted window b'"
proof (induction rule: bridge_step.induct)
  case (handle now async_ok topic payload b b')
  then show ?case by (rule accounted_Handle)
next
  case (ack ok b b')
  then show ?case by (rule accounted_ackTurn)
qed (auto simp: accounted_def Close_def replayed_by_def)

lemma accounted_reach: "bridge_reach buf own marshal ex window s0 b \<Longrightarrow> accounted window b"
  by (induction rule: bridge_reach.induct) (auto intro: accounted_new accounted_step)

subsection \<open>What the bridge needs of a buffer\<close>

text \<open>Nothing but telemetry is lost, unless the buffer itself refused a message.\<close>

definition no_loss ::
  "('s \<Rightarrow> bool) \<Rightarrow> ('s \<Rightarrow> line \<Rightarrow> bool) \<Rightarrow> ('p Envelope \<Rightarrow> line) \<Rightarrow> ('p, 's) BridgeSt \<Rightarrow> bool" where
  "no_loss good safe marshal b \<longleftrightarrow> good (store b) \<and> 0 \<le> BM b ''buffer_err'' \<and>
     (BM b ''buffer_err'' = 0 \<longrightarrow>
       (\<forall>e\<in>set (accepted b). Kind e = KindTelemetry \<or> e \<in> set (acks b) \<or> e \<in> set (acked b) \<or>
          safe (store b) (marshal e)))"

text \<open>
  The contract of a store for messages that could not be published: an appended message is
  safe, and stays so through later appends and through the store's own steps.
\<close>

locale message_store =
  fixes good :: "'s \<Rightarrow> bool"
    and add :: "line \<Rightarrow> 's \<Rightarrow> 's option"
    and own :: "'s \<Rightarrow> 's \<Rightarrow> bool"
    and safe :: "'s \<Rightarrow> line \<Rightarrow> bool"
  assumes add_inv: "good s \<Longrightarrow> add l s = Some s' \<Longrightarrow> good s'"
    and add_safe: "good s \<Longrightarrow> add l s = Some s' \<Longrightarrow> safe s' l"
    and add_keeps: "good s \<Longrightarrow> add l s = Some s' \<Longrightarrow> safe s k \<Longrightarrow> safe s' k"
    and own_inv: "good s \<Longrightarrow> own s s' \<Longrightarrow> good s'"
    and own_keeps: "good s \<Longrightarrow> own s s' \<Longrightarrow> safe s k \<Longrightarrow> safe s' k"
begin

lemma no_loss_onFailure:
  assumes "good (store b)" "0 \<le> BM b ''buffer_err''"
    and "BM b ''buffer_err'' = 0 \<longrightarrow>
       (\<forall>e\<in>set (accepted b). e = env \<or> Kind e = KindTelemetry \<or> e \<in> set (acks b) \<or> e \<in> set (acked b) \<or>
          safe (store b) (marshal e))"
  shows "no_loss good safe marshal (onFailure (Some add) marshal env b)"
proof (cases "Kind env = KindTelemetry \<or> add (marshal env) (store b) = None")
  case True
  then show ?thesis using assms by (auto simp: no_loss_def onFailure_def Let_def)
next
  case False
  then obtain s' where s': "add (marshal env) (store b) = Some s'" by blast
  with assms(1) have "good s'" "safe s' (marshal env)" "\<And>k. safe (store b) k \<Longrightarrow> safe s' k"
    by (auto intro: add_inv add_safe add_keeps)
  with False s' assms show ?thesis by (auto simp: no_loss_def onFailure_def Let_def)
qed

lemma no_loss_step:
  "bridge_step (Some add) own marshal ex window b b' \<Longrightarrow> no_loss good safe marshal b \<Longrightarrow> no_loss good safe marshal b'"
proof (induction rule: bridge_step.induct)
  case (handle now async_ok topic payload b b')
  show ?case
  proof (cases "ParseTopic topic")
    case (Inl e)
    then show ?thesis using handle by (auto simp: Handle_def no_loss_def)
  next
    case (Inr tp)
    let ?env = "\<lparr>PK = TPK tp, SN = TSN tp, Kind = TKind tp, Seq = ex payload, RecvTs = now, EPayload = payload\<rparr>"
    let ?b = "b\<lparr>BM := Inc ''received'' (BM b), accepted := accepted b @ [?env]\<rparr>"
    from handle(1) Inr consider "b' = onFailure (Some add) marshal ?env ?b"
      | "b' = ?b\<lparr>sem := sem ?b + 1, acks := acks ?b @ [?env]\<rparr>"
      by (auto simp: Handle_def Let_def split: if_splits)
    then show ?thesis
    proof cases
      case 1
      show ?thesis unfolding 1
        by (rule no_loss_onFailure) (use handle(2) in \<open>auto simp: no_loss_def\<close>)
    next
      case 2
      then show ?thesis using handle(2) by (auto simp: no_loss_def)
    qed
  qed
next
  case (ack ok b b')
  then obtain env rest where a: "acks b = env # rest" by (auto simp: ackTurn_def split: list.splits)
  show ?case
  proof (cases ok)
    case True
    then show ?thesis using ack a by (auto simp: ackTurn_def no_loss_def Let_def)
  next
    case False
    have "no_loss good safe marshal (onFailure (Some add) marshal env (b\<lparr>acks := rest\<rparr>))"
      by (rule no_loss_onFailure) (use ack(2) a in \<open>auto simp: no_loss_def\<close>)
    then show ?thesis using ack(1) a False by (auto simp: ackTurn_def no_loss_def Let_def)
  qed
next
  case (replay b s' n len)
  then show ?case by (auto simp: no_loss_def replayed_by_def intro: own_inv own_keeps)
qed (auto simp: no_loss_def Close_def)

lemma no_loss_reach:
  "bridge_reach (Some add) own marshal ex window s0 b \<Longrightarrow> good s0 \<Longrightarrow> no_loss good safe marshal b"
proof (induction rule: bridge_reach.induct)
  case bridge_start
  then show ?case by (simp add: no_loss_def new_bridge_def)
next
  case (bridge_next b b')
  then show ?case using no_loss_step by blast
qed

end

text \<open>The disk buffer keeps the contract: its runs are the reachable states of \<open>Buffer\<close>.\<close>

definition disk_add :: "line \<Rightarrow> Sys \<Rightarrow> Sys option" where
  "disk_add l s = map_option (\<lambda>fs. s\<lparr>files := fs, given := given s @ [l]\<rparr>) (Append True l (files s))"

lemma disk_add_step: "disk_add l s = Some s' \<Longrightarrow> buf_step decode s s'"
  by (auto simp: disk_add_def intro: buf_step.append)

lemma disk_add_given: "disk_add l s = Some s' \<Longrightarrow> l \<in> set (given s')"
  by (auto simp: disk_add_def)

interpretation disk: message_store "buf_reach decode" disk_add "buf_step decode" "\<lambda>s l. l \<in> set (given s)"
  for decode :: "line \<Rightarrow> 'e option"
proof unfold_locales
  fix s s' :: Sys and l k :: line
  assume r: "buf_reach decode s"
  show "buf_reach decode s'" "l \<in> set (given s')" if "disk_add l s = Some s'"
    using that r by (auto intro: buf_next disk_add_step disk_add_given)
  show "k \<in> set (given s')" if "disk_add l s = Some s'" "k \<in> set (given s)"
    using given_grows [OF disk_add_step [OF that(1)]] that(2) by blast
  show "buf_reach decode s'" if "buf_step decode s s'" using r that by (rule buf_next)
  show "k \<in> set (given s')" if "buf_step decode s s'" "k \<in> set (given s)"
    using given_grows [OF that(1)] that(2) by blast
qed

text \<open>A run in which an event could not be published and was buffered.\<close>

lemma demo_bridge:
  "\<exists>(b :: (unit, Sys) BridgeSt) e. bridge_reach (Some disk_add) (buf_step (\<lambda>l. Some l)) (\<lambda>e. ''m'') (\<lambda>u. 0) 4 start_sys b \<and>
     BM b ''buffer_err'' = 0 \<and> BM b ''received'' = 1 \<and> all_fit (store b) \<and>
     e \<in> set (accepted b) \<and> Kind e = KindEvent \<and> acks b = [] \<and> acked b = []"
proof -
  have p: "ParseTopic ''up/p/s/event'' = Inr \<lparr>TPK = ''p'', TSN = ''s'', TKind = ''event''\<rparr>"
    using ParseTopic_TopicUp [of "''p''" "''s''" "''event''"]
    by (simp add: segment_def knownKinds_def TopicUp_def)
  let ?h = "Handle (Some disk_add) (\<lambda>e. ''m'') (\<lambda>u. 0) 4 0 False ''up/p/s/event'' () (new_bridge start_sys)"
  obtain b where b: "?h = Some b" "BM b ''buffer_err'' = 0" "BM b ''received'' = 1" "all_fit (store b)"
      "accepted b \<noteq> []" "Kind (hd (accepted b)) = KindEvent" "acks b = []" "acked b = []"
    by (simp add: Handle_def p new_bridge_def onFailure_def disk_add_def Append_def appendLines_def
        start_sys_def all_fit_def fits_def maxToken_def Let_def)
  have "bridge_reach (Some disk_add) (buf_step (\<lambda>l. Some l)) (\<lambda>e. ''m'') (\<lambda>u. 0) 4 start_sys b"
    by (rule bridge_next [OF bridge_start]) (rule bridge_step.handle, rule b(1))
  moreover have "hd (accepted b) \<in> set (accepted b)" using b(5) by simp
  ultimately show ?thesis using b by blast
qed

subsection \<open>Properties\<close>

text \<open>the bridge's counters account for every message, in every reachable state: what was received is
  malformed, published, failed or pending; what failed was dropped as telemetry, buffered, or
  refused by the buffer; and the pending messages are within the window.\<close>

theorem bridge_accounts:
  assumes "bridge_reach buf own marshal ex window s0 b"
  shows "BM b ''received'' = BM b ''bad_topic'' + BM b ''published'' + BM b ''publish_err'' + int (length (acks b)) \<and>
     BM b ''publish_err'' = BM b ''dropped_telemetry'' + BM b ''buffered'' + BM b ''buffer_err'' \<and>
     length (acks b) \<le> window"
  using accounted_reach [OF assms] by (simp add: accounted_def)

lemma bridge_accounts_witness:
  "\<exists>b :: (unit, Sys) BridgeSt. BM b ''received'' = 1 \<and>
     BM b ''received'' = BM b ''bad_topic'' + BM b ''published'' + BM b ''publish_err'' + int (length (acks b)) \<and>
     BM b ''publish_err'' = BM b ''dropped_telemetry'' + BM b ''buffered'' + BM b ''buffer_err'' \<and>
     length (acks b) \<le> 4"
proof -
  from demo_bridge obtain b :: "(unit, Sys) BridgeSt" where
    b: "bridge_reach (Some disk_add) (buf_step (\<lambda>l. Some l)) (\<lambda>e. ''m'') (\<lambda>u. 0) 4 start_sys b"
      "BM b ''received'' = 1" by blast
  show ?thesis using bridge_accounts [OF b(1)] b(2) by (intro exI [of _ b]) simp
qed



end
