(* ===== verification/Lock.thy ===== *)
theory Lock
  imports Topics
begin

text \<open>
  Single-instance election, \<open>internal/pkg/pglock/pglock.go\<close>: each replica has a \<open>Guard\<close> that holds a
  session-level PostgreSQL advisory lock through a connection it keeps out of the pool.

  The state is the world the replicas share: the connections and where they are, which of
  their server sessions are alive, the session that holds the lock and how many times (an
  advisory lock is reentrant within its session), and the connection of each guard. The
  answers of the server are arguments. What is relied on of PostgreSQL and pgx: a session that ends releases its
  lock, closing a connection ends its session (possibly later), and a lock query that
  reports an error has either not taken the lock or broken its connection.
\<close>

type_synonym conn = nat

datatype place = InPool | OutWith nat | Closing

record World =
  place :: "conn \<Rightarrow> place"
  alive :: "conn \<Rightarrow> bool"
  holder :: "(conn \<times> nat) option"
  guard :: "nat \<Rightarrow> conn option"

definition start_world :: World where
  "start_world = \<lparr>place = (\<lambda>_. InPool), alive = (\<lambda>_. True), holder = None, guard = (\<lambda>_. None)\<rparr>"

definition Held :: "nat \<Rightarrow> World \<Rightarrow> bool" where
  "Held i w \<longleftrightarrow> guard w i \<noteq> None"

text \<open>Closing a connection and giving it back: the pool discards it, the session ends later.\<close>

definition close_conn :: "nat \<Rightarrow> conn \<Rightarrow> World \<Rightarrow> World" where
  "close_conn i c w = w\<lparr>place := (place w)(c := Closing), guard := (guard w)(i := None)\<rparr>"

subsection \<open>Ensure\<close>

datatype ping = PingOk | PingCtxDone | PingFailed

datatype lock_error = CtxDone | AcquireFailed | LockQueryFailed

text \<open>
  The first part: the health check of a connection already held. \<open>Some\<close> is a return of
  \<open>Ensure\<close> (held or not, and the error), \<open>None\<close> goes on to take the lock.
\<close>

definition ensure_check ::
  "nat \<Rightarrow> bool \<Rightarrow> ping \<Rightarrow> World \<Rightarrow> (bool \<times> lock_error option) option \<times> World" where
  "ensure_check i ctx_done p w =
     (if ctx_done then (Some (guard w i \<noteq> None, Some CtxDone), w)
      else case guard w i of
        None \<Rightarrow> (None, w)
      | Some c \<Rightarrow>
          (case p of
             PingOk \<Rightarrow> (Some (True, None), w)
           | PingCtxDone \<Rightarrow> (Some (True, Some CtxDone), w)
           | PingFailed \<Rightarrow> (None, close_conn i c w)))"

text \<open>\<open>pg_try_advisory_lock\<close> on connection \<open>c\<close>.\<close>

definition try_advisory_lock :: "conn \<Rightarrow> World \<Rightarrow> bool \<times> World" where
  "try_advisory_lock c w =
     (case holder w of
        None \<Rightarrow> (True, w\<lparr>holder := Some (c, 1)\<rparr>)
      | Some (d, n) \<Rightarrow> if d = c then (True, w\<lparr>holder := Some (c, n + 1)\<rparr>) else (False, w))"

datatype answer = Refused | Broken | Answered

text \<open>
  The second part. \<open>c\<close> is the connection the pool hands out (\<open>None\<close>: it cannot); the
  query is refused without effect, breaks the connection (whether or not the server
  had run it, the session will end) or is answered.
\<close>

definition ensure_take :: "nat \<Rightarrow> conn option \<Rightarrow> answer \<Rightarrow> World \<Rightarrow> (bool \<times> lock_error option) \<times> World" where
  "ensure_take i pooled a w =
     (case pooled of
        None \<Rightarrow> ((False, Some AcquireFailed), w)
      | Some c \<Rightarrow>
          (case a of
             Refused \<Rightarrow> ((False, Some LockQueryFailed), w)
           | Broken \<Rightarrow>
               ((False, Some LockQueryFailed),
                (snd (try_advisory_lock c w))\<lparr>place := (place w)(c := Closing)\<rparr>)
           | Answered \<Rightarrow>
               (let (ok, w1) = try_advisory_lock c w in
                if \<not> ok then ((False, None), w1)
                else ((True, None),
                      w1\<lparr>place := (place w1)(c := OutWith i), guard := (guard w1)(i := Some c)\<rparr>))))"

definition Ensure ::
  "nat \<Rightarrow> bool \<Rightarrow> ping \<Rightarrow> conn option \<Rightarrow> answer \<Rightarrow> World \<Rightarrow> (bool \<times> lock_error option) \<times> World" where
  "Ensure i ctx_done p pooled a w =
     (case ensure_check i ctx_done p w of
        (Some r, w1) \<Rightarrow> (r, w1)
      | (None, w1) \<Rightarrow> ensure_take i pooled a w1)"

subsection \<open>Release\<close>

definition advisory_unlock :: "conn \<Rightarrow> World \<Rightarrow> World" where
  "advisory_unlock c w =
     (case holder w of
        Some (d, n) \<Rightarrow> if d = c then w\<lparr>holder := (if n \<le> 1 then None else Some (c, n - 1))\<rparr> else w
      | None \<Rightarrow> w)"

definition Release :: "nat \<Rightarrow> bool \<Rightarrow> bool \<Rightarrow> World \<Rightarrow> World" where
  "Release i ctx_done unlock_ok w =
     (case guard w i of
        None \<Rightarrow> w
      | Some c \<Rightarrow>
          if ctx_done then close_conn i c w
          else if \<not> unlock_ok then close_conn i c w
          else let w1 = advisory_unlock c w in
            w1\<lparr>place := (place w1)(c := InPool), guard := (guard w1)(i := None)\<rparr>)"

subsection \<open>The shared world in motion\<close>

text \<open>
  Steps of any replica and of the environment, in any order: another replica may act
  between the two parts of an \<open>Ensure\<close>. A ping and an unlock succeed only on a live session; only a live connection
  of the pool answers a query.
\<close>

inductive world_step :: "World \<Rightarrow> World \<Rightarrow> bool" where
  check: "ensure_check i ctx_done p w = (r, w') \<Longrightarrow> world_step w w'"
| take: "guard w i = None \<Longrightarrow> (\<forall>c. pooled = Some c \<longrightarrow> place w c = InPool \<and> alive w c) \<Longrightarrow>
     ensure_take i pooled a w = (r, w') \<Longrightarrow> world_step w w'"
| release: "(\<forall>c. guard w i = Some c \<longrightarrow> unlock_ok \<longrightarrow> alive w c) \<Longrightarrow>
     Release i ctx_done unlock_ok w = w' \<Longrightarrow> world_step w w'"
| session_ends: "world_step w (w\<lparr>alive := (alive w)(c := False),
     holder := (case holder w of Some (d, n) \<Rightarrow> if d = c then None else Some (d, n) | None \<Rightarrow> None)\<rparr>)"

inductive world_reach :: "World \<Rightarrow> bool" where
  world_start: "world_reach start_world"
| world_next: "world_reach w \<Longrightarrow> world_step w w' \<Longrightarrow> world_reach w'"

text \<open>
  The invariant: a guard's connection is out of the pool and its own, a live connection of a guard holds the
  lock exactly once, and the lock is held, if at all, by the live session of a connection that is not in the pool.
\<close>

definition world_inv :: "World \<Rightarrow> bool" where
  "world_inv w \<longleftrightarrow>
     (\<forall>i c. guard w i = Some c \<longrightarrow> place w c = OutWith i) \<and>
     (\<forall>i c. guard w i = Some c \<longrightarrow> alive w c \<longrightarrow> holder w = Some (c, 1)) \<and>
     (\<forall>c n. holder w = Some (c, n) \<longrightarrow> n = 1 \<and> alive w c \<and> place w c \<noteq> InPool)"

lemma world_invI:
  assumes "\<And>i c. guard w i = Some c \<Longrightarrow> place w c = OutWith i"
    and "\<And>i c. guard w i = Some c \<Longrightarrow> alive w c \<Longrightarrow> holder w = Some (c, 1)"
    and "\<And>c n. holder w = Some (c, n) \<Longrightarrow> n = 1 \<and> alive w c \<and> place w c \<noteq> InPool"
  shows "world_inv w"
  unfolding world_inv_def using assms by blast

lemma inv_place: "world_inv w \<Longrightarrow> guard w i = Some c \<Longrightarrow> place w c = OutWith i"
  unfolding world_inv_def by blast

lemma inv_holds: "world_inv w \<Longrightarrow> guard w i = Some c \<Longrightarrow> alive w c \<Longrightarrow> holder w = Some (c, 1)"
  unfolding world_inv_def by blast

lemma inv_holder:
  "world_inv w \<Longrightarrow> holder w = Some (c, n) \<Longrightarrow> n = 1 \<and> alive w c \<and> place w c \<noteq> InPool"
  unfolding world_inv_def by blast

lemma start_inv: "world_inv start_world"
  by (simp add: world_inv_def start_world_def)

lemma guard_unique: "world_inv w \<Longrightarrow> guard w i = Some c \<Longrightarrow> guard w j = Some c \<Longrightarrow> i = j"
  using inv_place [of w i c] inv_place [of w j c] by simp

lemma close_conn_inv:
  assumes "world_inv w" "guard w i = Some c"
  shows "world_inv (close_conn i c w)"
proof (rule world_invI)
  fix j d assume "guard (close_conn i c w) j = Some d"
  then have j: "j \<noteq> i" "guard w j = Some d" by (auto simp: close_conn_def split: if_splits)
  then have "d \<noteq> c" using guard_unique [OF assms] by blast
  then show "place (close_conn i c w) d = OutWith j"
    using inv_place [OF assms(1) j(2)] by (simp add: close_conn_def)
  assume "alive (close_conn i c w) d"
  then show "holder (close_conn i c w) = Some (d, 1)"
    using inv_holds [OF assms(1) j(2)] by (simp add: close_conn_def)
next
  fix d n assume "holder (close_conn i c w) = Some (d, n)"
  then show "n = 1 \<and> alive (close_conn i c w) d \<and> place (close_conn i c w) d \<noteq> InPool"
    using inv_holder [OF assms(1)] by (simp add: close_conn_def)
qed

lemma ensure_check_inv: "ensure_check i cd p w = (r, w') \<Longrightarrow> world_inv w \<Longrightarrow> world_inv w'"
  by (auto simp: ensure_check_def close_conn_inv split: if_splits option.splits ping.splits)

text \<open>What a lock query on a pooled connection can do: nothing, or take a free lock once.\<close>

lemma try_lock_pooled:
  assumes "world_inv w" "place w c = InPool" "try_advisory_lock c w = (ok, w1)"
  shows "(if ok then holder w = None \<and> w1 = w\<lparr>holder := Some (c, 1)\<rparr> else w1 = w)"
  using assms inv_holder [OF assms(1)]
  by (auto simp: try_advisory_lock_def split: option.splits if_splits)

lemma taken_inv:
  assumes "world_inv w" "holder w = None" "place w c = InPool" "alive w c"
    and "q = Closing \<and> g = guard w \<or> q = OutWith i \<and> g = (guard w)(i := Some c)"
    and "guard w i = None"
  shows "world_inv (w\<lparr>holder := Some (c, 1), place := (place w)(c := q), guard := g\<rparr>)"
proof (rule world_invI)
  fix j d assume g: "guard (w\<lparr>holder := Some (c, 1), place := (place w)(c := q), guard := g\<rparr>) j = Some d"
  have "guard w k \<noteq> Some c" for k using inv_place [OF assms(1)] assms(3) by force
  with g assms(5) have "d = c \<and> j = i \<and> q = OutWith i \<or> guard w j = Some d \<and> d \<noteq> c"
    by (auto split: if_splits)
  then show "place (w\<lparr>holder := Some (c, 1), place := (place w)(c := q), guard := g\<rparr>) d = OutWith j"
    using inv_place [OF assms(1)] by auto
  assume "alive (w\<lparr>holder := Some (c, 1), place := (place w)(c := q), guard := g\<rparr>) d"
  with \<open>d = c \<and> _ \<or> _\<close> have "d = c" using inv_holds [OF assms(1)] assms(2) by force
  then show "holder (w\<lparr>holder := Some (c, 1), place := (place w)(c := q), guard := g\<rparr>) = Some (d, 1)"
    by simp
qed (use assms(4,5) in auto)

lemma closing_inv:
  assumes "world_inv w" "place w c = InPool"
  shows "world_inv (w\<lparr>place := (place w)(c := Closing)\<rparr>)"
proof (rule world_invI)
  fix j d assume g: "guard (w\<lparr>place := (place w)(c := Closing)\<rparr>) j = Some d"
  then have "place w d = OutWith j" using inv_place [OF assms(1)] by simp
  then show "place (w\<lparr>place := (place w)(c := Closing)\<rparr>) d = OutWith j" using assms(2) by auto
  assume "alive (w\<lparr>place := (place w)(c := Closing)\<rparr>) d"
  then show "holder (w\<lparr>place := (place w)(c := Closing)\<rparr>) = Some (d, 1)"
    using g inv_holds [OF assms(1)] by simp
qed (use inv_holder [OF assms(1)] in auto)

lemma ensure_take_inv:
  assumes "ensure_take i pooled a w = (r, w')" "guard w i = None"
    and "\<forall>c. pooled = Some c \<longrightarrow> place w c = InPool \<and> alive w c" "world_inv w"
  shows "world_inv w'"
proof (cases pooled)
  case None
  then show ?thesis using assms by (simp add: ensure_take_def)
next
  case (Some c)
  then have c: "place w c = InPool" "alive w c" using assms(3) by auto
  obtain ok w1 where t: "try_advisory_lock c w = (ok, w1)" by fastforce
  note tl = try_lock_pooled [OF assms(4) c(1) t]
  show ?thesis
  proof (cases ok)
    case True
    with tl have w1: "holder w = None" "w1 = w\<lparr>holder := Some (c, 1)\<rparr>" by auto
    show ?thesis
      using assms(1,4) Some t w1 True taken_inv [OF assms(4) w1(1) c _ assms(2), of Closing "guard w"]
        taken_inv [OF assms(4) w1(1) c _ assms(2), of "OutWith i" "(guard w)(i := Some c)"]
      by (auto simp: ensure_take_def split: answer.splits)
  next
    case False
    with tl have "w1 = w" by simp
    then show ?thesis using assms(1,4) Some t False closing_inv [OF assms(4) c(1)]
      by (auto simp: ensure_take_def split: answer.splits)
  qed
qed

lemma Release_inv:
  assumes "\<forall>c. guard w i = Some c \<longrightarrow> ok \<longrightarrow> alive w c" "world_inv w"
  shows "world_inv (Release i cd ok w)"
proof (cases "guard w i")
  case None
  then show ?thesis using assms by (simp add: Release_def)
next
  case (Some c)
  show ?thesis
  proof (cases "cd \<or> \<not> ok")
    case True
    then show ?thesis using close_conn_inv [OF assms(2) Some] Some by (auto simp: Release_def)
  next
    case False
    with assms Some have h: "holder w = Some (c, 1)" by (simp add: inv_holds)
    let ?w = "w\<lparr>holder := None, place := (place w)(c := InPool), guard := (guard w)(i := None)\<rparr>"
    have "guard w j = Some d \<Longrightarrow> j \<noteq> i \<Longrightarrow> d \<noteq> c \<and> \<not> alive w d" for j d
      using guard_unique [OF assms(2) Some] inv_holds [OF assms(2)] h by fastforce
    then have "world_inv ?w"
      using inv_place [OF assms(2)] by (intro world_invI) (auto split: if_splits)
    then show ?thesis using False Some h by (simp add: Release_def advisory_unlock_def Let_def)
  qed
qed

lemma session_end_inv:
  assumes "world_inv w"
  shows "world_inv (w\<lparr>alive := (alive w)(c := False),
     holder := (case holder w of Some (d, n) \<Rightarrow> if d = c then None else Some (d, n) | None \<Rightarrow> None)\<rparr>)"
  using inv_place [OF assms] inv_holds [OF assms] inv_holder [OF assms]
  by (intro world_invI) (auto split: option.splits if_splits)

lemma world_inv_step: "world_step w w' \<Longrightarrow> world_inv w \<Longrightarrow> world_inv w'"
proof (induction rule: world_step.induct)
  case (check i ctx_done p w r w')
  then show ?case by (rule ensure_check_inv)
next
  case (take w i pooled a r w')
  then show ?case using ensure_take_inv by blast
next
  case (release w i unlock_ok ctx_done w')
  then show ?case using Release_inv by blast
next
  case (session_ends w c)
  then show ?case by (rule session_end_inv)
qed

lemma world_inv_reach: "world_reach w \<Longrightarrow> world_inv w"
  by (induction rule: world_reach.induct) (auto intro: start_inv world_inv_step)

text \<open>
  A run with two replicas: replica 1 takes the lock on connection 7, its session dies, and
  replica 2 takes the lock on connection 8 before replica 1 looks again.
\<close>

definition taken_by_1 :: World where
  "taken_by_1 = snd (ensure_take 1 (Some 7) Answered start_world)"

definition session_lost :: World where
  "session_lost = taken_by_1\<lparr>alive := (alive taken_by_1)(7 := False),
     holder := (case holder taken_by_1 of
       Some (d, n) \<Rightarrow> if d = 7 then None else Some (d, n) | None \<Rightarrow> None)\<rparr>"

definition taken_by_2 :: World where
  "taken_by_2 = snd (ensure_take 2 (Some 8) Answered session_lost)"

lemma demo_worlds:
  "guard taken_by_1 1 = Some 7" "alive taken_by_1 7" "holder taken_by_1 = Some (7, 1)"
  "guard taken_by_2 1 = Some 7" "guard taken_by_2 2 = Some 8" "\<not> alive taken_by_2 7" "alive taken_by_2 8"
  "holder taken_by_2 = Some (8, 1)"
  by (simp_all add: taken_by_1_def taken_by_2_def session_lost_def start_world_def ensure_take_def
      try_advisory_lock_def)

lemma taken_by_1_reach: "world_reach taken_by_1"
proof (rule world_next [OF world_start])
  have "ensure_take 1 (Some 7) Answered start_world
      = (fst (ensure_take 1 (Some 7) Answered start_world), taken_by_1)"
    by (simp add: taken_by_1_def)
  then show "world_step start_world taken_by_1"
    by (rule take [rotated 2]) (simp_all add: start_world_def)
qed

lemma taken_by_2_reach: "world_reach taken_by_2"
proof (rule world_next)
  show "world_reach session_lost"
    unfolding session_lost_def using taken_by_1_reach session_ends by (rule world_next)
  have "ensure_take 2 (Some 8) Answered session_lost
      = (fst (ensure_take 2 (Some 8) Answered session_lost), taken_by_2)"
    by (simp add: taken_by_2_def)
  then show "world_step session_lost taken_by_2"
    by (rule take [rotated 2])
      (simp_all add: session_lost_def taken_by_1_def start_world_def ensure_take_def try_advisory_lock_def)
qed

text \<open>
  C40: mutual exclusion. Whatever the replicas, the pool and the server do, in any
  interleaving, two guards whose connections are both alive are the same guard, and that
  guard's session is the one the server has the lock on.
\<close>

theorem lock_mutual_exclusion:
  assumes "world_reach w" "guard w i = Some c" "alive w c" "guard w j = Some d" "alive w d"
  shows "i = j \<and> c = d \<and> holder w = Some (c, 1)"
proof -
  have inv: "world_inv w" using assms(1) by (rule world_inv_reach)
  have "holder w = Some (c, 1)" "holder w = Some (d, 1)"
    using inv_holds [OF inv assms(2,3)] inv_holds [OF inv assms(4,5)] by auto
  then show ?thesis using guard_unique [OF inv assms(2)] assms(4) by simp
qed

theorem lock_mutual_exclusion_witness:
  "guard taken_by_1 1 = Some 7 \<and> holder taken_by_1 = Some (7, 1)"
  using lock_mutual_exclusion [OF taken_by_1_reach demo_worlds(1,2,1,2)] demo_worlds(1) by blast

text \<open>
  no lock leaks into the pool. A connection that goes back to the pool carries no lock,
  so no later borrower can hold it by accident, and the lock is never held more than once
  by its session, so one unlock always frees it.
\<close>

theorem pool_carries_no_lock:
  assumes "world_reach w" "place w c = InPool"
  shows "\<forall>d n. holder w = Some (d, n) \<longrightarrow> d \<noteq> c \<and> n = 1 \<and> alive w d"
  using inv_holder [OF world_inv_reach [OF assms(1)]] assms(2) by blast

theorem pool_carries_no_lock_witness: "holder taken_by_1 = Some (7, 1) \<and> (7::conn) \<noteq> 8"
proof -
  have "place taken_by_1 8 = InPool"
    by (simp add: taken_by_1_def start_world_def ensure_take_def try_advisory_lock_def)
  from pool_carries_no_lock [OF taken_by_1_reach this] show ?thesis using demo_worlds(3) by blast
qed

text \<open>
  what the guard does not promise. \<open>Held\<close> is what a replica last saw: there is a reachable world
  in which two replicas both report the lock as theirs, because the session of the
  first one ended after its last \<open>Ensure\<close>. In every such world at most one of their sessions is alive.
\<close>

theorem two_replicas_can_report_held:
  "\<exists>w i j. world_reach w \<and> i \<noteq> j \<and> Held i w \<and> Held j w"
proof -
  have "Held 1 taken_by_2" "Held 2 taken_by_2" "(1::nat) \<noteq> 2" using demo_worlds by (auto simp: Held_def)
  then show ?thesis using taken_by_2_reach by blast
qed

end
