(* ===== verification/Schedule.thy ===== *)
theory Schedule
  imports GoStrings
begin

text \<open>
  Weekly schedules and the lock decision, \<open>internal/pkg/schedule/schedule.go\<close>: the pure functions the cloud
  (\<open>internal/fleet\<close>) and the device (\<open>internal/simulator\<close>) share.

  An instant is an \<open>int\<close> of Unix seconds (minutes are all the code looks at). A
  \<open>*time.Location\<close> is the function from an instant to the offset in force, in seconds, and the zone
  database behind \<open>time.LoadLocation\<close> is the parameter \<open>tzdb\<close> of the
  definitions. Go's calendar arithmetic (\<open>In\<close>, \<open>Hour\<close>, \<open>Weekday\<close>, \<open>AddDate\<close>, \<open>Format\<close>) is written out over them.
\<close>

type_synonym zone = "int \<Rightarrow> int"
type_synonym tzdb = "string \<Rightarrow> zone option"

definition UTC :: zone where "UTC = (\<lambda>_. 0)"

subsection \<open>Calendar arithmetic\<close>

definition wall :: "zone \<Rightarrow> int \<Rightarrow> int" where "wall z t = t + z t"

definition day_of :: "int \<Rightarrow> int" where "day_of w = w div 86400"

definition minute_of_day :: "int \<Rightarrow> int" where "minute_of_day w = w div 60 mod 1440"

text \<open>\<open>Weekday\<close>: 0 is Sunday; day 0 of the Unix epoch was a Thursday.\<close>

definition weekday :: "int \<Rightarrow> int" where "weekday d = (d + 4) mod 7"

text \<open>
  \<open>time.Date\<close> for a wall clock reading: the offset is looked up as if the reading were
  UTC and, once corrected by it, looked up again.
\<close>

definition go_date :: "zone \<Rightarrow> int \<Rightarrow> int" where
  "go_date z w = (if z w \<noteq> 0 then w - z (w - z w) else w)"

text \<open>\<open>t.AddDate(0, 0, -1)\<close>: the same clock reading on the day before.\<close>

definition day_before :: "zone \<Rightarrow> int \<Rightarrow> int" where
  "day_before z t = go_date z (wall z t - 86400)"

definition two_digits :: "int \<Rightarrow> string" where
  "two_digits n = [char_of (48 + nat n div 10), char_of (48 + nat n mod 10)]"

definition four_digits :: "int \<Rightarrow> string" where
  "four_digits n = two_digits (n div 100) @ two_digits (n mod 100)"

text \<open>Gregorian year, month and day of a day number, and \<open>Format("2006-01-02")\<close>.\<close>

definition civil :: "int \<Rightarrow> int \<times> int \<times> int" where
  "civil day =
     (let z = day + 719468; era = z div 146097; doe = z mod 146097;
          yoe = (doe - doe div 1460 + doe div 36524 - doe div 146096) div 365;
          doy = doe - (365 * yoe + yoe div 4 - yoe div 100);
          mp = (5 * doy + 2) div 153;
          m = (if mp < 10 then mp + 3 else mp - 9)
      in (yoe + era * 400 + (if m \<le> 2 then 1 else 0), m, doy - (153 * mp + 2) div 5 + 1))"

definition date_string :: "int \<Rightarrow> string" where
  "date_string day =
     (let (y, m, d) = civil day in four_digits y @ ''-'' @ two_digits m @ ''-'' @ two_digits d)"

text \<open>\<open>time.Parse("2006-01-02", s)\<close> succeeds.\<close>

definition days_in :: "nat \<Rightarrow> nat \<Rightarrow> nat" where
  "days_in m y =
     (if m = 2 then (if y mod 4 = 0 \<and> (y mod 100 \<noteq> 0 \<or> y mod 400 = 0) then 29 else 28)
      else if m \<in> {4, 6, 9, 11} then 30 else 31)"

definition valid_date :: "string \<Rightarrow> bool" where
  "valid_date s \<longleftrightarrow>
     length s = 10 \<and> s ! 4 = CHR ''-'' \<and> s ! 7 = CHR ''-'' \<and>
     list_all (\<lambda>i. is_digit (s ! i)) [0, 1, 2, 3, 5, 6, 8, 9] \<and>
     (let y = decimal (take 4 s); m = decimal (take 2 (drop 5 s)); d = decimal (drop 8 s) in
      1 \<le> m \<and> m \<le> 12 \<and> 1 \<le> d \<and> d \<le> days_in m y)"

subsection \<open>Clock times\<close>

text \<open>
  One \<open>%d\<close> of \<open>fmt.Sscanf\<close>: spaces (but no newline), an optional sign, digits that fit
  an \<open>int64\<close>; the rest of the input is left for what follows.
\<close>

definition scan_int :: "string \<Rightarrow> (int \<times> string) option" where
  "scan_int s0 =
     (let s = dropWhile (\<lambda>c. is_space c \<and> code c \<noteq> 10) s0;
          neg = (case s of [] \<Rightarrow> False | c # _ \<Rightarrow> c = CHR ''-'');
          body = (case s of [] \<Rightarrow> [] | c # r \<Rightarrow> if c = CHR ''-'' \<or> c = CHR ''+'' then r else s);
          ds = takeWhile is_digit body;
          v = (if neg then - int (decimal ds) else int (decimal ds))
      in if ds = [] \<or> v < - (2 ^ 63) \<or> 2 ^ 63 \<le> v then None
         else Some (v, dropWhile is_digit body))"

definition parseHM :: "string \<Rightarrow> int option" where
  "parseHM s0 =
     (let s = trimSpace s0 in
      if s = ''24:00'' then Some (24 * 60)
      else case scan_int s of
        None \<Rightarrow> None
      | Some (h, r) \<Rightarrow>
          (case r of
             [] \<Rightarrow> None
           | c # r' \<Rightarrow>
               if c \<noteq> CHR '':'' then None
               else case scan_int r' of
                 None \<Rightarrow> None
               | Some (m, _) \<Rightarrow>
                   if h < 0 \<or> h > 23 \<or> m < 0 \<or> m > 59 then None else Some (h * 60 + m)))"

record Window =
  Start :: string
  End :: string

definition parseWindow :: "Window \<Rightarrow> (int \<times> int) option" where
  "parseWindow w =
     (case (parseHM (Start w), parseHM (End w)) of (Some s, Some e) \<Rightarrow> Some (s, e) | _ \<Rightarrow> None)"

lemma parseHM_range: "parseHM s = Some m \<Longrightarrow> 0 \<le> m \<and> m \<le> 1440"
  by (auto simp: parseHM_def Let_def split: if_splits option.splits list.splits prod.splits)

lemma parseWindow_range: "parseWindow w = Some (s, e) \<Longrightarrow> 0 \<le> s \<and> s \<le> 1440 \<and> 0 \<le> e \<and> e \<le> 1440"
  by (auto simp: parseWindow_def split: option.splits dest!: parseHM_range)

subsection \<open>The policy and the decision\<close>

record Override =
  Date :: string
  Windows :: "Window list"

text \<open>\<open>Weekly\<close> is a Go map, held as its entries.\<close>

record Policy =
  Version :: int
  TZ :: string
  Weekly :: "(string \<times> Window list) list"
  Overrides :: "Override list"

definition weekdayKeys :: "int \<Rightarrow> string" where
  "weekdayKeys d = [''sun'', ''mon'', ''tue'', ''wed'', ''thu'', ''fri'', ''sat''] ! nat d"

datatype bad_policy = BadTZ | BadWeekday | BadWindow | BadDate | BadSegment | BadDays

definition Location :: "tzdb \<Rightarrow> string \<Rightarrow> zone \<times> bad_policy option" where
  "Location tzdb tz =
     (if trimSpace tz = [] then (UTC, None)
      else case tzdb tz of None \<Rightarrow> (UTC, Some BadTZ) | Some z \<Rightarrow> (z, None))"

definition Enabled :: "Policy \<Rightarrow> bool" where
  "Enabled p \<longleftrightarrow> list_ex (\<lambda>(k, ws). ws \<noteq> []) (Weekly p) \<or> Overrides p \<noteq> []"

definition windowsOn :: "Policy \<Rightarrow> int \<Rightarrow> Window list" where
  "windowsOn p day =
     (case find (\<lambda>ov. Date ov = date_string day) (Overrides p) of
        Some ov \<Rightarrow> Windows ov
      | None \<Rightarrow> (case map_of (Weekly p) (weekdayKeys (weekday day)) of Some ws \<Rightarrow> ws | None \<Rightarrow> []))"

definition windowsFor :: "Policy \<Rightarrow> zone \<Rightarrow> int \<Rightarrow> Window list" where
  "windowsFor p z t = windowsOn p (day_of (wall z t))"

definition today_covers :: "int \<Rightarrow> Window \<Rightarrow> bool" where
  "today_covers mins w =
     (case parseWindow w of
        None \<Rightarrow> False
      | Some (s, e) \<Rightarrow>
          if e > s then mins \<ge> s \<and> mins < e
          else if e < s then mins \<ge> s
          else False)"

definition yesterday_covers :: "int \<Rightarrow> Window \<Rightarrow> bool" where
  "yesterday_covers mins w =
     (case parseWindow w of None \<Rightarrow> False | Some (s, e) \<Rightarrow> if e \<ge> s then False else mins < e)"

definition allowedAt :: "Policy \<Rightarrow> zone \<Rightarrow> int \<Rightarrow> bool" where
  "allowedAt p z t =
     (let mins = minute_of_day (wall z t) in
      list_ex (today_covers mins) (windowsFor p z t) \<or>
      list_ex (yesterday_covers mins) (windowsFor p z (day_before z t)))"

definition ShouldLock :: "tzdb \<Rightarrow> Policy \<Rightarrow> int \<Rightarrow> bool" where
  "ShouldLock tzdb p now =
     (if \<not> Enabled p then False else \<not> allowedAt p (fst (Location tzdb (TZ p))) now)"

subsection \<open>What a schedule means\<close>

text \<open>
  The specification: a window opened on day \<open>d\<close> is the interval of minutes from its start to its
  end, the end on the next day when it is before the start, and a minute is allowed
  if it lies in some window of some day. The code only looks at two days.
\<close>

definition span_covers :: "int \<Rightarrow> int \<Rightarrow> Window \<Rightarrow> bool" where
  "span_covers M d w \<longleftrightarrow>
     (case parseWindow w of
        None \<Rightarrow> False
      | Some (s, e) \<Rightarrow> d * 1440 + s \<le> M \<and> M < d * 1440 + (if e < s then e + 1440 else e))"

definition allowed_minute :: "Policy \<Rightarrow> int \<Rightarrow> bool" where
  "allowed_minute p M \<longleftrightarrow> (\<exists>d. \<exists>w\<in>set (windowsOn p d). span_covers M d w)"

lemma wall_minutes: "w div 60 = day_of w * 1440 + minute_of_day w" "0 \<le> minute_of_day w" "minute_of_day w < 1440"
  by (auto simp: day_of_def minute_of_day_def zdiv_zmult2_eq [of 1440 w 60, simplified])

lemma span_today: "span_covers (D * 1440 + m) D w \<longleftrightarrow> today_covers m w" if "0 \<le> m" "m < 1440"
  using that by (auto simp: span_covers_def today_covers_def dest!: parseWindow_range split: option.splits)

lemma span_yesterday: "span_covers (D * 1440 + m) (D - 1) w \<longleftrightarrow> yesterday_covers m w" if "0 \<le> m" "m < 1440"
  using that by (auto simp: span_covers_def yesterday_covers_def dest!: parseWindow_range split: option.splits)

lemma span_two_days: "span_covers (D * 1440 + m) d w \<Longrightarrow> 0 \<le> m \<Longrightarrow> m < 1440 \<Longrightarrow> d = D \<or> d = D - 1"
  by (auto simp: span_covers_def dest!: parseWindow_range split: if_splits option.splits)

lemma allowed_minute_two_days:
  assumes "0 \<le> m" "m < 1440"
  shows "allowed_minute p (D * 1440 + m) \<longleftrightarrow>
    (\<exists>w\<in>set (windowsOn p D). today_covers m w) \<or> (\<exists>w\<in>set (windowsOn p (D - 1)). yesterday_covers m w)"
  (is "_ = ?two")
proof
  assume "allowed_minute p (D * 1440 + m)"
  then obtain d w where w: "w \<in> set (windowsOn p d)" "span_covers (D * 1440 + m) d w"
    by (auto simp: allowed_minute_def)
  then consider "d = D" | "d = D - 1" using span_two_days assms by blast
  then show ?two using w span_today [OF assms] span_yesterday [OF assms] by cases auto
next
  assume ?two
  then show "allowed_minute p (D * 1440 + m)"
    unfolding allowed_minute_def using span_today [OF assms] span_yesterday [OF assms] by blast
qed

lemma allowedAt_spec:
  assumes "day_of (wall z (day_before z t)) = day_of (wall z t) - 1"
  shows "allowedAt p z t \<longleftrightarrow> allowed_minute p (wall z t div 60)"
  unfolding wall_minutes(1) allowed_minute_two_days [OF wall_minutes(2,3)]
  by (simp add: allowedAt_def Let_def windowsFor_def list_ex_iff assms)

text \<open>The condition on the zone holds wherever the offset is constant.\<close>

lemma day_before_fixed: "day_of (wall (\<lambda>_. c) (day_before (\<lambda>_. c) t)) = day_of (wall (\<lambda>_. c) t) - 1"
proof -
  have d: "(x - 86400) div 86400 = x div 86400 - (1::int)" for x
    using div_mult_self1 [of 86400 "x" "-1 :: int"] by simp
  have "wall (\<lambda>_. c) (day_before (\<lambda>_. c) t) = wall (\<lambda>_. c) t - 86400"
    by (simp add: wall_def day_before_def go_date_def)
  then show ?thesis by (simp only: day_of_def d)
qed

text \<open>
  the lock decision is the specification. In a zone where yesterday's date is the date before
  today's, a device is locked exactly when the schedule is enabled and the present minute lies in no
  window of any day, windows past midnight included; an enabled schedule with no
  window for the day locks it, an empty schedule never does.
\<close>

theorem ShouldLock_spec:
  assumes "Location tzdb (TZ p) = (z, e)"
    and "day_of (wall z (day_before z now)) = day_of (wall z now) - 1"
  shows "ShouldLock tzdb p now \<longleftrightarrow> Enabled p \<and> \<not> allowed_minute p (wall z now div 60)"
  using allowedAt_spec [OF assms(2)] assms(1) by (simp add: ShouldLock_def)

definition demo_policy :: Policy where
  "demo_policy = \<lparr>Version = 1, TZ = [],
     Weekly = [(''sun'', [\<lparr>Start = ''22:00'', End = ''06:00''\<rparr>])], Overrides = []\<rparr>"

theorem ShouldLock_spec_witness:
  "ShouldLock (\<lambda>_. None) demo_policy (3 * 86400 + 79200 - 1) \<longleftrightarrow>
   Enabled demo_policy \<and> \<not> allowed_minute demo_policy ((3 * 86400 + 79200 - 1) div 60)"
proof -
  have "Location (\<lambda>_. None) (TZ demo_policy) = (UTC, None)"
    by (simp add: Location_def demo_policy_def trimSpace_def)
  from ShouldLock_spec [OF this] day_before_fixed [of 0] show ?thesis
    by (simp add: wall_def UTC_def)
qed

text \<open>
  The condition matters. A zone west of Greenwich whose clocks skip the first hour of a day
  (\<open>America/Santiago\<close>, \<open>America/Havana\<close>): \<open>AddDate(0, 0, -1)\<close> from half past midnight of the following
  day asks for an hour that was skipped and lands on the day before the intended one.
\<close>

definition midnight_gap :: "int \<Rightarrow> zone" where
  "midnight_gap T u = (if u < T then - 14400 else - 10800)"

text \<open>
  in such a zone the decision is wrong for an hour. The window Sunday 22:00 to Monday 06:00
  covers Monday 00:30, and the device is locked at that instant because the code looks up
  Saturday's windows.
\<close>

theorem locked_inside_window:
  "\<exists>tzdb p now. (let z = fst (Location tzdb (TZ p)) in
     allowed_minute p (wall z now div 60) \<and> ShouldLock tzdb p now)"
proof -
  let ?z = "midnight_gap (3 * 86400 + 14400)"
  let ?db = "\<lambda>n::string. Some ?z"
  let ?p = "demo_policy\<lparr>TZ := ''America/Santiago''\<rparr>"
  let ?now = "4 * 86400 + 1800 + (10800::int)"
  have loc: "fst (Location ?db (TZ ?p)) = ?z" by (simp add: Location_def trimSpace_def is_space_def code_def)
  have pw: "parseWindow \<lparr>Start = ''22:00'', End = ''06:00''\<rparr> = Some (1320, 360)" by code_simp
  have day: "wall ?z ?now = 4 * 86400 + 1800" by (simp add: wall_def midnight_gap_def)
  have w3: "windowsOn ?p 3 = [\<lparr>Start = ''22:00'', End = ''06:00''\<rparr>]"
    by (simp add: windowsOn_def demo_policy_def weekday_def weekdayKeys_def)
  have M: "(4 * 86400 + 1800) div 60 = (4 * 1440 + 30 :: int)" by simp
  have "span_covers (4 * 1440 + 30) 3 \<lparr>Start = ''22:00'', End = ''06:00''\<rparr>"
    by (simp add: span_covers_def pw)
  then have "allowed_minute ?p (wall ?z ?now div 60)"
    unfolding allowed_minute_def day M using w3 by (intro exI [of _ 3]) simp
  moreover have "windowsFor ?p ?z ?now = []" "windowsFor ?p ?z (day_before ?z ?now) = []"
    by (simp_all add: windowsFor_def day_before_def go_date_def wall_def midnight_gap_def day_of_def
        windowsOn_def demo_policy_def weekday_def weekdayKeys_def)
  then have "ShouldLock ?db ?p ?now"
    unfolding ShouldLock_def loc by (simp add: allowedAt_def Let_def Enabled_def demo_policy_def)
  ultimately show ?thesis unfolding Let_def using loc by metis
qed

subsection \<open>Checking and parsing schedules\<close>

definition Validate :: "tzdb \<Rightarrow> Policy \<Rightarrow> bad_policy option" where
  "Validate tzdb p =
     (case snd (Location tzdb (TZ p)) of
        Some e \<Rightarrow> Some e
      | None \<Rightarrow>
          if list_ex (\<lambda>(k, ws). k \<notin> set [''mon'', ''tue'', ''wed'', ''thu'', ''fri'', ''sat'', ''sun'']) (Weekly p)
          then Some BadWeekday
          else if list_ex (\<lambda>(k, ws). list_ex (\<lambda>w. parseWindow w = None) ws) (Weekly p) then Some BadWindow
          else if list_ex (\<lambda>ov. \<not> valid_date (Date ov)) (Overrides p) then Some BadDate
          else if list_ex (\<lambda>ov. list_ex (\<lambda>w. parseWindow w = None) (Windows ov)) (Overrides p) then Some BadWindow
          else None)"

definition compact_order :: "string list" where
  "compact_order = [''mon'', ''tue'', ''wed'', ''thu'', ''fri'', ''sat'', ''sun'']"

definition day_index :: "string \<Rightarrow> nat option" where
  "day_index d = find (\<lambda>i. compact_order ! i = toLower d) [0..<7]"

text \<open>\<open>p.Weekly[k] = append(p.Weekly[k], w)\<close>.\<close>

definition add_window :: "Window \<Rightarrow> string \<Rightarrow> (string \<times> Window list) list \<Rightarrow> (string \<times> Window list) list" where
  "add_window w k m = AList.update k ((case map_of m k of None \<Rightarrow> [] | Some ws \<Rightarrow> ws) @ [w]) m"

text \<open>One comma-separated segment: the days it names and its window.\<close>

definition parse_segment :: "string \<Rightarrow> bad_policy + (string list \<times> Window)" where
  "parse_segment part =
     (case stringFields part of
        [days, span] \<Rightarrow>
          (case cut CHR ''-'' span of
             None \<Rightarrow> Inl BadWindow
           | Some (st, en) \<Rightarrow>
               let w = \<lparr>Start = st, End = en\<rparr> in
               if parseWindow w = None then Inl BadWindow
               else let (from, to) = (case cut CHR ''-'' days of Some ab \<Rightarrow> ab | None \<Rightarrow> (days, days)) in
                 case (day_index from, day_index to) of
                   (Some fi, Some ti) \<Rightarrow>
                     if fi > ti then Inl BadDays
                     else Inr (map ((!) compact_order) [fi..<Suc ti], w)
                 | _ \<Rightarrow> Inl BadDays)
      | _ \<Rightarrow> Inl BadSegment)"

fun parse_segments :: "string list \<Rightarrow> (string \<times> Window list) list \<Rightarrow> bad_policy + (string \<times> Window list) list" where
  "parse_segments [] m = Inr m"
| "parse_segments (part # parts) m =
     (case parse_segment part of
        Inl e \<Rightarrow> Inl e
      | Inr (days, w) \<Rightarrow> parse_segments parts (fold (add_window w) days m))"

definition ParseCompact :: "tzdb \<Rightarrow> string \<Rightarrow> string \<Rightarrow> bad_policy + Policy" where
  "ParseCompact tzdb s0 tz =
     (let s = trimSpace s0; p = \<lparr>Version = 0, TZ = tz, Weekly = [], Overrides = []\<rparr> in
      if s = [] then Inr p
      else case parse_segments (splitc CHR '','' s) [] of
        Inl e \<Rightarrow> Inl e
      | Inr m \<Rightarrow> (let p1 = p\<lparr>Weekly := m\<rparr> in
          case Validate tzdb p1 of Some e \<Rightarrow> Inl e | None \<Rightarrow> Inr p1))"

lemma set_compact_order: "set compact_order = {''mon'', ''tue'', ''wed'', ''thu'', ''fri'', ''sat'', ''sun''}"
  by (auto simp: compact_order_def)

lemma parse_segment_sound:
  assumes "parse_segment part = Inr (days, w)"
  shows "days \<noteq> [] \<and> distinct days \<and> set days \<subseteq> set compact_order \<and> parseWindow w \<noteq> None"
proof -
  from assms obtain fi ti where d: "days = map ((!) compact_order) [fi..<Suc ti]" "fi \<le> ti"
      "parseWindow w \<noteq> None" "ti < 7"
    by (auto simp: parse_segment_def Let_def day_index_def find_Some_iff simp del: upt_Suc
        split: list.splits option.splits if_splits prod.splits)
  have len: "length compact_order = 7" by (simp add: compact_order_def)
  have "inj_on ((!) compact_order) {fi..<Suc ti}"
    by (rule inj_on_subset [of _ "{..<7}"]) (use d(4) in \<open>auto intro!: inj_on_nth simp: compact_order_def\<close>)
  moreover have "set days \<subseteq> set compact_order" unfolding d(1) using d(4) len by auto
  ultimately show ?thesis using d by (simp add: distinct_map del: upt_Suc)
qed

text \<open>What the windows of a day become when a segment is added.\<close>

definition on_day :: "(string \<times> Window list) list \<Rightarrow> string \<Rightarrow> Window list" where
  "on_day m k = (case map_of m k of None \<Rightarrow> [] | Some ws \<Rightarrow> ws)"

lemma on_day_add [simp]: "on_day (add_window w k m) j = (if j = k then on_day m k @ [w] else on_day m j)"
  by (simp add: on_day_def add_window_def update_conv split: option.splits)

lemma on_day_fold:
  "distinct days \<Longrightarrow> on_day (fold (add_window w) days m) j = on_day m j @ (if j \<in> set days then [w] else [])"
  by (induction days arbitrary: m) auto

text \<open>The segments that name a day, in order.\<close>

definition segment_windows :: "string list \<Rightarrow> string \<Rightarrow> Window list" where
  "segment_windows parts k =
     concat (map (\<lambda>part. case parse_segment part of
       Inr (days, w) \<Rightarrow> if k \<in> set days then [w] else [] | Inl _ \<Rightarrow> []) parts)"

lemma parse_segments_on_day:
  "parse_segments parts m = Inr m' \<Longrightarrow> on_day m' k = on_day m k @ segment_windows parts k"
  by (induction parts arbitrary: m)
    (auto simp: segment_windows_def on_day_fold dest: parse_segment_sound split: sum.splits)

definition good_weekly :: "(string \<times> Window list) list \<Rightarrow> bool" where
  "good_weekly m \<longleftrightarrow> distinct (map fst m) \<and> fst ` set m \<subseteq> set compact_order \<and>
     (\<forall>(k, ws)\<in>set m. \<forall>w\<in>set ws. parseWindow w \<noteq> None)"

lemma good_add:
  assumes "good_weekly m" "k \<in> set compact_order" "parseWindow w \<noteq> None"
  shows "good_weekly (add_window w k m)"
proof -
  define ws where "ws = (case map_of m k of None \<Rightarrow> [] | Some ws \<Rightarrow> ws) @ [w]"
  have sub: "kv \<in> set (AList.update k ws m) \<Longrightarrow> kv = (k, ws) \<or> kv \<in> set m" for kv
    by (induction m) (auto split: if_splits)
  have old: "(k', ws') \<in> set m \<Longrightarrow> k' \<in> set compact_order \<and> (\<forall>w\<in>set ws'. parseWindow w \<noteq> None)" for k' ws'
    using assms(1) by (force simp: good_weekly_def)
  have "\<forall>w'\<in>set ws. parseWindow w' \<noteq> None"
  proof (cases "map_of m k")
    case None
    then show ?thesis using assms(3) by (simp add: ws_def)
  next
    case (Some us)
    then show ?thesis using assms(3) old [OF map_of_SomeD [OF Some]] by (auto simp: ws_def)
  qed
  with old sub assms(2)
  have "k' \<in> set compact_order \<and> (\<forall>w\<in>set ws'. parseWindow w \<noteq> None)"
    if "(k', ws') \<in> set (AList.update k ws m)" for k' ws' using that by blast
  then show ?thesis using assms(1)
    unfolding good_weekly_def add_window_def ws_def [symmetric] by (auto simp: distinct_update)
qed

lemma good_fold:
  "good_weekly m \<Longrightarrow> set days \<subseteq> set compact_order \<Longrightarrow> parseWindow w \<noteq> None \<Longrightarrow>
   good_weekly (fold (add_window w) days m)"
  by (induction days arbitrary: m) (auto intro: good_add)

lemma parse_segments_good: "parse_segments parts m = Inr m' \<Longrightarrow> good_weekly m \<Longrightarrow> good_weekly m'"
proof (induction parts arbitrary: m)
  case (Cons part parts)
  then obtain days w where s: "parse_segment part = Inr (days, w)"
      "parse_segments parts (fold (add_window w) days m) = Inr m'"
    by (auto split: sum.splits)
  with parse_segment_sound [OF s(1)] Cons show ?case by (auto intro: good_fold)
qed simp

text \<open>
  the compact notation says what it says. When a non-blank schedule parses, every day has exactly the
  windows of the segments that name it, in the order written, and the parser's own last check can
  only fail on the time zone.
\<close>

theorem ParseCompact_days:
  assumes "parse_segments (splitc CHR '','' (trimSpace s)) [] = Inr m" "trimSpace s \<noteq> []"
  shows "(\<forall>k. on_day m k = segment_windows (splitc CHR '','' (trimSpace s)) k) \<and>
    ParseCompact tzdb s tz =
      (case snd (Location tzdb tz) of
         None \<Rightarrow> Inr \<lparr>Version = 0, TZ = tz, Weekly = m, Overrides = []\<rparr> | Some e \<Rightarrow> Inl e)"
proof -
  have "good_weekly m" using parse_segments_good [OF assms(1)] by (simp add: good_weekly_def)
  then have g: "\<not> list_ex (\<lambda>(k, ws). k \<notin> set [''mon'', ''tue'', ''wed'', ''thu'', ''fri'', ''sat'', ''sun'']) m"
      "\<not> list_ex (\<lambda>(k, ws). list_ex (\<lambda>w. parseWindow w = None) ws) m"
    unfolding good_weekly_def list_ex_iff compact_order_def by fastforce+
  then show ?thesis
    using parse_segments_on_day [OF assms(1)] assms
    by (simp add: ParseCompact_def Let_def Validate_def on_day_def split: option.splits)
qed

theorem ParseCompact_days_witness:
  "\<exists>p. ParseCompact (\<lambda>_. None) ''mon-tue 08:00-12:00,tue 13:00-17:00'' [] = Inr p \<and>
     on_day (Weekly p) ''tue'' =
       [\<lparr>Start = ''08:00'', End = ''12:00''\<rparr>, \<lparr>Start = ''13:00'', End = ''17:00''\<rparr>]"
proof -
  let ?s = "''mon-tue 08:00-12:00,tue 13:00-17:00''"
  let ?m = "[(''mon'', [\<lparr>Start = ''08:00'', End = ''12:00''\<rparr>]),
    (''tue'', [\<lparr>Start = ''08:00'', End = ''12:00''\<rparr>, \<lparr>Start = ''13:00'', End = ''17:00''\<rparr>])]"
  have m: "parse_segments (splitc CHR '','' (trimSpace ?s)) [] = Inr ?m" by code_simp
  have ne: "trimSpace ?s \<noteq> []" by code_simp
  have "snd (Location (\<lambda>_. None) []) = None" by (simp add: Location_def trimSpace_def)
  then have "ParseCompact (\<lambda>_. None) ?s [] = Inr \<lparr>Version = 0, TZ = [], Weekly = ?m, Overrides = []\<rparr>"
    using ParseCompact_days [OF m ne, of "\<lambda>_. None" "[]"] by simp
  moreover have "on_day ?m ''tue'' =
       [\<lparr>Start = ''08:00'', End = ''12:00''\<rparr>, \<lparr>Start = ''13:00'', End = ''17:00''\<rparr>]"
    by (simp add: on_day_def)
  ultimately show ?thesis by (intro exI conjI) (assumption, simp)
qed

end
