(* ===== verification/MaintWindow.thy ===== *)
theory MaintWindow
  imports Schedule
begin

text \<open>
  Maintenance windows of a firmware rollout, \<open>internal/ota/window.go\<close>: the check that a
  batch may be dispatched now (\<open>InWindow\<close>, which lets dispatch through when the window cannot be read) and the check
  made when the batch is created (\<open>ParseWindow\<close>). The policy is the decoded JSON document.
\<close>

record MaintWindow =
  WStart :: string
  WEnd :: string
  WTZ :: string
  Weekdays :: "int list"

definition no_window :: MaintWindow where
  "no_window = \<lparr>WStart = [], WEnd = [], WTZ = [], Weekdays = []\<rparr>"

definition Empty :: "MaintWindow \<Rightarrow> bool" where
  "Empty w \<longleftrightarrow> trimSpace (WStart w) = [] \<and> trimSpace (WEnd w) = []"

definition parseHHMM :: "string \<Rightarrow> int option" where
  "parseHHMM s0 =
     (let s = trimSpace s0 in
      if length s \<noteq> 5 \<or> s ! 2 \<noteq> CHR '':'' then None
      else if \<not> list_all (\<lambda>i. is_digit (s ! i)) [0, 1, 3, 4] then None
      else let h = int (decimal (take 2 s)); m = int (decimal (take 2 (drop 3 s))) in
        if h < 0 \<or> h > 23 \<or> m < 0 \<or> m > 59 then None else Some (h * 60 + m))"

definition windowLoc :: "tzdb \<Rightarrow> string \<Rightarrow> zone" where
  "windowLoc tzdb tz =
     (if trimSpace tz = [] then UTC
      else case tzdb (trimSpace tz) of None \<Rightarrow> UTC | Some z \<Rightarrow> z)"

text \<open>The start day of the window in force (\<open>None\<close>: outside), as a day number.\<close>

definition start_day :: "zone \<Rightarrow> int \<Rightarrow> int \<Rightarrow> int \<Rightarrow> int option" where
  "start_day z start fin now =
     (let cur = minute_of_day (wall z now); today = day_of (wall z now) in
      if start = fin then Some today
      else if start < fin then (if cur < start \<or> cur \<ge> fin then None else Some today)
      else if cur \<ge> start then Some today
      else if cur < fin then Some (day_of (wall z (day_before z now)))
      else None)"

definition InWindow :: "tzdb \<Rightarrow> MaintWindow \<Rightarrow> int \<Rightarrow> bool" where
  "InWindow tzdb w now =
     (if Empty w then True
      else case (parseHHMM (WStart w), parseHHMM (WEnd w)) of
        (Some start, Some fin) \<Rightarrow>
          (case start_day (windowLoc tzdb (WTZ w)) start fin now of
             None \<Rightarrow> False
           | Some d \<Rightarrow> if Weekdays w = [] then True else weekday d \<in> set (Weekdays w))
      | _ \<Rightarrow> True)"

datatype bad_window = BadPolicyJson | OneSided | BadStart | BadEnd | BadDay | BadZone

definition validateRest :: "tzdb \<Rightarrow> MaintWindow \<Rightarrow> bad_window option" where
  "validateRest tzdb w =
     (if list_ex (\<lambda>d. d < 0 \<or> d > 6) (Weekdays w) then Some BadDay
      else if WTZ w \<noteq> [] \<and> tzdb (WTZ w) = None then Some BadZone
      else None)"

definition Validate_window :: "tzdb \<Rightarrow> MaintWindow \<Rightarrow> bad_window option" where
  "Validate_window tzdb w =
     (if Empty w then
        (if WStart w \<noteq> [] \<or> WEnd w \<noteq> [] then Some OneSided else validateRest tzdb w)
      else if parseHHMM (WStart w) = None then Some BadStart
      else if parseHHMM (WEnd w) = None then Some BadEnd
      else validateRest tzdb w)"

text \<open>The \<open>policy\<close> column: absent, not a JSON object of the right shape, or its \<open>window\<close> key.\<close>

datatype policy = NoPolicy | BadPolicy | PolicyWindow "MaintWindow option"

definition ParseWindow :: "tzdb \<Rightarrow> policy \<Rightarrow> bad_window + MaintWindow" where
  "ParseWindow tzdb pol =
     (case pol of
        NoPolicy \<Rightarrow> Inr no_window
      | BadPolicy \<Rightarrow> Inl BadPolicyJson
      | PolicyWindow None \<Rightarrow> Inr no_window
      | PolicyWindow (Some w0) \<Rightarrow>
          (let w = w0\<lparr>WStart := trimSpace (WStart w0), WEnd := trimSpace (WEnd w0), WTZ := trimSpace (WTZ w0)\<rparr> in
           case Validate_window tzdb w of Some e \<Rightarrow> Inl e | None \<Rightarrow> Inr w))"

lemma parseHHMM_range: "parseHHMM s = Some m \<Longrightarrow> 0 \<le> m \<and> m < 1440"
  by (auto simp: parseHHMM_def Let_def split: if_splits)

text \<open>
  The specification: the window of day \<open>d\<close> runs from its start to its end, the next day if the end is
  earlier, the whole day if they are equal; dispatch is open in the windows of the listed weekdays.
\<close>

definition window_open :: "MaintWindow \<Rightarrow> int \<Rightarrow> int \<Rightarrow> int \<Rightarrow> bool" where
  "window_open w s e M \<longleftrightarrow>
     (\<exists>d. (Weekdays w = [] \<or> weekday d \<in> set (Weekdays w)) \<and>
          (if s = e then d * 1440 \<le> M \<and> M < d * 1440 + 1440
           else d * 1440 + s \<le> M \<and> M < d * 1440 + (if e < s then e + 1440 else e)))"

lemma start_day_spec:
  assumes "0 \<le> s" "s < 1440" "0 \<le> e" "e < 1440"
    and "day_of (wall z (day_before z now)) = day_of (wall z now) - 1"
  shows "start_day z s e now = Some d \<longleftrightarrow>
    (if s = e then d * 1440 \<le> wall z now div 60 \<and> wall z now div 60 < d * 1440 + 1440
     else d * 1440 + s \<le> wall z now div 60 \<and>
          wall z now div 60 < d * 1440 + (if e < s then e + 1440 else e))"
proof -
  define D m where "D = day_of (wall z now)" and "m = minute_of_day (wall z now)"
  note D = this
  have m: "0 \<le> m" "m < 1440" unfolding D by (rule wall_minutes)+
  consider "d \<le> D - 2" | "d = D - 1" | "d = D" | "D + 1 \<le> d" by linarith
  then show ?thesis
    unfolding wall_minutes(1) D [symmetric] using assms m
    by cases (auto simp: start_day_def Let_def D [symmetric])
qed

lemma InWindow_spec:
  assumes "\<not> Empty w" "parseHHMM (WStart w) = Some s" "parseHHMM (WEnd w) = Some e"
    and "z = windowLoc tzdb (WTZ w)"
    and "day_of (wall z (day_before z now)) = day_of (wall z now) - 1"
  shows "InWindow tzdb w now \<longleftrightarrow> window_open w s e (wall z now div 60)"
proof -
  have r: "0 \<le> s" "s < 1440" "0 \<le> e" "e < 1440" using parseHHMM_range assms(2,3) by blast+
  have "InWindow tzdb w now \<longleftrightarrow>
      (\<exists>d. start_day z s e now = Some d \<and> (Weekdays w = [] \<or> weekday d \<in> set (Weekdays w)))"
    using assms(1-4) by (auto simp: InWindow_def split: option.splits)
  then show ?thesis unfolding start_day_spec [OF r assms(5)] window_open_def by blast
qed

lemma trimSpace_idem [simp]: "trimSpace (trimSpace s) = trimSpace s"
proof -
  have l: "dropWhile is_space (rev (dropWhile is_space (rev t))) = rev (dropWhile is_space (rev t))"
    if "t = [] \<or> \<not> is_space (hd t)" for t
  proof (cases "dropWhile is_space (rev t)")
    case Nil
    show ?thesis by (simp only: Nil rev.simps dropWhile.simps)
  next
    case (Cons x xs)
    obtain y ys where t: "t = y # ys" using Cons by (cases t) auto
    with that have y: "\<not> is_space y" by simp
    have "last (dropWhile is_space (rev t)) = y"
      using y t by (simp add: dropWhile_append)
    moreover have "rev (dropWhile is_space (rev t)) = last (x # xs) # rev (butlast (x # xs))"
      using Cons by (metis append_butlast_last_id list.discI rev.simps(2) rev_append rev_rev_ident
          rev_singleton_conv append_Cons append_Nil)
    ultimately show ?thesis using y Cons by (simp del: last.simps butlast.simps)
  qed
  have "dropWhile is_space s = [] \<or> \<not> is_space (hd (dropWhile is_space s))"
    using hd_dropWhile by blast
  from l [OF this] show ?thesis by (simp add: trimSpace_def)
qed

text \<open>
  a window that was accepted never fails open by mistake. If the policy passes the check at creation
  and is not the empty window, both of its times and its zone are readable, and
  dispatch is let through exactly inside the windows of the listed weekdays, each
  counted to the day it started on.
\<close>

theorem accepted_window_restricts:
  assumes "ParseWindow tzdb pol = Inr w" "\<not> Empty w"
    and "z = windowLoc tzdb (WTZ w)"
    and "day_of (wall z (day_before z now)) = day_of (wall z now) - 1"
  shows "(\<exists>s e. parseHHMM (WStart w) = Some s \<and> parseHHMM (WEnd w) = Some e \<and>
      InWindow tzdb w now = window_open w s e (wall z now div 60)) \<and>
    (WTZ w = [] \<and> z = UTC \<or> tzdb (WTZ w) = Some z) \<and> (\<forall>d\<in>set (Weekdays w). 0 \<le> d \<and> d \<le> 6)"
proof -
  obtain w0 where w0: "pol = PolicyWindow (Some w0)"
      "w = w0\<lparr>WStart := trimSpace (WStart w0), WEnd := trimSpace (WEnd w0), WTZ := trimSpace (WTZ w0)\<rparr>"
      "Validate_window tzdb w = None"
    using assms(1,2)
    by (auto simp: ParseWindow_def Let_def no_window_def Empty_def trimSpace_def
        split: policy.splits option.splits)
  then obtain s e where t: "parseHHMM (WStart w) = Some s" "parseHHMM (WEnd w) = Some e"
      and v: "validateRest tzdb w = None"
    using assms(2) by (auto simp: Validate_window_def split: if_splits)
  have "trimSpace (WTZ w) = WTZ w" using w0(2) by simp
  then have "WTZ w = [] \<and> z = UTC \<or> tzdb (WTZ w) = Some z"
    using v assms(3) by (auto simp: validateRest_def windowLoc_def split: if_splits)
  moreover have "\<forall>d\<in>set (Weekdays w). 0 \<le> d \<and> d \<le> 6"
    using v by (auto simp: validateRest_def list_ex_iff split: if_splits)
  ultimately show ?thesis using t InWindow_spec [OF assms(2) t assms(3,4)] by blast
qed

definition demo_window :: MaintWindow where
  "demo_window = \<lparr>WStart = ''22:00'', WEnd = ''06:00'', WTZ = [], Weekdays = [6]\<rparr>"

theorem accepted_window_restricts_witness:
  "InWindow (\<lambda>_. None) demo_window (3 * 86400 + 3600) \<and>
   \<not> InWindow (\<lambda>_. None) demo_window (4 * 86400 + 3600)"
proof -
  have p: "ParseWindow (\<lambda>_. None) (PolicyWindow (Some demo_window)) = Inr demo_window" by code_simp
  have ne: "\<not> Empty demo_window" by code_simp
  have z: "UTC = windowLoc (\<lambda>_. None) (WTZ demo_window)"
    by (simp add: windowLoc_def demo_window_def trimSpace_def)
  have d: "day_of (wall UTC (day_before UTC t)) = day_of (wall UTC t) - 1" for t
    using day_before_fixed [of 0] by (simp add: UTC_def)
  have hm: "parseHHMM (WStart demo_window) = Some 1320" "parseHHMM (WEnd demo_window) = Some 360"
    by code_simp+
  have i: "InWindow (\<lambda>_. None) demo_window t = window_open demo_window 1320 360 (wall UTC t div 60)" for t
    using accepted_window_restricts [OF p ne z d, of t] hm by auto
  have "window_open demo_window 1320 360 4380"
    unfolding window_open_def by (intro exI [of _ 2]) (simp add: demo_window_def weekday_def)
  moreover have "\<not> window_open demo_window 1320 360 5820"
  proof
    assume "window_open demo_window 1320 360 5820"
    then obtain d where d: "weekday d = 6" "d * 1440 + 1320 \<le> 5820" "5820 < d * 1440 + 1800"
      by (auto simp: window_open_def demo_window_def)
    then have "d = 3" by linarith
    with d(1) show False by (simp add: weekday_def)
  qed
  ultimately show ?thesis unfolding i by (simp add: wall_def UTC_def)
qed

end
