(* ===== verification/Float64.thy ===== *)
theory Float64
  imports Prelude Complex_Main
begin

text \<open>
  IEEE double precision as the release gates use it: every such computation here is a
  quotient in \<open>[0, 1]\<close>, so \<open>rnd64\<close> rounds a rational of that interval to the nearest
  number with a 53-bit significand, ties to even. Subnormals and infinities do not occur (the least
  positive quotient of two 64-bit counts is far above \<open>2 ^ -1022\<close>). The lemmas say that
  rounding is monotone and leaves 0 and 1 alone, which is what the comparisons rely on.
\<close>

subsection \<open>Rounding to an integer, ties to even\<close>

definition round_even :: "rat \<Rightarrow> int" where
  "round_even x =
     (let f = \<lfloor>x\<rfloor>; d = x - of_int f in
      if d < 1 / 2 then f else if d > 1 / 2 then f + 1 else if even f then f else f + 1)"

lemma round_even_bounds: "\<lfloor>x\<rfloor> \<le> round_even x" "round_even x \<le> \<lfloor>x\<rfloor> + 1"
  by (simp_all add: round_even_def Let_def)

lemma round_even_of_int [simp]: "round_even (of_int n) = n"
  by (simp add: round_even_def Let_def)

lemma round_even_mono: "x \<le> y \<Longrightarrow> round_even x \<le> round_even y"
proof (cases "\<lfloor>x\<rfloor> = \<lfloor>y\<rfloor>")
  case True
  assume "x \<le> y"
  with True show ?thesis by (auto simp: round_even_def Let_def)
next
  case False
  assume "x \<le> y"
  with False have "\<lfloor>x\<rfloor> + 1 \<le> \<lfloor>y\<rfloor>" using floor_mono [OF \<open>x \<le> y\<close>] by linarith
  then show ?thesis using round_even_bounds [of x] round_even_bounds [of y] by linarith
qed

lemma round_even_ge: "of_int n \<le> x \<Longrightarrow> n \<le> round_even x"
  using round_even_mono [of "of_int n" x] by simp

lemma round_even_le: "x \<le> of_int n \<Longrightarrow> round_even x \<le> n"
  using round_even_mono [of x "of_int n"] by simp

subsection \<open>The exponent\<close>

text \<open>How often a positive number below 1 has to be doubled to reach \<open>[1, 2)\<close>.\<close>

function scale :: "rat \<Rightarrow> nat" where
  "scale x = (if x \<le> 0 \<or> 1 \<le> x then 0 else Suc (scale (2 * x)))"
  by auto

termination
proof (relation "measure (\<lambda>x. nat \<lceil>1 / x\<rceil>)")
  fix x :: rat
  assume "\<not> (x \<le> 0 \<or> 1 \<le> x)"
  then have x: "0 < x" "x < 1" by auto
  define y where "y = 1 / x"
  have y: "1 < y" using x by (simp add: y_def)
  have "\<lceil>y / 2\<rceil> < \<lceil>y\<rceil>"
  proof (cases "y \<le> 2")
    case True
    then have "\<lceil>y / 2\<rceil> \<le> 1" by (simp add: ceiling_le_iff)
    moreover have "1 < \<lceil>y\<rceil>" using y by (simp add: less_ceiling_iff)
    ultimately show ?thesis by linarith
  next
    case False
    then have "y / 2 \<le> y - 1" by linarith
    then have "\<lceil>y / 2\<rceil> \<le> \<lceil>y - 1\<rceil>" by (rule ceiling_mono)
    then show ?thesis by simp
  qed
  moreover have "1 / (2 * x) = y / 2" by (simp add: y_def)
  moreover have "0 < \<lceil>y\<rceil>" using y by (simp add: less_ceiling_iff)
  ultimately show "(2 * x, x) \<in> measure (\<lambda>x. nat \<lceil>1 / x\<rceil>)"
    by (simp add: y_def mult.commute)
qed simp

declare scale.simps [simp del]

lemma scale_ge_1 [simp]: "1 \<le> x \<Longrightarrow> scale x = 0"
  by (simp add: scale.simps)

lemma scale_double: "0 < x \<Longrightarrow> x < 1 \<Longrightarrow> scale x = Suc (scale (2 * x))"
  by (simp add: scale.simps [of x])

lemma scale_range: "0 < x \<Longrightarrow> x \<le> 1 \<Longrightarrow> 1 \<le> x * 2 ^ scale x \<and> x * 2 ^ scale x < 2"
proof (induction x rule: scale.induct)
  case (1 x)
  show ?case
  proof (cases "1 \<le> x")
    case True
    then show ?thesis using 1 by simp
  next
    case False
    show ?thesis
    proof (cases "2 * x \<le> 1")
      case True
      then show ?thesis using 1 False by (simp add: scale_double algebra_simps)
    next
      case big: False
      then have "scale x = 1" using False 1 by (simp add: scale_double)
      then show ?thesis using big False by simp
    qed
  qed
qed

lemma scale_antimono:
  assumes "0 < x" "x \<le> y" "y \<le> 1"
  shows "scale y \<le> scale x"
proof (rule ccontr)
  assume "\<not> scale y \<le> scale x"
  then have le: "Suc (scale x) \<le> scale y" by simp
  have "2 \<le> x * 2 ^ Suc (scale x)" using scale_range [of x] assms by simp
  also have "\<dots> \<le> x * 2 ^ scale y"
    using assms(1) le by (intro mult_left_mono power_increasing) auto
  also have "\<dots> \<le> y * 2 ^ scale y" using assms by (intro mult_right_mono) auto
  also have "\<dots> < 2" using scale_range [of y] assms by simp
  finally show False by simp
qed

subsection \<open>Rounding to a double\<close>

definition rnd64 :: "rat \<Rightarrow> rat" where
  "rnd64 x = (if x \<le> 0 then 0 else
     of_int (round_even (x * 2 ^ (scale x + 52))) / 2 ^ (scale x + 52))"

lemma rnd64_0 [simp]: "rnd64 0 = 0"
  by (simp add: rnd64_def)

lemma rnd64_1 [simp]: "rnd64 1 = 1"
proof -
  have "(1::rat) * 2 ^ (scale 1 + 52) = of_int (2 ^ 52)" by simp
  then show ?thesis by (simp only: rnd64_def round_even_of_int scale_ge_1) simp
qed

lemma rnd64_lower: "0 < x \<Longrightarrow> x \<le> 1 \<Longrightarrow> 1 / 2 ^ scale x \<le> rnd64 x"
proof -
  assume x: "0 < x" "x \<le> 1"
  have "of_int (2 ^ 52) \<le> x * 2 ^ (scale x + 52)"
    using scale_range [OF x] by (simp add: power_add)
  then have "2 ^ 52 \<le> round_even (x * 2 ^ (scale x + 52))" by (rule round_even_ge)
  then have "of_int (2 ^ 52) \<le> (of_int (round_even (x * 2 ^ (scale x + 52))) :: rat)" by (simp only: of_int_le_iff)
  then show ?thesis using x by (simp add: rnd64_def field_simps power_add)
qed

lemma rnd64_upper: "0 < x \<Longrightarrow> x \<le> 1 \<Longrightarrow> rnd64 x \<le> 2 / 2 ^ scale x"
proof -
  assume x: "0 < x" "x \<le> 1"
  have "x * 2 ^ (scale x + 52) \<le> of_int (2 ^ 53)"
    using scale_range [OF x] by (simp add: power_add)
  then have "round_even (x * 2 ^ (scale x + 52)) \<le> 2 ^ 53" by (rule round_even_le)
  then have "(of_int (round_even (x * 2 ^ (scale x + 52))) :: rat) \<le> of_int (2 ^ 53)" by (simp only: of_int_le_iff)
  then show ?thesis using x by (simp add: rnd64_def field_simps power_add)
qed

lemma rnd64_nonneg [simp]: "0 \<le> rnd64 x"
  using round_even_ge [of 0 "x * 2 ^ (scale x + 52)"] by (simp add: rnd64_def)

lemma rnd64_pos: "0 < x \<Longrightarrow> x \<le> 1 \<Longrightarrow> 0 < rnd64 x"
  using rnd64_lower [of x] by (meson less_le_trans zero_less_divide_1_iff zero_less_numeral zero_less_power)

lemma rnd64_mono:
  assumes "x \<le> y" "y \<le> 1"
  shows "rnd64 x \<le> rnd64 y"
proof (cases "0 < x")
  case False
  then have "rnd64 x = 0" by (simp add: rnd64_def)
  then show ?thesis by simp
next
  case True
  show ?thesis
  proof (cases "scale x = scale y")
    case True
    have "x * 2 ^ (scale y + 52) \<le> y * 2 ^ (scale y + 52)" using assms(1) by simp
    then have "round_even (x * 2 ^ (scale y + 52)) \<le> round_even (y * 2 ^ (scale y + 52))"
      by (rule round_even_mono)
    then show ?thesis using True \<open>0 < x\<close> assms(1) by (simp add: rnd64_def divide_right_mono)
  next
    case False
    then have "Suc (scale y) \<le> scale x" using scale_antimono [OF True assms] by simp
    then have "(2::rat) ^ Suc (scale y) \<le> 2 ^ scale x" by (intro power_increasing) auto
    then have "2 / 2 ^ scale x \<le> (1::rat) / 2 ^ scale y" by (simp add: field_simps)
    then show ?thesis using rnd64_upper [of x] rnd64_lower [of y] True assms by linarith
  qed
qed

lemma rnd64_le_1: "x \<le> 1 \<Longrightarrow> rnd64 x \<le> 1"
  using rnd64_mono [of x 1] by simp

text \<open>A strict comparison of rounded numbers is a strict comparison of the exact ones.\<close>

lemma rnd64_ge_1: "1 \<le> x \<Longrightarrow> 1 \<le> rnd64 x"
proof -
  assume x: "1 \<le> x"
  then have "of_int (2 ^ 52) \<le> x * 2 ^ (scale x + 52)" by simp
  then have "2 ^ 52 \<le> round_even (x * 2 ^ (scale x + 52))" by (rule round_even_ge)
  then have "of_int (2 ^ 52) \<le> (of_int (round_even (x * 2 ^ (scale x + 52))) :: rat)" by (simp only: of_int_le_iff)
  then show ?thesis using x by (simp add: rnd64_def field_simps)
qed

lemma rnd64_less: "rnd64 x < rnd64 y \<Longrightarrow> y \<le> 1 \<Longrightarrow> x < y"
  using rnd64_mono [of y x] rnd64_ge_1 [of x] rnd64_le_1 [of y] by fastforce

end
