(* ===== verification/Rollout.thy ===== *)
theory Rollout
  imports Float64 GoStrings
begin

text \<open>
  The pure decisions of a firmware rollout, \<open>internal/ota/stage.go\<close>, \<open>fuse.go\<close>,
  \<open>phase.go\<close> and the test of \<open>stale.go\<close>. Go's \<open>float64\<close> values are the rationals they denote,
  every operation on them rounded (\<open>rnd64\<close>). \<open>crypto/md5\<close> is a parameter.
\<close>

subsection \<open>Stages\<close>

definition Stages :: "string list" where
  "Stages = [''0.1'', ''1'', ''10'', ''50'', ''100'']"

definition pct_of :: "string \<Rightarrow> rat" where
  "pct_of s = (if s = ''0.1'' then rnd64 (1 / 10) else of_nat (decimal s))"

definition StagePct :: "string \<Rightarrow> rat option" where
  "StagePct stage = map_option pct_of (find (\<lambda>s. s = stage) Stages)"

fun next_in :: "string list \<Rightarrow> string \<Rightarrow> string option" where
  "next_in (s # t # ss) stage = (if s = stage then Some t else next_in (t # ss) stage)"
| "next_in _ stage = None"

definition NextStage :: "string \<Rightarrow> string option" where
  "NextStage stage = next_in Stages stage"

definition FirstStage :: string where "FirstStage = ''0.1''"

definition ExpectedNextStage :: "string option \<Rightarrow> string option" where
  "ExpectedNextStage latest = (case latest of None \<Rightarrow> Some FirstStage | Some s \<Rightarrow> NextStage s)"

text \<open>The last four bytes of the digest, big endian, over \<open>2 ^ 32\<close>: exact in a double.\<close>

definition Bucket :: "(string \<Rightarrow> byte list) \<Rightarrow> string \<Rightarrow> rat" where
  "Bucket md5 sn = of_nat (foldl (\<lambda>n b. n * 256 + unat b) 0 (take 4 (drop 12 (md5 sn)))) / 4294967296"

definition InStage :: "(string \<Rightarrow> byte list) \<Rightarrow> string \<Rightarrow> rat \<Rightarrow> bool" where
  "InStage md5 sn stagePct =
     (if stagePct \<ge> 100 then True
      else if stagePct \<le> 0 then False
      else Bucket md5 sn < rnd64 (stagePct / 100))"

lemma InStage_mono: "InStage md5 sn a \<Longrightarrow> a \<le> b \<Longrightarrow> InStage md5 sn b"
  using rnd64_mono [of "a / 100" "b / 100"] by (auto simp: InStage_def split: if_splits)

lemma InStage_full: "100 \<le> p \<Longrightarrow> InStage md5 sn p"
  by (simp add: InStage_def)

lemma decimal_stages: "decimal ''1'' = 1" "decimal ''10'' = 10" "decimal ''50'' = 50" "decimal ''100'' = 100"
  by (simp_all add: decimal_def digit_val_def code_def)

lemma StagePct_some:
  "StagePct s = Some p \<Longrightarrow> s \<in> set Stages \<and> p = pct_of s"
  by (auto simp: StagePct_def Stages_def split: if_splits)

lemma pct_of_order:
  "pct_of ''0.1'' \<le> pct_of ''1'' \<and> pct_of ''1'' \<le> pct_of ''10'' \<and> pct_of ''10'' \<le> pct_of ''50'' \<and>
   pct_of ''50'' \<le> pct_of ''100'' \<and> 100 \<le> pct_of ''100'' \<and> 0 < pct_of ''0.1''"
  using rnd64_le_1 [of "1 / 10"] rnd64_pos [of "1 / 10"]
  by (simp add: pct_of_def decimal_stages)

lemma NextStage_some:
  "NextStage s = Some t \<longleftrightarrow> (s, t) \<in> {(''0.1'', ''1''), (''1'', ''10''), (''10'', ''50''), (''50'', ''100'')}"
  by (auto simp: NextStage_def Stages_def)

lemma NextStage_none: "s \<in> set Stages \<Longrightarrow> NextStage s = None \<longleftrightarrow> s = ''100''"
  by (auto simp: NextStage_def Stages_def)

lemma Stages_nth_next:
  "n < 5 \<Longrightarrow> ExpectedNextStage (if n = 0 then None else Some (Stages ! (n - 1))) = Some (Stages ! n)"
proof -
  assume "n < 5"
  then consider "n = 0" | "n = 1" | "n = 2" | "n = 3" | "n = 4" by linarith
  then show ?thesis
    by cases (simp_all add: ExpectedNextStage_def FirstStage_def NextStage_def Stages_def)
qed

lemma Stages_last: "ExpectedNextStage (Some (Stages ! 4)) = None"
  by (simp add: ExpectedNextStage_def NextStage_def Stages_def)

text \<open>
  the stages nest. A device sampled at some stage is sampled at every later stage, up to the full one,
  which samples every device; the double rounding of the thresholds does not disturb this.
\<close>

theorem stages_cumulative:
  assumes "NextStage s = Some t" "StagePct s = Some p" "StagePct t = Some q"
  shows "(InStage md5 sn p \<longrightarrow> InStage md5 sn q) \<and> (t = ''100'' \<longrightarrow> InStage md5 sn q)"
proof -
  from StagePct_some assms have "p = pct_of s" "q = pct_of t" by blast+
  moreover have "pct_of s \<le> pct_of t" "t = ''100'' \<longrightarrow> 100 \<le> pct_of t"
    using assms(1) pct_of_order by (auto simp: NextStage_some)
  ultimately show ?thesis using InStage_mono InStage_full by blast
qed

theorem stages_cumulative_witness:
  "InStage (\<lambda>_. replicate 16 0) ''SN01'' (pct_of ''0.1'') \<and> InStage (\<lambda>_. replicate 16 0) ''SN01'' (pct_of ''1'')"
proof -
  have p: "StagePct ''0.1'' = Some (pct_of ''0.1'')" "StagePct ''1'' = Some (pct_of ''1'')"
    by (simp_all add: StagePct_def Stages_def)
  have n: "NextStage ''0.1'' = Some ''1''" by (simp add: NextStage_some)
  have "0 < rnd64 (pct_of ''0.1'' / 100)" "pct_of ''0.1'' \<le> 1"
    using pct_of_order rnd64_le_1 [of "1 / 10"] by (auto intro!: rnd64_pos simp: pct_of_def)
  then have "InStage (\<lambda>_. replicate 16 0) ''SN01'' (pct_of ''0.1'')"
    using pct_of_order by (simp add: InStage_def Bucket_def eval_nat_numeral)
  with stages_cumulative [OF n p, of "\<lambda>_. replicate 16 0" "''SN01''"] show ?thesis by blast
qed

subsection \<open>The fuse\<close>

definition MinFuseSamples :: int where "MinFuseSamples = 50"
definition DefaultMinAbsFail :: int where "DefaultMinAbsFail = 5"

text \<open>
  The counters are Go \<open>int\<close>s; their conversion to \<open>float64\<close> is exact below \<open>2 ^ 53\<close>, far above any
  number of devices.
\<close>

definition ShouldFuse :: "int \<Rightarrow> int \<Rightarrow> rat \<Rightarrow> int \<Rightarrow> bool" where
  "ShouldFuse ok fail threshold minSamples =
     (if ok < 0 \<or> fail < 0 then False
      else let samples = ok + fail in
        if samples < minSamples \<or> samples = 0 then False
        else rnd64 (of_int fail / of_int samples) > threshold)"

definition FailRatio :: "int \<Rightarrow> int \<Rightarrow> rat" where
  "FailRatio ok fail = (if ok + fail \<le> 0 then 0 else rnd64 (of_int fail / of_int (ok + fail)))"

definition ShouldFuseAbs :: "int \<Rightarrow> int \<Rightarrow> rat \<Rightarrow> int \<Rightarrow> int \<Rightarrow> bool" where
  "ShouldFuseAbs ok fail threshold minSamples minAbsFail =
     (if ok < 0 \<or> fail < 0 then False
      else if minAbsFail > 0 \<and> fail \<ge> minAbsFail then True
      else ShouldFuse ok fail threshold minSamples)"

text \<open>
  what blows the fuse. With non-negative counters and a threshold stored as a decimal \<open>d\<close>, the ratio
  rule can only fire on enough samples and when the exact failure ratio is strictly above \<open>d\<close>
  (rounding never turns an equal ratio into a larger one); the absolute rule fires
  exactly at its count, whatever the sample size.
\<close>

theorem fuse_exact:
  assumes "0 \<le> ok" "0 \<le> fail"
    and "ShouldFuseAbs ok fail (rnd64 d) minSamples minAbsFail"
  shows "(0 < minAbsFail \<and> minAbsFail \<le> fail) \<or>
    (minSamples \<le> ok + fail \<and> 0 < ok + fail \<and> d < of_int fail / of_int (ok + fail))"
proof (cases "0 < minAbsFail \<and> minAbsFail \<le> fail")
  case False
  then have s: "minSamples \<le> ok + fail" "ok + fail \<noteq> 0"
      "rnd64 d < rnd64 (of_int fail / of_int (ok + fail))"
    using assms by (auto simp: ShouldFuseAbs_def ShouldFuse_def Let_def split: if_splits)
  have "of_int fail / of_int (ok + fail) \<le> (1::rat)"
    using s(2) assms by (simp add: divide_le_eq_1)
  then have "d < of_int fail / of_int (ok + fail)" using s(3) rnd64_less by blast
  with s assms show ?thesis by auto
qed simp

theorem fuse_exact_witness: "(1::rat) / 50 < 3 / 50 \<and> ShouldFuseAbs 47 3 (rnd64 0) 50 5"
proof -
  have pos: "0 < rnd64 (3 / 50)" by (rule rnd64_pos) auto
  then have f: "ShouldFuseAbs 47 3 (rnd64 0) 50 5"
    by (simp add: ShouldFuseAbs_def ShouldFuse_def Let_def)
  from fuse_exact [OF _ _ f] show ?thesis using f by simp
qed

subsection \<open>Phases\<close>

definition IsTerminal :: "string \<Rightarrow> bool" where
  "IsTerminal phase \<longleftrightarrow> phase \<in> set [''success'', ''failed'', ''rolled_back'']"

definition ValidPhase :: "string \<Rightarrow> bool" where
  "ValidPhase phase \<longleftrightarrow>
     phase \<in> set [''notified'', ''downloading'', ''verifying'', ''success'', ''failed'', ''rolled_back'']"

definition TerminalStates :: "string list" where
  "TerminalStates = [''success'', ''failed'', ''rolled_back'']"

definition StaleStatuses :: "string list" where
  "StaleStatuses = [''notified'', ''downloading'', ''verifying'']"

definition IsStale :: "string \<Rightarrow> time \<Rightarrow> time \<Rightarrow> duration \<Rightarrow> bool" where
  "IsStale status updatedAt now olderThan =
     (if olderThan \<le> 0 then False
      else if status \<in> set StaleStatuses then updatedAt < now - olderThan
      else False)"

lemma terminal_states: "IsTerminal p \<longleftrightarrow> p \<in> set TerminalStates"
  by (simp add: IsTerminal_def TerminalStates_def)

lemma stale_not_terminal: "s \<in> set StaleStatuses \<Longrightarrow> \<not> IsTerminal s"
  by (auto simp: StaleStatuses_def IsTerminal_def)

end
