(* ===== verification/Ota.thy ===== *)
theory Ota
  imports Rollout MaintWindow
begin

text \<open>
  The OTA service, \<open>internal/ota/service.go\<close> and the sweeper of \<open>stale.go\<close>, over the tables
  \<open>iot_global.firmware\<close>, \<open>iot_global.ota_batch\<close>, \<open>iot_shard.ota_device_task\<close> and \<open>iot_shard.device\<close>. A
  table is the list of its rows in the order of their identity column.

  Each handler returns its result and the service afterwards. What the database does is
  an argument: \<open>fails\<close> names the statements that report an error, and \<open>commit\<close> says how a
  commit ends, including the one that is reported lost although it took effect.
  A transaction works on a copy of the tables that replaces them at the commit. JSON
  documents are given decoded.
\<close>

subsection \<open>Tables\<close>

record Firmware =
  fw_id :: int
  fw_product :: string
  fw_version :: string
  fw_url :: string
  fw_size :: int
  fw_sha :: string
  fw_sig :: string

record Batch =
  bid :: int
  bfirmware :: int
  bparent :: "int option"
  bstage :: string
  bstatus :: string
  target_total :: int
  ok_count :: int
  fail_count :: int
  fail_ratio_fuse :: rat
  created_by :: string
  approved_by :: "string option"
  bpolicy :: policy
  paused_at :: "time option"
  fused_at :: "time option"

record Task =
  tid :: int
  tbatch :: int
  tsn :: string
  tstatus :: string
  retry :: int
  error_code :: "string option"
  updated_at :: time

record DeviceRow =
  dsn :: string
  dproduct :: string
  dfw :: "string option"

record Db =
  firmwares :: "Firmware list"
  batches :: "Batch list"
  tasks :: "Task list"
  devices :: "DeviceRow list"
  next_firmware :: int
  next_batch :: int
  next_task :: int

record Service =
  DB :: Db
  M :: metrics
  MinSamples :: int
  MinAbsFail :: int

datatype ota_error = ErrNeedsApproval | ErrNotFound | ErrConflict | ErrBadParam | DbError

type_synonym 'a outcome = "(ota_error + 'a) \<times> Service"

datatype commit_result = CommitOk | CommitFailed | CommitLost

record Faults =
  fails :: "string \<Rightarrow> bool"
  commit :: commit_result

definition no_faults :: Faults where
  "no_faults = \<lparr>fails = (\<lambda>_. False), commit = CommitOk\<rparr>"

text \<open>The end of a transaction: whether it is reported done, and the tables it leaves.\<close>

definition tx_end :: "commit_result \<Rightarrow> Db \<Rightarrow> Db \<Rightarrow> bool \<times> Db" where
  "tx_end c old new = (c = CommitOk, if c = CommitFailed then old else new)"

definition metric :: "string \<Rightarrow> Service \<Rightarrow> Service" where
  "metric name s = s\<lparr>M := Inc name (M s)\<rparr>"

definition metric_add :: "string \<Rightarrow> int \<Rightarrow> Service \<Rightarrow> Service" where
  "metric_add name n s = s\<lparr>M := Add name n (M s)\<rparr>"

lemma metric_frame [simp]:
  "DB (metric n s) = DB s" "DB (metric_add n k s) = DB s"
  "MinSamples (metric n s) = MinSamples s" "MinAbsFail (metric n s) = MinAbsFail s"
  "MinSamples (metric_add n k s) = MinSamples s" "MinAbsFail (metric_add n k s) = MinAbsFail s"
  by (simp_all add: metric_def metric_add_def)

definition nilIfEmpty :: "string \<Rightarrow> string option" where
  "nilIfEmpty s = (if s = [] then None else Some s)"

subsection \<open>Firmware\<close>

record FirmwareReq =
  ProductKey :: string
  FVersion :: string
  FullURL :: string
  FullSize :: int
  SHA256 :: string
  Signature :: string

definition validate :: "FirmwareReq \<Rightarrow> bool" where
  "validate r \<longleftrightarrow>
     \<not> (ProductKey r = [] \<or> FVersion r = [] \<or> FullURL r = [] \<or> SHA256 r = [] \<or> Signature r = []) \<and>
     length (SHA256 r) = 64 \<and> 0 < FullSize r"

text \<open>\<open>products\<close> is the table the foreign key refers to.\<close>

definition CreateFirmware :: "Faults \<Rightarrow> string set \<Rightarrow> FirmwareReq \<Rightarrow> Service \<Rightarrow> int outcome" where
  "CreateFirmware flt products r s =
     (if \<not> validate r then (Inl ErrBadParam, s)
      else if fails flt ''insert firmware'' then (Inl DbError, s)
      else if ProductKey r \<notin> products then (Inl ErrBadParam, s)
      else if list_ex (\<lambda>f. fw_product f = ProductKey r \<and> fw_version f = FVersion r) (firmwares (DB s))
      then (Inl ErrConflict, s)
      else let db = DB s; i = next_firmware db;
        f = \<lparr>fw_id = i, fw_product = ProductKey r, fw_version = FVersion r, fw_url = FullURL r,
             fw_size = FullSize r, fw_sha = SHA256 r, fw_sig = Signature r\<rparr>
        in (Inr i, metric ''firmwares_created''
             (s\<lparr>DB := db\<lparr>firmwares := firmwares db @ [f], next_firmware := i + 1\<rparr>\<rparr>)))"

subsection \<open>Creating a batch\<close>

text \<open>\<open>FailRatioFuse\<close> is the value of the \<open>float64\<close> in the request.\<close>

record BatchReq =
  FirmwareID :: int
  Stage :: string
  CreatedBy :: string
  ApprovedBy :: string
  FailRatioFuse :: "rat option"
  ExplicitSNs :: "string list"
  ParentBatchID :: "int option"
  ReqPolicy :: policy

definition DefaultFuseRatio :: rat where "DefaultFuseRatio = rnd64 (1 / 50)"

text \<open>The column is \<open>NUMERIC(5,4)\<close>: four decimals, halves rounded up.\<close>

definition numeric4 :: "rat \<Rightarrow> rat" where
  "numeric4 x = of_int \<lfloor>x * 10000 + 1 / 2\<rfloor> / 10000"

definition find_batch :: "Db \<Rightarrow> int \<Rightarrow> Batch option" where
  "find_batch db i = find (\<lambda>b. bid b = i) (batches db)"

definition GetBatch :: "Faults \<Rightarrow> int \<Rightarrow> Service \<Rightarrow> ota_error + Batch" where
  "GetBatch flt i s =
     (if fails flt ''get batch'' then Inl DbError
      else case find_batch (DB s) i of None \<Rightarrow> Inl ErrNotFound | Some b \<Rightarrow> Inr b)"

text \<open>The latest platform batch of a firmware: the last row in identity order.\<close>

definition platform_batches :: "Db \<Rightarrow> int \<Rightarrow> Batch list" where
  "platform_batches db fw = filter (\<lambda>b. bfirmware b = fw \<and> bparent b = None) (batches db)"

definition latest_stage :: "Db \<Rightarrow> int \<Rightarrow> string option" where
  "latest_stage db fw =
     (let bs = platform_batches db fw in if bs = [] then None else Some (bstage (last bs)))"

fun dedup_from :: "string set \<Rightarrow> string list \<Rightarrow> string list" where
  "dedup_from seen [] = []"
| "dedup_from seen (sn # sns) =
     (if sn = [] \<or> sn \<in> seen then dedup_from seen sns else sn # dedup_from (insert sn seen) sns)"

definition dedupSNs :: "string list \<Rightarrow> string list" where
  "dedupSNs sns = dedup_from {} sns"

text \<open>Both selections read \<open>iot_shard.device\<close> in serial number order, which its primary key makes distinct.\<close>

definition existingSNs :: "Db \<Rightarrow> string list \<Rightarrow> string list" where
  "existingSNs db sns = filter (\<lambda>sn. sn \<in> set (dedupSNs sns)) (map dsn (devices db))"

definition targeted :: "Db \<Rightarrow> int \<Rightarrow> string \<Rightarrow> bool" where
  "targeted db fw sn \<longleftrightarrow>
     list_ex (\<lambda>t. tsn t = sn \<and> list_ex (\<lambda>b. bid b = tbatch t \<and> bfirmware b = fw) (batches db)) (tasks db)"

definition sampleTargets ::
  "(string \<Rightarrow> byte list) \<Rightarrow> Db \<Rightarrow> string \<Rightarrow> string \<Rightarrow> int \<Rightarrow> rat \<Rightarrow> string list" where
  "sampleTargets md5 db productKey version fw pct =
     filter (\<lambda>sn. InStage md5 sn pct)
       (map dsn (filter (\<lambda>d. dproduct d = productKey \<and> dfw d \<noteq> Some version \<and> \<not> targeted db fw (dsn d))
         (devices db)))"

text \<open>\<open>INSERT ... SELECT unnest(...) ON CONFLICT DO NOTHING\<close> under \<open>UNIQUE (batch_id, sn)\<close>.\<close>

definition insert_task :: "time \<Rightarrow> int \<Rightarrow> string \<Rightarrow> Db \<Rightarrow> Db" where
  "insert_task now b sn db =
     (if list_ex (\<lambda>t. tbatch t = b \<and> tsn t = sn) (tasks db) then db\<lparr>next_task := next_task db + 1\<rparr>
      else db\<lparr>tasks := tasks db @ [\<lparr>tid = next_task db, tbatch = b, tsn = sn, tstatus = ''pending'',
             retry = 0, error_code = None, updated_at = now\<rparr>], next_task := next_task db + 1\<rparr>)"

definition insert_tasks :: "time \<Rightarrow> int \<Rightarrow> string list \<Rightarrow> Db \<Rightarrow> Db" where
  "insert_tasks now b sns db = fold (insert_task now b) sns db"

text \<open>
  The stage, approver and fuse of the new batch: inherited from the parent, or checked against the
  chain of platform batches. \<open>snap\<close> is the database as the \<open>SELECT ... FOR UPDATE\<close> sees it.
\<close>

definition resolve_batch ::
  "Faults \<Rightarrow> Db \<Rightarrow> BatchReq \<Rightarrow> rat \<Rightarrow> (ota_error \<times> bool) + (string \<times> string \<times> rat)" where
  "resolve_batch flt snap r fuse =
     (if fails flt ''select parent'' then Inl (DbError, False)
      else case ParentBatchID r of
        Some pid \<Rightarrow>
          (case find_batch snap pid of
             None \<Rightarrow> Inl (ErrNotFound, False)
           | Some p \<Rightarrow>
               if bparent p \<noteq> None then Inl (ErrBadParam, False)
               else if bfirmware p \<noteq> FirmwareID r then Inl (ErrBadParam, False)
               else Inr (if Stage r = [] then bstage p else Stage r,
                      (case approved_by p of
                         Some a \<Rightarrow> if ApprovedBy r = [] then a else ApprovedBy r
                       | None \<Rightarrow> ApprovedBy r),
                      rnd64 (fail_ratio_fuse p)))
      | None \<Rightarrow>
          (case ExpectedNextStage (latest_stage snap (FirmwareID r)) of
             None \<Rightarrow> Inl (ErrConflict, False)
           | Some expected \<Rightarrow>
               if Stage r \<noteq> expected then Inl (ErrConflict, True)
               else Inr (Stage r, ApprovedBy r, fuse)))"

definition new_batch :: "int \<Rightarrow> BatchReq \<Rightarrow> string \<Rightarrow> string \<Rightarrow> rat \<Rightarrow> Batch" where
  "new_batch i r stage approver fuse =
     \<lparr>bid = i, bfirmware = FirmwareID r, bparent = ParentBatchID r, bstage = stage, bstatus = ''running'',
      target_total = 0, ok_count = 0, fail_count = 0, fail_ratio_fuse = numeric4 fuse,
      created_by = CreatedBy r, approved_by = nilIfEmpty approver, bpolicy = ReqPolicy r,
      paused_at = None, fused_at = None\<rparr>"

text \<open>The constraint \<open>ck_full_stage_approved\<close>.\<close>

definition ck_full_stage_approved :: "Batch \<Rightarrow> bool" where
  "ck_full_stage_approved b \<longleftrightarrow> bstage b \<noteq> ''100'' \<or> approved_by b \<noteq> None"

text \<open>The fuse threshold asked for: \<open>None\<close> when it is out of range.\<close>

definition requested_fuse :: "BatchReq \<Rightarrow> rat option" where
  "requested_fuse r =
     (case FailRatioFuse r of
        None \<Rightarrow> Some DefaultFuseRatio
      | Some f \<Rightarrow> if f < 0 \<or> f > 1 then None else Some f)"

text \<open>The devices of the new batch, and the tables once its row, its tasks and its total are written.\<close>

definition batch_targets ::
  "(string \<Rightarrow> byte list) \<Rightarrow> BatchReq \<Rightarrow> Firmware \<Rightarrow> rat \<Rightarrow> Db \<Rightarrow> string list" where
  "batch_targets md5 r fw pct db =
     (if ExplicitSNs r \<noteq> [] then existingSNs db (ExplicitSNs r)
      else sampleTargets md5 db (fw_product fw) (fw_version fw) (FirmwareID r) pct)"

definition add_batch :: "Batch \<Rightarrow> Db \<Rightarrow> Db" where
  "add_batch b db = db\<lparr>batches := batches db @ [b], next_batch := next_batch db + 1\<rparr>"

definition fill_batch :: "time \<Rightarrow> int \<Rightarrow> string list \<Rightarrow> Db \<Rightarrow> Db" where
  "fill_batch now i targets db =
     (let db2 = insert_tasks now i targets db in
      db2\<lparr>batches := update_where (\<lambda>b. bid b = i) (\<lambda>b. b\<lparr>target_total := int (length targets)\<rparr>) (batches db2)\<rparr>)"

text \<open>From the insertion of the batch row to the commit.\<close>

definition insert_batch ::
  "Faults \<Rightarrow> (string \<Rightarrow> byte list) \<Rightarrow> time \<Rightarrow> BatchReq \<Rightarrow> Firmware \<Rightarrow> string \<Rightarrow> string \<Rightarrow> rat \<Rightarrow> rat \<Rightarrow>
   Service \<Rightarrow> Batch outcome" where
  "insert_batch flt md5 now r fw stage approver fuse pct s =
     (let db = DB s; i = next_batch db; b = new_batch i r stage approver fuse in
      if fails flt ''insert batch'' then (Inl DbError, s)
      else if \<not> ck_full_stage_approved b
      then (Inl ErrNeedsApproval, metric ''batches_rejected_unapproved'' s)
      else let db1 = add_batch b db;
          targets = batch_targets md5 r fw pct db1;
          miss = int (length (dedupSNs (ExplicitSNs r))) - int (length targets);
          s1 = (if ExplicitSNs r \<noteq> [] \<and> miss > 0 then metric_add ''explicit_sns_unknown'' miss s else s)
        in if fails flt ''targets'' then (Inl DbError, s)
           else if targets \<noteq> [] \<and> fails flt ''insert tasks'' then (Inl DbError, s1)
           else if fails flt ''update total'' then (Inl DbError, s1)
           else (case tx_end (commit flt) db (fill_batch now i targets db1) of
                   (False, db') \<Rightarrow> (Inl DbError, s1\<lparr>DB := db'\<rparr>)
                 | (True, db') \<Rightarrow>
                     (let s2 = metric_add ''tasks_targeted'' (int (length targets))
                                 (metric ''batches_created'' (s1\<lparr>DB := db'\<rparr>))
                      in (GetBatch flt i s2, s2))))"

definition CreateBatch_from ::
  "Db \<Rightarrow> Faults \<Rightarrow> tzdb \<Rightarrow> (string \<Rightarrow> byte list) \<Rightarrow> time \<Rightarrow> BatchReq \<Rightarrow> Service \<Rightarrow> Batch outcome" where
  "CreateBatch_from snap flt tzdb md5 now r s =
     (if FirmwareID r \<le> 0 \<or> CreatedBy r = [] then (Inl ErrBadParam, s)
      else case ParseWindow tzdb (ReqPolicy r) of
        Inl _ \<Rightarrow> (Inl ErrBadParam, s)
      | Inr _ \<Rightarrow>
          (case requested_fuse r of
             None \<Rightarrow> (Inl ErrBadParam, s)
           | Some fuse \<Rightarrow>
               if fails flt ''begin'' \<or> fails flt ''select firmware'' then (Inl DbError, s)
               else case find (\<lambda>f. fw_id f = FirmwareID r) (firmwares (DB s)) of
                 None \<Rightarrow> (Inl ErrNotFound, s)
               | Some fw \<Rightarrow>
                   (case resolve_batch flt snap r fuse of
                      Inl (e, order) \<Rightarrow>
                        (Inl e, if order then metric ''batches_rejected_stage_order'' s else s)
                    | Inr (stage, approver, f) \<Rightarrow>
                        (case StagePct stage of
                           None \<Rightarrow> (Inl ErrBadParam, s)
                         | Some pct \<Rightarrow> insert_batch flt md5 now r fw stage approver f pct s))))"

text \<open>Without a concurrent creation the statement sees the current tables.\<close>

definition CreateBatch ::
  "Faults \<Rightarrow> tzdb \<Rightarrow> (string \<Rightarrow> byte list) \<Rightarrow> time \<Rightarrow> BatchReq \<Rightarrow> Service \<Rightarrow> Batch outcome" where
  "CreateBatch flt tzdb md5 now r s = CreateBatch_from (DB s) flt tzdb md5 now r s"

subsection \<open>Looking at and steering a batch\<close>

definition tasks_of :: "Db \<Rightarrow> int \<Rightarrow> Task list" where
  "tasks_of db i = filter (\<lambda>t. tbatch t = i) (tasks db)"

definition taskHistogram :: "Db \<Rightarrow> int \<Rightarrow> string \<Rightarrow> nat" where
  "taskHistogram db i st = affected (\<lambda>t. tstatus t = st) (tasks_of db i)"

record BatchView =
  the_batch :: Batch
  fail_ratio :: rat
  task_status :: "string \<Rightarrow> nat"
  AllTerminal :: bool

definition GetBatchView :: "Faults \<Rightarrow> int \<Rightarrow> Service \<Rightarrow> ota_error + BatchView" where
  "GetBatchView flt i s =
     (case GetBatch flt i s of
        Inl e \<Rightarrow> Inl e
      | Inr b \<Rightarrow>
          if fails flt ''histogram'' then Inl DbError
          else Inr \<lparr>the_batch = b, fail_ratio = FailRatio (ok_count b) (fail_count b),
                 task_status = taskHistogram (DB s) i,
                 AllTerminal = list_all (\<lambda>t. IsTerminal (tstatus t)) (tasks_of (DB s) i)\<rparr>)"

text \<open>\<open>UPDATE ota_batch SET ... WHERE id = i AND status IN froms\<close>: the rows it changes, and the tables after.\<close>

definition update_batch :: "int \<Rightarrow> string list \<Rightarrow> (Batch \<Rightarrow> Batch) \<Rightarrow> Db \<Rightarrow> nat \<times> Db" where
  "update_batch i froms f db =
     (affected (\<lambda>b. bid b = i \<and> bstatus b \<in> set froms) (batches db),
      db\<lparr>batches := update_where (\<lambda>b. bid b = i \<and> bstatus b \<in> set froms) f (batches db)\<rparr>)"

definition transition ::
  "Faults \<Rightarrow> int \<Rightarrow> string list \<Rightarrow> (Batch \<Rightarrow> Batch) \<Rightarrow> string \<Rightarrow> Service \<Rightarrow> unit outcome" where
  "transition flt i froms f name s =
     (if fails flt ''update batch'' then (Inl DbError, s)
      else let (n, db) = update_batch i froms f (DB s) in
        if n = 0 then
          (case GetBatch flt i s of Inl e \<Rightarrow> (Inl e, s) | Inr _ \<Rightarrow> (Inl ErrConflict, s))
        else (Inr (), metric name (s\<lparr>DB := db\<rparr>)))"

definition Pause :: "Faults \<Rightarrow> time \<Rightarrow> int \<Rightarrow> Service \<Rightarrow> unit outcome" where
  "Pause flt now i s =
     transition flt i [''running''] (\<lambda>b. b\<lparr>bstatus := ''paused'', paused_at := Some now\<rparr>) ''batches_paused'' s"

definition Resume :: "Faults \<Rightarrow> int \<Rightarrow> Service \<Rightarrow> unit outcome" where
  "Resume flt i s =
     transition flt i [''paused'', ''fused''] (\<lambda>b. b\<lparr>bstatus := ''running''\<rparr>) ''batches_resumed'' s"

definition Advance ::
  "Faults \<Rightarrow> tzdb \<Rightarrow> (string \<Rightarrow> byte list) \<Rightarrow> time \<Rightarrow> int \<Rightarrow> string \<Rightarrow> string \<Rightarrow> Service \<Rightarrow> Batch outcome" where
  "Advance flt tzdb md5 now i createdBy0 approvedBy s =
     (case GetBatchView flt i s of
        Inl e \<Rightarrow> (Inl e, s)
      | Inr v \<Rightarrow>
          (case NextStage (bstage (the_batch v)) of
             None \<Rightarrow> (Inl ErrConflict, s)
           | Some nxt \<Rightarrow>
               if bstatus (the_batch v) = ''fused'' then (Inl ErrConflict, s)
               else if \<not> AllTerminal v then (Inl ErrConflict, s)
               else if fail_ratio v > rnd64 (fail_ratio_fuse (the_batch v)) then (Inl ErrConflict, s)
               else let createdBy = (if createdBy0 = [] then created_by (the_batch v) else createdBy0);
                   req = \<lparr>FirmwareID = bfirmware (the_batch v), Stage = nxt, CreatedBy = createdBy,
                     ApprovedBy = approvedBy, FailRatioFuse = Some (rnd64 (fail_ratio_fuse (the_batch v))),
                     ExplicitSNs = [], ParentBatchID = None, ReqPolicy = NoPolicy\<rparr>
                 in case CreateBatch flt tzdb md5 now req s of
                      (Inl e, s1) \<Rightarrow> (Inl e, s1)
                    | (Inr nb, s1) \<Rightarrow>
                        (let s2 = (if fails flt ''complete'' then s1
                              else s1\<lparr>DB := snd (update_batch i [''running'', ''paused'']
                                     (\<lambda>b. b\<lparr>bstatus := ''completed''\<rparr>) (DB s1))\<rparr>)
                         in (Inr nb, metric ''batches_advanced'' s2))))"

subsection \<open>Progress of a device\<close>

record progressPayload =
  BatchID :: int
  Phase :: string
  ErrorCode :: string

datatype ProgressOutcome = Dropped | Ignored | Updated | TerminalCounted | Fused

record phaseChange =
  cbatch :: int
  csn :: string
  cphase :: string
  cerrorCode :: string
  retryInc :: int
  onlyIfStaleFor :: duration
  metricPrefix :: string

text \<open>The task row the change applies to.\<close>

definition applies :: "time \<Rightarrow> phaseChange \<Rightarrow> Task \<Rightarrow> bool" where
  "applies now c t \<longleftrightarrow> tbatch t = cbatch c \<and> tsn t = csn c \<and> tstatus t \<notin> set TerminalStates \<and>
     (onlyIfStaleFor c \<le> 0 \<or> updated_at t < now - onlyIfStaleFor c)"

definition moved :: "time \<Rightarrow> phaseChange \<Rightarrow> Task \<Rightarrow> Task" where
  "moved now c t = t\<lparr>tstatus := cphase c, retry := retry t + retryInc c,
     error_code := nilIfEmpty (cerrorCode c), updated_at := now\<rparr>"

text \<open>The counting part: the tables after it, and the outcome (\<open>None\<close>: the batch does not count).\<close>

definition count_terminal :: "Service \<Rightarrow> time \<Rightarrow> phaseChange \<Rightarrow> Db \<Rightarrow> Db \<times> ProgressOutcome option" where
  "count_terminal s now c db =
     (let okInc = (if cphase c = ''success'' then 1 else 0); failInc = (if cphase c = ''success'' then 0 else 1);
          (n, db1) = update_batch (cbatch c) [''running'', ''paused'']
             (\<lambda>b. b\<lparr>ok_count := ok_count b + okInc, fail_count := fail_count b + failInc\<rparr>) db
      in if n = 0 then (db, None)
         else case find_batch db1 (cbatch c) of
           None \<Rightarrow> (db1, None)
         | Some b \<Rightarrow>
             if bstatus b = ''running'' \<and>
                ShouldFuseAbs (ok_count b) (fail_count b) (rnd64 (fail_ratio_fuse b)) (MinSamples s) (MinAbsFail s)
             then (case update_batch (cbatch c) [''running''] (\<lambda>b. b\<lparr>bstatus := ''fused'', fused_at := Some now\<rparr>) db1 of
                     (k, db2) \<Rightarrow> (db2, Some (if k = 1 then Fused else TerminalCounted)))
             else (db1, Some TerminalCounted))"

definition applyPhase :: "Faults \<Rightarrow> time \<Rightarrow> phaseChange \<Rightarrow> Service \<Rightarrow> ProgressOutcome outcome" where
  "applyPhase flt now c s =
     (if fails flt ''begin'' \<or> fails flt ''update task'' then (Inl DbError, s)
      else let db = DB s; n = affected (applies now c) (tasks db);
          db1 = db\<lparr>tasks := update_where (applies now c) (moved now c) (tasks db)\<rparr>
        in if n = 0 then
             (if commit flt = CommitOk then Inr Ignored else Inl DbError, metric (metricPrefix c @ ''_ignored'') s)
           else if \<not> IsTerminal (cphase c) then
             (case tx_end (commit flt) db db1 of (ok, db') \<Rightarrow>
                (if ok then Inr Updated else Inl DbError, metric (metricPrefix c @ ''_updated'') (s\<lparr>DB := db'\<rparr>)))
           else if fails flt ''update counts'' then (Inl DbError, s)
           else (case count_terminal s now c db1 of
               (db2, None) \<Rightarrow>
                 (case tx_end (commit flt) db db2 of (ok, db') \<Rightarrow>
                    (if ok then Inr TerminalCounted else Inl DbError,
                     metric (metricPrefix c @ ''_terminal_uncounted'') (s\<lparr>DB := db'\<rparr>)))
             | (db2, Some out) \<Rightarrow>
                 if out = Fused \<and> fails flt ''fuse batch'' then (Inl DbError, s)
                 else (case tx_end (commit flt) db db2 of
                         (False, db') \<Rightarrow> (Inl DbError, s\<lparr>DB := db'\<rparr>)
                       | (True, db') \<Rightarrow>
                           (let s1 = metric (metricPrefix c @ ''_terminal'') (s\<lparr>DB := db'\<rparr>)
                            in (Inr out, if out = Fused then metric ''batches_fused'' s1 else s1)))))"

text \<open>\<open>p\<close> is the decoded payload, \<open>None\<close> if it is not JSON of that shape.\<close>

definition HandleProgress ::
  "Faults \<Rightarrow> time \<Rightarrow> string \<Rightarrow> progressPayload option \<Rightarrow> Service \<Rightarrow> ProgressOutcome outcome" where
  "HandleProgress flt now sn payload s0 =
     (let s = metric ''progress_total'' s0 in
      case payload of
        None \<Rightarrow> (Inr Dropped, metric ''progress_bad'' s)
      | Some p \<Rightarrow>
          if BatchID p \<le> 0 \<or> \<not> ValidPhase (Phase p) then (Inr Dropped, metric ''progress_bad'' s)
          else applyPhase flt now
            \<lparr>cbatch = BatchID p, csn = sn, cphase = Phase p, cerrorCode = ErrorCode p,
             retryInc = (if Phase p = ''failed'' then 1 else 0), onlyIfStaleFor = 0,
             metricPrefix = ''progress''\<rparr> s)"

subsection \<open>The sweeper\<close>

text \<open>The keys of the oldest 1000 stale tasks.\<close>

definition stale_keys :: "time \<Rightarrow> duration \<Rightarrow> Db \<Rightarrow> (int \<times> string) list" where
  "stale_keys now olderThan db =
     map (\<lambda>t. (tbatch t, tsn t))
       (take 1000 (sort_key updated_at
         (filter (\<lambda>t. tstatus t \<in> set StaleStatuses \<and> updated_at t < now - olderThan) (tasks db))))"

definition stale_change :: "duration \<Rightarrow> int \<times> string \<Rightarrow> phaseChange" where
  "stale_change olderThan k =
     \<lparr>cbatch = fst k, csn = snd k, cphase = ''failed'', cerrorCode = ''STALE_TIMEOUT'', retryInc = 0,
      onlyIfStaleFor = olderThan, metricPrefix = ''stale''\<rparr>"

text \<open>One transaction per key, with its own faults; the first error ends the round.\<close>

fun sweep_keys ::
  "(int \<times> string \<Rightarrow> Faults) \<Rightarrow> time \<Rightarrow> duration \<Rightarrow> (int \<times> string) list \<Rightarrow> nat \<Rightarrow> Service \<Rightarrow>
   (nat \<times> ota_error option) \<times> Service" where
  "sweep_keys flt now olderThan [] n s = ((n, None), s)"
| "sweep_keys flt now olderThan (k # ks) n s =
     (case applyPhase (flt k) now (stale_change olderThan k) s of
        (Inl e, s1) \<Rightarrow> ((n, Some e), s1)
      | (Inr out, s1) \<Rightarrow>
          if out = TerminalCounted \<or> out = Fused
          then sweep_keys flt now olderThan ks (n + 1) (metric ''stale_failed'' s1)
          else sweep_keys flt now olderThan ks n s1)"

definition SweepStale ::
  "bool \<Rightarrow> (int \<times> string \<Rightarrow> Faults) \<Rightarrow> time \<Rightarrow> duration \<Rightarrow> Service \<Rightarrow> (nat \<times> ota_error option) \<times> Service" where
  "SweepStale select_fails flt now olderThan s =
     (if olderThan \<le> 0 then ((0, None), s)
      else if select_fails then ((0, Some DbError), s)
      else sweep_keys flt now olderThan (stale_keys now olderThan (DB s)) 0 s)"

subsection \<open>Dispatch\<close>

record otaCmd =
  Topic :: string
  CBatch :: int
  URL :: string
  Size :: int
  CSHA :: string
  Sig :: string

definition pendingTasks :: "Db \<Rightarrow> int \<Rightarrow> nat \<Rightarrow> Task list" where
  "pendingTasks db b limit = take limit (filter (\<lambda>t. tbatch t = b \<and> tstatus t = ''pending'') (tasks db))"

definition mark_notified :: "time \<Rightarrow> int \<Rightarrow> Db \<Rightarrow> nat \<times> Db" where
  "mark_notified now i db =
     (affected (\<lambda>t. tid t = i \<and> tstatus t = ''pending'') (tasks db),
      db\<lparr>tasks := update_where (\<lambda>t. tid t = i \<and> tstatus t = ''pending'')
            (\<lambda>t. t\<lparr>tstatus := ''notified'', updated_at := now\<rparr>) (tasks db)\<rparr>)"

text \<open>
  The state of a round: the service, the commands published so far, and the number dispatched. \<open>ok t\<close>
  says how the limiter, the broker and the update answer for a task.
\<close>

datatype send = Sent | LimiterStopped | PublishFailed | MarkFailed

record Round =
  RS :: Service
  sent :: "otaCmd list"
  total :: nat

definition command :: "Firmware \<Rightarrow> int \<Rightarrow> Task \<Rightarrow> otaCmd" where
  "command fw b t = \<lparr>Topic = ''down/'' @ tsn t @ ''/cmd'', CBatch = b, URL = fw_url fw, Size = fw_size fw,
     CSHA = fw_sha fw, Sig = fw_sig fw\<rparr>"

fun send_chunk :: "(Task \<Rightarrow> send) \<Rightarrow> time \<Rightarrow> Firmware \<Rightarrow> int \<Rightarrow> Task list \<Rightarrow> Round \<Rightarrow> bool \<times> Round" where
  "send_chunk ok now fw b [] r = (True, r)"
| "send_chunk ok now fw b (t # ts) r =
     (case ok t of
        LimiterStopped \<Rightarrow> (False, r)
      | PublishFailed \<Rightarrow> (False, r\<lparr>RS := metric ''publish_errors'' (RS r)\<rparr>)
      | MarkFailed \<Rightarrow> (False, r\<lparr>sent := sent r @ [command fw b t]\<rparr>)
      | Sent \<Rightarrow>
          (let (n, db) = mark_notified now (tid t) (DB (RS r));
               r1 = r\<lparr>RS := (RS r)\<lparr>DB := db\<rparr>, sent := sent r @ [command fw b t]\<rparr>
           in send_chunk ok now fw b ts
                (if n = 1 then r1\<lparr>RS := metric ''tasks_dispatched'' (RS r1), total := total r1 + 1\<rparr> else r1)))"

text \<open>
  The inner loop for one batch, on fuel: every full pass marks the tasks it read, so one pass more
  than there are pending tasks is enough. It ends with \<open>False\<close> when the round must stop.
\<close>

fun dispatch_batch ::
  "nat \<Rightarrow> (string \<Rightarrow> bool) \<Rightarrow> (Task \<Rightarrow> send) \<Rightarrow> time \<Rightarrow> Firmware \<Rightarrow> int \<Rightarrow> Round \<Rightarrow> bool \<times> Round" where
  "dispatch_batch 0 flt ok now fw b r = (True, r)"
| "dispatch_batch (Suc fuel) flt ok now fw b r =
     (if flt ''pending'' then (False, r)
      else let ts = pendingTasks (DB (RS r)) b 200 in
        if ts = [] then (True, r)
        else if flt ''status'' then (True, r)
        else case find_batch (DB (RS r)) b of
          None \<Rightarrow> (True, r)
        | Some row \<Rightarrow>
            if bstatus row \<noteq> ''running'' then (True, r)
            else (case send_chunk ok now fw b ts r of
                    (False, r1) \<Rightarrow> (False, r1)
                  | (True, r1) \<Rightarrow> dispatch_batch fuel flt ok now fw b r1))"

fun dispatch_batches ::
  "tzdb \<Rightarrow> (string \<Rightarrow> bool) \<Rightarrow> (Task \<Rightarrow> send) \<Rightarrow> time \<Rightarrow> (Batch \<times> Firmware) list \<Rightarrow> Round \<Rightarrow> bool \<times> Round" where
  "dispatch_batches tzdb flt ok now [] r = (True, r)"
| "dispatch_batches tzdb flt ok now ((b, fw) # bs) r =
     (if (case ParseWindow tzdb (bpolicy b) of Inr w \<Rightarrow> \<not> InWindow tzdb w now | Inl _ \<Rightarrow> False)
      then dispatch_batches tzdb flt ok now bs (r\<lparr>RS := metric ''window_skipped'' (RS r)\<rparr>)
      else case dispatch_batch (Suc (length (tasks (DB (RS r))))) flt ok now fw (bid b) r of
        (False, r1) \<Rightarrow> (False, r1)
      | (True, r1) \<Rightarrow> dispatch_batches tzdb flt ok now bs r1)"

text \<open>The running batches joined with their firmware.\<close>

definition running_batches :: "Db \<Rightarrow> (Batch \<times> Firmware) list" where
  "running_batches db =
     concat (map (\<lambda>b. map (Pair b) (filter (\<lambda>f. fw_id f = bfirmware b) (firmwares db)))
       (filter (\<lambda>b. bstatus b = ''running'') (batches db)))"

definition DispatchOnce ::
  "tzdb \<Rightarrow> (string \<Rightarrow> bool) \<Rightarrow> (Task \<Rightarrow> send) \<Rightarrow> time \<Rightarrow> Service \<Rightarrow> bool \<times> Round" where
  "DispatchOnce tzdb flt ok now s =
     (let r = \<lparr>RS = s, sent = [], total = 0\<rparr> in
      if flt ''batches'' then (False, r)
      else dispatch_batches tzdb flt ok now (running_batches (DB s)) r)"

end
