(* ===== verification/OtaSafety.thy ===== *)
theory OtaSafety
  imports Ota
begin

text \<open>
  What the OTA service keeps true of its tables. Every handler of \<open>Ota\<close> is a sequence of a few kinds of table
  moves (\<open>db_move\<close>); the invariant is shown once per kind of move and holds in
  every state the handlers reach, whatever statements fail on the way.
\<close>

subsection \<open>Table moves\<close>

definition keeps :: "(Batch \<Rightarrow> Batch) \<Rightarrow> bool" where
  "keeps f \<longleftrightarrow> (\<forall>b. bid (f b) = bid b \<and> bfirmware (f b) = bfirmware b \<and> bparent (f b) = bparent b \<and>
     bstage (f b) = bstage b \<and> approved_by (f b) = approved_by b \<and> target_total (f b) = target_total b \<and>
     ok_count (f b) = ok_count b \<and> fail_count (f b) = fail_count b)"

definition retasks :: "(Task \<Rightarrow> bool) \<Rightarrow> (Task \<Rightarrow> Task) \<Rightarrow> bool" where
  "retasks P f \<longleftrightarrow> (\<forall>t. P t \<longrightarrow> \<not> IsTerminal (tstatus t) \<and> tbatch (f t) = tbatch t)"

definition count_on :: "string \<Rightarrow> Batch \<Rightarrow> Batch" where
  "count_on phase b =
     (if phase = ''success'' then b\<lparr>ok_count := ok_count b + 1\<rparr> else b\<lparr>fail_count := fail_count b + 1\<rparr>)"

inductive db_move :: "Db \<Rightarrow> Db \<Rightarrow> bool" where
  firmware: "db_move db (db\<lparr>firmwares := fs, next_firmware := i\<rparr>)"
| restatus: "keeps f \<Longrightarrow> db_move db (db\<lparr>batches := update_where P f (batches db)\<rparr>)"
| retask: "retasks P f \<Longrightarrow> db_move db (db\<lparr>tasks := update_where P f (tasks db)\<rparr>)"
| count: "retasks P f \<Longrightarrow> \<forall>t. P t \<longrightarrow> tbatch t = i \<and> tstatus (f t) = phase \<Longrightarrow> IsTerminal phase \<Longrightarrow>
     affected P (tasks db) \<noteq> 0 \<Longrightarrow>
     db_move db (db\<lparr>tasks := update_where P f (tasks db),
       batches := update_where (\<lambda>b. bid b = i \<and> bstatus b \<in> set [''running'', ''paused''])
         (count_on phase) (batches db)\<rparr>)"
| create: "b = new_batch (next_batch db) r stage approver fuse \<Longrightarrow> ck_full_stage_approved b \<Longrightarrow>
     (ParentBatchID r = None \<longrightarrow> ExpectedNextStage (latest_stage db (FirmwareID r)) = Some stage) \<Longrightarrow>
     targets = batch_targets md5 r fw pct (add_batch b db) \<Longrightarrow>
     db_move db (fill_batch now (next_batch db) targets (add_batch b db))"

abbreviation db_moves :: "Db \<Rightarrow> Db \<Rightarrow> bool" where "db_moves \<equiv> db_move\<^sup>*\<^sup>*"

lemma move_once: "db_move a b \<Longrightarrow> db_moves a b"
  by (rule r_into_rtranclp)

lemma move_last: "db_moves a b \<Longrightarrow> db_move b c \<Longrightarrow> db_moves a c"
  by (rule rtranclp.rtrancl_into_rtrancl)

lemma tx_end_cases: "tx_end c old new = (ok, db') \<Longrightarrow> db' = old \<or> db' = new"
  by (auto simp: tx_end_def split: if_splits)

lemma update_batch_move: "keeps f \<Longrightarrow> db_move db (snd (update_batch i froms f db))"
  by (simp add: update_batch_def restatus)

lemma transition_moves: "keeps f \<Longrightarrow> transition flt i froms f name s = (x, s') \<Longrightarrow> db_moves (DB s) (DB s')"
  using update_batch_move [of f "DB s" i froms]
  by (auto simp: transition_def split_beta Let_def split: if_splits sum.splits)

lemma keeps_status:
  "keeps (\<lambda>b. b\<lparr>bstatus := st\<rparr>)" "keeps (\<lambda>b. b\<lparr>bstatus := st, paused_at := pa\<rparr>)"
  "keeps (\<lambda>b. b\<lparr>bstatus := st, fused_at := fa\<rparr>)"
  by (simp_all add: keeps_def)

lemma CreateFirmware_moves: "CreateFirmware flt ps r s = (x, s') \<Longrightarrow> db_moves (DB s) (DB s')"
  by (auto simp: CreateFirmware_def Let_def split: if_splits intro!: move_once firmware)

lemma insert_batch_moves:
  assumes "insert_batch flt md5 now r fw stage approver fuse pct s = (x, s')"
    and "ParentBatchID r = None \<longrightarrow> ExpectedNextStage (latest_stage (DB s) (FirmwareID r)) = Some stage"
  shows "db_moves (DB s) (DB s')"
proof -
  let ?b = "new_batch (next_batch (DB s)) r stage approver fuse"
  let ?new = "fill_batch now (next_batch (DB s)) (batch_targets md5 r fw pct (add_batch ?b (DB s))) (add_batch ?b (DB s))"
  have "DB s' = DB s \<or> ck_full_stage_approved ?b \<and> DB s' = ?new"
    using assms(1) by (auto simp: insert_batch_def Let_def tx_end_def split: if_splits prod.splits bool.splits)
  then show ?thesis using create [OF refl _ assms(2) refl] by (auto intro: r_into_rtranclp)
qed

lemma resolve_platform:
  "resolve_batch flt snap r fuse = Inr (stage, approver, f) \<Longrightarrow>
   ParentBatchID r = None \<longrightarrow> ExpectedNextStage (latest_stage snap (FirmwareID r)) = Some stage"
  by (auto simp: resolve_batch_def split: if_splits option.splits)

lemma CreateBatch_moves: "CreateBatch flt tzdb md5 now r s = (x, s') \<Longrightarrow> db_moves (DB s) (DB s')"
  by (auto simp: CreateBatch_def CreateBatch_from_def
      split: if_splits sum.splits option.splits prod.splits
      intro: insert_batch_moves dest!: resolve_platform)

lemma complete_moves:
  "db_moves a b \<Longrightarrow> db_moves a (snd (update_batch i froms (bstatus_update (\<lambda>_. st)) b))"
  by (rule move_last [OF _ update_batch_move]) (simp_all add: keeps_def)

lemma Advance_moves: "Advance flt tzdb md5 now i cb ab s = (x, s') \<Longrightarrow> db_moves (DB s) (DB s')"
  by (auto simp: Advance_def Let_def complete_moves
      split: if_splits sum.splits option.splits prod.splits dest!: CreateBatch_moves)

lemma applies_retasks: "retasks (applies now c) (moved now c)"
  by (simp add: retasks_def applies_def moved_def terminal_states)

lemma find_batch_update:
  assumes "\<And>b. bid (f b) = bid b"
  shows "find_batch (snd (update_batch i froms f db)) j =
    map_option (\<lambda>b. if bid b = i \<and> bstatus b \<in> set froms then f b else b) (find_batch db j)"
  unfolding find_batch_def update_batch_def using assms by (simp add: find_update_where)

lemma count_on_eq:
  "(\<lambda>b. b\<lparr>ok_count := ok_count b + (if p = ''success'' then 1 else 0),
     fail_count := fail_count b + (if p = ''success'' then 0 else 1)\<rparr>) = count_on p"
  by (rule ext) (simp add: count_on_def)

lemma count_terminal_moves:
  assumes "count_terminal s now c (db\<lparr>tasks := update_where (applies now c) (moved now c) (tasks db)\<rparr>) = (db2, out)"
    and "IsTerminal (cphase c)" "affected (applies now c) (tasks db) \<noteq> 0"
  shows "db_moves db db2"
proof -
  let ?db1 = "db\<lparr>tasks := update_where (applies now c) (moved now c) (tasks db)\<rparr>"
  let ?db2 = "snd (update_batch (cbatch c) [''running'', ''paused''] (count_on (cphase c)) ?db1)"
  have m1: "db_move db ?db1" using applies_retasks by (rule retask)
  have m2: "db_move db ?db2"
    using count [OF applies_retasks [of now c] _ assms(2,3), of "cbatch c"]
    by (simp add: update_batch_def applies_def moved_def)
  have m3: "db_move ?db2 (snd (update_batch (cbatch c) [''running''] (\<lambda>b. b\<lparr>bstatus := ''fused'', fused_at := Some now\<rparr>) ?db2))"
    using keeps_status by (intro update_batch_move)
  from assms(1) have "db2 = ?db1 \<or> db2 = ?db2 \<or>
      db2 = snd (update_batch (cbatch c) [''running''] (\<lambda>b. b\<lparr>bstatus := ''fused'', fused_at := Some now\<rparr>) ?db2)"
    unfolding count_terminal_def Let_def count_on_eq
    by (auto simp: split_beta split: if_splits option.splits)
  then show ?thesis using m1 m2 m3 by (auto intro: rtranclp.rtrancl_into_rtrancl)
qed

lemma applyPhase_moves: "applyPhase flt now c s = (x, s') \<Longrightarrow> db_moves (DB s) (DB s')"
  using retask [OF applies_retasks, of "DB s" now c]
  by (auto simp: applyPhase_def Let_def split: if_splits prod.splits option.splits bool.splits
      dest!: tx_end_cases count_terminal_moves)

lemma HandleProgress_moves: "HandleProgress flt now sn p s = (x, s') \<Longrightarrow> db_moves (DB s) (DB s')"
  by (auto simp: HandleProgress_def Let_def split: if_splits option.splits dest!: applyPhase_moves)

lemma sweep_keys_moves: "sweep_keys flt now d ks n s = (x, s') \<Longrightarrow> db_moves (DB s) (DB s')"
proof (induction ks arbitrary: n s)
  case (Cons k ks)
  obtain y s1 where a: "applyPhase (flt k) now (stale_change d k) s = (y, s1)" by fastforce
  have "db_moves (DB s1) (DB s')"
    using Cons.prems a Cons.IH [of _ s1] Cons.IH [of _ "metric ''stale_failed'' s1"]
    by (auto split: sum.splits if_splits)
  with applyPhase_moves [OF a] show ?case by (rule rtranclp_trans)
qed simp

lemma SweepStale_moves: "SweepStale sf flt now d s = (x, s') \<Longrightarrow> db_moves (DB s) (DB s')"
  by (auto simp: SweepStale_def split: if_splits dest: sweep_keys_moves)

lemma mark_notified_move: "db_move db (snd (mark_notified now i db))"
  unfolding mark_notified_def snd_conv
  by (rule retask) (auto simp: retasks_def IsTerminal_def)

lemma send_chunk_moves: "send_chunk ok now fw b ts r = (x, r') \<Longrightarrow> db_moves (DB (RS r)) (DB (RS r'))"
proof (induction ts arbitrary: r)
  case (Cons t ts)
  show ?case
  proof (cases "ok t")
    case Sent
    obtain n db where m: "mark_notified now (tid t) (DB (RS r)) = (n, db)" by fastforce
    obtain r1 where r1: "send_chunk ok now fw b ts r1 = (x, r')" "DB (RS r1) = db"
      using Cons.prems Sent m by (auto simp: Let_def)
    from Cons.IH [OF r1(1)] mark_notified_move [of "DB (RS r)" now "tid t"] m r1(2)
    show ?thesis by (auto intro: converse_rtranclp_into_rtranclp)
  qed (use Cons.prems in auto)
qed simp

lemma dispatch_batch_moves:
  "dispatch_batch fuel flt ok now fw b r = (x, r') \<Longrightarrow> db_moves (DB (RS r)) (DB (RS r'))"
proof (induction fuel arbitrary: r)
  case (Suc fuel)
  then show ?case
    by (auto simp: Let_def split: if_splits option.splits prod.splits bool.splits
        dest!: send_chunk_moves) (meson rtranclp_trans)
qed simp

lemma dispatch_batches_moves:
  "dispatch_batches tzdb flt ok now bs r = (x, r') \<Longrightarrow> db_moves (DB (RS r)) (DB (RS r'))"
proof (induction bs arbitrary: r)
  case (Cons p bs)
  obtain b fw where p: "p = (b, fw)" by fastforce
  obtain y r1 where d: "dispatch_batch (Suc (length (tasks (DB (RS r))))) flt ok now fw (bid b) r = (y, r1)"
    by fastforce
  note m = dispatch_batch_moves [OF d]
  show ?case using Cons.prems Cons.IH m unfolding p
    by (auto simp only: dispatch_batches.simps d split: if_splits bool.splits) fastforce+
qed simp

lemma DispatchOnce_moves: "DispatchOnce tzdb flt ok now s = (x, r) \<Longrightarrow> db_moves (DB s) (DB (RS r))"
  by (auto simp: DispatchOnce_def Let_def split: if_splits dest!: dispatch_batches_moves)

subsection \<open>The invariant\<close>

definition won :: "int \<Rightarrow> Task \<Rightarrow> bool" where
  "won i t \<longleftrightarrow> tbatch t = i \<and> tstatus t = ''success''"

definition lost :: "int \<Rightarrow> Task \<Rightarrow> bool" where
  "lost i t \<longleftrightarrow> tbatch t = i \<and> tstatus t \<in> {''failed'', ''rolled_back''}"

definition ids_ok :: "Db \<Rightarrow> bool" where
  "ids_ok db \<longleftrightarrow> distinct (map bid (batches db)) \<and> (\<forall>b\<in>set (batches db). bid b < next_batch db) \<and>
     (\<forall>t\<in>set (tasks db). tbatch t < next_batch db) \<and> distinct (map dsn (devices db))"

definition chain_ok :: "Db \<Rightarrow> bool" where
  "chain_ok db \<longleftrightarrow> (\<forall>fw. map bstage (platform_batches db fw) = take (length (platform_batches db fw)) Stages)"

definition approved_ok :: "Db \<Rightarrow> bool" where
  "approved_ok db \<longleftrightarrow> (\<forall>b\<in>set (batches db). ck_full_stage_approved b)"

definition count_ok :: "Task list \<Rightarrow> Batch \<Rightarrow> bool" where
  "count_ok ts b \<longleftrightarrow>
     0 \<le> ok_count b \<and> ok_count b \<le> int (affected (won (bid b)) ts) \<and>
     0 \<le> fail_count b \<and> fail_count b \<le> int (affected (lost (bid b)) ts) \<and>
     target_total b = int (affected (\<lambda>t. tbatch t = bid b) ts)"

definition counts_ok :: "Db \<Rightarrow> bool" where
  "counts_ok db \<longleftrightarrow> (\<forall>b\<in>set (batches db). count_ok (tasks db) b)"

definition ota_inv :: "Db \<Rightarrow> bool" where
  "ota_inv db \<longleftrightarrow> ids_ok db \<and> chain_ok db \<and> approved_ok db \<and> counts_ok db"

lemma affected_mono_update:
  "(\<And>r. P r \<Longrightarrow> \<not> Q r) \<Longrightarrow> affected Q rows \<le> affected Q (update_where P f rows)"
  by (induction rows) auto

lemma affected_same_update:
  "(\<And>r. P r \<Longrightarrow> Q (f r) = Q r) \<Longrightarrow> affected Q (update_where P f rows) = affected Q rows"
  by (induction rows) auto

text \<open>A batch update that keeps what the first three parts look at.\<close>

definition same_plan :: "(Batch \<Rightarrow> Batch) \<Rightarrow> bool" where
  "same_plan f \<longleftrightarrow> (\<forall>b. bid (f b) = bid b \<and> bfirmware (f b) = bfirmware b \<and> bparent (f b) = bparent b \<and>
     bstage (f b) = bstage b \<and> approved_by (f b) = approved_by b)"

lemma keeps_plan: "keeps f \<Longrightarrow> same_plan f"
  by (simp add: keeps_def same_plan_def)

lemma count_on_plan: "same_plan (count_on p)" "same_plan (\<lambda>b. b\<lparr>target_total := n\<rparr>)"
  by (simp_all add: same_plan_def count_on_def)

lemma filter_update_where:
  "(\<And>b. P b \<Longrightarrow> Q (f b) = Q b) \<Longrightarrow> filter Q (update_where P f bs) = update_where P f (filter Q bs)"
  by (induction bs) auto

lemma plan_chain:
  assumes "same_plan f"
  shows "chain_ok (db\<lparr>batches := update_where P f (batches db)\<rparr>) = chain_ok db"
    and "latest_stage (db\<lparr>batches := update_where P f (batches db)\<rparr>) fw = latest_stage db fw"
proof -
  have "platform_batches (db\<lparr>batches := update_where P f (batches db)\<rparr>) fw =
      update_where P f (platform_batches db fw)" for fw
    unfolding platform_batches_def using assms by (simp add: filter_update_where same_plan_def)
  moreover have "map bstage (update_where P f bs) = map bstage bs" for bs
    using assms by (simp add: map_update_where_frame same_plan_def)
  moreover have "bs \<noteq> [] \<Longrightarrow> bstage (last (update_where P f bs)) = bstage (last bs)" for bs
    using assms by (simp add: update_where_def last_map same_plan_def)
  moreover have "update_where P f bs = [] \<longleftrightarrow> bs = []" for bs by (simp add: update_where_def)
  ultimately show "chain_ok (db\<lparr>batches := update_where P f (batches db)\<rparr>) = chain_ok db"
    and "latest_stage (db\<lparr>batches := update_where P f (batches db)\<rparr>) fw = latest_stage db fw"
    by (auto simp: chain_ok_def latest_stage_def Let_def)
qed

lemma plan_ids:
  assumes "same_plan f"
  shows "ids_ok (db\<lparr>batches := update_where P f (batches db)\<rparr>) = ids_ok db"
proof -
  have "map bid (update_where P f (batches db)) = map bid (batches db)"
    using assms by (simp add: map_update_where_frame same_plan_def)
  moreover have "bid (if P b then f b else b) = bid b" for b using assms by (simp add: same_plan_def)
  ultimately show ?thesis by (simp add: ids_ok_def ball_update_where)
qed

lemma plan_approved:
  assumes "same_plan f"
  shows "approved_ok (db\<lparr>batches := update_where P f (batches db)\<rparr>) = approved_ok db"
proof -
  have "ck_full_stage_approved (if P b then f b else b) = ck_full_stage_approved b" for b
    using assms by (simp add: ck_full_stage_approved_def same_plan_def)
  then show ?thesis by (simp add: approved_ok_def ball_update_where)
qed

lemma task_frame:
  "chain_ok (db\<lparr>tasks := ts\<rparr>) = chain_ok db" "approved_ok (db\<lparr>tasks := ts\<rparr>) = approved_ok db"
  by (simp_all add: chain_ok_def approved_ok_def platform_batches_def)

lemma retask_ids:
  assumes "retasks P f"
  shows "ids_ok (db\<lparr>tasks := update_where P f (tasks db)\<rparr>) = ids_ok db"
proof -
  have "tbatch (if P t then f t else t) = tbatch t" for t using assms by (simp add: retasks_def)
  then show ?thesis by (simp add: ids_ok_def ball_update_where)
qed

lemma counts_retask:
  assumes "retasks P f" "counts_ok db"
  shows "counts_ok (db\<lparr>tasks := update_where P f (tasks db)\<rparr>)"
proof -
  have "affected (won i) (tasks db) \<le> affected (won i) (update_where P f (tasks db))"
    "affected (lost i) (tasks db) \<le> affected (lost i) (update_where P f (tasks db))"
    "affected (\<lambda>t. tbatch t = i) (update_where P f (tasks db)) = affected (\<lambda>t. tbatch t = i) (tasks db)" for i
    using assms(1)
    by (intro affected_mono_update affected_same_update; auto simp: retasks_def won_def lost_def IsTerminal_def)+
  then have "count_ok (tasks db) b \<Longrightarrow> count_ok (update_where P f (tasks db)) b" for b
    unfolding count_ok_def by (metis of_nat_le_iff order_trans)
  then show ?thesis using assms(2) by (simp add: counts_ok_def)
qed

lemma counts_keeps: "keeps f \<Longrightarrow> counts_ok db \<Longrightarrow> counts_ok (db\<lparr>batches := update_where P f (batches db)\<rparr>)"
  by (auto simp: counts_ok_def count_ok_def ball_update_where keeps_def)

lemma counts_count:
  assumes "retasks P f" "\<forall>t. P t \<longrightarrow> tbatch t = i \<and> tstatus (f t) = phase" "IsTerminal phase"
    and "affected P (tasks db) \<noteq> 0" "counts_ok db"
  shows "counts_ok (db\<lparr>tasks := update_where P f (tasks db),
    batches := update_where (\<lambda>b. bid b = i \<and> bstatus b \<in> S) (count_on phase) (batches db)\<rparr>)"
proof -
  let ?T = "tasks db" and ?U = "update_where P f (tasks db)"
  have w: "affected (won j) ?U = affected (won j) ?T + (if phase = ''success'' \<and> j = i then affected P ?T else 0)" for j
  proof (cases "phase = ''success'' \<and> j = i")
    case True
    then show ?thesis using affected_update_where_in [of P "won j" f ?T] assms(1,2)
      by (simp add: retasks_def won_def IsTerminal_def)
  next
    case False
    then show ?thesis using affected_same_update [of P "won j" f ?T] assms(1,2)
      by (auto simp: retasks_def won_def IsTerminal_def)
  qed
  have l: "affected (lost j) ?U = affected (lost j) ?T + (if phase \<noteq> ''success'' \<and> j = i then affected P ?T else 0)" for j
  proof (cases "phase \<noteq> ''success'' \<and> j = i")
    case True
    then show ?thesis using affected_update_where_in [of P "lost j" f ?T] assms(1,2,3)
      by (auto simp: retasks_def lost_def IsTerminal_def)
  next
    case False
    then show ?thesis using affected_same_update [of P "lost j" f ?T] assms(1,2)
      by (auto simp: retasks_def lost_def IsTerminal_def)
  qed
  have t: "affected (\<lambda>t. tbatch t = j) ?U = affected (\<lambda>t. tbatch t = j) ?T" for j
    using affected_same_update [of P "\<lambda>t. tbatch t = j" f ?T] assms(1) by (simp add: retasks_def)
  have n: "1 \<le> affected P ?T" using assms(4) by simp
  have "count_ok ?T b \<Longrightarrow> count_ok ?U (if bid b = i \<and> bstatus b \<in> S then count_on phase b else b)" for b
    using n by (cases "bid b = i \<and> bstatus b \<in> S") (auto simp: count_ok_def w l t count_on_def)
  then show ?thesis using assms(5) by (simp add: counts_ok_def ball_update_where)
qed

subsection \<open>A new batch\<close>

lemma insert_tasks_frame [simp]:
  "batches (insert_tasks now i sns db) = batches db" "devices (insert_tasks now i sns db) = devices db"
  "next_batch (insert_tasks now i sns db) = next_batch db" "firmwares (insert_tasks now i sns db) = firmwares db"
  by (induction sns arbitrary: db) (simp_all add: insert_tasks_def insert_task_def)

lemma insert_tasks_Cons: "insert_tasks now i (sn # sns) db = insert_tasks now i sns (insert_task now i sn db)"
  by (simp add: insert_tasks_def)

lemma insert_tasks_unaffected:
  "(\<And>t. tbatch t = i \<Longrightarrow> tstatus t = ''pending'' \<Longrightarrow> \<not> Q t) \<Longrightarrow>
   affected Q (tasks (insert_tasks now i sns db)) = affected Q (tasks db)"
  by (induction sns arbitrary: db) (auto simp: insert_tasks_Cons insert_task_def insert_tasks_def [of _ _ "[]"])

lemma insert_tasks_count:
  "distinct sns \<Longrightarrow> (\<forall>t\<in>set (tasks db). tbatch t = i \<longrightarrow> tsn t \<notin> set sns) \<Longrightarrow>
   affected (\<lambda>t. tbatch t = i) (tasks (insert_tasks now i sns db)) =
   affected (\<lambda>t. tbatch t = i) (tasks db) + length sns"
proof (induction sns arbitrary: db)
  case (Cons sn sns)
  then have "\<not> list_ex (\<lambda>t. tbatch t = i \<and> tsn t = sn) (tasks db)" by (auto simp: list_ex_iff)
  then show ?case using Cons by (simp add: insert_tasks_Cons insert_task_def)
qed (simp add: insert_tasks_def)

lemma insert_tasks_set:
  "t \<in> set (tasks (insert_tasks now i sns db)) \<Longrightarrow>
   t \<in> set (tasks db) \<or> (tbatch t = i \<and> tstatus t = ''pending'' \<and> tsn t \<in> set sns)"
  by (induction sns arbitrary: db)
    (fastforce simp: insert_tasks_Cons insert_task_def insert_tasks_def [of _ _ "[]"] split: if_splits)+

lemma batch_targets_distinct: "distinct (map dsn (devices db)) \<Longrightarrow> distinct (batch_targets md5 r fw pct db)"
  by (auto simp: batch_targets_def existingSNs_def sampleTargets_def distinct_map_filter)

lemma create_tables:
  assumes "b = new_batch (next_batch db) r stage approver fuse" "ids_ok db"
  shows "batches (fill_batch now (next_batch db) targets (add_batch b db)) =
    batches db @ [b\<lparr>target_total := int (length targets)\<rparr>]"
proof -
  have "\<forall>c\<in>set (batches db). bid c \<noteq> next_batch db" using assms(2) by (auto simp: ids_ok_def)
  then have "update_where (\<lambda>c. bid c = next_batch db) g (batches db) = batches db" for g
    by (simp add: update_where_def map_idI)
  then show ?thesis
    using assms(1) by (simp add: fill_batch_def add_batch_def Let_def update_where_def new_batch_def)
qed

lemma chain_append:
  assumes "chain_ok db" "bparent b = None \<longrightarrow> ExpectedNextStage (latest_stage db (bfirmware b)) = Some (bstage b)"
    and "batches db' = batches db @ [b]"
  shows "chain_ok db'"
  unfolding chain_ok_def
proof
  fix fw
  let ?bs = "platform_batches db fw"
  have old: "map bstage ?bs = take (length ?bs) Stages" using assms(1) by (simp add: chain_ok_def)
  have bs': "platform_batches db' fw = ?bs @ (if bfirmware b = fw \<and> bparent b = None then [b] else [])"
    using assms(3) by (simp add: platform_batches_def)
  show "map bstage (platform_batches db' fw) = take (length (platform_batches db' fw)) Stages"
  proof (cases "bfirmware b = fw \<and> bparent b = None")
    case True
    then have e: "ExpectedNextStage (latest_stage db fw) = Some (bstage b)" using assms(2) by blast
    have "length (map bstage ?bs) = min (length ?bs) (length Stages)" unfolding old by (simp add: min.commute)
    then have len: "length ?bs \<le> 5" by (simp add: Stages_def)
    have last: "?bs \<noteq> [] \<Longrightarrow> bstage (last ?bs) = Stages ! (length ?bs - 1)"
      using old by (metis One_nat_def diff_less last_conv_nth last_map length_greater_0_conv length_map
          map_is_Nil_conv nth_take zero_less_one)
    have "length ?bs \<noteq> 5"
    proof
      assume "length ?bs = 5"
      moreover from this have "?bs \<noteq> []" by auto
      ultimately show False using e last Stages_last by (simp add: latest_stage_def Let_def)
    qed
    with len have n: "length ?bs < 5" by simp
    have "latest_stage db fw = (if length ?bs = 0 then None else Some (Stages ! (length ?bs - 1)))"
      using last by (auto simp: latest_stage_def Let_def)
    with Stages_nth_next [OF n] e have "bstage b = Stages ! length ?bs" by simp
    moreover have "length ?bs < length Stages" using n by (simp add: Stages_def)
    ultimately show ?thesis using old True bs' by (simp add: take_Suc_conv_app_nth)
  next
    case False
    then show ?thesis using old bs' by auto
  qed
qed

lemma create_inv:
  assumes b: "b = new_batch (next_batch db) r stage approver fuse" "ck_full_stage_approved b"
    and chain: "ParentBatchID r = None \<longrightarrow> ExpectedNextStage (latest_stage db (FirmwareID r)) = Some stage"
    and targets: "distinct targets"
    and inv: "ota_inv db"
  shows "ota_inv (fill_batch now (next_batch db) targets (add_batch b db))"
proof -
  let ?i = "next_batch db" and ?db = "fill_batch now (next_batch db) targets (add_batch b db)"
  let ?b = "b\<lparr>target_total := int (length targets)\<rparr>"
  from inv have i: "ids_ok db" "chain_ok db" "approved_ok db" "counts_ok db" by (auto simp: ota_inv_def)
  note bs = create_tables [OF b(1) i(1), of now targets]
  have fr: "next_batch ?db = ?i + 1" "devices ?db = devices db"
      "tasks ?db = tasks (insert_tasks now ?i targets (add_batch b db))" "tasks (add_batch b db) = tasks db"
    by (simp_all add: fill_batch_def add_batch_def Let_def)
  have bf: "bid ?b = ?i" "bfirmware ?b = FirmwareID r" "bparent ?b = ParentBatchID r" "bstage ?b = stage"
    using b(1) by (simp_all add: new_batch_def)
  have old: "\<forall>c\<in>set (batches db). bid c < ?i" "\<forall>t\<in>set (tasks db). tbatch t < ?i"
    using i(1) by (auto simp: ids_ok_def)
  have "\<forall>t\<in>set (tasks ?db). tbatch t < ?i + 1"
    using old(2) insert_tasks_set [of _ now ?i targets "add_batch b db"] fr(3,4) by fastforce
  moreover have "distinct (map bid (batches db @ [?b]))"
    using i(1) old(1) bf(1) by (auto simp: ids_ok_def)
  ultimately have "ids_ok ?db"
    using i(1) old(1) bf(1) unfolding ids_ok_def bs fr(1,2) by auto
  moreover have "chain_ok ?db"
    using chain bf by (intro chain_append [OF i(2) _ bs]) simp
  moreover have "approved_ok ?db"
    using i(3) b(2) by (auto simp: approved_ok_def bs ck_full_stage_approved_def)
  moreover have "counts_ok ?db"
  proof -
    have un: "affected Q (tasks ?db) = affected Q (tasks db)"
      if "\<And>t. tbatch t = ?i \<Longrightarrow> tstatus t = ''pending'' \<Longrightarrow> \<not> Q t" for Q
      unfolding fr(3) using insert_tasks_unaffected [OF that] fr(4) by simp
    have "count_ok (tasks ?db) c" if "c \<in> set (batches db)" for c
    proof -
      have "bid c \<noteq> ?i" using old(1) that by auto
      then have "affected (won (bid c)) (tasks ?db) = affected (won (bid c)) (tasks db)"
          "affected (lost (bid c)) (tasks ?db) = affected (lost (bid c)) (tasks db)"
          "affected (\<lambda>t. tbatch t = bid c) (tasks ?db) = affected (\<lambda>t. tbatch t = bid c) (tasks db)"
        by (intro un; auto simp: won_def lost_def)+
      moreover have "count_ok (tasks db) c" using i(4) that by (simp add: counts_ok_def)
      ultimately show ?thesis by (simp add: count_ok_def)
    qed
    moreover have "count_ok (tasks ?db) ?b"
    proof -
      have none: "\<forall>t\<in>set (tasks db). tbatch t \<noteq> ?i" using old(2) by auto
      have "affected (\<lambda>t. tbatch t = ?i) (tasks ?db) = length targets"
        unfolding fr(3) using insert_tasks_count [OF targets, of "add_batch b db" ?i now] none fr(4)
        by (simp add: affected_0_iff)
      then show ?thesis using b(1) by (simp add: count_ok_def new_batch_def)
    qed
    ultimately show ?thesis by (auto simp: counts_ok_def bs)
  qed
  ultimately show ?thesis by (simp add: ota_inv_def)
qed

lemma ota_inv_move: "db_move db db' \<Longrightarrow> ota_inv db \<Longrightarrow> ota_inv db'"
proof (induction rule: db_move.induct)
  case (firmware db fs i)
  then show ?case
    by (simp add: ota_inv_def ids_ok_def chain_ok_def approved_ok_def counts_ok_def platform_batches_def)
next
  case (restatus f db P)
  then show ?case
    using keeps_plan by (simp add: ota_inv_def plan_ids plan_chain plan_approved counts_keeps)
next
  case (retask P f db)
  then show ?case by (simp add: ota_inv_def retask_ids task_frame counts_retask)
next
  case (count P f i phase db)
  let ?db1 = "db\<lparr>tasks := update_where P f (tasks db)\<rparr>"
  let ?g = "\<lambda>d. d\<lparr>batches := update_where (\<lambda>b. bid b = i \<and> bstatus b \<in> set [''running'', ''paused''])
         (count_on phase) (batches d)\<rparr>"
  have e: "db\<lparr>tasks := update_where P f (tasks db), batches := update_where
      (\<lambda>b. bid b = i \<and> bstatus b \<in> set [''running'', ''paused'']) (count_on phase) (batches db)\<rparr> = ?g ?db1"
    by simp
  have "ids_ok (?g ?db1) \<and> chain_ok (?g ?db1) \<and> approved_ok (?g ?db1)"
    using count by (simp only: plan_ids plan_chain plan_approved count_on_plan retask_ids task_frame) (simp add: ota_inv_def)
  moreover have "counts_ok (?g ?db1)"
    using counts_count [OF count(1-4), of "set [''running'', ''paused'']"] count(5)
    unfolding e ota_inv_def by blast
  ultimately show ?case unfolding e ota_inv_def by blast
next
  case (create b db r stage approver fuse targets md5 fw pct now)
  have "distinct (map dsn (devices (add_batch b db)))"
    using create(5) by (simp add: ota_inv_def ids_ok_def add_batch_def)
  then have "distinct targets" unfolding create(4) by (rule batch_targets_distinct)
  with create show ?case by (intro create_inv)
qed

lemma ota_inv_moves: "db_moves db db' \<Longrightarrow> ota_inv db \<Longrightarrow> ota_inv db'"
  by (induction rule: rtranclp_induct) (auto intro: ota_inv_move)

subsection \<open>Reachable states\<close>

inductive ota_step :: "Service \<Rightarrow> Service \<Rightarrow> bool" where
  "CreateFirmware flt products fr s = (x, s') \<Longrightarrow> ota_step s s'"
| "CreateBatch flt tzdb md5 now r s = (y, s') \<Longrightarrow> ota_step s s'"
| "Pause flt now i s = (u, s') \<Longrightarrow> ota_step s s'"
| "Resume flt i s = (u, s') \<Longrightarrow> ota_step s s'"
| "Advance flt tzdb md5 now i createdBy approvedBy s = (y, s') \<Longrightarrow> ota_step s s'"
| "HandleProgress flt now sn p s = (z, s') \<Longrightarrow> ota_step s s'"
| "SweepStale sf kflt now d s = (n, s') \<Longrightarrow> ota_step s s'"
| "DispatchOnce tzdb dflt ok now s = (done, r) \<Longrightarrow> ota_step s (RS r)"

lemma ota_step_moves: "ota_step s s' \<Longrightarrow> db_moves (DB s) (DB s')"
  by (induction rule: ota_step.induct)
    (auto simp: Pause_def Resume_def
      intro: CreateFirmware_moves CreateBatch_moves Advance_moves HandleProgress_moves SweepStale_moves
        DispatchOnce_moves transition_moves keeps_status)

text \<open>The service over tables without batches and tasks.\<close>

definition fresh :: "Service \<Rightarrow> bool" where
  "fresh s \<longleftrightarrow> batches (DB s) = [] \<and> tasks (DB s) = [] \<and> distinct (map dsn (devices (DB s)))"

lemma ota_inv_reach: "ota_step\<^sup>*\<^sup>* s s' \<Longrightarrow> fresh s \<Longrightarrow> ota_inv (DB s')"
proof (induction rule: rtranclp_induct)
  case base
  then show ?case
    by (simp add: fresh_def ota_inv_def ids_ok_def chain_ok_def approved_ok_def counts_ok_def platform_batches_def)
next
  case (step s1 s2)
  then show ?case using ota_step_moves ota_inv_moves by blast
qed

definition demo_fw :: Firmware where
  "demo_fw = \<lparr>fw_id = 1, fw_product = ''LM'', fw_version = ''2.0'', fw_url = ''u'', fw_size = 9,
     fw_sha = ''h'', fw_sig = ''g''\<rparr>"

definition demo_devices :: "DeviceRow list" where
  "demo_devices = [\<lparr>dsn = ''AAAA'', dproduct = ''LM'', dfw = Some ''1.0''\<rparr>,
     \<lparr>dsn = ''BBBB'', dproduct = ''LM'', dfw = None\<rparr>]"

definition demo_service :: Service where
  "demo_service = \<lparr>DB = \<lparr>firmwares = [demo_fw], batches = [], tasks = [], devices = demo_devices,
     next_firmware = 2, next_batch = 1, next_task = 1\<rparr>, M = (\<lambda>_. 0),
     MinSamples = MinFuseSamples, MinAbsFail = DefaultMinAbsFail\<rparr>"

text \<open>A digest that samples the first device at every stage and the second only at the full one.\<close>

definition demo_md5 :: "string \<Rightarrow> byte list" where
  "demo_md5 sn = replicate 16 (if sn = ''AAAA'' then 0 else 255)"

definition demo_req :: BatchReq where
  "demo_req = \<lparr>FirmwareID = 1, Stage = ''0.1'', CreatedBy = ''ann'', ApprovedBy = [], FailRatioFuse = Some 0,
     ExplicitSNs = [], ParentBatchID = None, ReqPolicy = NoPolicy\<rparr>"

definition demo_create :: "BatchReq \<Rightarrow> Service \<Rightarrow> Batch outcome" where
  "demo_create = CreateBatch no_faults (\<lambda>_. None) demo_md5 0"

definition demo_first :: Service where
  "demo_first = snd (demo_create demo_req demo_service)"

lemma low_bytes: "replicate 4 x = [x, x, x, x]"
  by (simp add: numeral_eq_Suc)

lemma demo_stage: "InStage demo_md5 sn (pct_of ''0.1'') \<longleftrightarrow> sn = ''AAAA''"
proof -
  let ?p = "pct_of ''0.1''"
  have p: "0 < ?p" "?p \<le> 1" using pct_of_order rnd64_le_1 [of "1 / 10"] by (auto simp: pct_of_def)
  have lo: "0 < rnd64 (?p / 100)" using p by (intro rnd64_pos) auto
  have "scale (1 / 4) = 2" by (simp add: scale_double eval_nat_numeral)
  then have "rnd64 (1 / 4) \<le> 1 / 2" using rnd64_upper [of "1 / 4"] by simp
  moreover have "rnd64 (?p / 100) \<le> rnd64 (1 / 4)" using p by (intro rnd64_mono) auto
  ultimately have hi: "rnd64 (?p / 100) \<le> 1 / 2" by simp
  have "Bucket demo_md5 sn = (if sn = ''AAAA'' then 0 else 4294967295 / 4294967296)"
    by (simp add: Bucket_def demo_md5_def low_bytes)
  then show ?thesis using p lo hi by (simp add: InStage_def)
qed

lemma demo_pct: "StagePct ''0.1'' = Some (pct_of ''0.1'')"
  by (simp add: StagePct_def Stages_def)

lemmas run_create = demo_create_def CreateBatch_def CreateBatch_from_def requested_fuse_def no_faults_def
  resolve_batch_def latest_stage_def platform_batches_def ExpectedNextStage_def FirstStage_def
  insert_batch_def batch_targets_def add_batch_def fill_batch_def insert_tasks_def insert_task_def
  sampleTargets_def targeted_def new_batch_def ck_full_stage_approved_def tx_end_def GetBatch_def
  find_batch_def nilIfEmpty_def ParseWindow_def Let_def numeric4_def

lemma demo_first_eq:
  "fst (demo_create demo_req demo_service) = Inr ((new_batch 1 demo_req ''0.1'' [] 0)\<lparr>target_total := 1\<rparr>)"
  "batches (DB demo_first) = [(new_batch 1 demo_req ''0.1'' [] 0)\<lparr>target_total := 1\<rparr>]"
  "tasks (DB demo_first) = [\<lparr>tid = 1, tbatch = 1, tsn = ''AAAA'', tstatus = ''pending'', retry = 0,
     error_code = None, updated_at = 0\<rparr>]"
  by (simp_all add: run_create demo_first_def demo_req_def demo_service_def demo_fw_def demo_devices_def
      demo_pct demo_stage)

lemma demo_first_reach: "fresh demo_service" "ota_step\<^sup>*\<^sup>* demo_service demo_first"
proof -
  show "fresh demo_service" by (simp add: fresh_def demo_service_def demo_devices_def)
  have "CreateBatch no_faults (\<lambda>_. None) demo_md5 0 demo_req demo_service =
      (fst (demo_create demo_req demo_service), demo_first)"
    by (simp add: demo_first_def demo_create_def)
  then show "ota_step\<^sup>*\<^sup>* demo_service demo_first" by (intro r_into_rtranclp ota_step.intros(2))
qed



text \<open>
  C4: a device counts at most once. In every reachable state the success counter of a batch is at most the number of its devices that
  succeeded, the failure counter at most the number that failed or rolled back, and together they never exceed the
  number of devices the batch targeted; repeated and late reports are not counted.
\<close>

theorem counted_once:
  assumes "ota_step\<^sup>*\<^sup>* s0 s" "fresh s0" "b \<in> set (batches (DB s))"
  shows "0 \<le> ok_count b \<and> ok_count b \<le> int (affected (won (bid b)) (tasks (DB s))) \<and>
    0 \<le> fail_count b \<and> fail_count b \<le> int (affected (lost (bid b)) (tasks (DB s))) \<and>
    ok_count b + fail_count b \<le> target_total b"
proof -
  have c: "count_ok (tasks (DB s)) b" using ota_inv_reach [OF assms(1,2)] assms(3)
    by (simp add: ota_inv_def counts_ok_def)
  have "affected (won i) ts + affected (lost i) ts \<le> affected (\<lambda>t. tbatch t = i) ts" for i ts
    by (induction ts) (auto simp: won_def lost_def)
  then have "int (affected (won (bid b)) (tasks (DB s))) + int (affected (lost (bid b)) (tasks (DB s))) \<le>
      int (affected (\<lambda>t. tbatch t = bid b) (tasks (DB s)))"
    by (metis of_nat_add of_nat_mono)
  with c show ?thesis unfolding count_ok_def by linarith
qed

theorem counted_once_witness:
  "\<exists>b. b \<in> set (batches (DB demo_first)) \<and> ok_count b + fail_count b \<le> target_total b \<and> target_total b = 1"
proof -
  let ?b = "(new_batch 1 demo_req ''0.1'' [] 0)\<lparr>target_total := 1\<rparr>"
  have "?b \<in> set (batches (DB demo_first))" by (simp add: demo_first_eq)
  with counted_once [OF demo_first_reach(2,1) this] show ?thesis by (intro exI [of _ ?b]) simp
qed

subsection \<open>Who gets a batch\<close>

lemma insert_batch_row:
  assumes "insert_batch flt md5 now r fw stage approver fuse pct s = (Inr b, s')" "ids_ok (DB s)"
  shows "b = (new_batch (next_batch (DB s)) r stage approver fuse)\<lparr>target_total := int (length
      (batch_targets md5 r fw pct (add_batch (new_batch (next_batch (DB s)) r stage approver fuse) (DB s))))\<rparr>"
    and "DB s' = fill_batch now (next_batch (DB s))
      (batch_targets md5 r fw pct (add_batch (new_batch (next_batch (DB s)) r stage approver fuse) (DB s)))
      (add_batch (new_batch (next_batch (DB s)) r stage approver fuse) (DB s))"
proof -
  let ?i = "next_batch (DB s)"
  let ?n = "new_batch ?i r stage approver fuse"
  let ?ts = "batch_targets md5 r fw pct (add_batch ?n (DB s))"
  show new: "DB s' = fill_batch now ?i ?ts (add_batch ?n (DB s))"
    using assms(1) by (auto simp: insert_batch_def Let_def tx_end_def split: if_splits prod.splits bool.splits)
  have g: "find_batch (DB s') ?i = Some b"
    using assms(1) by (auto simp: insert_batch_def Let_def tx_end_def GetBatch_def
        split: if_splits prod.splits bool.splits option.splits)
  have bs: "batches (DB s') = batches (DB s) @ [?n\<lparr>target_total := int (length ?ts)\<rparr>]"
    unfolding new using assms(2) by (rule create_tables [OF refl])
  have "\<forall>c\<in>set (batches (DB s)). bid c \<noteq> ?i" using assms(2) by (auto simp: ids_ok_def)
  then have "find (\<lambda>c. bid c = ?i) (batches (DB s)) = None" by (simp add: find_None_iff)
  moreover have "find P (xs @ [y]) = (if find P xs = None then if P y then Some y else None else find P xs)"
    for P :: "Batch \<Rightarrow> bool" and xs y by (induction xs) auto
  ultimately show "b = ?n\<lparr>target_total := int (length ?ts)\<rparr>"
    using g by (simp add: find_batch_def bs new_batch_def)
qed

lemma insert_batch_targets:
  assumes "insert_batch flt md5 now r fw stage approver fuse pct s = (Inr b, s')" "ids_ok (DB s)"
    and "t \<in> set (tasks (DB s'))" "tbatch t = bid b"
  shows "bid b = next_batch (DB s) \<and> bstage b = stage \<and> bparent b = ParentBatchID r \<and>
    tstatus t = ''pending'' \<and>
    tsn t \<in> set (batch_targets md5 r fw pct (add_batch (new_batch (next_batch (DB s)) r stage approver fuse) (DB s)))"
proof -
  let ?i = "next_batch (DB s)"
  let ?n = "new_batch ?i r stage approver fuse"
  let ?ts = "batch_targets md5 r fw pct (add_batch ?n (DB s))"
  note row = insert_batch_row [OF assms(1,2)]
  have "tbatch t = ?i" using assms(4) row(1) by (simp add: new_batch_def)
  moreover have "t \<notin> set (tasks (DB s))" using \<open>tbatch t = ?i\<close> assms(2) by (auto simp: ids_ok_def)
  moreover have "tasks (DB s') = tasks (insert_tasks now ?i ?ts (add_batch ?n (DB s)))"
      "tasks (add_batch ?n (DB s)) = tasks (DB s)"
    unfolding row(2) by (simp_all add: fill_batch_def Let_def add_batch_def)
  ultimately have "tstatus t = ''pending'' \<and> tsn t \<in> set ?ts"
    using assms(3) insert_tasks_set [of t now ?i ?ts "add_batch ?n (DB s)"] by auto
  then show ?thesis using row(1) by (simp add: new_batch_def)
qed

lemma targeted_add_batch:
  "ids_ok db \<Longrightarrow> bid b = next_batch db \<Longrightarrow> targeted (add_batch b db) fw sn = targeted db fw sn"
  by (force simp: targeted_def add_batch_def list_ex_iff ids_ok_def)

text \<open>
  who gets a sampled batch. Every task of a batch created by sampling is for a device of the firmware's product that does not
  run that version, lies in the sample of the batch's stage, and was in no earlier batch of the same firmware.
\<close>

theorem new_targets_fresh:
  assumes "CreateBatch flt tzdb md5 now r s = (Inr b, s')" "ids_ok (DB s)" "ExplicitSNs r = []"
    and "t \<in> set (tasks (DB s'))" "tbatch t = bid b"
  shows "\<not> targeted (DB s) (FirmwareID r) (tsn t) \<and>
    (\<exists>fw pct d. StagePct (bstage b) = Some pct \<and> InStage md5 (tsn t) pct \<and> fw \<in> set (firmwares (DB s)) \<and>
       fw_id fw = FirmwareID r \<and> d \<in> set (devices (DB s)) \<and> dsn d = tsn t \<and>
       dproduct d = fw_product fw \<and> dfw d \<noteq> Some (fw_version fw))"
proof -
  from assms(1) obtain fw stage approver f pct where fw: "find (\<lambda>f. fw_id f = FirmwareID r) (firmwares (DB s)) = Some fw"
      and pct: "StagePct stage = Some pct"
      and ins: "insert_batch flt md5 now r fw stage approver f pct s = (Inr b, s')"
    by (auto simp: CreateBatch_def CreateBatch_from_def
        split: if_splits sum.splits option.splits prod.splits)
  let ?n = "new_batch (next_batch (DB s)) r stage approver f"
  note tb = insert_batch_targets [OF ins assms(2,4,5)]
  have n: "bid ?n = next_batch (DB s)" "devices (add_batch ?n (DB s)) = devices (DB s)"
    by (simp_all add: new_batch_def add_batch_def)
  from tb assms(3) obtain d where "InStage md5 (tsn t) pct" "d \<in> set (devices (DB s))" "dsn d = tsn t"
      "dproduct d = fw_product fw" "dfw d \<noteq> Some (fw_version fw)" "\<not> targeted (DB s) (FirmwareID r) (tsn t)"
    by (auto simp: batch_targets_def sampleTargets_def n(2) targeted_add_batch [OF assms(2) n(1)])
  moreover have "fw \<in> set (firmwares (DB s))" "fw_id fw = FirmwareID r"
    using fw by (auto simp: find_Some_iff)
  moreover have "StagePct (bstage b) = Some pct" using tb pct by simp
  ultimately show ?thesis by blast
qed

theorem new_targets_fresh_witness:
  "\<exists>b t. fst (demo_create demo_req demo_service) = Inr b \<and> t \<in> set (tasks (DB demo_first)) \<and> tbatch t = bid b \<and>
     InStage demo_md5 (tsn t) (pct_of ''0.1'')"
proof -
  let ?b = "(new_batch 1 demo_req ''0.1'' [] 0)\<lparr>target_total := 1\<rparr>"
  let ?t = "\<lparr>tid = 1, tbatch = 1, tsn = ''AAAA'', tstatus = ''pending'', retry = 0, error_code = None, updated_at = 0\<rparr>"
  have c: "CreateBatch no_faults (\<lambda>_. None) demo_md5 0 demo_req demo_service = (Inr ?b, demo_first)"
    using demo_first_eq(1) by (simp add: demo_first_def demo_create_def prod_eq_iff)
  have i: "ids_ok (DB demo_service)" by (simp add: ids_ok_def demo_service_def demo_devices_def)
  have e: "ExplicitSNs demo_req = []" by (simp add: demo_req_def)
  have t: "?t \<in> set (tasks (DB demo_first))" "tbatch ?t = bid ?b" by (simp_all add: demo_first_eq new_batch_def)
  have "StagePct (bstage ?b) = Some (pct_of ''0.1'')" by (simp add: new_batch_def demo_pct)
  then have "InStage demo_md5 (tsn ?t) (pct_of ''0.1'')"
    using new_targets_fresh [OF c i e t] by auto
  then show ?thesis using demo_first_eq(1) t by blast
qed

end
