(* ===== verification/OtaFlow.thy ===== *)
theory OtaFlow
  imports OtaSafety
begin

text \<open>
  How the OTA service behaves: the fuse when a device reports the end of its
  update, the sweeper, and the rounds of the dispatcher.
\<close>

subsection \<open>The fuse\<close>

lemma affected_unique: "distinct (map bid bs) \<Longrightarrow> affected (\<lambda>b. bid b = i \<and> Q b) bs \<le> 1"
proof (induction bs)
  case (Cons b bs)
  show ?case
  proof (cases "bid b = i")
    case True
    then have "affected (\<lambda>b. bid b = i \<and> Q b) bs = 0"
      using Cons.prems by (auto simp: affected_0_iff image_iff)
    then show ?thesis by simp
  next
    case False
    then show ?thesis using Cons by simp
  qed
qed simp

lemma affected_found:
  "find_batch db i = Some b \<Longrightarrow> Q b \<Longrightarrow> affected (\<lambda>b. bid b = i \<and> Q b) (batches db) \<noteq> 0"
  unfolding find_batch_def affected_0_iff by (auto simp: find_Some_iff)

lemma update_batch_found:
  assumes "find_batch db i = Some b" "distinct (map bid (batches db))" "bstatus b \<in> set froms"
    and "\<And>b. bid (f b) = bid b"
  shows "fst (update_batch i froms f db) = 1 \<and>
    find_batch (snd (update_batch i froms f db)) i = Some (f b) \<and>
    distinct (map bid (batches (snd (update_batch i froms f db))))"
proof -
  have "bid b = i" using assms(1) by (auto simp: find_batch_def find_Some_iff)
  have "affected (\<lambda>b. bid b = i \<and> bstatus b \<in> set froms) (batches db) = 1"
    using affected_unique [OF assms(2), of i "\<lambda>b. bstatus b \<in> set froms"]
      affected_found [OF assms(1), of "\<lambda>b. bstatus b \<in> set froms", OF assms(3)] by linarith
  moreover have "map bid (update_where P f (batches db)) = map bid (batches db)" for P
    using assms(4) by (simp add: map_update_where_frame)
  ultimately show ?thesis
    using assms \<open>bid b = i\<close> find_batch_update [of f i froms db i] by (simp add: update_batch_def)
qed

lemma count_terminal_running:
  assumes "find_batch db (cbatch c) = Some b" "distinct (map bid (batches db))" "bstatus b = ''running''"
  shows "\<exists>b'. find_batch (fst (count_terminal s now c db)) (cbatch c) = Some b' \<and>
    ok_count b' = ok_count b + (if cphase c = ''success'' then 1 else 0) \<and>
    fail_count b' = fail_count b + (if cphase c = ''success'' then 0 else 1) \<and>
    (let blow = ShouldFuseAbs (ok_count b') (fail_count b') (rnd64 (fail_ratio_fuse b)) (MinSamples s) (MinAbsFail s) in
       bstatus b' = (if blow then ''fused'' else ''running'') \<and>
       snd (count_terminal s now c db) = Some (if blow then Fused else TerminalCounted))"
proof -
  let ?db1 = "snd (update_batch (cbatch c) [''running'', ''paused''] (count_on (cphase c)) db)"
  let ?b1 = "count_on (cphase c) b"
  let ?fuse = "\<lambda>b. b\<lparr>bstatus := ''fused'', fused_at := Some now\<rparr>"
  have u1: "fst (update_batch (cbatch c) [''running'', ''paused''] (count_on (cphase c)) db) = 1"
      "find_batch ?db1 (cbatch c) = Some ?b1" "distinct (map bid (batches ?db1))"
    using update_batch_found [OF assms(1,2), of "[''running'', ''paused'']" "count_on (cphase c)"] assms(3)
    by (auto simp: count_on_def)
  have st: "bstatus ?b1 = ''running''" "fail_ratio_fuse ?b1 = fail_ratio_fuse b"
    using assms(3) by (simp_all add: count_on_def)
  have u2: "fst (update_batch (cbatch c) [''running''] ?fuse ?db1) = 1"
      "find_batch (snd (update_batch (cbatch c) [''running''] ?fuse ?db1)) (cbatch c) = Some (?fuse ?b1)"
    using update_batch_found [OF u1(2,3), of "[''running'']" ?fuse] st by auto
  let ?blow = "ShouldFuseAbs (ok_count ?b1) (fail_count ?b1) (rnd64 (fail_ratio_fuse b)) (MinSamples s) (MinAbsFail s)"
  have ct: "count_terminal s now c db =
      (if ?blow then (snd (update_batch (cbatch c) [''running''] ?fuse ?db1), Some Fused)
       else (?db1, Some TerminalCounted))"
    unfolding count_terminal_def Let_def count_on_eq by (simp add: split_beta u1(1,2) u2(1) st)
  have cnt: "ok_count ?b1 = ok_count b + (if cphase c = ''success'' then 1 else 0)"
      "fail_count ?b1 = fail_count b + (if cphase c = ''success'' then 0 else 1)"
    by (simp_all add: count_on_def)
  show ?thesis
  proof (cases ?blow)
    case True
    then show ?thesis using u2(2) cnt by (intro exI [of _ "?fuse ?b1"]) (simp add: ct Let_def)
  next
    case False
    then show ?thesis using u1(2) st(1) cnt by (intro exI [of _ ?b1]) (simp add: ct Let_def)
  qed
qed


definition demo_change :: phaseChange where
  "demo_change = \<lparr>cbatch = 1, csn = ''AAAA'', cphase = ''failed'', cerrorCode = ''E1'', retryInc = 1,
     onlyIfStaleFor = 0, metricPrefix = ''progress''\<rparr>"


subsection \<open>Dispatch\<close>

definition pend :: "int \<Rightarrow> Task list \<Rightarrow> Task list" where
  "pend b ts = filter (\<lambda>t. tbatch t = b \<and> tstatus t = ''pending'') ts"

definition notified :: "time \<Rightarrow> Task \<Rightarrow> Task" where
  "notified now t = t\<lparr>tstatus := ''notified'', updated_at := now\<rparr>"

lemma pendingTasks_pend: "pendingTasks db b n = take n (pend b (tasks db))"
  by (simp add: pendingTasks_def pend_def)

definition mark_ids :: "time \<Rightarrow> int set \<Rightarrow> Task list \<Rightarrow> Task list" where
  "mark_ids now I ts = update_where (\<lambda>t. tid t \<in> I \<and> tstatus t = ''pending'') (notified now) ts"

lemma mark_ids_empty [simp]: "mark_ids now {} ts = ts"
  by (simp add: mark_ids_def update_where_def)

lemma mark_ids_insert: "mark_ids now J (mark_ids now {i} ts) = mark_ids now (insert i J) ts"
  by (induction ts) (auto simp: mark_ids_def notified_def)

lemma mark_ids_tid [simp]: "map tid (mark_ids now I ts) = map tid ts"
  by (simp add: mark_ids_def notified_def map_update_where_frame)

lemma pend_mark: "pend b (mark_ids now I ts) = filter (\<lambda>t. tid t \<notin> I) (pend b ts)"
  by (induction ts) (auto simp: mark_ids_def pend_def notified_def)

lemma mark_notified_ids:
  "tasks (snd (mark_notified now i db)) = mark_ids now {i} (tasks db)"
  "snd (mark_notified now i db) = db\<lparr>tasks := mark_ids now {i} (tasks db)\<rparr>"
proof -
  have "(\<lambda>t. t\<lparr>tstatus := ''notified'', updated_at := now\<rparr>) = notified now"
    by (rule ext) (simp add: notified_def)
  then show "snd (mark_notified now i db) = db\<lparr>tasks := mark_ids now {i} (tasks db)\<rparr>"
    by (simp add: mark_notified_def mark_ids_def)
  then show "tasks (snd (mark_notified now i db)) = mark_ids now {i} (tasks db)" by simp
qed

text \<open>One pass over a chunk, without faults.\<close>

lemma send_chunk_all:
  "\<exists>k m. send_chunk (\<lambda>_. Sent) now fw b ts r =
     (True, r\<lparr>RS := (RS r)\<lparr>DB := (DB (RS r))\<lparr>tasks := mark_ids now (tid ` set ts) (tasks (DB (RS r)))\<rparr>, M := m\<rparr>,
        sent := sent r @ map (command fw b) ts, total := k\<rparr>)"
proof (induction ts arbitrary: r)
  case Nil
  show ?case by (intro exI [of _ "total r"] exI [of _ "M (RS r)"]) simp
next
  case (Cons t ts)
  let ?db = "(DB (RS r))\<lparr>tasks := mark_ids now {tid t} (tasks (DB (RS r)))\<rparr>"
  obtain n where m: "mark_notified now (tid t) (DB (RS r)) = (n, ?db)"
    using mark_notified_ids(2) by (metis prod.collapse)
  obtain r1 m1 k1 where r1: "send_chunk (\<lambda>_. Sent) now fw b (t # ts) r = send_chunk (\<lambda>_. Sent) now fw b ts r1"
      "r1 = r\<lparr>RS := (RS r)\<lparr>DB := ?db, M := m1\<rparr>, sent := sent r @ [command fw b t], total := k1\<rparr>"
  proof (cases "n = 1")
    case True
    show ?thesis
      by (rule that [OF _ refl, of "total r + 1" "Inc ''tasks_dispatched'' (M (RS r))"])
        (use m True in \<open>cases r, simp add: Let_def metric_def\<close>)
  next
    case False
    show ?thesis by (rule that [OF _ refl, of "total r" "M (RS r)"]) (use m False in \<open>cases r, simp add: Let_def metric_def\<close>)
  qed
  from Cons.IH [of r1] obtain k m2 where "send_chunk (\<lambda>_. Sent) now fw b ts r1 =
      (True, r1\<lparr>RS := (RS r1)\<lparr>DB := (DB (RS r1))\<lparr>tasks := mark_ids now (tid ` set ts) (tasks (DB (RS r1)))\<rparr>, M := m2\<rparr>,
        sent := sent r1 @ map (command fw b) ts, total := k\<rparr>)" by blast
  then show ?case unfolding r1(1) by (intro exI [of _ k] exI [of _ m2]) (simp add: r1(2) mark_ids_insert)
qed

lemma pend_take_drop:
  assumes "distinct (map tid ts)"
  shows "filter (\<lambda>t. tid t \<notin> tid ` set (take n (pend b ts))) (pend b' ts) =
    (if b' = b then drop n (pend b ts) else pend b' ts)"
proof -
  have inj: "inj_on tid (set ts)" using assms by (simp add: distinct_map)
  have mem: "set (pend c ts) \<subseteq> set ts" for c by (auto simp: pend_def)
  have d: "distinct (pend b ts)" using assms by (simp add: pend_def distinct_map)
  have notin: "tid t \<notin> tid ` set (take n (pend b ts)) \<longleftrightarrow> t \<notin> set (take n (pend b ts))" if "t \<in> set ts" for t
    using inj that mem [of b] set_take_subset [of n "pend b ts"] by (auto dest: inj_onD)
  have "filter (\<lambda>t. tid t \<notin> tid ` set (take n (pend b ts))) (pend b' ts) =
      filter (\<lambda>t. t \<notin> set (take n (pend b ts))) (pend b' ts)"
    using mem notin by (intro filter_cong) auto
  also have "\<dots> = (if b' = b then drop n (pend b ts) else pend b' ts)"
  proof (cases "b' = b")
    case True
    have "filter (\<lambda>t. t \<notin> set xs) (xs @ ys) = ys" if "distinct (xs @ ys)" for xs ys :: "Task list"
      using that by (auto simp: filter_empty_conv intro!: filter_True)
    from this [of "take n (pend b ts)" "drop n (pend b ts)"] d True show ?thesis by simp
  next
    case False
    then have "t \<in> set (pend b' ts) \<Longrightarrow> t \<notin> set (take n (pend b ts))" for t
      by (auto simp: pend_def dest: in_set_takeD)
    with False show ?thesis by simp
  qed
  finally show ?thesis .
qed

text \<open>The loop over one running batch sends all of its pending tasks, in order, and leaves the other batches alone.\<close>

definition drained :: "int set \<Rightarrow> Db \<Rightarrow> Db \<Rightarrow> bool" where
  "drained B db db' \<longleftrightarrow> batches db' = batches db \<and> firmwares db' = firmwares db \<and>
     map tid (tasks db') = map tid (tasks db) \<and>
     (\<forall>b. pend b (tasks db') = (if b \<in> B then [] else pend b (tasks db)))"

lemma dispatch_batch_all:
  assumes "length (pend b (tasks (DB (RS r)))) < fuel" "distinct (map tid (tasks (DB (RS r))))"
    and "find_batch (DB (RS r)) b = Some row" "bstatus row = ''running''"
  shows "\<exists>r'. dispatch_batch fuel (\<lambda>_. False) (\<lambda>_. Sent) now fw b r = (True, r') \<and>
    sent r' = sent r @ map (command fw b) (pend b (tasks (DB (RS r)))) \<and> drained {b} (DB (RS r)) (DB (RS r'))"
  using assms
proof (induction fuel arbitrary: r)
  case (Suc fuel)
  let ?T = "tasks (DB (RS r))"
  let ?ts = "take 200 (pend b ?T)"
  show ?case
  proof (cases "pend b ?T = []")
    case True
    then show ?thesis by (simp add: pendingTasks_pend drained_def)
  next
    case False
    obtain r1 where r1: "send_chunk (\<lambda>_. Sent) now fw b ?ts r = (True, r1)"
        "tasks (DB (RS r1)) = mark_ids now (tid ` set ?ts) ?T"
        "batches (DB (RS r1)) = batches (DB (RS r))" "firmwares (DB (RS r1)) = firmwares (DB (RS r))"
        "sent r1 = sent r @ map (command fw b) ?ts"
      using send_chunk_all [of now fw b ?ts r] by fastforce
    have step: "dispatch_batch (Suc fuel) (\<lambda>_. False) (\<lambda>_. Sent) now fw b r =
        dispatch_batch fuel (\<lambda>_. False) (\<lambda>_. Sent) now fw b r1"
      using False Suc.prems(3,4) r1(1) by (simp add: pendingTasks_pend Let_def)
    have p: "pend c (tasks (DB (RS r1))) = (if c = b then drop 200 (pend b ?T) else pend c ?T)" for c
      unfolding r1(2) pend_mark using pend_take_drop [OF Suc.prems(2)] .
    have "length (pend b (tasks (DB (RS r1)))) < fuel"
      using Suc.prems(1) False by (cases "pend b ?T") (auto simp: p)
    moreover have "distinct (map tid (tasks (DB (RS r1))))" using Suc.prems(2) r1(2) by simp
    moreover have "find_batch (DB (RS r1)) b = Some row" using Suc.prems(3) r1(3) by (simp add: find_batch_def)
    ultimately obtain r' where r': "dispatch_batch fuel (\<lambda>_. False) (\<lambda>_. Sent) now fw b r1 = (True, r')"
        "sent r' = sent r1 @ map (command fw b) (pend b (tasks (DB (RS r1))))"
        "drained {b} (DB (RS r1)) (DB (RS r'))"
      using Suc.IH Suc.prems(4) by blast
    have "sent r' = sent r @ map (command fw b) (pend b ?T)"
      unfolding r'(2) r1(5) p by (simp add: map_append [symmetric] del: map_append)
    moreover have "drained {b} (DB (RS r)) (DB (RS r'))"
      using r'(3) r1(2,3,4) p by (simp add: drained_def)
    ultimately show ?thesis using step r'(1) by simp
  qed
qed simp

definition closed_now :: "tzdb \<Rightarrow> time \<Rightarrow> Batch \<Rightarrow> bool" where
  "closed_now tzdb now b \<longleftrightarrow> (\<exists>w. ParseWindow tzdb (bpolicy b) = Inr w \<and> \<not> InWindow tzdb w now)"

lemma closed_now_case:
  "(case ParseWindow tzdb (bpolicy b) of Inr w \<Rightarrow> \<not> InWindow tzdb w now | Inl _ \<Rightarrow> False) = closed_now tzdb now b"
  by (auto simp: closed_now_def split: sum.splits)

definition round_commands :: "tzdb \<Rightarrow> time \<Rightarrow> Db \<Rightarrow> (Batch \<times> Firmware) list \<Rightarrow> otaCmd list" where
  "round_commands tzdb now db bfs =
     concat (map (\<lambda>(b, fw). if closed_now tzdb now b then []
       else map (command fw (bid b)) (pend (bid b) (tasks db))) bfs)"

lemma dispatch_batches_all:
  assumes "distinct (map tid (tasks (DB (RS r))))" "distinct (map (bid \<circ> fst) bfs)"
    and "\<forall>(b, fw)\<in>set bfs. \<exists>row. find_batch (DB (RS r)) (bid b) = Some row \<and> bstatus row = ''running''"
  shows "\<exists>r'. dispatch_batches tzdb (\<lambda>_. False) (\<lambda>_. Sent) now bfs r = (True, r') \<and>
    sent r' = sent r @ round_commands tzdb now (DB (RS r)) bfs \<and>
    drained (bid ` fst ` {bf \<in> set bfs. \<not> closed_now tzdb now (fst bf)}) (DB (RS r)) (DB (RS r'))"
  using assms
proof (induction bfs arbitrary: r)
  case Nil
  then show ?case by (simp add: round_commands_def drained_def)
next
  case (Cons bf bfs)
  obtain b fw where bf: "bf = (b, fw)" by fastforce
  show ?case
  proof (cases "closed_now tzdb now b")
    case True
    let ?r1 = "r\<lparr>RS := metric ''window_skipped'' (RS r)\<rparr>"
    have "\<exists>r'. dispatch_batches tzdb (\<lambda>_. False) (\<lambda>_. Sent) now bfs ?r1 = (True, r') \<and>
        sent r' = sent ?r1 @ round_commands tzdb now (DB (RS ?r1)) bfs \<and>
        drained (bid ` fst ` {bf \<in> set bfs. \<not> closed_now tzdb now (fst bf)}) (DB (RS ?r1)) (DB (RS r'))"
      using Cons.prems by (intro Cons.IH) auto
    moreover have "{bf' \<in> set (bf # bfs). \<not> closed_now tzdb now (fst bf')} =
        {bf \<in> set bfs. \<not> closed_now tzdb now (fst bf)}" using True bf by auto
    ultimately show ?thesis using True bf
      by (simp add: closed_now_case round_commands_def)
  next
    case False
    let ?T = "tasks (DB (RS r))"
    from Cons.prems(3) bf obtain row where row: "find_batch (DB (RS r)) (bid b) = Some row" "bstatus row = ''running''"
      by auto
    have "length (pend (bid b) ?T) < Suc (length ?T)" by (simp add: pend_def less_Suc_eq_le)
    from dispatch_batch_all [OF this Cons.prems(1) row, of now fw] obtain r1 where r1:
      "dispatch_batch (Suc (length ?T)) (\<lambda>_. False) (\<lambda>_. Sent) now fw (bid b) r = (True, r1)"
      "sent r1 = sent r @ map (command fw (bid b)) (pend (bid b) ?T)"
      "drained {bid b} (DB (RS r)) (DB (RS r1))" by blast
    have "distinct (map tid (tasks (DB (RS r1))))" using Cons.prems(1) r1(3) by (simp add: drained_def)
    moreover have "\<forall>(b, fw)\<in>set bfs. \<exists>row. find_batch (DB (RS r1)) (bid b) = Some row \<and> bstatus row = ''running''"
      using Cons.prems(3) r1(3) by (simp add: drained_def find_batch_def)
    ultimately obtain r' where r': "dispatch_batches tzdb (\<lambda>_. False) (\<lambda>_. Sent) now bfs r1 = (True, r')"
        "sent r' = sent r1 @ round_commands tzdb now (DB (RS r1)) bfs"
        "drained (bid ` fst ` {bf \<in> set bfs. \<not> closed_now tzdb now (fst bf)}) (DB (RS r1)) (DB (RS r'))"
      using Cons.IH [of r1] Cons.prems(2) by auto
    have "bid b \<notin> (bid \<circ> fst) ` set bfs" using Cons.prems(2) bf by auto
    then have "pend (bid b') (tasks (DB (RS r1))) = pend (bid b') ?T" if "(b', fw') \<in> set bfs" for b' fw'
      using r1(3) that by (force simp: drained_def)
    then have "round_commands tzdb now (DB (RS r1)) bfs = round_commands tzdb now (DB (RS r)) bfs"
      unfolding round_commands_def by (intro arg_cong [of _ _ concat] map_cong) auto
    then have "sent r' = sent r @ round_commands tzdb now (DB (RS r)) (bf # bfs)"
      using r'(2) r1(2) False bf by (simp add: round_commands_def)
    moreover have "{bf' \<in> set (bf # bfs). \<not> closed_now tzdb now (fst bf')} =
        insert (b, fw) {bf \<in> set bfs. \<not> closed_now tzdb now (fst bf)}" using False bf by auto
    moreover have "drained (insert (bid b) (bid ` fst ` {bf \<in> set bfs. \<not> closed_now tzdb now (fst bf)}))
        (DB (RS r)) (DB (RS r'))"
      using r1(3) r'(3) by (auto simp: drained_def)
    ultimately show ?thesis using False bf r1(1) r'(1) by (simp add: closed_now_case del: dispatch_batch.simps)
  qed
qed

text \<open>What a command of a round is for, whatever faults there are.\<close>

definition legitimate :: "tzdb \<Rightarrow> time \<Rightarrow> Db \<Rightarrow> otaCmd \<Rightarrow> bool" where
  "legitimate tzdb now db cmd \<longleftrightarrow> (\<exists>b fw t. (b, fw) \<in> set (running_batches db) \<and> \<not> closed_now tzdb now b \<and>
     t \<in> set (pend (bid b) (tasks db)) \<and> cmd = command fw (bid b) t)"

lemma send_chunk_sent:
  "send_chunk ok now fw b ts r = (x, r') \<Longrightarrow>
   set (sent r') \<subseteq> set (sent r) \<union> command fw b ` set ts \<and>
   (\<forall>c. set (pend c (tasks (DB (RS r')))) \<subseteq> set (pend c (tasks (DB (RS r)))))"
proof (induction ts arbitrary: r)
  case (Cons t ts)
  show ?case
  proof (cases "ok t")
    case Sent
    obtain n where m: "mark_notified now (tid t) (DB (RS r)) =
        (n, (DB (RS r))\<lparr>tasks := mark_ids now {tid t} (tasks (DB (RS r)))\<rparr>)"
      using mark_notified_ids(2) by (metis prod.collapse)
    obtain r1 where r1: "send_chunk ok now fw b ts r1 = (x, r')" "sent r1 = sent r @ [command fw b t]"
        "tasks (DB (RS r1)) = mark_ids now {tid t} (tasks (DB (RS r)))"
      using Cons.prems Sent m by (auto simp: Let_def)
    have "set (pend c (tasks (DB (RS r1)))) \<subseteq> set (pend c (tasks (DB (RS r))))" for c
      unfolding r1(3) pend_mark by auto
    with Cons.IH [OF r1(1)] r1(2) show ?thesis by fastforce
  qed (use Cons.prems in auto)
qed auto

lemma dispatch_batch_sent:
  "dispatch_batch fuel flt ok now fw b r = (x, r') \<Longrightarrow>
   set (sent r') \<subseteq> set (sent r) \<union> command fw b ` set (pend b (tasks (DB (RS r)))) \<and>
   (\<forall>c. set (pend c (tasks (DB (RS r')))) \<subseteq> set (pend c (tasks (DB (RS r)))))"
proof (induction fuel arbitrary: r)
  case (Suc fuel)
  let ?ts = "take 200 (pend b (tasks (DB (RS r))))"
  obtain y r1 where s: "send_chunk ok now fw b ?ts r = (y, r1)" by fastforce
  have "set ?ts \<subseteq> set (pend b (tasks (DB (RS r))))" by (rule set_take_subset)
  with send_chunk_sent [OF s] have one: "set (sent r1) \<subseteq> set (sent r) \<union> command fw b ` set (pend b (tasks (DB (RS r))))"
      "\<forall>c. set (pend c (tasks (DB (RS r1)))) \<subseteq> set (pend c (tasks (DB (RS r))))" by blast+
  from Suc.prems s have "r' = r \<or> r' = r1 \<or> dispatch_batch fuel flt ok now fw b r1 = (x, r')"
    by (auto simp: pendingTasks_pend Let_def split: if_splits option.splits bool.splits)
  then show ?case
  proof (elim disjE)
    assume "dispatch_batch fuel flt ok now fw b r1 = (x, r')"
    from Suc.IH [OF this] one show ?thesis by blast
  qed (use one in auto)
qed auto

lemma dispatch_batches_sent:
  assumes "dispatch_batches tzdb flt ok now bfs r = (x, r')" "cmd \<in> set (sent r')"
  shows "cmd \<in> set (sent r) \<or> (\<exists>b fw t. (b, fw) \<in> set bfs \<and> \<not> closed_now tzdb now b \<and>
     t \<in> set (pend (bid b) (tasks (DB (RS r)))) \<and> cmd = command fw (bid b) t)"
  using assms
proof (induction bfs arbitrary: r)
  case (Cons bf bfs)
  obtain b fw where bf: "bf = (b, fw)" by fastforce
  show ?case
  proof (cases "closed_now tzdb now b")
    case True
    then show ?thesis using Cons.prems Cons.IH [of "r\<lparr>RS := metric ''window_skipped'' (RS r)\<rparr>"] bf
      by (fastforce simp: closed_now_case)
  next
    case False
    obtain y r1 where d: "dispatch_batch (Suc (length (tasks (DB (RS r))))) flt ok now fw (bid b) r = (y, r1)"
      by fastforce
    note one = dispatch_batch_sent [OF d]
    show ?thesis
    proof (cases "cmd \<in> set (sent r1)")
      case True
      with one have "cmd \<in> set (sent r) \<or> cmd \<in> command fw (bid b) ` set (pend (bid b) (tasks (DB (RS r))))"
        by blast
      then show ?thesis using False bf by auto
    next
      case no: False
      then have "y" "dispatch_batches tzdb flt ok now bfs r1 = (x, r')"
        using Cons.prems d False bf by (auto simp: closed_now_case split: bool.splits simp del: dispatch_batch.simps)
      from Cons.IH [OF this(2) Cons.prems(2)] no one show ?thesis using bf by fastforce
    qed
  qed
qed simp



subsection \<open>Two ways around the ladder\<close>

text \<open>
  A sub-batch only takes its parent's stage when the request names none: with the first batch of a firmware at 0.1 percent, a
  request for a sub-batch of it at 100 percent with any approver's name is accepted, and
  without a list of serial numbers it targets the whole product.
\<close>

definition jump_req :: BatchReq where
  "jump_req = \<lparr>FirmwareID = 1, Stage = ''100'', CreatedBy = ''bob'', ApprovedBy = ''bob'', FailRatioFuse = None,
     ExplicitSNs = [], ParentBatchID = Some 1, ReqPolicy = NoPolicy\<rparr>"

lemma full_stage_all: "StagePct ''100'' = Some 100" "InStage md5 sn 100"
  by (simp_all add: StagePct_def Stages_def pct_of_def decimal_stages InStage_def)

theorem sub_batch_skips_ladder:
  "\<exists>b. fst (demo_create jump_req demo_first) = Inr b \<and> bstage b = ''100'' \<and>
     set (map tsn (tasks_of (DB (snd (demo_create jump_req demo_first))) (bid b))) = {''BBBB''} \<and>
     set (map dsn (devices (DB demo_first))) = {''AAAA'', ''BBBB''} \<and>
     map bstage (batches (DB demo_first)) = [''0.1'']"
proof -
  have d: "DB demo_first = (DB demo_service)\<lparr>
      batches := [(new_batch 1 demo_req ''0.1'' [] 0)\<lparr>target_total := 1\<rparr>], next_batch := 2,
      tasks := [\<lparr>tid = 1, tbatch = 1, tsn = ''AAAA'', tstatus = ''pending'', retry = 0,
        error_code = None, updated_at = 0\<rparr>], next_task := 2\<rparr>"
    by (simp add: run_create demo_first_def demo_req_def demo_service_def demo_fw_def demo_devices_def
        demo_pct demo_stage)
  show ?thesis
    by (simp add: run_create d demo_service_def jump_req_def demo_req_def demo_fw_def demo_devices_def
        full_stage_all tasks_of_def)
qed

text \<open>
  The lock on the latest row does not serialise two creations: the statement that waited for it
  returns the row it had found before, and the batch inserted in between is not looked at. With
  the tables before the first creation as that view, the first stage is created twice.
\<close>

theorem concurrent_stage_duplicated:
  "\<exists>b. fst (CreateBatch_from (DB demo_service) no_faults (\<lambda>_. None) demo_md5 0 demo_req demo_first) = Inr b \<and>
     map bstage (platform_batches (DB demo_first) 1 @ [b]) = [''0.1'', ''0.1'']"
proof -
  have d: "DB demo_first = (DB demo_service)\<lparr>
      batches := [(new_batch 1 demo_req ''0.1'' [] 0)\<lparr>target_total := 1\<rparr>], next_batch := 2,
      tasks := [\<lparr>tid = 1, tbatch = 1, tsn = ''AAAA'', tstatus = ''pending'', retry = 0,
        error_code = None, updated_at = 0\<rparr>], next_task := 2\<rparr>"
    by (simp add: run_create demo_first_def demo_req_def demo_service_def demo_fw_def demo_devices_def
        demo_pct demo_stage)
  show ?thesis
    by (simp add: run_create d demo_service_def demo_req_def demo_fw_def demo_devices_def demo_pct demo_stage)
qed

end
