(* ===== verification/Alarm.thy ===== *)
theory Alarm
  imports Topics
begin

text \<open>
  Safety alarms, \<open>internal/alarm\<close>: the status column and its guarded updates (\<open>state.go\<close>, \<open>service.go\<close>), the
  handling of an event, and the reconciliation that finds events without an alarm (\<open>reconcile.go\<close>).

  The state is the table \<open>iot_shard.alarm\<close> (rows in identity order), the squelch keys
  in Redis with their expiry, and the counters. The answers of Redis, the database,
  the target lookup and the push channel are arguments; payloads are given decoded.
\<close>

subsection \<open>The status machine\<close>

definition transitions :: "(string \<times> string list) list" where
  "transitions =
     [(''open'', [''notified'', ''acked'']), (''notified'', [''acked'']), (''acked'', [''closed'']), (''closed'', [])]"

definition Allowed :: "string \<Rightarrow> string \<Rightarrow> bool" where
  "Allowed from to = (case map_of transitions from of None \<Rightarrow> False | Some tos \<Rightarrow> to \<in> set tos)"

text \<open>In the order of \<open>sort.Strings\<close>, which is the order of the table.\<close>

definition Sources :: "string \<Rightarrow> string list" where
  "Sources to =
     filter (\<lambda>from. Allowed from to) [''acked'', ''closed'', ''notified'', ''open'']"

definition alarm_rank :: "string \<Rightarrow> nat" where
  "alarm_rank s = (if s = ''open'' then 0 else if s = ''notified'' then 1 else if s = ''acked'' then 2 else 3)"

lemma Allowed_iff:
  "Allowed a b \<longleftrightarrow> (a, b) \<in> {(''open'', ''notified''), (''open'', ''acked''), (''notified'', ''acked''), (''acked'', ''closed'')}"
  by (auto simp: Allowed_def transitions_def split: if_splits)

lemma Sources_simps: "Sources ''acked'' = [''notified'', ''open'']" "Sources ''closed'' = [''acked'']"
  by (simp_all add: Sources_def Allowed_iff)

interpretation status: status_machine Allowed alarm_rank
  by unfold_locales (auto simp: Allowed_iff alarm_rank_def)

subsection \<open>State\<close>

record AlarmRow =
  aid :: int
  asn :: string
  acode :: string
  alevel :: string
  event_ts :: time
  astatus :: string
  notified_at :: "time option"
  acked_at :: "time option"
  escalated_at :: "time option"
  closed_by :: "string option"

record AlarmSvc =
  rows :: "AlarmRow list"
  next_id :: int
  squelch :: "string \<Rightarrow> time option"
  AM :: metrics

definition count :: "string \<Rightarrow> AlarmSvc \<Rightarrow> AlarmSvc" where
  "count name s = s\<lparr>AM := Inc name (AM s)\<rparr>"

lemma count_frame [simp]:
  "rows (count n s) = rows s" "next_id (count n s) = next_id s" "squelch (count n s) = squelch s"
  by (simp_all add: count_def)

datatype alarm_error = ErrIllegalTransition | AlarmDbError

abbreviation SquelchTTL :: duration where "SquelchTTL \<equiv> 300000000000"

definition SquelchKey :: "string \<Rightarrow> string \<Rightarrow> string" where
  "SquelchKey sn c = ''alarm:squelch:'' @ sn @ '':'' @ c"

text \<open>\<open>SET key NX EX\<close>: whether the key was set, and the keys after.\<close>

definition SetNX :: "time \<Rightarrow> string \<Rightarrow> duration \<Rightarrow> (string \<Rightarrow> time option) \<Rightarrow> bool \<times> (string \<Rightarrow> time option)" where
  "SetNX now k ttl m =
     (case m k of
        Some e \<Rightarrow> if now < e then (False, m) else (True, m(k \<mapsto> now + ttl))
      | None \<Rightarrow> (True, m(k \<mapsto> now + ttl)))"

subsection \<open>Guarded updates\<close>

text \<open>\<open>UPDATE alarm SET ... WHERE id = i AND status IN froms\<close>.\<close>

definition guarded :: "int \<Rightarrow> string list \<Rightarrow> (AlarmRow \<Rightarrow> AlarmRow) \<Rightarrow> AlarmSvc \<Rightarrow> nat \<times> AlarmSvc" where
  "guarded i froms f s =
     (affected (\<lambda>r. aid r = i \<and> astatus r \<in> set froms) (rows s),
      s\<lparr>rows := update_where (\<lambda>r. aid r = i \<and> astatus r \<in> set froms) f (rows s)\<rparr>)"

definition markNotified :: "bool \<Rightarrow> time \<Rightarrow> int \<Rightarrow> AlarmSvc \<Rightarrow> alarm_error option \<times> AlarmSvc" where
  "markNotified fails now i s =
     (if fails then (Some AlarmDbError, s)
      else case guarded i [''open''] (\<lambda>r. r\<lparr>astatus := ''notified'', notified_at := Some now\<rparr>) s of
        (0, _) \<Rightarrow> (Some ErrIllegalTransition, s)
      | (_, s') \<Rightarrow> (None, s'))"

definition Ack :: "bool \<Rightarrow> time \<Rightarrow> int \<Rightarrow> AlarmSvc \<Rightarrow> alarm_error option \<times> AlarmSvc" where
  "Ack fails now i s =
     (if fails then (Some AlarmDbError, s)
      else case guarded i (Sources ''acked'') (\<lambda>r. r\<lparr>astatus := ''acked'', acked_at := Some now\<rparr>) s of
        (0, _) \<Rightarrow> (Some ErrIllegalTransition, count ''illegal_transitions'' s)
      | (_, s') \<Rightarrow> (None, count ''alarms_acked'' s'))"

definition Close :: "bool \<Rightarrow> int \<Rightarrow> string \<Rightarrow> AlarmSvc \<Rightarrow> alarm_error option \<times> AlarmSvc" where
  "Close fails i closedBy s =
     (if fails then (Some AlarmDbError, s)
      else case guarded i (Sources ''closed'') (\<lambda>r. r\<lparr>astatus := ''closed'', closed_by := Some closedBy\<rparr>) s of
        (0, _) \<Rightarrow> (Some ErrIllegalTransition, count ''illegal_transitions'' s)
      | (_, s') \<Rightarrow> (None, count ''alarms_closed'' s'))"

text \<open>Ten minutes without an acknowledgement.\<close>

definition overdue :: "time \<Rightarrow> AlarmRow \<Rightarrow> bool" where
  "overdue now r \<longleftrightarrow> astatus r = ''notified'' \<and> alevel r = ''critical'' \<and>
     (case notified_at r of None \<Rightarrow> False | Some t \<Rightarrow> t < now - 10 * minute) \<and> escalated_at r = None"

definition EscalateOnce :: "bool \<Rightarrow> time \<Rightarrow> AlarmSvc \<Rightarrow> (alarm_error + nat) \<times> AlarmSvc" where
  "EscalateOnce fails now s =
     (if fails then (Inl AlarmDbError, s)
      else let n = affected (overdue now) (rows s) in
        (Inr n, s\<lparr>rows := update_where (overdue now) (\<lambda>r. r\<lparr>escalated_at := Some now\<rparr>) (rows s),
                  AM := Add ''alarms_escalated'' (int n) (AM s)\<rparr>))"

subsection \<open>An event\<close>

datatype Outcome = Dropped | OIgnored | Squelched | Opened | Notified | StaysOpen

record eventPayload =
  Ts :: int
  Code :: string

text \<open>How the outside answers while one event is handled.\<close>

datatype lookup = NoLookup | LookupFailed | LookupOk

record Answers =
  redis_fails :: bool
  insert_fails :: bool
  targets :: lookup
  push_ok :: bool
  mark_fails :: bool

definition resolveTargets :: "lookup \<Rightarrow> AlarmSvc \<Rightarrow> AlarmSvc" where
  "resolveTargets l s =
     (case l of NoLookup \<Rightarrow> s | LookupFailed \<Rightarrow> count ''targets_fallback'' s | LookupOk \<Rightarrow> count ''targets_resolved'' s)"

definition insert_alarm :: "string \<Rightarrow> string \<Rightarrow> time \<Rightarrow> AlarmSvc \<Rightarrow> AlarmSvc" where
  "insert_alarm sn c ts s =
     s\<lparr>rows := rows s @ [\<lparr>aid = next_id s, asn = sn, acode = c, alevel = ''critical'', event_ts = ts,
          astatus = ''open'', notified_at = None, acked_at = None, escalated_at = None, closed_by = None\<rparr>],
       next_id := next_id s + 1\<rparr>"

text \<open>The first part: up to the insertion. \<open>Inl\<close> ends the handling; \<open>Inr\<close> is the identity of the new alarm.\<close>

definition open_part ::
  "Answers \<Rightarrow> time \<Rightarrow> bool \<Rightarrow> string \<Rightarrow> int \<Rightarrow> eventPayload option \<Rightarrow> AlarmSvc \<Rightarrow>
   ((alarm_error + Outcome) + int) \<times> AlarmSvc" where
  "open_part a now use_squelch sn recvTs payload s0 =
     (let s = count ''events_total'' s0 in
      case payload of
        None \<Rightarrow> (Inl (Inr Dropped), count ''events_bad_payload'' s)
      | Some p \<Rightarrow>
          if Code p = [] then (Inl (Inr Dropped), count ''events_bad_payload'' s)
          else if Code p \<notin> set SafetyCodes then (Inl (Inr OIgnored), count ''events_ignored'' s)
          else let s1 = count ''events_safety'' s;
              ts = (if Ts p = 0 then recvTs else Ts p) * 1000000;
              (ok, s2) = (if \<not> use_squelch then (True, s1)
                 else if redis_fails a then (True, count ''squelch_redis_errors'' s1)
                 else case SetNX now (SquelchKey sn (Code p)) SquelchTTL (squelch s1) of
                   (True, m) \<Rightarrow> (True, s1\<lparr>squelch := m\<rparr>)
                 | (False, _) \<Rightarrow> (False, count ''events_squelched'' s1))
            in if \<not> ok then (Inl (Inr Squelched), s2)
               else if insert_fails a then (Inl (Inl AlarmDbError), count ''db_errors'' s2)
               else (Inr (next_id s2), count ''alarms_opened'' (insert_alarm sn (Code p) ts s2)))"

text \<open>The second part: the push and the mark.\<close>

definition notify_part :: "Answers \<Rightarrow> time \<Rightarrow> int \<Rightarrow> AlarmSvc \<Rightarrow> (alarm_error + Outcome) \<times> AlarmSvc" where
  "notify_part a now i s0 =
     (let s = resolveTargets (targets a) s0 in
      if \<not> push_ok a then (Inr StaysOpen, count ''notify_errors'' s)
      else case markNotified (mark_fails a) now i s of
        (None, s') \<Rightarrow> (Inr Notified, count ''alarms_notified'' s')
      | (Some ErrIllegalTransition, s') \<Rightarrow> (Inr StaysOpen, count ''illegal_transitions'' s')
      | (Some AlarmDbError, s') \<Rightarrow> (Inl AlarmDbError, count ''db_errors'' s'))"

text \<open>\<open>meanwhile\<close> is what other requests do to the state between the two.\<close>

definition handleEvent ::
  "(AlarmSvc \<Rightarrow> AlarmSvc) \<Rightarrow> Answers \<Rightarrow> time \<Rightarrow> bool \<Rightarrow> string \<Rightarrow> int \<Rightarrow> eventPayload option \<Rightarrow> AlarmSvc \<Rightarrow>
   (alarm_error + Outcome) \<times> AlarmSvc" where
  "handleEvent meanwhile a now use_squelch sn recvTs payload s =
     (case open_part a now use_squelch sn recvTs payload s of
        (Inl r, s1) \<Rightarrow> (r, s1)
      | (Inr i, s1) \<Rightarrow> notify_part a now i (meanwhile s1))"

text \<open>The consumer acknowledges a message unless its handling reports an error.\<close>

definition acknowledged :: "(alarm_error + Outcome) \<Rightarrow> bool" where
  "acknowledged r \<longleftrightarrow> (\<exists>out. r = Inr out)"

subsection \<open>What happens to a row\<close>

definition row_step :: "AlarmRow \<Rightarrow> AlarmRow \<Rightarrow> bool" where
  "row_step r r' \<longleftrightarrow> aid r' = aid r \<and> asn r' = asn r \<and> acode r' = acode r \<and> event_ts r' = event_ts r \<and>
     alevel r' = alevel r \<and> (astatus r' = astatus r \<or> Allowed (astatus r) (astatus r'))"

text \<open>The table keeps its rows, each moved by one step at most, and gets new ones at its end.\<close>

definition grows :: "AlarmRow list \<Rightarrow> AlarmRow list \<Rightarrow> bool" where
  "grows rs rs' \<longleftrightarrow> (\<exists>g extra. rs' = map g rs @ extra \<and> (\<forall>r. row_step r (g r)))"

lemma row_step_refl [simp]: "row_step r r"
  by (simp add: row_step_def)

lemma grows_refl [simp]: "grows rs rs"
  by (auto simp: grows_def intro: exI [of _ id])

lemma grows_update: "(\<And>r. P r \<Longrightarrow> row_step r (f r)) \<Longrightarrow> grows rs (update_where P f rs)"
  unfolding grows_def update_where_def by (rule exI [of _ "\<lambda>r. if P r then f r else r"]) auto

lemma grows_append: "grows rs (rs @ xs)"
  by (auto simp: grows_def intro: exI [of _ id])

lemma guarded_grows:
  assumes "\<And>r. astatus r \<in> set froms \<Longrightarrow> row_step r (f r)"
  shows "grows (rows s) (rows (snd (guarded i froms f s)))"
  using assms by (auto simp: guarded_def intro: grows_update)

lemma open_part_grows: "grows (rows s) (rows (snd (open_part a now sq sn rt p s)))"
  by (auto simp: open_part_def Let_def insert_alarm_def grows_append split: option.splits prod.splits bool.splits)

lemma guarded_case_grows:
  assumes "\<And>r. astatus r \<in> set froms \<Longrightarrow> row_step r (f r)" "guarded i froms f s = (n, s')"
  shows "grows (rows s) (rows s')"
  using guarded_grows [of froms f s i] assms by simp

lemma markNotified_grows: "grows (rows s) (rows (snd (markNotified fl now i s)))"
  by (auto simp: markNotified_def row_step_def Allowed_iff split: prod.splits nat.splits
      elim!: guarded_case_grows [rotated])

lemma Ack_grows: "grows (rows s) (rows (snd (Ack fl now i s)))"
  by (auto simp: Ack_def row_step_def Sources_simps Allowed_iff split: prod.splits nat.splits
      elim!: guarded_case_grows [rotated])

lemma Close_grows: "grows (rows s) (rows (snd (Close fl i by s)))"
  by (auto simp: Close_def row_step_def Sources_simps Allowed_iff split: prod.splits nat.splits
      elim!: guarded_case_grows [rotated])

lemma EscalateOnce_grows: "grows (rows s) (rows (snd (EscalateOnce fl now s)))"
  by (auto simp: EscalateOnce_def Let_def intro!: grows_update) (simp add: row_step_def)

lemma resolveTargets_rows [simp]: "rows (resolveTargets l s) = rows s"
  by (simp add: resolveTargets_def split: lookup.splits)

lemma notify_part_grows: "grows (rows s) (rows (snd (notify_part a now i s)))"
  using markNotified_grows [of "resolveTargets (targets a) s" "mark_fails a" now i]
  by (auto simp: notify_part_def Let_def split: prod.splits option.splits alarm_error.splits)

subsection \<open>Interleaved requests\<close>

inductive alarm_step :: "AlarmSvc \<Rightarrow> AlarmSvc \<Rightarrow> bool" where
  "alarm_step s (snd (open_part a now sq sn rt p s))"
| "alarm_step s (snd (notify_part a now i s))"
| "alarm_step s (snd (Ack fl now i s))"
| "alarm_step s (snd (Close fl i by s))"
| "alarm_step s (snd (EscalateOnce fl now s))"

lemma alarm_step_grows: "alarm_step s s' \<Longrightarrow> grows (rows s) (rows s')"
  by (induction rule: alarm_step.induct)
    (simp_all add: open_part_grows notify_part_grows Ack_grows Close_grows EscalateOnce_grows)

lemma history:
  assumes "alarm_step\<^sup>*\<^sup>* s s'" "r \<in> set (rows s)"
  shows "\<exists>r'\<in>set (rows s'). aid r' = aid r \<and> asn r' = asn r \<and> acode r' = acode r \<and> event_ts r' = event_ts r \<and>
    Allowed\<^sup>*\<^sup>* (astatus r) (astatus r')"
  using assms
proof (induction rule: rtranclp_induct)
  case (step s1 s2)
  then obtain r1 where r1: "r1 \<in> set (rows s1)" "aid r1 = aid r" "asn r1 = asn r" "acode r1 = acode r"
      "event_ts r1 = event_ts r" "Allowed\<^sup>*\<^sup>* (astatus r) (astatus r1)" by auto
  obtain g extra where g: "rows s2 = map g (rows s1) @ extra" "\<forall>r. row_step r (g r)"
    using alarm_step_grows [OF step.hyps(2)] by (auto simp: grows_def)
  then have "row_step r1 (g r1)" "g r1 \<in> set (rows s2)" using r1(1) by auto
  with r1 show ?case by (metis row_step_def rtranclp.rtrancl_into_rtrancl)
qed auto

text \<open>
  C35: an alarm is never lost and never goes back. In any interleaving of events, acknowledgements, closings and escalations, every
  alarm stays in the table with its device, code and time; its status only moves along the table of permitted
  moves, cannot come back to a status it has left, and stays closed once closed.
\<close>

theorem alarm_lifecycle:
  assumes "alarm_step\<^sup>*\<^sup>* s s'" "r \<in> set (rows s)"
  shows "\<exists>r'\<in>set (rows s'). aid r' = aid r \<and> asn r' = asn r \<and> acode r' = acode r \<and> event_ts r' = event_ts r \<and>
    Allowed\<^sup>*\<^sup>* (astatus r) (astatus r') \<and> (Allowed\<^sup>*\<^sup>* (astatus r') (astatus r) \<longrightarrow> astatus r' = astatus r) \<and>
    (astatus r = ''closed'' \<longrightarrow> astatus r' = ''closed'')"
proof -
  from history [OF assms] obtain r' where r': "r' \<in> set (rows s')" "aid r' = aid r" "asn r' = asn r"
      "acode r' = acode r" "event_ts r' = event_ts r" "Allowed\<^sup>*\<^sup>* (astatus r) (astatus r')" by auto
  have "\<not> Allowed ''closed'' b" for b by (simp add: Allowed_iff)
  then have "astatus r = ''closed'' \<longrightarrow> astatus r' = ''closed''" using r'(6) status.absorbing by metis
  moreover have "Allowed\<^sup>*\<^sup>* (astatus r') (astatus r) \<longrightarrow> astatus r' = astatus r"
    using r'(6) status.no_return by metis
  ultimately show ?thesis using r' by blast
qed

definition demo_alarm :: AlarmRow where
  "demo_alarm = \<lparr>aid = 1, asn = ''AAAA'', acode = ''TILT'', alevel = ''critical'', event_ts = 0,
     astatus = ''open'', notified_at = None, acked_at = None, escalated_at = None, closed_by = None\<rparr>"

definition demo_alarms :: AlarmSvc where
  "demo_alarms = \<lparr>rows = [demo_alarm], next_id = 2, squelch = (\<lambda>_. None), AM = (\<lambda>_. 0)\<rparr>"

theorem alarm_lifecycle_witness:
  "\<exists>r'\<in>set (rows (snd (Ack False 5 1 demo_alarms))). aid r' = 1 \<and> astatus r' = ''acked'' \<and> Allowed\<^sup>*\<^sup>* ''open'' ''acked''"
proof -
  have "alarm_step\<^sup>*\<^sup>* demo_alarms (snd (Ack False 5 1 demo_alarms))"
    by (intro r_into_rtranclp alarm_step.intros)
  moreover have "demo_alarm \<in> set (rows demo_alarms)" by (simp add: demo_alarms_def)
  ultimately obtain r' where "r' \<in> set (rows (snd (Ack False 5 1 demo_alarms)))" "aid r' = 1"
      "Allowed\<^sup>*\<^sup>* ''open'' (astatus r')"
    using alarm_lifecycle [of demo_alarms "snd (Ack False 5 1 demo_alarms)" demo_alarm]
    by (auto simp: demo_alarm_def)
  moreover have "\<forall>r\<in>set (rows (snd (Ack False 5 1 demo_alarms))). astatus r = ''acked''"
    by (simp add: Ack_def guarded_def demo_alarms_def demo_alarm_def Sources_simps)
  ultimately show ?thesis by metis
qed

subsection \<open>No safety event goes unnoticed\<close>

lemma open_part_inserts:
  assumes "open_part a now sq sn rt p s = (Inr i, s')"
  shows "\<exists>pl ts. p = Some pl \<and> Code pl \<in> set SafetyCodes \<and> \<not> insert_fails a \<and>
    (\<exists>r\<in>set (rows s'). aid r = i \<and> asn r = sn \<and> acode r = Code pl \<and> event_ts r = ts \<and> astatus r = ''open'')"
  using assms
  by (auto simp: open_part_def Let_def insert_alarm_def split: option.splits prod.splits bool.splits if_splits)


definition demo_answers :: Answers where
  "demo_answers = \<lparr>redis_fails = False, insert_fails = False, targets = NoLookup, push_ok = True, mark_fails = False\<rparr>"


text \<open>
  The limit of it: the squelch key is set before the row is written and is not taken back. If the insertion
  fails, the message is redelivered, and within five minutes the second delivery is squelched and
  acknowledged: the event has no alarm.
\<close>

theorem failed_insert_squelches_retry:
  assumes "handleEvent meanwhile a now True sn rt (Some p) s = (Inl AlarmDbError, s1)"
    and "insert_fails a" "\<not> redis_fails a" "Code p \<in> set SafetyCodes" "now' < now + SquelchTTL" "\<not> redis_fails a'"
    and "squelch s (SquelchKey sn (Code p)) = None"
  shows "rows s1 = rows s \<and> fst (handleEvent meanwhile a' now' True sn rt (Some p) s1) = Inr Squelched \<and>
    rows (snd (handleEvent meanwhile a' now' True sn rt (Some p) s1)) = rows s"
proof -
  have ne: "Code p \<noteq> []" using assms(4) by (auto simp: SafetyCodes_def)
  then have "rows s1 = rows s \<and> squelch s1 (SquelchKey sn (Code p)) = Some (now + SquelchTTL)"
    using assms by (auto simp: handleEvent_def open_part_def Let_def SetNX_def)
  then show ?thesis using assms(4,5,6) ne
    by (simp add: handleEvent_def open_part_def Let_def SetNX_def)
qed

end
