(* ===== verification/Reconcile.thy ===== *)
theory Reconcile
  imports Alarm "HOL-Library.Sublist"
begin

text \<open>
  Alarm reconciliation, \<open>internal/alarm/reconcile.go\<close>: the events of the time-series database that no alarm covers are
  found (\<open>Missing\<close>) and given an alarm (\<open>RunOnce\<close>). The rows of the query are given parsed.
\<close>

subsection \<open>Binary search\<close>

text \<open>\<open>sort.Search\<close> on the positions \<open>i\<close> to \<open>j\<close>.\<close>

function search :: "nat \<Rightarrow> nat \<Rightarrow> (nat \<Rightarrow> bool) \<Rightarrow> nat" where
  "search i j f =
     (if i < j then let h = (i + j) div 2 in if \<not> f h then search (h + 1) j f else search i h f else i)"
  by auto

termination
  by (relation "measure (\<lambda>(i, j, f). j - i)") auto

declare search.simps [simp del]

definition Search :: "nat \<Rightarrow> (nat \<Rightarrow> bool) \<Rightarrow> nat" where
  "Search n f = search 0 n f"

text \<open>On a predicate that stays true once it is true the search finds the first place where it holds.\<close>

lemma search_spec:
  assumes "i \<le> j" "\<forall>a b. a \<le> b \<longrightarrow> b < j \<longrightarrow> f a \<longrightarrow> f b"
  shows "i \<le> search i j f \<and> search i j f \<le> j \<and>
    (\<forall>k. i \<le> k \<and> k < search i j f \<longrightarrow> \<not> f k) \<and> (\<forall>k. search i j f \<le> k \<and> k < j \<longrightarrow> f k)"
  using assms
proof (induction i j f rule: search.induct)
  case (1 i j f)
  show ?case
  proof (cases "i < j")
    case False
    then have "search i j f = i" by (subst search.simps) simp
    moreover have "j = i" using 1(3) False by simp
    ultimately show ?thesis by auto
  next
    case True
    let ?h = "(i + j) div 2"
    have h: "i \<le> ?h" "?h < j" using True by auto
    show ?thesis
    proof (cases "f ?h")
      case False
      have below: "\<not> f k" if "k \<le> ?h" for k using 1(4) that False h(2) by blast
      have le: "?h + 1 \<le> j" using h by linarith
      note IH = 1(1) [OF True refl False le 1(4)]
      have "search i j f = search (?h + 1) j f" using True False by (subst search.simps) (simp add: Let_def)
      moreover have "\<forall>k. i \<le> k \<and> k < search (?h + 1) j f \<longrightarrow> \<not> f k"
        using IH below by (metis Suc_eq_plus1 not_less_eq_eq)
      ultimately show ?thesis using IH h by (metis Suc_eq_plus1 Suc_leD le_trans)
    next
      case t: True
      have above: "f k" if "?h \<le> k" "k < j" for k using 1(4) that t by blast
      have mono: "\<forall>a b. a \<le> b \<longrightarrow> b < ?h \<longrightarrow> f a \<longrightarrow> f b" using 1(4) h(2) less_trans by blast
      have nn: "\<not> \<not> f ?h" using t by simp
      note IH = 1(2) [OF True refl nn h(1) mono]
      have "search i j f = search i ?h f" using True t by (subst search.simps) (simp add: Let_def)
      moreover have "\<forall>k. search i ?h f \<le> k \<and> k < j \<longrightarrow> f k"
        using IH above by (metis not_le)
      ultimately show ?thesis using IH h by (metis less_imp_le le_trans)
    qed
  qed
qed

subsection \<open>Missing events\<close>

record Key =
  KSN :: string
  KCode :: string
  KTs :: time

definition pair :: "Key \<Rightarrow> string" where
  "pair k = KSN k @ char_of (0 :: nat) # KCode k"

definition covered :: "duration \<Rightarrow> time list \<Rightarrow> time \<Rightarrow> bool" where
  "covered tolerance list ev =
     (let lo = ev - SquelchTTL; hi = ev + tolerance;
          i = Search (length list) (\<lambda>i. \<not> list ! i < lo)
      in i < length list \<and> \<not> list ! i > hi)"

fun missing_loop ::
  "duration \<Rightarrow> (string \<Rightarrow> time list) \<Rightarrow> Key list \<Rightarrow> (string \<Rightarrow> time list) \<Rightarrow> Key list \<Rightarrow> Key list" where
  "missing_loop tolerance byPair [] emitted out = out"
| "missing_loop tolerance byPair (ev # evs) emitted out =
     (let p = pair ev in
      if covered tolerance (byPair p) (KTs ev) \<or> covered tolerance (emitted p) (KTs ev)
      then missing_loop tolerance byPair evs emitted out
      else missing_loop tolerance byPair evs (emitted(p := emitted p @ [KTs ev])) (out @ [ev]))"

definition byPair :: "Key list \<Rightarrow> string \<Rightarrow> time list" where
  "byPair ks p = map KTs (filter (\<lambda>k. pair k = p) ks)"

definition Missing :: "Key list \<Rightarrow> Key list \<Rightarrow> duration \<Rightarrow> Key list" where
  "Missing events alarms tolerance0 =
     (let tolerance = (if tolerance0 < 0 then 0 else tolerance0)
      in missing_loop tolerance (\<lambda>p. sort (byPair alarms p)) (sort_key KTs events) (\<lambda>_. []) [])"

text \<open>The rule the code states: an alarm of the same device and code from five minutes before to the tolerance after.\<close>

definition covers :: "duration \<Rightarrow> Key \<Rightarrow> Key \<Rightarrow> bool" where
  "covers tolerance a ev \<longleftrightarrow>
     pair a = pair ev \<and> KTs ev - SquelchTTL \<le> KTs a \<and> KTs a \<le> KTs ev + tolerance"

lemma covered_iff:
  assumes "sorted list"
  shows "covered tolerance list ev \<longleftrightarrow> (\<exists>t\<in>set list. ev - SquelchTTL \<le> t \<and> t \<le> ev + tolerance)"
proof -
  let ?f = "\<lambda>i. \<not> list ! i < ev - SquelchTTL"
  let ?i = "Search (length list) ?f"
  have mono: "\<forall>a b. a \<le> b \<longrightarrow> b < length list \<longrightarrow> ?f a \<longrightarrow> ?f b"
    using sorted_nth_mono [OF assms] by (meson not_le order_trans)
  note sp = search_spec [OF le0 mono, folded Search_def]
  have "\<forall>k. 0 \<le> k \<and> k < ?i \<longrightarrow> \<not> ?f k" using sp by (elim conjE)
  then have s: "list ! k < ev - SquelchTTL" if "k < ?i" for k using that by simp
  have "\<forall>k. ?i \<le> k \<and> k < length list \<longrightarrow> ?f k" using sp by (elim conjE)
  then have s2: "\<not> list ! k < ev - SquelchTTL" if "?i \<le> k" "k < length list" for k using that by blast
  show ?thesis
  proof
    assume "covered tolerance list ev"
    then have "?i < length list" "list ! ?i \<le> ev + tolerance" by (auto simp: covered_def Let_def)
    with s2 [of ?i] show "\<exists>t\<in>set list. ev - SquelchTTL \<le> t \<and> t \<le> ev + tolerance"
      by (intro bexI [of _ "list ! ?i"]) auto
  next
    assume "\<exists>t\<in>set list. ev - SquelchTTL \<le> t \<and> t \<le> ev + tolerance"
    then obtain k where k: "k < length list" "ev - SquelchTTL \<le> list ! k" "list ! k \<le> ev + tolerance"
      by (auto simp: in_set_conv_nth)
    then have ik: "?i \<le> k" using s [of k] by (meson not_le)
    then have "list ! ?i \<le> list ! k" using sorted_nth_mono [OF assms ik k(1)] by simp
    then show "covered tolerance list ev" using ik k by (simp add: covered_def Let_def)
  qed
qed

lemma covered_byPair:
  assumes "sorted l" "set l = set (byPair ks (pair ev))"
  shows "covered tolerance l (KTs ev) \<longleftrightarrow> (\<exists>k\<in>set ks. covers tolerance k ev)"
  unfolding covered_iff [OF assms(1)] assms(2) by (auto simp: byPair_def covers_def)

text \<open>The loop in terms of the rule: an event is emitted unless an alarm or an emitted event covers it.\<close>

fun uncovered :: "duration \<Rightarrow> Key list \<Rightarrow> Key list \<Rightarrow> Key list \<Rightarrow> Key list" where
  "uncovered tolerance alarms [] out = out"
| "uncovered tolerance alarms (ev # evs) out =
     (if \<exists>k\<in>set (alarms @ out). covers tolerance k ev then uncovered tolerance alarms evs out
      else uncovered tolerance alarms evs (out @ [ev]))"

lemma missing_loop_uncovered:
  assumes "sorted (map KTs (out @ evs))" "emitted = byPair out"
  shows "missing_loop tolerance (\<lambda>p. sort (byPair alarms p)) evs emitted out = uncovered tolerance alarms evs out"
  using assms
proof (induction evs arbitrary: emitted out)
  case (Cons ev evs)
  have so: "sorted (byPair out p)" for p
    using Cons.prems(1) by (auto simp: byPair_def sorted_append intro: sorted_filter)
  have c: "covered tolerance (sort (byPair alarms (pair ev))) (KTs ev) \<or> covered tolerance (emitted (pair ev)) (KTs ev) \<longleftrightarrow>
      (\<exists>k\<in>set (alarms @ out). covers tolerance k ev)"
    using covered_byPair [of "sort (byPair alarms (pair ev))" alarms ev tolerance]
      covered_byPair [OF so refl, of tolerance ev] Cons.prems(2) by auto
  have e: "(byPair out)(pair ev := byPair out (pair ev) @ [KTs ev]) = byPair (out @ [ev])"
    by (rule ext) (simp add: byPair_def)
  show ?case
  proof (cases "\<exists>k\<in>set (alarms @ out). covers tolerance k ev")
    case True
    have "sorted (map KTs (out @ evs))" using Cons.prems(1) by (auto simp: sorted_append)
    from Cons.IH [OF this Cons.prems(2)] True c show ?thesis by (simp add: Let_def)
  next
    case False
    have "sorted (map KTs ((out @ [ev]) @ evs))" using Cons.prems(1) by simp
    from Cons.IH [OF this refl] False c e Cons.prems(2) show ?thesis by (simp add: Let_def)
  qed
qed simp

lemma Missing_uncovered:
  "Missing events alarms tol = uncovered (max 0 tol) alarms (sort_key KTs events) []"
proof -
  have "(if tol < 0 then 0 else tol) = max 0 tol" by simp
  moreover have "(\<lambda>_. []) = byPair []" by (rule ext) (simp add: byPair_def)
  ultimately show ?thesis
    using missing_loop_uncovered [of "[]" "sort_key KTs events" "byPair []" "max 0 tol" alarms]
    by (simp only: Missing_def Let_def) simp
qed

lemma uncovered_spec:
  assumes "0 \<le> tolerance"
  shows "\<exists>new. uncovered tolerance alarms evs out = out @ new \<and> subseq new evs \<and>
    (\<forall>ev\<in>set evs. \<exists>k\<in>set (alarms @ out @ new). covers tolerance k ev) \<and>
    (\<forall>xs ev ys. new = xs @ ev # ys \<longrightarrow> (\<forall>k\<in>set (alarms @ out @ xs). \<not> covers tolerance k ev))"
proof (induction evs arbitrary: out)
  case (Cons ev evs)
  have self: "covers tolerance ev ev" using assms by (simp add: covers_def)
  show ?case
  proof (cases "\<exists>k\<in>set (alarms @ out). covers tolerance k ev")
    case True
    from Cons.IH [of out] True show ?thesis by fastforce
  next
    case False
    from Cons.IH [of "out @ [ev]"] obtain new where n:
      "uncovered tolerance alarms evs (out @ [ev]) = (out @ [ev]) @ new" "subseq new evs"
      "\<forall>ev'\<in>set evs. \<exists>k\<in>set (alarms @ (out @ [ev]) @ new). covers tolerance k ev'"
      "\<forall>xs ev' ys. new = xs @ ev' # ys \<longrightarrow> (\<forall>k\<in>set (alarms @ (out @ [ev]) @ xs). \<not> covers tolerance k ev')"
      by blast
    have "\<forall>xs ev' ys. ev # new = xs @ ev' # ys \<longrightarrow> (\<forall>k\<in>set (alarms @ out @ xs). \<not> covers tolerance k ev')"
    proof (intro allI impI)
      fix xs ev' ys assume e: "ev # new = xs @ ev' # ys"
      show "\<forall>k\<in>set (alarms @ out @ xs). \<not> covers tolerance k ev'"
      proof (cases xs)
        case Nil
        then show ?thesis using e False by simp
      next
        case (Cons x xs')
        then have "new = xs' @ ev' # ys" "x = ev" using e by auto
        then show ?thesis using n(4) Cons by auto
      qed
    qed
    then show ?thesis using False n(1-3) self by (intro exI [of _ "ev # new"]) auto
  qed
qed auto

lemma Missing_spec:
  "subseq (Missing events alarms tol) (sort_key KTs events) \<and>
   (\<forall>ev\<in>set (Missing events alarms tol). \<forall>k\<in>set alarms. \<not> covers (max 0 tol) k ev) \<and>
   (\<forall>xs ev ys k. Missing events alarms tol = xs @ ev # ys \<and> k \<in> set xs \<longrightarrow> \<not> covers (max 0 tol) k ev) \<and>
   (\<forall>ev\<in>set events. \<exists>k\<in>set (alarms @ Missing events alarms tol). covers (max 0 tol) k ev)"
proof -
  from uncovered_spec [of "max 0 tol" alarms "sort_key KTs events" "[]"]
  have s: "subseq (Missing events alarms tol) (sort_key KTs events)"
    "\<forall>ev\<in>set events. \<exists>k\<in>set (alarms @ Missing events alarms tol). covers (max 0 tol) k ev"
    "\<forall>xs ev ys. Missing events alarms tol = xs @ ev # ys \<longrightarrow> (\<forall>k\<in>set (alarms @ xs). \<not> covers (max 0 tol) k ev)"
    unfolding Missing_uncovered by auto
  have "\<forall>k\<in>set alarms. \<not> covers (max 0 tol) k ev" if "ev \<in> set (Missing events alarms tol)" for ev
  proof -
    from that obtain xs ys where "Missing events alarms tol = xs @ ev # ys" by (meson split_list)
    with s(3) show ?thesis by auto
  qed
  with s show ?thesis by auto
qed

text \<open>
  C37: what is missing. The result is made of events, in time order, that no alarm covers and that do not cover one another; and once each
  of them has an alarm, every event of the window is covered.
\<close>

theorem Missing_exact:
  "subseq (Missing events alarms tol) (sort_key KTs events) \<and>
   (\<forall>ev\<in>set (Missing events alarms tol). \<forall>k\<in>set alarms. \<not> covers (max 0 tol) k ev) \<and>
   (\<forall>xs ev ys k. Missing events alarms tol = xs @ ev # ys \<and> k \<in> set xs \<longrightarrow> \<not> covers (max 0 tol) k ev) \<and>
   (\<forall>ev\<in>set events. \<exists>k\<in>set (alarms @ Missing events alarms tol). covers (max 0 tol) k ev)"
  by (rule Missing_spec)

theorem Missing_exact_witness:
  "Missing [\<lparr>KSN = ''A'', KCode = ''TILT'', KTs = 5\<rparr>] [] 0 = [\<lparr>KSN = ''A'', KCode = ''TILT'', KTs = 5\<rparr>]"
proof -
  let ?a = "\<lparr>KSN = ''A'', KCode = ''TILT'', KTs = 5\<rparr>"
  have m: "subseq (Missing [?a] [] 0) [?a]" "\<exists>k\<in>set (Missing [?a] [] 0). covers (max 0 0) k ?a"
    using Missing_exact [of "[?a]" "[]" 0] by auto
  have "xs = [] \<or> xs = [?a]" if "subseq xs [?a]" for xs
    using that by (cases xs) (auto dest!: list_emb_Nil2 split: if_splits)
  with m show ?thesis by fastforce
qed

subsection \<open>A round\<close>

record Report =
  Events :: nat
  Alarms :: nat
  RMissing :: nat
  Created :: nat

definition alarmKeysSince :: "time \<Rightarrow> AlarmSvc \<Rightarrow> Key list" where
  "alarmKeysSince since s =
     map (\<lambda>r. \<lparr>KSN = asn r, KCode = acode r, KTs = event_ts r\<rparr>) (filter (\<lambda>r. event_ts r \<ge> since) (rows s))"

definition UnixMilli :: "time \<Rightarrow> int" where "UnixMilli t = t div 1000000"

fun recreate ::
  "(AlarmSvc \<Rightarrow> AlarmSvc) \<Rightarrow> (Key \<Rightarrow> Answers) \<Rightarrow> time \<Rightarrow> Key list \<Rightarrow> nat \<Rightarrow> AlarmSvc \<Rightarrow> nat \<times> AlarmSvc" where
  "recreate meanwhile a now [] n s = (n, s)"
| "recreate meanwhile a now (k # ks) n s =
     (case handleEvent meanwhile (a k) now False (KSN k) (UnixMilli now)
         (Some \<lparr>Ts = UnixMilli (KTs k), Code = KCode k\<rparr>) s of
        (Inl e, s1) \<Rightarrow> recreate meanwhile a now ks n (count ''reconcile_errors'' s1)
      | (Inr out, s1) \<Rightarrow>
          recreate meanwhile a now ks (if out = Notified \<or> out = StaysOpen then n + 1 else n) s1)"

text \<open>\<open>td\<close> is the answer of the time-series database: the events since the given time and how many rows were unreadable.\<close>

definition RunOnce ::
  "(AlarmSvc \<Rightarrow> AlarmSvc) \<Rightarrow> (Key \<Rightarrow> Answers) \<Rightarrow> (time \<Rightarrow> (Key list \<times> nat) option) \<Rightarrow> bool \<Rightarrow> duration \<Rightarrow>
   duration \<Rightarrow> time \<Rightarrow> AlarmSvc \<Rightarrow> (alarm_error + Report) \<times> AlarmSvc" where
  "RunOnce meanwhile a td pg_fails window tol now s =
     (let since = now - window in
      case td since of
        None \<Rightarrow> (Inl AlarmDbError, count ''reconcile_errors'' s)
      | Some (events, skipped) \<Rightarrow>
          (let s1 = (if skipped > 0 then s\<lparr>AM := Add ''reconcile_bad_rows'' (int skipped) (AM s)\<rparr> else s) in
           if pg_fails then (Inl AlarmDbError, count ''reconcile_errors'' s1)
           else let alarms = alarmKeysSince since s1; missing = Missing events alarms tol;
               s2 = count ''reconcile_runs'' s1;
               s3 = s2\<lparr>AM := Add ''reconcile_missing'' (int (length missing)) (AM s2)\<rparr>;
               (n, s4) = recreate meanwhile a now missing 0 s3
             in (Inr \<lparr>Events = length events, Alarms = length alarms, RMissing = length missing, Created = n\<rparr>,
                 s4\<lparr>AM := Add ''reconcile_created'' (int n) (AM s4)\<rparr>)))"

text \<open>Rows of the table that stand for a key, and rows that are only ever added or moved along.\<close>

definition has_key :: "Key \<Rightarrow> AlarmSvc \<Rightarrow> bool" where
  "has_key k s \<longleftrightarrow> (\<exists>r\<in>set (rows s). asn r = KSN k \<and> acode r = KCode k \<and> event_ts r = KTs k)"

lemma has_key_steps: "alarm_step\<^sup>*\<^sup>* s s' \<Longrightarrow> has_key k s \<Longrightarrow> has_key k s'"
  unfolding has_key_def using history by (metis (no_types, lifting))

lemma has_key_rows: "rows s' = rows s \<Longrightarrow> has_key k s' = has_key k s"
  by (simp add: has_key_def)

lemma handleEvent_steps:
  assumes "handleEvent meanwhile a now sq sn rt p s = (res, s')" "\<forall>s. alarm_step\<^sup>*\<^sup>* s (meanwhile s)"
  shows "alarm_step\<^sup>*\<^sup>* s s'"
proof -
  obtain x s1 where o: "open_part a now sq sn rt p s = (x, s1)" by fastforce
  then have s1: "alarm_step s s1" using alarm_step.intros(1) [of s a now sq sn rt p] by simp
  show ?thesis
  proof (cases x)
    case (Inl y)
    then show ?thesis using assms(1) o s1 by (auto simp: handleEvent_def)
  next
    case (Inr i)
    have "alarm_step (meanwhile s1) s'"
      using assms(1) o Inr alarm_step.intros(2) [of "meanwhile s1" a now i] by (simp add: handleEvent_def)
    with s1 assms(2) show ?thesis by (meson converse_rtranclp_into_rtranclp rtranclp.rtrancl_into_rtrancl)
  qed
qed

lemma handleEvent_adds:
  assumes "handleEvent meanwhile a now False (KSN k) rt (Some \<lparr>Ts = UnixMilli (KTs k), Code = KCode k\<rparr>) s = (res, s')"
    and "KCode k \<in> set SafetyCodes" "\<not> insert_fails a" "KTs k mod 1000000 = 0" "KTs k \<noteq> 0"
    and "\<forall>s. alarm_step\<^sup>*\<^sup>* s (meanwhile s)"
  shows "has_key k s'"
proof -
  let ?p = "\<lparr>Ts = UnixMilli (KTs k), Code = KCode k\<rparr>"
  have ms: "UnixMilli (KTs k) * 1000000 = KTs k" "UnixMilli (KTs k) \<noteq> 0"
    using assms(4,5) by (auto simp: UnixMilli_def)
  have "KCode k \<noteq> []" using assms(2) by (auto simp: SafetyCodes_def)
  then obtain i s1 where o: "open_part a now False (KSN k) rt (Some ?p) s = (Inr i, s1)" "has_key k s1"
    using assms(2,3) ms by (auto simp: open_part_def Let_def insert_alarm_def has_key_def)
  have "alarm_step (meanwhile s1) s'"
    using assms(1) o(1) alarm_step.intros(2) [of "meanwhile s1" a now i] by (simp add: handleEvent_def)
  then have "alarm_step\<^sup>*\<^sup>* s1 s'" using assms(6) by (meson rtranclp.rtrancl_into_rtrancl)
  then show ?thesis using o(2) has_key_steps by blast
qed

lemma recreate_adds:
  assumes "recreate meanwhile a now ks n s = (m, s')" "\<forall>s. alarm_step\<^sup>*\<^sup>* s (meanwhile s)"
    and "\<forall>k\<in>set ks. KCode k \<in> set SafetyCodes \<and> \<not> insert_fails (a k) \<and> KTs k mod 1000000 = 0 \<and> KTs k \<noteq> 0"
  shows "(\<forall>k\<in>set ks. has_key k s') \<and> (\<forall>k. has_key k s \<longrightarrow> has_key k s')"
  using assms(1,3)
proof (induction ks arbitrary: n s)
  case (Cons k ks)
  obtain res s1 where h: "handleEvent meanwhile (a k) now False (KSN k) (UnixMilli now)
      (Some \<lparr>Ts = UnixMilli (KTs k), Code = KCode k\<rparr>) s = (res, s1)" by fastforce
  have "has_key k s1" using handleEvent_adds [OF h _ _ _ _ assms(2)] Cons.prems(2) by simp
  moreover have "has_key j s \<longrightarrow> has_key j s1" for j
    using has_key_steps [OF handleEvent_steps [OF h assms(2)]] by blast
  moreover obtain n' s2 where s2: "recreate meanwhile a now ks n' s2 = (m, s')" "rows s2 = rows s1"
    using Cons.prems(1) h by (cases res) auto
  moreover have "(\<forall>k\<in>set ks. has_key k s') \<and> (\<forall>k. has_key k s2 \<longrightarrow> has_key k s')"
    using Cons.IH [OF s2(1)] Cons.prems(2) by simp
  ultimately show ?case using has_key_rows [OF s2(2)] by auto
qed simp

text \<open>
  C36: reconciliation closes the gap. After a round in which both queries answer and no insertion fails, every safety event
  the time-series database returned is covered by an alarm in the table, whatever other requests did
  meanwhile and whether or not the pushes went out.
\<close>

theorem reconcile_closes_gap:
  assumes "RunOnce meanwhile a td False window tol now s = (Inr rep, s')" "td (now - window) = Some (events, skipped)"
    and "\<forall>s. alarm_step\<^sup>*\<^sup>* s (meanwhile s)" "\<forall>k. \<not> insert_fails (a k)"
    and "\<forall>ev\<in>set events. KCode ev \<in> set SafetyCodes \<and> KTs ev mod 1000000 = 0 \<and> KTs ev \<noteq> 0"
  shows "\<forall>ev\<in>set events. \<exists>k. has_key k s' \<and> covers (max 0 tol) k ev"
proof -
  let ?s1 = "if skipped > 0 then s\<lparr>AM := Add ''reconcile_bad_rows'' (int skipped) (AM s)\<rparr> else s"
  let ?al = "alarmKeysSince (now - window) s"
  let ?ms = "Missing events ?al tol"
  let ?s2 = "count ''reconcile_runs'' ?s1"
  have al: "alarmKeysSince (now - window) ?s1 = ?al" by (simp add: alarmKeysSince_def)
  define s3 where "s3 = ?s2\<lparr>AM := Add ''reconcile_missing'' (int (length ?ms)) (AM ?s2)\<rparr>"
  obtain n s4 where r: "recreate meanwhile a now ?ms 0 s3 = (n, s4)" by fastforce
  have "s' = s4\<lparr>AM := Add ''reconcile_created'' (int n) (AM s4)\<rparr>"
    using assms(1) by (simp only: RunOnce_def Let_def assms(2) option.case prod.case al s3_def [symmetric] r
        if_False prod.inject)
  then have r2: "rows s3 = rows s" "rows s' = rows s4" by (simp_all add: s3_def)
  have sub: "subseq ?ms (sort_key KTs events)" using Missing_spec [of events ?al tol] by blast
  have "set ?ms \<subseteq> set events"
  proof
    fix k assume "k \<in> set ?ms"
    from list_emb_set [OF sub this] show "k \<in> set events" by auto
  qed
  then have "(\<forall>k\<in>set ?ms. has_key k s4) \<and> (\<forall>k. has_key k s3 \<longrightarrow> has_key k s4)"
    using assms(4,5) by (intro recreate_adds [OF r assms(3)]) auto
  moreover have "has_key k s3" if "k \<in> set ?al" for k
    using that r2(1) by (auto simp: alarmKeysSince_def has_key_def)
  ultimately have "\<forall>k\<in>set (?al @ ?ms). has_key k s'" using has_key_rows [OF r2(2)] by auto
  then show ?thesis using Missing_spec [of events ?al tol] by blast
qed

theorem reconcile_closes_gap_witness:
  "\<exists>k s' rep. RunOnce (\<lambda>s. s) (\<lambda>_. demo_answers) (\<lambda>_. Some ([\<lparr>KSN = ''A'', KCode = ''TILT'', KTs = 5000000\<rparr>], 0))
     False 10 0 6000000 demo_alarms = (Inr rep, s') \<and> has_key k s' \<and> pair k = pair \<lparr>KSN = ''A'', KCode = ''TILT'', KTs = 5000000\<rparr>"
proof -
  let ?e = "\<lparr>KSN = ''A'', KCode = ''TILT'', KTs = 5000000\<rparr>"
  let ?run = "RunOnce (\<lambda>s. s) (\<lambda>_. demo_answers) (\<lambda>_. Some ([?e], 0)) False 10 0 6000000 demo_alarms"
  obtain rep s' where r: "?run = (Inr rep, s')"
    by (cases "recreate (\<lambda>s. s) (\<lambda>_. demo_answers) 6000000 (Missing [?e] (alarmKeysSince 5999990 demo_alarms) 0) 0
        (count ''reconcile_runs'' demo_alarms\<lparr>AM := Add ''reconcile_missing''
          (int (length (Missing [?e] (alarmKeysSince 5999990 demo_alarms) 0))) (AM (count ''reconcile_runs'' demo_alarms))\<rparr>)")
      (auto simp: RunOnce_def Let_def)
  have "\<exists>k. has_key k s' \<and> covers (max 0 0) k ?e"
    using reconcile_closes_gap [OF r refl] by (simp add: demo_answers_def SafetyCodes_def)
  then show ?thesis using r unfolding covers_def by blast
qed

end
