(* ===== verification/Linkage.thy ===== *)
theory Linkage
  imports Topics
begin

text \<open>
  The linkage rules between a machine and its fume accessories, \<open>internal/accessory/rules.go\<close>: pure functions from an
  event, the pairings of the machine and a snapshot of what is known to the list of
  actions. Times are nanoseconds; the zero \<open>time.Time\<close> is the instant \<open>zero_time\<close>.
\<close>

definition zero_time :: time where "zero_time = - 62135596800000000000"

record Pairing =
  HostSN :: string
  AccSN :: string
  LinkageEnabled :: bool
  OffDelayS :: int

datatype Trigger = TrigJobStart | TrigJobEnd | TrigWorkStart | TrigWorkEnd | TrigHostSafety | TrigFire
  | TrigSmoke | TrigOffTimer | TrigReconcile | TrigPair

record Event =
  SN :: string
  IsTelemetry :: bool
  Code :: string
  MaterialID :: string
  WorkState :: int
  Seq :: int
  Ts :: int
  RecvTs :: int

record DesiredState =
  PowerOn :: bool
  FanLevel :: int

datatype ActionType = ActSetDesired | ActScheduleOff | ActCancelOff | ActStopHost | ActSafetyVent

record LAction =
  AType :: ActionType
  AAcc :: string
  AHost :: string
  Desired :: DesiredState
  Delay :: duration
  ATrigger :: Trigger

definition no_desired :: DesiredState where "no_desired = \<lparr>PowerOn = False, FanLevel = 0\<rparr>"

definition DefaultFanLevel :: int where "DefaultFanLevel = 2"
definition MaxFanLevel :: int where "MaxFanLevel = 4"
definition SafetyVentWindow :: duration where "SafetyVentWindow = 10 * minute"
definition JobStartDebounce :: duration where "JobStartDebounce = 10 * second"
definition MaxEventAge :: duration where "MaxEventAge = 60 * second"
definition MinOffDelay :: duration where "MinOffDelay = 60 * second"
definition MaxOffDelay :: duration where "MaxOffDelay = 600 * second"
definition WorkStateUnknown :: int where "WorkStateUnknown = -1"

record EngineState =
  Now :: time
  AllowOff :: bool
  StopHostOnFire :: bool
  PrevWorkState :: "string \<rightharpoonup> int"
  LastJobStart :: "string \<rightharpoonup> time"
  SafetyVentUntil :: "string \<rightharpoonup> time"
  Current :: "string \<rightharpoonup> DesiredState"
  HostWorkState :: "string \<rightharpoonup> int"
  Rules :: "string \<rightharpoonup> int"
  DefaultLevel :: int

definition LevelFor :: "(string \<rightharpoonup> int) \<Rightarrow> string \<Rightarrow> int \<Rightarrow> int" where
  "LevelFor rules material def0 =
     (let def = (if def0 < 1 \<or> def0 > MaxFanLevel then DefaultFanLevel else def0) in
      case rules material of
        Some lv \<Rightarrow> if lv \<ge> 1 \<and> lv \<le> MaxFanLevel then lv else def
      | None \<Rightarrow> def)"

definition IsStale :: "int \<Rightarrow> time \<Rightarrow> duration \<Rightarrow> bool" where
  "IsStale recvTs now mx = (if recvTs \<le> 0 then False else now - recvTs * 1000000 > mx)"

definition ShouldCancelOff :: "time \<Rightarrow> time \<Rightarrow> bool" where
  "ShouldCancelOff lastStart scheduledAt \<longleftrightarrow> lastStart \<noteq> zero_time \<and> \<not> lastStart < scheduledAt"

definition HostStopEvidence :: "string \<Rightarrow> int \<Rightarrow> bool" where
  "HostStopEvidence c hostWorkState \<longleftrightarrow> c = ''FIRE_SUPPRESSED'' \<and> hostWorkState \<noteq> 0"

definition IsHostSafetyCode :: "string \<Rightarrow> bool" where
  "IsHostSafetyCode c \<longleftrightarrow> c \<in> set SafetyCodes \<and> c \<notin> set AccessorySafetyCodes"

definition ClampOffDelay :: "int \<Rightarrow> duration" where
  "ClampOffDelay sec =
     (let d = sec * second in
      if d < MinOffDelay then MinOffDelay else if d > MaxOffDelay then MaxOffDelay else d)"

definition findAcc :: "Pairing list \<Rightarrow> string \<Rightarrow> Pairing option" where
  "findAcc ps sn = find (\<lambda>p. AccSN p = sn) ps"

definition hostState :: "EngineState \<Rightarrow> string \<Rightarrow> int" where
  "hostState st host = (case HostWorkState st host of Some ws \<Rightarrow> ws | None \<Rightarrow> WorkStateUnknown)"

definition mk_action :: "ActionType \<Rightarrow> Pairing \<Rightarrow> DesiredState \<Rightarrow> duration \<Rightarrow> Trigger \<Rightarrow> LAction" where
  "mk_action ty p want d trig =
     \<lparr>AType = ty, AAcc = AccSN p, AHost = HostSN p, Desired = want, Delay = d, ATrigger = trig\<rparr>"

definition start_one :: "EngineState \<Rightarrow> int \<Rightarrow> Trigger \<Rightarrow> Pairing \<Rightarrow> LAction list" where
  "start_one st level trig p =
     (if \<not> LinkageEnabled p then []
      else let lv = (case SafetyVentUntil st (AccSN p) of
               Some t \<Rightarrow> if Now st < t then MaxFanLevel else level | None \<Rightarrow> level);
          want = \<lparr>PowerOn = True, FanLevel = lv\<rparr>
        in mk_action ActCancelOff p no_desired 0 trig #
           (if Current st (AccSN p) = Some want then [] else [mk_action ActSetDesired p want 0 trig]))"

definition startActions :: "Pairing list \<Rightarrow> EngineState \<Rightarrow> int \<Rightarrow> Trigger \<Rightarrow> LAction list" where
  "startActions ps st level trig = concat (map (start_one st level trig) ps)"

definition end_one :: "EngineState \<Rightarrow> Trigger \<Rightarrow> Pairing \<Rightarrow> LAction list" where
  "end_one st trig p =
     (if \<not> LinkageEnabled p then []
      else let d0 = ClampOffDelay (OffDelayS p);
          d = (case SafetyVentUntil st (AccSN p) of
               Some t \<Rightarrow> if t - Now st > d0 then t - Now st else d0 | None \<Rightarrow> d0)
        in [mk_action ActScheduleOff p no_desired d trig])"

definition endActions :: "Pairing list \<Rightarrow> EngineState \<Rightarrow> Trigger \<Rightarrow> LAction list" where
  "endActions ps st trig = (if \<not> AllowOff st then [] else concat (map (end_one st trig) ps))"

definition max_on :: DesiredState where "max_on = \<lparr>PowerOn = True, FanLevel = MaxFanLevel\<rparr>"

definition ventActions :: "Pairing \<Rightarrow> EngineState \<Rightarrow> Trigger \<Rightarrow> LAction list" where
  "ventActions p st trig =
     [mk_action ActCancelOff p no_desired 0 trig, mk_action ActSafetyVent p no_desired SafetyVentWindow trig] @
     (if Current st (AccSN p) \<noteq> Some max_on then [mk_action ActSetDesired p max_on 0 trig] else [])"

definition Decide :: "Event \<Rightarrow> Pairing list \<Rightarrow> EngineState \<Rightarrow> LAction list" where
  "Decide evt ps st =
     (if ps = [] then []
      else if IsStale (RecvTs evt) (Now st) MaxEventAge then []
      else let host = HostSN (hd ps) in
        case findAcc ps (SN evt) of
          Some self \<Rightarrow>
            if Code evt = ''FIRE_SUPPRESSED'' then
              (if StopHostOnFire st \<and> HostStopEvidence (Code evt) (hostState st host)
               then [\<lparr>AType = ActStopHost, AAcc = AccSN self, AHost = host, Desired = no_desired, Delay = 0,
                      ATrigger = TrigFire\<rparr>] else []) @
              concat (map (\<lambda>p. if AccSN p = AccSN self then [] else ventActions p st TrigFire) ps)
            else if Code evt = ''SMOKE_HIGH'' then ventActions self st TrigSmoke
            else []
        | None \<Rightarrow>
            if \<not> IsTelemetry evt \<and> IsHostSafetyCode (Code evt) then
              concat (map (\<lambda>p. ventActions p st TrigHostSafety) ps)
            else if \<not> IsTelemetry evt \<and> Code evt = ''JOB_START'' then
              startActions ps st (LevelFor (Rules st) (MaterialID evt) (DefaultLevel st)) TrigJobStart
            else if IsTelemetry evt then
              (case PrevWorkState st host of
                 None \<Rightarrow> []
               | Some prev \<Rightarrow>
                   if prev = WorkState evt then []
                   else if WorkState evt = 2 then
                     (if (case LastJobStart st host of Some ls \<Rightarrow> Now st - ls < JobStartDebounce | None \<Rightarrow> False)
                      then []
                      else startActions ps st (LevelFor (Rules st) [] (DefaultLevel st)) TrigWorkStart)
                   else if WorkState evt = 0 then endActions ps st TrigWorkEnd
                   else [])
            else if Code evt = ''JOB_DONE'' \<or> Code evt = ''JOB_FAIL'' then endActions ps st TrigJobEnd
            else [])"

record AccView =
  Known :: bool
  VPowerOn :: bool
  VFanLevel :: int
  TriggerSource :: string

definition ReconcileDecide ::
  "Pairing \<Rightarrow> int \<Rightarrow> AccView \<Rightarrow> bool \<Rightarrow> EngineState \<Rightarrow> LAction list \<times> string list" where
  "ReconcileDecide p hostWorkState acc hasTimer st =
     (if \<not> LinkageEnabled p \<or> \<not> Known acc then ([], [])
      else if hostWorkState = 2 \<and> \<not> VPowerOn acc then
        ([mk_action ActSetDesired p \<lparr>PowerOn = True, FanLevel = LevelFor (Rules st) [] (DefaultLevel st)\<rparr> 0 TrigReconcile],
         [''off_while_working''])
      else if hostWorkState = 0 \<and> VPowerOn acc \<and> TriggerSource acc = ''cloud'' \<and> \<not> hasTimer \<and> AllowOff st then
        ([mk_action ActScheduleOff p no_desired (ClampOffDelay (OffDelayS p)) TrigReconcile], [''long_on''])
      else ([], []))"

definition OwnersConsistent :: "int list \<Rightarrow> int list \<Rightarrow> bool" where
  "OwnersConsistent hostOwners accOwners =
     (if hostOwners = [] \<or> accOwners = [] then True
      else list_ex (\<lambda>u. u \<in> set hostOwners) accOwners)"

subsection \<open>What the rules may ask for\<close>

lemma LevelFor_range: "1 \<le> LevelFor rules m d \<and> LevelFor rules m d \<le> MaxFanLevel"
  by (auto simp: LevelFor_def Let_def MaxFanLevel_def DefaultFanLevel_def split: option.splits)

lemma ClampOffDelay_range: "MinOffDelay \<le> ClampOffDelay s \<and> ClampOffDelay s \<le> MaxOffDelay"
  by (auto simp: ClampOffDelay_def Let_def MinOffDelay_def MaxOffDelay_def)

text \<open>Every action that sets a state switches the accessory on at a legal level.\<close>

definition action_ok :: "EngineState \<Rightarrow> Pairing list \<Rightarrow> LAction \<Rightarrow> bool" where
  "action_ok st ps a \<longleftrightarrow>
     (case AType a of
        ActSetDesired \<Rightarrow> PowerOn (Desired a) \<and> 1 \<le> FanLevel (Desired a) \<and> FanLevel (Desired a) \<le> MaxFanLevel \<and>
          (\<forall>t. SafetyVentUntil st (AAcc a) = Some t \<longrightarrow> Now st < t \<longrightarrow> FanLevel (Desired a) = MaxFanLevel)
      | ActScheduleOff \<Rightarrow> AllowOff st \<and> MinOffDelay \<le> Delay a \<and>
          (\<exists>p\<in>set ps. AccSN p = AAcc a \<and> LinkageEnabled p) \<and>
          (\<forall>t. SafetyVentUntil st (AAcc a) = Some t \<longrightarrow> t \<le> Now st + Delay a)
      | ActStopHost \<Rightarrow> StopHostOnFire st \<and> AHost a = HostSN (hd ps)
      | _ \<Rightarrow> True)"

lemma start_one_ok:
  "p \<in> set ps \<Longrightarrow> 1 \<le> level \<Longrightarrow> level \<le> MaxFanLevel \<Longrightarrow> a \<in> set (start_one st level trig p) \<Longrightarrow> action_ok st ps a"
  by (auto simp: start_one_def Let_def mk_action_def action_ok_def MaxFanLevel_def split: if_splits option.splits)

lemma startActions_ok:
  "1 \<le> level \<Longrightarrow> level \<le> MaxFanLevel \<Longrightarrow> a \<in> set (startActions ps st level trig) \<Longrightarrow> action_ok st ps a"
  by (auto simp: startActions_def intro: start_one_ok)

lemma end_one_ok:
  "AllowOff st \<Longrightarrow> p \<in> set ps \<Longrightarrow> a \<in> set (end_one st trig p) \<Longrightarrow> action_ok st ps a"
  using ClampOffDelay_range [of "OffDelayS p"]
  by (auto simp: end_one_def Let_def mk_action_def action_ok_def split: if_splits option.splits)

lemma endActions_ok: "a \<in> set (endActions ps st trig) \<Longrightarrow> action_ok st ps a"
  by (auto simp: endActions_def intro: end_one_ok split: if_splits)

lemma ventActions_ok: "a \<in> set (ventActions p st trig) \<Longrightarrow> action_ok st ps a"
  by (auto simp: ventActions_def mk_action_def action_ok_def max_on_def MaxFanLevel_def split: if_splits)

lemma Decide_ok: "a \<in> set (Decide evt ps st) \<Longrightarrow> action_ok st ps a"
  using LevelFor_range [of "Rules st" "MaterialID evt" "DefaultLevel st"] LevelFor_range [of "Rules st" "[]" "DefaultLevel st"]
  by (auto simp: Decide_def Let_def split: if_splits option.splits
      intro: startActions_ok endActions_ok ventActions_ok) (auto simp: action_ok_def)

text \<open>
  switching off is the careful side. The rules never ask for a power-off themselves: a state they set is on, at a level from 1 to 4, and at 4
  inside a ventilation window. A switch-off is only scheduled when it is globally permitted, for an accessory whose
  linkage is on, at least a minute ahead and not before the end of a running
  ventilation window; the host is only stopped when that is enabled.
\<close>

theorem Decide_careful: "\<forall>a\<in>set (Decide evt ps st). action_ok st ps a"
  using Decide_ok by blast

text \<open>
  a safety event ventilates. For a fresh safety event of the host, every paired accessory, whether or not its linkage is on,
  has its pending switch-off cancelled, gets a ten-minute ventilation window and is set to
  the top level unless that is what it was last told; nothing else is asked for.
\<close>

theorem host_safety_vents:
  assumes "ps \<noteq> []" "\<not> IsStale (RecvTs evt) (Now st) MaxEventAge" "findAcc ps (SN evt) = None"
    and "\<not> IsTelemetry evt" "IsHostSafetyCode (Code evt)" "p \<in> set ps"
  shows "set (ventActions p st TrigHostSafety) \<subseteq> set (Decide evt ps st) \<and>
    mk_action ActCancelOff p no_desired 0 TrigHostSafety \<in> set (Decide evt ps st) \<and>
    mk_action ActSafetyVent p no_desired SafetyVentWindow TrigHostSafety \<in> set (Decide evt ps st) \<and>
    (Current st (AccSN p) = Some max_on \<or> mk_action ActSetDesired p max_on 0 TrigHostSafety \<in> set (Decide evt ps st)) \<and>
    (\<forall>a\<in>set (Decide evt ps st). AType a \<in> {ActCancelOff, ActSafetyVent, ActSetDesired})"
proof -
  have d: "Decide evt ps st = concat (map (\<lambda>p. ventActions p st TrigHostSafety) ps)"
    using assms(1-5) by (simp add: Decide_def Let_def)
  have "set (ventActions p st TrigHostSafety) \<subseteq> set (Decide evt ps st)" unfolding d using assms(6) by auto
  moreover have "\<forall>a\<in>set (Decide evt ps st). AType a \<in> {ActCancelOff, ActSafetyVent, ActSetDesired}"
    unfolding d by (auto simp: ventActions_def mk_action_def split: if_splits)
  ultimately show ?thesis by (auto simp: ventActions_def)
qed

definition demo_pair :: Pairing where
  "demo_pair = \<lparr>HostSN = ''HOST'', AccSN = ''ACC1'', LinkageEnabled = False, OffDelayS = 180\<rparr>"

definition demo_event :: Event where
  "demo_event = \<lparr>SN = ''HOST'', IsTelemetry = False, Code = ''TILT'', MaterialID = [], WorkState = 0, Seq = 1,
     Ts = 0, RecvTs = 0\<rparr>"

definition demo_state :: EngineState where
  "demo_state = \<lparr>Now = 0, AllowOff = True, StopHostOnFire = True, PrevWorkState = (\<lambda>_. None), LastJobStart = (\<lambda>_. None),
     SafetyVentUntil = (\<lambda>_. None), Current = (\<lambda>_. None), HostWorkState = (\<lambda>_. None), Rules = (\<lambda>_. None), DefaultLevel = 2\<rparr>"

theorem host_safety_vents_witness:
  "mk_action ActSetDesired demo_pair max_on 0 TrigHostSafety \<in> set (Decide demo_event [demo_pair] demo_state)"
  using host_safety_vents [of "[demo_pair]" demo_event demo_state demo_pair]
  by (simp add: demo_pair_def demo_event_def demo_state_def IsStale_def findAcc_def IsHostSafetyCode_def
      SafetyCodes_def AccessorySafetyCodes_def)

theorem Decide_careful_witness:
  "action_ok demo_state [demo_pair] (mk_action ActSetDesired demo_pair max_on 0 TrigHostSafety)"
proof -
  have "mk_action ActSetDesired demo_pair max_on 0 TrigHostSafety \<in> set (Decide demo_event [demo_pair] demo_state)"
    by (simp add: Decide_def ventActions_def demo_pair_def demo_event_def demo_state_def IsStale_def findAcc_def
        IsHostSafetyCode_def SafetyCodes_def AccessorySafetyCodes_def Let_def max_on_def mk_action_def)
  then show ?thesis using Decide_careful [of demo_event "[demo_pair]" demo_state] by blast
qed

end
