(* ===== verification/Engine.thy ===== *)
theory Engine
  imports Linkage
begin

text \<open>
  The linkage engine, \<open>internal/accessory/engine.go\<close>: one event from its envelope to the commands it causes, the
  timers of pending switch-offs, and the reconciliation round.

  The state holds the engine's own maps (\<open>prevWorkState\<close>, \<open>lastJobStart\<close>, \<open>current\<close>, the cached
  rules), its Redis keys (the sorted set of timers as pairs of accessory and due second, their
  metadata, the seen events, the ventilation windows with their expiry) and, as
  an output log, the commands given to the device interface. The stores, the device interface and
  Redis answer through \<open>Env\<close>.
\<close>

record OffMeta =
  MHost :: string
  ScheduledAt :: time

text \<open>The metadata when the key is gone or unreadable: Go's zero value.\<close>

definition zero_meta :: OffMeta where "zero_meta = \<lparr>MHost = [], ScheduledAt = zero_time\<rparr>"

datatype command = SetDesiredCmd string DesiredState | StopHostCmd string

record Engine =
  prevWorkState :: "string \<rightharpoonup> int"
  lastJobStart :: "string \<rightharpoonup> time"
  current :: "string \<rightharpoonup> DesiredState"
  rulesCache :: "(string \<rightharpoonup> int) option"
  rulesAt :: time
  offz :: "(string \<times> int) list"
  offmeta :: "string \<rightharpoonup> OffMeta"
  seen :: "string \<rightharpoonup> time"
  safety :: "string \<rightharpoonup> time"
  commands :: "(time \<times> command) list"
  contexts :: nat
  audits :: nat
  EM :: metrics

record Options =
  OAllowOff :: bool
  OStopHostOnFire :: bool
  ODefaultLevel :: int
  HasRedis :: bool

text \<open>
  How the outside answers at one moment: the pairing lookups (\<open>None\<close>: error or no row), the writes, the host's shadow, the remaining
  life of an accessory's ventilation window (\<open>None\<close>: error), the material rules, and whether the device interface takes a command.
\<close>

record Env =
  PairingByAcc :: "string \<Rightarrow> Pairing option"
  CachedPairings :: "string \<Rightarrow> Pairing list"
  lookup_err :: bool
  context_ok :: bool
  setnx_err :: bool
  rules_db :: "(string \<rightharpoonup> int) option"
  shadow :: "string \<Rightarrow> (string \<rightharpoonup> string) option"
  atoi :: "string \<Rightarrow> int option"
  TTL :: "string \<Rightarrow> duration option"
  redis_ok :: bool
  meta_ok :: bool
  act_ok :: "command \<Rightarrow> bool"
  audit_ok :: bool

definition NewEngine :: Engine where
  "NewEngine = \<lparr>prevWorkState = (\<lambda>_. None), lastJobStart = (\<lambda>_. None), current = (\<lambda>_. None),
     rulesCache = None, rulesAt = zero_time, offz = [], offmeta = (\<lambda>_. None), seen = (\<lambda>_. None),
     safety = (\<lambda>_. None), commands = [], contexts = 0, audits = 0, EM = (\<lambda>_. 0)\<rparr>"

definition tick :: "string \<Rightarrow> Engine \<Rightarrow> Engine" where
  "tick name e = e\<lparr>EM := Inc name (EM e)\<rparr>"

lemma tick_frame [simp]:
  "prevWorkState (tick n e) = prevWorkState e" "lastJobStart (tick n e) = lastJobStart e"
  "current (tick n e) = current e" "offz (tick n e) = offz e" "offmeta (tick n e) = offmeta e"
  "safety (tick n e) = safety e" "commands (tick n e) = commands e" "seen (tick n e) = seen e"
  by (simp_all add: tick_def)

definition rememberWorkState :: "string \<Rightarrow> int \<Rightarrow> Engine \<Rightarrow> Engine" where
  "rememberWorkState host ws e = e\<lparr>prevWorkState := (prevWorkState e)(host \<mapsto> ws)\<rparr>"

subsection \<open>Timers\<close>

definition zadd :: "string \<Rightarrow> int \<Rightarrow> (string \<times> int) list \<Rightarrow> (string \<times> int) list" where
  "zadd m score z = AList.update m score z"

definition zrem :: "string \<Rightarrow> (string \<times> int) list \<Rightarrow> bool \<times> (string \<times> int) list" where
  "zrem m z = (m \<in> fst ` set z, AList.delete m z)"

text \<open>The result says whether there was no error.\<close>

definition ScheduleOff :: "Options \<Rightarrow> Env \<Rightarrow> string \<Rightarrow> OffMeta \<Rightarrow> time \<Rightarrow> Engine \<Rightarrow> bool \<times> Engine" where
  "ScheduleOff opt env acc meta due e =
     (if \<not> HasRedis opt then (False, e)
      else if \<not> redis_ok env then (False, e)
      else (True, e\<lparr>offz := zadd acc (due div second) (offz e), offmeta := (offmeta e)(acc \<mapsto> meta)\<rparr>))"

definition CancelOff :: "Options \<Rightarrow> Env \<Rightarrow> string \<Rightarrow> Engine \<Rightarrow> (bool \<times> bool) \<times> Engine" where
  "CancelOff opt env acc e =
     (if \<not> HasRedis opt then ((False, True), e)
      else if \<not> redis_ok env then ((False, False), e)
      else case zrem acc (offz e) of (n, z) \<Rightarrow>
        ((n, True), e\<lparr>offz := z, offmeta := (offmeta e)(acc := None)\<rparr>))"

definition HasOffTimer :: "Options \<Rightarrow> Env \<Rightarrow> string \<Rightarrow> Engine \<Rightarrow> bool" where
  "HasOffTimer opt env acc e \<longleftrightarrow> HasRedis opt \<and> redis_ok env \<and> acc \<in> fst ` set (offz e)"

subsection \<open>Applying an action\<close>

definition issue :: "time \<Rightarrow> command \<Rightarrow> Engine \<Rightarrow> Engine" where
  "issue now c e = e\<lparr>commands := commands e @ [(now, c)]\<rparr>"

definition audit :: "Env \<Rightarrow> Engine \<Rightarrow> Engine" where
  "audit env e = (if audit_ok env then e\<lparr>audits := audits e + 1\<rparr> else tick ''db_errors'' e)"

lemma audit_frame [simp]:
  "prevWorkState (audit env e) = prevWorkState e" "lastJobStart (audit env e) = lastJobStart e"
  "current (audit env e) = current e" "offz (audit env e) = offz e" "offmeta (audit env e) = offmeta e"
  "safety (audit env e) = safety e" "commands (audit env e) = commands e" "seen (audit env e) = seen e"
  by (simp_all add: audit_def)

definition Apply :: "Options \<Rightarrow> Env \<Rightarrow> time \<Rightarrow> LAction \<Rightarrow> Engine \<Rightarrow> Engine" where
  "Apply opt env now a e =
     (case AType a of
        ActSetDesired \<Rightarrow>
          (let c = SetDesiredCmd (AAcc a) (Desired a); e1 = issue now c (tick ''linkage_triggered'' e) in
           audit env (if act_ok env c
             then (tick ''linkage_succeeded'' e1)\<lparr>current := (current e1)(AAcc a \<mapsto> Desired a)\<rparr>
             else tick ''linkage_failed'' e1))
      | ActScheduleOff \<Rightarrow>
          (case ScheduleOff opt env (AAcc a) \<lparr>MHost = AHost a, ScheduledAt = now\<rparr> (now + Delay a) e of
             (ok, e1) \<Rightarrow> audit env (if ok then tick ''off_scheduled'' e1 else e1))
      | ActCancelOff \<Rightarrow>
          (case CancelOff opt env (AAcc a) e of
             ((removed, ok), e1) \<Rightarrow>
               let e2 = (if removed then tick ''off_cancelled'' e1 else e1) in
               if ok \<and> \<not> removed then e2 else audit env e2)
      | ActSafetyVent \<Rightarrow>
          (if HasRedis opt \<and> \<not> redis_ok env then audit env e
           else audit env (tick ''safety_vent''
             (if HasRedis opt then e\<lparr>safety := (safety e)(AAcc a \<mapsto> now + Delay a)\<rparr> else e)))
      | ActStopHost \<Rightarrow>
          (let c = StopHostCmd (AHost a); e1 = issue now c e in
           audit env (tick (if act_ok env c then ''host_stop_sent'' else ''host_stop_failed'') e1)))"

definition execute :: "Options \<Rightarrow> Env \<Rightarrow> time \<Rightarrow> LAction list \<Rightarrow> Engine \<Rightarrow> Engine" where
  "execute opt env now actions e = fold (Apply opt env now) actions e"

subsection \<open>The snapshot the rules see\<close>

definition loadRules :: "Env \<Rightarrow> time \<Rightarrow> Engine \<Rightarrow> (string \<rightharpoonup> int) \<times> Engine" where
  "loadRules env now e =
     (case rulesCache e of
        Some r \<Rightarrow>
          if now - rulesAt e < minute then (r, e)
          else (case rules_db env of
                  None \<Rightarrow> ((\<lambda>_. None), tick ''db_errors'' e)
                | Some r' \<Rightarrow> (r', e\<lparr>rulesCache := Some r', rulesAt := now\<rparr>))
      | None \<Rightarrow>
          (case rules_db env of
             None \<Rightarrow> ((\<lambda>_. None), tick ''db_errors'' e)
           | Some r' \<Rightarrow> (r', e\<lparr>rulesCache := Some r', rulesAt := now\<rparr>)))"

definition shadow_work_state :: "Env \<Rightarrow> string \<Rightarrow> int option" where
  "shadow_work_state env host =
     (case shadow env host of
        None \<Rightarrow> None
      | Some rep \<Rightarrow> atoi env (case rep ''work_state'' of Some v \<Rightarrow> v | None \<Rightarrow> []))"

definition snapshot :: "Options \<Rightarrow> Env \<Rightarrow> string \<Rightarrow> Pairing list \<Rightarrow> time \<Rightarrow> Engine \<Rightarrow> EngineState \<times> Engine" where
  "snapshot opt env host ps now e =
     (let accs = set (map AccSN ps);
          (rules, e1) = loadRules env now e;
          ws = (if HasRedis opt then shadow_work_state env host else None);
          prev = (case prevWorkState e host of Some v \<Rightarrow> Some v | None \<Rightarrow> ws);
          e2 = (case (prevWorkState e host, ws) of
                  (None, Some w) \<Rightarrow> rememberWorkState host w e1 | _ \<Rightarrow> e1)
      in (\<lparr>Now = now, AllowOff = OAllowOff opt, StopHostOnFire = OStopHostOnFire opt,
           PrevWorkState = (\<lambda>h. if h = host then prev else None),
           LastJobStart = (\<lambda>h. if h = host then lastJobStart e host else None),
           SafetyVentUntil = (\<lambda>a. if HasRedis opt \<and> a \<in> accs
             then (case TTL env a of Some t \<Rightarrow> if t > 0 then Some (now + t) else None | None \<Rightarrow> None) else None),
           Current = (\<lambda>a. if a \<in> accs then current e a else None),
           HostWorkState = (\<lambda>h. if h = host then ws else None),
           Rules = rules, DefaultLevel = ODefaultLevel opt\<rparr>, e2))"

subsection \<open>Handling an envelope\<close>

datatype LOutcome = LIgnored | LNoPairing | LStale | LDedup | LNoAction | LActed

abbreviation SeenTTL :: duration where "SeenTTL \<equiv> 600000000000"
abbreviation OffRetryWait :: duration where "OffRetryWait \<equiv> 10000000000"

text \<open>The pairings an event is about, and whether it comes from an accessory.\<close>

definition resolve_role :: "Env \<Rightarrow> Event \<Rightarrow> bool \<times> Pairing list" where
  "resolve_role env evt =
     (case (if \<not> IsTelemetry evt \<and> Code evt \<in> set AccessorySafetyCodes then PairingByAcc env (SN evt) else None) of
        Some p \<Rightarrow> (True, CachedPairings env (HostSN p))
      | None \<Rightarrow> (False, if lookup_err env then [] else CachedPairings env (SN evt)))"

definition seen_key :: "Event \<Rightarrow> string" where
  "seen_key evt = SN evt @ '':'' @ (if Seq evt < 0 then ''-'' @ itoa_nat (nat (- Seq evt)) else itoa_nat (nat (Seq evt)))"

text \<open>\<open>SET key NX EX\<close>; \<open>None\<close> is an error.\<close>

definition mark_seen :: "Env \<Rightarrow> time \<Rightarrow> Event \<Rightarrow> Engine \<Rightarrow> bool option \<times> Engine" where
  "mark_seen env now evt e =
     (if setnx_err env then (None, e)
      else case seen e (seen_key evt) of
        Some x \<Rightarrow> if now < x then (Some False, e)
          else (Some True, e\<lparr>seen := (seen e)(seen_key evt \<mapsto> now + SeenTTL)\<rparr>)
      | None \<Rightarrow> (Some True, e\<lparr>seen := (seen e)(seen_key evt \<mapsto> now + SeenTTL)\<rparr>))"

text \<open>From the decision on.\<close>

definition note_event :: "Event \<Rightarrow> string \<Rightarrow> time \<Rightarrow> Engine \<Rightarrow> Engine" where
  "note_event evt host now e1 =
     (if IsTelemetry evt then
        (let e' = rememberWorkState host (WorkState evt) e1 in
         if prevWorkState e1 host = Some (WorkState evt) then tick ''work_state_debounced'' e' else e')
      else if Code evt = ''JOB_START'' then e1\<lparr>lastJobStart := (lastJobStart e1)(host \<mapsto> now)\<rparr>
      else e1)"

definition decide_and_act ::
  "Options \<Rightarrow> Env \<Rightarrow> time \<Rightarrow> Event \<Rightarrow> string \<Rightarrow> Pairing list \<Rightarrow> Engine \<Rightarrow> LOutcome \<times> Engine" where
  "decide_and_act opt env now evt host ps e =
     (let (st, e1) = snapshot opt env host ps now e;
          actions = Decide evt ps st;
          e2 = note_event evt host now e1
      in if actions = [] then (LNoAction, e2) else (LActed, execute opt env now actions e2))"

text \<open>The check for a repeated event, then the decision.\<close>

definition once ::
  "Options \<Rightarrow> Env \<Rightarrow> time \<Rightarrow> Event \<Rightarrow> string \<Rightarrow> Pairing list \<Rightarrow> Engine \<Rightarrow> LOutcome \<times> Engine" where
  "once opt env now evt host ps e =
     (if IsTelemetry evt \<or> \<not> HasRedis opt then decide_and_act opt env now evt host ps e
      else let (fresh, e1) = mark_seen env now evt e in
        if fresh = Some False then (LDedup, tick ''dedup_skipped'' e1)
        else decide_and_act opt env now evt host ps e1)"

text \<open>An event with pairings. \<open>Inl\<close>: the envelope is handed back for redelivery.\<close>

definition handle_paired ::
  "Options \<Rightarrow> Env \<Rightarrow> time \<Rightarrow> Event \<Rightarrow> bool \<Rightarrow> Pairing list \<Rightarrow> Engine \<Rightarrow> (unit + LOutcome) \<times> Engine" where
  "handle_paired opt env now evt isAcc ps e =
     (let host = HostSN (hd ps) in
      if isAcc \<and> \<not> context_ok env then (Inl (), tick ''context_failed'' e)
      else let e1 = (if isAcc then tick ''context_written'' (e\<lparr>contexts := contexts e + 1\<rparr>) else e) in
        if IsStale (RecvTs evt) now MaxEventAge then
          (let e2 = tick ''stale_dropped'' e1 in
           (Inr LStale, if IsTelemetry evt then rememberWorkState host (WorkState evt) e2 else e2))
        else let (out, e2) = once opt env now evt host ps e1 in (Inr out, e2))"

text \<open>\<open>evt\<close> is the normalised envelope, \<open>None\<close> if it has none.\<close>

definition Handle :: "Options \<Rightarrow> Env \<Rightarrow> time \<Rightarrow> Event option \<Rightarrow> Engine \<Rightarrow> (unit + LOutcome) \<times> Engine" where
  "Handle opt env now evt0 e0 =
     (let e = tick ''consumed'' e0 in
      case evt0 of
        None \<Rightarrow> (Inr LIgnored, tick ''payload_bad'' e)
      | Some evt \<Rightarrow>
          (let (isAcc, ps) = resolve_role env evt;
               e1 = (if \<not> isAcc \<and> lookup_err env then tick ''db_errors'' e else e)
           in if ps = [] then
                (Inr LNoPairing, tick ''no_pairing''
                  (if IsTelemetry evt then rememberWorkState (SN evt) (WorkState evt) e1 else e1))
              else handle_paired opt env now evt isAcc ps e1))"

subsection \<open>Firing the timers\<close>

text \<open>The due timers, lowest score first, at most a hundred, taken out of the set.\<close>

definition PopDue :: "Options \<Rightarrow> Env \<Rightarrow> time \<Rightarrow> Engine \<Rightarrow> string list \<times> Engine" where
  "PopDue opt env now e =
     (if \<not> HasRedis opt \<or> \<not> redis_ok env then ([], e)
      else let ms = map fst (take 100 (sort_key snd (filter (\<lambda>(m, s). s \<le> now div second) (offz e)))) in
        (ms, e\<lparr>offz := filter (\<lambda>(m, s). m \<notin> set ms) (offz e)\<rparr>))"

definition FireOff :: "Options \<Rightarrow> Env \<Rightarrow> time \<Rightarrow> string \<Rightarrow> Engine \<Rightarrow> Engine" where
  "FireOff opt env now acc e0 =
     (let meta = (if meta_ok env then (case offmeta e0 acc of Some m \<Rightarrow> m | None \<Rightarrow> zero_meta) else zero_meta);
          e = (if redis_ok env then e0\<lparr>offmeta := (offmeta e0)(acc := None)\<rparr> else e0);
          ls = (case lastJobStart e (MHost meta) of Some t \<Rightarrow> t | None \<Rightarrow> zero_time)
      in if \<not> OAllowOff opt then tick ''off_suppressed'' e
         else if ShouldCancelOff ls (ScheduledAt meta) then tick ''off_cancelled'' e
         else if (case TTL env acc of Some t \<Rightarrow> t > 0 | None \<Rightarrow> False) then
           tick ''off_requeued'' (snd (ScheduleOff opt env acc meta (now + the (TTL env acc)) e))
         else let c = SetDesiredCmd acc no_desired; e1 = issue now c e in
           if \<not> act_ok env c then
             snd (ScheduleOff opt env acc meta (now + OffRetryWait) (tick ''off_requeued'' (tick ''linkage_failed'' e1)))
           else audit env ((tick ''off_sent'' e1)\<lparr>current := (current e1)(acc \<mapsto> no_desired)\<rparr>))"

definition FireDueOff :: "Options \<Rightarrow> (string \<Rightarrow> Env) \<Rightarrow> Env \<Rightarrow> time \<Rightarrow> Engine \<Rightarrow> nat \<times> Engine" where
  "FireDueOff opt envs env now e =
     (let (due, e1) = PopDue opt env now e in
      (length due, fold (\<lambda>acc. FireOff opt (envs acc) now acc) due e1))"

subsection \<open>Reconciliation\<close>

definition accView :: "Options \<Rightarrow> Env \<Rightarrow> string \<Rightarrow> AccView" where
  "accView opt env acc =
     (let none = \<lparr>Known = False, VPowerOn = False, VFanLevel = 0, TriggerSource = []\<rparr> in
      if \<not> HasRedis opt then none
      else case shadow env acc of
        None \<Rightarrow> none
      | Some rep \<Rightarrow>
          (case rep ''power_on'' of
             None \<Rightarrow> none
           | Some v \<Rightarrow>
               \<lparr>Known = True, VPowerOn = (v = ''1'' \<or> v = ''true''),
                VFanLevel = (case atoi env (case rep ''fan_level'' of Some l \<Rightarrow> l | None \<Rightarrow> []) of Some n \<Rightarrow> n | None \<Rightarrow> 0),
                TriggerSource = (case rep ''trigger_source'' of Some s \<Rightarrow> s | None \<Rightarrow> [])\<rparr>))"

definition reconcile_pair ::
  "Options \<Rightarrow> Env \<Rightarrow> time \<Rightarrow> EngineState \<Rightarrow> int \<Rightarrow> Pairing \<Rightarrow> nat \<times> Engine \<Rightarrow> nat \<times> Engine" where
  "reconcile_pair opt env now st ws p ne =
     (case ne of (n, e) \<Rightarrow>
       (let (actions, findings) = ReconcileDecide p ws (accView opt env (AccSN p)) (HasOffTimer opt env (AccSN p) e) st;
            e1 = fold (\<lambda>f. tick (''reconcile_'' @ f)) findings e
        in (n + length actions, execute opt env now actions e1)))"

definition reconcile_host ::
  "Options \<Rightarrow> Env \<Rightarrow> time \<Rightarrow> string \<times> Pairing list \<Rightarrow> nat \<times> Engine \<Rightarrow> nat \<times> Engine" where
  "reconcile_host opt env now hps ne =
     (case (hps, ne) of ((host, ps), (n, e)) \<Rightarrow>
       (let (st, e1) = snapshot opt env host ps now e
        in fold (reconcile_pair opt env now st (hostState st host)) ps (n, e1)))"

text \<open>\<open>by_host\<close> is the grouping of all active pairings, in the order the Go map is ranged over; \<open>None\<close>: the query failed.\<close>

definition ReconcileOnce ::
  "Options \<Rightarrow> Env \<Rightarrow> time \<Rightarrow> (string \<times> Pairing list) list option \<Rightarrow> Engine \<Rightarrow> (unit + nat) \<times> Engine" where
  "ReconcileOnce opt env now by_host e0 =
     (let e = tick ''reconcile_runs'' e0 in
      case by_host of
        None \<Rightarrow> (Inl (), tick ''db_errors'' e)
      | Some hs \<Rightarrow> (case fold (reconcile_host opt env now) hs (0, e) of (n, e1) \<Rightarrow> (Inr n, e1)))"

subsection \<open>Ventilation windows are respected\<close>

definition good_action :: "LAction \<Rightarrow> bool" where
  "good_action a \<longleftrightarrow> (AType a = ActSetDesired \<longrightarrow> PowerOn (Desired a)) \<and>
     (AType a = ActSafetyVent \<longrightarrow> Delay a = SafetyVentWindow)"

lemma Decide_good: "a \<in> set (Decide evt ps st) \<Longrightarrow> good_action a"
proof -
  assume a: "a \<in> set (Decide evt ps st)"
  have "AType a = ActSafetyVent \<Longrightarrow> Delay a = SafetyVentWindow"
    using a by (auto simp: Decide_def Let_def startActions_def start_one_def endActions_def end_one_def ventActions_def
        mk_action_def split: if_splits option.splits)
  then show ?thesis using Decide_ok [OF a] by (auto simp: good_action_def action_ok_def)
qed

lemma ReconcileDecide_good: "a \<in> set (fst (ReconcileDecide p ws acc ht st)) \<Longrightarrow> good_action a"
  by (auto simp: ReconcileDecide_def mk_action_def good_action_def split: if_splits)

text \<open>
  The commands so far are not in the future, and a power-off of an accessory was sent before its present window began or not
  earlier than a second before its end.
\<close>

definition vent_ok :: "time \<Rightarrow> (time \<times> command) list \<Rightarrow> (string \<rightharpoonup> time) \<Rightarrow> bool" where
  "vent_ok now cs sf \<longleftrightarrow> (\<forall>(s, c)\<in>set cs. s \<le> now \<and>
     (\<forall>acc d x. c = SetDesiredCmd acc d \<longrightarrow> \<not> PowerOn d \<longrightarrow> sf acc = Some x \<longrightarrow>
        s \<le> x - SafetyVentWindow \<or> x - second < s))"

abbreviation vent_inv :: "time \<Rightarrow> Engine \<Rightarrow> bool" where
  "vent_inv now e \<equiv> vent_ok now (commands e) (safety e)"

lemma vent_ok_later: "vent_ok t cs sf \<Longrightarrow> t \<le> t' \<Longrightarrow> vent_ok t' cs sf"
  by (fastforce simp: vent_ok_def)

lemma vent_ok_issue:
  assumes "vent_ok now cs sf"
    and "\<And>acc d x. c = SetDesiredCmd acc d \<Longrightarrow> \<not> PowerOn d \<Longrightarrow> sf acc = Some x \<Longrightarrow> x - second < now"
  shows "vent_ok now (cs @ [(now, c)]) sf"
  using assms by (auto simp: vent_ok_def)

lemma vent_ok_window: "vent_ok now cs sf \<Longrightarrow> vent_ok now cs (sf(acc \<mapsto> now + SafetyVentWindow))"
  by (fastforce simp: vent_ok_def)

lemma issue_frame [simp]:
  "commands (issue now c e) = commands e @ [(now, c)]" "safety (issue now c e) = safety e"
  "current (issue now c e) = current e"
  by (simp_all add: issue_def)

lemma timer_frame [simp]:
  "commands (snd (ScheduleOff opt env acc m d e)) = commands e" "safety (snd (ScheduleOff opt env acc m d e)) = safety e"
  "commands (snd (CancelOff opt env acc e)) = commands e" "safety (snd (CancelOff opt env acc e)) = safety e"
  by (auto simp: ScheduleOff_def CancelOff_def zrem_def)

lemma Apply_inv:
  assumes "good_action a" "vent_inv now e"
  shows "vent_inv now (Apply opt env now a e)"
proof (cases "AType a")
  case ActSetDesired
  with assms show ?thesis by (auto simp: Apply_def Let_def good_action_def intro!: vent_ok_issue)
next
  case ActScheduleOff
  then show ?thesis using assms(2) by (simp add: Apply_def split_beta)
next
  case ActCancelOff
  then show ?thesis using assms(2) by (simp add: Apply_def Let_def split_beta)
next
  case ActStopHost
  with assms(2) show ?thesis by (auto simp: Apply_def Let_def intro!: vent_ok_issue)
next
  case ActSafetyVent
  then have "Delay a = SafetyVentWindow" using assms(1) by (simp add: good_action_def)
  with ActSafetyVent assms(2) show ?thesis by (auto simp: Apply_def intro: vent_ok_window)
qed

lemma execute_inv: "\<forall>a\<in>set actions. good_action a \<Longrightarrow> vent_inv now e \<Longrightarrow> vent_inv now (execute opt env now actions e)"
  by (induction actions arbitrary: e) (auto simp: execute_def Apply_inv)

lemma rememberWorkState_frame [simp]:
  "commands (rememberWorkState h w e) = commands e" "safety (rememberWorkState h w e) = safety e"
  by (simp_all add: rememberWorkState_def)

lemma loadRules_frame [simp]:
  "commands (snd (loadRules env now e)) = commands e" "safety (snd (loadRules env now e)) = safety e"
  by (auto simp: loadRules_def split: option.splits)

lemma snapshot_frame [simp]:
  "commands (snd (snapshot opt env host ps now e)) = commands e"
  "safety (snd (snapshot opt env host ps now e)) = safety e"
  by (auto simp: snapshot_def Let_def split_beta split: option.splits)

lemma note_event_frame [simp]:
  "commands (note_event evt host now e) = commands e" "safety (note_event evt host now e) = safety e"
  by (simp_all add: note_event_def Let_def)

lemma decide_and_act_inv:
  assumes "vent_inv now e"
  shows "vent_inv now (snd (decide_and_act opt env now evt host ps e))"
proof -
  obtain st e1 where s: "snapshot opt env host ps now e = (st, e1)" by fastforce
  have "commands e1 = commands e" "safety e1 = safety e"
    using snapshot_frame [of opt env host ps now e] by (simp_all add: s)
  then have inv: "vent_inv now (note_event evt host now e1)" using assms by simp
  then have "vent_inv now (execute opt env now (Decide evt ps st) (note_event evt host now e1))"
    using execute_inv Decide_good by blast
  with inv show ?thesis
    unfolding decide_and_act_def s Let_def prod.case by (cases "Decide evt ps st = []") simp_all
qed

lemma mark_seen_frame [simp]:
  "commands (snd (mark_seen env now evt e)) = commands e" "safety (snd (mark_seen env now evt e)) = safety e"
  by (auto simp: mark_seen_def split: option.splits)

lemma once_inv:
  assumes "vent_inv now e"
  shows "vent_inv now (snd (once opt env now evt host ps e))"
proof -
  obtain x e1 where m: "mark_seen env now evt e = (x, e1)" by fastforce
  then have "vent_inv now e1" using mark_seen_frame [of env now evt e] assms by simp
  then have "vent_inv now (snd (decide_and_act opt env now evt host ps e1))" "vent_inv now (tick ''dedup_skipped'' e1)"
    by (simp_all add: decide_and_act_inv)
  moreover have "vent_inv now (snd (decide_and_act opt env now evt host ps e))"
    using assms by (rule decide_and_act_inv)
  ultimately show ?thesis
    unfolding once_def m Let_def prod.case by (cases "IsTelemetry evt \<or> \<not> HasRedis opt"; cases "x = Some False") simp_all
qed

lemma handle_paired_inv:
  assumes "vent_inv now e"
  shows "vent_inv now (snd (handle_paired opt env now evt isAcc ps e))"
proof -
  let ?e1 = "if isAcc then tick ''context_written'' (e\<lparr>contexts := contexts e + 1\<rparr>) else e"
  have e1: "vent_inv now ?e1" using assms by simp
  then have "vent_inv now (snd (once opt env now evt (HostSN (hd ps)) ps ?e1))" by (rule once_inv)
  with e1 assms show ?thesis
    unfolding handle_paired_def Let_def split_beta
    by (cases "isAcc \<and> \<not> context_ok env"; cases "IsStale (RecvTs evt) now MaxEventAge") simp_all
qed

lemma Handle_inv:
  assumes "vent_inv now e"
  shows "vent_inv now (snd (Handle opt env now evt e))"
proof (cases evt)
  case None
  then show ?thesis using assms by (simp add: Handle_def)
next
  case (Some ev)
  obtain isAcc ps where r: "resolve_role env ev = (isAcc, ps)" by fastforce
  let ?e1 = "if \<not> isAcc \<and> lookup_err env then tick ''db_errors'' (tick ''consumed'' e) else tick ''consumed'' e"
  have e1: "vent_inv now ?e1" using assms by simp
  with handle_paired_inv show ?thesis
    unfolding Handle_def Let_def Some option.case r prod.case by (cases "ps = []") simp_all
qed

lemma fold_tick_frame [simp]:
  "commands (fold (\<lambda>f. tick (g f)) fs e) = commands e" "safety (fold (\<lambda>f. tick (g f)) fs e) = safety e"
  by (induction fs arbitrary: e) auto

lemma reconcile_pair_inv: "vent_inv now (snd ne) \<Longrightarrow> vent_inv now (snd (reconcile_pair opt env now st ws p ne))"
  by (auto simp: reconcile_pair_def Let_def split_beta intro!: execute_inv ReconcileDecide_good)

lemma fold_reconcile_pair_inv:
  "vent_inv now (snd ne) \<Longrightarrow> vent_inv now (snd (fold (reconcile_pair opt env now st ws) ps ne))"
  by (induction ps arbitrary: ne) (simp_all add: reconcile_pair_inv)

lemma reconcile_host_inv: "vent_inv now (snd ne) \<Longrightarrow> vent_inv now (snd (reconcile_host opt env now hps ne))"
  by (auto simp: reconcile_host_def split_beta intro!: fold_reconcile_pair_inv)

lemma ReconcileOnce_inv:
  assumes "vent_inv now e"
  shows "vent_inv now (snd (ReconcileOnce opt env now hs e))"
proof -
  have "vent_inv now (snd ne) \<Longrightarrow> vent_inv now (snd (fold (reconcile_host opt env now) l ne))" for l ne
    by (induction l arbitrary: ne) (simp_all add: reconcile_host_inv)
  from this [of "(0, tick ''reconcile_runs'' e)"] assms show ?thesis
    by (simp add: ReconcileOnce_def Let_def split_beta split: option.splits)
qed

text \<open>
  Redis answers truthfully about a window: while a second or more of it is left, its remaining life is reported positive.
\<close>

definition truthful :: "Env \<Rightarrow> time \<Rightarrow> Engine \<Rightarrow> bool" where
  "truthful env now e \<longleftrightarrow>
     (\<forall>acc x. safety e acc = Some x \<longrightarrow> now + second \<le> x \<longrightarrow> (\<exists>t. TTL env acc = Some t \<and> 0 < t))"

lemma FireOff_inv:
  assumes "truthful env now e" "vent_inv now e"
  shows "vent_inv now (FireOff opt env now acc e)"
proof (cases "case TTL env acc of Some t \<Rightarrow> t > 0 | None \<Rightarrow> False")
  case True
  then show ?thesis using assms(2) by (auto simp: FireOff_def Let_def)
next
  case False
  have "vent_ok now (commands e @ [(now, SetDesiredCmd acc no_desired)]) (safety e)"
    using assms(1) False
    by (intro vent_ok_issue [OF assms(2)]) (force simp: truthful_def no_desired_def split: option.splits)
  then show ?thesis using False assms(2) by (auto simp: FireOff_def Let_def)
qed

lemma PopDue_frame [simp]:
  "commands (snd (PopDue opt env now e)) = commands e" "safety (snd (PopDue opt env now e)) = safety e"
  by (auto simp: PopDue_def Let_def)

text \<open>The engine in motion: events, timers popped and fired one at a time, reconciliation rounds, and the clock.\<close>

inductive engine_run :: "Options \<Rightarrow> time \<Rightarrow> Engine \<Rightarrow> bool" for opt :: Options where
  "engine_run opt t NewEngine"
| "engine_run opt t e \<Longrightarrow> t \<le> t' \<Longrightarrow> engine_run opt t' e"
| "engine_run opt now e \<Longrightarrow> Handle opt env now evt e = (r, e') \<Longrightarrow> engine_run opt now e'"
| "engine_run opt now e \<Longrightarrow> PopDue opt env now e = (due, e') \<Longrightarrow> engine_run opt now e'"
| "engine_run opt now e \<Longrightarrow> truthful env now e \<Longrightarrow> engine_run opt now (FireOff opt env now acc e)"
| "engine_run opt now e \<Longrightarrow> ReconcileOnce opt env now hs e = (x, e') \<Longrightarrow> engine_run opt now e'"

lemma engine_run_inv: "engine_run opt t e \<Longrightarrow> vent_inv t e"
proof (induction rule: engine_run.induct)
  case (1 t)
  then show ?case by (simp add: vent_ok_def NewEngine_def)
next
  case (2 t e t')
  then show ?case by (blast intro: vent_ok_later)
next
  case (3 now e env evt r e')
  then show ?case using Handle_inv [of now e opt env evt] by simp
next
  case (4 now e env due e')
  then show ?case using PopDue_frame [of opt env now e] by simp
next
  case (5 now e env acc)
  then show ?case by (blast intro: FireOff_inv)
next
  case (6 now e env hs x e')
  then show ?case using ReconcileOnce_inv [of now e opt env hs] by simp
qed


definition demo_opt :: Options where
  "demo_opt = \<lparr>OAllowOff = True, OStopHostOnFire = True, ODefaultLevel = 2, HasRedis = True\<rparr>"

definition demo_env :: Env where
  "demo_env = \<lparr>PairingByAcc = (\<lambda>_. None), CachedPairings = (\<lambda>_. [demo_pair]), lookup_err = False, context_ok = True,
     setnx_err = False, rules_db = Some (\<lambda>_. None), shadow = (\<lambda>_. None), atoi = (\<lambda>_. None), TTL = (\<lambda>_. None),
     redis_ok = True, meta_ok = True, act_ok = (\<lambda>_. True), audit_ok = True\<rparr>"


subsection \<open>What becomes of a timer\<close>

text \<open>
  a switch-off is sent, postponed or dropped for a reason. With Redis answering, firing a timer sends the power-off only if switching off is permitted, no job
  of its host has started since it was set, and no ventilation window is open; an open window postpones it to the
  window's end and a failed command to ten seconds later, with its metadata; otherwise it is dropped without a command.
\<close>

theorem timer_fate:
  assumes "HasRedis opt" "redis_ok env" "meta_ok env" "offmeta e acc = Some m"
    and "e' = FireOff opt env now acc e"
    and "started \<longleftrightarrow> (\<exists>t. lastJobStart e (MHost m) = Some t \<and> t \<noteq> zero_time \<and> ScheduledAt m \<le> t)"
    and "venting \<longleftrightarrow> (\<exists>t. TTL env acc = Some t \<and> 0 < t)"
  shows "(if \<not> OAllowOff opt \<or> started then commands e' = commands e \<and> offz e' = offz e
    else if venting then commands e' = commands e \<and>
      map_of (offz e') acc = Some ((now + the (TTL env acc)) div second) \<and> offmeta e' acc = Some m
    else commands e' = commands e @ [(now, SetDesiredCmd acc no_desired)] \<and>
      (if act_ok env (SetDesiredCmd acc no_desired) then current e' acc = Some no_desired \<and> offz e' = offz e
       else map_of (offz e') acc = Some ((now + OffRetryWait) div second) \<and> offmeta e' acc = Some m))"
proof -
  have off: "offmeta (issue n c x) = offmeta x" "offz (issue n c x) = offz x" "lastJobStart (issue n c x) = lastJobStart x"
    for n c x by (simp_all add: issue_def)
  have st: "ShouldCancelOff (case lastJobStart e (MHost m) of Some t \<Rightarrow> t | None \<Rightarrow> zero_time) (ScheduledAt m) = started"
    unfolding assms(6) by (auto simp: ShouldCancelOff_def not_less split: option.splits)
  have v: "(case TTL env acc of Some t \<Rightarrow> t > 0 | None \<Rightarrow> False) = venting"
    unfolding assms(7) by (auto split: option.splits)
  show ?thesis unfolding assms(5) using assms(1-4)
    by (simp add: FireOff_def Let_def st v ScheduleOff_def zadd_def update_conv off)
qed

theorem timer_fate_witness:
  "let e = NewEngine\<lparr>offmeta := (\<lambda>_. None)(''ACC1'' \<mapsto> \<lparr>MHost = ''HOST'', ScheduledAt = 7\<rparr>),
     lastJobStart := (\<lambda>_. None)(''HOST'' \<mapsto> 8)\<rparr> in commands (FireOff demo_opt demo_env 9 ''ACC1'' e) = []"
proof -
  let ?m = "\<lparr>MHost = ''HOST'', ScheduledAt = 7\<rparr>"
  let ?e = "NewEngine\<lparr>offmeta := (\<lambda>_. None)(''ACC1'' \<mapsto> ?m), lastJobStart := (\<lambda>_. None)(''HOST'' \<mapsto> 8)\<rparr>"
  have "HasRedis demo_opt" "redis_ok demo_env" "meta_ok demo_env" "offmeta ?e ''ACC1'' = Some ?m"
    by (simp_all add: demo_opt_def demo_env_def)
  from timer_fate [OF this refl refl refl, of 9] show ?thesis
    by (simp add: Let_def NewEngine_def zero_time_def split: if_splits)
qed

text \<open>
  When Redis fails between the pop of a timer and its firing, the metadata reads as empty and the window as over, and
  the power-off is sent, although a job of the host may have started and a window may be open.
\<close>

theorem redis_error_switches_off:
  assumes "OAllowOff opt" "\<not> meta_ok env" "TTL env acc = None" "lastJobStart e [] = None"
  shows "(now, SetDesiredCmd acc no_desired) \<in> set (commands (FireOff opt env now acc e))"
  using assms
  by (auto simp: FireOff_def Let_def zero_meta_def ShouldCancelOff_def ScheduleOff_def issue_def)

text \<open>
  The engine's idea of an accessory's state is the last command it gave, never a report: an accessory switched off by hand after a
  full-speed command is not switched on again by a safety event, whatever its shadow says.
\<close>

theorem vent_trusts_last_command:
  assumes "Current st (AccSN p) = Some max_on" "a \<in> set (ventActions p st trig)"
  shows "AType a \<noteq> ActSetDesired"
  using assms by (auto simp: ventActions_def mk_action_def)

end
