(* ===== verification/FleetModel.thy ===== *)
theory FleetModel
  imports Schedule Complex_Main "HOL-Library.Multiset"
begin

text \<open>
  The decisions of the fleet service that need no store, \<open>internal/fleet/model.go\<close> and the pure part of
  \<open>internal/fleet/alarmtargets.go\<close>: the role matrix, the ownership ruling, the status table of the
  class queue, the device summary read from the Redis shadow, the dashboard counts, the lock
  reconciliation, the consumables summary and the merge of alarm targets.
\<close>

subsection \<open>Roles\<close>

type_synonym role = string

definition ValidRole :: "role \<Rightarrow> bool" where
  "ValidRole r \<longleftrightarrow> r = ''org_admin'' \<or> r = ''teacher'' \<or> r = ''student''"

datatype FleetAction = ActView | ActManageMembers | ActAttachDevice | ActEditSchedule | ActUnlock | ActControl
  | ActManageQueue | ActApprove | ActSubmit | ActViewConsumabl

definition matrix :: "(role \<times> FleetAction list) list" where
  "matrix =
     [(''org_admin'', [ActView, ActManageMembers, ActAttachDevice, ActEditSchedule, ActUnlock, ActControl,
         ActManageQueue, ActApprove, ActSubmit, ActViewConsumabl]),
      (''teacher'', [ActView, ActEditSchedule, ActUnlock, ActControl, ActManageQueue, ActApprove, ActSubmit,
         ActViewConsumabl]),
      (''student'', [ActView, ActSubmit])]"

definition Authorize :: "role \<Rightarrow> FleetAction \<Rightarrow> bool" where
  "Authorize r a = (case map_of matrix r of None \<Rightarrow> False | Some as \<Rightarrow> a \<in> set as)"

record Ruling =
  RAllow :: bool
  RAudit :: bool

definition ResolveOwnership :: "bool \<Rightarrow> bool \<Rightarrow> Ruling" where
  "ResolveOwnership personalBound orgAttached =
     (if orgAttached then \<lparr>RAllow = False, RAudit = False\<rparr>
      else if personalBound then \<lparr>RAllow = True, RAudit = True\<rparr>
      else \<lparr>RAllow = True, RAudit = False\<rparr>)"

subsection \<open>The status table of queue items\<close>

definition item_transitions :: "(string \<times> (string \<times> role list) list) list" where
  "item_transitions =
     (let adm = ''org_admin''; tea = ''teacher''; stu = ''student''; sys = ''system'' in
      [(''submitted'', [(''approved'', [adm, tea]), (''rejected'', [adm, tea]), (''canceled'', [stu, tea, adm]),
          (''skipped'', [sys])]),
       (''approved'', [(''dispatched'', [sys]), (''canceled'', [stu, tea, adm]), (''skipped'', [sys]),
          (''needs_teacher'', [sys])]),
       (''dispatched'', [(''running'', [sys]), (''done'', [sys]), (''failed'', [sys]), (''skipped'', [sys]),
          (''approved'', [sys])]),
       (''running'', [(''done'', [sys]), (''failed'', [sys])]),
       (''needs_teacher'', [(''approved'', [adm, tea]), (''rejected'', [adm, tea])])])"

definition Transition :: "string \<Rightarrow> string \<Rightarrow> role \<Rightarrow> bool" where
  "Transition from to r =
     (case map_of item_transitions from of
        None \<Rightarrow> False
      | Some tos \<Rightarrow> (case map_of tos to of None \<Rightarrow> False | Some roles \<Rightarrow> r \<in> set roles))"

lemma Transition_cases:
  "Transition from to r \<Longrightarrow> r \<noteq> ''system'' \<Longrightarrow>
   (from = ''submitted'' \<and> to \<in> {''approved'', ''rejected'', ''canceled''}) \<or>
   (from = ''approved'' \<and> to = ''canceled'') \<or>
   (from = ''needs_teacher'' \<and> to \<in> {''approved'', ''rejected''})"
  by (auto simp: Transition_def item_transitions_def Let_def split: if_splits)

lemma Transition_approver:
  "Transition from to r \<Longrightarrow> r \<noteq> ''system'' \<Longrightarrow> to \<in> {''approved'', ''rejected''} \<Longrightarrow> r = ''org_admin'' \<or> r = ''teacher''"
  by (auto simp: Transition_def item_transitions_def Let_def split: if_splits)

subsection \<open>Device summaries\<close>

text \<open>
  \<open>strconv.ParseFloat\<close> on plain decimal notation, which is what the
  pipeline writes into the shadow (exponents, hexadecimal floats and the names of
  infinities count as malformed here). The value is kept exactly.
\<close>

definition ParseFloat :: "string \<Rightarrow> rat option" where
  "ParseFloat s =
     (case signed_digits s of
        None \<Rightarrow> None
      | Some (neg, body) \<Rightarrow>
          (let whole = takeWhile is_digit body; rest = dropWhile is_digit body;
               frac = (case rest of [] \<Rightarrow> [] | _ # r \<Rightarrow> r);
               v = (of_nat (decimal whole) + of_nat (decimal frac) / 10 ^ length frac :: rat)
           in if whole = [] \<and> frac = [] then None
              else if rest \<noteq> [] \<and> hd rest \<noteq> CHR ''.'' then None
              else if \<not> list_all is_digit frac then None
              else Some (if neg then - v else v)))"

text \<open>Go's conversion of a float to an integer truncates towards zero.\<close>

definition trunc :: "rat \<Rightarrow> int" where
  "trunc x = (if x < 0 then - \<lfloor>- x\<rfloor> else \<lfloor>x\<rfloor>)"

type_synonym reported = "(string \<times> string) list"

record ShadowSummary =
  SSN :: string
  Present :: bool
  WorkState :: int
  Locked :: bool
  UpdatedAt :: int
  OTAPhase :: string

definition WorkStateOf :: "reported \<Rightarrow> int" where
  "WorkStateOf rep =
     (case map_of rep ''work_state'' of
        None \<Rightarrow> -1
      | Some v \<Rightarrow> (case ParseFloat (trimSpace v) of None \<Rightarrow> -1 | Some f \<Rightarrow> trunc f))"

definition LockedOf :: "reported \<Rightarrow> bool" where
  "LockedOf rep \<longleftrightarrow>
     (case map_of rep ''lock_state'' of
        None \<Rightarrow> False
      | Some v \<Rightarrow> (case ParseFloat (trimSpace v) of None \<Rightarrow> False | Some f \<Rightarrow> f \<noteq> 0)) \<or>
     (let l = toLower (trimSpace (case map_of rep ''lock'' of None \<Rightarrow> [] | Some v \<Rightarrow> v)) in l = ''true'' \<or> l = ''1'')"

definition Summarize :: "string \<Rightarrow> reported \<Rightarrow> ShadowSummary" where
  "Summarize sn rep =
     \<lparr>SSN = sn, Present = (rep \<noteq> []), WorkState = WorkStateOf rep, Locked = LockedOf rep,
      UpdatedAt = (case map_of rep ''updated_at'' of None \<Rightarrow> 0 | Some v \<Rightarrow> (case ParseInt v of None \<Rightarrow> 0 | Some n \<Rightarrow> n)),
      OTAPhase = (case map_of rep ''ota_phase'' of None \<Rightarrow> [] | Some v \<Rightarrow> v)\<rparr>"

abbreviation OnlineWindow :: duration where "OnlineWindow \<equiv> 90000000000"

definition Online :: "time \<Rightarrow> ShadowSummary \<Rightarrow> bool" where
  "Online now s \<longleftrightarrow> 0 < UpdatedAt s \<and> now - UpdatedAt s * 1000000 \<le> OnlineWindow"

definition IdleDevice :: "ShadowSummary \<Rightarrow> bool" where
  "IdleDevice s \<longleftrightarrow> WorkState s = 0 \<and> \<not> Locked s"

record Counts =
  CTotal :: nat
  COnline :: nat
  CWorking :: nat
  CLocked :: nat
  CAlarm :: nat
  CPendingOTA :: nat

definition count_one :: "string set \<Rightarrow> string set \<Rightarrow> time \<Rightarrow> ShadowSummary \<Rightarrow> Counts \<Rightarrow> Counts" where
  "count_one alarmSNs otaSNs now s c =
     c\<lparr>COnline := COnline c + (if Online now s then 1 else 0),
       CWorking := CWorking c + (if Online now s \<and> WorkState s > 0 then 1 else 0),
       CLocked := CLocked c + (if Locked s then 1 else 0),
       CAlarm := CAlarm c + (if SSN s \<in> alarmSNs then 1 else 0),
       CPendingOTA := CPendingOTA c + (if SSN s \<in> otaSNs then 1 else 0)\<rparr>"

definition Aggregate :: "ShadowSummary list \<Rightarrow> string set \<Rightarrow> string set \<Rightarrow> time \<Rightarrow> Counts" where
  "Aggregate shadows alarmSNs otaSNs now =
     fold (count_one alarmSNs otaSNs now) shadows
       \<lparr>CTotal = length shadows, COnline = 0, CWorking = 0, CLocked = 0, CAlarm = 0, CPendingOTA = 0\<rparr>"

subsection \<open>Lock reconciliation\<close>

record LockPatch =
  PLock :: bool
  PClearExpiry :: bool

definition ReconcileLock :: "bool \<Rightarrow> bool option \<Rightarrow> time option \<Rightarrow> time \<Rightarrow> LockPatch option \<times> bool" where
  "ReconcileLock shouldLock curLock expiresAt now =
     (case expiresAt of
        Some e \<Rightarrow>
          if now < e then (None, False) else (Some \<lparr>PLock = shouldLock, PClearExpiry = True\<rparr>, True)
      | None \<Rightarrow>
          if curLock = Some shouldLock then (None, False)
          else (Some \<lparr>PLock = shouldLock, PClearExpiry = False\<rparr>, False))"

subsection \<open>Consumables\<close>

record PartHealth =
  HSN :: string
  Part :: string
  PartHealth :: rat

record PartBucket =
  BPart :: string
  BTotal :: nat
  Good :: nat
  Warn :: nat
  Critical :: nat

definition LowHealthThreshold :: rat where "LowHealthThreshold = 20"

text \<open>Go compares strings byte by byte.\<close>

fun str_less :: "string \<Rightarrow> string \<Rightarrow> bool" where
  "str_less [] ys = (ys \<noteq> [])"
| "str_less (x # xs) [] = False"
| "str_less (x # xs) (y # ys) = (if code x < code y then True else if code x = code y then str_less xs ys else False)"

definition less_row :: "PartHealth \<Rightarrow> PartHealth \<Rightarrow> bool" where
  "less_row a b =
     (if PartHealth a \<noteq> PartHealth b then PartHealth a < PartHealth b
      else if HSN a \<noteq> HSN b then str_less (HSN a) (HSN b)
      else str_less (Part a) (Part b))"

definition count_health :: "rat \<Rightarrow> PartBucket \<Rightarrow> PartBucket" where
  "count_health h b =
     (if h < LowHealthThreshold then b\<lparr>BTotal := BTotal b + 1, Critical := Critical b + 1\<rparr>
      else if h < 60 then b\<lparr>BTotal := BTotal b + 1, Warn := Warn b + 1\<rparr>
      else b\<lparr>BTotal := BTotal b + 1, Good := Good b + 1\<rparr>)"

fun add_row :: "PartHealth \<Rightarrow> PartBucket list \<Rightarrow> PartBucket list" where
  "add_row r [] = [count_health (PartHealth r) \<lparr>BPart = Part r, BTotal = 0, Good = 0, Warn = 0, Critical = 0\<rparr>]"
| "add_row r (b # bs) = (if BPart b = Part r then count_health (PartHealth r) b # bs else b # add_row r bs)"

text \<open>
  The list is sorted in place: the next row sinks leftwards past the rows it is less than. The
  prefix is kept reversed, so sinking is insertion from the front.
\<close>

fun sink :: "PartHealth \<Rightarrow> PartHealth list \<Rightarrow> PartHealth list" where
  "sink x [] = [x]"
| "sink x (y # ys) = (if less_row x y then y # sink x ys else x # y # ys)"

definition sort_low :: "PartHealth list \<Rightarrow> PartHealth list" where
  "sort_low low = rev (fold sink low [])"

definition SummarizeConsumables :: "PartHealth list \<Rightarrow> PartBucket list \<times> PartHealth list" where
  "SummarizeConsumables rows =
     (fold add_row rows [], sort_low (filter (\<lambda>r. PartHealth r < LowHealthThreshold) rows))"

subsection \<open>Alarm targets\<close>

record AlarmTarget =
  TUser :: int
  TRole :: string
  TSource :: string

text \<open>One pass of the merge: users not positive or seen before are left out.\<close>

fun merge_pass :: "AlarmTarget list \<Rightarrow> AlarmTarget list \<Rightarrow> AlarmTarget list" where
  "merge_pass out [] = out"
| "merge_pass out (t # ts) =
     (if TUser t \<le> 0 \<or> TUser t \<in> TUser ` set out then merge_pass out ts else merge_pass (out @ [t]) ts)"

text \<open>The store returns at most one subscription per user, so the order of equal users does not arise.\<close>

definition MergeTargets :: "AlarmTarget list \<Rightarrow> int list \<Rightarrow> AlarmTarget list" where
  "MergeTargets org personal =
     merge_pass (merge_pass [] (map (\<lambda>t. t\<lparr>TSource := ''org''\<rparr>) (sort_key TUser org)))
       (map (\<lambda>i. \<lparr>TUser = i, TRole = [], TSource = ''personal''\<rparr>) (sort personal))"

subsection \<open>The summary lists every low row once, in order\<close>

lemma code_inj: "code x = code y \<longleftrightarrow> x = y"
  by (simp add: code_def)

lemma str_less_irrefl [simp]: "\<not> str_less xs xs"
  by (induction xs) auto

lemma str_less_Nil [simp]: "\<not> str_less xs []"
  by (cases xs) auto

lemma str_less_trans: "str_less xs ys \<Longrightarrow> str_less ys zs \<Longrightarrow> str_less xs zs"
proof (induction xs ys arbitrary: zs rule: str_less.induct)
  case (1 ys)
  then show ?case by (cases zs) auto
next
  case (3 x xs y ys)
  then show ?case by (cases zs) (auto split: if_splits)
qed simp

lemma str_less_total: "xs = ys \<or> str_less xs ys \<or> str_less ys xs"
proof (induction xs ys rule: str_less.induct)
  case (3 x xs y ys)
  then show ?case by (cases "code x" "code y" rule: linorder_cases) (auto simp: code_inj)
qed auto

lemma less_row_irrefl [simp]: "\<not> less_row a a"
  by (simp add: less_row_def)

lemma less_row_trans: "less_row a b \<Longrightarrow> less_row b c \<Longrightarrow> less_row a c"
  by (auto simp: less_row_def split: if_splits dest: str_less_trans)

lemma less_row_total: "less_row a b \<or> less_row b a \<or> a = b"
  using str_less_total [of "HSN a" "HSN b"] str_less_total [of "Part a" "Part b"]
  by (cases a; cases b) (auto simp: less_row_def)

text \<open>\<open>not_after a b\<close>: \<open>a\<close> may stand before \<open>b\<close>.\<close>

definition not_after :: "PartHealth \<Rightarrow> PartHealth \<Rightarrow> bool" where
  "not_after a b \<longleftrightarrow> \<not> less_row b a"

lemma not_after_trans: "not_after a b \<Longrightarrow> not_after b c \<Longrightarrow> not_after a c"
  unfolding not_after_def using less_row_total less_row_trans by metis

lemma mset_sink [simp]: "mset (sink x ys) = add_mset x (mset ys)"
  by (induction ys) auto

lemma sink_sorted:
  "sorted_wrt (\<lambda>a b. not_after b a) ys \<Longrightarrow> sorted_wrt (\<lambda>a b. not_after b a) (sink x ys)"
proof (induction ys)
  case (Cons y ys)
  have set: "set (sink x ys) = insert x (set ys)" by (metis mset_sink set_mset_add_mset_insert set_mset_mset)
  show ?case
  proof (cases "less_row x y")
    case True
    then have "not_after x y" unfolding not_after_def using less_row_trans less_row_irrefl by blast
    then show ?thesis using Cons True by (auto simp: set)
  next
    case False
    then have yx: "not_after y x" by (simp add: not_after_def)
    moreover have "not_after z x" if "z \<in> set ys" for z
      using Cons.prems that not_after_trans [OF _ yx] by auto
    ultimately show ?thesis using Cons.prems False by auto
  qed
qed simp

lemma fold_sink:
  "mset (fold sink low acc) = mset acc + mset low"
  "sorted_wrt (\<lambda>a b. not_after b a) acc \<Longrightarrow> sorted_wrt (\<lambda>a b. not_after b a) (fold sink low acc)"
  by (induction low arbitrary: acc) (auto simp: sink_sorted)

lemma sort_low_ok: "mset (sort_low low) = mset low" "sorted_wrt not_after (sort_low low)"
  using fold_sink [where acc = "[]"] by (simp_all add: sort_low_def sorted_wrt_rev)

definition bucket_total :: "string \<Rightarrow> PartBucket list \<Rightarrow> nat" where
  "bucket_total p bs = sum_list (map BTotal (filter (\<lambda>b. BPart b = p) bs))"

definition bucket_sound :: "PartBucket \<Rightarrow> bool" where
  "bucket_sound b \<longleftrightarrow> BTotal b = Good b + Warn b + Critical b"

lemma count_health_simps [simp]:
  "BPart (count_health h b) = BPart b" "BTotal (count_health h b) = BTotal b + 1"
  "bucket_sound b \<Longrightarrow> bucket_sound (count_health h b)"
  "Critical (count_health h b) = Critical b + (if h < LowHealthThreshold then 1 else 0)"
  by (auto simp: count_health_def bucket_sound_def LowHealthThreshold_def)

lemma add_row_parts: "BPart ` set (add_row r bs) = insert (Part r) (BPart ` set bs)"
  by (induction bs) auto

lemma add_row_distinct: "distinct (map BPart bs) \<Longrightarrow> distinct (map BPart (add_row r bs))"
  by (induction bs) (auto simp: add_row_parts)

lemma add_row_sound: "\<forall>b\<in>set bs. bucket_sound b \<Longrightarrow> \<forall>b\<in>set (add_row r bs). bucket_sound b"
  by (induction bs) (auto simp: bucket_sound_def count_health_def LowHealthThreshold_def)

lemma add_row_total:
  "bucket_total p (add_row r bs) = bucket_total p bs + (if Part r = p then 1 else 0)"
  by (induction bs) (auto simp: bucket_total_def)

lemma add_row_critical:
  "sum_list (map Critical (add_row r bs)) =
   sum_list (map Critical bs) + (if PartHealth r < LowHealthThreshold then 1 else 0)"
  by (induction bs) auto

lemma fold_add_row_distinct: "distinct (map BPart bs) \<Longrightarrow> distinct (map BPart (fold add_row rows bs))"
  by (induction rows arbitrary: bs) (simp_all add: add_row_distinct)

lemma fold_add_row_sound: "\<forall>b\<in>set bs. bucket_sound b \<Longrightarrow> \<forall>b\<in>set (fold add_row rows bs). bucket_sound b"
  by (induction rows arbitrary: bs) (simp, metis add_row_sound fold_simps(2))

lemma fold_add_row_total:
  "bucket_total p (fold add_row rows bs) = bucket_total p bs + length (filter (\<lambda>r. Part r = p) rows)"
  by (induction rows arbitrary: bs) (simp_all add: add_row_total)

lemma fold_add_row_critical:
  "sum_list (map Critical (fold add_row rows bs)) =
   sum_list (map Critical bs) + length (filter (\<lambda>r. PartHealth r < LowHealthThreshold) rows)"
  by (induction rows arbitrary: bs) (simp_all add: add_row_critical)

lemmas fold_add_row = fold_add_row_distinct fold_add_row_sound fold_add_row_total fold_add_row_critical

text \<open>
  the consumables report is complete and ordered. There is one bucket per part with as many rows as the organisation
  has of that part, split into good, warning and critical ones without overlap; the purchase list holds
  exactly the rows below the threshold, worst first, and is as long as the critical counts add up to.
\<close>

theorem consumables_complete:
  "distinct (map BPart (fst (SummarizeConsumables rows))) \<and>
   list_all bucket_sound (fst (SummarizeConsumables rows)) \<and>
   bucket_total p (fst (SummarizeConsumables rows)) = length (filter (\<lambda>r. Part r = p) rows) \<and>
   mset (snd (SummarizeConsumables rows)) = filter_mset (\<lambda>r. PartHealth r < 20) (mset rows) \<and>
   sorted_wrt not_after (snd (SummarizeConsumables rows)) \<and>
   sum_list (map Critical (fst (SummarizeConsumables rows))) = length (snd (SummarizeConsumables rows))"
  using fold_add_row [where bs = "[]" and rows = rows]
    sort_low_ok [of "filter (\<lambda>r. PartHealth r < LowHealthThreshold) rows"]
    mset_eq_length [OF sort_low_ok(1) [of "filter (\<lambda>r. PartHealth r < LowHealthThreshold) rows"]]
  by (simp add: SummarizeConsumables_def list_all_iff bucket_total_def LowHealthThreshold_def)

subsection \<open>The merge of alarm targets\<close>

lemma merge_pass_users:
  "TUser ` set (merge_pass out ts) = TUser ` set out \<union> {u \<in> TUser ` set ts. 0 < u}"
  by (induction out ts rule: merge_pass.induct) auto

lemma merge_pass_distinct:
  "distinct (map TUser out) \<Longrightarrow> distinct (map TUser (merge_pass out ts))"
  by (induction out ts rule: merge_pass.induct) auto

lemma merge_pass_prefix: "\<exists>r. merge_pass out ts = out @ r \<and> set r \<subseteq> set ts"
proof (induction out ts rule: merge_pass.induct)
  case (2 out t ts)
  then show ?case
    by (cases "TUser t \<le> 0 \<or> TUser t \<in> TUser ` set out") fastforce+
qed simp

text \<open>
  nobody who should hear of an alarm is left out and nobody is told twice. The targets are exactly the valid users
  who subscribe to the site or are bound to the device, each once, and a user who is both is told in
  the organisation's name.
\<close>

theorem targets_complete:
  "TUser ` set (MergeTargets org personal) = {u. 0 < u \<and> (u \<in> TUser ` set org \<or> u \<in> set personal)} \<and>
   distinct (map TUser (MergeTargets org personal)) \<and>
   {u. \<exists>t\<in>set (MergeTargets org personal). TUser t = u \<and> TSource t = ''org''} = {u \<in> TUser ` set org. 0 < u}"
proof -
  let ?o = "map (\<lambda>t. t\<lparr>TSource := ''org''\<rparr>) (sort_key TUser org)"
  let ?p = "map (\<lambda>i. \<lparr>TUser = i, TRole = [], TSource = ''personal''\<rparr>) (sort personal)"
  have u: "TUser ` set ?o = TUser ` set org" "TUser ` set ?p = set personal" by (auto simp: image_image)
  obtain r where r: "merge_pass (merge_pass [] ?o) ?p = merge_pass [] ?o @ r" "set r \<subseteq> set ?p"
    using merge_pass_prefix by blast
  have o: "set (merge_pass [] ?o) \<subseteq> set ?o" using merge_pass_prefix [of "[]" ?o] by auto
  have "{u. \<exists>t\<in>set (MergeTargets org personal). TUser t = u \<and> TSource t = ''org''} = TUser ` set (merge_pass [] ?o)"
    using r o by (fastforce simp: MergeTargets_def)
  moreover have "TUser ` set (MergeTargets org personal) = {u. 0 < u \<and> (u \<in> TUser ` set org \<or> u \<in> set personal)}"
    unfolding MergeTargets_def merge_pass_users u by auto
  moreover have "distinct (map TUser (MergeTargets org personal))"
    unfolding MergeTargets_def by (intro merge_pass_distinct) simp
  ultimately show ?thesis unfolding merge_pass_users u by auto
qed

end
