(* ===== verification/FleetQueue.thy ===== *)
theory FleetQueue
  imports FleetModel
begin

text \<open>
  The class queue: the table \<open>queue_item\<close> with its two unique indexes (\<open>internal/fleet/store.go\<close>, \<open>sql/bl5.sql\<close>), the
  submission and the status changes asked for by members (\<open>service.go\<close>), and the scheduler
  (\<open>scheduler.go\<close>). Every statement may fail: \<open>flt\<close> names the statements that do. \<open>now\<close> is the clock of the
  database; the scheduler's device answers and identifiers are inputs.
\<close>

record Item =
  ItemID :: string
  OrgID :: int
  QueueID :: int
  Submitter :: int
  FileSHA :: string
  FileURL :: string
  MaterialID :: string
  ParamProfileID :: string
  EstMinutes :: int
  Status :: string
  ApprovedBy :: "string option"
  RejectedReason :: "string option"
  AssignedSN :: "string option"
  JobID :: string
  CmdID :: "string option"
  Retry :: nat
  SkipCount :: nat
  SubmittedAt :: time
  ApprovedAt :: "time option"
  DispatchedAt :: "time option"
  FinishedAt :: "time option"

record Queue =
  QID :: int
  QOrg :: int
  QSite :: int
  DeviceSNs :: "string list"

datatype fleet_error = ErrNotFound | ErrNotMember | ErrConflict | ErrBadParam | ErrDenied | StoreError

subsection \<open>The statements\<close>

definition active_status :: "string \<Rightarrow> bool" where
  "active_status st \<longleftrightarrow> st = ''assigned'' \<or> st = ''dispatched'' \<or> st = ''running''"

text \<open>
  A row that an update would write clashes with another row on \<open>uk_item_device_active\<close> (one active
  item per device) or on \<open>uk_item_cmd\<close> (one item per command).
\<close>

definition clashes :: "Item \<Rightarrow> Item list \<Rightarrow> bool" where
  "clashes r rows \<longleftrightarrow>
     list_ex (\<lambda>q. ItemID q \<noteq> ItemID r \<and>
       ((active_status (Status r) \<and> active_status (Status q) \<and> AssignedSN r \<noteq> None \<and> AssignedSN q = AssignedSN r) \<or>
        (CmdID r \<noteq> None \<and> CmdID q = CmdID r))) rows"

text \<open>An update of the row with a given identifier, when its guard holds: how many rows it changed.\<close>

datatype 'a answer = Failed | Duplicate | Done 'a

definition update_item :: "string \<Rightarrow> (Item \<Rightarrow> bool) \<Rightarrow> (Item \<Rightarrow> Item) \<Rightarrow> Item list \<Rightarrow> nat answer \<times> Item list" where
  "update_item i guard f rows =
     (let P = (\<lambda>r. ItemID r = i \<and> guard r) in
      if list_ex (\<lambda>r. P r \<and> clashes (f r) rows) rows then (Duplicate, rows)
      else (Done (affected P rows), update_where P f rows))"

definition set_status_row :: "time \<Rightarrow> string \<Rightarrow> string \<Rightarrow> string \<Rightarrow> Item \<Rightarrow> Item" where
  "set_status_row now to who reason r =
     r\<lparr>Status := to,
       ApprovedBy := (if to = ''approved'' then Some who else ApprovedBy r),
       ApprovedAt := (if to = ''approved'' then Some now else ApprovedAt r),
       RejectedReason := (if to = ''rejected'' then (if reason = [] then None else Some reason) else RejectedReason r),
       FinishedAt := (if to \<in> {''done'', ''failed'', ''canceled'', ''rejected'', ''skipped''} then Some now else FinishedAt r)\<rparr>"

definition SetStatus ::
  "bool \<Rightarrow> time \<Rightarrow> int \<Rightarrow> string \<Rightarrow> string \<Rightarrow> string \<Rightarrow> string \<Rightarrow> string \<Rightarrow> Item list \<Rightarrow> fleet_error option \<times> Item list" where
  "SetStatus fails now org i from to who reason rows =
     (if fails then (Some StoreError, rows)
      else case update_item i (\<lambda>r. OrgID r = org \<and> Status r = from) (set_status_row now to who reason) rows of
        (Done n, rows') \<Rightarrow> (if n = 0 then (Some ErrConflict, rows') else (None, rows'))
      | (_, rows') \<Rightarrow> (Some StoreError, rows'))"

definition GetItem :: "bool \<Rightarrow> int \<Rightarrow> string \<Rightarrow> Item list \<Rightarrow> fleet_error + Item" where
  "GetItem fails org i rows =
     (if fails then Inl StoreError
      else case find (\<lambda>r. OrgID r = org \<and> ItemID r = i) rows of None \<Rightarrow> Inl ErrNotFound | Some r \<Rightarrow> Inr r)"

text \<open>The head of a queue: \<open>ORDER BY approved_at, submitted_at\<close>, rows without the former last.\<close>

definition head_order :: "Item list \<Rightarrow> Item list" where
  "head_order rows =
     sort_key (\<lambda>r. ApprovedAt r = None)
       (sort_key (\<lambda>r. case ApprovedAt r of None \<Rightarrow> 0 | Some t \<Rightarrow> t) (sort_key SubmittedAt rows))"

definition HeadApproved :: "int \<Rightarrow> Item list \<Rightarrow> Item option" where
  "HeadApproved q rows =
     (case head_order (filter (\<lambda>r. QueueID r = q \<and> Status r = ''approved'') rows) of [] \<Rightarrow> None | r # _ \<Rightarrow> Some r)"

definition ActiveSNs :: "Item list \<Rightarrow> string set" where
  "ActiveSNs rows = set (map (the \<circ> AssignedSN) (filter (\<lambda>r. AssignedSN r \<noteq> None \<and> active_status (Status r)) rows))"

definition claim_row :: "time \<Rightarrow> string \<Rightarrow> string \<Rightarrow> Item \<Rightarrow> Item" where
  "claim_row now sn token r =
     r\<lparr>Status := ''dispatched'', AssignedSN := Some sn, CmdID := Some token, DispatchedAt := Some now\<rparr>"

text \<open>A duplicate key is an ordinary "not claimed".\<close>

definition ClaimDispatch ::
  "bool \<Rightarrow> time \<Rightarrow> string \<Rightarrow> string \<Rightarrow> string \<Rightarrow> Item list \<Rightarrow> (fleet_error + bool) \<times> Item list" where
  "ClaimDispatch fails now i sn token rows =
     (if fails then (Inl StoreError, rows)
      else case update_item i (\<lambda>r. Status r = ''approved'') (claim_row now sn token) rows of
        (Done n, rows') \<Rightarrow> (Inr (n = 1), rows')
      | (_, rows') \<Rightarrow> (Inr False, rows'))"

definition ConfirmDispatch ::
  "bool \<Rightarrow> string \<Rightarrow> string \<Rightarrow> string \<Rightarrow> Item list \<Rightarrow> fleet_error option \<times> Item list" where
  "ConfirmDispatch fails i token cmd rows =
     (if fails then (Some StoreError, rows)
      else case update_item i (\<lambda>r. CmdID r = Some token \<and> Status r = ''dispatched'') (\<lambda>r. r\<lparr>CmdID := Some cmd\<rparr>) rows of
        (Done _, rows') \<Rightarrow> (None, rows')
      | (_, rows') \<Rightarrow> (Some StoreError, rows'))"

definition revert_row :: "nat \<Rightarrow> Item \<Rightarrow> Item" where
  "revert_row maxRetry r =
     r\<lparr>Retry := Retry r + 1, AssignedSN := None, CmdID := None, DispatchedAt := None,
       Status := (if Retry r + 1 \<ge> maxRetry then ''needs_teacher'' else ''approved'')\<rparr>"

definition RevertDispatch :: "bool \<Rightarrow> string \<Rightarrow> string \<Rightarrow> nat \<Rightarrow> Item list \<Rightarrow> fleet_error option \<times> Item list" where
  "RevertDispatch fails i token maxRetry rows =
     (if fails then (Some StoreError, rows)
      else case update_item i (\<lambda>r. CmdID r = Some token \<and> Status r = ''dispatched'') (revert_row maxRetry) rows of
        (Done _, rows') \<Rightarrow> (None, rows')
      | (_, rows') \<Rightarrow> (Some StoreError, rows'))"

definition expired :: "duration \<Rightarrow> duration \<Rightarrow> time \<Rightarrow> Item \<Rightarrow> bool" where
  "expired approvedTTL dispatchedTTL now r \<longleftrightarrow>
     (Status r = ''approved'' \<and> (case ApprovedAt r of Some t \<Rightarrow> t | None \<Rightarrow> SubmittedAt r) < now - approvedTTL) \<or>
     (Status r = ''dispatched'' \<and> (case DispatchedAt r of Some t \<Rightarrow> t < now - dispatchedTTL | None \<Rightarrow> False))"

definition ExpireItems ::
  "bool \<Rightarrow> duration \<Rightarrow> duration \<Rightarrow> time \<Rightarrow> Item list \<Rightarrow> (fleet_error + nat) \<times> Item list" where
  "ExpireItems fails approvedTTL dispatchedTTL now rows =
     (if fails then (Inl StoreError, rows)
      else (Inr (affected (expired approvedTTL dispatchedTTL now) rows),
        update_where (expired approvedTTL dispatchedTTL now)
          (\<lambda>r. r\<lparr>Status := ''skipped'', SkipCount := SkipCount r + 1, FinishedAt := Some now,
                RejectedReason := Some ''expired''\<rparr>) rows))"

subsection \<open>Members' requests\<close>

text \<open>\<open>cmds\<close> is what has been asked of the devices: item, device, and whether the call reported success.\<close>

record ClassQ =
  items :: "Item list"
  queues :: "Queue list"
  cmetrics :: metrics
  cmds :: "(string \<times> string \<times> bool) list"

definition cinc :: "string \<Rightarrow> ClassQ \<Rightarrow> ClassQ" where
  "cinc name c = c\<lparr>cmetrics := Inc name (cmetrics c)\<rparr>"

definition hex64 :: "string \<Rightarrow> bool" where
  "hex64 s \<longleftrightarrow> length s = 64 \<and> list_all (\<lambda>c. is_digit c \<or> between CHR ''a'' CHR ''f'' c) s"

record SubmitReq =
  SSHA :: string
  SURL :: string
  SMaterial :: string
  SProfile :: string
  SEst :: int

definition GetQueue :: "bool \<Rightarrow> int \<Rightarrow> int \<Rightarrow> ClassQ \<Rightarrow> fleet_error + Queue" where
  "GetQueue fails org q c =
     (if fails then Inl StoreError
      else case find (\<lambda>x. QOrg x = org \<and> QID x = q) (queues c) of None \<Rightarrow> Inl ErrNotFound | Some x \<Rightarrow> Inr x)"

definition new_item :: "string \<Rightarrow> int \<Rightarrow> int \<Rightarrow> int \<Rightarrow> SubmitReq \<Rightarrow> time \<Rightarrow> Item" where
  "new_item i org q user req now =
     \<lparr>ItemID = i, OrgID = org, QueueID = q, Submitter = user, FileSHA = toLower (trimSpace (SSHA req)),
      FileURL = SURL req, MaterialID = SMaterial req, ParamProfileID = SProfile req,
      EstMinutes = (if SEst req \<le> 0 then 10 else SEst req), Status = ''submitted'', ApprovedBy = None,
      RejectedReason = None, AssignedSN = None, JobID = i, CmdID = None, Retry = 0, SkipCount = 0,
      SubmittedAt = now, ApprovedAt = None, DispatchedAt = None, FinishedAt = None\<rparr>"

text \<open>\<open>i\<close> is the identifier drawn by \<open>NewID\<close>; the two columns of at most 32 characters refuse longer values.\<close>

definition InsertItem :: "bool \<Rightarrow> Item \<Rightarrow> ClassQ \<Rightarrow> fleet_error option \<times> ClassQ" where
  "InsertItem fails it c =
     (if length (MaterialID it) > 32 \<or> length (ParamProfileID it) > 32 then (Some ErrBadParam, c)
      else if fails \<or> list_ex (\<lambda>r. ItemID r = ItemID it) (items c) then (Some StoreError, c)
      else (None, c\<lparr>items := items c @ [it]\<rparr>))"

definition Submit ::
  "(string \<Rightarrow> bool) \<Rightarrow> time \<Rightarrow> string \<Rightarrow> int \<Rightarrow> int \<Rightarrow> int \<Rightarrow> SubmitReq \<Rightarrow> ClassQ \<Rightarrow> (fleet_error + Item) \<times> ClassQ" where
  "Submit flt now i org q user req c =
     (if \<not> hex64 (toLower (trimSpace (SSHA req))) then (Inl ErrBadParam, c)
      else case GetQueue (flt ''queue'') org q c of
        Inl e \<Rightarrow> (Inl e, c)
      | Inr _ \<Rightarrow>
          (case InsertItem (flt ''insert'') (new_item i org q user req now) c of
             (Some e, c') \<Rightarrow> (Inl e, c')
           | (None, c') \<Rightarrow> (Inr (new_item i org q user req now), c')))"

text \<open>\<open>meanwhile\<close> is what happens to the table between the read and the guarded update.\<close>

definition SetItemStatus ::
  "(string \<Rightarrow> bool) \<Rightarrow> (Item list \<Rightarrow> Item list) \<Rightarrow> time \<Rightarrow> int \<Rightarrow> role \<Rightarrow> string \<Rightarrow> string \<Rightarrow> int \<Rightarrow> string \<Rightarrow> string \<Rightarrow> ClassQ \<Rightarrow>
   (fleet_error + Item) \<times> ClassQ" where
  "SetItemStatus flt meanwhile now org rl i to who actor reason c =
     (case GetItem (flt ''get'') org i (items c) of
        Inl e \<Rightarrow> (Inl e, c)
      | Inr it \<Rightarrow>
          if rl = ''student'' \<and> Submitter it \<noteq> who then (Inl ErrDenied, c)
          else if \<not> Transition (Status it) to rl then (Inl ErrDenied, c)
          else (case SetStatus (flt ''set'') now org i (Status it) to actor reason (meanwhile (items c)) of
                  (Some e, rows) \<Rightarrow> (Inl e, c\<lparr>items := rows\<rparr>)
                | (None, rows) \<Rightarrow> (Inr (it\<lparr>Status := to\<rparr>), c\<lparr>items := rows\<rparr>)))"

subsection \<open>The scheduler\<close>

definition opt_param :: "string \<Rightarrow> string \<Rightarrow> (string \<times> string) list" where
  "opt_param k v = (if v = [] then [] else [(k, v)])"

definition jobParams :: "Item \<Rightarrow> (string \<times> string) list" where
  "jobParams it =
     [(''job_id'', if JobID it = [] then ItemID it else JobID it), (''sha256'', FileSHA it), (''item_id'', ItemID it)] @
     opt_param ''url'' (FileURL it) @ opt_param ''material_id'' (MaterialID it) @
     opt_param ''param_profile_id'' (ParamProfileID it)"

text \<open>The first device of the queue that is free, whose shadow can be read, and that is idle and unlocked.\<close>

fun pick :: "(string \<Rightarrow> reported option) \<Rightarrow> string set \<Rightarrow> string list \<Rightarrow> string option" where
  "pick shadow active [] = None"
| "pick shadow active (sn # sns) =
     (if sn \<in> active then pick shadow active sns
      else case shadow sn of
        None \<Rightarrow> pick shadow active sns
      | Some rep \<Rightarrow> if IdleDevice (Summarize sn rep) then Some sn else pick shadow active sns)"

text \<open>
  What one round finds outside: the shadows, the token drawn, the answer of the device API (\<open>None\<close>: the call failed, \<open>Some\<close>
  the identifier of the command), the statements that fail, and what others do to the table before the claim
  and during the call.
\<close>

record Outside =
  shadows :: "string \<Rightarrow> reported option"
  token :: string
  JobStart :: "string option"
  faults :: "string \<Rightarrow> bool"
  before_claim :: "Item list \<Rightarrow> Item list"
  during_call :: "Item list \<Rightarrow> Item list"
  MaxRetry :: nat

definition after_call :: "Outside \<Rightarrow> string \<Rightarrow> string \<Rightarrow> ClassQ \<Rightarrow> (fleet_error + bool) \<times> ClassQ" where
  "after_call w i sn c0 =
     (let c = c0\<lparr>items := during_call w (items c0), cmds := cmds c0 @ [(i, sn, JobStart w \<noteq> None)]\<rparr> in
      case JobStart w of
        None \<Rightarrow>
          (let c1 = cinc ''dispatch_failed'' c in
           case RevertDispatch (faults w ''revert'') i (token w) (MaxRetry w) (items c1) of
             (Some e, rows) \<Rightarrow> (Inl e, c1\<lparr>items := rows\<rparr>)
           | (None, rows) \<Rightarrow> (Inr False, c1\<lparr>items := rows\<rparr>))
      | Some cmd \<Rightarrow>
          (case ConfirmDispatch (faults w ''confirm'') i (token w) cmd (items c) of
             (Some e, rows) \<Rightarrow> (Inl e, c\<lparr>items := rows\<rparr>)
           | (None, rows) \<Rightarrow> (Inr True, cinc ''dispatch_ok'' (c\<lparr>items := rows\<rparr>))))"

definition dispatchQueue :: "Outside \<Rightarrow> time \<Rightarrow> Queue \<Rightarrow> ClassQ \<Rightarrow> (fleet_error + bool) \<times> ClassQ" where
  "dispatchQueue w now q c =
     (if faults w ''head'' then (Inl StoreError, c)
      else case HeadApproved (QID q) (items c) of
        None \<Rightarrow> (Inr False, c)
      | Some it \<Rightarrow>
          if faults w ''active'' then (Inl StoreError, c)
          else (case pick (shadows w) (ActiveSNs (items c)) (DeviceSNs q) of
             None \<Rightarrow> (Inr False, c)
           | Some sn \<Rightarrow>
               (let c1 = cinc ''dispatch_attempts'' (c\<lparr>items := before_claim w (items c)\<rparr>) in
                case ClaimDispatch (faults w ''claim'') now (ItemID it) sn (token w) (items c1) of
                  (Inl e, rows) \<Rightarrow> (Inl e, c1\<lparr>items := rows\<rparr>)
                | (Inr False, rows) \<Rightarrow> (Inr False, c1\<lparr>items := rows\<rparr>)
                | (Inr True, rows) \<Rightarrow>
                    after_call w (ItemID it) sn (cinc ''dispatch_claimed'' (c1\<lparr>items := rows\<rparr>)))))"

text \<open>One round over all queues: an error of one queue does not stop the others.\<close>

fun dispatch_queues :: "(Queue \<Rightarrow> Outside) \<Rightarrow> time \<Rightarrow> Queue list \<Rightarrow> nat \<Rightarrow> ClassQ \<Rightarrow> nat \<times> ClassQ" where
  "dispatch_queues w now [] n c = (n, c)"
| "dispatch_queues w now (q # qs) n c =
     (case dispatchQueue (w q) now q c of
        (Inr True, c') \<Rightarrow> dispatch_queues w now qs (n + 1) c'
      | (_, c') \<Rightarrow> dispatch_queues w now qs n c')"

definition DispatchOnce :: "bool \<Rightarrow> (Queue \<Rightarrow> Outside) \<Rightarrow> time \<Rightarrow> ClassQ \<Rightarrow> (fleet_error + nat) \<times> ClassQ" where
  "DispatchOnce fails w now c =
     (if fails then (Inl StoreError, c)
      else case dispatch_queues w now (queues c) 0 c of (n, c') \<Rightarrow> (Inr n, c'))"

definition ExpireOnce :: "bool \<Rightarrow> duration \<Rightarrow> duration \<Rightarrow> time \<Rightarrow> ClassQ \<Rightarrow> (fleet_error + nat) \<times> ClassQ" where
  "ExpireOnce fails approvedTTL dispatchedTTL now c =
     (case ExpireItems fails approvedTTL dispatchedTTL now (items c) of
        (Inl e, rows) \<Rightarrow> (Inl e, c\<lparr>items := rows\<rparr>)
      | (Inr n, rows) \<Rightarrow> (Inr n, c\<lparr>items := rows, cmetrics := Add ''items_expired'' (int n) (cmetrics c)\<rparr>))"

end
