(* ===== verification/FleetSafety.thy ===== *)
theory FleetSafety
  imports FleetQueue
begin

text \<open>
  Safety of the class queue when several schedulers, members' requests and the expiry job interleave
  statement by statement. A scheduler that has claimed an item is a \<open>flight\<close>: it calls the device, then confirms
  or reverts, or stops anywhere. The steps are the statements of \<open>FleetQueue\<close>; a round of one scheduler is a
  sequence of them (\<open>dispatchQueue_steps\<close>).
\<close>

datatype flight = Claimed string string string | Confirming string string string | Reverting string string

fun fitem :: "flight \<Rightarrow> string" where
  "fitem (Claimed i sn tok) = i"
| "fitem (Confirming i tok cmd) = i"
| "fitem (Reverting i tok) = i"

record Sched =
  rows :: "Item list"
  calls :: "(string \<times> string \<times> bool) list"
  flights :: "flight list"

text \<open>What members and the expiry job do to the table.\<close>

inductive others :: "Item list \<Rightarrow> Item list \<Rightarrow> bool" where
  submit: "Submit flt now i org q user req c = (res, c') \<Longrightarrow> others (items c) (items c')"
| status: "Transition from to rl \<Longrightarrow> rl \<noteq> ''system'' \<Longrightarrow>
    SetStatus fails now org i from to actor reason rs = (res, rs') \<Longrightarrow> others rs rs'"
| expire: "ExpireItems fails attl dttl now rs = (res, rs') \<Longrightarrow> others rs rs'"

inductive sched_step :: "Sched \<Rightarrow> Sched \<Rightarrow> bool" where
  other: "others (rows s) rs \<Longrightarrow> sched_step s (s\<lparr>rows := rs\<rparr>)"
| claim: "ClaimDispatch False now i sn tok (rows s) = (Inr True, rs) \<Longrightarrow>
    sched_step s (s\<lparr>rows := rs, flights := Claimed i sn tok # flights s\<rparr>)"
| started: "Claimed i sn tok \<in> set (flights s) \<Longrightarrow>
    sched_step s (s\<lparr>calls := calls s @ [(i, sn, True)],
      flights := Confirming i tok cmd # remove1 (Claimed i sn tok) (flights s)\<rparr>)"
| refused: "Claimed i sn tok \<in> set (flights s) \<Longrightarrow>
    sched_step s (s\<lparr>calls := calls s @ [(i, sn, False)],
      flights := Reverting i tok # remove1 (Claimed i sn tok) (flights s)\<rparr>)"
| confirm: "Confirming i tok cmd \<in> set (flights s) \<Longrightarrow>
    ConfirmDispatch fails i tok cmd (rows s) = (res, rs) \<Longrightarrow>
    sched_step s (s\<lparr>rows := rs, flights := remove1 (Confirming i tok cmd) (flights s)\<rparr>)"
| revert: "Reverting i tok \<in> set (flights s) \<Longrightarrow>
    RevertDispatch fails i tok maxRetry (rows s) = (res, rs) \<Longrightarrow>
    sched_step s (s\<lparr>rows := rs, flights := remove1 (Reverting i tok) (flights s)\<rparr>)"

inductive sched_reach :: "Sched \<Rightarrow> bool" where
  init: "sched_reach \<lparr>rows = [], calls = [], flights = []\<rparr>"
| step: "sched_reach s \<Longrightarrow> sched_step s s' \<Longrightarrow> sched_reach s'"

subsection \<open>What the statements do to a row\<close>

lemma update_item_cases:
  "update_item i guard f rs = (ans, rs') \<Longrightarrow>
   (ans = Duplicate \<and> rs' = rs) \<or>
   (ans = Done (affected (\<lambda>r. ItemID r = i \<and> guard r) rs) \<and>
    rs' = update_where (\<lambda>r. ItemID r = i \<and> guard r) f rs \<and>
    (\<forall>r\<in>set rs. ItemID r = i \<and> guard r \<longrightarrow> \<not> clashes (f r) rs))"
  by (auto simp: update_item_def Let_def list_ex_iff split: if_splits)

text \<open>
  A statement changes the table by \<open>touch i P f\<close>: rows with identifier \<open>i\<close> that satisfy \<open>P\<close> become
  \<open>f\<close> of themselves, and what is written does not clash.
\<close>

definition touched :: "string \<Rightarrow> (Item \<Rightarrow> bool) \<Rightarrow> (Item \<Rightarrow> Item) \<Rightarrow> Item list \<Rightarrow> Item list \<Rightarrow> bool" where
  "touched i P f rs rs' \<longleftrightarrow>
     rs' = update_where (\<lambda>r. ItemID r = i \<and> P r) f rs \<and> (\<forall>r\<in>set rs. ItemID r = i \<and> P r \<longrightarrow> \<not> clashes (f r) rs)"

lemma touched_none:
  assumes "touched i P f rs rs'" "i \<notin> ItemID ` set rs"
  shows "rs' = rs"
proof -
  have "affected (\<lambda>r. ItemID r = i \<and> P r) rs = 0" using assms(2) by (auto simp: affected_0_iff)
  then show ?thesis using assms(1) by (simp add: touched_def)
qed

lemma SetStatus_touched:
  "SetStatus fails now org i from to actor reason rs = (res, rs') \<Longrightarrow>
   rs' = rs \<or> touched i (\<lambda>r. OrgID r = org \<and> Status r = from) (set_status_row now to actor reason) rs rs'"
  by (auto simp: SetStatus_def touched_def split: if_splits prod.splits answer.splits dest!: update_item_cases)

lemma ConfirmDispatch_touched:
  "ConfirmDispatch fails i tok cmd rs = (res, rs') \<Longrightarrow>
   rs' = rs \<or> touched i (\<lambda>r. CmdID r = Some tok \<and> Status r = ''dispatched'') (\<lambda>r. r\<lparr>CmdID := Some cmd\<rparr>) rs rs'"
  by (auto simp: ConfirmDispatch_def touched_def split: if_splits prod.splits answer.splits dest!: update_item_cases)

lemma RevertDispatch_touched:
  "RevertDispatch fails i tok m rs = (res, rs') \<Longrightarrow>
   rs' = rs \<or> touched i (\<lambda>r. CmdID r = Some tok \<and> Status r = ''dispatched'') (revert_row m) rs rs'"
  by (auto simp: RevertDispatch_def touched_def split: if_splits prod.splits answer.splits dest!: update_item_cases)

lemma ClaimDispatch_touched:
  assumes "ClaimDispatch fails now i sn tok rs = (Inr True, rs')"
  shows "touched i (\<lambda>r. Status r = ''approved'') (claim_row now sn tok) rs rs'"
    and "\<exists>r\<in>set rs. ItemID r = i \<and> Status r = ''approved''"
proof -
  let ?P = "\<lambda>r. ItemID r = i \<and> Status r = ''approved''"
  obtain ans rs1 where u: "update_item i (\<lambda>r. Status r = ''approved'') (claim_row now sn tok) rs = (ans, rs1)"
    by fastforce
  then have "ans = Done 1 \<and> rs1 = rs'"
    using assms by (cases ans) (simp_all add: ClaimDispatch_def split: if_splits)
  with update_item_cases [OF u] have 1: "affected ?P rs = 1" "rs' = update_where ?P (claim_row now sn tok) rs"
    "\<forall>r\<in>set rs. ?P r \<longrightarrow> \<not> clashes (claim_row now sn tok r) rs" by simp_all
  then show "touched i (\<lambda>r. Status r = ''approved'') (claim_row now sn tok) rs rs'" by (simp add: touched_def)
  show "\<exists>r\<in>set rs. ?P r" using 1(1) affected_0_iff [of ?P rs] by auto
qed

lemma Submit_rows:
  "Submit flt now i org q user req c = (res, c') \<Longrightarrow>
   items c' = items c \<or>
   (items c' = items c @ [new_item i org q user req now] \<and> i \<notin> ItemID ` set (items c))"
  by (auto simp: Submit_def InsertItem_def new_item_def list_ex_iff split: if_splits sum.splits prod.splits option.splits)

lemma ExpireItems_rows:
  "ExpireItems fails attl dttl now rs = (res, rs') \<Longrightarrow>
   rs' = rs \<or> rs' = update_where (expired attl dttl now)
     (\<lambda>r. r\<lparr>Status := ''skipped'', SkipCount := SkipCount r + 1, FinishedAt := Some now, RejectedReason := Some ''expired''\<rparr>) rs"
  by (auto simp: ExpireItems_def split: if_splits)

lemma row_fns_id [simp]:
  "ItemID (set_status_row now to a reason r) = ItemID r" "ItemID (claim_row now sn tok r) = ItemID r"
  "ItemID (revert_row m r) = ItemID r"
  by (simp_all add: set_status_row_def claim_row_def revert_row_def)

subsection \<open>The unique indexes hold\<close>

definition conflict :: "Item \<Rightarrow> Item \<Rightarrow> bool" where
  "conflict r q \<longleftrightarrow> ItemID q \<noteq> ItemID r \<and>
     ((active_status (Status r) \<and> active_status (Status q) \<and> AssignedSN r \<noteq> None \<and> AssignedSN q = AssignedSN r) \<or>
      (CmdID r \<noteq> None \<and> CmdID q = CmdID r))"

lemma clashes_iff: "clashes r rs \<longleftrightarrow> (\<exists>q\<in>set rs. conflict r q)"
  by (simp add: clashes_def conflict_def list_ex_iff)

lemma conflict_sym: "conflict r q \<Longrightarrow> conflict q r"
  by (auto simp: conflict_def)

definition no_clash :: "Item list \<Rightarrow> bool" where
  "no_clash rs \<longleftrightarrow> (\<forall>r\<in>set rs. \<forall>q\<in>set rs. \<not> conflict r q)"

lemma touched_no_clash:
  assumes t: "touched i P f rs rs'" and idf: "\<And>r. ItemID (f r) = ItemID r" and n: "no_clash rs"
  shows "no_clash rs'"
proof -
  let ?P = "\<lambda>r. ItemID r = i \<and> P r"
  from t have rs': "rs' = update_where ?P f rs" and new: "\<And>r q. r \<in> set rs \<Longrightarrow> ?P r \<Longrightarrow> q \<in> set rs \<Longrightarrow> \<not> conflict (f r) q"
    by (auto simp: touched_def clashes_iff)
  have "\<not> conflict (if ?P r then f r else r) (if ?P q then f q else q)" if "r \<in> set rs" "q \<in> set rs" for r q
    using that n new [of r q] new [of q r] conflict_sym [of r "f q"]
    by (auto simp: no_clash_def conflict_def idf)
  then show ?thesis unfolding no_clash_def rs' ball_update_where by blast
qed

lemma quieter_no_clash:
  assumes "no_clash rs" and "\<And>r. ItemID (f r) = ItemID r" "\<And>r. CmdID (f r) = CmdID r"
    and "\<And>r. \<not> active_status (Status (f r))"
  shows "no_clash (update_where P f rs)"
  using assms by (fastforce simp: no_clash_def conflict_def set_update_where)

lemma append_no_clash:
  "no_clash rs \<Longrightarrow> CmdID r = None \<Longrightarrow> \<not> active_status (Status r) \<Longrightarrow> no_clash (rs @ [r])"
  by (auto simp: no_clash_def conflict_def)

subsection \<open>Where an item and its calls stand\<close>

definition flown :: "string \<Rightarrow> flight list \<Rightarrow> flight list" where
  "flown i fs = filter (\<lambda>f. fitem f = i) fs"

definition ncalls :: "string \<Rightarrow> (string \<times> string \<times> bool) list \<Rightarrow> nat" where
  "ncalls i cs = length (filter (\<lambda>(j, sn, ok). j = i) cs)"

definition nwon :: "string \<Rightarrow> (string \<times> string \<times> bool) list \<Rightarrow> nat" where
  "nwon i cs = length (filter (\<lambda>(j, sn, ok). j = i \<and> ok) cs)"

lemma flown_simps [simp]:
  "flown i [] = []" "flown i (f # fs) = (if fitem f = i then f # flown i fs else flown i fs)"
  "flown i (remove1 f fs) = remove1 f (flown i fs)"
  by (simp_all add: flown_def filter_remove1)

lemma call_counts [simp]:
  "ncalls i [] = 0" "nwon i [] = 0"
  "ncalls i (cs @ [(j, sn, ok)]) = ncalls i cs + (if j = i then 1 else 0)"
  "nwon i (cs @ [(j, sn, ok)]) = nwon i cs + (if j = i \<and> ok then 1 else 0)"
  by (simp_all add: ncalls_def nwon_def)

lemma flown_in: "f \<in> set fs \<Longrightarrow> f \<in> set (flown (fitem f) fs)"
  by (simp add: flown_def)

lemma flown_none: "i \<notin> fitem ` set fs \<Longrightarrow> flown i fs = []"
  by (auto simp: flown_def filter_empty_conv)

lemma calls_none: "i \<notin> fst ` set cs \<Longrightarrow> ncalls i cs = 0 \<and> nwon i cs = 0"
  by (force simp: ncalls_def nwon_def filter_empty_conv)

lemma flown_other: "fitem f \<noteq> i \<Longrightarrow> remove1 f (flown i fs) = flown i fs"
  by (rule remove1_idem) (auto simp: flown_def)

fun phase_ok :: "flight list \<Rightarrow> nat \<Rightarrow> nat \<Rightarrow> nat \<Rightarrow> bool" where
  "phase_ok [] n w k = (w \<le> 1 \<and> n \<le> k + 1)"
| "phase_ok [Claimed i sn tok] n w k = (w = 0 \<and> n \<le> k)"
| "phase_ok [Confirming i tok cmd] n w k = (w = 1 \<and> n \<le> k + 1)"
| "phase_ok [Reverting i tok] n w k = (w = 0 \<and> n \<le> k + 1)"
| "phase_ok (f # g # fs) n w k = False"

definition resting :: "string set" where
  "resting = {''submitted'', ''approved'', ''rejected'', ''canceled'', ''needs_teacher''}"

definition row_ok :: "flight list \<Rightarrow> nat \<Rightarrow> nat \<Rightarrow> Item \<Rightarrow> bool" where
  "row_ok F n w r \<longleftrightarrow>
     (Status r \<in> resting \<and> F = [] \<and> w = 0 \<and> n \<le> Retry r \<or>
      Status r \<in> {''dispatched'', ''skipped''} \<and> phase_ok F n w (Retry r)) \<and>
     (Status r \<in> {''approved'', ''dispatched'', ''needs_teacher''} \<or> n > 0 \<or> F \<noteq> [] \<longrightarrow> ApprovedBy r \<noteq> None)"

definition sched_inv :: "Sched \<Rightarrow> bool" where
  "sched_inv s \<longleftrightarrow>
     distinct (map ItemID (rows s)) \<and> no_clash (rows s) \<and>
     (\<forall>r\<in>set (rows s). row_ok (flown (ItemID r) (flights s)) (ncalls (ItemID r) (calls s)) (nwon (ItemID r) (calls s)) r) \<and>
     fitem ` set (flights s) \<subseteq> ItemID ` set (rows s) \<and> fst ` set (calls s) \<subseteq> ItemID ` set (rows s)"

lemma sched_inv_parts:
  assumes "sched_inv s"
  shows "distinct (map ItemID (rows s))" "no_clash (rows s)"
    "\<And>r. r \<in> set (rows s) \<Longrightarrow> row_ok (flown (ItemID r) (flights s)) (ncalls (ItemID r) (calls s)) (nwon (ItemID r) (calls s)) r"
    "fitem ` set (flights s) \<subseteq> ItemID ` set (rows s)" "fst ` set (calls s) \<subseteq> ItemID ` set (rows s)"
  using assms by (simp_all only: sched_inv_def)

lemma set_status_row_simps [simp]:
  "Status (set_status_row now to actor reason r) = to" "Retry (set_status_row now to actor reason r) = Retry r"
  "ApprovedBy (set_status_row now to actor reason r) = (if to = ''approved'' then Some actor else ApprovedBy r)"
  by (simp_all add: set_status_row_def)

lemma row_ok_resting:
  assumes "row_ok F n w r" "Status r \<in> resting"
  shows "F = []" "w = 0" "n \<le> Retry r"
  using assms by (auto simp: row_ok_def resting_def)

lemma row_ok_status:
  assumes "row_ok F n w r" "Status r \<in> resting" "to \<in> resting" "to \<noteq> ''needs_teacher''"
  shows "row_ok F n w (set_status_row now to actor reason r)"
proof -
  note b = row_ok_resting [OF assms(1,2)]
  have "n > 0 \<longrightarrow> ApprovedBy r \<noteq> None" using assms(1) by (simp add: row_ok_def)
  moreover have "to \<noteq> ''dispatched''" using assms(3) by (auto simp: resting_def)
  ultimately show ?thesis using b assms(3,4) by (simp add: row_ok_def)
qed

lemma phase_ok_single: "phase_ok F n w k \<Longrightarrow> f \<in> set F \<Longrightarrow> F = [f]"
  by (induction F n w k rule: phase_ok.induct) auto

text \<open>A statement on one row, with the flights and calls of that item only.\<close>

lemma inv_touch:
  assumes inv: "sched_inv s" and t: "touched i P f (rows s) rs" and idf: "\<And>r. ItemID (f r) = ItemID r"
    and fl: "\<And>j. j \<noteq> i \<Longrightarrow> flown j fs = flown j (flights s)" "fitem ` set fs \<subseteq> insert i (fitem ` set (flights s))"
    and i: "i \<in> ItemID ` set (rows s)"
    and ok: "\<And>r. r \<in> set (rows s) \<Longrightarrow> ItemID r = i \<Longrightarrow>
      row_ok (flown i fs) (ncalls i (calls s)) (nwon i (calls s)) (if P r then f r else r)"
  shows "sched_inv (s\<lparr>rows := rs, flights := fs\<rparr>)"
proof -
  let ?P = "\<lambda>r. ItemID r = i \<and> P r"
  from t have rs: "rs = update_where ?P f (rows s)" by (simp add: touched_def)
  have ids: "map ItemID rs = map ItemID (rows s)" unfolding rs by (rule map_update_where_frame) (simp add: idf)
  then have ids': "ItemID ` set rs = ItemID ` set (rows s)" by (metis list.set_map)
  define g where "g r = (if ?P r then f r else r)" for r
  have g: "ItemID (g r) = ItemID r" for r by (simp add: g_def idf)
  have "row_ok (flown (ItemID (g r)) fs) (ncalls (ItemID (g r)) (calls s)) (nwon (ItemID (g r)) (calls s)) (g r)"
    if "r \<in> set (rows s)" for r
  proof (cases "ItemID r = i")
    case True
    then show ?thesis using ok [OF that True] by (simp add: g) (simp add: g_def)
  next
    case False
    then show ?thesis using sched_inv_parts(3) [OF inv that] fl(1) [OF False] by (simp add: g) (simp add: g_def)
  qed
  then have "\<forall>r\<in>set rs. row_ok (flown (ItemID r) fs) (ncalls (ItemID r) (calls s)) (nwon (ItemID r) (calls s)) r"
    unfolding rs ball_update_where g_def by blast
  moreover have "no_clash rs" using sched_inv_parts(2) [OF inv] by (rule touched_no_clash [OF t idf])
  moreover have "fitem ` set fs \<subseteq> ItemID ` set (rows s)" using fl(2) i sched_inv_parts(4) [OF inv] by blast
  moreover have "distinct (map ItemID rs)" "fst ` set (calls s) \<subseteq> ItemID ` set rs"
    unfolding ids ids' using sched_inv_parts(1,5) [OF inv] by blast+
  ultimately show ?thesis unfolding sched_inv_def by (simp add: ids')
qed

lemmas inv_row = sched_inv_parts(3)

lemma inv_same_id:
  "sched_inv s \<Longrightarrow> r \<in> set (rows s) \<Longrightarrow> q \<in> set (rows s) \<Longrightarrow> ItemID r = ItemID q \<Longrightarrow> r = q"
  by (auto simp: sched_inv_def distinct_map inj_on_def)

text \<open>A row with a flight under way is dispatched or expired, and the flight is its only one.\<close>

lemma flight_row:
  assumes inv: "sched_inv s" and f: "f \<in> set (flights s)" and r: "r \<in> set (rows s)" "ItemID r = fitem f"
  shows "Status r \<in> {''dispatched'', ''skipped''}" and "flown (fitem f) (flights s) = [f]"
    and "phase_ok [f] (ncalls (fitem f) (calls s)) (nwon (fitem f) (calls s)) (Retry r)" and "ApprovedBy r \<noteq> None"
proof -
  have in_f: "f \<in> set (flown (fitem f) (flights s))" using flown_in [OF f] .
  then have "flown (fitem f) (flights s) \<noteq> []" by auto
  then have *: "Status r \<in> {''dispatched'', ''skipped''}" "ApprovedBy r \<noteq> None"
    "phase_ok (flown (fitem f) (flights s)) (ncalls (fitem f) (calls s)) (nwon (fitem f) (calls s)) (Retry r)"
    using inv_row [OF inv r(1)] r(2) by (auto simp: row_ok_def)
  show fl: "flown (fitem f) (flights s) = [f]" using phase_ok_single [OF *(3) in_f] .
  show "Status r \<in> {''dispatched'', ''skipped''}" "ApprovedBy r \<noteq> None" using * by auto
  show "phase_ok [f] (ncalls (fitem f) (calls s)) (nwon (fitem f) (calls s)) (Retry r)" using *(3) fl by simp
qed

lemma Transition_resting:
  "Transition from to rl \<Longrightarrow> rl \<noteq> ''system'' \<Longrightarrow> from \<in> resting \<and> to \<in> resting \<and> to \<noteq> ''needs_teacher''"
  by (drule (1) Transition_cases) (auto simp: resting_def)

lemma resting_not_active: "st \<in> resting \<Longrightarrow> \<not> active_status st \<and> st \<noteq> ''dispatched'' \<and> st \<noteq> ''skipped''"
  by (auto simp: resting_def active_status_def)

lemma others_inv:
  assumes "others (rows s) rs" and inv: "sched_inv s"
  shows "sched_inv (s\<lparr>rows := rs\<rparr>)"
  using assms(1)
proof cases
  case (submit flt now i org q user req c res c')
  from Submit_rows [OF submit(3)] submit(1,2) consider "rs = rows s"
    | "rs = rows s @ [new_item i org q user req now]" "i \<notin> ItemID ` set (rows s)" by auto
  then show ?thesis
  proof cases
    case 1
    then show ?thesis using inv by simp
  next
    case 2
    have "i \<notin> fitem ` set (flights s)" "i \<notin> fst ` set (calls s)" using 2(2) sched_inv_parts(4,5) [OF inv] by blast+
    then have none: "flown i (flights s) = []" "ncalls i (calls s) = 0" "nwon i (calls s) = 0"
      using flown_none calls_none by auto
    have "no_clash rs" unfolding 2(1) using inv
      by (intro append_no_clash) (auto simp: sched_inv_def new_item_def active_status_def)
    then show ?thesis using inv 2 none
      by (auto simp: sched_inv_def row_ok_def new_item_def resting_def)
  qed
next
  case (status st to rl fails now org i actor reason res)
  from SetStatus_touched [OF status(3)] consider "rs = rows s"
    | "touched i (\<lambda>r. OrgID r = org \<and> Status r = st) (set_status_row now to actor reason) (rows s) rs" by auto
  then show ?thesis
  proof cases
    case 1
    then show ?thesis using inv by simp
  next
    case 2
    show ?thesis
    proof (cases "i \<in> ItemID ` set (rows s)")
      case True
      have "sched_inv (s\<lparr>rows := rs, flights := flights s\<rparr>)"
      proof (rule inv_touch [OF inv 2 _ _ _ True])
        fix r
        assume r: "r \<in> set (rows s)" "ItemID r = i"
        show "row_ok (flown i (flights s)) (ncalls i (calls s)) (nwon i (calls s))
          (if OrgID r = org \<and> Status r = st then set_status_row now to actor reason r else r)"
          using sched_inv_parts(3) [OF inv r(1)] r(2) Transition_resting [OF status(1,2)]
          by (auto intro: row_ok_status)
      qed auto
      then show ?thesis by simp
    next
      case False
      then have "rs = rows s" using touched_none [OF 2] by simp
      then show ?thesis using inv by simp
    qed
  qed
next
  case (expire fails attl dttl now res)
  let ?f = "\<lambda>r. r\<lparr>Status := ''skipped'', SkipCount := SkipCount r + 1, FinishedAt := Some now, RejectedReason := Some ''expired''\<rparr>"
  from ExpireItems_rows [OF expire(1)] consider "rs = rows s" | "rs = update_where (expired attl dttl now) ?f (rows s)"
    by auto
  then show ?thesis
  proof cases
    case 1
    then show ?thesis using inv by simp
  next
    case 2
    have ids: "map ItemID rs = map ItemID (rows s)" unfolding 2 by (rule map_update_where_frame) simp
    then have ids': "ItemID ` set rs = ItemID ` set (rows s)" by (metis list.set_map)
    have "no_clash rs" unfolding 2 using inv
      by (intro quieter_no_clash) (auto simp: sched_inv_def active_status_def)
    moreover have "row_ok (flown (ItemID r) (flights s)) (ncalls (ItemID r) (calls s)) (nwon (ItemID r) (calls s)) (?f r)"
      if "r \<in> set (rows s)" "expired attl dttl now r" for r
      using inv_row [OF inv that(1)] that(2) by (auto simp: row_ok_def expired_def resting_def)
    then have "\<forall>r\<in>set rs. row_ok (flown (ItemID r) (flights s)) (ncalls (ItemID r) (calls s)) (nwon (ItemID r) (calls s)) r"
      unfolding 2 ball_update_where using inv by (auto simp: sched_inv_def)
    ultimately show ?thesis using inv by (simp add: sched_inv_def ids ids')
  qed
qed

text \<open>A call is logged and the flight goes into its next phase; no row changes.\<close>

lemma flight_moves:
  assumes inv: "sched_inv s" and f: "f \<in> set (flights s)" and same: "fitem f' = fitem f"
    and ph: "\<And>k. phase_ok [f] (ncalls (fitem f) (calls s)) (nwon (fitem f) (calls s)) k \<Longrightarrow>
      phase_ok [f'] (ncalls (fitem f) cs) (nwon (fitem f) cs) k"
    and cs: "cs = calls s @ [(fitem f, sn, b)]"
  shows "sched_inv (s\<lparr>calls := cs, flights := f' # remove1 f (flights s)\<rparr>)"
proof -
  have "row_ok (flown (ItemID r) (f' # remove1 f (flights s))) (ncalls (ItemID r) cs) (nwon (ItemID r) cs) r"
    if r: "r \<in> set (rows s)" for r
  proof (cases "ItemID r = fitem f")
    case True
    note fr = flight_row [OF inv f r True]
    have "flown (ItemID r) (f' # remove1 f (flights s)) = [f']" using fr(2) same by (simp add: True)
    then show ?thesis using fr ph [OF fr(3)] by (auto simp: row_ok_def True)
  next
    case False
    then show ?thesis using sched_inv_parts(3) [OF inv r] same flown_other [of f "ItemID r" "flights s"] by (auto simp: cs)
  qed
  moreover have "fitem f \<in> ItemID ` set (rows s)" using f sched_inv_parts(4) [OF inv] by auto
  moreover have "fitem ` set (f' # remove1 f (flights s)) \<subseteq> ItemID ` set (rows s)"
    using calculation(2) same sched_inv_parts(4) [OF inv] set_remove1_subset [of f "flights s"] by auto
  ultimately show ?thesis using sched_inv_parts [OF inv] by (simp add: sched_inv_def cs)
qed

text \<open>A flight ends with a statement on its row.\<close>

lemma flight_ends:
  assumes inv: "sched_inv s" and f: "f \<in> set (flights s)"
    and t: "rs = rows s \<or> touched (fitem f) P g (rows s) rs" and idg: "\<And>r. ItemID (g r) = ItemID r"
    and keep: "\<And>(r::Item) n w. phase_ok [f] n w (Retry r) \<Longrightarrow> phase_ok [] n w (Retry r)"
    and ok: "\<And>(r::Item) n w. P r \<Longrightarrow> phase_ok [f] n w (Retry r) \<Longrightarrow> Status r \<in> {''dispatched'', ''skipped''} \<Longrightarrow> ApprovedBy r \<noteq> None \<Longrightarrow>
      row_ok [] n w (g r)"
  shows "sched_inv (s\<lparr>rows := rs, flights := remove1 f (flights s)\<rparr>)"
proof -
  let ?i = "fitem f"
  have i: "?i \<in> ItemID ` set (rows s)" using f sched_inv_parts(4) [OF inv] by auto
  have t': "touched ?i (\<lambda>r. rs \<noteq> rows s \<and> P r) g (rows s) rs"
    using t update_where_unaffected [of "\<lambda>r. False" "rows s"]
    by (cases "rs = rows s") (auto simp: touched_def affected_0_iff)
  show ?thesis
  proof (rule inv_touch [OF inv t' idg _ _ i])
    fix j
    assume "j \<noteq> ?i"
    then show "flown j (remove1 f (flights s)) = flown j (flights s)" using flown_other by simp
  next
    show "fitem ` set (remove1 f (flights s)) \<subseteq> insert ?i (fitem ` set (flights s))"
      using set_remove1_subset by fastforce
  next
    fix r
    assume r: "r \<in> set (rows s)" "ItemID r = ?i"
    note fr = flight_row [OF inv f r]
    have "flown ?i (remove1 f (flights s)) = []" using fr(2) by simp
    moreover have "row_ok [] (ncalls ?i (calls s)) (nwon ?i (calls s)) r"
      using fr(1,4) keep [OF fr(3)] by (auto simp: row_ok_def)
    ultimately show "row_ok (flown ?i (remove1 f (flights s))) (ncalls ?i (calls s)) (nwon ?i (calls s))
        (if rs \<noteq> rows s \<and> P r then g r else r)"
      using ok [OF _ fr(3,1,4)] by simp
  qed
qed

lemma sched_step_inv:
  assumes "sched_step s s'" and inv: "sched_inv s"
  shows "sched_inv s'"
  using assms(1)
proof cases
  case (other rs)
  then show ?thesis using others_inv inv by simp
next
  case (claim now i sn tok rs)
  note t = ClaimDispatch_touched(1) [OF claim(2)]
  from ClaimDispatch_touched(2) [OF claim(2)] obtain a where
    a: "a \<in> set (rows s)" "ItemID a = i" "Status a = ''approved''" by blast
  then have "Status a \<in> resting" by (simp add: resting_def)
  note b = row_ok_resting [OF inv_row [OF inv a(1)] this]
  show ?thesis unfolding claim(1)
  proof (rule inv_touch [OF inv t])
    fix r
    assume r: "r \<in> set (rows s)" "ItemID r = i"
    then have "r = a" using inv_same_id [OF inv] a by blast
    moreover have "ApprovedBy a \<noteq> None" using inv_row [OF inv a(1)] a(3) by (simp add: row_ok_def)
    ultimately show "row_ok (flown i (Claimed i sn tok # flights s)) (ncalls i (calls s)) (nwon i (calls s))
        (if Status r = ''approved'' then claim_row now sn tok r else r)"
      using b a by (simp add: row_ok_def claim_row_def)
  qed (use a in auto)
next
  case (started i sn tok cmd)
  show ?thesis unfolding started(1)
    using flight_moves [OF inv started(2), of "Confirming i tok cmd" _ sn True] by simp
next
  case (refused i sn tok)
  show ?thesis unfolding refused(1)
    using flight_moves [OF inv refused(2), of "Reverting i tok" _ sn False] by simp
next
  case (confirm i tok cmd fails res rs)
  have "rs = rows s \<or> touched (fitem (Confirming i tok cmd)) (\<lambda>r. CmdID r = Some tok \<and> Status r = ''dispatched'')
      (\<lambda>r. r\<lparr>CmdID := Some cmd\<rparr>) (rows s) rs"
    using ConfirmDispatch_touched [OF confirm(3)] by simp
  then show ?thesis unfolding confirm(1)
    by (rule flight_ends [OF inv confirm(2)]) (auto simp: row_ok_def)
next
  case (revert i tok fails maxRetry res rs)
  have "rs = rows s \<or> touched (fitem (Reverting i tok)) (\<lambda>r. CmdID r = Some tok \<and> Status r = ''dispatched'')
      (revert_row maxRetry) (rows s) rs"
    using RevertDispatch_touched [OF revert(3)] by simp
  then show ?thesis unfolding revert(1)
    by (rule flight_ends [OF inv revert(2)]) (auto simp: row_ok_def revert_row_def resting_def)
qed

lemma reach_inv: "sched_reach s \<Longrightarrow> sched_inv s"
proof (induction rule: sched_reach.induct)
  case init
  then show ?case by (simp add: sched_inv_def no_clash_def)
qed (rule sched_step_inv)

subsection \<open>A round of a scheduler is a sequence of steps\<close>

definition stand :: "ClassQ \<Rightarrow> flight list \<Rightarrow> Sched" where
  "stand c F = \<lparr>rows = items c, calls = cmds c, flights = F\<rparr>"

lemma stand_simps [simp]:
  "rows (stand c F) = items c" "calls (stand c F) = cmds c" "flights (stand c F) = F"
  "stand (cinc n c) F = stand c F" "cmds (cinc n c) = cmds c" "items (cinc n c) = items c"
  by (simp_all add: stand_def cinc_def)


lemma others_steps: "others\<^sup>*\<^sup>* rs rs' \<Longrightarrow> sched_step\<^sup>*\<^sup>* \<lparr>rows = rs, calls = cs, flights = F\<rparr> \<lparr>rows = rs', calls = cs, flights = F\<rparr>"
proof (induction rule: rtranclp_induct)
  case (step y z)
  have "sched_step \<lparr>rows = y, calls = cs, flights = F\<rparr> \<lparr>rows = z, calls = cs, flights = F\<rparr>"
    using sched_step.other [of "\<lparr>rows = y, calls = cs, flights = F\<rparr>" z] step(2) by simp
  with step.IH show ?case by (rule rtranclp.rtrancl_into_rtrancl)
qed simp

lemma reach_steps: "sched_step\<^sup>*\<^sup>* s s' \<Longrightarrow> sched_reach s \<Longrightarrow> sched_reach s'"
  by (induction rule: rtranclp_induct) (auto intro: sched_reach.step)

definition quiet :: "Outside \<Rightarrow> bool" where
  "quiet w \<longleftrightarrow> (\<forall>rs. others\<^sup>*\<^sup>* rs (before_claim w rs)) \<and> (\<forall>rs. others\<^sup>*\<^sup>* rs (during_call w rs))"

lemma after_call_steps:
  assumes q: "quiet w" and r: "after_call w i sn c = (res, c')"
  shows "sched_step\<^sup>*\<^sup>* (stand c (Claimed i sn (token w) # F)) (stand c' F)"
proof -
  let ?rs = "during_call w (items c)"
  let ?cs = "cmds c @ [(i, sn, JobStart w \<noteq> None)]"
  have 1: "sched_step\<^sup>*\<^sup>* (stand c (Claimed i sn (token w) # F)) \<lparr>rows = ?rs, calls = cmds c, flights = Claimed i sn (token w) # F\<rparr>"
    unfolding stand_def using q by (intro others_steps) (simp add: quiet_def)
  show ?thesis
  proof (cases "JobStart w")
    case None
    have 2: "sched_step \<lparr>rows = ?rs, calls = cmds c, flights = Claimed i sn (token w) # F\<rparr>
        \<lparr>rows = ?rs, calls = ?cs, flights = Reverting i (token w) # F\<rparr>"
      using sched_step.refused [of i sn "token w" "\<lparr>rows = ?rs, calls = cmds c, flights = Claimed i sn (token w) # F\<rparr>"] None by simp
    obtain e rs where e: "RevertDispatch (faults w ''revert'') i (token w) (MaxRetry w) ?rs = (e, rs)" by fastforce
    have "sched_step \<lparr>rows = ?rs, calls = ?cs, flights = Reverting i (token w) # F\<rparr> \<lparr>rows = rs, calls = ?cs, flights = F\<rparr>"
      using sched_step.revert [of i "token w" "\<lparr>rows = ?rs, calls = ?cs, flights = Reverting i (token w) # F\<rparr>" _ _ e rs] e by simp
    moreover have "stand c' F = \<lparr>rows = rs, calls = ?cs, flights = F\<rparr>"
      using r e None by (auto simp: after_call_def Let_def stand_def cinc_def split: option.splits)
    ultimately show ?thesis using 1 2 by (metis rtranclp.rtrancl_into_rtrancl)
  next
    case (Some cmd)
    have 2: "sched_step \<lparr>rows = ?rs, calls = cmds c, flights = Claimed i sn (token w) # F\<rparr>
        \<lparr>rows = ?rs, calls = ?cs, flights = Confirming i (token w) cmd # F\<rparr>"
      using sched_step.started [of i sn "token w" "\<lparr>rows = ?rs, calls = cmds c, flights = Claimed i sn (token w) # F\<rparr>" cmd] Some by simp
    obtain e rs where e: "ConfirmDispatch (faults w ''confirm'') i (token w) cmd ?rs = (e, rs)" by fastforce
    have "sched_step \<lparr>rows = ?rs, calls = ?cs, flights = Confirming i (token w) cmd # F\<rparr> \<lparr>rows = rs, calls = ?cs, flights = F\<rparr>"
      using sched_step.confirm [of i "token w" cmd "\<lparr>rows = ?rs, calls = ?cs, flights = Confirming i (token w) cmd # F\<rparr>" _ e rs] e by simp
    moreover have "stand c' F = \<lparr>rows = rs, calls = ?cs, flights = F\<rparr>"
      using r e Some by (auto simp: after_call_def Let_def stand_def cinc_def split: option.splits)
    ultimately show ?thesis using 1 2 by (metis rtranclp.rtrancl_into_rtrancl)
  qed
qed

lemma affected_key:
  "distinct (map key rs) \<Longrightarrow> affected (\<lambda>r. key r = k \<and> P r) rs \<le> 1"
  by (induction rs) (auto simp: affected_0_iff intro: le_SucI, metis image_eqI)

lemma ClaimDispatch_other:
  assumes "ClaimDispatch fails now i sn tok rs = (res, rs')" "res \<noteq> Inr True" "distinct (map ItemID rs)"
  shows "rs' = rs"
proof -
  have "affected (\<lambda>r. ItemID r = i \<and> Status r = ''approved'') rs \<noteq> 1 \<longrightarrow>
      affected (\<lambda>r. ItemID r = i \<and> Status r = ''approved'') rs = 0"
    using affected_key [OF assms(3), of i "\<lambda>r. Status r = ''approved''"] by auto
  then show ?thesis using assms(1,2)
    by (auto simp: ClaimDispatch_def update_item_def Let_def split: if_splits)
qed

lemma dispatchQueue_steps:
  assumes q: "quiet w" and r: "dispatchQueue w now que c = (res, c')" and reach: "sched_reach (stand c F)"
  shows "sched_step\<^sup>*\<^sup>* (stand c F) (stand c' F)"
proof (cases "faults w ''head'' \<or> HeadApproved (QID que) (items c) = None \<or> faults w ''active'' \<or>
    pick (shadows w) (ActiveSNs (items c)) (DeviceSNs que) = None")
  case True
  then have "c' = c" using r by (auto simp: dispatchQueue_def split: option.splits if_splits)
  then show ?thesis by simp
next
  case False
  then obtain it sn where it: "HeadApproved (QID que) (items c) = Some it"
    and sn: "pick (shadows w) (ActiveSNs (items c)) (DeviceSNs que) = Some sn" by auto
  let ?rs = "before_claim w (items c)"
  let ?c1 = "cinc ''dispatch_attempts'' (c\<lparr>items := ?rs\<rparr>)"
  have 1: "sched_step\<^sup>*\<^sup>* (stand c F) (stand ?c1 F)"
    using others_steps [of "items c" ?rs "cmds c" F] q by (simp add: stand_def quiet_def cinc_def)
  obtain ans rs where cl: "ClaimDispatch (faults w ''claim'') now (ItemID it) sn (token w) ?rs = (ans, rs)" by fastforce
  show ?thesis
  proof (cases "ans = Inr True")
    case True
    let ?c2 = "cinc ''dispatch_claimed'' (?c1\<lparr>items := rs\<rparr>)"
    have nf: "\<not> faults w ''claim''" using cl True by (auto simp: ClaimDispatch_def)
    then have "sched_step (stand ?c1 F) (stand ?c2 (Claimed (ItemID it) sn (token w) # F))"
      using sched_step.claim [of now "ItemID it" sn "token w" "stand ?c1 F" rs] cl True by (simp add: stand_def cinc_def)
    moreover have "after_call w (ItemID it) sn ?c2 = (res, c')"
      using r False it sn cl True by (simp add: dispatchQueue_def cinc_def)
    then have "sched_step\<^sup>*\<^sup>* (stand ?c2 (Claimed (ItemID it) sn (token w) # F)) (stand c' F)" by (rule after_call_steps [OF q])
    ultimately show ?thesis using 1 by (meson converse_rtranclp_into_rtranclp rtranclp_trans)
  next
    case no: False
    have "distinct (map ItemID ?rs)"
      using sched_inv_parts(1) [OF reach_inv [OF reach_steps [OF 1 reach]]] by simp
    then have "rs = ?rs" using ClaimDispatch_other [OF cl no] by simp
    then have "stand c' F = stand ?c1 F"
      using r False it sn cl no
      by (cases ans) (auto simp: dispatchQueue_def cinc_def stand_def Let_def split: sum.splits bool.splits)
    then show ?thesis using 1 by simp
  qed
qed

lemma dispatch_queues_steps:
  "(\<And>q. quiet (w q)) \<Longrightarrow> dispatch_queues w now qs n c = (m, c') \<Longrightarrow> sched_reach (stand c F) \<Longrightarrow>
   sched_step\<^sup>*\<^sup>* (stand c F) (stand c' F)"
proof (induction qs arbitrary: n c)
  case (Cons q qs)
  obtain res c1 where d: "dispatchQueue (w q) now q c = (res, c1)" by fastforce
  have "\<exists>k. dispatch_queues w now qs k c1 = (m, c')"
    using Cons.prems(2) d by (auto split: sum.splits bool.splits)
  moreover note one = dispatchQueue_steps [OF Cons.prems(1) d Cons.prems(3)]
  ultimately have "sched_step\<^sup>*\<^sup>* (stand c1 F) (stand c' F)"
    using Cons.IH Cons.prems(1) reach_steps [OF one Cons.prems(3)] by blast
  with one show ?case by (meson rtranclp_trans)
qed simp

lemma DispatchOnce_steps:
  assumes "\<And>q. quiet (w q)" "DispatchOnce fails w now c = (res, c')" "sched_reach (stand c F)"
  shows "sched_step\<^sup>*\<^sup>* (stand c F) (stand c' F)"
proof (cases fails)
  case True
  then show ?thesis using assms(2) by (simp add: DispatchOnce_def)
next
  case False
  obtain n c1 where "dispatch_queues w now (queues c) 0 c = (n, c1)" by fastforce
  with assms False show ?thesis using dispatch_queues_steps [of w now "queues c" 0 c n c1 F]
    by (simp add: DispatchOnce_def)
qed

subsection \<open>The properties\<close>

text \<open>
  C14: no job starts twice. Whatever schedulers, members and the expiry job do, in any order, at most one of the
  device calls made for an item ever reports success, there are at most as many calls as recorded retries and one
  more, nothing is called that was never approved, and an item whose call succeeded is never offered again: it is
  dispatched or, when it expired, skipped.
\<close>

theorem job_started_at_most_once:
  assumes "sched_reach s" and "r \<in> set (rows s)"
  shows "nwon (ItemID r) (calls s) \<le> 1 \<and> ncalls (ItemID r) (calls s) \<le> Retry r + 1 \<and>
    (ncalls (ItemID r) (calls s) > 0 \<longrightarrow> ApprovedBy r \<noteq> None) \<and>
    (nwon (ItemID r) (calls s) = 1 \<longrightarrow> Status r \<in> {''dispatched'', ''skipped''})"
proof -
  have ok: "row_ok (flown (ItemID r) (flights s)) (ncalls (ItemID r) (calls s)) (nwon (ItemID r) (calls s)) r"
    using sched_inv_parts(3) [OF reach_inv [OF assms(1)] assms(2)] .
  have "w \<le> 1 \<and> n \<le> k + 1" if "phase_ok F n w k" for F n w k
    using that by (induction F n w k rule: phase_ok.induct) auto
  with ok show ?thesis by (fastforce simp: row_ok_def)
qed

text \<open>
  one job per device. No two items are ever active on the same device, and no command identifier is on two items.
\<close>

theorem one_job_per_device:
  assumes "sched_reach s" and "r \<in> set (rows s)" and "q \<in> set (rows s)"
    and "(active_status (Status r) \<and> active_status (Status q) \<and> AssignedSN r \<noteq> None \<and> AssignedSN q = AssignedSN r) \<or>
      (CmdID r \<noteq> None \<and> CmdID q = CmdID r)"
  shows "q = r"
proof -
  note inv = reach_inv [OF assms(1)]
  have "\<not> conflict r q" using sched_inv_parts(2) [OF inv] assms(2,3) by (simp add: no_clash_def)
  then have "ItemID q = ItemID r" using assms(4) by (auto simp: conflict_def)
  then show ?thesis using inv_same_id [OF inv assms(3,2)] by simp
qed

text \<open>
  Nothing in the repository moves an item on from \<open>dispatched\<close> when its job runs or ends: the states
  \<open>running\<close>, \<open>done\<close> and \<open>failed\<close> of the status table are never reached, and a job that was started can only
  end as \<open>skipped\<close>, by expiry.
\<close>

theorem no_item_finishes:
  assumes "sched_reach s" and "r \<in> set (rows s)"
  shows "Status r \<notin> {''running'', ''done'', ''failed'', ''assigned''}"
proof -
  have "Status r \<in> resting \<union> {''dispatched'', ''skipped''}"
    using sched_inv_parts(3) [OF reach_inv [OF assms(1)] assms(2)] unfolding row_ok_def by blast
  then show ?thesis unfolding resting_def by auto
qed

lemma pick_Some:
  "pick sh act sns = Some sn \<Longrightarrow> sn \<in> set sns \<and> sn \<notin> act \<and> (\<exists>rep. sh sn = Some rep \<and> WorkStateOf rep = 0 \<and> \<not> LockedOf rep)"
  by (induction sns) (auto simp: IdleDevice_def Summarize_def split: if_splits option.splits)

lemma after_call_cmds: "after_call w i sn c = (res, c') \<Longrightarrow> cmds c' = cmds c @ [(i, sn, JobStart w \<noteq> None)]"
  by (auto simp: after_call_def Let_def cinc_def split: option.splits prod.splits)

text \<open>
  who gets a job. A round on one queue calls at most one device, with the head of the queue, only after the
  claim on that item went through; the device is one of the queue's, free of active items, and by its shadow idle and
  unlocked.
\<close>

theorem dispatch_calls_free_device:
  assumes "dispatchQueue w now que c = (res, c')" and "cmds c' \<noteq> cmds c"
  shows "\<exists>it sn rep rs. HeadApproved (QID que) (items c) = Some it \<and> cmds c' = cmds c @ [(ItemID it, sn, JobStart w \<noteq> None)] \<and>
    ClaimDispatch False now (ItemID it) sn (token w) (before_claim w (items c)) = (Inr True, rs) \<and>
    sn \<in> set (DeviceSNs que) \<and> sn \<notin> ActiveSNs (items c) \<and>
    shadows w sn = Some rep \<and> WorkStateOf rep = 0 \<and> \<not> LockedOf rep"
proof -
  from assms obtain it sn where it: "HeadApproved (QID que) (items c) = Some it"
    and sn: "pick (shadows w) (ActiveSNs (items c)) (DeviceSNs que) = Some sn"
    and nf: "\<not> faults w ''head''" "\<not> faults w ''active''"
    by (auto simp: dispatchQueue_def split: option.splits if_splits)
  let ?rs = "before_claim w (items c)"
  obtain ans rs where cl: "ClaimDispatch (faults w ''claim'') now (ItemID it) sn (token w) ?rs = (ans, rs)" by fastforce
  have "ans = Inr True"
  proof (rule ccontr)
    assume "ans \<noteq> Inr True"
    then have "cmds c' = cmds c" using assms(1) it sn nf cl
      by (cases ans) (auto simp: dispatchQueue_def cinc_def Let_def split: bool.splits)
    with assms(2) show False by simp
  qed
  then have nf2: "\<not> faults w ''claim''" using cl by (auto simp: ClaimDispatch_def)
  then have "cmds c' = cmds c @ [(ItemID it, sn, JobStart w \<noteq> None)]"
    using assms(1) it sn nf cl \<open>ans = Inr True\<close> by (auto simp: dispatchQueue_def cinc_def Let_def dest!: after_call_cmds)
  with it cl nf2 \<open>ans = Inr True\<close> pick_Some [OF sn] show ?thesis by auto
qed

subsection \<open>An example run\<close>

definition demo_submit :: SubmitReq where
  "demo_submit = \<lparr>SSHA = replicate 64 CHR ''a'', SURL = [], SMaterial = [], SProfile = [], SEst = 0\<rparr>"

definition demo_item :: Item where
  "demo_item = new_item ''I1'' 1 10 7 demo_submit 0"

definition demo_class :: ClassQ where
  "demo_class = \<lparr>items = [], queues = [\<lparr>QID = 10, QOrg = 1, QSite = 5, DeviceSNs = [''DEV1'', ''DEV2'']\<rparr>],
     cmetrics = (\<lambda>_. 0), cmds = []\<rparr>"

definition demo_outside :: Outside where
  "demo_outside = \<lparr>shadows = (\<lambda>sn. if sn = ''DEV2'' then Some [(''work_state'', ''0'')] else None), token = ''T1'',
     JobStart = Some ''C1'', faults = (\<lambda>_. False), before_claim = id, during_call = id, MaxRetry = 3\<rparr>"

definition demo_approved :: "Item list" where
  "demo_approved = [set_status_row 5 ''approved'' ''user:2'' [] demo_item]"

definition demo_done :: Item where
  "demo_done = (claim_row 9 ''DEV2'' ''T1'' (set_status_row 5 ''approved'' ''user:2'' [] demo_item))\<lparr>CmdID := Some ''C1''\<rparr>"

lemma demo_approved_reach: "sched_reach (stand (demo_class\<lparr>items := demo_approved\<rparr>) [])"
proof -
  let ?none = "\<lambda>_::string. False"
  have "Submit ?none 0 ''I1'' 1 10 7 demo_submit demo_class = (Inr demo_item, demo_class\<lparr>items := [demo_item]\<rparr>)"
    by (simp add: Submit_def demo_submit_def demo_class_def hex64_def GetQueue_def InsertItem_def demo_item_def new_item_def
        toLower_def trimSpace_def is_space_def between_def code_def list_all_iff)
  then have 1: "others [] [demo_item]" using others.submit by (fastforce simp: demo_class_def)
  have "SetStatus False 5 1 ''I1'' ''submitted'' ''approved'' ''user:2'' [] [demo_item] = (None, demo_approved)"
    by (simp add: SetStatus_def update_item_def demo_item_def new_item_def clashes_def demo_approved_def set_status_row_def)
  moreover have "Transition ''submitted'' ''approved'' ''teacher''" by (simp add: Transition_def item_transitions_def Let_def)
  ultimately have 2: "others [demo_item] demo_approved" using others.status by fastforce
  have "sched_step\<^sup>*\<^sup>* \<lparr>rows = [], calls = [], flights = []\<rparr> \<lparr>rows = demo_approved, calls = [], flights = []\<rparr>"
    using others_steps 1 2 by (meson r_into_rtranclp rtranclp.rtrancl_into_rtrancl)
  then show ?thesis using reach_steps sched_reach.init by (simp add: stand_def demo_class_def)
qed

lemma demo_round:
  "dispatchQueue demo_outside 9 (hd (queues demo_class)) (demo_class\<lparr>items := demo_approved\<rparr>) =
   (Inr True, (cinc ''dispatch_ok'' (cinc ''dispatch_claimed'' (cinc ''dispatch_attempts'' demo_class)))
      \<lparr>items := [demo_done], cmds := [(''I1'', ''DEV2'', True)]\<rparr>)"
  by (simp add: dispatchQueue_def demo_outside_def demo_class_def demo_approved_def HeadApproved_def head_order_def
      demo_item_def new_item_def set_status_row_def ActiveSNs_def active_status_def Summarize_def IdleDevice_def
      WorkStateOf_def LockedOf_def ParseFloat_def signed_digits_def trimSpace_def is_space_def code_def between_def
      decimal_def digit_val_def trunc_def toLower_def cinc_def ClaimDispatch_def update_item_def clashes_def claim_row_def
      after_call_def ConfirmDispatch_def demo_done_def Let_def affected_def)

lemma demo_done_reach: "sched_reach (stand (demo_class\<lparr>items := [demo_done], cmds := [(''I1'', ''DEV2'', True)]\<rparr>) [])"
proof -
  have "quiet demo_outside" by (simp add: quiet_def demo_outside_def)
  from reach_steps [OF dispatchQueue_steps [OF this demo_round demo_approved_reach] demo_approved_reach]
  show ?thesis by (simp add: stand_def cinc_def)
qed

lemma demo_done_row [simp]:
  "ItemID demo_done = ''I1''" "Status demo_done = ''dispatched''" "Retry demo_done = 0" "AssignedSN demo_done = Some ''DEV2''"
  by (simp_all add: demo_done_def claim_row_def set_status_row_def demo_item_def new_item_def)

theorem job_started_at_most_once_witness:
  "nwon ''I1'' [(''I1'', ''DEV2'', True)] \<le> 1 \<and> ApprovedBy demo_done \<noteq> None"
  using job_started_at_most_once [OF demo_done_reach, of demo_done] by (simp add: ncalls_def)

theorem one_job_per_device_witness: "active_status (Status demo_done) \<and> demo_done = demo_done"
  using one_job_per_device [OF demo_done_reach, of demo_done demo_done] by (simp add: active_status_def)

theorem dispatch_calls_free_device_witness:
  "\<exists>rep. shadows demo_outside ''DEV2'' = Some rep \<and> WorkStateOf rep = 0 \<and> \<not> LockedOf rep"
  using dispatch_calls_free_device [OF demo_round] by (auto simp: demo_class_def)

end
