(* ===== verification/FleetOrg.thy ===== *)
theory FleetOrg
  imports FleetQueue
begin

text \<open>
  Organisations: the tables of \<open>internal/fleet/store.go\<close>, the services on them (\<open>service.go\<close>) and the tenant guard of
  \<open>handler.go\<close>. Instants are nanoseconds; the schedule package looks at whole seconds. \<open>flt\<close> names the statements
  that fail. The desired document of a device is its decoded JSON object.
\<close>

subsection \<open>Tables\<close>

record Org =
  OID :: int
  OName :: string
  OType :: string
  ORegion :: string
  OUnlockMax :: int

record Site =
  SiteID :: int
  SiteOrg :: int
  SiteName :: string
  SiteTZ :: string

record Member =
  MOrg :: int
  MUser :: int
  MRole :: role
  MRemoved :: bool

record DeviceOrg =
  DSN :: string
  DOrg :: int
  DSite :: int
  DBy :: int

record PolicyRow =
  POrg :: int
  PSite :: int
  PVersion :: int
  PPolicy :: Policy

record LockAudit =
  AOrg :: int
  ASN :: string
  AAction :: string
  AActor :: string

text \<open>A JSON value: \<open>JTime t\<close> is a string in RFC 3339 notation for the second \<open>t\<close>, \<open>JStr\<close> any other string.\<close>

datatype jval = JNull | JBool bool | JNum int | JTime int | JStr string | JOther

type_synonym doc = "(string \<times> jval) list"

record Fleet =
  orgs :: "Org list"
  sites :: "Site list"
  members :: "Member list"
  bound :: "string list"
  device_orgs :: "DeviceOrg list"
  policies :: "PolicyRow list"
  desired :: "(string \<times> int \<times> doc) list"
  audits :: "LockAudit list"
  queue_part :: ClassQ
  fmetrics :: metrics
  next_org :: int
  next_site :: int
  next_queue :: int

definition finc :: "string \<Rightarrow> Fleet \<Rightarrow> Fleet" where
  "finc name s = s\<lparr>fmetrics := Inc name (fmetrics s)\<rparr>"

subsection \<open>Organisations, sites, members\<close>

definition valid_name :: "string \<Rightarrow> bool" where
  "valid_name s \<longleftrightarrow> 1 \<le> length s \<and> length s \<le> 128 \<and> list_all (\<lambda>c. 32 \<le> code c) s"

text \<open>The insertion of the organisation and of its first administrator is one transaction.\<close>

definition StoreCreateOrg :: "(string \<Rightarrow> bool) \<Rightarrow> string \<Rightarrow> string \<Rightarrow> string \<Rightarrow> int \<Rightarrow> Fleet \<Rightarrow> (fleet_error + Org) \<times> Fleet" where
  "StoreCreateOrg flt name kind region creator s =
     (let o1 = \<lparr>OID = next_org s, OName = name, OType = kind, ORegion = region, OUnlockMax = 240\<rparr>;
          m = \<lparr>MOrg = next_org s, MUser = creator, MRole = ''org_admin'', MRemoved = False\<rparr>
      in if flt ''insert org'' \<or> length region > 8 then (Inl StoreError, s)
         else if creator > 0 \<and> flt ''insert admin'' then (Inl StoreError, s)
         else if flt ''commit'' then (Inl StoreError, s)
         else (Inr o1, s\<lparr>orgs := orgs s @ [o1], next_org := next_org s + 1,
                members := members s @ (if creator > 0 then [m] else [])\<rparr>))"

definition CreateOrg :: "(string \<Rightarrow> bool) \<Rightarrow> string \<Rightarrow> string \<Rightarrow> string \<Rightarrow> int \<Rightarrow> Fleet \<Rightarrow> (fleet_error + Org) \<times> Fleet" where
  "CreateOrg flt name0 kind region creator s =
     (let name = trimSpace name0 in
      if \<not> valid_name name then (Inl ErrBadParam, s)
      else if kind \<noteq> ''school'' \<and> kind \<noteq> ''studio'' then (Inl ErrBadParam, s)
      else if creator \<le> 0 then (Inl ErrBadParam, s)
      else StoreCreateOrg flt name kind (if region = [] then ''US'' else region) creator s)"

definition CreateSite :: "(string \<Rightarrow> bool) \<Rightarrow> tzdb \<Rightarrow> int \<Rightarrow> string \<Rightarrow> string \<Rightarrow> Fleet \<Rightarrow> (fleet_error + Site) \<times> Fleet" where
  "CreateSite flt tzdb org name0 tz s =
     (let name = trimSpace name0; st = \<lparr>SiteID = next_site s, SiteOrg = org, SiteName = name, SiteTZ = tz\<rparr> in
      if \<not> valid_name name then (Inl ErrBadParam, s)
      else if snd (Location tzdb tz) \<noteq> None \<or> trimSpace tz = [] then (Inl ErrBadParam, s)
      else if flt ''insert site'' \<or> length tz > 48 then (Inl StoreError, s)
      else (Inr st, s\<lparr>sites := sites s @ [st], next_site := next_site s + 1\<rparr>))"

definition GetSite :: "bool \<Rightarrow> int \<Rightarrow> int \<Rightarrow> Fleet \<Rightarrow> fleet_error + Site" where
  "GetSite fails org site s =
     (if fails then Inl StoreError
      else case find (\<lambda>x. SiteOrg x = org \<and> SiteID x = site) (sites s) of None \<Rightarrow> Inl ErrNotFound | Some x \<Rightarrow> Inr x)"

definition GetRole :: "bool \<Rightarrow> int \<Rightarrow> int \<Rightarrow> Fleet \<Rightarrow> fleet_error + role" where
  "GetRole fails org user s =
     (if fails then Inl StoreError
      else case find (\<lambda>m. MOrg m = org \<and> MUser m = user \<and> \<not> MRemoved m) (members s) of
        None \<Rightarrow> Inl ErrNotMember | Some m \<Rightarrow> Inr (MRole m))"

definition StoreAddMember :: "(string \<Rightarrow> bool) \<Rightarrow> int \<Rightarrow> int \<Rightarrow> role \<Rightarrow> Fleet \<Rightarrow> fleet_error option \<times> Fleet" where
  "StoreAddMember flt org user rl s =
     (let P = (\<lambda>m. MOrg m = org \<and> MUser m = user \<and> \<not> MRemoved m) in
      if flt ''update member'' then (Some StoreError, s)
      else let s1 = s\<lparr>members := update_where P (\<lambda>m. m\<lparr>MRole := rl\<rparr>) (members s)\<rparr> in
        if affected P (members s) = 1 then (None, s1)
        else if flt ''insert member'' then (Some StoreError, s1)
        else if list_ex P (members s1) then (Some ErrConflict, s1)
        else (None, s1\<lparr>members := members s1 @ [\<lparr>MOrg = org, MUser = user, MRole = rl, MRemoved = False\<rparr>]\<rparr>))"

definition AddMember :: "(string \<Rightarrow> bool) \<Rightarrow> int \<Rightarrow> int \<Rightarrow> role \<Rightarrow> Fleet \<Rightarrow> fleet_error option \<times> Fleet" where
  "AddMember flt org user rl s =
     (if user \<le> 0 then (Some ErrBadParam, s)
      else if \<not> ValidRole rl then (Some ErrBadParam, s)
      else StoreAddMember flt org user rl s)"

definition RemoveMember :: "bool \<Rightarrow> int \<Rightarrow> int \<Rightarrow> Fleet \<Rightarrow> fleet_error option \<times> Fleet" where
  "RemoveMember fails org user s =
     (let P = (\<lambda>m. MOrg m = org \<and> MUser m = user \<and> \<not> MRemoved m) in
      if fails then (Some StoreError, s)
      else if affected P (members s) = 0 then (Some ErrNotFound, s)
      else (None, s\<lparr>members := update_where P (\<lambda>m. m\<lparr>MRemoved := True\<rparr>) (members s)\<rparr>))"

subsection \<open>Devices\<close>

definition audit :: "bool \<Rightarrow> int \<Rightarrow> string \<Rightarrow> string \<Rightarrow> string \<Rightarrow> Fleet \<Rightarrow> Fleet" where
  "audit fails org sn act actor s =
     (if fails then s else s\<lparr>audits := audits s @ [\<lparr>AOrg = org, ASN = sn, AAction = act, AActor = actor\<rparr>]\<rparr>)"

definition DeviceOrgOf :: "bool \<Rightarrow> string \<Rightarrow> Fleet \<Rightarrow> fleet_error + DeviceOrg" where
  "DeviceOrgOf fails sn s =
     (if fails then Inl StoreError
      else case find (\<lambda>d. DSN d = sn) (device_orgs s) of None \<Rightarrow> Inl ErrNotFound | Some d \<Rightarrow> Inr d)"

definition GetDevice :: "bool \<Rightarrow> int \<Rightarrow> string \<Rightarrow> Fleet \<Rightarrow> fleet_error + DeviceOrg" where
  "GetDevice fails org sn s =
     (if fails then Inl StoreError
      else case find (\<lambda>d. DOrg d = org \<and> DSN d = sn) (device_orgs s) of None \<Rightarrow> Inl ErrNotFound | Some d \<Rightarrow> Inr d)"

text \<open>\<open>INSERT ... ON CONFLICT (sn) DO UPDATE ... WHERE device_org.org_id = EXCLUDED.org_id\<close>.\<close>

definition AttachDevice :: "bool \<Rightarrow> DeviceOrg \<Rightarrow> Fleet \<Rightarrow> fleet_error option \<times> Fleet" where
  "AttachDevice fails d s =
     (if fails then (Some StoreError, s)
      else case find (\<lambda>x. DSN x = DSN d) (device_orgs s) of
        None \<Rightarrow> (None, s\<lparr>device_orgs := device_orgs s @ [d]\<rparr>)
      | Some x \<Rightarrow>
          if DOrg x \<noteq> DOrg d then (Some ErrConflict, s)
          else (None, s\<lparr>device_orgs := update_where (\<lambda>x. DSN x = DSN d) (\<lambda>x. x\<lparr>DSite := DSite d, DBy := DBy d\<rparr>) (device_orgs s)\<rparr>))"

definition DetachDevice :: "bool \<Rightarrow> int \<Rightarrow> string \<Rightarrow> Fleet \<Rightarrow> fleet_error option \<times> Fleet" where
  "DetachDevice fails org sn s =
     (if fails then (Some StoreError, s)
      else if \<not> list_ex (\<lambda>d. DOrg d = org \<and> DSN d = sn) (device_orgs s) then (Some ErrNotFound, s)
      else (None, s\<lparr>device_orgs := filter (\<lambda>d. \<not> (DOrg d = org \<and> DSN d = sn)) (device_orgs s)\<rparr>))"

definition fleet_sn :: "string \<Rightarrow> bool" where
  "fleet_sn sn \<longleftrightarrow> 1 \<le> length sn \<and> length sn \<le> 32 \<and>
     list_all (\<lambda>c. between CHR ''A'' CHR ''Z'' c \<or> between CHR ''a'' CHR ''z'' c \<or> is_digit c \<or> c = CHR ''_'' \<or> c = CHR ''-'') sn"

definition Attach :: "(string \<Rightarrow> bool) \<Rightarrow> int \<Rightarrow> int \<Rightarrow> string \<Rightarrow> string \<Rightarrow> int \<Rightarrow> Fleet \<Rightarrow> fleet_error option \<times> Fleet" where
  "Attach flt org actor actorname sn site s =
     (if \<not> fleet_sn sn then (Some ErrBadParam, s)
      else case GetSite (flt ''site'') org site s of
        Inl e \<Rightarrow> (Some e, s)
      | Inr _ \<Rightarrow>
          if flt ''bound'' then (Some StoreError, s)
          else (case DeviceOrgOf (flt ''device'') sn s of
             Inl StoreError \<Rightarrow> (Some StoreError, s)
           | cur \<Rightarrow>
               (let d = ResolveOwnership (sn \<in> set (bound s)) (case cur of Inr x \<Rightarrow> DOrg x \<noteq> org | Inl _ \<Rightarrow> False) in
                if \<not> RAllow d then (Some ErrConflict, audit (flt ''audit'') org sn ''denied_personal'' actorname s)
                else (case AttachDevice (flt ''attach'') \<lparr>DSN = sn, DOrg = org, DSite = site, DBy = actor\<rparr> s of
                        (Some e, s') \<Rightarrow> (Some e, s')
                      | (None, s') \<Rightarrow>
                          (None, if RAudit d then audit (flt ''audit'') org sn ''denied_personal'' actorname s' else s')))))"

subsection \<open>Schedules and locks\<close>

definition UpsertPolicy :: "bool \<Rightarrow> int \<Rightarrow> int \<Rightarrow> Policy \<Rightarrow> Fleet \<Rightarrow> (fleet_error + int) \<times> Fleet" where
  "UpsertPolicy fails org site p s =
     (if fails then (Inl StoreError, s)
      else case find (\<lambda>r. PSite r = site) (policies s) of
        None \<Rightarrow> (Inr 1, s\<lparr>policies := policies s @ [\<lparr>POrg = org, PSite = site, PVersion = 1, PPolicy = p\<rparr>]\<rparr>)
      | Some r \<Rightarrow>
          if POrg r \<noteq> org then (Inl ErrNotFound, s)
          else (Inr (PVersion r + 1), s\<lparr>policies := update_where (\<lambda>r. PSite r = site)
                  (\<lambda>r. r\<lparr>PVersion := PVersion r + 1, PPolicy := p\<rparr>) (policies s)\<rparr>))"

definition PutPolicy :: "(string \<Rightarrow> bool) \<Rightarrow> tzdb \<Rightarrow> int \<Rightarrow> int \<Rightarrow> Policy \<Rightarrow> string \<Rightarrow> Fleet \<Rightarrow> (fleet_error + int) \<times> Fleet" where
  "PutPolicy flt tzdb org site p actorname s =
     (if trimSpace (TZ p) = [] then (Inl ErrBadParam, s)
      else if Validate tzdb p \<noteq> None then (Inl ErrBadParam, s)
      else case GetSite (flt ''site'') org site s of
        Inl e \<Rightarrow> (Inl e, s)
      | Inr _ \<Rightarrow>
          (case UpsertPolicy (flt ''policy'') org site p s of
             (Inl e, s') \<Rightarrow> (Inl e, s')
           | (Inr v, s') \<Rightarrow> (Inr v, audit (flt ''audit'') org [] ''schedule_change'' actorname s')))"

record DesiredLock =
  DLock :: "bool option"
  ExpiresAt :: "time option"

definition ParseDesiredLock :: "doc \<Rightarrow> DesiredLock" where
  "ParseDesiredLock d =
     (let none = \<lparr>DLock = None, ExpiresAt = None\<rparr>;
          expiry = (case map_of d ''lock_expires_at'' of
             Some (JTime t) \<Rightarrow> Some (t * second)
           | Some (JNum ms) \<Rightarrow> if ms > 0 then Some (ms * 1000000) else None
           | _ \<Rightarrow> None)
      in case map_of d ''lock'' of
           None \<Rightarrow> none\<lparr>ExpiresAt := expiry\<rparr>
         | Some JNull \<Rightarrow> none\<lparr>ExpiresAt := expiry\<rparr>
         | Some (JBool b) \<Rightarrow> \<lparr>DLock = Some b, ExpiresAt = expiry\<rparr>
         | _ \<Rightarrow> none)"

definition GetDesiredLock :: "string \<Rightarrow> Fleet \<Rightarrow> DesiredLock" where
  "GetDesiredLock sn s =
     (case map_of (desired s) sn of None \<Rightarrow> \<lparr>DLock = None, ExpiresAt = None\<rparr> | Some (v, d) \<Rightarrow> ParseDesiredLock d)"

text \<open>\<open>desired || patch\<close>: the keys of the patch win.\<close>

definition MergeDesired :: "string \<Rightarrow> doc \<Rightarrow> Fleet \<Rightarrow> Fleet" where
  "MergeDesired sn patch s =
     (case map_of (desired s) sn of
        None \<Rightarrow> s\<lparr>desired := AList.update sn (1, patch) (desired s)\<rparr>
      | Some (v, d) \<Rightarrow> s\<lparr>desired := AList.update sn (v + 1, AList.merge d patch) (desired s)\<rparr>)"

text \<open>A duration is an \<open>int64\<close>: the product wraps.\<close>

definition int64 :: "int \<Rightarrow> int" where
  "int64 x = (x + 2 ^ 63) mod 2 ^ 64 - 2 ^ 63"

definition unlock_ttl :: "duration \<Rightarrow> int \<Rightarrow> Org option \<Rightarrow> duration" where
  "unlock_ttl dflt minutes org =
     (let ttl = (if minutes > 0 then int64 (minutes * minute) else dflt) in
      case org of
        Some x \<Rightarrow> if OUnlockMax x > 0 \<and> ttl > OUnlockMax x * minute then OUnlockMax x * minute else ttl
      | None \<Rightarrow> ttl)"

definition Unlock ::
  "(string \<Rightarrow> bool) \<Rightarrow> duration \<Rightarrow> time \<Rightarrow> int \<Rightarrow> string \<Rightarrow> string \<Rightarrow> int \<Rightarrow> Fleet \<Rightarrow> (fleet_error + time) \<times> Fleet" where
  "Unlock flt dflt now org actorname sn minutes s =
     (case GetDevice (flt ''device'') org sn s of
        Inl e \<Rightarrow> (Inl e, s)
      | Inr _ \<Rightarrow>
          (let row = (if flt ''org'' then None else find (\<lambda>x. OID x = org) (orgs s));
               expires = now + unlock_ttl dflt minutes row;
               patch = [(''lock'', JBool False), (''lock_expires_at'', JTime (expires div second))]
           in if flt ''merge'' then (Inl StoreError, s)
              else (Inr expires, finc ''unlocks'' (audit (flt ''audit'') org sn ''temp_unlock'' actorname (MergeDesired sn patch s)))))"

text \<open>The reconciliation: \<open>flt k x\<close> says that statement \<open>k\<close> fails for the site or device \<open>x\<close>.\<close>

definition SiteSNs :: "int \<Rightarrow> int \<Rightarrow> Fleet \<Rightarrow> string list" where
  "SiteSNs org site s = map DSN (filter (\<lambda>d. DOrg d = org \<and> DSite d = site) (device_orgs s))"

definition patch_doc :: "LockPatch \<Rightarrow> doc" where
  "patch_doc p = (''lock'', JBool (PLock p)) # (if PClearExpiry p then [(''lock_expires_at'', JNull)] else [])"

definition reconcile_device ::
  "(string \<Rightarrow> string \<Rightarrow> bool) \<Rightarrow> time \<Rightarrow> int \<Rightarrow> bool \<Rightarrow> string \<Rightarrow> nat \<times> Fleet \<Rightarrow> nat \<times> Fleet" where
  "reconcile_device flt now org should sn ns =
     (let (n, s) = ns in
      if flt ''desired'' sn then (n, s)
      else let dl = GetDesiredLock sn s in
        case ReconcileLock should (DLock dl) (ExpiresAt dl) now of
          (None, _) \<Rightarrow> (n, s)
        | (Some p, ex) \<Rightarrow>
            if flt ''merge'' sn then (n, s)
            else (n + 1, finc ''locks_applied''
                    (audit (flt ''audit'' sn) org sn (if ex then ''expire'' else if should then ''lock'' else ''unlock'') ''system''
                      (MergeDesired sn (patch_doc p) s))))"

definition reconcile_policy ::
  "(string \<Rightarrow> string \<Rightarrow> bool) \<Rightarrow> (PolicyRow \<Rightarrow> bool) \<Rightarrow> tzdb \<Rightarrow> time \<Rightarrow> PolicyRow \<Rightarrow> nat \<times> Fleet \<Rightarrow> nat \<times> Fleet" where
  "reconcile_policy flt site_fails tzdb now pr ns =
     (if site_fails pr then ns
      else fold (reconcile_device flt now (POrg pr) (ShouldLock tzdb (PPolicy pr) (now div second)))
             (SiteSNs (POrg pr) (PSite pr) (snd ns)) ns)"

definition ReconcileOnce ::
  "bool \<Rightarrow> (string \<Rightarrow> string \<Rightarrow> bool) \<Rightarrow> (PolicyRow \<Rightarrow> bool) \<Rightarrow> tzdb \<Rightarrow> time \<Rightarrow> Fleet \<Rightarrow> (fleet_error + nat) \<times> Fleet" where
  "ReconcileOnce fails flt site_fails tzdb now s0 =
     (let s = finc ''reconcile_runs'' s0 in
      if fails then (Inl StoreError, s)
      else case fold (reconcile_policy flt site_fails tzdb now) (policies s) (0, s) of (n, s') \<Rightarrow> (Inr n, s'))"

subsection \<open>Requests of members\<close>

text \<open>The body of \<open>POST .../queues\<close>: the site is checked, the devices are stored as they come.\<close>

definition CreateQueue :: "(string \<Rightarrow> bool) \<Rightarrow> int \<Rightarrow> int \<Rightarrow> string \<Rightarrow> string list \<Rightarrow> Fleet \<Rightarrow> (fleet_error + Queue) \<times> Fleet" where
  "CreateQueue flt org site name sns s =
     (let q = \<lparr>QID = next_queue s, QOrg = org, QSite = site, DeviceSNs = sns\<rparr> in
      if trimSpace name = [] then (Inl ErrBadParam, s)
      else case GetSite (flt ''site'') org site s of
        Inl e \<Rightarrow> (Inl e, s)
      | Inr _ \<Rightarrow>
          if flt ''insert queue'' \<or> length name > 128 then (Inl StoreError, s)
          else (Inr q, s\<lparr>queue_part := (queue_part s)\<lparr>queues := queues (queue_part s) @ [q]\<rparr>, next_queue := next_queue s + 1\<rparr>))"

definition parseID :: "string \<Rightarrow> int option" where
  "parseID v = (case ParseInt (trimSpace v) of None \<Rightarrow> None | Some i \<Rightarrow> if i \<le> 0 then None else Some i)"

text \<open>
  The guard every tenant route passes: the user from the header, the organisation from the path, the two
  organisations equal when both are given, an active membership. What it lets through is the
  organisation, the user and the role.
\<close>

datatype denial = Unauthorized | NotFound | Forbidden | ServerError

definition tenantMW :: "bool \<Rightarrow> string \<Rightarrow> string \<Rightarrow> string \<Rightarrow> Fleet \<Rightarrow> (denial + int \<times> int \<times> role) \<times> Fleet" where
  "tenantMW fails userHeader orgHeader path s =
     (let notFound = (Inl NotFound, finc ''authz_notfound'' s) in
      case parseID userHeader of
        None \<Rightarrow> (Inl Unauthorized, s)
      | Some uid \<Rightarrow>
          (case parseID path of
             None \<Rightarrow> notFound
           | Some org \<Rightarrow>
               if trimSpace orgHeader \<noteq> [] \<and> parseID (trimSpace orgHeader) \<noteq> Some org then notFound
               else (case GetRole fails org uid s of
                       Inl e \<Rightarrow> if e = StoreError then (Inl ServerError, s) else notFound
                     | Inr rl \<Rightarrow> (Inr (org, uid, rl), s))))"

definition guard :: "FleetAction \<Rightarrow> role \<Rightarrow> Fleet \<Rightarrow> denial option \<times> Fleet" where
  "guard a rl s = (if Authorize rl a then (None, s) else (Some Forbidden, finc ''authz_denied'' s))"

text \<open>The routes that change something, with their decoded bodies.\<close>

datatype request =
    PostMember int role
  | DeleteMember string
  | PostSite string string
  | PostDevice string int
  | DeleteDevice string
  | PutSitePolicy string Policy
  | PostUnlock string int
  | PostQueue int string "string list"
  | PostItem string SubmitReq
  | PostItemStatus string string string

fun needs :: "request \<Rightarrow> FleetAction" where
  "needs (PostMember u rl) = ActManageMembers"
| "needs (DeleteMember u) = ActManageMembers"
| "needs (PostSite n tz) = ActManageMembers"
| "needs (PostDevice sn site) = ActAttachDevice"
| "needs (DeleteDevice sn) = ActAttachDevice"
| "needs (PutSitePolicy site p) = ActEditSchedule"
| "needs (PostUnlock sn m) = ActUnlock"
| "needs (PostQueue site n sns) = ActManageQueue"
| "needs (PostItem q r) = ActSubmit"
| "needs (PostItemStatus i to reason) = (if to = ''canceled'' then ActSubmit else ActApprove)"

record Env =
  EFlt :: "string \<Rightarrow> bool"
  ETz :: tzdb
  ENow :: time
  ENewID :: string
  EActor :: string
  EUnlockTTL :: duration

definition on_queue :: "('e \<times> ClassQ) \<Rightarrow> Fleet \<Rightarrow> 'e \<times> Fleet" where
  "on_queue r s = (case r of (e, c) \<Rightarrow> (e, s\<lparr>queue_part := c\<rparr>))"

fun handler :: "Env \<Rightarrow> int \<Rightarrow> int \<Rightarrow> role \<Rightarrow> request \<Rightarrow> Fleet \<Rightarrow> Fleet" where
  "handler e org uid rl (PostMember u r) s = snd (AddMember (EFlt e) org u r s)"
| "handler e org uid rl (DeleteMember u) s =
     (case parseID u of None \<Rightarrow> s | Some i \<Rightarrow> snd (RemoveMember (EFlt e ''remove'') org i s))"
| "handler e org uid rl (PostSite n tz) s = snd (CreateSite (EFlt e) (ETz e) org n tz s)"
| "handler e org uid rl (PostDevice sn site) s = snd (Attach (EFlt e) org uid (EActor e) sn site s)"
| "handler e org uid rl (DeleteDevice sn) s = snd (DetachDevice (EFlt e ''detach'') org sn s)"
| "handler e org uid rl (PutSitePolicy site p) s =
     (case parseID site of None \<Rightarrow> s | Some i \<Rightarrow> snd (PutPolicy (EFlt e) (ETz e) org i p (EActor e) s))"
| "handler e org uid rl (PostUnlock sn m) s = snd (Unlock (EFlt e) (EUnlockTTL e) (ENow e) org (EActor e) sn m s)"
| "handler e org uid rl (PostQueue site n sns) s = snd (CreateQueue (EFlt e) org site n sns s)"
| "handler e org uid rl (PostItem q r) s =
     (case parseID q of None \<Rightarrow> s | Some i \<Rightarrow> snd (on_queue (Submit (EFlt e) (ENow e) (ENewID e) org i uid r (queue_part s)) s))"
| "handler e org uid rl (PostItemStatus i to reason) s =
     snd (on_queue (SetItemStatus (EFlt e) id (ENow e) org rl i to uid (EActor e) reason (queue_part s)) s)"

definition serve :: "Env \<Rightarrow> string \<Rightarrow> string \<Rightarrow> string \<Rightarrow> request \<Rightarrow> Fleet \<Rightarrow> Fleet" where
  "serve e userHeader orgHeader path r s =
     (case tenantMW (EFlt e ''role'') userHeader orgHeader path s of
        (Inl _, s1) \<Rightarrow> s1
      | (Inr (org, uid, rl), s1) \<Rightarrow>
          (case guard (needs r) rl s1 of
             (Some _, s2) \<Rightarrow> s2
           | (None, s2) \<Rightarrow> handler e org uid rl r s2))"

end
