(* ===== verification/FleetLock.thy ===== *)
theory FleetLock
  imports FleetOrg "HOL-Library.AList"
begin

text \<open>
  The lock of a device: a round of the reconciliation settles every scheduled device, and a temporary unlock
  survives every round until it expires.
\<close>

subsection \<open>The lock document\<close>

definition lock_wf :: "doc \<Rightarrow> bool" where
  "lock_wf d \<longleftrightarrow> (case map_of d ''lock'' of None \<Rightarrow> True | Some JNull \<Rightarrow> True | Some (JBool b) \<Rightarrow> True | Some v \<Rightarrow> False)"

definition desired_wf :: "Fleet \<Rightarrow> bool" where
  "desired_wf s \<longleftrightarrow> list_all (\<lambda>(sn, v, d). lock_wf d) (desired s)"

definition settled :: "time \<Rightarrow> bool \<Rightarrow> DesiredLock \<Rightarrow> bool" where
  "settled now should dl = (case ExpiresAt dl of Some e \<Rightarrow> now < e | None \<Rightarrow> DLock dl = Some should)"

lemma settled_iff: "fst (ReconcileLock should (DLock dl) (ExpiresAt dl) now) = None \<longleftrightarrow> settled now should dl"
  by (auto simp: ReconcileLock_def settled_def split: option.splits)

definition doc_of :: "string \<Rightarrow> Fleet \<Rightarrow> doc" where
  "doc_of sn s = (case map_of (desired s) sn of None \<Rightarrow> [] | Some (v, d) \<Rightarrow> d)"

lemma GetDesiredLock_doc: "GetDesiredLock sn s = ParseDesiredLock (doc_of sn s)"
  by (simp add: GetDesiredLock_def doc_of_def ParseDesiredLock_def split: option.splits)

lemma desired_wf_doc:
  assumes "desired_wf s"
  shows "lock_wf (doc_of sn s)"
proof (cases "map_of (desired s) sn")
  case None
  then show ?thesis by (simp add: doc_of_def lock_wf_def)
next
  case (Some vd)
  then have "(sn, vd) \<in> set (desired s)" by (rule map_of_SomeD)
  then show ?thesis using assms Some by (auto simp: doc_of_def desired_wf_def list_all_iff split: prod.splits)
qed

lemma doc_of_Merge:
  "map_of (doc_of sn (MergeDesired sn p s)) = map_of (doc_of sn s) ++ map_of p"
  by (auto simp: doc_of_def MergeDesired_def update_conv' merge_conv' split: option.splits prod.splits)

lemma doc_of_Merge_other: "sn' \<noteq> sn \<Longrightarrow> doc_of sn' (MergeDesired sn p s) = doc_of sn' s"
  by (auto simp: doc_of_def MergeDesired_def update_conv' split: option.splits prod.splits)

lemma lock_wf_cong: "map_of d ''lock'' = map_of d' ''lock'' \<Longrightarrow> lock_wf d = lock_wf d'"
  by (simp add: lock_wf_def)

lemma Parse_patch:
  assumes "lock_wf d" "map_of d' = map_of d ++ map_of (patch_doc p)"
  shows "DLock (ParseDesiredLock d') = Some (PLock p)"
    "ExpiresAt (ParseDesiredLock d') = (if PClearExpiry p then None else ExpiresAt (ParseDesiredLock d))"
  using assms
  by (auto simp: ParseDesiredLock_def patch_doc_def lock_wf_def Let_def map_add_def split: option.splits jval.splits)

lemma set_update_subset: "set (AList.update k v xs) \<subseteq> insert (k, v) (set xs)"
  by (induction xs) auto

lemma desired_wf_Merge:
  assumes "desired_wf s" "lock_wf p" "map_of p ''lock'' \<noteq> None"
  shows "desired_wf (MergeDesired sn p s)"
proof -
  have "lock_wf (AList.merge d p)" for d
    using assms(2,3) lock_wf_cong[of "AList.merge d p" p] by (auto simp: merge_conv' map_add_def)
  then show ?thesis
    using assms set_update_subset[of sn _ "desired s"]
    by (fastforce simp: desired_wf_def MergeDesired_def list_all_iff split: option.splits prod.splits)
qed

lemma patch_doc_wf [simp]: "lock_wf (patch_doc p)" "map_of (patch_doc p) ''lock'' \<noteq> None"
  by (simp_all add: lock_wf_def patch_doc_def)

subsection \<open>Two schools\<close>

text \<open>Two schools with a site, a member and a device each; the first has a schedule.\<close>

definition demo_fleet :: Fleet where
  "demo_fleet = \<lparr>
     orgs = [\<lparr>OID = 1, OName = ''North'', OType = ''school'', ORegion = ''US'', OUnlockMax = 240\<rparr>,
             \<lparr>OID = 2, OName = ''South'', OType = ''school'', ORegion = ''US'', OUnlockMax = 240\<rparr>],
     sites = [\<lparr>SiteID = 5, SiteOrg = 1, SiteName = ''lab'', SiteTZ = []\<rparr>, \<lparr>SiteID = 6, SiteOrg = 2, SiteName = ''lab'', SiteTZ = []\<rparr>],
     members = [\<lparr>MOrg = 1, MUser = 10, MRole = ''org_admin'', MRemoved = False\<rparr>,
                \<lparr>MOrg = 2, MUser = 20, MRole = ''teacher'', MRemoved = False\<rparr>],
     bound = [],
     device_orgs = [\<lparr>DSN = ''XT1'', DOrg = 1, DSite = 5, DBy = 10\<rparr>, \<lparr>DSN = ''XT2'', DOrg = 2, DSite = 6, DBy = 20\<rparr>],
     policies = [\<lparr>POrg = 1, PSite = 5, PVersion = 1, PPolicy = demo_policy\<rparr>],
     desired = [], audits = [],
     queue_part = \<lparr>items = [], queues = [], cmetrics = (\<lambda>_. 0), cmds = []\<rparr>,
     fmetrics = (\<lambda>_. 0), next_org = 3, next_site = 7, next_queue = 1\<rparr>"

lemma demo_fleet_tables:
  "map DSN (device_orgs demo_fleet) = [''XT1'', ''XT2'']" "map PSite (policies demo_fleet) = [5]" "desired demo_fleet = []"
  "policies demo_fleet = [\<lparr>POrg = 1, PSite = 5, PVersion = 1, PPolicy = demo_policy\<rparr>]" "SiteSNs 1 5 demo_fleet = [''XT1'']"
  by (simp_all add: demo_fleet_def SiteSNs_def)

subsection \<open>One device, one site, one round\<close>

lemma frame_simps [simp]:
  "policies (MergeDesired sn p s) = policies s" "device_orgs (MergeDesired sn p s) = device_orgs s"
  "policies (audit f org sn a w s) = policies s" "device_orgs (audit f org sn a w s) = device_orgs s"
  "desired (audit f org sn a w s) = desired s"
  "policies (finc k s) = policies s" "device_orgs (finc k s) = device_orgs s" "desired (finc k s) = desired s"
  by (simp_all add: MergeDesired_def audit_def finc_def split: option.splits prod.splits)

lemma doc_of_frame [simp]: "doc_of sn (finc k s) = doc_of sn s" "doc_of sn (audit f org sn' a w s) = doc_of sn s"
  by (simp_all add: doc_of_def)

lemma desired_wf_frame [simp]: "desired_wf (finc k s) = desired_wf s" "desired_wf (audit f org sn a w s) = desired_wf s"
  by (simp_all add: desired_wf_def)

lemma SiteSNs_cong: "device_orgs s = device_orgs s' \<Longrightarrow> SiteSNs org site s = SiteSNs org site s'"
  by (simp add: SiteSNs_def)

text \<open>What every round leaves alone, whatever fails.\<close>

definition same_tables :: "Fleet \<Rightarrow> Fleet \<Rightarrow> bool" where
  "same_tables s s' \<longleftrightarrow> policies s' = policies s \<and> device_orgs s' = device_orgs s"

lemma same_tables_refl [simp]: "same_tables s s" by (simp add: same_tables_def)

lemma same_tables_trans: "same_tables a b \<Longrightarrow> same_tables b c \<Longrightarrow> same_tables a c" by (simp add: same_tables_def)

lemma reconcile_device_frame:
  assumes "reconcile_device flt now org should sn (n, s) = (n', s')"
  shows "same_tables s s'" "sn' \<noteq> sn \<Longrightarrow> doc_of sn' s' = doc_of sn' s" "desired_wf s \<Longrightarrow> desired_wf s'"
    "settled now should (GetDesiredLock sn s) \<Longrightarrow> n' = n \<and> doc_of sn s' = doc_of sn s"
proof -
  show "same_tables s s'" "sn' \<noteq> sn \<Longrightarrow> doc_of sn' s' = doc_of sn' s" "desired_wf s \<Longrightarrow> desired_wf s'"
    using assms
    by (auto simp: reconcile_device_def Let_def same_tables_def doc_of_Merge_other desired_wf_Merge
        split: if_splits option.splits prod.splits)
  show "settled now should (GetDesiredLock sn s) \<Longrightarrow> n' = n \<and> doc_of sn s' = doc_of sn s"
    using assms settled_iff[of should "GetDesiredLock sn s" now]
    by (auto simp: reconcile_device_def Let_def split: if_splits option.splits prod.splits)
qed

lemma reconcile_device_settles:
  assumes "reconcile_device flt now org should sn (n, s) = (n', s')"
    and "\<not> flt ''desired'' sn" "\<not> flt ''merge'' sn" "desired_wf s"
  shows "settled now should (GetDesiredLock sn s')"
proof (cases "fst (ReconcileLock should (DLock (GetDesiredLock sn s)) (ExpiresAt (GetDesiredLock sn s)) now)")
  case None
  then show ?thesis using reconcile_device_frame(4)[OF assms(1)] settled_iff by (simp add: GetDesiredLock_doc)
next
  case (Some p)
  then have s': "map_of (doc_of sn s') = map_of (doc_of sn s) ++ map_of (patch_doc p)"
    using assms(1-3) by (auto simp: reconcile_device_def Let_def doc_of_Merge split: prod.splits)
  note Parse_patch[OF desired_wf_doc[OF assms(4)] s']
  then show ?thesis using Some
    by (auto simp: settled_def GetDesiredLock_doc ReconcileLock_def split: option.splits if_splits)
qed


lemma reconcile_devices_frame:
  "fold (reconcile_device flt now org should) sns (n, s) = (n', s') \<Longrightarrow>
   same_tables s s' \<and> (\<forall>sn. sn \<notin> set sns \<longrightarrow> doc_of sn s' = doc_of sn s) \<and> (desired_wf s \<longrightarrow> desired_wf s')"
proof (induction sns arbitrary: n s)
  case Nil
  then show ?case by simp
next
  case (Cons sn sns)
  obtain n1 s1 where 1: "reconcile_device flt now org should sn (n, s) = (n1, s1)" by (cases "reconcile_device flt now org should sn (n, s)")
  then have "fold (reconcile_device flt now org should) sns (n1, s1) = (n', s')" using Cons.prems by simp
  from Cons.IH[OF this] reconcile_device_frame(1-3)[OF 1] show ?case by (auto intro: same_tables_trans)
qed

lemma reconcile_devices_keep:
  "fold (reconcile_device flt now org should) sns (n, s) = (n', s') \<Longrightarrow> settled now should (GetDesiredLock sn s) \<Longrightarrow>
   doc_of sn s' = doc_of sn s"
proof (induction sns arbitrary: n s)
  case Nil
  then show ?case by simp
next
  case (Cons x sns)
  obtain n1 s1 where 1: "reconcile_device flt now org should x (n, s) = (n1, s1)" by (cases "reconcile_device flt now org should x (n, s)")
  then have 2: "fold (reconcile_device flt now org should) sns (n1, s1) = (n', s')" using Cons.prems by simp
  have "doc_of sn s1 = doc_of sn s"
    using reconcile_device_frame(2,4)[OF 1] Cons.prems(2) by (cases "x = sn") auto
  with Cons.IH[OF 2] Cons.prems(2) show ?case by (simp add: GetDesiredLock_doc)
qed

lemma reconcile_devices_settle:
  "fold (reconcile_device flt now org should) sns (n, s) = (n', s') \<Longrightarrow> desired_wf s \<Longrightarrow>
   \<forall>sn. \<not> flt ''desired'' sn \<and> \<not> flt ''merge'' sn \<Longrightarrow> sn \<in> set sns \<Longrightarrow> settled now should (GetDesiredLock sn s')"
proof (induction sns arbitrary: n s)
  case Nil
  then show ?case by simp
next
  case (Cons x sns)
  obtain n1 s1 where 1: "reconcile_device flt now org should x (n, s) = (n1, s1)" by (cases "reconcile_device flt now org should x (n, s)")
  then have 2: "fold (reconcile_device flt now org should) sns (n1, s1) = (n', s')" using Cons.prems by simp
  show ?case
  proof (cases "sn = x")
    case True
    have "settled now should (GetDesiredLock sn s1)" using reconcile_device_settles[OF 1] Cons.prems True by simp
    then show ?thesis using reconcile_devices_keep[OF 2] by (simp add: GetDesiredLock_doc)
  next
    case False
    then show ?thesis using Cons.IH[OF 2] Cons.prems reconcile_device_frame(3)[OF 1] by simp
  qed
qed

lemma reconcile_devices_idle:
  "\<forall>sn \<in> set sns. settled now should (GetDesiredLock sn s) \<Longrightarrow> fold (reconcile_device flt now org should) sns (n, s) = (n, s)"
proof (induction sns)
  case (Cons sn sns)
  have "fst (ReconcileLock should (DLock (GetDesiredLock sn s)) (ExpiresAt (GetDesiredLock sn s)) now) = None"
    using Cons.prems settled_iff by simp
  then have "reconcile_device flt now org should sn (n, s) = (n, s)"
    by (cases "ReconcileLock should (DLock (GetDesiredLock sn s)) (ExpiresAt (GetDesiredLock sn s)) now")
      (simp add: reconcile_device_def Let_def)
  then show ?case using Cons by simp
qed simp

lemma reconcile_policy_frame:
  assumes "reconcile_policy flt sf tzdb now pr (n, s) = (n', s')"
  shows "same_tables s s'" "sn \<notin> set (SiteSNs (POrg pr) (PSite pr) s) \<Longrightarrow> doc_of sn s' = doc_of sn s"
    "desired_wf s \<Longrightarrow> desired_wf s'"
  using assms reconcile_devices_frame
  by (auto simp: reconcile_policy_def split: if_splits dest!: reconcile_devices_frame)

lemma reconcile_policies_frame:
  "fold (reconcile_policy flt sf tzdb now) prs (n, s) = (n', s') \<Longrightarrow>
   same_tables s s' \<and> (\<forall>sn. (\<forall>pr \<in> set prs. sn \<notin> set (SiteSNs (POrg pr) (PSite pr) s)) \<longrightarrow> doc_of sn s' = doc_of sn s) \<and>
   (desired_wf s \<longrightarrow> desired_wf s')"
proof (induction prs arbitrary: n s)
  case Nil
  then show ?case by simp
next
  case (Cons pr prs)
  obtain n1 s1 where 1: "reconcile_policy flt sf tzdb now pr (n, s) = (n1, s1)" by (cases "reconcile_policy flt sf tzdb now pr (n, s)")
  then have 2: "fold (reconcile_policy flt sf tzdb now) prs (n1, s1) = (n', s')" using Cons.prems by simp
  have same: "SiteSNs org site s1 = SiteSNs org site s" for org site
    using reconcile_policy_frame(1)[OF 1] by (intro SiteSNs_cong) (simp add: same_tables_def)
  from Cons.IH[OF 2] reconcile_policy_frame[OF 1] show ?case by (auto simp: same intro: same_tables_trans)
qed

text \<open>A device stands in one site, a site has one schedule: no device is scheduled twice.\<close>

lemma SiteSNs_unique:
  assumes "distinct (map DSN (device_orgs s))" "sn \<in> set (SiteSNs a x s)" "sn \<in> set (SiteSNs b y s)"
  shows "a = b \<and> x = y"
proof -
  obtain d where d: "d \<in> set (device_orgs s)" "DSN d = sn" "DOrg d = a" "DSite d = x" using assms(2) by (auto simp: SiteSNs_def)
  obtain e where e: "e \<in> set (device_orgs s)" "DSN e = sn" "DOrg e = b" "DSite e = y" using assms(3) by (auto simp: SiteSNs_def)
  have "d = e" using assms(1) d e by (auto simp: distinct_map inj_on_def)
  then show ?thesis using d e by auto
qed

lemma reconcile_policies_settle:
  "fold (reconcile_policy flt (\<lambda>_. False) tzdb now) prs (n, s) = (n', s') \<Longrightarrow> desired_wf s \<Longrightarrow>
   \<forall>sn. \<not> flt ''desired'' sn \<and> \<not> flt ''merge'' sn \<Longrightarrow> distinct (map DSN (device_orgs s)) \<Longrightarrow> distinct (map PSite prs) \<Longrightarrow>
   pr \<in> set prs \<Longrightarrow> sn \<in> set (SiteSNs (POrg pr) (PSite pr) s) \<Longrightarrow>
   settled now (ShouldLock tzdb (PPolicy pr) (now div second)) (GetDesiredLock sn s')"
proof (induction prs arbitrary: n s)
  case Nil
  then show ?case by simp
next
  case (Cons x prs)
  obtain n1 s1 where 1: "reconcile_policy flt (\<lambda>_. False) tzdb now x (n, s) = (n1, s1)"
    by (cases "reconcile_policy flt (\<lambda>_. False) tzdb now x (n, s)")
  then have 2: "fold (reconcile_policy flt (\<lambda>_. False) tzdb now) prs (n1, s1) = (n', s')" using Cons.prems by simp
  have dev: "device_orgs s1 = device_orgs s" using reconcile_policy_frame(1)[OF 1] by (simp add: same_tables_def)
  have same: "SiteSNs org site s1 = SiteSNs org site s" for org site by (rule SiteSNs_cong[OF dev])
  show ?case
  proof (cases "pr = x")
    case True
    have "settled now (ShouldLock tzdb (PPolicy pr) (now div second)) (GetDesiredLock sn s1)"
      using 1 True Cons.prems by (intro reconcile_devices_settle) (auto simp: reconcile_policy_def)
    moreover have "\<forall>q \<in> set prs. sn \<notin> set (SiteSNs (POrg q) (PSite q) s1)"
    proof
      fix q assume q: "q \<in> set prs"
      have "PSite q \<noteq> PSite pr" using Cons.prems(5) q True by (auto simp: image_iff)
      then show "sn \<notin> set (SiteSNs (POrg q) (PSite q) s1)"
        using SiteSNs_unique[OF Cons.prems(4) Cons.prems(7), of "POrg q" "PSite q"] by (auto simp: same)
    qed
    then have "doc_of sn s' = doc_of sn s1" using reconcile_policies_frame[OF 2] by blast
    ultimately show ?thesis by (simp add: GetDesiredLock_doc)
  next
    case False
    then show ?thesis using Cons.IH[OF 2] Cons.prems reconcile_policy_frame(3)[OF 1] by (simp add: same dev)
  qed
qed


lemma reconcile_policies_idle:
  "\<forall>pr \<in> set prs. \<forall>sn \<in> set (SiteSNs (POrg pr) (PSite pr) s).
     settled now (ShouldLock tzdb (PPolicy pr) (now div second)) (GetDesiredLock sn s) \<Longrightarrow>
   fold (reconcile_policy flt sf tzdb now) prs (n, s) = (n, s)"
proof (induction prs)
  case (Cons pr prs)
  have "reconcile_policy flt sf tzdb now pr (n, s) = (n, s)"
    using Cons.prems reconcile_devices_idle by (simp add: reconcile_policy_def)
  then show ?case using Cons by simp
qed simp



subsection \<open>Temporary unlocks\<close>

text \<open>Rounds of the reconciliation at given instants, each with its own faults.\<close>

type_synonym reconcile_round = "bool \<times> (string \<Rightarrow> string \<Rightarrow> bool) \<times> (PolicyRow \<Rightarrow> bool) \<times> time"

definition reconcile_round :: "tzdb \<Rightarrow> reconcile_round \<Rightarrow> Fleet \<Rightarrow> Fleet" where
  "reconcile_round tzdb rd s = (case rd of (fails, flt, sf, now) \<Rightarrow> snd (ReconcileOnce fails flt sf tzdb now s))"

lemma reconcile_policy_keep:
  assumes "reconcile_policy flt sf tzdb now pr (n, s) = (n', s')"
    and "ExpiresAt (GetDesiredLock sn s) = Some e" "now < e"
  shows "doc_of sn s' = doc_of sn s"
  using assms reconcile_devices_keep[of flt now "POrg pr" _ _ n s n' s' sn]
  by (auto simp: reconcile_policy_def settled_def split: if_splits)

lemma reconcile_policies_keep:
  "fold (reconcile_policy flt sf tzdb now) prs (n, s) = (n', s') \<Longrightarrow> ExpiresAt (GetDesiredLock sn s) = Some e \<Longrightarrow> now < e \<Longrightarrow>
   doc_of sn s' = doc_of sn s"
proof (induction prs arbitrary: n s)
  case Nil
  then show ?case by simp
next
  case (Cons pr prs)
  obtain n1 s1 where 1: "reconcile_policy flt sf tzdb now pr (n, s) = (n1, s1)" by (cases "reconcile_policy flt sf tzdb now pr (n, s)")
  then have 2: "fold (reconcile_policy flt sf tzdb now) prs (n1, s1) = (n', s')" using Cons.prems by simp
  show ?case using Cons.IH[OF 2] Cons.prems(2,3) reconcile_policy_keep[OF 1] by (simp add: GetDesiredLock_doc)
qed

lemma reconcile_round_keep:
  assumes "ExpiresAt (GetDesiredLock sn s) = Some e" "snd (snd (snd rd)) < e"
  shows "doc_of sn (reconcile_round tzdb rd s) = doc_of sn s"
proof -
  obtain fails flt sf now where rd: "rd = (fails, flt, sf, now)" by (cases rd)
  obtain n s' where f: "fold (reconcile_policy flt sf tzdb now) (policies s) (0, finc ''reconcile_runs'' s) = (n, s')"
    by (cases "fold (reconcile_policy flt sf tzdb now) (policies s) (0, finc ''reconcile_runs'' s)")
  have "doc_of sn s' = doc_of sn s"
    using reconcile_policies_keep[OF f, of sn e] assms rd by (simp add: GetDesiredLock_doc)
  then show ?thesis using f by (simp add: reconcile_round_def rd ReconcileOnce_def Let_def)
qed

lemma reconcile_rounds_keep:
  "ExpiresAt (GetDesiredLock sn s) = Some e \<Longrightarrow> \<forall>rd \<in> set rds. snd (snd (snd rd)) < e \<Longrightarrow>
   doc_of sn (fold (reconcile_round tzdb) rds s) = doc_of sn s"
proof (induction rds arbitrary: s)
  case (Cons rd rds)
  then have "doc_of sn (reconcile_round tzdb rd s) = doc_of sn s" by (intro reconcile_round_keep) auto
  with Cons show ?case by (simp add: GetDesiredLock_doc)
qed simp

lemma Unlock_doc:
  assumes "Unlock flt dflt now org who sn m s = (Inr expires, s1)"
  shows "DLock (GetDesiredLock sn s1) = Some False \<and> ExpiresAt (GetDesiredLock sn s1) = Some (expires div second * second)"
proof -
  have "map_of (doc_of sn s1) = map_of (doc_of sn s) ++ map_of [(''lock'', JBool False), (''lock_expires_at'', JTime (expires div second))]"
    using assms by (auto simp: Unlock_def Let_def doc_of_Merge split: sum.splits if_splits)
  then show ?thesis by (simp add: GetDesiredLock_doc ParseDesiredLock_def Let_def)
qed

text \<open>
  Temporary unlock. After a successful unlock the device's document stays unlocked through any
  number of reconciliation rounds before the instant written, whatever the schedule says and whatever
  fails. That instant is the returned one cut to the second, and the returned one is no later than the
  organisation's maximum from now, when the row of the organisation is readable and sets one.
\<close>

theorem unlock_holds:
  assumes "Unlock flt dflt now org who sn m s = (Inr expires, s1)"
    and "\<forall>rd \<in> set rds. snd (snd (snd rd)) < expires div second * second"
  shows "DLock (GetDesiredLock sn (fold (reconcile_round tzdb) rds s1)) = Some False \<and>
         (\<forall>row. \<not> flt ''org'' \<and> find (\<lambda>x. OID x = org) (orgs s) = Some row \<and> OUnlockMax row > 0 \<longrightarrow>
            expires \<le> now + OUnlockMax row * minute)"
proof
  show "DLock (GetDesiredLock sn (fold (reconcile_round tzdb) rds s1)) = Some False"
    using Unlock_doc[OF assms(1)] reconcile_rounds_keep[of sn s1 _ rds tzdb] assms(2) by (simp add: GetDesiredLock_doc)
  show "\<forall>row. \<not> flt ''org'' \<and> find (\<lambda>x. OID x = org) (orgs s) = Some row \<and> OUnlockMax row > 0 \<longrightarrow>
      expires \<le> now + OUnlockMax row * minute"
    using assms(1) by (auto simp: Unlock_def Let_def unlock_ttl_def split: sum.splits if_splits)
qed


theorem unlock_holds_witness:
  "\<exists>s1. Unlock (\<lambda>_. False) minute 0 1 ''user:10'' ''XT1'' 5 demo_fleet = (Inr (5 * minute), s1) \<and>
     DLock (GetDesiredLock ''XT1'' (fold (reconcile_round (\<lambda>_. None)) [(False, \<lambda>_ _. False, \<lambda>_. False, 4 * minute)] s1)) = Some False"
proof -
  have "fst (Unlock (\<lambda>_. False) minute 0 1 ''user:10'' ''XT1'' 5 demo_fleet) = Inr (5 * minute)"
    by (simp add: Unlock_def GetDevice_def demo_fleet_def unlock_ttl_def int64_def Let_def)
  then obtain s1 where s1: "Unlock (\<lambda>_. False) minute 0 1 ''user:10'' ''XT1'' 5 demo_fleet = (Inr (5 * minute), s1)"
    by (cases "Unlock (\<lambda>_. False) minute 0 1 ''user:10'' ''XT1'' 5 demo_fleet") simp
  show ?thesis
    using s1 unlock_holds[OF s1, of "[(False, \<lambda>_ _. False, \<lambda>_. False, 4 * minute)]" "\<lambda>_. None"] by simp
qed

end
