(* ===== verification/FleetTenant.thy ===== *)
theory FleetTenant
  imports FleetLock
begin

text \<open>
  What the organisation services promise each other: the keys of the tables and the ownership of rows are invariant, a
  request touches only the organisation of its path and needs an active membership with the right role, and only
  staff approve items.
\<close>

subsection \<open>Isolation of the organisations\<close>

text \<open>Everything that does not belong to \<open>org\<close> is the same in both states.\<close>

definition foreign_same :: "int \<Rightarrow> Fleet \<Rightarrow> Fleet \<Rightarrow> bool" where
  "foreign_same org s s' \<longleftrightarrow>
     orgs s' = orgs s \<and>
     filter (\<lambda>x. SiteOrg x \<noteq> org) (sites s') = filter (\<lambda>x. SiteOrg x \<noteq> org) (sites s) \<and>
     filter (\<lambda>m. MOrg m \<noteq> org) (members s') = filter (\<lambda>m. MOrg m \<noteq> org) (members s) \<and>
     filter (\<lambda>d. DOrg d \<noteq> org) (device_orgs s') = filter (\<lambda>d. DOrg d \<noteq> org) (device_orgs s) \<and>
     filter (\<lambda>r. POrg r \<noteq> org) (policies s') = filter (\<lambda>r. POrg r \<noteq> org) (policies s) \<and>
     filter (\<lambda>a. AOrg a \<noteq> org) (audits s') = filter (\<lambda>a. AOrg a \<noteq> org) (audits s) \<and>
     filter (\<lambda>q. QOrg q \<noteq> org) (queues (queue_part s')) = filter (\<lambda>q. QOrg q \<noteq> org) (queues (queue_part s)) \<and>
     filter (\<lambda>r. OrgID r \<noteq> org) (items (queue_part s')) = filter (\<lambda>r. OrgID r \<noteq> org) (items (queue_part s)) \<and>
     cmds (queue_part s') = cmds (queue_part s) \<and>
     (\<forall>sn. (\<forall>d \<in> set (device_orgs s). DSN d = sn \<longrightarrow> DOrg d \<noteq> org) \<longrightarrow> doc_of sn s' = doc_of sn s)"

lemma foreign_same_refl [simp]: "foreign_same org s s"
  by (simp add: foreign_same_def)

lemma foreign_same_metrics [simp]: "foreign_same org s (finc k s') = foreign_same org s s'"
  by (simp add: foreign_same_def finc_def doc_of_def)

lemma foreign_same_audit [simp]: "foreign_same org s (audit f org sn a w s') = foreign_same org s s'"
  by (simp add: foreign_same_def audit_def doc_of_def)

lemma filter_update_where_keyed:
  "(\<And>r. r \<in> set rows \<Longrightarrow> P r \<Longrightarrow> \<not> Q r \<and> \<not> Q (f r)) \<Longrightarrow> filter Q (update_where P f rows) = filter Q rows"
  by (induction rows) auto

lemma find_unique:
  assumes "distinct (map key rows)" "find (\<lambda>r. key r = k) rows = Some x" "r \<in> set rows" "key r = k"
  shows "r = x"
  using assms by (induction rows) (auto simp: find_Some_iff image_iff split: if_splits dest: nth_mem)

lemma AddMember_foreign: "foreign_same org s (snd (AddMember flt org u rl s))"
  by (auto simp: foreign_same_def AddMember_def StoreAddMember_def Let_def doc_of_def
      intro!: filter_update_where_keyed)

lemma RemoveMember_foreign: "foreign_same org s (snd (RemoveMember f org u s))"
  by (auto simp: foreign_same_def RemoveMember_def Let_def doc_of_def intro!: filter_update_where_keyed)

lemma CreateSite_foreign: "foreign_same org s (snd (CreateSite flt tzdb org n tz s))"
  by (auto simp: foreign_same_def CreateSite_def Let_def doc_of_def)

lemma DetachDevice_foreign: "foreign_same org s (snd (DetachDevice f org sn s))"
  by (auto simp: foreign_same_def DetachDevice_def doc_of_def intro!: filter_cong)

lemma AttachDevice_foreign:
  assumes "distinct (map DSN (device_orgs s))" "DOrg d = org"
  shows "foreign_same org s (snd (AttachDevice f d s))"
proof (cases "find (\<lambda>x. DSN x = DSN d) (device_orgs s)")
  case None
  then show ?thesis using assms(2) by (simp add: foreign_same_def AttachDevice_def doc_of_def)
next
  case (Some x)
  have "r \<in> set (device_orgs s) \<Longrightarrow> DSN r = DSN d \<Longrightarrow> r = x" for r
    using find_unique[OF assms(1) Some] by blast
  then show ?thesis using assms(2) Some
    by (auto simp: foreign_same_def AttachDevice_def doc_of_def intro!: filter_update_where_keyed)
qed

lemma Attach_foreign:
  assumes "distinct (map DSN (device_orgs s))"
  shows "foreign_same org s (snd (Attach flt org who nm sn site s))"
  using AttachDevice_foreign[OF assms, of "\<lparr>DSN = sn, DOrg = org, DSite = site, DBy = who\<rparr>" org "flt ''attach''"]
  by (auto simp: Attach_def Let_def split: sum.splits fleet_error.splits prod.splits option.splits)

lemma UpsertPolicy_foreign:
  assumes "distinct (map PSite (policies s))"
  shows "foreign_same org s (snd (UpsertPolicy f org site p s))"
proof (cases "find (\<lambda>r. PSite r = site) (policies s)")
  case None
  then show ?thesis by (simp add: foreign_same_def UpsertPolicy_def doc_of_def)
next
  case (Some x)
  have "r \<in> set (policies s) \<Longrightarrow> PSite r = site \<Longrightarrow> r = x" for r
    using find_unique[OF assms(1) Some] by blast
  then show ?thesis using Some
    by (auto simp: foreign_same_def UpsertPolicy_def doc_of_def intro!: filter_update_where_keyed)
qed

lemma PutPolicy_foreign:
  assumes "distinct (map PSite (policies s))"
  shows "foreign_same org s (snd (PutPolicy flt tzdb org site p nm s))"
  using UpsertPolicy_foreign[OF assms, of org "flt ''policy''" site p]
  by (auto simp: PutPolicy_def split: sum.splits prod.splits)

lemma MergeDesired_foreign:
  assumes "d \<in> set (device_orgs s)" "DOrg d = org" "DSN d = sn"
  shows "foreign_same org s (MergeDesired sn p s)"
proof -
  have "doc_of sn' (MergeDesired sn p s) = doc_of sn' s" if "\<forall>d \<in> set (device_orgs s). DSN d = sn' \<longrightarrow> DOrg d \<noteq> org" for sn'
    using that assms by (intro doc_of_Merge_other) auto
  moreover have "orgs (MergeDesired sn p s) = orgs s" "sites (MergeDesired sn p s) = sites s" "members (MergeDesired sn p s) = members s"
    "audits (MergeDesired sn p s) = audits s" "queue_part (MergeDesired sn p s) = queue_part s"
    by (simp_all add: MergeDesired_def split: option.splits prod.splits)
  ultimately show ?thesis by (simp add: foreign_same_def)
qed

lemma Unlock_foreign: "foreign_same org s (snd (Unlock flt dflt now org nm sn m s))"
proof -
  have "\<exists>d \<in> set (device_orgs s). DOrg d = org \<and> DSN d = sn" if "GetDevice f org sn s = Inr x" for f x
    using that by (auto simp: GetDevice_def find_Some_iff split: if_splits option.splits)
  then show ?thesis by (fastforce simp: Unlock_def Let_def MergeDesired_foreign split: sum.splits)
qed

lemma CreateQueue_foreign: "foreign_same org s (snd (CreateQueue flt org site n sns s))"
  by (auto simp: foreign_same_def CreateQueue_def Let_def doc_of_def split: sum.splits)

lemma queue_part_foreign:
  assumes "filter (\<lambda>q. QOrg q \<noteq> org) (queues c) = filter (\<lambda>q. QOrg q \<noteq> org) (queues (queue_part s))"
    "filter (\<lambda>r. OrgID r \<noteq> org) (items c) = filter (\<lambda>r. OrgID r \<noteq> org) (items (queue_part s))"
    "cmds c = cmds (queue_part s)"
  shows "foreign_same org s (s\<lparr>queue_part := c\<rparr>)"
  using assms by (simp add: foreign_same_def doc_of_def)

lemma Submit_foreign: "foreign_same org s (snd (on_queue (Submit flt now i org q u r (queue_part s)) s))"
  by (auto simp: on_queue_def Submit_def InsertItem_def new_item_def split: sum.splits prod.splits option.splits if_splits
      intro!: queue_part_foreign)

lemma update_item_foreign:
  "update_item i (\<lambda>r. OrgID r = org \<and> G r) f rows = (a, rows') \<Longrightarrow> (\<And>r. OrgID (f r) = OrgID r) \<Longrightarrow>
   filter (\<lambda>r. OrgID r \<noteq> org) rows' = filter (\<lambda>r. OrgID r \<noteq> org) rows"
  by (auto simp: update_item_def Let_def split: if_splits intro!: filter_update_where_keyed)

lemma SetStatus_foreign:
  "SetStatus f now org i st to nm reason rows = (a, rows') \<Longrightarrow>
   filter (\<lambda>r. OrgID r \<noteq> org) rows' = filter (\<lambda>r. OrgID r \<noteq> org) rows"
  by (auto simp: SetStatus_def set_status_row_def split: if_splits prod.splits answer.splits dest!: update_item_foreign)

lemma SetItemStatus_foreign:
  "foreign_same org s (snd (on_queue (SetItemStatus flt id now org rl i to who nm reason (queue_part s)) s))"
  by (auto simp: on_queue_def SetItemStatus_def split: sum.splits prod.splits option.splits if_splits
      intro!: queue_part_foreign dest: SetStatus_foreign)

lemma handler_foreign:
  assumes "distinct (map DSN (device_orgs s))" "distinct (map PSite (policies s))"
  shows "foreign_same org s (handler e org uid rl r s)"
  by (cases r) (simp_all add: AddMember_foreign RemoveMember_foreign CreateSite_foreign Attach_foreign[OF assms(1)]
      DetachDevice_foreign PutPolicy_foreign[OF assms(2)] Unlock_foreign CreateQueue_foreign Submit_foreign
      SetItemStatus_foreign split: option.splits)


lemma tenantMW_passes:
  assumes "tenantMW f uh oh path s = (Inr (org, uid, rl), s1)"
  shows "s1 = s \<and> parseID uh = Some uid \<and> parseID path = Some org \<and> (trimSpace oh = [] \<or> parseID (trimSpace oh) = Some org) \<and>
    (\<exists>m \<in> set (members s). MOrg m = org \<and> MUser m = uid \<and> MRole m = rl \<and> \<not> MRemoved m)"
  using assms
  by (auto simp: tenantMW_def GetRole_def Let_def find_Some_iff split: option.splits if_splits sum.splits)

lemma tenantMW_denies: "tenantMW f uh oh path s = (Inl d, s1) \<Longrightarrow> s1 = s \<or> s1 = finc ''authz_notfound'' s"
  by (auto simp: tenantMW_def Let_def split: option.splits if_splits sum.splits)

lemma serve_isolated:
  assumes "distinct (map DSN (device_orgs s))" "distinct (map PSite (policies s))"
  shows "(\<exists>k. serve e uh oh path r s = finc k s) \<or> serve e uh oh path r s = s \<or>
    (\<exists>org uid rl. parseID path = Some org \<and> parseID uh = Some uid \<and>
       (trimSpace oh = [] \<or> parseID (trimSpace oh) = Some org) \<and>
       (\<exists>m \<in> set (members s). MOrg m = org \<and> MUser m = uid \<and> MRole m = rl \<and> \<not> MRemoved m) \<and>
       Authorize rl (needs r) \<and> serve e uh oh path r s = handler e org uid rl r s \<and>
       foreign_same org s (serve e uh oh path r s))"
proof (cases "tenantMW (EFlt e ''role'') uh oh path s")
  case (Pair a s1)
  show ?thesis
  proof (cases a)
    case (Inl d)
    have "serve e uh oh path r s = s1" using Pair Inl by (simp add: serve_def)
    with tenantMW_denies[OF Pair[unfolded Inl]] show ?thesis by blast
  next
    case (Inr x)
    obtain org uid rl where x: "x = (org, uid, rl)" by (cases x)
    note pass = tenantMW_passes[OF Pair[unfolded Inr x]]
    show ?thesis
    proof (cases "Authorize rl (needs r)")
      case True
      then have "serve e uh oh path r s = handler e org uid rl r s"
        using Pair Inr x pass by (simp add: serve_def guard_def)
      then show ?thesis using pass True handler_foreign[OF assms, of org e uid rl r] by auto
    next
      case False
      then have "serve e uh oh path r s = finc ''authz_denied'' s"
        using Pair Inr x pass by (simp add: serve_def guard_def)
      then show ?thesis by blast
    qed
  qed
qed

subsection \<open>The tables\<close>

definition active_members :: "Fleet \<Rightarrow> (int \<times> int) list" where
  "active_members s = map (\<lambda>m. (MOrg m, MUser m)) (filter (\<lambda>m. \<not> MRemoved m) (members s))"

definition site_of :: "Fleet \<Rightarrow> int \<Rightarrow> int \<Rightarrow> bool" where
  "site_of s org site \<longleftrightarrow> (\<exists>x \<in> set (sites s). SiteID x = site \<and> SiteOrg x = org)"

definition fleet_inv :: "Fleet \<Rightarrow> bool" where
  "fleet_inv s \<longleftrightarrow>
     distinct (map DSN (device_orgs s)) \<and> distinct (map PSite (policies s)) \<and> distinct (active_members s) \<and>
     (\<forall>m \<in> set (members s). ValidRole (MRole m) \<and> MOrg m < next_org s) \<and>
     distinct (map OID (orgs s)) \<and> (\<forall>x \<in> set (orgs s). OID x < next_org s) \<and>
     distinct (map SiteID (sites s)) \<and> (\<forall>x \<in> set (sites s). SiteID x < next_site s) \<and>
     (\<forall>d \<in> set (device_orgs s). site_of s (DOrg d) (DSite d)) \<and>
     (\<forall>r \<in> set (policies s). site_of s (POrg r) (PSite r)) \<and>
     (\<forall>q \<in> set (queues (queue_part s)). site_of s (QOrg q) (QSite q))"

lemma finc_inv [simp]: "fleet_inv (finc k s) = fleet_inv s"
  by (simp add: fleet_inv_def active_members_def site_of_def finc_def)

lemma audit_inv [simp]: "fleet_inv (audit f org sn a w s) = fleet_inv s"
  by (simp add: fleet_inv_def active_members_def site_of_def audit_def)

lemma MergeDesired_inv [simp]: "fleet_inv s \<Longrightarrow> fleet_inv (MergeDesired sn p s)"
  by (simp add: fleet_inv_def active_members_def site_of_def MergeDesired_def split: option.splits prod.splits)

lemma GetSite_site_of: "GetSite f org site s = Inr x \<Longrightarrow> site_of s org site"
  by (auto simp: GetSite_def site_of_def find_Some_iff split: if_splits option.splits dest: nth_mem)


lemma active_members_update:
  "(\<And>m. MOrg (f m) = MOrg m \<and> MUser (f m) = MUser m \<and> MRemoved (f m) = MRemoved m) \<Longrightarrow>
   map (\<lambda>m. (MOrg m, MUser m)) (filter (\<lambda>m. \<not> MRemoved m) (update_where P f ms)) =
   map (\<lambda>m. (MOrg m, MUser m)) (filter (\<lambda>m. \<not> MRemoved m) ms)"
  by (induction ms) auto

lemma active_members_remove:
  "distinct (map (\<lambda>m. (MOrg m, MUser m)) (filter (\<lambda>m. \<not> MRemoved m) ms)) \<Longrightarrow>
   distinct (map (\<lambda>m. (MOrg m, MUser m)) (filter (\<lambda>m. \<not> MRemoved m) (update_where P (\<lambda>m. m\<lparr>MRemoved := True\<rparr>) ms)))"
  by (induction ms) (auto simp: update_where_def image_iff split: if_splits)

lemma members_inv:
  "fleet_inv s \<Longrightarrow> \<forall>m \<in> set ms. ValidRole (MRole m) \<and> MOrg m < next_org s \<Longrightarrow>
   distinct (map (\<lambda>m. (MOrg m, MUser m)) (filter (\<lambda>m. \<not> MRemoved m) ms)) \<Longrightarrow> fleet_inv (s\<lparr>members := ms\<rparr>)"
  by (simp add: fleet_inv_def active_members_def site_of_def)

lemma fleet_inv_members:
  "fleet_inv s \<Longrightarrow> m \<in> set (members s) \<Longrightarrow> ValidRole (MRole m) \<and> MOrg m < next_org s"
  "fleet_inv s \<Longrightarrow> distinct (map (\<lambda>m. (MOrg m, MUser m)) (filter (\<lambda>m. \<not> MRemoved m) (members s)))"
  by (simp_all add: fleet_inv_def active_members_def)

lemma active_members_add:
  "distinct (map (\<lambda>m. (MOrg m, MUser m)) (filter (\<lambda>m. \<not> MRemoved m) ms)) \<Longrightarrow>
   \<not> list_ex (\<lambda>m. MOrg m = org \<and> MUser m = u \<and> \<not> MRemoved m) ms \<Longrightarrow>
   distinct (map (\<lambda>m. (MOrg m, MUser m))
     (filter (\<lambda>m. \<not> MRemoved m) (ms @ [\<lparr>MOrg = org, MUser = u, MRole = rl, MRemoved = False\<rparr>])))"
  by (auto simp: list_ex_iff)

lemma AddMember_inv:
  assumes "fleet_inv s" "org < next_org s"
  shows "fleet_inv (snd (AddMember flt org u rl s))"
proof (cases "ValidRole rl")
  case True
  let ?P = "\<lambda>m. MOrg m = org \<and> MUser m = u \<and> \<not> MRemoved m"
  let ?ms = "update_where ?P (\<lambda>m. m\<lparr>MRole := rl\<rparr>) (members s)"
  let ?m = "\<lparr>MOrg = org, MUser = u, MRole = rl, MRemoved = False\<rparr>"
  have r: "\<forall>m \<in> set ?ms. ValidRole (MRole m) \<and> MOrg m < next_org s"
    unfolding ball_update_where using fleet_inv_members(1)[OF assms(1)] True by auto
  have d: "distinct (map (\<lambda>m. (MOrg m, MUser m)) (filter (\<lambda>m. \<not> MRemoved m) ?ms))"
    using fleet_inv_members(2)[OF assms(1)] by (subst active_members_update) simp_all
  have 1: "fleet_inv (s\<lparr>members := ?ms\<rparr>)" by (rule members_inv[OF assms(1) r d])
  have 2: "fleet_inv (s\<lparr>members := ?ms @ [?m]\<rparr>)" if "\<not> list_ex ?P ?ms"
  proof (rule members_inv[OF assms(1)])
    show "\<forall>m \<in> set (?ms @ [?m]). ValidRole (MRole m) \<and> MOrg m < next_org s" using r True assms(2) by simp
    show "distinct (map (\<lambda>m. (MOrg m, MUser m)) (filter (\<lambda>m. \<not> MRemoved m) (?ms @ [?m])))"
      by (rule active_members_add[OF d that])
  qed
  have "fleet_inv (snd (StoreAddMember flt org u rl s))"
    using 1 2 assms by (simp only: StoreAddMember_def Let_def split: if_split) simp
  then show ?thesis using assms by (simp add: AddMember_def)
next
  case False
  then show ?thesis using assms by (simp add: AddMember_def)
qed

lemma RemoveMember_inv:
  assumes "fleet_inv s"
  shows "fleet_inv (snd (RemoveMember f org u s))"
proof -
  let ?P = "\<lambda>m. MOrg m = org \<and> MUser m = u \<and> \<not> MRemoved m"
  have "fleet_inv (s\<lparr>members := update_where ?P (\<lambda>m. m\<lparr>MRemoved := True\<rparr>) (members s)\<rparr>)"
    using fleet_inv_members[OF assms] by (intro members_inv[OF assms] active_members_remove) (auto simp: ball_update_where)
  then show ?thesis using assms by (simp add: RemoveMember_def Let_def)
qed

lemma CreateSite_inv: "fleet_inv s \<Longrightarrow> fleet_inv (snd (CreateSite flt tzdb org n tz s))"
  unfolding fleet_inv_def CreateSite_def
  by (auto simp: active_members_def site_of_def Let_def)

lemma DetachDevice_inv: "fleet_inv s \<Longrightarrow> fleet_inv (snd (DetachDevice f org sn s))"
  unfolding fleet_inv_def DetachDevice_def
  by (auto simp: active_members_def site_of_def distinct_map inj_on_def)

lemma AttachDevice_inv:
  assumes "fleet_inv s" "site_of s (DOrg d) (DSite d)"
  shows "fleet_inv (snd (AttachDevice f d s))"
proof (cases "find (\<lambda>x. DSN x = DSN d) (device_orgs s)")
  case None
  then have "DSN d \<notin> DSN ` set (device_orgs s)" by (auto simp: find_None_iff)
  then show ?thesis using assms None unfolding fleet_inv_def AttachDevice_def
    by (simp add: active_members_def site_of_def)
next
  case (Some x)
  have "distinct (map DSN (device_orgs s))" using assms(1) by (simp add: fleet_inv_def)
  then have eq: "r \<in> set (device_orgs s) \<Longrightarrow> DSN r = DSN d \<Longrightarrow> r = x" for r
    using find_unique[OF _ Some] by blast
  show ?thesis
  proof (cases "f \<or> DOrg x \<noteq> DOrg d")
    case True
    then show ?thesis using assms(1) Some by (auto simp: AttachDevice_def)
  next
    case False
    let ?ds = "update_where (\<lambda>x. DSN x = DSN d) (\<lambda>x. x\<lparr>DSite := DSite d, DBy := DBy d\<rparr>) (device_orgs s)"
    have "map DSN ?ds = map DSN (device_orgs s)" by (rule map_update_where_frame) simp
    moreover have "\<forall>r \<in> set ?ds. site_of s (DOrg r) (DSite r)"
      unfolding ball_update_where using assms eq False by (auto simp: fleet_inv_def)
    ultimately show ?thesis using assms(1) Some False unfolding fleet_inv_def AttachDevice_def
      by (simp add: active_members_def site_of_def)
  qed
qed

lemma Attach_inv:
  assumes "fleet_inv s"
  shows "fleet_inv (snd (Attach flt org who nm sn site s))"
  using AttachDevice_inv[OF assms, of "\<lparr>DSN = sn, DOrg = org, DSite = site, DBy = who\<rparr>" "flt ''attach''"] assms
  by (auto simp: Attach_def Let_def split: sum.splits fleet_error.splits prod.splits option.splits dest: GetSite_site_of)

lemma UpsertPolicy_inv:
  assumes "fleet_inv s" "site_of s org site"
  shows "fleet_inv (snd (UpsertPolicy f org site p s))"
proof (cases "find (\<lambda>r. PSite r = site) (policies s)")
  case None
  then have "site \<notin> PSite ` set (policies s)" by (auto simp: find_None_iff)
  then show ?thesis using assms None unfolding fleet_inv_def UpsertPolicy_def
    by (simp add: active_members_def site_of_def)
next
  case (Some x)
  let ?ps = "update_where (\<lambda>r. PSite r = site) (\<lambda>r. r\<lparr>PVersion := PVersion r + 1, PPolicy := p\<rparr>) (policies s)"
  have "map PSite ?ps = map PSite (policies s)" by (rule map_update_where_frame) simp
  moreover have "\<forall>r \<in> set ?ps. site_of s (POrg r) (PSite r)"
    unfolding ball_update_where using assms(1) by (auto simp: fleet_inv_def)
  ultimately show ?thesis using assms(1) Some unfolding fleet_inv_def UpsertPolicy_def
    by (simp add: active_members_def site_of_def)
qed

lemma PutPolicy_inv: "fleet_inv s \<Longrightarrow> fleet_inv (snd (PutPolicy flt tzdb org site p nm s))"
  using UpsertPolicy_inv[of s org site "flt ''policy''" p]
  by (auto simp: PutPolicy_def split: sum.splits prod.splits dest: GetSite_site_of)

lemma Unlock_inv: "fleet_inv s \<Longrightarrow> fleet_inv (snd (Unlock flt dflt now org nm sn m s))"
  by (simp add: Unlock_def Let_def split: sum.splits)

lemma CreateQueue_inv: "fleet_inv s \<Longrightarrow> fleet_inv (snd (CreateQueue flt org site n sns s))"
  unfolding CreateQueue_def
  by (auto simp: fleet_inv_def active_members_def site_of_def Let_def dest!: GetSite_site_of[unfolded site_of_def]
      split: sum.splits)

lemma on_queue_inv:
  "fleet_inv s \<Longrightarrow> queues (snd r) = queues (queue_part s) \<Longrightarrow> fleet_inv (snd (on_queue r s))"
  by (auto simp: on_queue_def fleet_inv_def active_members_def site_of_def split: prod.splits)

lemma Submit_queues: "queues (snd (Submit flt now i org q u r c)) = queues c"
  by (auto simp: Submit_def InsertItem_def split: sum.splits prod.splits option.splits if_splits)

lemma SetItemStatus_queues: "queues (snd (SetItemStatus flt f now org rl i to who nm reason c)) = queues c"
  by (auto simp: SetItemStatus_def split: sum.splits prod.splits option.splits)

lemma handler_inv: "fleet_inv s \<Longrightarrow> org < next_org s \<Longrightarrow> fleet_inv (handler e org uid rl r s)"
  by (cases r) (simp_all add: AddMember_inv RemoveMember_inv CreateSite_inv Attach_inv DetachDevice_inv PutPolicy_inv
      Unlock_inv CreateQueue_inv on_queue_inv Submit_queues SetItemStatus_queues split: option.splits)


subsection \<open>Reachable states\<close>

text \<open>
  The service runs on an empty database: organisations are created by the internal route, the tenant routes serve
  requests, the background loops run their rounds.
\<close>

inductive fleet_step :: "Fleet \<Rightarrow> Fleet \<Rightarrow> bool" where
  new_org: "fleet_step s (snd (CreateOrg flt n kind rg u s))"
| request: "fleet_step s (serve e uh oh path r s)"
| reconcile: "fleet_step s (reconcile_round tzdb rd s)"
| dispatch: "fleet_step s (s\<lparr>queue_part := snd (DispatchOnce f w now (queue_part s))\<rparr>)"
| expire: "fleet_step s (s\<lparr>queue_part := snd (ExpireOnce f a d now (queue_part s))\<rparr>)"

definition empty_fleet :: "string list \<Rightarrow> Fleet" where
  "empty_fleet personal = \<lparr>orgs = [], sites = [], members = [], bound = personal, device_orgs = [], policies = [], desired = [],
     audits = [], queue_part = \<lparr>items = [], queues = [], cmetrics = (\<lambda>_. 0), cmds = []\<rparr>, fmetrics = (\<lambda>_. 0),
     next_org = 1, next_site = 1, next_queue = 1\<rparr>"

definition fleet_reach :: "Fleet \<Rightarrow> bool" where
  "fleet_reach s \<longleftrightarrow> (\<exists>personal. fleet_step\<^sup>*\<^sup>* (empty_fleet personal) s)"

lemma serve_inv:
  assumes "fleet_inv s"
  shows "fleet_inv (serve e uh oh path r s)"
proof -
  have "distinct (map DSN (device_orgs s))" "distinct (map PSite (policies s))" using assms by (simp_all add: fleet_inv_def)
  from serve_isolated[OF this, of e uh oh path r] assms show ?thesis
    by (elim disjE exE conjE bexE) (auto intro: handler_inv dest: fleet_inv_members(1))
qed

lemma new_org_inv:
  assumes "fleet_inv s" "OID x = next_org s"
  shows "fleet_inv (s\<lparr>orgs := orgs s @ [x], next_org := next_org s + 1\<rparr>)"
proof -
  have "OID x \<notin> OID ` set (orgs s)" using assms by (auto simp: fleet_inv_def)
  moreover have "\<forall>m \<in> set (members s). ValidRole (MRole m) \<and> MOrg m < next_org s + 1"
    using fleet_inv_members(1)[OF assms(1)] by fastforce
  ultimately show ?thesis using assms
    by (simp add: fleet_inv_def active_members_def site_of_def) fastforce
qed

lemma CreateOrg_inv:
  assumes "fleet_inv s"
  shows "fleet_inv (snd (CreateOrg flt n kind rg u s))"
proof -
  let ?x = "\<lambda>nm r kd. \<lparr>OID = next_org s, OName = nm, OType = kd, ORegion = r, OUnlockMax = 240\<rparr>"
  let ?m = "\<lparr>MOrg = next_org s, MUser = u, MRole = ''org_admin'', MRemoved = False\<rparr>"
  have 1: "fleet_inv (s\<lparr>orgs := orgs s @ [?x nm r kd], next_org := next_org s + 1\<rparr>)" for nm r kd
    by (rule new_org_inv[OF assms]) simp
  have "\<not> list_ex (\<lambda>m. MOrg m = next_org s \<and> MUser m = u \<and> \<not> MRemoved m) (members s)"
    using fleet_inv_members(1)[OF assms] by (fastforce simp: list_ex_iff)
  note d = active_members_add[OF fleet_inv_members(2)[OF assms] this, of "''org_admin''"]
  have "fleet_inv (s\<lparr>orgs := orgs s @ [?x nm r kd], next_org := next_org s + 1\<rparr>\<lparr>members := members s @ [?m]\<rparr>)" for nm r kd
    using fleet_inv_members(1)[OF 1[of nm r kd]] d by (intro members_inv[OF 1]) (auto simp: ValidRole_def)
  then have "fleet_inv (s\<lparr>orgs := orgs s @ [?x nm r kd], next_org := next_org s + 1, members := members s @ [?m]\<rparr>)" for nm r kd
    by (simp add: fleet_inv_def active_members_def site_of_def)
  then show ?thesis using assms by (auto simp: CreateOrg_def StoreCreateOrg_def Let_def)
qed


lemma reconcile_device_inv:
  "fleet_inv (snd ns) \<Longrightarrow> fleet_inv (snd (reconcile_device flt now org should sn ns))"
  by (cases ns) (simp add: reconcile_device_def Let_def split: option.splits prod.splits)

lemma reconcile_policy_inv:
  "fleet_inv (snd ns) \<Longrightarrow> fleet_inv (snd (reconcile_policy flt sf tzdb now pr ns))"
proof -
  have "fleet_inv (snd ns) \<Longrightarrow> fleet_inv (snd (fold (reconcile_device flt now org should) sns ns))" for org should sns
    by (induction sns arbitrary: ns) (simp_all add: reconcile_device_inv)
  then show "fleet_inv (snd ns) \<Longrightarrow> ?thesis" by (simp add: reconcile_policy_def)
qed

lemma reconcile_round_inv:
  assumes "fleet_inv s"
  shows "fleet_inv (reconcile_round tzdb rd s)"
proof -
  have "fleet_inv (snd ns) \<Longrightarrow> fleet_inv (snd (fold (reconcile_policy flt sf tzdb now) prs ns))" for flt sf now prs ns
    by (induction prs arbitrary: ns) (simp_all add: reconcile_policy_inv)
  from this[of "(0, finc ''reconcile_runs'' s)"] assms show ?thesis
    by (auto simp: reconcile_round_def ReconcileOnce_def Let_def split: prod.splits) (metis snd_conv)
qed

lemma dispatchQueue_queues: "queues (snd (dispatchQueue w now q c)) = queues c"
  by (auto simp: dispatchQueue_def after_call_def cinc_def Let_def split: option.splits prod.splits sum.splits bool.splits)

lemma dispatch_queues_queues: "queues (snd (dispatch_queues w now qs n c)) = queues c"
proof (induction qs arbitrary: n c)
  case (Cons q qs)
  have "queues c' = queues c" if "dispatchQueue (w q) now q c = (a, c')" for a c'
    using dispatchQueue_queues[of "w q" now q c] that by simp
  then show ?case using Cons.IH by (auto split: prod.splits sum.splits bool.splits)
qed simp

lemma loops_queues:
  "queues (snd (DispatchOnce f w now c)) = queues c" "queues (snd (ExpireOnce g a d now c)) = queues c"
  using dispatch_queues_queues[of w now "queues c" 0 c]
  by (auto simp: DispatchOnce_def ExpireOnce_def split: prod.splits sum.splits)

lemma queue_part_inv: "fleet_inv s \<Longrightarrow> queues c = queues (queue_part s) \<Longrightarrow> fleet_inv (s\<lparr>queue_part := c\<rparr>)"
  by (simp add: fleet_inv_def active_members_def site_of_def)

lemma fleet_step_inv: "fleet_step s s' \<Longrightarrow> fleet_inv s \<Longrightarrow> fleet_inv s'"
  by (induction rule: fleet_step.induct)
    (simp_all add: CreateOrg_inv serve_inv reconcile_round_inv queue_part_inv loops_queues)

lemma reach_fleet_inv:
  assumes "fleet_reach s"
  shows "fleet_inv s"
proof -
  have "fleet_step\<^sup>*\<^sup>* a s \<Longrightarrow> fleet_inv a \<Longrightarrow> fleet_inv s" for a
    by (induction rule: rtranclp_induct) (auto intro: fleet_step_inv)
  moreover have "fleet_inv (empty_fleet p)" for p by (simp add: fleet_inv_def empty_fleet_def active_members_def)
  ultimately show ?thesis using assms by (auto simp: fleet_reach_def)
qed


text \<open>
  In every reachable state the tables of the organisations are sound: a device is attached to
  one organisation at most, a user has at most one active membership per organisation and every role is one
  the matrix knows, a site has one schedule, and every device, schedule and queue stands in a site of its
  own organisation.
\<close>

theorem tables_sound:
  assumes "fleet_reach s"
  shows "distinct (map DSN (device_orgs s)) \<and> distinct (active_members s) \<and> (\<forall>m \<in> set (members s). ValidRole (MRole m)) \<and>
    distinct (map PSite (policies s)) \<and> (\<forall>d \<in> set (device_orgs s). site_of s (DOrg d) (DSite d)) \<and>
    (\<forall>p \<in> set (policies s). site_of s (POrg p) (PSite p)) \<and> (\<forall>q \<in> set (queues (queue_part s)). site_of s (QOrg q) (QSite q))"
  using reach_fleet_inv[OF assms] by (auto simp: fleet_inv_def)


definition demo_env :: Env where
  "demo_env = \<lparr>EFlt = (\<lambda>_. False), ETz = (\<lambda>_. Some UTC), ENow = 0, ENewID = ''i1'', EActor = ''user:20'', EUnlockTTL = minute\<rparr>"

definition two_orgs :: Fleet where
  "two_orgs =
     snd (CreateOrg (\<lambda>_. False) ''South'' ''school'' [] 20 (snd (CreateOrg (\<lambda>_. False) ''North'' ''school'' [] 10 (empty_fleet []))))"

lemma two_orgs_reach: "fleet_reach two_orgs"
  unfolding fleet_reach_def two_orgs_def
  by (rule exI, rule rtranclp.rtrancl_into_rtrancl, rule r_into_rtranclp, rule new_org, rule new_org)

lemma two_orgs_members:
  "members two_orgs = [\<lparr>MOrg = 1, MUser = 10, MRole = ''org_admin'', MRemoved = False\<rparr>,
     \<lparr>MOrg = 2, MUser = 20, MRole = ''org_admin'', MRemoved = False\<rparr>]"
  by code_simp

theorem tables_sound_witness: "distinct (active_members two_orgs) \<and> active_members two_orgs = [(1, 10), (2, 20)]"
  using tables_sound[OF two_orgs_reach] by (simp add: active_members_def two_orgs_members)


subsection \<open>Approval\<close>

lemma update_item_rows: "update_item i G f rows = (a, rows') \<Longrightarrow> r \<in> set rows' \<Longrightarrow> r \<in> set rows \<or> (\<exists>q \<in> set rows. r = f q)"
  by (auto simp: update_item_def Let_def set_update_where split: if_splits)

lemma SetItemStatus_rows:
  "SetItemStatus flt id now org rl i to who nm reason c = (a, c') \<Longrightarrow> r \<in> set (items c') \<Longrightarrow> r \<in> set (items c) \<or> Status r = to"
  by (auto simp: SetItemStatus_def SetStatus_def set_status_row_def split: sum.splits prod.splits option.splits if_splits answer.splits
      dest!: update_item_rows)

lemma Submit_adds:
  "Submit flt now i org q u rq c = (a, c') \<Longrightarrow> r \<in> set (items c') \<Longrightarrow> r \<in> set (items c) \<or> Status r = ''submitted''"
  by (auto simp: Submit_def InsertItem_def new_item_def split: sum.splits prod.splits option.splits if_splits)

lemma queue_frame [simp]:
  "queue_part (snd (AddMember flt org u rl s)) = queue_part s" "queue_part (snd (RemoveMember f org u s)) = queue_part s"
  "queue_part (snd (CreateSite flt tzdb org n tz s)) = queue_part s" "queue_part (snd (DetachDevice f org sn s)) = queue_part s"
  "queue_part (snd (Attach flt org who nm sn site s)) = queue_part s" "queue_part (snd (PutPolicy flt tzdb org site p nm s)) = queue_part s"
  "queue_part (snd (Unlock flt dflt now org nm sn m s)) = queue_part s"
  by (auto simp: AddMember_def StoreAddMember_def RemoveMember_def CreateSite_def DetachDevice_def Attach_def AttachDevice_def
      PutPolicy_def UpsertPolicy_def Unlock_def MergeDesired_def audit_def finc_def Let_def
      split: sum.splits fleet_error.splits prod.splits option.splits)

lemma CreateQueue_items [simp]: "items (queue_part (snd (CreateQueue flt org site n sns s))) = items (queue_part s)"
  by (auto simp: CreateQueue_def Let_def split: sum.splits)

lemma handler_approves:
  assumes "x \<in> set (items (queue_part (handler e org uid rl r s)))" "Status x = ''approved''" "x \<notin> set (items (queue_part s))"
  shows "needs r = ActApprove"
proof (cases r)
  case (PostItem q rq)
  then show ?thesis using assms Submit_adds by (fastforce simp: on_queue_def split: option.splits prod.splits)
next
  case (PostItemStatus i to reason)
  then have "Status x = to" using assms SetItemStatus_rows by (fastforce simp: on_queue_def split: prod.splits)
  then have "to = ''approved''" using assms(2) by simp
  then show ?thesis using PostItemStatus by simp
qed (use assms in \<open>simp_all split: option.splits\<close>)

lemma foreign_same_items:
  "foreign_same org s s' \<Longrightarrow> x \<in> set (items (queue_part s')) \<Longrightarrow> x \<notin> set (items (queue_part s)) \<Longrightarrow> OrgID x = org"
  unfolding foreign_same_def by (metis (mono_tags, lifting) mem_Collect_eq set_filter)

text \<open>
  Only staff approve. If a request leaves an item approved in a version of its row that was not there before, the
  caller is an active teacher or administrator of the item's organisation; no student's request can do it.
\<close>

theorem approval_needs_staff:
  assumes "fleet_reach s" "x \<in> set (items (queue_part (serve e uh oh path r s)))"
    and "Status x = ''approved''" "x \<notin> set (items (queue_part s))"
  shows "\<exists>m \<in> set (members s). parseID uh = Some (MUser m) \<and> MOrg m = OrgID x \<and> \<not> MRemoved m \<and>
    (MRole m = ''org_admin'' \<or> MRole m = ''teacher'')"
proof -
  have d: "distinct (map DSN (device_orgs s))" "distinct (map PSite (policies s))"
    using reach_fleet_inv[OF assms(1)] by (simp_all add: fleet_inv_def)
  have ne: "serve e uh oh path r s \<noteq> finc k s" "serve e uh oh path r s \<noteq> s" for k
    using assms(2,4) by (auto simp: finc_def)
  from serve_isolated[OF d, of e uh oh path r] ne obtain org uid rl m where
    1: "parseID uh = Some uid" "m \<in> set (members s)" "MOrg m = org" "MUser m = uid" "MRole m = rl" "\<not> MRemoved m"
      "Authorize rl (needs r)" "serve e uh oh path r s = handler e org uid rl r s" "foreign_same org s (serve e uh oh path r s)"
    by blast
  have "needs r = ActApprove" using handler_approves assms(2-4) 1(8) by metis
  then have "rl = ''org_admin'' \<or> rl = ''teacher''" using 1(7) by (auto simp: Authorize_def matrix_def split: if_splits)
  moreover have "OrgID x = org" using foreign_same_items[OF 1(9) assms(2,4)] .
  ultimately show ?thesis using 1 by blast
qed

definition item_requests :: "request list" where
  "item_requests = [PostSite ''lab'' ''UTC'', PostQueue 1 ''q'' [],
     PostItem ''1'' \<lparr>SSHA = replicate 64 (CHR ''a''), SURL = [], SMaterial = [], SProfile = [], SEst = 0\<rparr>]"

lemma item_requests_reach: "fleet_reach (fold (serve demo_env ''20'' [] ''2'') item_requests two_orgs)"
proof -
  have "fleet_reach s \<Longrightarrow> fleet_reach (fold (serve demo_env ''20'' [] ''2'') rs s)" for s rs
  proof (induction rs arbitrary: s)
    case (Cons r rs)
    then have "fleet_reach (serve demo_env ''20'' [] ''2'' r s)"
      unfolding fleet_reach_def by (blast intro: rtranclp.rtrancl_into_rtrancl request)
    then show ?case using Cons.IH by simp
  qed simp
  then show ?thesis using two_orgs_reach by blast
qed

theorem approval_needs_staff_witness:
  "\<exists>(x::Item) m. Status x = ''approved'' \<and> m \<in> set (members (fold (serve demo_env ''20'' [] ''2'') item_requests two_orgs)) \<and>
     MUser m = 20 \<and> MOrg m = OrgID x \<and> (MRole m = ''org_admin'' \<or> MRole m = ''teacher'')"
proof -
  let ?s = "fold (serve demo_env ''20'' [] ''2'') item_requests two_orgs"
  let ?r = "PostItemStatus ''i1'' ''approved'' []"
  have "map Status (items (queue_part ?s)) = [''submitted'']"
    "map Status (items (queue_part (serve demo_env ''20'' [] ''2'' ?r ?s))) = [''approved'']" by code_simp+
  then obtain y x where y: "items (queue_part ?s) = [y]" "Status y = ''submitted''"
    and x: "items (queue_part (serve demo_env ''20'' [] ''2'' ?r ?s)) = [x]" "Status x = ''approved''"
    by (auto simp: map_eq_Cons_conv)
  have id20: "parseID ''20'' = Some 20" by code_simp
  have "x \<in> set (items (queue_part (serve demo_env ''20'' [] ''2'' ?r ?s)))" "x \<notin> set (items (queue_part ?s))"
    unfolding x(1) y(1) using x(2) y(2) by auto
  from approval_needs_staff[OF item_requests_reach this(1) x(2) this(2)] obtain m where
    m: "m \<in> set (members ?s)" "parseID ''20'' = Some (MUser m)" "MOrg m = OrgID x"
      "MRole m = ''org_admin'' \<or> MRole m = ''teacher''" by blast
  have u: "MUser m = 20" using m(2) unfolding id20 option.inject by (rule sym)
  show ?thesis by (rule exI[of _ x], rule exI[of _ m], intro conjI x(2) m u)
qed

text \<open>
  What isolation does not give: the devices of a new queue are stored unchecked. A teacher of the second
  school names the first school's device, submits and approves an item, and the next round of the scheduler sends the job to
  that device.
\<close>

definition foreign_requests :: "request list" where
  "foreign_requests = [PostQueue 6 ''q'' [''XT1''],
     PostItem ''1'' \<lparr>SSHA = replicate 64 (CHR ''a''), SURL = [], SMaterial = [], SProfile = [], SEst = 0\<rparr>,
     PostItemStatus ''i1'' ''approved'' []]"

definition idle_outside :: Outside where
  "idle_outside = \<lparr>shadows = (\<lambda>_. Some [(''work_state'', ''0'')]), token = ''t1'', JobStart = Some ''c1'', faults = (\<lambda>_. False),
     before_claim = id, during_call = id, MaxRetry = 3\<rparr>"

theorem foreign_device_dispatched:
  "map (\<lambda>d. (DSN d, DOrg d)) (device_orgs demo_fleet) = [(''XT1'', 1), (''XT2'', 2)] \<and>
   cmds (snd (DispatchOnce False (\<lambda>_. idle_outside) 0
     (queue_part (fold (serve demo_env ''20'' [] ''2'') foreign_requests demo_fleet)))) = [(''i1'', ''XT1'', True)]"
  by code_simp

end
