(* ===== verification/FleetOta.thy ===== *)
theory FleetOta
  imports FleetTenant OtaSafety MaintWindow Topics "HOL-Library.List_Lexorder" "HOL-Library.Char_ord"
begin

text \<open>
  Firmware batches of an organisation, \<open>internal/fleet/ota.go\<close>, composed with the OTA service they are created in
  (\<open>Ota\<close>, the handler behind \<open>POST /api/v1/ota/batches\<close>). The two services share no code: the window and the request
  travel as JSON. The call may not arrive, and its answer may be lost.
\<close>

subsection \<open>Windows\<close>

text \<open>\<open>OTAWindow\<close> has the shape of the OTA service's window; \<open>validHHMM\<close> and the checks are written a second time.\<close>

type_synonym OTAWindow = MaintWindow

definition EmptyWindow :: "OTAWindow \<Rightarrow> bool" where
  "EmptyWindow w \<longleftrightarrow> trimSpace (WStart w) = [] \<and> trimSpace (WEnd w) = []"

definition validHHMM :: "string \<Rightarrow> bool" where
  "validHHMM s \<longleftrightarrow>
     (if length s \<noteq> 5 \<or> s ! 2 \<noteq> CHR '':'' then False
      else if \<not> list_all (\<lambda>i. is_digit (s ! i)) [0, 1, 3, 4] then False
      else let h = decimal (take 2 s); m = decimal (take 2 (drop 3 s)) in h \<le> 23 \<and> m \<le> 59)"

definition ValidateWindow :: "tzdb \<Rightarrow> OTAWindow \<Rightarrow> bool" where
  "ValidateWindow tzdb w =
     (let start = trimSpace (WStart w); fin = trimSpace (WEnd w); tz = trimSpace (WTZ w) in
      if (start = []) \<noteq> (fin = []) then False
      else if start \<noteq> [] \<and> \<not> validHHMM start then False
      else if start \<noteq> [] \<and> \<not> validHHMM fin then False
      else if list_ex (\<lambda>d. d < 0 \<or> d > 6) (Weekdays w) then False
      else if tz \<noteq> [] \<and> tzdb tz = None then False
      else True)"

lemma validHHMM_parse: "trimSpace s = s \<Longrightarrow> validHHMM s \<longleftrightarrow> parseHHMM s \<noteq> None"
  by (auto simp: validHHMM_def parseHHMM_def Let_def)

lemma parseHHMM_Nil [simp]: "parseHHMM [] = None"
  by (simp add: parseHHMM_def trimSpace_def)

text \<open>The window travels in the policy unless it says nothing.\<close>

definition window_policy :: "OTAWindow \<Rightarrow> policy" where
  "window_policy w = PolicyWindow (if \<not> EmptyWindow w \<or> Weekdays w \<noteq> [] then Some w else None)"

lemma accepted_parses:
  assumes "ValidateWindow tzdb w"
  shows "ParseWindow tzdb (PolicyWindow (Some w)) =
    Inr (w\<lparr>WStart := trimSpace (WStart w), WEnd := trimSpace (WEnd w), WTZ := trimSpace (WTZ w)\<rparr>)"
  using assms validHHMM_parse[of "trimSpace (WStart w)"] validHHMM_parse[of "trimSpace (WEnd w)"]
  by (auto simp: ValidateWindow_def ParseWindow_def Validate_window_def validateRest_def Empty_def Let_def list_ex_iff
      split: if_splits)

lemma parsed_accepted: "ParseWindow tzdb (PolicyWindow (Some w)) = Inr w' \<Longrightarrow> ValidateWindow tzdb w"
  using validHHMM_parse[of "trimSpace (WStart w)"] validHHMM_parse[of "trimSpace (WEnd w)"]
  by (auto simp: ValidateWindow_def ParseWindow_def Validate_window_def validateRest_def Empty_def Let_def list_ex_iff
      split: if_splits option.splits)

text \<open>
  The two services agree on windows, though each has its own check: the fleet service accepts
  a window exactly if the OTA service does, so that no batch of an organisation is refused for its window.
\<close>

theorem window_checks_agree:
  "ValidateWindow tzdb w \<longleftrightarrow> (\<exists>w'. ParseWindow tzdb (PolicyWindow (Some w)) = Inr w')"
  using accepted_parses parsed_accepted by blast

text \<open>
  A window of weekdays without times is accepted by both and restricts nothing: the dispatcher takes it for the empty
  window on every day of the week.
\<close>

theorem weekdays_alone_ignored:
  "ValidateWindow tzdb (no_window\<lparr>Weekdays := [1]\<rparr>) \<and> window_policy (no_window\<lparr>Weekdays := [1]\<rparr>) = PolicyWindow (Some (no_window\<lparr>Weekdays := [1]\<rparr>)) \<and>
   (\<forall>now. InWindow tzdb (no_window\<lparr>Weekdays := [1]\<rparr>) now)"
  by (simp add: ValidateWindow_def no_window_def trimSpace_def window_policy_def InWindow_def Empty_def EmptyWindow_def)

subsection \<open>The parent batch\<close>

abbreviation MinOrgStagePct :: rat where "MinOrgStagePct \<equiv> 10"

definition ParentEligible :: "string \<Rightarrow> string \<Rightarrow> bool" where
  "ParentEligible stage status =
     (if status = ''fused'' then False
      else case ParseFloat (trimSpace stage) of None \<Rightarrow> False | Some pct \<Rightarrow> pct \<ge> MinOrgStagePct)"

record PlatformBatch =
  PBId :: int
  PBStage :: string
  PBStatus :: string

definition LatestPlatformBatch :: "bool \<Rightarrow> int \<Rightarrow> Db \<Rightarrow> fleet_error + PlatformBatch" where
  "LatestPlatformBatch failing fw db =
     (if failing then Inl StoreError
      else let bs = platform_batches db fw in
        if bs = [] then Inl fleet_error.ErrNotFound
        else Inr \<lparr>PBId = bid (last bs), PBStage = bstage (last bs), PBStatus = bstatus (last bs)\<rparr>)"

subsection \<open>The devices\<close>

record OrgOTAReq =
  OFirmwareID :: int
  SNs :: "string list"
  SiteIDs :: "int list"
  OWindow :: OTAWindow

definition OrgSNSet :: "int \<Rightarrow> string list \<Rightarrow> Fleet \<Rightarrow> string set" where
  "OrgSNSet org sns s = set (map DSN (filter (\<lambda>d. DOrg d = org \<and> DSN d \<in> set sns) (device_orgs s)))"

fun add_sites :: "(string \<Rightarrow> bool) \<Rightarrow> int \<Rightarrow> int list \<Rightarrow> string list \<Rightarrow> Fleet \<Rightarrow> fleet_error + string list" where
  "add_sites flt org [] acc s = Inr acc"
| "add_sites flt org (site # ss) acc s =
     (case GetSite (flt ''site'') org site s of
        Inl e \<Rightarrow> Inl e
      | Inr _ \<Rightarrow>
          if flt ''site sns'' then Inl StoreError
          else add_sites flt org ss (acc @ SiteSNs org site s) s)"

definition resolveOrgSNs :: "(string \<Rightarrow> bool) \<Rightarrow> int \<Rightarrow> OrgOTAReq \<Rightarrow> Fleet \<Rightarrow> fleet_error + string list" where
  "resolveOrgSNs flt org req s =
     (let owned = OrgSNSet org (SNs req) s in
      if SNs req \<noteq> [] \<and> flt ''sn set'' then Inl StoreError
      else if list_ex (\<lambda>sn. sn \<notin> owned) (SNs req) then Inl ErrDenied
      else case add_sites flt org (SiteIDs req) (SNs req) s of
        Inl e \<Rightarrow> Inl e
      | Inr sns \<Rightarrow> if sns = [] then Inl fleet_error.ErrBadParam else Inr (sort (remdups sns)))"

subsection \<open>Creating the batch\<close>

type_synonym OrgOTABatch = "int \<times> int \<times> OTAWindow option \<times> int"

record OrgOta =
  OFleet :: Fleet
  OService :: Service
  Ledger :: "OrgOTABatch list"

record OrgOTAResp =
  RBatch :: int
  RParent :: int
  RStage :: string
  RStatus :: string
  RTotal :: int
  RequestedSNs :: nat

definition omet :: "string \<Rightarrow> OrgOta \<Rightarrow> OrgOta" where
  "omet k st = st\<lparr>OFleet := finc k (OFleet st)\<rparr>"

definition InsertOrgOTABatch :: "bool \<Rightarrow> OrgOTABatch \<Rightarrow> OrgOTABatch list \<Rightarrow> OrgOTABatch list" where
  "InsertOrgOTABatch failing b rows =
     (case b of (org, i, w, who) \<Rightarrow>
        if failing \<or> list_ex (\<lambda>(o1, j, _). o1 = org \<and> j = i) rows then rows
        else rows @ [(org, i, (case w of None \<Rightarrow> None | Some x \<Rightarrow> if EmptyWindow x then None else Some x), who)])"

text \<open>The answer of the OTA service by HTTP status: 403, 409, 400 and 404, 500.\<close>

fun otaErrFor :: "ota_error \<Rightarrow> fleet_error" where
  "otaErrFor ErrNeedsApproval = ErrDenied"
| "otaErrFor ota_error.ErrConflict = fleet_error.ErrConflict"
| "otaErrFor ota_error.ErrBadParam = fleet_error.ErrBadParam"
| "otaErrFor ota_error.ErrNotFound = fleet_error.ErrBadParam"
| "otaErrFor DbError = StoreError"

datatype delivery = NotSent | AnswerLost | Answered

text \<open>
  What the call meets: the faults of the OTA service, what happens to the call, and what others do to the service between
  the check of the parent batch and the call.
\<close>

record Call =
  CFaults :: Faults
  CDelivery :: delivery
  CMeanwhile :: "Service \<Rightarrow> Service"

definition sub_request :: "int \<Rightarrow> string \<Rightarrow> int \<Rightarrow> OrgOTAReq \<Rightarrow> string list \<Rightarrow> BatchReq" where
  "sub_request org who parent req sns =
     \<lparr>FirmwareID = OFirmwareID req, Stage = [], CreatedBy = ''org:'' @ itoa_nat (nat org) @ '':'' @ who, ApprovedBy = [],
      FailRatioFuse = None, ExplicitSNs = sns, ParentBatchID = Some parent, ReqPolicy = window_policy (OWindow req)\<rparr>"

definition CallCreateBatch ::
  "Call \<Rightarrow> tzdb \<Rightarrow> (string \<Rightarrow> byte list) \<Rightarrow> time \<Rightarrow> BatchReq \<Rightarrow> Service \<Rightarrow> (fleet_error + Batch) \<times> Service" where
  "CallCreateBatch call tzdb md5 now r svc =
     (case CDelivery call of
        NotSent \<Rightarrow> (Inl StoreError, svc)
      | AnswerLost \<Rightarrow> (Inl StoreError, snd (CreateBatch (CFaults call) tzdb md5 now r svc))
      | Answered \<Rightarrow>
          (case CreateBatch (CFaults call) tzdb md5 now r svc of
             (Inl e, svc') \<Rightarrow> (Inl (otaErrFor e), svc')
           | (Inr b, svc') \<Rightarrow> (if bid b = 0 then Inl StoreError else Inr b, svc')))"

definition CreateOrgOTABatch ::
  "(string \<Rightarrow> bool) \<Rightarrow> Call \<Rightarrow> tzdb \<Rightarrow> (string \<Rightarrow> byte list) \<Rightarrow> time \<Rightarrow> int \<Rightarrow> int \<Rightarrow> string \<Rightarrow> OrgOTAReq \<Rightarrow>
   OrgOta \<Rightarrow> (fleet_error + OrgOTAResp) \<times> OrgOta" where
  "CreateOrgOTABatch flt call tzdb md5 now org actor who req st =
     (if OFirmwareID req \<le> 0 then (Inl fleet_error.ErrBadParam, st)
      else if \<not> ValidateWindow tzdb (OWindow req) then (Inl fleet_error.ErrBadParam, omet ''ota_window_rejected'' st)
      else case resolveOrgSNs flt org req (OFleet st) of
        Inl e \<Rightarrow> (Inl e, st)
      | Inr sns \<Rightarrow>
          (case LatestPlatformBatch (flt ''parent'') (OFirmwareID req) (DB (OService st)) of
             Inl e \<Rightarrow> (Inl (if e = fleet_error.ErrNotFound then fleet_error.ErrConflict else e), st)
           | Inr parent \<Rightarrow>
               if \<not> ParentEligible (PBStage parent) (PBStatus parent) then (Inl fleet_error.ErrConflict, st)
               else (case CallCreateBatch call tzdb md5 now (sub_request org who (PBId parent) req sns)
                            (CMeanwhile call (OService st)) of
                  (Inl e, svc) \<Rightarrow> (Inl e, st\<lparr>OService := svc\<rparr>)
                | (Inr b, svc) \<Rightarrow>
                    (let w = (if \<not> EmptyWindow (OWindow req) \<or> Weekdays (OWindow req) \<noteq> [] then Some (OWindow req) else None);
                         st1 = st\<lparr>OService := svc, Ledger := InsertOrgOTABatch (flt ''ledger'') (org, bid b, w, actor) (Ledger st)\<rparr>
                     in (Inr \<lparr>RBatch = bid b, RParent = PBId parent, RStage = bstage b, RStatus = bstatus b,
                               RTotal = target_total b, RequestedSNs = length sns\<rparr>,
                         omet ''ota_batches_created'' st1)))))"


subsection \<open>Which devices, which stage\<close>

lemma add_sites_owned:
  "add_sites flt org ss acc s = Inr sns \<Longrightarrow> \<forall>sn \<in> set acc. \<exists>d \<in> set (device_orgs s). DSN d = sn \<and> DOrg d = org \<Longrightarrow>
   \<forall>sn \<in> set sns. \<exists>d \<in> set (device_orgs s). DSN d = sn \<and> DOrg d = org"
proof (induction ss arbitrary: acc)
  case (Cons site ss)
  from Cons.prems(1) have "add_sites flt org ss (acc @ SiteSNs org site s) s = Inr sns"
    by (auto split: sum.splits if_splits)
  then show ?case by (rule Cons.IH) (use Cons.prems(2) in \<open>auto simp: SiteSNs_def\<close>)
qed simp

lemma resolve_owned:
  assumes "resolveOrgSNs flt org req s = Inr sns"
  shows "sns \<noteq> []" "sn \<in> set sns \<Longrightarrow> \<exists>d \<in> set (device_orgs s). DSN d = sn \<and> DOrg d = org"
proof -
  from assms obtain xs where xs: "add_sites flt org (SiteIDs req) (SNs req) s = Inr xs" "xs \<noteq> []" "sns = sort (remdups xs)"
    and own: "\<not> list_ex (\<lambda>sn. sn \<notin> OrgSNSet org (SNs req) s) (SNs req)"
    by (auto simp: resolveOrgSNs_def Let_def split: if_splits sum.splits)
  show "sns \<noteq> []" using xs(2,3) by (metis set_empty set_remdups set_sort)
  have "\<forall>sn \<in> set (SNs req). \<exists>d \<in> set (device_orgs s). DSN d = sn \<and> DOrg d = org"
    using own by (auto simp: list_ex_iff OrgSNSet_def)
  from add_sites_owned[OF xs(1) this] show "sn \<in> set sns \<Longrightarrow> \<exists>d \<in> set (device_orgs s). DSN d = sn \<and> DOrg d = org"
    using xs(3) by simp
qed

lemma dedup_subset: "set (dedupSNs sns) \<subseteq> set sns"
proof -
  have "set (dedup_from seen sns) \<subseteq> set sns" for seen by (induction sns arbitrary: seen) auto
  then show ?thesis by (simp add: dedupSNs_def)
qed

lemma insert_tasks_app:
  "\<exists>ts. tasks (insert_tasks now i sns db) = tasks db @ ts \<and> (\<forall>t \<in> set ts. tsn t \<in> set sns)"
proof (induction sns arbitrary: db)
  case (Cons sn sns)
  obtain ts where "tasks (insert_tasks now i sns (insert_task now i sn db)) = tasks (insert_task now i sn db) @ ts"
    "\<forall>t \<in> set ts. tsn t \<in> set sns" using Cons.IH by blast
  then show ?case by (auto simp: insert_tasks_Cons insert_task_def)
qed (simp add: insert_tasks_def)

lemma CreateBatch_tasks:
  assumes "CreateBatch flt tzdb md5 now r s = (x, s')" "ExplicitSNs r \<noteq> []"
  shows "\<exists>ts. tasks (DB s') = tasks (DB s) @ ts \<and> (\<forall>t \<in> set ts. tsn t \<in> set (ExplicitSNs r))"
proof -
  have ins: "\<exists>ts. tasks (DB u) = tasks (DB s) @ ts \<and> (\<forall>t \<in> set ts. tsn t \<in> set (ExplicitSNs r))"
    if i: "insert_batch flt md5 now r fw stage approver f pct s = (y, u)" for fw stage approver f pct y u
  proof -
    let ?b = "add_batch (new_batch (next_batch (DB s)) r stage approver f) (DB s)"
    let ?ts = "batch_targets md5 r fw pct ?b"
    have sub: "set ?ts \<subseteq> set (ExplicitSNs r)"
      using assms(2) dedup_subset by (auto simp: batch_targets_def existingSNs_def)
    have "DB u = DB s \<or> DB u = fill_batch now (next_batch (DB s)) ?ts ?b"
      using i by (auto simp: insert_batch_def Let_def tx_end_def split: if_splits prod.splits bool.splits)
    moreover have "\<exists>ts. tasks (fill_batch now (next_batch (DB s)) ?ts ?b) = tasks (DB s) @ ts \<and> (\<forall>t \<in> set ts. tsn t \<in> set ?ts)"
      using insert_tasks_app[of now "next_batch (DB s)" ?ts ?b] by (simp add: fill_batch_def Let_def add_batch_def)
    ultimately show ?thesis using sub by fastforce
  qed
  from assms(1) show ?thesis
    by (auto simp: CreateBatch_def CreateBatch_from_def split: if_splits sum.splits option.splits prod.splits dest!: ins)
qed

lemma CallCreateBatch_tasks:
  assumes "CallCreateBatch call tzdb md5 now r s = (x, s')" "ExplicitSNs r \<noteq> []"
  shows "\<exists>ts. tasks (DB s') = tasks (DB s) @ ts \<and> (\<forall>t \<in> set ts. tsn t \<in> set (ExplicitSNs r))"
proof -
  obtain y u where c: "CreateBatch (CFaults call) tzdb md5 now r s = (y, u)" by fastforce
  have "s' = s \<or> s' = u" using assms(1) c by (auto simp: CallCreateBatch_def split: delivery.splits sum.splits prod.splits)
  then show ?thesis using CreateBatch_tasks[OF c assms(2)] by auto
qed

text \<open>
  An organisation's batch reaches its own devices only. Whatever the call to the OTA service meets, and whether the answer
  comes back or not, the tasks it adds there are for devices attached to that organisation.
\<close>

theorem org_batch_own_devices:
  assumes "CreateOrgOTABatch flt call tzdb md5 now org actor who req st = (r, st')"
  shows "\<exists>s0 ts. s0 \<in> {OService st, CMeanwhile call (OService st)} \<and> tasks (DB (OService st')) = tasks (DB s0) @ ts \<and>
    (\<forall>t \<in> set ts. \<exists>d \<in> set (device_orgs (OFleet st)). DSN d = tsn t \<and> DOrg d = org)"
proof -
  have "OService st' = OService st \<or> (\<exists>sns pid x. resolveOrgSNs flt org req (OFleet st) = Inr sns \<and>
     CallCreateBatch call tzdb md5 now (sub_request org who pid req sns) (CMeanwhile call (OService st)) = (x, OService st'))"
    using assms by (auto simp: CreateOrgOTABatch_def omet_def Let_def split: if_splits sum.splits prod.splits)
  then show ?thesis
  proof (elim disjE exE conjE)
    fix sns pid x
    assume r: "resolveOrgSNs flt org req (OFleet st) = Inr sns"
      and c: "CallCreateBatch call tzdb md5 now (sub_request org who pid req sns) (CMeanwhile call (OService st)) = (x, OService st')"
    have e: "ExplicitSNs (sub_request org who pid req sns) = sns" by (simp add: sub_request_def)
    obtain ts where ts: "tasks (DB (OService st')) = tasks (DB (CMeanwhile call (OService st))) @ ts"
      and own: "\<forall>t \<in> set ts. tsn t \<in> set sns"
      using CallCreateBatch_tasks[OF c] resolve_owned(1)[OF r] unfolding e by blast
    have "\<forall>t \<in> set ts. \<exists>d \<in> set (device_orgs (OFleet st)). DSN d = tsn t \<and> DOrg d = org"
      using own resolve_owned(2)[OF r] by blast
    with ts show ?thesis by blast
  qed auto
qed


lemma sub_batch_row:
  assumes "CreateBatch flt tzdb md5 now r s = (Inr b, s')" "ids_ok (DB s)" "ParentBatchID r = Some pid" "Stage r = []" "ApprovedBy r = []"
  shows "\<exists>p. find_batch (DB s) pid = Some p \<and> bparent p = None \<and> bfirmware p = FirmwareID r \<and> bstage b = bstage p \<and>
    approved_by b = nilIfEmpty (case approved_by p of Some a \<Rightarrow> a | None \<Rightarrow> []) \<and> bparent b = Some pid \<and>
    bfirmware b = FirmwareID r \<and> bpolicy b = ReqPolicy r \<and> bstatus b = ''running'' \<and> b \<in> set (batches (DB s')) \<and>
    (bstage b = ''100'' \<longrightarrow> approved_by b \<noteq> None)"
proof -
  from assms(1) obtain fuse fw stage approver f pct where
    res: "resolve_batch flt (DB s) r fuse = Inr (stage, approver, f)"
    and ins: "insert_batch flt md5 now r fw stage approver f pct s = (Inr b, s')"
    by (auto simp: CreateBatch_def CreateBatch_from_def split: if_splits sum.splits option.splits prod.splits)
  from res obtain p where p: "find_batch (DB s) pid = Some p" "bparent p = None" "bfirmware p = FirmwareID r" "stage = bstage p"
      "approver = (case approved_by p of Some a \<Rightarrow> a | None \<Rightarrow> [])"
    using assms(3-5) by (auto simp: resolve_batch_def split: if_splits option.splits)
  note row = insert_batch_row[OF ins assms(2)]
  have ck: "ck_full_stage_approved (new_batch (next_batch (DB s)) r stage approver f)"
    using ins by (auto simp: insert_batch_def Let_def split: if_splits)
  have "b \<in> set (batches (DB s'))" unfolding row(2) create_tables[OF refl assms(2)] row(1) by simp
  then show ?thesis using p ck assms(3) row(1) by (auto simp: new_batch_def ck_full_stage_approved_def)
qed

text \<open>
  C16: An organisation's batch cannot run ahead of the platform. When one is created, the
  latest platform batch of the firmware was at ten percent or more and not fused when it was looked at; the new batch carries the
  stage and the approver its parent has at the moment of the creation, the parent's firmware and the requested window,
  and at the full stage it has an approver.
\<close>

theorem org_batch_inherits:
  assumes "CreateOrgOTABatch flt call tzdb md5 now org actor who req st = (Inr resp, st')"
    and "ids_ok (DB (CMeanwhile call (OService st)))"
  shows "(\<exists>q \<in> set (platform_batches (DB (OService st)) (OFirmwareID req)). bid q = RParent resp \<and> bstatus q \<noteq> ''fused'' \<and>
       (\<exists>pct. ParseFloat (trimSpace (bstage q)) = Some pct \<and> 10 \<le> pct)) \<and>
    (\<exists>p b. find_batch (DB (CMeanwhile call (OService st))) (RParent resp) = Some p \<and> b \<in> set (batches (DB (OService st'))) \<and>
       bid b = RBatch resp \<and> bparent b = Some (RParent resp) \<and> bfirmware b = OFirmwareID req \<and> bstage b = bstage p \<and>
       approved_by b = nilIfEmpty (case approved_by p of Some a \<Rightarrow> a | None \<Rightarrow> []) \<and>
       bpolicy b = window_policy (OWindow req) \<and> (bstage b = ''100'' \<longrightarrow> approved_by b \<noteq> None))"
proof -
  from assms(1) obtain sns pb b where
    pb: "LatestPlatformBatch (flt ''parent'') (OFirmwareID req) (DB (OService st)) = Inr pb"
    and el: "ParentEligible (PBStage pb) (PBStatus pb)"
    and c: "CallCreateBatch call tzdb md5 now (sub_request org who (PBId pb) req sns) (CMeanwhile call (OService st)) = (Inr b, OService st')"
    and resp: "RBatch resp = bid b" "RParent resp = PBId pb"
    by (auto simp: CreateOrgOTABatch_def omet_def Let_def split: if_splits sum.splits prod.splits)
  let ?bs = "platform_batches (DB (OService st)) (OFirmwareID req)"
  have pb': "?bs \<noteq> []" "PBId pb = bid (last ?bs)" "PBStage pb = bstage (last ?bs)" "PBStatus pb = bstatus (last ?bs)"
    using pb by (auto simp: LatestPlatformBatch_def Let_def split: if_splits)
  have "last ?bs \<in> set ?bs" using pb'(1) by simp
  moreover have "bstatus (last ?bs) \<noteq> ''fused'' \<and> (\<exists>pct. ParseFloat (trimSpace (bstage (last ?bs))) = Some pct \<and> 10 \<le> pct)"
    using el pb' by (auto simp: ParentEligible_def split: if_splits option.splits)
  ultimately have 1: "\<exists>q \<in> set ?bs. bid q = RParent resp \<and> bstatus q \<noteq> ''fused'' \<and>
       (\<exists>pct. ParseFloat (trimSpace (bstage q)) = Some pct \<and> 10 \<le> pct)"
    using pb'(2) resp(2) by auto
  have cb: "CreateBatch (CFaults call) tzdb md5 now (sub_request org who (PBId pb) req sns) (CMeanwhile call (OService st)) = (Inr b, OService st')"
    using c by (auto simp: CallCreateBatch_def split: delivery.splits sum.splits prod.splits if_splits)
  have sr: "ParentBatchID (sub_request org who (PBId pb) req sns) = Some (PBId pb)"
    "Stage (sub_request org who (PBId pb) req sns) = []" "ApprovedBy (sub_request org who (PBId pb) req sns) = []"
    "FirmwareID (sub_request org who (PBId pb) req sns) = OFirmwareID req"
    "ReqPolicy (sub_request org who (PBId pb) req sns) = window_policy (OWindow req)"
    by (simp_all add: sub_request_def)
  note row = sub_batch_row[OF cb assms(2) sr(1-3), unfolded sr(4,5)]
  show ?thesis unfolding resp using 1[unfolded resp] row by blast
qed

definition ten_service :: Service where
  "ten_service = \<lparr>DB = \<lparr>firmwares = [demo_fw], batches = [new_batch 1 demo_req ''10'' [] 0], tasks = [],
     devices = [\<lparr>dsn = ''XT1'', dproduct = ''LM'', dfw = None\<rparr>, \<lparr>dsn = ''XT2'', dproduct = ''ROUTER'', dfw = None\<rparr>],
     next_firmware = 2, next_batch = 2, next_task = 1\<rparr>, M = (\<lambda>_. 0), MinSamples = MinFuseSamples, MinAbsFail = DefaultMinAbsFail\<rparr>"

definition demo_org_ota :: OrgOta where
  "demo_org_ota = \<lparr>OFleet = demo_fleet, OService = ten_service, Ledger = []\<rparr>"

definition demo_org_req :: OrgOTAReq where
  "demo_org_req = \<lparr>OFirmwareID = 1, SNs = [''XT2''], SiteIDs = [], OWindow = no_window\<rparr>"

definition demo_call :: Call where
  "demo_call = \<lparr>CFaults = no_faults, CDelivery = Answered, CMeanwhile = id\<rparr>"

definition demo_org_create :: "(fleet_error + OrgOTAResp) \<times> OrgOta" where
  "demo_org_create = CreateOrgOTABatch (\<lambda>_. False) demo_call (\<lambda>_. None) demo_md5 0 2 20 ''user:20'' demo_org_req demo_org_ota"

lemma demo_org_checks:
  "resolveOrgSNs (\<lambda>_. False) 2 demo_org_req demo_fleet = Inr [''XT2'']"
  "ValidateWindow (\<lambda>_. None) (OWindow demo_org_req)" "ParentEligible ''10'' ''running''" "dedupSNs [''XT2''] = [''XT2'']"
  "trimSpace ''10'' = ''10''"
  by code_simp+

lemma demo_org_result:
  "demo_org_create = (Inr \<lparr>RBatch = 2, RParent = 1, RStage = ''10'', RStatus = ''running'', RTotal = 1, RequestedSNs = 1\<rparr>, snd demo_org_create) \<and>
   map tsn (tasks (DB (OService (snd demo_org_create)))) = [''XT2'']"
  using demo_org_checks
  by (simp add: demo_org_create_def CreateOrgOTABatch_def demo_org_ota_def demo_org_req_def demo_call_def CallCreateBatch_def
      LatestPlatformBatch_def ten_service_def sub_request_def window_policy_def no_window_def EmptyWindow_def trimSpace_def
      run_create StagePct_def Stages_def existingSNs_def omet_def demo_fw_def demo_req_def finc_def)


theorem org_batch_own_devices_witness:
  "map tsn (tasks (DB (OService (snd demo_org_create)))) = [''XT2''] \<and>
   (\<exists>d \<in> set (device_orgs demo_fleet). DSN d = ''XT2'' \<and> DOrg d = 2)"
proof -
  have "CreateOrgOTABatch (\<lambda>_. False) demo_call (\<lambda>_. None) demo_md5 0 2 20 ''user:20'' demo_org_req demo_org_ota =
      (fst demo_org_create, snd demo_org_create)" by (simp add: demo_org_create_def)
  from org_batch_own_devices[OF this]
  have "\<forall>t \<in> set (tasks (DB (OService (snd demo_org_create)))). \<exists>d \<in> set (device_orgs demo_fleet). DSN d = tsn t \<and> DOrg d = 2"
    by (auto simp: demo_org_ota_def demo_call_def ten_service_def)
  then show ?thesis using demo_org_result by (cases "tasks (DB (OService (snd demo_org_create)))") auto
qed

theorem org_batch_inherits_witness:
  "\<exists>b \<in> set (batches (DB (OService (snd demo_org_create)))). bid b = 2 \<and> bparent b = Some 1 \<and> bstage b = ''10''"
proof -
  let ?r = "\<lparr>RBatch = 2, RParent = 1, RStage = ''10'', RStatus = ''running'', RTotal = 1, RequestedSNs = 1\<rparr>"
  have c: "CreateOrgOTABatch (\<lambda>_. False) demo_call (\<lambda>_. None) demo_md5 0 2 20 ''user:20'' demo_org_req demo_org_ota = (Inr ?r, snd demo_org_create)"
    using demo_org_result by (simp add: demo_org_create_def)
  have ids: "ids_ok (DB (CMeanwhile demo_call (OService demo_org_ota)))"
    by (simp add: ids_ok_def demo_call_def demo_org_ota_def ten_service_def new_batch_def)
  have "find_batch (DB ten_service) 1 = Some (new_batch 1 demo_req ''10'' [] 0)"
    by (simp add: find_batch_def ten_service_def new_batch_def)
  then show ?thesis using org_batch_inherits[OF c ids]
    by (auto simp: demo_call_def demo_org_ota_def new_batch_def)
qed

text \<open>
  Named devices are not compared with the firmware's product: a firmware for one product is given to a device of
  another when an organisation names it, or the site it stands in.
\<close>

theorem wrong_product_targeted:
  "map tsn (tasks (DB (OService (snd demo_org_create)))) = [''XT2''] \<and> fw_product demo_fw = ''LM'' \<and>
   (\<exists>d \<in> set (devices (DB ten_service)). dsn d = ''XT2'' \<and> dproduct d = ''ROUTER'')"
  using demo_org_result by (simp add: demo_fw_def ten_service_def)

end
