(* ===== verification/OemSn.thy ===== *)
theory OemSn
  imports GoStrings
begin

text \<open>
  Serial numbers and replay protection of the OEM activation, \<open>internal/cf001\<close>: the 23 characters of a serial number
  (\<open>sn.go\<close>), the decrypted payload (\<open>crypto.go\<close>), the freshness of its timestamp and the two nonce stores behind
  \<open>NonceStore\<close> (\<open>freshness.go\<close>). Instants are nanoseconds.
\<close>

subsection \<open>Serial numbers\<close>

abbreviation SNLen :: nat where "SNLen \<equiv> 23"

definition hex_digit :: "nat \<Rightarrow> char" where
  "hex_digit n = ''0123456789ABCDEF'' ! n"

definition Checksum :: "string \<Rightarrow> string" where
  "Checksum s = (let sum = sum_list (map code s) mod 256 in [hex_digit (sum div 16), hex_digit (sum mod 16)])"

definition Prefix4 :: "string \<Rightarrow> string" where
  "Prefix4 productKey = (let p = take 4 (toUpper productKey) in p @ replicate (4 - length p) (CHR ''_''))"

definition NormalizeLine :: "string \<Rightarrow> string" where
  "NormalizeLine line0 =
     (let line = trimSpace line0 in
      if line = [] then ''01''
      else if length line = 1 then CHR ''0'' # line
      else if length line > 2 then drop (length line - 2) line
      else line)"

text \<open>\<open>%0wd\<close> of a number of at most \<open>w\<close> digits.\<close>

fun padded :: "nat \<Rightarrow> nat \<Rightarrow> string" where
  "padded 0 n = []"
| "padded (Suc w) n = padded w (n div 10) @ [char_of (48 + n mod 10)]"

definition BuildSN :: "string \<Rightarrow> string \<Rightarrow> string \<Rightarrow> int \<Rightarrow> string" where
  "BuildSN prefix4 yymmdd line seq =
     (let day = take 6 yymmdd; day6 = replicate (6 - length day) (CHR ''0'') @ day;
          body = Prefix4 prefix4 @ day6 @ NormalizeLine line @ padded 9 (nat (\<bar>seq\<bar> mod 1000000000))
      in body @ Checksum body)"

definition ValidSN23 :: "string \<Rightarrow> bool" where
  "ValidSN23 sn \<longleftrightarrow> length sn = SNLen \<and> Checksum (take 21 sn) = drop 21 sn"

lemma length_padded [simp]: "length (padded w n) = w"
  by (induction w arbitrary: n) auto

lemma digit_char_inj: "a < 10 \<Longrightarrow> b < 10 \<Longrightarrow> (char_of (48 + a :: nat) :: char) = char_of (48 + b) \<Longrightarrow> a = b"
  by (drule arg_cong[where f = "of_char :: char \<Rightarrow> nat"]) simp

lemma padded_inj: "padded w a = padded w b \<Longrightarrow> a < 10 ^ w \<Longrightarrow> b < 10 ^ w \<Longrightarrow> a = b"
proof (induction w arbitrary: a b)
  case (Suc w)
  then have "padded w (a div 10) = padded w (b div 10)" "(char_of (48 + a mod 10) :: char) = char_of (48 + b mod 10)" by simp_all
  then have "a div 10 = b div 10" "a mod 10 = b mod 10"
    using Suc.IH[of "a div 10" "b div 10"] Suc.prems(2,3) by (auto intro: digit_char_inj simp del: char_of_mod_256)
  then show ?case by (metis div_mult_mod_eq)
qed simp

lemma length_Checksum [simp]: "length (Checksum s) = 2"
  by (simp add: Checksum_def Let_def)

lemma length_Prefix4 [simp]: "length (Prefix4 pk) = 4"
  by (simp add: Prefix4_def Let_def)

lemma length_NormalizeLine [simp]: "length (NormalizeLine l) = 2"
proof (cases "trimSpace l = []")
  case False
  then have "length (trimSpace l) = 1 \<or> length (trimSpace l) = 2 \<or> 2 < length (trimSpace l)"
    by (cases "trimSpace l"; cases "tl (trimSpace l)") auto
  then show ?thesis using False by (elim disjE) (simp_all add: NormalizeLine_def Let_def)
qed (simp add: NormalizeLine_def)

lemma BuildSN_valid: "ValidSN23 (BuildSN pk day line seq)"
  by (simp add: ValidSN23_def BuildSN_def Let_def)

text \<open>On one day and line, the serial numbers of a product differ as their sequence numbers do.\<close>

lemma BuildSN_inj:
  assumes "BuildSN pk day line a = BuildSN pk day line b" "0 \<le> a" "a < 1000000000" "0 \<le> b" "b < 1000000000"
  shows "a = b"
proof -
  have "padded 9 (nat (\<bar>a\<bar> mod 1000000000)) = padded 9 (nat (\<bar>b\<bar> mod 1000000000))"
    using assms(1) by (simp add: BuildSN_def Let_def append_eq_append_conv)
  then have "nat a = nat b" using assms(2-5) by (intro padded_inj[of 9]) auto
  then show ?thesis using assms(2,4) by simp
qed

subsection \<open>The payload\<close>

record Payload =
  PDigest :: string
  PNonce :: string
  Timestamp :: int

definition is_hex :: "char \<Rightarrow> bool" where
  "is_hex c \<longleftrightarrow> is_digit c \<or> between CHR ''a'' CHR ''f'' c \<or> between CHR ''A'' CHR ''F'' c"

definition ParsePayload :: "string \<Rightarrow> Payload option" where
  "ParsePayload plaintext =
     (let parts = splitc CHR ''|'' plaintext in
      if length parts < 3 then None
      else let d = toLower (trimSpace (parts ! 0)); nonce = trimSpace (parts ! 1) in
        if length d \<noteq> 64 then None
        else if \<not> list_all is_hex d then None
        else if nonce = [] then None
        else case ParseInt (trimSpace (parts ! 2)) of
          None \<Rightarrow> None
        | Some ts \<Rightarrow> Some \<lparr>PDigest = d, PNonce = nonce, Timestamp = ts\<rparr>)"

text \<open>
  What a device puts into the payload: the hash of its identifiers in lower case hexadecimal, a nonce and its clock. \<open>sha\<close> is
  SHA-256.
\<close>

definition Digest :: "(string \<Rightarrow> byte list) \<Rightarrow> string \<Rightarrow> string \<Rightarrow> string \<Rightarrow> string \<Rightarrow> string" where
  "Digest sha uuid mcuSN socSN mac = EncodeHex (sha (uuid @ '':'' @ mcuSN @ '':'' @ socSN @ '':'' @ mac))"

lemma lower_hex_plain: "lower_hex c \<Longrightarrow> is_hex c \<and> \<not> is_space c \<and> c \<noteq> CHR ''|'' \<and> toLower [c] = [c]"
  by (auto simp: lower_hex_def is_hex_def is_space_def between_def code_def toLower_def)

lemma toLower_id: "list_all lower_hex s \<Longrightarrow> toLower s = s"
  using lower_hex_plain by (induction s) (auto simp: toLower_def)

lemma FormatInt_plain: "c \<in> set (FormatInt n) \<Longrightarrow> \<not> is_space c \<and> c \<noteq> CHR ''|''"
proof -
  have d: "is_digit c \<Longrightarrow> \<not> is_space c \<and> c \<noteq> CHR ''|''" for c by (auto simp: between_def is_space_def code_def)
  have "list_all is_digit (itoa_nat n)" for n using itoa_nat_digits by blast
  then show "c \<in> set (FormatInt n) \<Longrightarrow> ?thesis"
    using d unfolding list_all_iff FormatInt_def by (auto simp: is_space_def code_def split: if_splits)
qed

text \<open>
  C20: The service reads a device's payload back as the device wrote it: digest, nonce and clock, for every nonce
  without the separator and without surrounding white space and every clock that fits 64 bits; further segments are ignored.
\<close>

theorem payload_roundtrip:
  assumes "length (sha (uuid @ '':'' @ mcu @ '':'' @ soc @ '':'' @ mac)) = 32"
    and "nonce \<noteq> []" "trimSpace nonce = nonce" "CHR ''|'' \<notin> set nonce" "- (2 ^ 63) \<le> ts" "ts < 2 ^ 63"
    and "rest = [] \<or> hd rest = CHR ''|''"
  shows "ParsePayload (Digest sha uuid mcu soc mac @ ''|'' @ nonce @ ''|'' @ FormatInt ts @ rest) =
    Some \<lparr>PDigest = Digest sha uuid mcu soc mac, PNonce = nonce, Timestamp = ts\<rparr>"
proof -
  let ?d = "Digest sha uuid mcu soc mac"
  have d: "list_all lower_hex ?d" "length ?d = 64" using assms(1) EncodeHex_ok by (simp_all add: Digest_def)
  then have plain: "CHR ''|'' \<notin> set ?d" "trimSpace ?d = ?d" "toLower ?d = ?d" "list_all is_hex ?d"
    using lower_hex_plain unfolding list_all_iff by (blast, blast intro: trimSpace_id, blast intro: toLower_id[unfolded list_all_iff], blast)
  have f: "CHR ''|'' \<notin> set (FormatInt ts)" "trimSpace (FormatInt ts) = FormatInt ts"
    using FormatInt_plain by (blast, blast intro: trimSpace_id)
  have "splitc CHR ''|'' (FormatInt ts @ rest) = FormatInt ts # tl (splitc CHR ''|'' (FormatInt ts @ rest))"
    using f(1) assms(7) by (cases rest) (auto simp: splitc_append splitc_plain)
  then have "splitc CHR ''|'' (?d @ ''|'' @ nonce @ ''|'' @ FormatInt ts @ rest) =
      ?d # nonce # FormatInt ts # tl (splitc CHR ''|'' (FormatInt ts @ rest))"
    using plain(1) assms(4) by (simp add: splitc_append)
  then show ?thesis using plain d f assms(2,3) ParseInt_FormatInt[OF assms(5,6)]
    by (simp add: ParsePayload_def Let_def del: append_Cons)
qed

theorem payload_roundtrip_witness:
  "ParsePayload (Digest (\<lambda>_. replicate 32 171) ''u'' ''m'' ''s'' ''a'' @ ''|'' @ ''n1'' @ ''|'' @ FormatInt 1700000000 @ ''|3300'') =
    Some \<lparr>PDigest = Digest (\<lambda>_. replicate 32 171) ''u'' ''m'' ''s'' ''a'', PNonce = ''n1'', Timestamp = 1700000000\<rparr>"
  by (rule payload_roundtrip) (simp_all add: trimSpace_def is_space_def code_def)

subsection \<open>Freshness\<close>

abbreviation DefaultFreshnessWindow :: duration where "DefaultFreshnessWindow \<equiv> 5 * minute"

text \<open>The instant a timestamp means: seconds up to ten digits, milliseconds up to thirteen.\<close>

definition stamp :: "string \<Rightarrow> time option" where
  "stamp ts0 =
     (let ts = trimSpace ts0 in
      case ParseInt ts of
        None \<Rightarrow> None
      | Some n \<Rightarrow>
          (let d = length (dropWhile (\<lambda>c. c = CHR ''0'') ts) in
           if n \<le> 0 then None
           else if d \<le> 10 then Some (n * second)
           else if d \<le> 13 then Some (n * 1000000)
           else None))"

text \<open>What the timestamp of a payload means once it is formatted again.\<close>

definition fresh_stamp :: "int \<Rightarrow> time option" where
  "fresh_stamp n = (if n \<le> 0 then None
     else if n < 10 ^ 10 then Some (n * second) else if n < 10 ^ 13 then Some (n * 1000000) else None)"

lemma stamp_FormatInt:
  assumes "- (2 ^ 63) \<le> n" "n < 2 ^ 63"
  shows "stamp (FormatInt n) = fresh_stamp n"
proof (cases "0 < n")
  case True
  let ?s = "itoa_nat (nat n)"
  have f: "FormatInt n = ?s" using True by (simp add: FormatInt_def)
  have "?s \<noteq> []" "hd ?s \<noteq> CHR ''0''" using itoa_nat_digits hd_itoa_nat[of "nat n"] True by auto
  then have d: "dropWhile (\<lambda>c. c = CHR ''0'') ?s = ?s" by (cases ?s) auto
  have l: "length ?s \<le> 10 \<longleftrightarrow> n < 10 ^ 10" "length ?s \<le> 13 \<longleftrightarrow> n < 10 ^ 13"
    using length_itoa_nat[of "nat n" 9] length_itoa_nat[of "nat n" 12] True by (auto simp: zless_nat_conj nat_less_iff)
  show ?thesis using True ParseInt_FormatInt[OF assms] l
    by (simp add: stamp_def fresh_stamp_def Let_def f itoa_nat_trim d)
next
  case False
  have "trimSpace (FormatInt n) = FormatInt n"
    using itoa_nat_digits digit_not_sign by (intro trimSpace_id) (auto simp: FormatInt_def list_all_iff is_space_def code_def split: if_splits)
  then show ?thesis using False ParseInt_FormatInt[OF assms] by (simp add: stamp_def fresh_stamp_def Let_def)
qed

definition effective_window :: "duration \<Rightarrow> duration" where
  "effective_window w = (if w \<le> 0 then DefaultFreshnessWindow else w)"

definition CheckFreshness :: "string \<Rightarrow> time \<Rightarrow> duration \<Rightarrow> bool" where
  "CheckFreshness ts now window =
     (case stamp ts of None \<Rightarrow> False | Some t \<Rightarrow> \<bar>now - t\<bar> \<le> effective_window window)"

subsection \<open>Nonces\<close>

text \<open>
  What the service relies on: \<open>seen n ttl now\<close> reports whether the nonce is held at that instant and, when it is not,
  holds it until \<open>ttl\<close> later; nothing else releases a nonce.
\<close>

locale nonce_store =
  fixes seen :: "string \<Rightarrow> duration \<Rightarrow> time \<Rightarrow> 's \<Rightarrow> bool \<times> 's"
    and holds :: "string \<Rightarrow> time \<Rightarrow> 's \<Rightarrow> bool"
  assumes reports: "fst (seen n ttl now s) \<longleftrightarrow> holds n now s"
    and takes: "\<not> holds n now s \<Longrightarrow> now \<le> t \<Longrightarrow> t \<le> now + ttl \<Longrightarrow> holds n t (snd (seen n ttl now s))"
    and keeps: "holds n t s \<Longrightarrow> now \<le> t \<Longrightarrow> holds n t (snd (seen m ttl now s))"
begin

definition serve_all :: "(string \<times> duration \<times> time) list \<Rightarrow> 's \<Rightarrow> 's" where
  "serve_all qs s = fold (\<lambda>(n, ttl, now) s. snd (seen n ttl now s)) qs s"

lemma serve_all_keeps: "\<forall>(m, d, now) \<in> set qs. now \<le> t \<Longrightarrow> holds n t s \<Longrightarrow> holds n t (serve_all qs s)"
  by (induction qs arbitrary: s) (auto simp: serve_all_def keeps)

text \<open>A nonce taken once is refused for the rest of its time, whatever is asked in between.\<close>

lemma no_second_use:
  assumes "\<not> fst (seen n ttl t0 s)" "\<forall>(m, d, now) \<in> set qs. now \<le> t" "t0 \<le> t" "t \<le> t0 + ttl"
  shows "fst (seen n d t (serve_all qs (snd (seen n ttl t0 s))))"
  using serve_all_keeps[OF assms(2), of n] takes[of n t0 s t ttl] assms(1,3,4) by (simp add: reports)

end

text \<open>The store in the process: entries whose time has passed are removed first.\<close>

type_synonym nonces = "(string \<times> time) list"

definition MemSeen :: "string \<Rightarrow> duration \<Rightarrow> time \<Rightarrow> nonces \<Rightarrow> bool \<times> nonces" where
  "MemSeen nonce ttl now m =
     (let live = filter (\<lambda>(k, e). \<not> now > e) m in
      if list_ex (\<lambda>(k, e). k = nonce) live then (True, live) else (False, (nonce, now + ttl) # live))"

definition mem_holds :: "string \<Rightarrow> time \<Rightarrow> nonces \<Rightarrow> bool" where
  "mem_holds n t m \<longleftrightarrow> (\<exists>e. (n, e) \<in> set m \<and> t \<le> e)"

interpretation mem: nonce_store MemSeen mem_holds
proof
  fix n m :: string and ttl now t and s :: nonces
  show "fst (MemSeen n ttl now s) \<longleftrightarrow> mem_holds n now s"
    by (auto simp: MemSeen_def mem_holds_def Let_def list_ex_iff)
  show "\<not> mem_holds n now s \<Longrightarrow> now \<le> t \<Longrightarrow> t \<le> now + ttl \<Longrightarrow> mem_holds n t (snd (MemSeen n ttl now s))"
    by (auto simp: MemSeen_def mem_holds_def Let_def list_ex_iff)
  show "mem_holds n t s \<Longrightarrow> now \<le> t \<Longrightarrow> mem_holds n t (snd (MemSeen m ttl now s))"
    by (auto simp: MemSeen_def mem_holds_def Let_def list_ex_iff)
qed

text \<open>\<open>SETNX cf001:nonce:{nonce} 1 EX ttl\<close>: a key exists until its time has passed.\<close>

type_synonym redis = "string \<Rightarrow> time option"

definition NonceKey :: "string \<Rightarrow> string" where
  "NonceKey nonce = ''cf001:nonce:'' @ nonce"

definition SetNX :: "string \<Rightarrow> duration \<Rightarrow> time \<Rightarrow> redis \<Rightarrow> bool \<times> redis" where
  "SetNX k ttl now r =
     (case r k of
        Some e \<Rightarrow> if now \<le> e then (False, r) else (True, r(k \<mapsto> now + ttl))
      | None \<Rightarrow> (True, r(k \<mapsto> now + ttl)))"

definition RedisSeen :: "string \<Rightarrow> duration \<Rightarrow> time \<Rightarrow> redis \<Rightarrow> bool \<times> redis" where
  "RedisSeen nonce ttl now r = (case SetNX (NonceKey nonce) ttl now r of (ok, r') \<Rightarrow> (\<not> ok, r'))"

definition redis_holds :: "string \<Rightarrow> time \<Rightarrow> redis \<Rightarrow> bool" where
  "redis_holds n t r \<longleftrightarrow> (case r (NonceKey n) of Some e \<Rightarrow> t \<le> e | None \<Rightarrow> False)"

lemma NonceKey_inj [simp]: "NonceKey a = NonceKey b \<longleftrightarrow> a = b"
  by (simp add: NonceKey_def)

interpretation redis: nonce_store RedisSeen redis_holds
proof
  fix n m :: string and ttl now t and s :: redis
  show "fst (RedisSeen n ttl now s) \<longleftrightarrow> redis_holds n now s"
    by (auto simp: RedisSeen_def SetNX_def redis_holds_def split: option.splits)
  show "\<not> redis_holds n now s \<Longrightarrow> now \<le> t \<Longrightarrow> t \<le> now + ttl \<Longrightarrow> redis_holds n t (snd (RedisSeen n ttl now s))"
    by (auto simp: RedisSeen_def SetNX_def redis_holds_def split: option.splits)
  show "redis_holds n t s \<Longrightarrow> now \<le> t \<Longrightarrow> redis_holds n t (snd (RedisSeen m ttl now s))"
    by (auto simp: RedisSeen_def SetNX_def redis_holds_def split: option.splits)
qed


subsection \<open>The check\<close>

datatype oem_error = ErrNoQuota | ErrNotFound | ErrBadParam | ErrConflict | ErrUnavailable | OemDbError

text \<open>
  The service's guard. \<open>Nonces\<close> is the configured store, or none. The clock is read when the freshness is checked, and again by
  the nonce store.
\<close>

record 's ReplayGuard =
  SkipFreshness :: bool
  FreshnessWindow :: duration
  Nonces :: "'s option"
  GC :: metrics

definition gcount :: "string \<Rightarrow> 's ReplayGuard \<Rightarrow> 's ReplayGuard" where
  "gcount k g = g\<lparr>GC := Inc k (GC g)\<rparr>"

definition checkReplay ::
  "(string \<Rightarrow> duration \<Rightarrow> time \<Rightarrow> 's \<Rightarrow> bool \<times> 's) \<Rightarrow> bool \<Rightarrow> time \<Rightarrow> time \<Rightarrow> Payload \<Rightarrow> 's ReplayGuard \<Rightarrow>
   oem_error option \<times> 's ReplayGuard" where
  "checkReplay seen fails t_fresh t_nonce p g =
     (if SkipFreshness g then (None, gcount ''sign_freshness_skipped'' g)
      else let window = effective_window (FreshnessWindow g) in
        if \<not> CheckFreshness (FormatInt (Timestamp p)) t_fresh window then (Some ErrBadParam, gcount ''sign_stale'' g)
        else case Nonces g of
          None \<Rightarrow> (Some ErrUnavailable, gcount ''sign_nonce_store_err'' g)
        | Some st \<Rightarrow>
            if fails then (Some ErrUnavailable, gcount ''sign_nonce_store_err'' g)
            else (case seen (PNonce p) (2 * window) t_nonce st of
                (True, st') \<Rightarrow> (Some ErrBadParam, gcount ''sign_replay'' (g\<lparr>Nonces := Some st'\<rparr>))
              | (False, st') \<Rightarrow> (None, g\<lparr>Nonces := Some st'\<rparr>)))"


text \<open>Requests one after the other: whether the store fails, the two clock readings, the payload.\<close>

type_synonym attempt = "bool \<times> time \<times> time \<times> Payload"

definition guard_run ::
  "(string \<Rightarrow> duration \<Rightarrow> time \<Rightarrow> 's \<Rightarrow> bool \<times> 's) \<Rightarrow> attempt list \<Rightarrow> 's ReplayGuard \<Rightarrow> 's ReplayGuard" where
  "guard_run seen qs g = fold (\<lambda>(fails, tf, tn, p) g. snd (checkReplay seen fails tf tn p g)) qs g"

lemma gcount_frame [simp]:
  "Nonces (gcount k g) = Nonces g" "SkipFreshness (gcount k g) = SkipFreshness g" "FreshnessWindow (gcount k g) = FreshnessWindow g"
  by (simp_all add: gcount_def)

lemma checkReplay_config [simp]:
  "SkipFreshness (snd (checkReplay seen f tf tn p g)) = SkipFreshness g"
  "FreshnessWindow (snd (checkReplay seen f tf tn p g)) = FreshnessWindow g"
  by (auto simp: checkReplay_def Let_def split: option.splits prod.splits bool.splits)

lemma guard_run_config [simp]:
  "SkipFreshness (guard_run seen qs g) = SkipFreshness g" "FreshnessWindow (guard_run seen qs g) = FreshnessWindow g"
  by (induction qs arbitrary: g) (auto simp: guard_run_def split: prod.splits)

lemma CheckFreshness_apart:
  assumes "CheckFreshness ts a (effective_window w)" "CheckFreshness ts b (effective_window w)"
  shows "b - a \<le> 2 * effective_window w"
proof -
  have "effective_window (effective_window w) = effective_window w" by (simp add: effective_window_def)
  then show ?thesis using assms by (auto simp: CheckFreshness_def split: option.splits)
qed

context nonce_store
begin

definition nonce_held :: "string \<Rightarrow> time \<Rightarrow> 's ReplayGuard \<Rightarrow> bool" where
  "nonce_held n t g \<longleftrightarrow> (\<exists>st. Nonces g = Some st \<and> holds n t st)"

lemma check_keeps: "nonce_held n t g \<Longrightarrow> tn \<le> t \<Longrightarrow> nonce_held n t (snd (checkReplay seen f tf tn p g))"
  using keeps by (auto simp: nonce_held_def checkReplay_def Let_def split: option.splits prod.splits bool.splits) (metis snd_conv)+

lemma run_keeps: "\<forall>(f, tf, tn, p) \<in> set qs. tn \<le> t \<Longrightarrow> nonce_held n t g \<Longrightarrow> nonce_held n t (guard_run seen qs g)"
  by (induction qs arbitrary: g) (auto simp: guard_run_def check_keeps split: prod.splits)

lemma accepted_once:
  assumes "checkReplay seen f1 tf1 tn1 p g = (None, g1)" "\<not> SkipFreshness g"
    and "\<forall>(f, tf, tn, q) \<in> set qs. tn \<le> tn2" "tn1 \<le> tn2" "tn2 - tf2 \<le> tn1 - tf1"
  shows "fst (checkReplay seen f2 tf2 tn2 p (guard_run seen qs g1)) \<noteq> None"
proof
  assume acc: "fst (checkReplay seen f2 tf2 tn2 p (guard_run seen qs g1)) = None"
  let ?w = "effective_window (FreshnessWindow g)"
  have c: "SkipFreshness g1 = SkipFreshness g" "FreshnessWindow g1 = FreshnessWindow g"
    using checkReplay_config[of seen f1 tf1 tn1 p g] assms(1) by simp_all
  from assms(1,2) obtain st where st: "Nonces g = Some st" "CheckFreshness (FormatInt (Timestamp p)) tf1 ?w"
      "fst (seen (PNonce p) (2 * ?w) tn1 st) = False" "Nonces g1 = Some (snd (seen (PNonce p) (2 * ?w) tn1 st))"
    by (auto simp: checkReplay_def Let_def split: option.splits prod.splits bool.splits if_splits)
  have "CheckFreshness (FormatInt (Timestamp p)) tf2 ?w"
    using acc assms(2) c by (auto simp: checkReplay_def Let_def split: if_splits)
  then have "tf2 - tf1 \<le> 2 * ?w" using CheckFreshness_apart st(2) by blast
  then have "tn2 \<le> tn1 + 2 * ?w" using assms(5) by linarith
  then have "nonce_held (PNonce p) tn2 g1"
    using st takes[of "PNonce p" tn1 st tn2 "2 * ?w"] assms(4) by (simp add: nonce_held_def reports)
  then have "nonce_held (PNonce p) tn2 (guard_run seen qs g1)" by (rule run_keeps[OF assms(3)])
  then obtain st2 where "Nonces (guard_run seen qs g1) = Some st2" "fst (seen (PNonce p) (2 * ?w) tn2 st2)"
    by (auto simp: nonce_held_def reports)
  then show False using acc assms(2) c by (auto simp: checkReplay_def Let_def split: if_splits prod.splits bool.splits)
qed

end

text \<open>
  C18: No replay. A payload that was let through is not let through again, whatever other requests come in between and
  however often the store fails, for the Redis store that the service uses, as long as the second request does not wait longer between its
  two clock readings than the first did. Accepted timestamps lie within the window around the clock, so two requests with the same payload are
  at most two windows apart, and that is how long the nonce is held.
\<close>

theorem no_replay:
  assumes "checkReplay RedisSeen f1 tf1 tn1 p g = (None, g1)" "\<not> SkipFreshness g"
    and "\<forall>(f, tf, tn, q) \<in> set qs. tn \<le> tn2" "tn1 \<le> tn2" "tn2 - tf2 \<le> tn1 - tf1"
  shows "fst (checkReplay RedisSeen f2 tf2 tn2 p (guard_run RedisSeen qs g1)) \<noteq> None"
  by (rule redis.accepted_once[OF assms])

definition demo_guard :: "redis ReplayGuard" where
  "demo_guard = \<lparr>SkipFreshness = False, FreshnessWindow = 0, Nonces = Some Map.empty, GC = (\<lambda>_. 0)\<rparr>"

definition demo_payload :: Payload where
  "demo_payload = \<lparr>PDigest = replicate 64 (CHR ''a''), PNonce = ''n'', Timestamp = 1700000000\<rparr>"

definition demo_guard1 :: "redis ReplayGuard" where
  "demo_guard1 = snd (checkReplay RedisSeen False (1700000000 * second) (1700000000 * second) demo_payload demo_guard)"

lemma demo_stamp: "CheckFreshness (FormatInt 1700000000) t w \<longleftrightarrow> \<bar>t - 1700000000 * second\<bar> \<le> effective_window w"
  by (simp add: CheckFreshness_def stamp_FormatInt fresh_stamp_def)

lemma demo_accepted: "checkReplay RedisSeen False (1700000000 * second) (1700000000 * second) demo_payload demo_guard = (None, demo_guard1)"
  by (simp add: demo_guard1_def checkReplay_def demo_guard_def demo_payload_def demo_stamp effective_window_def Let_def RedisSeen_def SetNX_def)

theorem no_replay_witness:
  "fst (checkReplay RedisSeen False (1700000060 * second) (1700000060 * second) demo_payload (guard_run RedisSeen [] demo_guard1)) \<noteq> None"
  by (rule no_replay[OF demo_accepted]) (simp_all add: demo_guard_def)

text \<open>
  Without the condition it fails: a payload whose clock is five minutes ahead is accepted, and again ten minutes later by a
  request that passes the freshness check at the last instant and asks for the nonce a nanosecond after it expired.
\<close>

theorem late_nonce_check_replays:
  "\<exists>g1 g2. checkReplay RedisSeen False (1699999700 * second) (1699999700 * second) demo_payload demo_guard = (None, g1) \<and>
     checkReplay RedisSeen False (1700000300 * second) (1700000300 * second + 1) demo_payload g1 = (None, g2)"
  by (simp add: checkReplay_def demo_guard_def demo_payload_def demo_stamp effective_window_def Let_def RedisSeen_def SetNX_def)

end
