(* ===== verification/OemSign.thy ===== *)
theory OemSign
  imports OemSn
begin

text \<open>
  The signing service of the OEM activation, \<open>internal/cf001/service.go\<close>: quotas of orders, the transaction that takes one unit
  of quota and stores the serial number signed for a digest, and the check of a device's signature. The RSA functions and the
  decoding of the payload are parameters: \<open>sign\<close> makes a signature of a digest with given random bits or fails, \<open>verify\<close> checks
  one, \<open>decrypt\<close> is base64 decoding followed by OAEP.
\<close>

subsection \<open>Tables\<close>

record Quota =
  OrderNo :: string
  Supplier :: string
  ProductKey :: string
  QuotaMax :: int
  Registered :: int
  QStatus :: int

record DigestRow =
  MDigest :: string
  MSN :: string
  MOrder :: string

record OemDevice =
  ESN :: string
  EDigest :: string
  ESig :: string
  EKey :: string

record OemDb =
  quotas :: "Quota list"
  digest_maps :: "DigestRow list"
  oem_devices :: "OemDevice list"
  seqs :: "string \<Rightarrow> int"

abbreviation int32_max :: int where "int32_max \<equiv> 2147483647"

definition GetQuota :: "bool \<Rightarrow> string \<Rightarrow> OemDb \<Rightarrow> oem_error + Quota" where
  "GetQuota fails ord db =
     (if fails then Inl OemDbError
      else case find (\<lambda>q. OrderNo q = ord) (quotas db) of None \<Rightarrow> Inl ErrNotFound | Some q \<Rightarrow> Inr q)"

definition CreateQuota :: "(string \<Rightarrow> bool) \<Rightarrow> string \<Rightarrow> string \<Rightarrow> string \<Rightarrow> int \<Rightarrow> OemDb \<Rightarrow> (oem_error + Quota) \<times> OemDb" where
  "CreateQuota flt ord supplier key n db =
     (let q = \<lparr>OrderNo = ord, Supplier = supplier, ProductKey = key, QuotaMax = n, Registered = 0, QStatus = 1\<rparr>;
          db' = db\<lparr>quotas := quotas db @ [q]\<rparr>
      in if ord = [] \<or> supplier = [] \<or> key = [] \<or> n < 0 then (Inl ErrBadParam, db)
         else if flt ''insert quota'' \<or> n > int32_max then (Inl OemDbError, db)
         else if list_ex (\<lambda>q. OrderNo q = ord) (quotas db) then (Inl ErrConflict, db)
         else (GetQuota (flt ''get quota'') ord db', db'))"

definition AppendQuota :: "(string \<Rightarrow> bool) \<Rightarrow> string \<Rightarrow> int \<Rightarrow> OemDb \<Rightarrow> (oem_error + Quota) \<times> OemDb" where
  "AppendQuota flt ord delta db =
     (let P = (\<lambda>q. OrderNo q = ord);
          db' = db\<lparr>quotas := update_where P (\<lambda>q. q\<lparr>QuotaMax := QuotaMax q + delta, QStatus := 1\<rparr>) (quotas db)\<rparr>
      in if delta \<le> 0 then (Inl ErrBadParam, db)
         else if flt ''append'' \<or> list_ex (\<lambda>q. P q \<and> QuotaMax q + delta > int32_max) (quotas db) then (Inl OemDbError, db)
         else if affected P (quotas db) = 0 then (Inl ErrNotFound, db)
         else (GetQuota (flt ''get quota'') ord db', db'))"

subsection \<open>Signing\<close>

record SignInput =
  InOrder :: string
  Line :: string
  InDigest :: string

record SignResult =
  RSN :: string
  Signature :: string
  Existing :: bool

type_synonym signer = "nat \<Rightarrow> string \<Rightarrow> string option"

definition existing :: "bool \<Rightarrow> signer \<Rightarrow> nat \<Rightarrow> string \<Rightarrow> OemDb \<Rightarrow> oem_error + SignResult option" where
  "existing fails sign salt digest db =
     (if fails then Inl OemDbError
      else case find (\<lambda>r. MDigest r = digest) (digest_maps db) of
        None \<Rightarrow> Inr None
      | Some r \<Rightarrow>
          (case sign salt digest of
             None \<Rightarrow> Inl OemDbError
           | Some sig \<Rightarrow> Inr (Some \<lparr>RSN = MSN r, Signature = sig, Existing = True\<rparr>)))"

text \<open>
  \<open>UPDATE oem_quotas SET registered = registered + 1, ... WHERE ... RETURNING product_key\<close>: the product, when a row qualifies. The row
  stays locked until the transaction ends, and the change shows when it commits.
\<close>

definition quota_open :: "string \<Rightarrow> Quota \<Rightarrow> bool" where
  "quota_open ord q \<longleftrightarrow> OrderNo q = ord \<and> QStatus q = 1 \<and> Registered q < QuotaMax q"

definition take_quota :: "string \<Rightarrow> OemDb \<Rightarrow> string option" where
  "take_quota ord db = map_option ProductKey (find (quota_open ord) (quotas db))"

definition taken :: "Quota \<Rightarrow> Quota" where
  "taken q = q\<lparr>Registered := Registered q + 1, QStatus := (if Registered q + 1 \<ge> QuotaMax q then 2 else QStatus q)\<rparr>"

text \<open>\<open>INCR sn:seq:{yymmdd}\<close>, which is not part of the transaction.\<close>

definition NextSeq :: "string \<Rightarrow> OemDb \<Rightarrow> int \<times> OemDb" where
  "NextSeq day db = (seqs db day + 1, db\<lparr>seqs := (seqs db)(day := seqs db day + 1)\<rparr>)"

text \<open>
  The two insertions and the commit, which can be reported lost although it took effect. A digest or serial number that is
  there already is SQL state 23505.
\<close>

datatype end_of_tx = Committed | Race | TxFailed

definition finish_sign :: "(string \<Rightarrow> bool) \<Rightarrow> SignInput \<Rightarrow> string \<Rightarrow> string \<Rightarrow> string \<Rightarrow> OemDb \<Rightarrow> end_of_tx \<times> OemDb" where
  "finish_sign flt i key sn sig db =
     (if flt ''insert digest'' then (TxFailed, db)
      else if list_ex (\<lambda>r. MDigest r = InDigest i \<or> MSN r = sn) (digest_maps db) then (Race, db)
      else if flt ''insert device'' \<or> list_ex (\<lambda>d. ESN d = sn) (oem_devices db) \<or> flt ''commit'' then (TxFailed, db)
      else (if flt ''commit lost'' then TxFailed else Committed, db\<lparr>
        quotas := update_where (quota_open (InOrder i)) taken (quotas db),
        digest_maps := digest_maps db @ [\<lparr>MDigest = InDigest i, MSN = sn, MOrder = InOrder i\<rparr>],
        oem_devices := oem_devices db @ [\<lparr>ESN = sn, EDigest = InDigest i, ESig = sig, EKey = key\<rparr>]\<rparr>))"

text \<open>
  \<open>between\<close> is what others do after the first look at the digest, \<open>during\<close> what they do while the quota row is locked.
\<close>

record Others =
  oflt :: "string \<Rightarrow> bool"
  between_checks :: "OemDb \<Rightarrow> OemDb"
  during_tx :: "OemDb \<Rightarrow> OemDb"
  day_now :: string
  osalt :: nat

definition SignDigest :: "Others \<Rightarrow> signer \<Rightarrow> SignInput \<Rightarrow> OemDb \<Rightarrow> (oem_error + SignResult) \<times> OemDb" where
  "SignDigest w sign i db0 =
     (if InOrder i = [] \<or> length (InDigest i) \<noteq> 64 then (Inl ErrBadParam, db0)
      else case existing (oflt w ''existing'') sign (osalt w) (InDigest i) db0 of
        Inl e \<Rightarrow> (Inl e, db0)
      | Inr (Some r) \<Rightarrow> (Inr r, db0)
      | Inr None \<Rightarrow>
          (let db1 = between_checks w db0 in
           if oflt w ''begin'' then (Inl OemDbError, db1)
           else if oflt w ''quota update'' then (Inl OemDbError, db1)
           else case take_quota (InOrder i) db1 of
             None \<Rightarrow> (Inl ErrNoQuota, db1)
           | Some key \<Rightarrow>
               (let db2 = during_tx w db1 in
                if oflt w ''seq'' then (Inl OemDbError, db2)
                else case NextSeq (day_now w) db2 of (seq, db3) \<Rightarrow>
                  (let sn = BuildSN key (day_now w) (Line i) seq in
                   case sign (osalt w) (InDigest i) of
                     None \<Rightarrow> (Inl OemDbError, db3)
                   | Some sig \<Rightarrow>
                       (case finish_sign (oflt w) i key sn sig db3 of
                          (Committed, db4) \<Rightarrow> (Inr \<lparr>RSN = sn, Signature = sig, Existing = False\<rparr>, db4)
                        | (TxFailed, db4) \<Rightarrow> (Inl OemDbError, db4)
                        | (Race, db4) \<Rightarrow>
                            (case existing (oflt w ''existing again'') sign (osalt w) (InDigest i) db4 of
                               Inr (Some r) \<Rightarrow> (Inr r, db4)
                             | _ \<Rightarrow> (Inl ErrConflict, db4)))))))"

text \<open>The handler behind \<open>POST /api/v1/oem/sign\<close>.\<close>

record 's Oem =
  ODB :: OemDb
  OGuard :: "'s ReplayGuard"

definition Sign ::
  "(string \<Rightarrow> duration \<Rightarrow> time \<Rightarrow> 's \<Rightarrow> bool \<times> 's) \<Rightarrow> (string \<Rightarrow> string option) \<Rightarrow> Others \<Rightarrow> signer \<Rightarrow> bool \<Rightarrow> time \<Rightarrow> time \<Rightarrow>
   string \<Rightarrow> string \<Rightarrow> string \<Rightarrow> 's Oem \<Rightarrow> (oem_error + SignResult) \<times> 's Oem" where
  "Sign seen decrypt w sign fails tf tn ord line payload s =
     (case decrypt payload of
        None \<Rightarrow> (Inl ErrBadParam, s)
      | Some pt \<Rightarrow>
          (case ParsePayload pt of
             None \<Rightarrow> (Inl ErrBadParam, s)
           | Some p \<Rightarrow>
               (case checkReplay seen fails tf tn p (OGuard s) of
                  (Some e, g) \<Rightarrow> (Inl e, s\<lparr>OGuard := g\<rparr>)
                | (None, g) \<Rightarrow>
                    (case SignDigest w sign \<lparr>InOrder = ord, Line = line, InDigest = PDigest p\<rparr> (ODB s) of
                       (Inr r, db) \<Rightarrow> (Inr r, \<lparr>ODB = db, OGuard = gcount (if Existing r then ''sign_existing'' else ''sign_ok'') g\<rparr>)
                     | (Inl e, db) \<Rightarrow> (Inl e, \<lparr>ODB = db, OGuard = (if e = ErrNoQuota then gcount ''sign_no_quota'' g else g)\<rparr>)))))"

subsection \<open>Verification\<close>

record VerifyResult =
  VOK :: bool
  VStep :: string

definition Verify :: "bool \<Rightarrow> (string \<Rightarrow> string \<Rightarrow> bool) \<Rightarrow> string \<Rightarrow> string \<Rightarrow> string \<Rightarrow> OemDb \<Rightarrow> oem_error + VerifyResult" where
  "Verify fails verify sn digest sig db =
     (if fails then Inl OemDbError
      else case find (\<lambda>d. ESN d = sn) (oem_devices db) of
        None \<Rightarrow> Inr \<lparr>VOK = False, VStep = ''exists''\<rparr>
      | Some d \<Rightarrow>
          if EDigest d \<noteq> digest then Inr \<lparr>VOK = False, VStep = ''digest''\<rparr>
          else if \<not> verify digest sig then Inr \<lparr>VOK = False, VStep = ''signature''\<rparr>
          else Inr \<lparr>VOK = True, VStep = ''signature''\<rparr>)"


subsection \<open>Replicas side by side\<close>

text \<open>
  A transaction in flight holds the row of its order. Changes of that row wait for it; the sequence counters live outside
  the database, are not rolled back and can be lost.
\<close>

type_synonym flight = "SignInput \<times> string"

definition row_locked :: "string \<Rightarrow> flight list \<Rightarrow> bool" where
  "row_locked ord fl \<longleftrightarrow> list_ex (\<lambda>(i, key). InOrder i = ord) fl"

inductive oem_step :: "signer \<Rightarrow> OemDb \<times> flight list \<Rightarrow> OemDb \<times> flight list \<Rightarrow> bool" for sign :: signer where
  quota_new: "oem_step sign (db, fl) (snd (CreateQuota flt ord supplier key n db), fl)"
| quota_more: "\<not> row_locked ord fl \<Longrightarrow> oem_step sign (db, fl) (snd (AppendQuota flt ord delta db), fl)"
| tx_take: "\<not> row_locked (InOrder i) fl \<Longrightarrow> take_quota (InOrder i) db = Some key \<Longrightarrow> oem_step sign (db, fl) (db, (i, key) # fl)"
| tx_seq: "oem_step sign (db, fl) (snd (NextSeq day db), fl)"
| seq_lost: "oem_step sign (db, fl) (db\<lparr>seqs := f\<rparr>, fl)"
| tx_finish: "(i, key) \<in> set fl \<Longrightarrow> sign salt (InDigest i) = Some sig \<Longrightarrow>
    oem_step sign (db, fl) (snd (finish_sign flt i key (BuildSN key day line seq) sig db), remove1 (i, key) fl)"
| tx_abort: "(i, key) \<in> set fl \<Longrightarrow> oem_step sign (db, fl) (db, remove1 (i, key) fl)"

definition empty_oem :: OemDb where
  "empty_oem = \<lparr>quotas = [], digest_maps = [], oem_devices = [], seqs = (\<lambda>_. 0)\<rparr>"

definition oem_reach :: "signer \<Rightarrow> OemDb \<Rightarrow> flight list \<Rightarrow> bool" where
  "oem_reach sign db fl \<longleftrightarrow> (oem_step sign)\<^sup>*\<^sup>* (empty_oem, []) (db, fl)"

definition signed_under :: "OemDb \<Rightarrow> string \<Rightarrow> nat" where
  "signed_under db ord = affected (\<lambda>r. MOrder r = ord) (digest_maps db)"

definition quota_row_ok :: "OemDb \<Rightarrow> Quota \<Rightarrow> bool" where
  "quota_row_ok db q \<longleftrightarrow> Registered q \<le> QuotaMax q \<and> Registered q = int (signed_under db (OrderNo q))"

definition quotas_ok :: "OemDb \<Rightarrow> bool" where
  "quotas_ok db \<longleftrightarrow> distinct (map OrderNo (quotas db)) \<and> (\<forall>q \<in> set (quotas db). quota_row_ok db q) \<and>
     (\<forall>r \<in> set (digest_maps db). MOrder r \<in> OrderNo ` set (quotas db))"

definition devices_ok :: "signer \<Rightarrow> OemDb \<Rightarrow> bool" where
  "devices_ok sign db \<longleftrightarrow> distinct (map MDigest (digest_maps db)) \<and> distinct (map MSN (digest_maps db)) \<and>
     map (\<lambda>d. (ESN d, EDigest d)) (oem_devices db) = map (\<lambda>r. (MSN r, MDigest r)) (digest_maps db) \<and>
     (\<forall>r \<in> set (digest_maps db). ValidSN23 (MSN r)) \<and>
     (\<forall>d \<in> set (oem_devices db). \<exists>salt. sign salt (EDigest d) = Some (ESig d))"

definition flight_ok :: "OemDb \<Rightarrow> flight \<Rightarrow> bool" where
  "flight_ok db x \<longleftrightarrow> (\<exists>q \<in> set (quotas db). quota_open (InOrder (fst x)) q \<and> ProductKey q = snd x)"

definition flights_ok :: "OemDb \<Rightarrow> flight list \<Rightarrow> bool" where
  "flights_ok db fl \<longleftrightarrow> distinct (map (InOrder \<circ> fst) fl) \<and> (\<forall>x \<in> set fl. flight_ok db x)"

lemma take_quota_open: "take_quota ord db = Some key \<Longrightarrow> \<exists>q \<in> set (quotas db). quota_open ord q \<and> ProductKey q = key"
  by (auto simp: take_quota_def find_Some_iff)

lemma finish_sign_cases:
  assumes "finish_sign flt i key sn sig db = (x, db')"
  shows "db' = db \<or> (\<not> list_ex (\<lambda>r. MDigest r = InDigest i \<or> MSN r = sn) (digest_maps db) \<and>
    db' = db\<lparr>quotas := update_where (quota_open (InOrder i)) taken (quotas db),
        digest_maps := digest_maps db @ [\<lparr>MDigest = InDigest i, MSN = sn, MOrder = InOrder i\<rparr>],
        oem_devices := oem_devices db @ [\<lparr>ESN = sn, EDigest = InDigest i, ESig = sig, EKey = key\<rparr>]\<rparr>)"
  using assms by (simp only: finish_sign_def prod.inject split: if_split_asm) blast+

lemma devices_finish:
  assumes "devices_ok sign db" "finish_sign flt i key (BuildSN key day line seq) sig db = (x, db')" "sign salt (InDigest i) = Some sig"
  shows "devices_ok sign db'"
  using finish_sign_cases[OF assms(2)]
proof (elim disjE conjE)
  assume "db' = db"
  then show ?thesis using assms(1) by simp
next
  assume 2: "\<not> list_ex (\<lambda>r. MDigest r = InDigest i \<or> MSN r = BuildSN key day line seq) (digest_maps db)"
    "db' = db\<lparr>quotas := update_where (quota_open (InOrder i)) taken (quotas db),
        digest_maps := digest_maps db @ [\<lparr>MDigest = InDigest i, MSN = BuildSN key day line seq, MOrder = InOrder i\<rparr>],
        oem_devices := oem_devices db @ [\<lparr>ESN = BuildSN key day line seq, EDigest = InDigest i, ESig = sig, EKey = key\<rparr>]\<rparr>"
  then have "InDigest i \<notin> MDigest ` set (digest_maps db)" "BuildSN key day line seq \<notin> MSN ` set (digest_maps db)"
    by (auto simp: list_ex_iff)
  then show ?thesis using assms(1,3) unfolding 2(2) devices_ok_def
    by (simp add: BuildSN_valid) blast
qed

text \<open>The row of the order is the only open one: taking a unit adds one to its count and to nothing else.\<close>

lemma quotas_finish:
  assumes "quotas_ok db" "finish_sign flt i key sn sig db = (x, db')" "\<exists>q \<in> set (quotas db). quota_open (InOrder i) q"
  shows "quotas_ok db'"
  using finish_sign_cases[OF assms(2)]
proof (elim disjE conjE)
  assume "db' = db"
  then show ?thesis using assms(1) by simp
next
  assume 2: "\<not> list_ex (\<lambda>r. MDigest r = InDigest i \<or> MSN r = sn) (digest_maps db)"
    "db' = db\<lparr>quotas := update_where (quota_open (InOrder i)) taken (quotas db),
        digest_maps := digest_maps db @ [\<lparr>MDigest = InDigest i, MSN = sn, MOrder = InOrder i\<rparr>],
        oem_devices := oem_devices db @ [\<lparr>ESN = sn, EDigest = InDigest i, ESig = sig, EKey = key\<rparr>]\<rparr>"
  let ?qs = "update_where (quota_open (InOrder i)) taken (quotas db)"
  obtain p where p: "p \<in> set (quotas db)" "quota_open (InOrder i) p" using assms(3) by blast
  have ids: "map OrderNo ?qs = map OrderNo (quotas db)" by (rule map_update_where_frame) (simp add: taken_def)
  have uniq: "q = p" if "q \<in> set (quotas db)" "OrderNo q = InOrder i" for q
    using that p assms(1) by (auto simp: quotas_ok_def quota_open_def distinct_map inj_on_def)
  have "quota_row_ok db' (if quota_open (InOrder i) q then taken q else q)"
    if q: "q \<in> set (quotas db)" for q
  proof -
    have old: "Registered q \<le> QuotaMax q" "Registered q = int (signed_under db (OrderNo q))"
      using assms(1) q unfolding quotas_ok_def quota_row_ok_def by blast+
    have new: "signed_under db' (OrderNo q) = signed_under db (OrderNo q) + (if InOrder i = OrderNo q then 1 else 0)"
      unfolding 2(2) by (simp add: signed_under_def)
    show ?thesis
    proof (cases "quota_open (InOrder i) q")
      case True
      then show ?thesis using old new by (auto simp: quota_row_ok_def taken_def quota_open_def)
    next
      case False
      then have "OrderNo q \<noteq> InOrder i" using uniq[OF q] p(2) by blast
      then show ?thesis using old new False by (simp add: quota_row_ok_def)
    qed
  qed
  then have "\<forall>q \<in> set ?qs. quota_row_ok db' q"
    unfolding ball_update_where by blast
  moreover have "OrderNo ` set ?qs = OrderNo ` set (quotas db)" using ids by (metis set_map)
  moreover have "InOrder i \<in> OrderNo ` set (quotas db)"
    using p(1) by (rule rev_image_eqI) (use p(2) in \<open>simp add: quota_open_def\<close>)
  moreover have "distinct (map OrderNo ?qs)" using assms(1) ids by (simp add: quotas_ok_def)
  moreover have "\<forall>r \<in> set (digest_maps db). MOrder r \<in> OrderNo ` set (quotas db)" using assms(1) by (simp add: quotas_ok_def)
  moreover have "quotas db' = ?qs" "digest_maps db' = digest_maps db @ [\<lparr>MDigest = InDigest i, MSN = sn, MOrder = InOrder i\<rparr>]"
    using 2(2) by simp_all
  ultimately show ?thesis by (simp add: quotas_ok_def)
qed


lemma row_locked_iff: "row_locked ord fl \<longleftrightarrow> ord \<in> set (map (InOrder \<circ> fst) fl)"
  by (force simp: row_locked_def list_ex_iff)

lemma flights_drop:
  assumes "flights_ok db fl"
  shows "flights_ok db (remove1 x fl)"
  unfolding flights_ok_def
proof (intro conjI ballI)
  show "distinct (map (InOrder \<circ> fst) (remove1 x fl))" using assms unfolding flights_ok_def by (blast intro: distinct_map_remove1)
  fix y assume "y \<in> set (remove1 x fl)"
  then have "y \<in> set fl" by (rule set_mp[OF set_remove1_subset])
  then show "flight_ok db y" using assms unfolding flights_ok_def by blast
qed

lemma flights_finish:
  assumes "flights_ok db fl" "(i, key) \<in> set fl" "finish_sign flt i key' sn sig db = (x, db')"
  shows "flights_ok db' (remove1 (i, key) fl)"
  using finish_sign_cases[OF assms(3)]
proof (elim disjE conjE)
  assume "db' = db"
  then show ?thesis using flights_drop[OF assms(1)] by simp
next
  assume db': "db' = db\<lparr>quotas := update_where (quota_open (InOrder i)) taken (quotas db),
        digest_maps := digest_maps db @ [\<lparr>MDigest = InDigest i, MSN = sn, MOrder = InOrder i\<rparr>],
        oem_devices := oem_devices db @ [\<lparr>ESN = sn, EDigest = InDigest i, ESig = sig, EKey = key'\<rparr>]\<rparr>"
  have d: "distinct (map (InOrder \<circ> fst) fl)" using assms(1) by (simp add: flights_ok_def)
  have "flight_ok db' y" if y: "y \<in> set (remove1 (i, key) fl)" for y
  proof -
    have "y \<in> set fl" using y set_remove1_subset[of "(i, key)" fl] by blast
    then obtain q where q: "q \<in> set (quotas db)" "quota_open (InOrder (fst y)) q" "ProductKey q = snd y"
      using assms(1) unfolding flights_ok_def flight_ok_def by blast
    have "InOrder (fst y) \<noteq> InOrder i" using remove1_fresh[OF d assms(2) y] by simp
    then have "\<not> quota_open (InOrder i) q" using q(2) by (auto simp: quota_open_def)
    then have "q \<in> set (quotas db')" using q(1) by (simp add: db' set_update_where)
    then show ?thesis using q unfolding flight_ok_def by blast
  qed
  then show ?thesis using distinct_map_remove1[OF d] unfolding flights_ok_def by blast
qed

definition oem_inv :: "signer \<Rightarrow> OemDb \<times> flight list \<Rightarrow> bool" where
  "oem_inv sign st \<longleftrightarrow> quotas_ok (fst st) \<and> devices_ok sign (fst st) \<and> flights_ok (fst st) (snd st)"

lemma CreateQuota_inv:
  assumes "oem_inv sign (db, fl)"
  shows "oem_inv sign (snd (CreateQuota flt ord supplier key n db), fl)"
proof (cases "snd (CreateQuota flt ord supplier key n db) = db")
  case False
  let ?q = "\<lparr>OrderNo = ord, Supplier = supplier, ProductKey = key, QuotaMax = n, Registered = 0, QStatus = 1\<rparr>"
  from False have new: "snd (CreateQuota flt ord supplier key n db) = db\<lparr>quotas := quotas db @ [?q]\<rparr>" "0 \<le> n" "ord \<notin> OrderNo ` set (quotas db)"
    by (auto simp: CreateQuota_def Let_def list_ex_iff split: if_splits)
  have "quotas_ok db" "flights_ok db fl" "devices_ok sign db" using assms by (simp_all add: oem_inv_def)
  moreover from \<open>quotas_ok db\<close> have "signed_under db ord = 0"
    using new(3) unfolding signed_under_def affected_0_iff quotas_ok_def by blast
  moreover have "quota_row_ok (db\<lparr>quotas := x\<rparr>) = quota_row_ok db" for x by (simp add: quota_row_ok_def signed_under_def fun_eq_iff)
  ultimately show ?thesis using new(2,3) unfolding new(1) oem_inv_def
    by (simp add: quotas_ok_def devices_ok_def flights_ok_def flight_ok_def quota_row_ok_def[of db ?q])
qed (use assms in simp)

lemma AppendQuota_inv:
  assumes "oem_inv sign (db, fl)" "\<not> row_locked ord fl"
  shows "oem_inv sign (snd (AppendQuota flt ord delta db), fl)"
proof (cases "snd (AppendQuota flt ord delta db) = db")
  case False
  let ?f = "\<lambda>q. q\<lparr>QuotaMax := QuotaMax q + delta, QStatus := 1\<rparr>"
  let ?qs = "update_where (\<lambda>q. OrderNo q = ord) ?f (quotas db)"
  from False have new: "snd (AppendQuota flt ord delta db) = db\<lparr>quotas := ?qs\<rparr>" "0 < delta"
    by (auto simp: AppendQuota_def Let_def split: if_splits)
  have inv: "quotas_ok db" "flights_ok db fl" "devices_ok sign db" using assms(1) by (simp_all add: oem_inv_def)
  have ids: "map OrderNo ?qs = map OrderNo (quotas db)" by (rule map_update_where_frame) simp
  have "quota_row_ok (db\<lparr>quotas := ?qs\<rparr>) (if OrderNo q = ord then ?f q else q)" if "quota_row_ok db q" for q
    using that new(2) by (auto simp: quota_row_ok_def signed_under_def)
  then have "\<forall>q \<in> set ?qs. quota_row_ok (db\<lparr>quotas := ?qs\<rparr>) q"
    unfolding ball_update_where using inv(1) unfolding quotas_ok_def by blast
  moreover have "OrderNo ` set ?qs = OrderNo ` set (quotas db)" using ids by (metis set_map)
  ultimately have "quotas_ok (db\<lparr>quotas := ?qs\<rparr>)"
    using inv(1) ids unfolding quotas_ok_def by simp
  moreover have "flights_ok (db\<lparr>quotas := ?qs\<rparr>) fl"
  proof -
    have "flight_ok (db\<lparr>quotas := ?qs\<rparr>) y" if y: "y \<in> set fl" for y
    proof -
      obtain q where q: "q \<in> set (quotas db)" "quota_open (InOrder (fst y)) q" "ProductKey q = snd y"
        using inv(2) y unfolding flights_ok_def flight_ok_def by blast
      have "InOrder (fst y) \<noteq> ord" using assms(2) y by (force simp: row_locked_iff)
      then have "q \<in> set ?qs" using q by (auto simp: set_update_where quota_open_def)
      then show ?thesis using q by (auto simp: flight_ok_def)
    qed
    then show ?thesis using inv(2) unfolding flights_ok_def by blast
  qed
  moreover have "devices_ok sign (db\<lparr>quotas := ?qs\<rparr>)" using inv(3) by (simp add: devices_ok_def)
  ultimately show ?thesis by (simp add: oem_inv_def new(1))
qed (use assms in simp)

lemma seqs_inv: "oem_inv sign (db\<lparr>seqs := f\<rparr>, fl) = oem_inv sign (db, fl)"
proof -
  have "quota_row_ok (db\<lparr>seqs := f\<rparr>) = quota_row_ok db" by (simp add: quota_row_ok_def signed_under_def fun_eq_iff)
  then show ?thesis by (simp add: oem_inv_def quotas_ok_def devices_ok_def flights_ok_def flight_ok_def)
qed

lemma oem_step_inv: "oem_step sign st st' \<Longrightarrow> oem_inv sign st \<Longrightarrow> oem_inv sign st'"
proof (induction rule: oem_step.induct)
  case (quota_new db fl flt ord supplier key n)
  then show ?case by (rule CreateQuota_inv)
next
  case (quota_more ord fl db flt delta)
  then show ?case by (intro AppendQuota_inv)
next
  case (tx_take i fl db key)
  then show ?case using take_quota_open[OF tx_take(2)] by (auto simp: oem_inv_def flights_ok_def flight_ok_def row_locked_iff)
next
  case (tx_seq db fl day)
  then show ?case by (simp add: NextSeq_def seqs_inv)
next
  case (seq_lost db fl f)
  then show ?case by (simp add: seqs_inv)
next
  case (tx_finish i key fl salt sig db flt day line seq)
  obtain x db' where f: "finish_sign flt i key (BuildSN key day line seq) sig db = (x, db')" by fastforce
  have "\<exists>q \<in> set (quotas db). quota_open (InOrder i) q"
    using tx_finish(1,3) by (fastforce simp: oem_inv_def flights_ok_def flight_ok_def)
  moreover have inv: "quotas_ok db" "devices_ok sign db" "flights_ok db fl" using tx_finish(3) by (simp_all add: oem_inv_def)
  ultimately have "quotas_ok db'" "devices_ok sign db'" "flights_ok db' (remove1 (i, key) fl)"
    using quotas_finish[OF inv(1) f] devices_finish[OF inv(2) f tx_finish(2)] flights_finish[OF inv(3) tx_finish(1) f] by blast+
  then show ?case using f by (simp add: oem_inv_def)
next
  case (tx_abort i key fl db)
  then show ?case by (simp add: oem_inv_def flights_drop)
qed

lemma oem_reach_inv: "oem_reach sign db fl \<Longrightarrow> oem_inv sign (db, fl)"
proof -
  have "(oem_step sign)\<^sup>*\<^sup>* st st' \<Longrightarrow> oem_inv sign st \<Longrightarrow> oem_inv sign st'" for st st'
    by (induction rule: rtranclp_induct) (auto intro: oem_step_inv)
  moreover have "oem_inv sign (empty_oem, [])"
    by (simp add: oem_inv_def empty_oem_def quotas_ok_def devices_ok_def flights_ok_def)
  ultimately show "oem_reach sign db fl \<Longrightarrow> ?thesis" by (auto simp: oem_reach_def)
qed

subsection \<open>What the service promises\<close>

text \<open>
  The signing transaction is made of the steps above: when the others' work before and during it is, so is the whole of
  \<open>SignDigest\<close>, on every branch, errors and lost commits included. \<open>flb\<close> are the transactions in flight when the quota
  is taken (none for this order), \<open>flc\<close> those when the insertions run, this one among them.
\<close>

theorem SignDigest_steps:
  assumes "(oem_step sign)\<^sup>*\<^sup>* (db0, fla) (between_checks w db0, flb)" "\<not> row_locked (InOrder i) flb"
    and "\<And>key. (oem_step sign)\<^sup>*\<^sup>* (between_checks w db0, (i, key) # flb) (during_tx w (between_checks w db0), flc key)"
    and "\<And>key. (i, key) \<in> set (flc key)"
  shows "\<exists>fl. (oem_step sign)\<^sup>*\<^sup>* (db0, fla) (snd (SignDigest w sign i db0), fl)"
proof (cases "snd (SignDigest w sign i db0) \<in> {db0, between_checks w db0}")
  case True
  then show ?thesis using assms(1) by (elim insertE emptyE) (auto intro: exI[of _ fla])
next
  case False
  let ?db1 = "between_checks w db0" and ?db2 = "during_tx w (between_checks w db0)"
  have pre: "\<not> (InOrder i = [] \<or> length (InDigest i) \<noteq> 64)" "existing (oflt w ''existing'') sign (osalt w) (InDigest i) db0 = Inr None"
    "\<not> oflt w ''begin''" "\<not> oflt w ''quota update''"
    using False unfolding SignDigest_def by (auto simp: Let_def split: sum.split_asm option.split_asm if_split_asm)
  have "take_quota (InOrder i) ?db1 \<noteq> None" 
  proof
    assume "take_quota (InOrder i) ?db1 = None"
    then show False using False pre by (simp add: SignDigest_def)
  qed
  then obtain key where key: "take_quota (InOrder i) ?db1 = Some key" by blast
  have in_tx: "(oem_step sign)\<^sup>*\<^sup>* (db0, fla) (?db2, flc key)"
    using assms(1) oem_step.tx_take[OF assms(2) key] assms(3)[of key] by (meson rtranclp.rtrancl_into_rtrancl rtranclp_trans)
  let ?n = "fst (NextSeq (day_now w) ?db2)" and ?db3 = "snd (NextSeq (day_now w) ?db2)"
  let ?sn = "BuildSN key (day_now w) (Line i) ?n"
  have in_tx3: "(oem_step sign)\<^sup>*\<^sup>* (db0, fla) (?db3, flc key)"
    using in_tx oem_step.tx_seq by (rule rtranclp.rtrancl_into_rtrancl)
  have "snd (SignDigest w sign i db0) \<in> {?db2, ?db3} \<or>
    (\<exists>sig. sign (osalt w) (InDigest i) = Some sig \<and>
       snd (SignDigest w sign i db0) = snd (finish_sign (oflt w) i key ?sn sig ?db3))"
  proof (cases "oflt w ''seq'' \<or> sign (osalt w) (InDigest i) = None")
    case True
    then show ?thesis using pre key by (auto simp: SignDigest_def Let_def case_prod_beta)
  next
    case False
    then obtain sig where sig: "sign (osalt w) (InDigest i) = Some sig" "\<not> oflt w ''seq''" by blast
    then have "snd (SignDigest w sign i db0) = snd (finish_sign (oflt w) i key ?sn sig ?db3)"
      using pre key by (simp add: SignDigest_def Let_def case_prod_beta split: end_of_tx.split sum.split option.split)
    then show ?thesis using sig by blast
  qed
  then show ?thesis
  proof (elim disjE exE conjE)
    assume "snd (SignDigest w sign i db0) \<in> {?db2, ?db3}"
    then show ?thesis using in_tx in_tx3 by auto
  next
    fix sig assume "sign (osalt w) (InDigest i) = Some sig" "snd (SignDigest w sign i db0) = snd (finish_sign (oflt w) i key ?sn sig ?db3)"
    then show ?thesis using in_tx3 oem_step.tx_finish[where db = ?db3, OF assms(4)] by (metis rtranclp.rtrancl_into_rtrancl)
  qed
qed

definition others_ok :: "string \<Rightarrow> Others" where
  "others_ok day = \<lparr>oflt = (\<lambda>_. False), between_checks = id, during_tx = id, day_now = day, osalt = 0\<rparr>"

definition demo_signer :: signer where
  "demo_signer salt d = Some (CHR ''s'' # d)"

definition demo_in :: SignInput where
  "demo_in = \<lparr>InOrder = ''o'', Line = ''1'', InDigest = replicate 64 (CHR ''a'')\<rparr>"

definition demo_oem0 :: OemDb where
  "demo_oem0 = snd (CreateQuota (\<lambda>_. False) ''o'' ''acme'' ''vac1'' 1 empty_oem)"

definition demo_sn :: string where
  "demo_sn = BuildSN ''vac1'' ''260101'' ''1'' 1"

definition demo_oem1 :: OemDb where
  "demo_oem1 = snd (finish_sign (\<lambda>_. False) demo_in ''vac1'' demo_sn (CHR ''s'' # InDigest demo_in) demo_oem0)"

lemma demo_oem0_steps: "(oem_step demo_signer)\<^sup>*\<^sup>* (empty_oem, []) (demo_oem0, [])"
  unfolding demo_oem0_def by (rule r_into_rtranclp, rule oem_step.quota_new)

theorem SignDigest_steps_witness:
  "\<exists>fl. (oem_step demo_signer)\<^sup>*\<^sup>* (empty_oem, []) (snd (SignDigest (others_ok ''260101'') demo_signer demo_in empty_oem), fl)"
  by (rule SignDigest_steps[where fla = "[]" and flb = "[]" and flc = "\<lambda>key. [(demo_in, key)]"])
    (simp_all add: others_ok_def row_locked_def)

text \<open>
  C17: No order is oversold, with any number of replicas signing, orders being created and extended, lost counters and
  commits reported lost: the count of an order is the number of digests signed under it, and at most its quota.
\<close>

theorem quota_never_oversold:
  assumes "oem_reach sign db fl" "q \<in> set (quotas db)"
  shows "Registered q = int (signed_under db (OrderNo q)) \<and> Registered q \<le> QuotaMax q"
  using oem_reach_inv[OF assms(1)] assms(2) by (auto simp: oem_inv_def quotas_ok_def quota_row_ok_def)

lemma demo_oem0_eq: "demo_oem0 = empty_oem\<lparr>quotas := [\<lparr>OrderNo = ''o'', Supplier = ''acme'', ProductKey = ''vac1'', QuotaMax = 1, Registered = 0, QStatus = 1\<rparr>]\<rparr>"
  by (simp add: demo_oem0_def CreateQuota_def empty_oem_def Let_def)

lemma demo_oem1_eq: "demo_oem1 = \<lparr>quotas = [\<lparr>OrderNo = ''o'', Supplier = ''acme'', ProductKey = ''vac1'', QuotaMax = 1, Registered = 1, QStatus = 2\<rparr>],
    digest_maps = [\<lparr>MDigest = InDigest demo_in, MSN = demo_sn, MOrder = ''o''\<rparr>],
    oem_devices = [\<lparr>ESN = demo_sn, EDigest = InDigest demo_in, ESig = CHR ''s'' # InDigest demo_in, EKey = ''vac1''\<rparr>], seqs = (\<lambda>_. 0)\<rparr>"
  by (simp add: demo_oem1_def demo_oem0_eq finish_sign_def empty_oem_def demo_in_def quota_open_def taken_def)

lemma demo_oem1_reach: "oem_reach demo_signer demo_oem1 []"
proof -
  have "oem_step demo_signer (demo_oem0, []) (demo_oem0, [(demo_in, ''vac1'')])"
    by (rule oem_step.tx_take) (simp_all add: row_locked_def take_quota_def demo_oem0_eq demo_in_def quota_open_def)
  moreover have "oem_step demo_signer (demo_oem0, [(demo_in, ''vac1'')]) (demo_oem1, remove1 (demo_in, ''vac1'') [(demo_in, ''vac1'')])"
    unfolding demo_oem1_def demo_sn_def by (rule oem_step.tx_finish) (simp_all add: demo_signer_def)
  ultimately show ?thesis using demo_oem0_steps unfolding oem_reach_def by (simp add: rtranclp.rtrancl_into_rtrancl)
qed

theorem quota_never_oversold_witness:
  "Registered (hd (quotas demo_oem1)) = 1 \<and> int (signed_under demo_oem1 ''o'') = 1 \<and> QuotaMax (hd (quotas demo_oem1)) = 1"
  using quota_never_oversold[OF demo_oem1_reach, of "hd (quotas demo_oem1)"] by (simp add: demo_oem1_eq)

text \<open>
  C19: A digest has one serial number and a serial number one digest, every serial number carries its checksum, and the device
  table is the join of the two: row by row the same serial numbers and digests, each with a signature the signer made.
\<close>

theorem one_serial_per_device:
  assumes "oem_reach sign db fl"
  shows "distinct (map MDigest (digest_maps db)) \<and> distinct (map MSN (digest_maps db)) \<and>
     list_all (\<lambda>r. ValidSN23 (MSN r)) (digest_maps db) \<and>
     map (\<lambda>d. (ESN d, EDigest d)) (oem_devices db) = map (\<lambda>r. (MSN r, MDigest r)) (digest_maps db) \<and>
     list_all (\<lambda>d. \<exists>salt. sign salt (EDigest d) = Some (ESig d)) (oem_devices db)"
  using oem_reach_inv[OF assms] by (simp add: oem_inv_def devices_ok_def list_all_iff)

theorem one_serial_per_device_witness:
  "distinct (map MSN (digest_maps demo_oem1)) \<and> length (digest_maps demo_oem1) = 1"
  using one_serial_per_device[OF demo_oem1_reach] by (simp add: demo_oem1_eq)

text \<open>A digest keeps its serial number through every step.\<close>

definition sn_of :: "string \<Rightarrow> OemDb \<Rightarrow> string option" where
  "sn_of digest db = map_option MSN (find (\<lambda>r. MDigest r = digest) (digest_maps db))"

lemma find_append: "find P (xs @ ys) = (case find P xs of None \<Rightarrow> find P ys | Some x \<Rightarrow> Some x)"
  by (induction xs) auto

lemma finish_keeps_sn: "sn_of d db = Some n \<Longrightarrow> sn_of d (snd (finish_sign flt i key sn sig db)) = Some n"
  using finish_sign_cases[of flt i key sn sig db "fst (finish_sign flt i key sn sig db)" "snd (finish_sign flt i key sn sig db)"]
  by (auto simp: sn_of_def find_append split: option.splits)

lemma oem_step_keeps_sn: "oem_step sign st st' \<Longrightarrow> sn_of d (fst st) = Some n \<Longrightarrow> sn_of d (fst st') = Some n"
  by (induction rule: oem_step.induct)
    (auto simp: finish_keeps_sn NextSeq_def, auto simp: sn_of_def CreateQuota_def AppendQuota_def Let_def)

lemma oem_steps_keep_sn:
  "(oem_step sign)\<^sup>*\<^sup>* st st' \<Longrightarrow> sn_of d (fst st) = Some n \<Longrightarrow> sn_of d (fst st') = Some n"
  by (induction rule: rtranclp_induct) (auto intro: oem_step_keeps_sn)

lemma existing_sn: "existing f sign salt d db = Inr (Some r) \<Longrightarrow> sn_of d db = Some (RSN r)"
  by (auto simp: existing_def sn_of_def split: if_splits option.splits)

lemma committed_sn:
  assumes "finish_sign flt i key sn sig db = (Committed, db')"
  shows "sn_of (InDigest i) db' = Some sn"
proof -
  have "find (\<lambda>r. MDigest r = InDigest i) (digest_maps db) = None" using assms
    by (auto simp: finish_sign_def find_None_iff list_ex_iff split: if_splits)
  moreover have "digest_maps db' = digest_maps db @ [\<lparr>MDigest = InDigest i, MSN = sn, MOrder = InOrder i\<rparr>]"
    using assms by (auto simp: finish_sign_def split: if_splits)
  ultimately show ?thesis by (simp add: sn_of_def find_append)
qed

lemma SignDigest_sn:
  assumes "SignDigest w sign i db0 = (Inr r, db)"
  shows "sn_of (InDigest i) db = Some (RSN r)"
proof (cases "existing (oflt w ''existing'') sign (osalt w) (InDigest i) db0")
  case (Inr a)
  show ?thesis
  proof (cases a)
    case None
    let ?db2 = "during_tx w (between_checks w db0)"
    from assms Inr None obtain key where "take_quota (InOrder i) (between_checks w db0) = Some key" "\<not> oflt w ''seq''"
      by (auto simp: SignDigest_def Let_def split: if_split_asm option.split_asm)
    with assms Inr None obtain sn sig db3 where "(case finish_sign (oflt w) i key sn sig db3 of
          (Committed, db4) \<Rightarrow> (Inr \<lparr>RSN = sn, Signature = sig, Existing = False\<rparr>, db4)
        | (TxFailed, db4) \<Rightarrow> (Inl OemDbError, db4)
        | (Race, db4) \<Rightarrow> (case existing (oflt w ''existing again'') sign (osalt w) (InDigest i) db4 of
             Inr (Some r) \<Rightarrow> (Inr r, db4) | _ \<Rightarrow> (Inl ErrConflict, db4))) = (Inr r, db)"
      by (simp add: SignDigest_def Let_def case_prod_beta split: if_split_asm option.split_asm)
    then show ?thesis by (auto split: end_of_tx.split_asm sum.split_asm option.split_asm prod.split_asm dest: existing_sn committed_sn)
  next
    case (Some r')
    with assms Inr show ?thesis by (auto simp: SignDigest_def existing_sn split: if_splits)
  qed
qed (use assms in \<open>auto simp: SignDigest_def split: if_splits\<close>)

text \<open>
  Signing is idempotent. Once a digest was signed, whatever happens afterwards, a later request with the same digest that
  is not cut off by an error of the database or the signer returns the same serial number, marks it as existing, takes no
  quota and changes no table.
\<close>

theorem sign_idempotent:
  assumes "SignDigest w sign i db0 = (Inr r, db)" "(oem_step sign)\<^sup>*\<^sup>* (db, fl) (db', fl')"
    and "InDigest j = InDigest i" "InOrder j \<noteq> []" "\<not> oflt w' ''existing''" "sign (osalt w') (InDigest j) = Some sig"
  shows "SignDigest w' sign j db' = (Inr \<lparr>RSN = RSN r, Signature = sig, Existing = True\<rparr>, db')"
proof -
  have "length (InDigest i) = 64" using assms(1) by (auto simp: SignDigest_def split: if_splits)
  moreover have "sn_of (InDigest i) db' = Some (RSN r)"
    using oem_steps_keep_sn[OF assms(2)] SignDigest_sn[OF assms(1)] by simp
  ultimately show ?thesis using assms(3-6) by (auto simp: SignDigest_def existing_def sn_of_def split: option.splits)
qed

definition demo_signed :: OemDb where
  "demo_signed = snd (SignDigest (others_ok ''260101'') demo_signer demo_in demo_oem0)"

definition demo_result :: SignResult where
  "demo_result = \<lparr>RSN = demo_sn, Signature = CHR ''s'' # InDigest demo_in, Existing = False\<rparr>"

lemma demo_sign: "SignDigest (others_ok ''260101'') demo_signer demo_in demo_oem0 = (Inr demo_result, demo_signed)"
  by (rule prod_eqI) (simp_all add: demo_signed_def demo_result_def demo_sn_def SignDigest_def others_ok_def demo_oem0_eq empty_oem_def demo_in_def existing_def
      take_quota_def quota_open_def NextSeq_def demo_signer_def finish_sign_def Let_def)

theorem sign_idempotent_witness:
  "SignDigest (others_ok ''260707'') demo_signer demo_in demo_signed =
     (Inr \<lparr>RSN = demo_sn, Signature = CHR ''s'' # InDigest demo_in, Existing = True\<rparr>, demo_signed)"
  using sign_idempotent[OF demo_sign rtranclp.rtrancl_refl[of _ "(demo_signed, [])"], of demo_in "others_ok ''260707''"]
  by (simp add: demo_result_def demo_in_def others_ok_def demo_signer_def)

text \<open>
  What is signed verifies. In every state reached later the device of a signed digest passes the three steps with any signature
  that the verification function accepts, and fails at the step \<open>digest\<close> with any other digest.
\<close>

theorem signed_devices_verify:
  assumes "oem_reach sign db fl" "SignDigest w sign i db0 = (Inr r, db)" "(oem_step sign)\<^sup>*\<^sup>* (db, fl) (db', fl')"
    and "\<And>salt d s. sign salt d = Some s \<Longrightarrow> verify d s"
  shows "\<exists>sig. (\<exists>salt. sign salt (InDigest i) = Some sig) \<and>
      Verify False verify (RSN r) (InDigest i) sig db' = Inr \<lparr>VOK = True, VStep = ''signature''\<rparr> \<and>
      (\<forall>d sig. d \<noteq> InDigest i \<longrightarrow> Verify False verify (RSN r) d sig db' = Inr \<lparr>VOK = False, VStep = ''digest''\<rparr>)"
proof -
  have "oem_reach sign db' fl'" using assms(1,3) unfolding oem_reach_def by (rule rtranclp_trans)
  then have ok: "devices_ok sign db'" using oem_reach_inv by (fastforce simp: oem_inv_def)
  have "sn_of (InDigest i) db' = Some (RSN r)"
    using oem_steps_keep_sn[OF assms(3)] SignDigest_sn[OF assms(2)] by simp
  then obtain m where m: "find (\<lambda>r. MDigest r = InDigest i) (digest_maps db') = Some m" "MSN m = RSN r" by (auto simp: sn_of_def)
  then have m: "m \<in> set (digest_maps db')" "MDigest m = InDigest i" "MSN m = RSN r" by (auto simp: find_Some_iff)
  have join: "map (\<lambda>d. (ESN d, EDigest d)) (oem_devices db') = map (\<lambda>r. (MSN r, MDigest r)) (digest_maps db')"
    and sns: "distinct (map MSN (digest_maps db'))" using ok by (simp_all add: devices_ok_def)
  have "(RSN r, InDigest i) \<in> set (map (\<lambda>r. (MSN r, MDigest r)) (digest_maps db'))" using m by force
  then obtain d where d: "d \<in> set (oem_devices db')" "ESN d = RSN r" "EDigest d = InDigest i" unfolding join[symmetric] by auto
  have "map ESN (oem_devices db') = map MSN (digest_maps db')" using arg_cong[OF join, of "map fst"] by (simp add: comp_def)
  then have dist: "distinct (map ESN (oem_devices db'))" using sns by simp
  have "\<exists>d'. find (\<lambda>d. ESN d = RSN r) (oem_devices db') = Some d'" using d by (metis (mono_tags, lifting) find_None_iff not_None_eq)
  then obtain d' where f: "find (\<lambda>d. ESN d = RSN r) (oem_devices db') = Some d'" by blast
  then have "d' \<in> set (oem_devices db')" "ESN d' = RSN r" by (auto simp: find_Some_iff)
  then have "d' = d" using d dist by (auto simp: distinct_map inj_on_def)
  moreover obtain salt where "sign salt (InDigest i) = Some (ESig d)" using ok d unfolding devices_ok_def by metis
  ultimately show ?thesis using f d assms(4) by (auto simp: Verify_def)
qed

theorem signed_devices_verify_witness:
  "\<exists>sig. Verify False (\<lambda>d s. s = CHR ''s'' # d) demo_sn (InDigest demo_in) sig demo_signed = Inr \<lparr>VOK = True, VStep = ''signature''\<rparr>"
proof -
  have "oem_step demo_signer (demo_oem0, []) (demo_oem0, [(demo_in, ''vac1'')])"
    by (rule oem_step.tx_take) (simp_all add: row_locked_def take_quota_def demo_oem0_eq demo_in_def quota_open_def)
  moreover have "oem_step demo_signer (demo_oem0, [(demo_in, ''vac1'')]) (snd (NextSeq ''260101'' demo_oem0), [(demo_in, ''vac1'')])"
    by (rule oem_step.tx_seq)
  moreover have "oem_step demo_signer (snd (NextSeq ''260101'' demo_oem0), [(demo_in, ''vac1'')])
      (snd (finish_sign (\<lambda>_. False) demo_in ''vac1'' (BuildSN ''vac1'' ''260101'' ''1'' 1) (CHR ''s'' # InDigest demo_in) (snd (NextSeq ''260101'' demo_oem0))),
       remove1 (demo_in, ''vac1'') [(demo_in, ''vac1'')])"
    by (rule oem_step.tx_finish) (simp_all add: demo_signer_def)
  moreover have "snd (finish_sign (\<lambda>_. False) demo_in ''vac1'' (BuildSN ''vac1'' ''260101'' ''1'' 1) (CHR ''s'' # InDigest demo_in) (snd (NextSeq ''260101'' demo_oem0))) = demo_signed"
    by (simp add: demo_signed_def SignDigest_def others_ok_def demo_oem0_eq empty_oem_def demo_in_def existing_def
      take_quota_def quota_open_def NextSeq_def demo_signer_def finish_sign_def Let_def)
  ultimately have "oem_reach demo_signer demo_signed []"
    using demo_oem0_steps unfolding oem_reach_def by (simp add: rtranclp.rtrancl_into_rtrancl)
  from signed_devices_verify[OF this demo_sign rtranclp.rtrancl_refl, of "\<lambda>d s. s = CHR ''s'' # d"]
  show ?thesis by (auto simp: demo_result_def demo_signer_def)
qed

end
