(* ===== verification/Grants.thy ===== *)
theory Grants
  imports GoStrings
begin

text \<open>
  Permissions for support staff and agents, \<open>internal/support/grant.go\<close> with its statements in \<open>store.go\<close>, and the check
  the device API makes before it sends a command, \<open>internal/support/grantcheck\<close>. A user who owns the device confirms a
  request; the permission lasts fifteen minutes and can be withdrawn. Instants are microseconds, the resolution of the
  database. What the database does is an argument: \<open>flt\<close> names the statements that report an error.
\<close>

abbreviation support_minute :: duration where "support_minute \<equiv> 60000000"

subsection \<open>Rows\<close>

datatype support_error = SupNotFound | SupConflict | SupDenied | SupBadParam | SupUnavailable | SupDbError

record Grant =
  GrantID :: string
  GSN :: string
  GTicketID :: string
  GOperator :: string
  Actions :: "string list"
  GStatus :: string
  RequestedAt :: time
  GrantedAt :: "time option"
  ExpiresAt :: "time option"
  RevokedAt :: "time option"
  DeniedAt :: "time option"

record Binding =
  BindSN :: string
  BindUser :: int
  BindRole :: string
  BindUnbound :: bool

record SupDb =
  grants :: "Grant list"
  bindings :: "Binding list"

definition GrantTTL :: duration where
  "GrantTTL = 15 * support_minute"

subsection \<open>The status table\<close>

definition grantTransitions :: "(string \<times> string list) list" where
  "grantTransitions =
     [(''requested'', [''granted'', ''denied'']), (''granted'', [''revoked'']), (''denied'', []), (''revoked'', [])]"

definition GrantAllowed :: "string \<Rightarrow> string \<Rightarrow> bool" where
  "GrantAllowed from to = (case map_of grantTransitions from of None \<Rightarrow> False | Some tos \<Rightarrow> to \<in> set tos)"

text \<open>The states a move may start from; at most one for every target, so that the order is immaterial.\<close>

definition GrantSources :: "string \<Rightarrow> string list" where
  "GrantSources to = map fst (filter (\<lambda>(from, tos). to \<in> set tos) grantTransitions)"

lemma GrantSources_iff: "from \<in> set (GrantSources to) \<longleftrightarrow> GrantAllowed from to"
  by (auto simp: GrantSources_def GrantAllowed_def grantTransitions_def split: if_splits)

definition grant_rank :: "string \<Rightarrow> nat" where
  "grant_rank st = (if st = ''requested'' then 0 else if st = ''granted'' then 1 else 2)"

interpretation grant_life: status_machine GrantAllowed grant_rank
  by unfold_locales (auto simp: GrantAllowed_def grantTransitions_def grant_rank_def split: if_splits)

definition Effective :: "Grant \<Rightarrow> time \<Rightarrow> bool" where
  "Effective g now \<longleftrightarrow> GStatus g = ''granted'' \<and> RevokedAt g = None \<and> (case ExpiresAt g of None \<Rightarrow> False | Some e \<Rightarrow> e > now)"

subsection \<open>Requests\<close>

text \<open>\<open>^[A-Za-z0-9_-]{1,32}$\<close>.\<close>

definition ident_char :: "char \<Rightarrow> bool" where
  "ident_char c \<longleftrightarrow> sn_char c \<or> between CHR ''a'' CHR ''z'' c"

definition identRe :: "string \<Rightarrow> bool" where
  "identRe s \<longleftrightarrow> 1 \<le> length s \<and> length s \<le> 32 \<and> list_all ident_char s"

abbreviation ActionSelfCheck :: string where "ActionSelfCheck \<equiv> ''self_check''"

definition ValidGrantRequest :: "string \<Rightarrow> string \<Rightarrow> string \<Rightarrow> string list \<Rightarrow> support_error + string list" where
  "ValidGrantRequest sn ticket operator actions =
     (if \<not> identRe sn then Inl SupBadParam
      else if trimSpace ticket = [] \<or> length ticket > 64 then Inl SupBadParam
      else if trimSpace operator = [] \<or> length operator > 64 then Inl SupBadParam
      else if actions = [] then Inr [ActionSelfCheck]
      else if list_ex (\<lambda>a. a \<noteq> ActionSelfCheck) actions then Inl SupBadParam
      else Inr [ActionSelfCheck])"

definition InsertGrant :: "(string \<Rightarrow> bool) \<Rightarrow> Grant \<Rightarrow> SupDb \<Rightarrow> support_error option \<times> SupDb" where
  "InsertGrant flt g db =
     (if flt ''insert grant'' then (Some SupDbError, db)
      else if list_ex (\<lambda>h. GrantID h = GrantID g) (grants db) then (Some SupConflict, db)
      else if list_ex (\<lambda>a. a \<noteq> ActionSelfCheck) (Actions g) then (Some SupBadParam, db)
      else (None, db\<lparr>grants := grants db @ [g]\<rparr>))"

text \<open>\<open>id\<close> is the generated identifier.\<close>

definition RequestGrant ::
  "(string \<Rightarrow> bool) \<Rightarrow> string \<Rightarrow> time \<Rightarrow> string \<Rightarrow> string \<Rightarrow> string \<Rightarrow> string list \<Rightarrow> SupDb \<Rightarrow> (support_error + Grant) \<times> SupDb" where
  "RequestGrant flt gid now sn ticket operator actions db =
     (case ValidGrantRequest sn ticket operator actions of
        Inl e \<Rightarrow> (Inl e, db)
      | Inr acts \<Rightarrow>
          (let g = \<lparr>GrantID = gid, GSN = sn, GTicketID = ticket, GOperator = operator, Actions = acts, GStatus = ''requested'',
               RequestedAt = now, GrantedAt = None, ExpiresAt = None, RevokedAt = None, DeniedAt = None\<rparr>
           in case InsertGrant flt g db of (Some e, db') \<Rightarrow> (Inl e, db') | (None, db') \<Rightarrow> (Inr g, db')))"

subsection \<open>Decisions of the user\<close>

definition GetGrant :: "bool \<Rightarrow> string \<Rightarrow> SupDb \<Rightarrow> support_error + Grant" where
  "GetGrant fails gid db =
     (if fails then Inl SupDbError
      else case find (\<lambda>g. GrantID g = gid) (grants db) of None \<Rightarrow> Inl SupNotFound | Some g \<Rightarrow> Inr g)"

definition IsOwner :: "string \<Rightarrow> int \<Rightarrow> SupDb \<Rightarrow> bool" where
  "IsOwner sn user db \<longleftrightarrow>
     list_ex (\<lambda>b. BindSN b = sn \<and> BindUser b = user \<and> BindRole b = ''owner'' \<and> \<not> BindUnbound b) (bindings db)"

text \<open>The columns a move writes.\<close>

definition move_grant :: "string \<Rightarrow> time \<Rightarrow> Grant \<Rightarrow> Grant" where
  "move_grant to now g =
     (if to = ''granted'' then g\<lparr>GStatus := to, GrantedAt := Some now, ExpiresAt := Some (now + GrantTTL)\<rparr>
      else if to = ''denied'' then g\<lparr>GStatus := to, DeniedAt := Some now\<rparr>
      else g\<lparr>GStatus := to, RevokedAt := Some now\<rparr>)"

definition TransitionGrant :: "(string \<Rightarrow> bool) \<Rightarrow> string \<Rightarrow> string \<Rightarrow> time \<Rightarrow> SupDb \<Rightarrow> (support_error + bool) \<times> SupDb" where
  "TransitionGrant flt gid to now db =
     (if to \<notin> {''granted'', ''denied'', ''revoked''} then (Inl SupBadParam, db)
      else if GrantSources to = [] then (Inr False, db)
      else let P = (\<lambda>g. GrantID g = gid \<and> GStatus g \<in> set (GrantSources to)) in
        if flt ''move grant'' then (Inl SupDbError, db)
        else (if flt ''move grant lost'' then Inl SupDbError else Inr (affected P (grants db) = 1),
              db\<lparr>grants := update_where P (move_grant to now) (grants db)\<rparr>))"

text \<open>Others may work on the tables between the look at the owner and the update: \<open>others\<close>.\<close>

definition userTransition ::
  "(string \<Rightarrow> bool) \<Rightarrow> (SupDb \<Rightarrow> SupDb) \<Rightarrow> string \<Rightarrow> int \<Rightarrow> string \<Rightarrow> time \<Rightarrow> SupDb \<Rightarrow> (support_error + Grant) \<times> SupDb" where
  "userTransition flt others gid user to now db0 =
     (case GetGrant (flt ''get grant'') gid db0 of
        Inl e \<Rightarrow> (Inl e, db0)
      | Inr g \<Rightarrow>
          if flt ''owner'' then (Inl SupDbError, db0)
          else if \<not> IsOwner (GSN g) user db0 then (Inl SupDenied, db0)
          else (case TransitionGrant flt gid to now (others db0) of
              (Inl e, db) \<Rightarrow> (Inl e, db)
            | (Inr ok, db) \<Rightarrow> if \<not> ok then (Inl SupConflict, db) else (GetGrant (flt ''get again'') gid db, db)))"

definition ApproveGrant where "ApproveGrant flt others gid user = userTransition flt others gid user ''granted''"
definition DenyGrant where "DenyGrant flt others gid user = userTransition flt others gid user ''denied''"
definition RevokeGrant where "RevokeGrant flt others gid user = userTransition flt others gid user ''revoked''"

subsection \<open>The check before a command\<close>

definition NeedsGrant :: "string \<Rightarrow> bool" where
  "NeedsGrant source \<longleftrightarrow> source = ''support'' \<or> source = ''agent''"

definition AgentAllowed :: "string \<Rightarrow> bool" where
  "AgentAllowed action \<longleftrightarrow> action = ActionSelfCheck"

definition SourceFromHeader :: "string \<Rightarrow> string \<Rightarrow> string \<times> bool" where
  "SourceFromHeader header bodySource =
     (let h = toLower (trimSpace header) in
      (if h \<in> {''app'', ''support'', ''agent'', ''console''} then h else ''console'', trimSpace bodySource \<noteq> []))"

record GrantDecision =
  DOK :: bool
  DGrantID :: string
  DReason :: string

definition refuse :: "string \<Rightarrow> GrantDecision" where
  "refuse reason = \<lparr>DOK = False, DGrantID = [], DReason = reason\<rparr>"

text \<open>The row the query returns: of the effective permissions for the action the one granted last.\<close>

definition grant_covers :: "string \<Rightarrow> string \<Rightarrow> time \<Rightarrow> Grant \<Rightarrow> bool" where
  "grant_covers sn action now g \<longleftrightarrow> GSN g = sn \<and> action \<in> set (Actions g) \<and> Effective g now"

fun last_granted :: "Grant list \<Rightarrow> Grant option" where
  "last_granted [] = None"
| "last_granted (g # gs) =
     (case last_granted gs of None \<Rightarrow> Some g | Some h \<Rightarrow> Some (if the (GrantedAt g) \<ge> the (GrantedAt h) then g else h))"

definition Check :: "bool \<Rightarrow> bool \<Rightarrow> string \<Rightarrow> string \<Rightarrow> string \<Rightarrow> time \<Rightarrow> SupDb \<Rightarrow> GrantDecision option" where
  "Check configured fails sn source action now db =
     (if \<not> NeedsGrant source then Some \<lparr>DOK = True, DGrantID = [], DReason = []\<rparr>
      else if source = ''agent'' \<and> \<not> AgentAllowed action then Some (refuse ''agent may only self_check'')
      else if \<not> configured then Some (refuse ''grant checker not configured'')
      else if fails then None
      else case last_granted (filter (grant_covers sn action now) (grants db)) of
        None \<Rightarrow> Some (refuse ''no valid grant'')
      | Some g \<Rightarrow> Some \<lparr>DOK = True, DGrantID = trimSpace (GrantID g), DReason = []\<rparr>)"

lemma last_granted_in: "last_granted gs = Some g \<Longrightarrow> g \<in> set gs"
  by (induction gs arbitrary: g) (auto split: option.splits if_splits)

lemma last_granted_None [simp]: "last_granted gs = None \<longleftrightarrow> gs = []"
  by (cases gs) (auto split: option.splits)

lemma Check_ok:
  "Check c f sn source action now db = Some d \<Longrightarrow> DOK d \<Longrightarrow> NeedsGrant source \<Longrightarrow>
   (source = ''agent'' \<longrightarrow> action = ActionSelfCheck) \<and> (\<exists>g \<in> set (grants db). grant_covers sn action now g \<and> DGrantID d = trimSpace (GrantID g))"
  by (auto simp: Check_def refuse_def AgentAllowed_def split: if_splits option.splits dest!: last_granted_in)

subsection \<open>The rows\<close>

text \<open>The columns of a row tell its history.\<close>

definition grant_row_ok :: "Grant \<Rightarrow> bool" where
  "grant_row_ok g \<longleftrightarrow> Actions g = [ActionSelfCheck] \<and>
     (GStatus g = ''requested'' \<and> GrantedAt g = None \<and> ExpiresAt g = None \<and> RevokedAt g = None \<and> DeniedAt g = None \<or>
      GStatus g = ''denied'' \<and> GrantedAt g = None \<and> ExpiresAt g = None \<and> RevokedAt g = None \<and> DeniedAt g \<noteq> None \<or>
      GStatus g = ''granted'' \<and> GrantedAt g \<noteq> None \<and> ExpiresAt g = Some (the (GrantedAt g) + GrantTTL) \<and> RevokedAt g = None \<and> DeniedAt g = None \<or>
      GStatus g = ''revoked'' \<and> GrantedAt g \<noteq> None \<and> ExpiresAt g = Some (the (GrantedAt g) + GrantTTL) \<and> RevokedAt g \<noteq> None \<and> DeniedAt g = None)"

definition grants_ok :: "SupDb \<Rightarrow> bool" where
  "grants_ok db \<longleftrightarrow> distinct (map GrantID (grants db)) \<and> (\<forall>g \<in> set (grants db). grant_row_ok g)"

lemma GrantAllowed_cases:
  "GrantAllowed from to \<longleftrightarrow>
     from = ''requested'' \<and> (to = ''granted'' \<or> to = ''denied'') \<or> from = ''granted'' \<and> to = ''revoked''"
  by (auto simp: GrantAllowed_def grantTransitions_def split: if_splits)

lemma move_grant_keeps [simp]:
  "GrantID (move_grant to now g) = GrantID g" "GSN (move_grant to now g) = GSN g" "Actions (move_grant to now g) = Actions g"
  by (simp_all add: move_grant_def)

lemma move_grant_ok: "grant_row_ok g \<Longrightarrow> GrantAllowed (GStatus g) to \<Longrightarrow> grant_row_ok (move_grant to now g)"
  unfolding GrantAllowed_cases by (elim disjE conjE) (simp_all add: grant_row_ok_def move_grant_def)

lemma TransitionGrant_effect:
  "snd (TransitionGrant flt gid to now db) = db \<or>
   snd (TransitionGrant flt gid to now db) =
     db\<lparr>grants := update_where (\<lambda>g. GrantID g = gid \<and> GrantAllowed (GStatus g) to) (move_grant to now) (grants db)\<rparr>"
  by (simp add: TransitionGrant_def Let_def GrantSources_iff)

lemma update_grants_ok:
  assumes "grants_ok db"
  shows "grants_ok (db\<lparr>grants := update_where (\<lambda>g. GrantID g = gid \<and> GrantAllowed (GStatus g) to) (move_grant to now) (grants db)\<rparr>)"
proof -
  have "\<forall>g \<in> set (grants db). grant_row_ok (if GrantID g = gid \<and> GrantAllowed (GStatus g) to then move_grant to now g else g)"
    using assms move_grant_ok unfolding grants_ok_def by simp
  moreover have "map GrantID (update_where (\<lambda>g. GrantID g = gid \<and> GrantAllowed (GStatus g) to) (move_grant to now) (grants db)) = map GrantID (grants db)"
    by (rule map_update_where_frame) simp
  ultimately show ?thesis using assms by (simp add: grants_ok_def ball_update_where)
qed

lemma TransitionGrant_ok [inv_intros]: "grants_ok db \<Longrightarrow> grants_ok (snd (TransitionGrant flt gid to now db))"
  using TransitionGrant_effect[of flt gid to now db] update_grants_ok by metis

lemma InsertGrant_effect:
  "snd (InsertGrant flt g db) = db \<or>
   snd (InsertGrant flt g db) = db\<lparr>grants := grants db @ [g]\<rparr> \<and> GrantID g \<notin> GrantID ` set (grants db)"
  by (auto simp: InsertGrant_def list_ex_iff)

lemma RequestGrant_effect:
  "snd (RequestGrant flt gid now sn ticket operator actions db) = db \<or>
   (\<exists>g. snd (RequestGrant flt gid now sn ticket operator actions db) = db\<lparr>grants := grants db @ [g]\<rparr> \<and> GrantID g = gid \<and>
      GStatus g = ''requested'' \<and> grant_row_ok g \<and> gid \<notin> GrantID ` set (grants db))"
proof (cases "ValidGrantRequest sn ticket operator actions")
  case (Inr acts)
  then have "acts = [ActionSelfCheck]" by (auto simp: ValidGrantRequest_def split: if_splits)
  let ?g = "\<lparr>GrantID = gid, GSN = sn, GTicketID = ticket, GOperator = operator, Actions = acts, GStatus = ''requested'',
    RequestedAt = now, GrantedAt = None, ExpiresAt = None, RevokedAt = None, DeniedAt = None\<rparr>"
  have "snd (RequestGrant flt gid now sn ticket operator actions db) = snd (InsertGrant flt ?g db)"
    using Inr by (simp add: RequestGrant_def Let_def split: prod.split option.split)
  moreover have "grant_row_ok ?g" using \<open>acts = [ActionSelfCheck]\<close> by (simp add: grant_row_ok_def)
  ultimately show ?thesis using InsertGrant_effect[of flt ?g db] by auto
qed (simp add: RequestGrant_def)

lemma RequestGrant_ok [inv_intros]: "grants_ok db \<Longrightarrow> grants_ok (snd (RequestGrant flt gid now sn ticket operator actions db))"
  using RequestGrant_effect[of flt gid now sn ticket operator actions db] by (auto simp: grants_ok_def)

text \<open>
  Only an owner moves a permission. A decision of a user changes nothing, or the user owned the device of the named
  row when looked at, and then exactly the row of that name moves, if the status table allows the move from the status it
  has by then, and gets the columns of its new status; everything else is what others made of it meanwhile.
\<close>

theorem grant_moves_by_owner:
  "snd (userTransition flt others gid user to now db0) \<in> {db0, others db0} \<or>
   (\<exists>g \<in> set (grants db0). GrantID g = gid \<and> IsOwner (GSN g) user db0) \<and>
   snd (userTransition flt others gid user to now db0) =
     (others db0)\<lparr>grants := update_where (\<lambda>h. GrantID h = gid \<and> GrantAllowed (GStatus h) to) (move_grant to now) (grants (others db0))\<rparr>"
proof (cases "GetGrant (flt ''get grant'') gid db0")
  case (Inr g)
  then have g: "g \<in> set (grants db0)" "GrantID g = gid" by (auto simp: GetGrant_def find_Some_iff split: if_splits option.splits)
  show ?thesis
  proof (cases "flt ''owner'' \<or> \<not> IsOwner (GSN g) user db0")
    case False
    then have "snd (userTransition flt others gid user to now db0) = snd (TransitionGrant flt gid to now (others db0))"
      using Inr by (simp add: userTransition_def split: prod.split sum.split)
    then show ?thesis using TransitionGrant_effect[of flt gid to now "others db0"] g False by auto
  qed (use Inr in \<open>auto simp: userTransition_def\<close>)
qed (simp add: userTransition_def)

end
