(* ===== verification/Command.thy ===== *)
theory Command
  imports Grants FleetModel
begin

text \<open>
  Commands to devices, \<open>internal/deviceapi\<close>: the decision whether a command may be sent (\<open>cmd.go\<close>, \<open>jobstart.go\<close>, \<open>grant.go\<close>),
  the handler of \<open>POST /api/v1/devices/{sn}/cmd\<close> (\<open>server.go\<close>) with its audit message and its MQTT message, the consumer that
  writes the audit table (\<open>audit.go\<close>, \<open>store.go\<close>) and the handler that notes a device's answer. JSON bodies are given decoded; an
  instant is a microsecond, as in \<open>Grants\<close>.
\<close>

subsection \<open>May it be sent?\<close>

record Decision =
  Allowed :: bool
  HTTPStatus :: nat
  BizCode :: nat
  Msg :: string

abbreviation CodeBadParam :: nat where "CodeBadParam \<equiv> 10001"
abbreviation CodeDenied :: nat where "CodeDenied \<equiv> 10003"
abbreviation CodeAuditUnavailable :: nat where "CodeAuditUnavailable \<equiv> 100013"
abbreviation CodeInternal :: nat where "CodeInternal \<equiv> 50000"

abbreviation ActionJobStart :: string where "ActionJobStart \<equiv> ''job_start''"
abbreviation SourceFleet :: string where "SourceFleet \<equiv> ''fleet''"

definition cmd_whitelist :: "string list" where
  "cmd_whitelist = [''pause'', ''stop'', ''self_check'', ActionJobStart]"

definition DecideCmd :: "string \<Rightarrow> Decision" where
  "DecideCmd action =
     (if action \<in> set cmd_whitelist then \<lparr>Allowed = True, HTTPStatus = 200, BizCode = 0, Msg = []\<rparr>
      else if action = ''remote_restart'' then \<lparr>Allowed = False, HTTPStatus = 403, BizCode = CodeDenied, Msg = ''remote_restart is not allowed''\<rparr>
      else if action = [] then \<lparr>Allowed = False, HTTPStatus = 400, BizCode = CodeBadParam, Msg = ''action required''\<rparr>
      else \<lparr>Allowed = False, HTTPStatus = 400, BizCode = CodeBadParam, Msg = ''unknown action: '' @ action\<rparr>)"

definition DecideJobStart :: "string \<Rightarrow> int \<Rightarrow> bool \<Rightarrow> Decision" where
  "DecideJobStart source workState locked =
     (let deny = (\<lambda>msg. \<lparr>Allowed = False, HTTPStatus = 403, BizCode = CodeDenied, Msg = msg\<rparr>) in
      if toLower (trimSpace source) \<noteq> SourceFleet then deny ''job_start requires X-Source: fleet''
      else if locked then deny ''device is locked''
      else if workState \<noteq> 0 then deny ''device is not idle''
      else \<lparr>Allowed = True, HTTPStatus = 200, BizCode = 0, Msg = []\<rparr>)"

definition ShadowWorkState :: "reported \<Rightarrow> int" where
  "ShadowWorkState rep =
     (case map_of rep ''work_state'' of
        None \<Rightarrow> -1
      | Some v \<Rightarrow> (case ParseFloat (trimSpace v) of None \<Rightarrow> -1 | Some f \<Rightarrow> trunc f))"

text \<open>\<open>Some v\<close> when the text is a boolean.\<close>

definition ParseBoolLoose :: "string \<Rightarrow> bool option" where
  "ParseBoolLoose s =
     (let l = toLower (trimSpace s) in
      if l \<in> {''true'', ''1''} then Some True else if l \<in> {''false'', ''0'', ''''} then Some False else None)"

definition ShadowLocked :: "reported \<Rightarrow> bool" where
  "ShadowLocked rep \<longleftrightarrow>
     (case map_of rep ''lock_state'' of
        None \<Rightarrow> False
      | Some v \<Rightarrow> (case ParseFloat (trimSpace v) of None \<Rightarrow> False | Some f \<Rightarrow> f \<noteq> 0)) \<or>
     ParseBoolLoose (case map_of rep ''lock'' of None \<Rightarrow> [] | Some v \<Rightarrow> v) = Some True"

text \<open>The shadow is empty when Redis is not configured or does not answer.\<close>

definition decideJobStart :: "reported option \<Rightarrow> string \<Rightarrow> Decision" where
  "decideJobStart shadow source =
     (let rep = (case shadow of None \<Rightarrow> [] | Some r \<Rightarrow> r) in DecideJobStart source (ShadowWorkState rep) (ShadowLocked rep))"

text \<open>
  The scheduler of the class queue and the device API judge a device alike: on the same shadow, the device API admits a start
  from the fleet service exactly if the scheduler takes the device for idle.
\<close>

theorem fleet_agrees_with_device_api:
  "Allowed (decideJobStart (Some rep) SourceFleet) \<longleftrightarrow> IdleDevice (Summarize sn rep)"
proof -
  have "ShadowWorkState rep = WorkStateOf rep" by (simp add: ShadowWorkState_def WorkStateOf_def)
  moreover have "ShadowLocked rep = LockedOf rep"
    by (auto simp: ShadowLocked_def LockedOf_def ParseBoolLoose_def Let_def)
  moreover have "toLower (trimSpace SourceFleet) = SourceFleet" by code_simp
  ultimately show ?thesis by (simp add: decideJobStart_def DecideJobStart_def IdleDevice_def Summarize_def Let_def)
qed

subsection \<open>Messages\<close>

text \<open>The parameters of a command: missing, \<open>null\<close>, an object by its members, or anything else.\<close>

datatype Params = PAbsent | PNull | PObject "string \<rightharpoonup> string" | POther string

record AuditRecord =
  CmdID :: string
  ASN :: string
  AAction :: string
  AParams :: Params
  AOperator :: string
  ASource :: string
  AResult :: string
  ACreatedAt :: time

record AuditRow = AuditRecord +
  AckedAt :: "time option"

record Down =
  DownSN :: string
  DownCmd :: string
  DownAction :: string
  DownParams :: Params

text \<open>
  How a message can end: delivered and acknowledged, delivered without the sender learning it, or dropped. \<open>stream\<close> is
  what the audit stream holds and the consumer has not acknowledged yet.
\<close>

datatype publish = Acked | LostAck | Dropped

record Plane =
  sup :: SupDb
  stream :: "AuditRecord list"
  downs :: "Down list"
  cmd_audit :: "AuditRow list"

definition publishAudit :: "publish \<Rightarrow> AuditRecord \<Rightarrow> Plane \<Rightarrow> bool \<times> Plane" where
  "publishAudit how r p = (how = Acked, if how = Dropped then p else p\<lparr>stream := stream p @ [r]\<rparr>)"

definition PublishDown :: "publish \<Rightarrow> Down \<Rightarrow> Plane \<Rightarrow> bool \<times> Plane" where
  "PublishDown how d p = (how = Acked, if how = Dropped then p else p\<lparr>downs := downs p @ [d]\<rparr>)"

subsection \<open>The handler\<close>

record CmdRequest =
  QAction :: string
  QParams :: Params
  QOperator :: string
  QSource :: string
  XSource :: string
  XOperator :: string

text \<open>What a request meets: the body's decoding, the shadow, the generated id, the checker, three clock readings, four messages.\<close>

record CmdEnv =
  EDecoded :: bool
  EShadow :: "reported option"
  EUUID :: string
  EChecker :: bool
  ELookupFails :: bool
  ECheckAt :: time
  EDeniedAt :: time
  ERecAt :: time
  EDeniedAudit :: publish
  EAudit :: publish
  EDown :: publish
  EFailedAudit :: publish

datatype HttpResp = HOK string | HErr nat nat string

definition resolveSource :: "string \<Rightarrow> string \<Rightarrow> string" where
  "resolveSource header bodySource = fst (SourceFromHeader header bodySource)"

definition authorize :: "CmdEnv \<Rightarrow> string \<Rightarrow> string \<Rightarrow> string \<Rightarrow> SupDb \<Rightarrow> GrantDecision" where
  "authorize e sn source action db =
     (if \<not> NeedsGrant source then \<lparr>DOK = True, DGrantID = [], DReason = []\<rparr>
      else if \<not> EChecker e then refuse ''grant checker not configured''
      else case Check True (ELookupFails e) sn source action (ECheckAt e) db of
        None \<Rightarrow> refuse ''grant lookup failed''
      | Some d \<Rightarrow> d)"

definition withGrantID :: "Params \<Rightarrow> string \<Rightarrow> Params" where
  "withGrantID params gid =
     (if gid = [] then params
      else PObject ((case params of PObject m \<Rightarrow> m | _ \<Rightarrow> Map.empty)(''grant_id'' \<mapsto> gid)))"

text \<open>The fields of the request after the defaults.\<close>

definition cmd_params :: "CmdRequest \<Rightarrow> Params" where
  "cmd_params q = (if QParams q = PAbsent \<or> QParams q = PNull then PObject Map.empty else QParams q)"

definition cmd_operator :: "CmdRequest \<Rightarrow> string" where
  "cmd_operator q =
     (let op = trimSpace (XOperator q); o1 = (if op \<noteq> [] then op else QOperator q) in if o1 = [] then ''console'' else o1)"

definition send_cmd :: "CmdEnv \<Rightarrow> AuditRecord \<Rightarrow> Plane \<Rightarrow> HttpResp \<times> Plane" where
  "send_cmd e r p0 =
     (case publishAudit (EAudit e) r p0 of
        (False, p1) \<Rightarrow> (HErr 503 CodeAuditUnavailable ''audit stream unavailable, command not dispatched'', p1)
      | (True, p1) \<Rightarrow>
          (case PublishDown (EDown e) \<lparr>DownSN = ASN r, DownCmd = CmdID r, DownAction = AAction r, DownParams = AParams r\<rparr> p1 of
             (True, p2) \<Rightarrow> (HOK (CmdID r), p2)
           | (False, p2) \<Rightarrow>
               (HErr 502 CodeInternal ''mqtt publish failed'', snd (publishAudit (EFailedAudit e) (r\<lparr>AResult := ''dispatch_failed''\<rparr>) p2))))"

definition postCmd :: "CmdEnv \<Rightarrow> string \<Rightarrow> CmdRequest \<Rightarrow> Plane \<Rightarrow> HttpResp \<times> Plane" where
  "postCmd e sn q p =
     (if \<not> EDecoded e then (HErr 400 CodeBadParam ''invalid json'', p)
      else let d = DecideCmd (QAction q) in
      if \<not> Allowed d then (HErr (HTTPStatus d) (BizCode d) (Msg d), p)
      else let jd = decideJobStart (EShadow e) (XSource q) in
      if QAction q = ActionJobStart \<and> \<not> Allowed jd then (HErr (HTTPStatus jd) (BizCode jd) (Msg jd), p)
      else let source = resolveSource (XSource q) (QSource q);
             r = \<lparr>CmdID = EUUID e, ASN = sn, AAction = QAction q, AParams = cmd_params q, AOperator = cmd_operator q,
                  ASource = source, AResult = ''dispatched'', ACreatedAt = ERecAt e\<rparr>;
             gd = authorize e sn source (QAction q) (sup p) in
      if \<not> DOK gd then
        (HErr 403 CodeDenied (DReason gd), snd (publishAudit (EDeniedAudit e) (r\<lparr>AResult := ''denied'', ACreatedAt := EDeniedAt e\<rparr>) p))
      else send_cmd e (r\<lparr>AParams := withGrantID (AParams r) (DGrantID gd)\<rparr>) p)"

subsection \<open>The audit table\<close>

text \<open>\<open>ON CONFLICT DO NOTHING\<close> on the key \<open>(cmd_id, created_at)\<close>; \<open>cmd_id\<close> has room for 64 characters, \<open>sn\<close> and \<open>action\<close> for 32, \<open>operator\<close> for
  64, \<open>source\<close> and \<open>result\<close> for 16.\<close>

definition row_fits :: "AuditRecord \<Rightarrow> bool" where
  "row_fits r \<longleftrightarrow> length (CmdID r) \<le> 64 \<and> length (ASN r) \<le> 32 \<and> length (AAction r) \<le> 32 \<and> length (AOperator r) \<le> 64 \<and>
     length (ASource r) \<le> 16 \<and> length (AResult r) \<le> 16"

definition audit_row :: "AuditRecord \<Rightarrow> AuditRow" where
  "audit_row r = \<lparr>CmdID = CmdID r, ASN = ASN r, AAction = AAction r, AParams = (if AParams r = PAbsent then PNull else AParams r),
     AOperator = AOperator r, ASource = ASource r, AResult = AResult r, ACreatedAt = ACreatedAt r, AckedAt = None\<rparr>"

definition InsertAudit :: "bool \<Rightarrow> AuditRecord \<Rightarrow> AuditRow list \<Rightarrow> bool \<times> AuditRow list" where
  "InsertAudit fails r rows =
     (if fails \<or> \<not> row_fits r then (False, rows)
      else if list_ex (\<lambda>x. CmdID x = CmdID r \<and> ACreatedAt x = ACreatedAt r) rows then (True, rows)
      else (True, rows @ [audit_row r]))"

text \<open>
  One message of the stream. It is acknowledged when it is malformed or when its insertion succeeds; otherwise it stays for a
  redelivery. An acknowledgement can be lost (\<open>acked\<close> is false), and the message comes again.
\<close>

definition handleAudit :: "bool \<Rightarrow> bool \<Rightarrow> AuditRecord \<Rightarrow> Plane \<Rightarrow> Plane" where
  "handleAudit fails acked r p =
     (let take = (\<lambda>p. if acked then p\<lparr>stream := remove1 r (stream p)\<rparr> else p) in
      if CmdID r = [] \<or> ASN r = [] then take p
      else case InsertAudit fails r (cmd_audit p) of
        (False, rows) \<Rightarrow> p
      | (True, rows) \<Rightarrow> take (p\<lparr>cmd_audit := rows\<rparr>))"

definition MarkAcked :: "bool \<Rightarrow> string \<Rightarrow> string \<Rightarrow> time \<Rightarrow> AuditRow list \<Rightarrow> AuditRow list" where
  "MarkAcked fails cmdID result now rows =
     (if fails then rows
      else update_where (\<lambda>x. CmdID x = cmdID \<and> AckedAt x = None) (\<lambda>x. x\<lparr>AResult := result, AckedAt := Some now\<rparr>) rows)"

text \<open>
  \<open>GET /api/v1/cmds/{cmd_id}\<close>: the answer of the device as Redis holds it, decoded: \<open>Inl ()\<close> when Redis fails, \<open>Inr None\<close> when there
  is none yet, otherwise the member \<open>result\<close>.
\<close>

datatype CmdStatus = StDispatched | StAcked | StError

definition ack_result :: "string \<Rightarrow> string" where
  "ack_result result = (let r = trimSpace result in take 16 (if r = [] then ''acked'' else r))"

definition getCmd :: "unit + string option \<Rightarrow> bool \<Rightarrow> string \<Rightarrow> time \<Rightarrow> Plane \<Rightarrow> CmdStatus \<times> Plane" where
  "getCmd redis fails cmdID now p =
     (case redis of
        Inl _ \<Rightarrow> (StError, p)
      | Inr None \<Rightarrow> (StDispatched, p)
      | Inr (Some result) \<Rightarrow> (StAcked, p\<lparr>cmd_audit := MarkAcked fails cmdID (ack_result result) now (cmd_audit p)\<rparr>))"

end
