(* ===== verification/CommandSafety.thy ===== *)
theory CommandSafety
  imports Command
begin

text \<open>
  What holds of commands and their audit whatever requests, permissions, consumers and devices do. A request is two steps,
  the check and the sending, so that a permission can end in between; a crash after the check is a request that is
  never sent, a crash between the audit message and the command is a command that is dropped. Identifiers are fresh and a device
  answers only commands that reached it.
\<close>

subsection \<open>Requests in two steps\<close>

definition cmd_record :: "CmdEnv \<Rightarrow> string \<Rightarrow> CmdRequest \<Rightarrow> AuditRecord" where
  "cmd_record e sn q = \<lparr>CmdID = EUUID e, ASN = sn, AAction = QAction q, AParams = cmd_params q, AOperator = cmd_operator q,
     ASource = resolveSource (XSource q) (QSource q), AResult = ''dispatched'', ACreatedAt = ERecAt e\<rparr>"

definition precheck :: "CmdEnv \<Rightarrow> CmdRequest \<Rightarrow> bool" where
  "precheck e q \<longleftrightarrow> EDecoded e \<and> Allowed (DecideCmd (QAction q)) \<and>
     (QAction q = ActionJobStart \<longrightarrow> Allowed (decideJobStart (EShadow e) (XSource q)))"

definition cmd_decision :: "CmdEnv \<Rightarrow> string \<Rightarrow> CmdRequest \<Rightarrow> SupDb \<Rightarrow> GrantDecision" where
  "cmd_decision e sn q db = authorize e sn (resolveSource (XSource q) (QSource q)) (QAction q) db"

definition admit :: "CmdEnv \<Rightarrow> string \<Rightarrow> CmdRequest \<Rightarrow> SupDb \<Rightarrow> AuditRecord option" where
  "admit e sn q db =
     (if precheck e q \<and> DOK (cmd_decision e sn q db)
      then Some ((cmd_record e sn q)\<lparr>AParams := withGrantID (cmd_params q) (DGrantID (cmd_decision e sn q db))\<rparr>) else None)"

definition refusal :: "CmdEnv \<Rightarrow> string \<Rightarrow> CmdRequest \<Rightarrow> SupDb \<Rightarrow> AuditRecord option" where
  "refusal e sn q db =
     (if precheck e q \<and> \<not> DOK (cmd_decision e sn q db)
      then Some ((cmd_record e sn q)\<lparr>AResult := ''denied'', ACreatedAt := EDeniedAt e\<rparr>) else None)"

lemma postCmd_parts:
  "snd (postCmd e sn q p) =
     (case admit e sn q (sup p) of
        Some r \<Rightarrow> snd (send_cmd e r p)
      | None \<Rightarrow> (case refusal e sn q (sup p) of Some r \<Rightarrow> snd (publishAudit (EDeniedAudit e) r p) | None \<Rightarrow> p))"
  by (simp add: postCmd_def admit_def refusal_def precheck_def cmd_decision_def cmd_record_def Let_def)

subsection \<open>Steps\<close>

type_synonym cmd_flight = "AuditRecord \<times> time"

record CmdState =
  cnow :: time
  plane :: Plane
  flights :: "cmd_flight list"
  used :: "string set"

inductive cmd_step :: "CmdState \<Rightarrow> CmdState \<Rightarrow> bool" where
  admitted: "cnow s \<le> t \<Longrightarrow> ECheckAt e = t \<Longrightarrow> EUUID e \<notin> used s \<Longrightarrow> EUUID e \<noteq> [] \<Longrightarrow> sn \<noteq> [] \<Longrightarrow>
    admit e sn q (sup (plane s)) = Some r \<Longrightarrow>
    cmd_step s (s\<lparr>cnow := t, flights := (r, t) # flights s, used := insert (EUUID e) (used s)\<rparr>)"
| refused: "cnow s \<le> t \<Longrightarrow> EUUID e \<notin> used s \<Longrightarrow> EUUID e \<noteq> [] \<Longrightarrow> sn \<noteq> [] \<Longrightarrow> refusal e sn q (sup (plane s)) = Some r \<Longrightarrow>
    cmd_step s (s\<lparr>cnow := t, plane := snd (publishAudit how r (plane s)), used := insert (EUUID e) (used s)\<rparr>)"
| sent: "cnow s \<le> t \<Longrightarrow> (r, tc) \<in> set (flights s) \<Longrightarrow>
    cmd_step s (s\<lparr>cnow := t, plane := snd (send_cmd e (r\<lparr>ACreatedAt := t\<rparr>) (plane s)), flights := remove1 (r, tc) (flights s)\<rparr>)"
| crashed: "cmd_step s (s\<lparr>flights := remove1 f (flights s)\<rparr>)"
| consumed: "r \<in> set (stream (plane s)) \<Longrightarrow> cmd_step s (s\<lparr>plane := handleAudit fails acked r (plane s)\<rparr>)"
| answered: "list_ex (\<lambda>d. DownCmd d = c) (downs (plane s)) \<Longrightarrow> cmd_step s (s\<lparr>plane := snd (getCmd redis fails c t (plane s))\<rparr>)"
| grant_asked: "cnow s \<le> t \<Longrightarrow>
    cmd_step s (s\<lparr>cnow := t, plane := (plane s)\<lparr>sup := snd (RequestGrant flt gid t sn ticket operator actions (sup (plane s)))\<rparr>\<rparr>)"
| grant_moved: "cnow s < t \<Longrightarrow>
    cmd_step s (s\<lparr>cnow := t, plane := (plane s)\<lparr>sup := snd (TransitionGrant flt gid to t (sup (plane s)))\<rparr>\<rparr>)"
| owners: "cmd_step s (s\<lparr>plane := (plane s)\<lparr>sup := (sup (plane s))\<lparr>bindings := bs\<rparr>\<rparr>\<rparr>)"
| ticked: "cnow s \<le> t \<Longrightarrow> cmd_step s (s\<lparr>cnow := t\<rparr>)"

definition empty_plane :: Plane where
  "empty_plane = \<lparr>sup = \<lparr>grants = [], bindings = []\<rparr>, stream = [], downs = [], cmd_audit = []\<rparr>"

definition cmd_start :: CmdState where
  "cmd_start = \<lparr>cnow = 0, plane = empty_plane, flights = [], used = {}\<rparr>"

definition cmd_reach :: "CmdState \<Rightarrow> bool" where
  "cmd_reach s \<longleftrightarrow> cmd_step\<^sup>*\<^sup>* cmd_start s"

text \<open>
  The owner's consent to a command checked at \<open>tc\<close>: a row for the device and the action, confirmed at most fifteen minutes before
  and not withdrawn by then.
\<close>

definition consent :: "SupDb \<Rightarrow> string \<Rightarrow> string \<Rightarrow> time \<Rightarrow> bool" where
  "consent db sn action tc \<longleftrightarrow>
     (\<exists>g \<in> set (grants db). GSN g = sn \<and> action \<in> set (Actions g) \<and> GStatus g \<in> {''granted'', ''revoked''} \<and>
        (\<exists>a. GrantedAt g = Some a \<and> ExpiresAt g = Some (a + GrantTTL) \<and> a \<le> tc \<and> tc < a + GrantTTL) \<and>
        (case RevokedAt g of None \<Rightarrow> True | Some rv \<Rightarrow> tc < rv))"

definition rec_authorised :: "SupDb \<Rightarrow> ('a AuditRecord_scheme) \<Rightarrow> time \<Rightarrow> bool" where
  "rec_authorised db r tc \<longleftrightarrow> AAction r \<in> set cmd_whitelist \<and>
     (NeedsGrant (ASource r) \<longrightarrow> consent db (ASN r) (AAction r) tc \<and> AAction r = ActionSelfCheck)"

subsection \<open>The invariant\<close>

text \<open>\<open>info\<close> gives device, action and parameters of an identifier; \<open>now\<close> is the clock, \<open>us\<close> the identifiers in use, \<open>ds\<close> those of delivered commands.\<close>

type_synonym cmd_info = "string \<Rightarrow> string \<times> string \<times> Params"

definition rec_base :: "SupDb \<Rightarrow> time \<Rightarrow> cmd_info \<Rightarrow> string set \<Rightarrow> ('a AuditRecord_scheme) \<Rightarrow> bool" where
  "rec_base db now info us r \<longleftrightarrow> CmdID r \<noteq> [] \<and> ASN r \<noteq> [] \<and> AParams r \<noteq> PAbsent \<and> CmdID r \<in> us \<and>
     info (CmdID r) = (ASN r, AAction r, AParams r) \<and>
     (AResult r \<noteq> ''denied'' \<longrightarrow> (\<exists>tc. tc \<le> ACreatedAt r \<and> tc \<le> now \<and> rec_authorised db r tc))"

definition rec_inv :: "SupDb \<Rightarrow> time \<Rightarrow> cmd_info \<Rightarrow> string set \<Rightarrow> string set \<Rightarrow> AuditRecord \<Rightarrow> bool" where
  "rec_inv db now info us ds r \<longleftrightarrow> rec_base db now info us r \<and> (AResult r = ''denied'' \<longrightarrow> CmdID r \<notin> ds)"

definition row_inv :: "SupDb \<Rightarrow> time \<Rightarrow> cmd_info \<Rightarrow> string set \<Rightarrow> string set \<Rightarrow> AuditRow \<Rightarrow> bool" where
  "row_inv db now info us ds r \<longleftrightarrow> rec_base db now info us r \<and> (AResult r = ''denied'' \<and> AckedAt r = None \<longrightarrow> CmdID r \<notin> ds)"

definition flight_inv :: "SupDb \<Rightarrow> time \<Rightarrow> cmd_info \<Rightarrow> string set \<Rightarrow> string set \<Rightarrow> cmd_flight \<Rightarrow> bool" where
  "flight_inv db now info us ids f \<longleftrightarrow> snd f \<le> now \<and> rec_authorised db (fst f) (snd f) \<and> AResult (fst f) = ''dispatched'' \<and>
     CmdID (fst f) \<noteq> [] \<and> ASN (fst f) \<noteq> [] \<and> AParams (fst f) \<noteq> PAbsent \<and> CmdID (fst f) \<in> us \<and> CmdID (fst f) \<notin> ids \<and>
     info (CmdID (fst f)) = (ASN (fst f), AAction (fst f), AParams (fst f))"

definition down_inv :: "cmd_info \<Rightarrow> string set \<Rightarrow> string set \<Rightarrow> Down \<Rightarrow> bool" where
  "down_inv info us as d \<longleftrightarrow> DownCmd d \<in> as \<and> DownCmd d \<in> us \<and> info (DownCmd d) = (DownSN d, DownAction d, DownParams d) \<and>
     DownAction d \<in> set cmd_whitelist"

definition granted_before :: "time \<Rightarrow> Grant \<Rightarrow> bool" where
  "granted_before now g \<longleftrightarrow> (case GrantedAt g of None \<Rightarrow> True | Some a \<Rightarrow> a \<le> now)"

definition down_ids :: "Plane \<Rightarrow> string set" where "down_ids p = DownCmd ` set (downs p)"
definition audit_ids :: "Plane \<Rightarrow> string set" where "audit_ids p = CmdID ` set (stream p) \<union> CmdID ` set (cmd_audit p)"

definition plane_inv :: "time \<Rightarrow> cmd_info \<Rightarrow> string set \<Rightarrow> Plane \<Rightarrow> bool" where
  "plane_inv now info us p \<longleftrightarrow> grants_ok (sup p) \<and> (\<forall>g \<in> set (grants (sup p)). granted_before now g) \<and>
     (\<forall>r \<in> set (stream p). rec_inv (sup p) now info us (down_ids p) r) \<and>
     (\<forall>x \<in> set (cmd_audit p). row_inv (sup p) now info us (down_ids p) x) \<and>
     (\<forall>d \<in> set (downs p). down_inv info us (audit_ids p) d)"

definition flights_inv :: "time \<Rightarrow> cmd_info \<Rightarrow> string set \<Rightarrow> Plane \<Rightarrow> cmd_flight list \<Rightarrow> bool" where
  "flights_inv now info us p fl \<longleftrightarrow> distinct (map (CmdID \<circ> fst) fl) \<and>
     (\<forall>f \<in> set fl. flight_inv (sup p) now info us (down_ids p \<union> audit_ids p) f)"

definition cmd_inv :: "CmdState \<Rightarrow> bool" where
  "cmd_inv s \<longleftrightarrow> (\<exists>info. plane_inv (cnow s) info (used s) (plane s) \<and> flights_inv (cnow s) info (used s) (plane s) (flights s))"

text \<open>Consent survives what happens to the permissions later.\<close>

lemma consent_moves:
  assumes "grants_ok db" "consent db sn action tc" "tc < t"
  shows "consent (snd (TransitionGrant flt gid to t db)) sn action tc"
proof -
  obtain g where g: "g \<in> set (grants db)" "GSN g = sn" "action \<in> set (Actions g)" "GStatus g \<in> {''granted'', ''revoked''}"
    "\<exists>a. GrantedAt g = Some a \<and> ExpiresAt g = Some (a + GrantTTL) \<and> a \<le> tc \<and> tc < a + GrantTTL"
    "case RevokedAt g of None \<Rightarrow> True | Some rv \<Rightarrow> tc < rv"
    using assms(2) unfolding consent_def by blast
  let ?P = "\<lambda>g. GrantID g = gid \<and> GrantAllowed (GStatus g) to"
  let ?h = "if ?P g then move_grant to t g else g"
  have revoked: "to = ''revoked''" if "?P g"
  proof -
    have "GStatus g \<noteq> ''requested''" using g(4) by (elim insertE emptyE) simp_all
    then show ?thesis using that unfolding GrantAllowed_cases by blast
  qed
  have "GSN ?h = sn" "action \<in> set (Actions ?h)" using g by simp_all
  moreover have "GStatus ?h \<in> {''granted'', ''revoked''} \<and> GrantedAt ?h = GrantedAt g \<and> ExpiresAt ?h = ExpiresAt g \<and>
    (case RevokedAt ?h of None \<Rightarrow> True | Some rv \<Rightarrow> tc < rv)"
  proof (cases "?P g")
    case True
    then have "?h = g\<lparr>GStatus := ''revoked'', RevokedAt := Some t\<rparr>" using revoked by (simp add: move_grant_def)
    then show ?thesis using assms(3) by simp
  next
    case False
    then have "?h = g" by (rule if_not_P)
    then show ?thesis using g(4,6) by (simp only: simp_thms)
  qed
  moreover have "?h \<in> set (update_where ?P (move_grant to t) (grants db))" using g(1) by (auto simp: update_where_def)
  ultimately have "consent (db\<lparr>grants := update_where ?P (move_grant to t) (grants db)\<rparr>) sn action tc"
    unfolding consent_def using g(5) by (intro bexI[of _ ?h]) simp_all
  then show ?thesis using TransitionGrant_effect[of flt gid to t db] assms(2) by metis
qed

lemma consent_more: "consent db sn action tc \<Longrightarrow> set (grants db) \<subseteq> set (grants db') \<Longrightarrow> consent db' sn action tc"
  unfolding consent_def by blast

lemma consent_asked: "consent db sn action tc \<Longrightarrow> consent (snd (RequestGrant flt gid t sn' ticket operator acts db)) sn action tc"
  using RequestGrant_effect[of flt gid t sn' ticket operator acts db] by (auto elim: consent_more)

text \<open>A change of the permissions that keeps every consent keeps the rest.\<close>

lemma rec_authorised_mono:
  "rec_authorised db r tc \<Longrightarrow> (\<And>sn a. consent db sn a tc \<Longrightarrow> consent db' sn a tc) \<Longrightarrow> rec_authorised db' r tc"
  by (auto simp: rec_authorised_def)

lemma rec_base_mono:
  assumes "rec_base db now info us r" "now \<le> now'" "us \<subseteq> us'" "info' (CmdID r) = info (CmdID r)"
    and "\<And>sn a tc. tc \<le> now \<Longrightarrow> consent db sn a tc \<Longrightarrow> consent db' sn a tc"
  shows "rec_base db' now' info' us' r"
proof -
  have "\<exists>tc. tc \<le> ACreatedAt r \<and> tc \<le> now' \<and> rec_authorised db' r tc" if nd: "AResult r \<noteq> ''denied''"
  proof -
    obtain tc where tc: "tc \<le> ACreatedAt r" "tc \<le> now" "rec_authorised db r tc" using assms(1) nd unfolding rec_base_def by blast
    have "rec_authorised db' r tc" by (rule rec_authorised_mono[OF tc(3)]) (rule assms(5)[OF tc(2)])
    moreover have "tc \<le> now'" using tc(2) assms(2) by (rule order_trans)
    ultimately show ?thesis using tc(1) by blast
  qed
  moreover have "CmdID r \<in> us'" "info' (CmdID r) = (ASN r, AAction r, AParams r)" "CmdID r \<noteq> []" "ASN r \<noteq> []" "AParams r \<noteq> PAbsent"
    using assms(1,3,4) unfolding rec_base_def by auto
  ultimately show ?thesis unfolding rec_base_def by blast
qed

lemma flight_inv_mono:
  assumes "flight_inv db now info us ids f" "now \<le> now'" "us \<subseteq> us'" "info' (CmdID (fst f)) = info (CmdID (fst f))" "CmdID (fst f) \<notin> ids'"
    and "\<And>sn a tc. tc \<le> now \<Longrightarrow> consent db sn a tc \<Longrightarrow> consent db' sn a tc"
  shows "flight_inv db' now' info' us' ids' f"
proof -
  have old: "rec_authorised db (fst f) (snd f)" "snd f \<le> now" using assms(1) by (simp_all add: flight_inv_def)
  have "rec_authorised db' (fst f) (snd f)" by (rule rec_authorised_mono[OF old(1)]) (rule assms(6)[OF old(2)])
  then show ?thesis using assms(1-5) unfolding flight_inv_def by auto
qed

subsection \<open>Steps keep it\<close>

lemma plane_used: "plane_inv now info us p \<Longrightarrow> down_ids p \<union> audit_ids p \<subseteq> us"
  unfolding plane_inv_def rec_inv_def row_inv_def rec_base_def down_inv_def down_ids_def audit_ids_def by blast

lemma plane_inv_later:
  assumes "plane_inv now info us p" "now \<le> t" "us \<subseteq> us'" "\<And>c. c \<in> us \<Longrightarrow> info' c = info c"
  shows "plane_inv t info' us' p"
proof -
  note old = assms(1)[unfolded plane_inv_def]
  have "rec_inv (sup p) t info' us' (down_ids p) r" if "r \<in> set (stream p)" for r
  proof -
    have r: "rec_inv (sup p) now info us (down_ids p) r" using old that by blast
    then have "CmdID r \<in> us" by (simp add: rec_inv_def rec_base_def)
    then show ?thesis using r rec_base_mono[OF _ assms(2,3), of "sup p" info r info' "sup p"] assms(4) by (simp add: rec_inv_def)
  qed
  moreover have "row_inv (sup p) t info' us' (down_ids p) r" if "r \<in> set (cmd_audit p)" for r
  proof -
    have r: "row_inv (sup p) now info us (down_ids p) r" using old that by blast
    then have "CmdID r \<in> us" by (simp add: row_inv_def rec_base_def)
    then show ?thesis using r rec_base_mono[OF _ assms(2,3), of "sup p" info r info' "sup p"] assms(4) by (simp add: row_inv_def)
  qed
  moreover have "down_inv info' us' (audit_ids p) d" if "d \<in> set (downs p)" for d
    using old that assms(3,4) by (auto simp: down_inv_def)
  moreover have "granted_before t g" if "g \<in> set (grants (sup p))" for g
    using old that assms(2) by (fastforce simp: granted_before_def split: option.splits)
  ultimately show ?thesis using old unfolding plane_inv_def by blast
qed

lemma flights_inv_later:
  assumes "flights_inv now info us p fl" "now \<le> t" "us \<subseteq> us'" "\<And>c. c \<in> us \<Longrightarrow> info' c = info c" "sup q = sup p"
    and "\<And>f. f \<in> set fl \<Longrightarrow> CmdID (fst f) \<in> down_ids q \<union> audit_ids q \<Longrightarrow> CmdID (fst f) \<in> down_ids p \<union> audit_ids p"
  shows "flights_inv t info' us' q fl"
proof -
  have "flight_inv (sup q) t info' us' (down_ids q \<union> audit_ids q) f" if "f \<in> set fl" for f
  proof -
    have f: "flight_inv (sup p) now info us (down_ids p \<union> audit_ids p) f" using assms(1) that unfolding flights_inv_def by blast
    then have "CmdID (fst f) \<in> us" "CmdID (fst f) \<notin> down_ids p \<union> audit_ids p" by (simp_all add: flight_inv_def)
    moreover from this have "CmdID (fst f) \<notin> down_ids q \<union> audit_ids q" using assms(6)[OF that] by blast
    ultimately show ?thesis using flight_inv_mono[OF f assms(2,3), of info' "down_ids q \<union> audit_ids q" "sup q"] assms(4,5) by simp
  qed
  then show ?thesis using assms(1) unfolding flights_inv_def by blast
qed

text \<open>New messages of one identifier.\<close>

definition grown :: "AuditRecord list \<Rightarrow> Down list \<Rightarrow> Plane \<Rightarrow> Plane" where
  "grown rs ds p = p\<lparr>stream := stream p @ rs, downs := downs p @ ds\<rparr>"

lemma grown_simps [simp]:
  "sup (grown rs ds p) = sup p" "stream (grown rs ds p) = stream p @ rs" "downs (grown rs ds p) = downs p @ ds"
  "cmd_audit (grown rs ds p) = cmd_audit p" "down_ids (grown rs ds p) = down_ids p \<union> DownCmd ` set ds"
  "audit_ids (grown rs ds p) = audit_ids p \<union> CmdID ` set rs"
  by (auto simp: grown_def down_ids_def audit_ids_def)

lemma plane_inv_grown:
  assumes "plane_inv now info us p" "c \<notin> down_ids p \<union> audit_ids p"
    and "\<forall>r \<in> set rs. rec_base (sup p) now info us r \<and> CmdID r = c \<and> (AResult r = ''denied'' \<longrightarrow> ds = [])"
    and "\<forall>d \<in> set ds. DownCmd d = c \<and> c \<in> us \<and> info c = (DownSN d, DownAction d, DownParams d) \<and> DownAction d \<in> set cmd_whitelist"
    and "ds = [] \<or> rs \<noteq> []"
  shows "plane_inv now info us (grown rs ds p)"
proof -
  note old = assms(1)[unfolded plane_inv_def]
  have ds: "DownCmd ` set ds \<subseteq> {c}" using assms(4) by blast
  have "rec_inv (sup p) now info us (down_ids p \<union> DownCmd ` set ds) r" if "r \<in> set (stream p)" for r
  proof -
    have "CmdID r \<noteq> c" using assms(2) that by (auto simp: audit_ids_def)
    then show ?thesis using old that ds unfolding rec_inv_def by blast
  qed
  moreover have "rec_inv (sup p) now info us (down_ids p \<union> DownCmd ` set ds) r" if "r \<in> set rs" for r
    using assms(2,3) that unfolding rec_inv_def by auto
  moreover have "row_inv (sup p) now info us (down_ids p \<union> DownCmd ` set ds) r" if "r \<in> set (cmd_audit p)" for r
  proof -
    have "CmdID r \<noteq> c" using assms(2) that by (auto simp: audit_ids_def)
    then show ?thesis using old that ds unfolding row_inv_def by blast
  qed
  moreover have "down_inv info us (audit_ids p \<union> CmdID ` set rs) d" if "d \<in> set (downs p)" for d
    using old that by (auto simp: down_inv_def)
  moreover have "down_inv info us (audit_ids p \<union> CmdID ` set rs) d" if "d \<in> set ds" for d
  proof -
    have "c \<in> CmdID ` set rs" using assms(3,5) that by (cases rs) auto
    then show ?thesis using assms(4) that by (auto simp: down_inv_def)
  qed
  ultimately show ?thesis using old unfolding plane_inv_def grown_simps set_append by blast
qed

lemma send_cmd_form:
  "\<exists>rs ds. snd (send_cmd e r p) = grown rs ds p \<and> set rs \<subseteq> {r, r\<lparr>AResult := ''dispatch_failed''\<rparr>} \<and>
     set ds \<subseteq> {\<lparr>DownSN = ASN r, DownCmd = CmdID r, DownAction = AAction r, DownParams = AParams r\<rparr>} \<and> (ds = [] \<or> rs \<noteq> [])"
proof -
  let ?d = "\<lparr>DownSN = ASN r, DownCmd = CmdID r, DownAction = AAction r, DownParams = AParams r\<rparr>"
  have "snd (send_cmd e r p) \<in> {grown [] [] p, grown [r] [] p, grown [r] [?d] p, grown [r, r\<lparr>AResult := ''dispatch_failed''\<rparr>] [] p,
      grown [r, r\<lparr>AResult := ''dispatch_failed''\<rparr>] [?d] p}"
    by (cases "EAudit e"; cases "EDown e"; cases "EFailedAudit e") (simp_all add: send_cmd_def publishAudit_def PublishDown_def grown_def)
  then show ?thesis by (elim insertE emptyE) (rule exI, rule exI, erule conjI, simp)+
qed

lemma sent_inv:
  assumes "plane_inv now info us p" "flights_inv now info us p fl" "(r, tc) \<in> set fl" "now \<le> t"
  shows "plane_inv t info us (snd (send_cmd e (r\<lparr>ACreatedAt := t\<rparr>) p))"
    "flights_inv t info us (snd (send_cmd e (r\<lparr>ACreatedAt := t\<rparr>) p)) (remove1 (r, tc) fl)"
proof -
  let ?r = "r\<lparr>ACreatedAt := t\<rparr>"
  have f: "flight_inv (sup p) now info us (down_ids p \<union> audit_ids p) (r, tc)"
    using assms(2,3) unfolding flights_inv_def by blast
  then have c: "CmdID r \<notin> down_ids p \<union> audit_ids p" "CmdID r \<in> us" by (simp_all add: flight_inv_def)
  have white: "AAction r \<in> set cmd_whitelist" using f by (simp add: flight_inv_def rec_authorised_def)
  have auth: "rec_authorised (sup p) (r\<lparr>ACreatedAt := t, AResult := x\<rparr>) tc" for x
    using f by (auto simp: flight_inv_def rec_authorised_def)
  have "tc \<le> t" using f assms(4) by (simp add: flight_inv_def)
  then have base: "rec_base (sup p) t info us (r\<lparr>ACreatedAt := t, AResult := x\<rparr>)" for x
    using f auth[of x] by (auto simp: flight_inv_def rec_base_def)
  obtain rs ds where form: "snd (send_cmd e ?r p) = grown rs ds p" "set rs \<subseteq> {?r, ?r\<lparr>AResult := ''dispatch_failed''\<rparr>}"
      "set ds \<subseteq> {\<lparr>DownSN = ASN r, DownCmd = CmdID r, DownAction = AAction r, DownParams = AParams r\<rparr>}" "ds = [] \<or> rs \<noteq> []"
    using send_cmd_form[of e ?r p] by auto
  have disp: "AResult r = ''dispatched''" using f by (simp add: flight_inv_def)
  then have "?r = r\<lparr>ACreatedAt := t, AResult := ''dispatched''\<rparr>" by simp
  then have "rec_base (sup p) t info us ?r" by (metis base)
  moreover have "rec_base (sup p) t info us (?r\<lparr>AResult := ''dispatch_failed''\<rparr>)" by (rule base)
  ultimately have rs: "\<forall>x \<in> set rs. rec_base (sup p) t info us x \<and> CmdID x = CmdID r \<and> (AResult x = ''denied'' \<longrightarrow> ds = [])"
    using form(2) disp by auto
  have ds: "\<forall>d \<in> set ds. DownCmd d = CmdID r \<and> CmdID r \<in> us \<and> info (CmdID r) = (DownSN d, DownAction d, DownParams d) \<and> DownAction d \<in> set cmd_whitelist"
    using form(3) c(2) f white by (auto simp: flight_inv_def)
  have "plane_inv t info us p" using plane_inv_later[OF assms(1,4)] by blast
  from plane_inv_grown[OF this c(1) rs ds form(4)] show "plane_inv t info us (snd (send_cmd e ?r p))" unfolding form(1) .
  have d: "distinct (map (CmdID \<circ> fst) fl)" using assms(2) by (simp add: flights_inv_def)
  have rest: "flights_inv now info us p (remove1 (r, tc) fl)"
    using assms(2) distinct_map_remove1[OF d] set_remove1_subset[of "(r, tc)" fl] unfolding flights_inv_def by blast
  have other: "CmdID (fst g) \<noteq> CmdID r" if "g \<in> set (remove1 (r, tc) fl)" for g
    using remove1_fresh[OF d assms(3) that] by simp
  have ids: "down_ids (grown rs ds p) \<union> audit_ids (grown rs ds p) \<subseteq> insert (CmdID r) (down_ids p \<union> audit_ids p)"
    using rs ds by auto
  show "flights_inv t info us (snd (send_cmd e ?r p)) (remove1 (r, tc) fl)" unfolding form(1)
  proof (rule flights_inv_later[OF rest assms(4)])
    fix g assume "g \<in> set (remove1 (r, tc) fl)" "CmdID (fst g) \<in> down_ids (grown rs ds p) \<union> audit_ids (grown rs ds p)"
    then show "CmdID (fst g) \<in> down_ids p \<union> audit_ids p" using other ids by blast
  qed simp_all
qed

lemma refused_inv:
  assumes "plane_inv now info us p" "flights_inv now info us p fl" "CmdID r \<notin> us" "now \<le> t"
    and "CmdID r \<noteq> []" "ASN r \<noteq> []" "AParams r \<noteq> PAbsent" "AResult r = ''denied''"
  defines "info' \<equiv> info(CmdID r := (ASN r, AAction r, AParams r))"
  shows "plane_inv t info' (insert (CmdID r) us) (snd (publishAudit how r p))"
    "flights_inv t info' (insert (CmdID r) us) (snd (publishAudit how r p)) fl"
proof -
  have ext: "us \<subseteq> insert (CmdID r) us" "\<And>c. c \<in> us \<Longrightarrow> info' c = info c" using assms(3) by (auto simp: info'_def)
  have later: "plane_inv t info' (insert (CmdID r) us) p" by (rule plane_inv_later[OF assms(1,4) ext])
  have used: "down_ids p \<union> audit_ids p \<subseteq> us" by (rule plane_used[OF assms(1)])
  have base: "rec_base (sup p) t info' (insert (CmdID r) us) r" using assms(5-8) by (simp add: rec_base_def info'_def)
  have "snd (publishAudit how r p) \<in> {grown [] [] p, grown [r] [] p}" by (cases how) (simp_all add: publishAudit_def grown_def)
  then obtain rs where rs: "snd (publishAudit how r p) = grown rs [] p" "set rs \<subseteq> {r}" by fastforce
  show "plane_inv t info' (insert (CmdID r) us) (snd (publishAudit how r p))" unfolding rs(1)
    by (rule plane_inv_grown[OF later, of "CmdID r"]) (use rs(2) base used assms(3) in auto)
  have "CmdID (fst f) \<noteq> CmdID r" if "f \<in> set fl" for f using assms(2,3) that unfolding flights_inv_def flight_inv_def by metis
  moreover have "CmdID ` set rs \<subseteq> {CmdID r}" using rs(2) by blast
  ultimately show "flights_inv t info' (insert (CmdID r) us) (snd (publishAudit how r p)) fl" unfolding rs(1)
    by (intro flights_inv_later[OF assms(2,4) ext]) auto
qed

lemma admitted_inv:
  assumes "plane_inv now info us p" "flights_inv now info us p fl" "EUUID e \<notin> us" "now \<le> t" "ECheckAt e = t"
    and "EUUID e \<noteq> []" "sn \<noteq> []" "admit e sn q (sup p) = Some r"
  defines "info' \<equiv> info(EUUID e := (ASN r, AAction r, AParams r))"
  shows "plane_inv t info' (insert (EUUID e) us) p" "flights_inv t info' (insert (EUUID e) us) p ((r, t) # fl)"
proof -
  have ext: "us \<subseteq> insert (EUUID e) us" "\<And>c. c \<in> us \<Longrightarrow> info' c = info c" using assms(3) by (auto simp: info'_def)
  show "plane_inv t info' (insert (EUUID e) us) p" by (rule plane_inv_later[OF assms(1,4) ext])
  have rest: "flights_inv t info' (insert (EUUID e) us) p fl" by (rule flights_inv_later[OF assms(2,4) ext]) auto
  let ?gd = "cmd_decision e sn q (sup p)"
  from assms(8) have r: "r = (cmd_record e sn q)\<lparr>AParams := withGrantID (cmd_params q) (DGrantID ?gd)\<rparr>" and pre: "precheck e q" "DOK ?gd"
    by (simp_all add: admit_def split: if_split_asm)
  have white: "QAction q \<in> set cmd_whitelist" using pre(1) by (auto simp: precheck_def DecideCmd_def split: if_splits)
  have "consent (sup p) sn (QAction q) t \<and> QAction q = ActionSelfCheck" if need: "NeedsGrant (resolveSource (XSource q) (QSource q))"
  proof -
    from pre(2) need obtain d where "Check True (ELookupFails e) sn (resolveSource (XSource q) (QSource q)) (QAction q) t (sup p) = Some d" "DOK d"
      using assms(5) by (auto simp: cmd_decision_def authorize_def refuse_def split: if_splits option.splits)
    from Check_ok[OF this need] obtain g where g: "g \<in> set (grants (sup p))" "grant_covers sn (QAction q) t g" by blast
    have ok: "grant_row_ok g" "granted_before now g" using assms(1) g(1) unfolding plane_inv_def grants_ok_def by blast+
    from g(2) have eff: "GSN g = sn" "QAction q \<in> set (Actions g)" "GStatus g = ''granted''" "RevokedAt g = None" "\<exists>x. ExpiresAt g = Some x \<and> t < x"
      by (auto simp: grant_covers_def Effective_def split: option.splits)
    from ok(1) eff(3) obtain a where a: "GrantedAt g = Some a" "ExpiresAt g = Some (a + GrantTTL)" "Actions g = [ActionSelfCheck]"
      by (auto simp: grant_row_ok_def)
    have "a \<le> t" "t < a + GrantTTL" using ok(2) a eff(5) assms(4) by (auto simp: granted_before_def)
    then have "consent (sup p) sn (QAction q) t" unfolding consent_def using g(1) eff a by (intro bexI[of _ g]) simp_all
    then show ?thesis using eff(2) a(3) by simp
  qed
  then have auth: "rec_authorised (sup p) r t" using white by (auto simp: r cmd_record_def rec_authorised_def)
  have fresh: "EUUID e \<notin> down_ids p \<union> audit_ids p"
    using plane_used[OF assms(1)] assms(3) by blast
  have "AParams r \<noteq> PAbsent" by (simp add: r cmd_record_def withGrantID_def cmd_params_def)
  then have "flight_inv (sup p) t info' (insert (EUUID e) us) (down_ids p \<union> audit_ids p) (r, t)"
    using auth fresh assms(6,7) by (simp add: flight_inv_def info'_def) (simp add: r cmd_record_def)
  moreover have "EUUID e \<notin> (CmdID \<circ> fst) ` set fl" using assms(2,3) unfolding flights_inv_def flight_inv_def by auto
  moreover have "CmdID r = EUUID e" by (simp add: r cmd_record_def)
  ultimately show "flights_inv t info' (insert (EUUID e) us) p ((r, t) # fl)" using rest by (simp add: flights_inv_def)
qed

lemma remove1_covers: "x \<in> set xs \<Longrightarrow> set xs = insert x (set (remove1 x xs))"
  by (induction xs) auto

text \<open>Moving a message from the stream into the table.\<close>

lemma moved_inv:
  assumes "plane_inv now info us p" "set st \<subseteq> set (stream p)" "\<And>x. x \<in> set rows \<Longrightarrow> x \<in> set (cmd_audit p) \<or> (\<exists>r \<in> set (stream p). x = audit_row r)"
    and "CmdID ` set st \<union> CmdID ` set rows = audit_ids p"
  shows "plane_inv now info us (p\<lparr>stream := st, cmd_audit := rows\<rparr>)"
proof -
  let ?q = "p\<lparr>stream := st, cmd_audit := rows\<rparr>"
  note old = assms(1)[unfolded plane_inv_def]
  have ids: "audit_ids ?q = audit_ids p" "down_ids ?q = down_ids p" using assms(4) by (simp_all add: audit_ids_def down_ids_def)
  have "row_inv (sup p) now info us (down_ids p) (audit_row r)" if "r \<in> set (stream p)" for r
  proof -
    have r: "rec_inv (sup p) now info us (down_ids p) r" using old that by blast
    then have "AParams r \<noteq> PAbsent" by (simp add: rec_inv_def rec_base_def)
    then show ?thesis using r by (simp add: rec_inv_def row_inv_def rec_base_def rec_authorised_def audit_row_def)
  qed
  then have "\<forall>x \<in> set rows. row_inv (sup p) now info us (down_ids p) x" using assms(3) old by blast
  moreover have "\<forall>r \<in> set st. rec_inv (sup p) now info us (down_ids p) r" using assms(2) old by blast
  ultimately show ?thesis using old unfolding plane_inv_def ids by simp
qed

lemma consumed_inv:
  assumes "plane_inv now info us p" "r \<in> set (stream p)"
  shows "plane_inv now info us (handleAudit fails acked r p)" "sup (handleAudit fails acked r p) = sup p"
    "down_ids (handleAudit fails acked r p) = down_ids p" "audit_ids (handleAudit fails acked r p) = audit_ids p"
proof -
  have "rec_inv (sup p) now info us (down_ids p) r" using assms unfolding plane_inv_def by blast
  then have r: "\<not> (CmdID r = [] \<or> ASN r = [])" by (simp add: rec_inv_def rec_base_def)
  obtain ok rows where ins: "InsertAudit fails r (cmd_audit p) = (ok, rows)" by fastforce
  have res: "handleAudit fails acked r p = (if ok then p\<lparr>stream := (if acked then remove1 r (stream p) else stream p), cmd_audit := rows\<rparr> else p)"
    using r ins by (simp add: handleAudit_def)
  have ok: "ok \<Longrightarrow> (rows = cmd_audit p \<or> rows = cmd_audit p @ [audit_row r]) \<and> CmdID r \<in> CmdID ` set rows"
    using ins by (auto simp: InsertAudit_def list_ex_iff audit_row_def split: if_splits intro: rev_image_eqI)
  let ?st = "if acked then remove1 r (stream p) else stream p"
  have ids: "CmdID ` set ?st \<union> CmdID ` set rows = audit_ids p" if ok
  proof -
    have "set (stream p) = insert r (set (remove1 r (stream p)))" by (rule remove1_covers[OF assms(2)])
    then have "CmdID ` set ?st \<union> {CmdID r} = CmdID ` set (stream p)" using assms(2) by (auto simp del: insert_iff)
    moreover have "CmdID ` set rows = insert (CmdID r) (CmdID ` set (cmd_audit p))"
      using ok that by (auto simp: audit_row_def)
    ultimately show ?thesis unfolding audit_ids_def by blast
  qed
  show "plane_inv now info us (handleAudit fails acked r p)"
  proof (cases ok)
    case True
    then have "set ?st \<subseteq> set (stream p)" using set_remove1_subset[of r "stream p"] by simp
    moreover have "x \<in> set (cmd_audit p) \<or> (\<exists>r \<in> set (stream p). x = audit_row r)" if "x \<in> set rows" for x
      using ok True that assms(2) by auto
    ultimately show ?thesis using True ids moved_inv[OF assms(1)] by (simp add: res)
  qed (use assms(1) res in simp)
  show "sup (handleAudit fails acked r p) = sup p" "down_ids (handleAudit fails acked r p) = down_ids p" by (simp_all add: res down_ids_def)
  show "audit_ids (handleAudit fails acked r p) = audit_ids p" using ids by (simp add: res audit_ids_def)
qed

lemma plane_inv_rows:
  "plane_inv now info us p \<Longrightarrow> \<forall>x \<in> set rows. row_inv (sup p) now info us (down_ids p) x \<Longrightarrow>
   CmdID ` set rows = CmdID ` set (cmd_audit p) \<Longrightarrow> plane_inv now info us (p\<lparr>cmd_audit := rows\<rparr>)"
  by (simp add: plane_inv_def down_ids_def audit_ids_def)

lemma answered_inv:
  assumes "plane_inv now info us p" "c \<in> down_ids p"
  shows "plane_inv now info us (snd (getCmd redis fails c t p))" "sup (snd (getCmd redis fails c t p)) = sup p"
    "down_ids (snd (getCmd redis fails c t p)) = down_ids p" "audit_ids (snd (getCmd redis fails c t p)) = audit_ids p"
proof -
  let ?P = "\<lambda>x. CmdID x = c \<and> AckedAt x = None" and ?f = "\<lambda>res x. x\<lparr>AResult := res, AckedAt := Some t\<rparr>"
  note old = assms(1)[unfolded plane_inv_def]
  have res: "snd (getCmd redis fails c t p) = p \<or> (\<exists>res. snd (getCmd redis fails c t p) = p\<lparr>cmd_audit := update_where ?P (?f res) (cmd_audit p)\<rparr>)"
    by (cases redis; cases "projr redis") (auto simp: getCmd_def MarkAcked_def)
  have ids: "CmdID ` set (update_where ?P (?f res) (cmd_audit p)) = CmdID ` set (cmd_audit p)" for res
  proof -
    have "map CmdID (update_where ?P (?f res) (cmd_audit p)) = map CmdID (cmd_audit p)" by (rule map_update_where_frame) simp
    then show ?thesis by (metis set_map)
  qed
  have "row_inv (sup p) now info us (down_ids p) (if ?P x then ?f res x else x)" if "x \<in> set (cmd_audit p)" for x res
  proof -
    have x: "row_inv (sup p) now info us (down_ids p) x" using old that by blast
    show ?thesis
    proof (cases "?P x")
      case True
      then have "AResult x \<noteq> ''denied''" using x assms(2) unfolding row_inv_def by blast
      then have "rec_base (sup p) now info us (?f res x)" using x unfolding row_inv_def rec_base_def rec_authorised_def by simp
      then show ?thesis using True by (simp add: row_inv_def)
    qed (use x in \<open>simp only: if_False\<close>)
  qed
  then have rows: "\<forall>x \<in> set (update_where ?P (?f res) (cmd_audit p)). row_inv (sup p) now info us (down_ids p) x" for res
    unfolding ball_update_where by blast
  have upd: "plane_inv now info us (p\<lparr>cmd_audit := update_where ?P (?f res) (cmd_audit p)\<rparr>)" for res
    by (rule plane_inv_rows[OF assms(1) rows ids])
  show "plane_inv now info us (snd (getCmd redis fails c t p))" using res
  proof (elim disjE exE)
    assume "snd (getCmd redis fails c t p) = p"
    then show ?thesis using assms(1) by (rule ssubst)
  next
    fix res assume "snd (getCmd redis fails c t p) = p\<lparr>cmd_audit := update_where ?P (?f res) (cmd_audit p)\<rparr>"
    then show ?thesis using upd[of res] by (rule ssubst)
  qed
  show "sup (snd (getCmd redis fails c t p)) = sup p" "down_ids (snd (getCmd redis fails c t p)) = down_ids p"
    "audit_ids (snd (getCmd redis fails c t p)) = audit_ids p" 
    using res by (elim disjE exE; simp only: down_ids_def audit_ids_def Plane.simps Plane.select_convs Plane.update_convs ids Plane.surjective[symmetric]; simp)+
qed

lemma sup_inv:
  assumes "plane_inv now info us p" "flights_inv now info us p fl" "now \<le> t"
    and "grants_ok db" "\<forall>g \<in> set (grants db). granted_before t g"
    and "\<And>sn a tc. tc \<le> now \<Longrightarrow> consent (sup p) sn a tc \<Longrightarrow> consent db sn a tc"
  shows "plane_inv t info us (p\<lparr>sup := db\<rparr>)" "flights_inv t info us (p\<lparr>sup := db\<rparr>) fl"
proof -
  note old = assms(1)[unfolded plane_inv_def]
  have ids: "down_ids (p\<lparr>sup := db\<rparr>) = down_ids p" "audit_ids (p\<lparr>sup := db\<rparr>) = audit_ids p" by (simp_all add: down_ids_def audit_ids_def)
  have "rec_inv db t info us (down_ids p) r" if "r \<in> set (stream p)" for r
    using old that rec_base_mono[of "sup p" now info us r t us info db] assms(3,6) unfolding rec_inv_def by blast
  moreover have "row_inv db t info us (down_ids p) r" if "r \<in> set (cmd_audit p)" for r
    using old that rec_base_mono[of "sup p" now info us r t us info db] assms(3,6) unfolding row_inv_def by blast
  ultimately show "plane_inv t info us (p\<lparr>sup := db\<rparr>)" using old assms(4,5) unfolding plane_inv_def ids by simp
  have "flight_inv db t info us (down_ids p \<union> audit_ids p) f" if "f \<in> set fl" for f
  proof -
    have f: "flight_inv (sup p) now info us (down_ids p \<union> audit_ids p) f" using assms(2) that unfolding flights_inv_def by blast
    then have "CmdID (fst f) \<notin> down_ids p \<union> audit_ids p" by (simp add: flight_inv_def)
    then show ?thesis by (intro flight_inv_mono[OF f assms(3), where info' = info]) (use assms(6) in auto)
  qed
  then show "flights_inv t info us (p\<lparr>sup := db\<rparr>) fl" using assms(2) unfolding flights_inv_def ids by simp
qed

lemma granted_before_moves:
  assumes "\<forall>g \<in> set (grants db). granted_before now g" "now \<le> t"
  shows "\<forall>g \<in> set (grants (snd (TransitionGrant flt gid to t db))). granted_before t g"
proof -
  have later: "granted_before now g \<Longrightarrow> granted_before t g" for g using assms(2) by (auto simp: granted_before_def split: option.splits)
  then have "granted_before t (if C then move_grant to t g else g)" if "granted_before now g" for g C
    using that by (simp add: move_grant_def) (simp add: granted_before_def)
  then show ?thesis using TransitionGrant_effect[of flt gid to t db] assms(1) later
    by (elim disjE) (simp_all add: ball_update_where)
qed

lemma cmd_step_inv: "cmd_step s s' \<Longrightarrow> cmd_inv s \<Longrightarrow> cmd_inv s'"
proof (induction rule: cmd_step.induct)
  case (admitted s t e sn q r)
  then show ?case unfolding cmd_inv_def by (auto intro!: admitted_inv)
next
  case (refused s t e sn q r how)
  from refused(6) obtain info where i: "plane_inv (cnow s) info (used s) (plane s)" "flights_inv (cnow s) info (used s) (plane s) (flights s)"
    unfolding cmd_inv_def by blast
  have r: "CmdID r = EUUID e" "ASN r = sn" "AResult r = ''denied''" "AParams r \<noteq> PAbsent"
    using refused(5) by (auto simp: refusal_def cmd_record_def cmd_params_def split: if_split_asm)
  from refused_inv[OF i, of r t how] refused(1-4) r show ?case unfolding cmd_inv_def by auto
next
  case (sent s t r tc e)
  then show ?case unfolding cmd_inv_def by (auto dest: sent_inv)
next
  case (crashed s f)
  from crashed obtain info where i: "plane_inv (cnow s) info (used s) (plane s)" "flights_inv (cnow s) info (used s) (plane s) (flights s)"
    unfolding cmd_inv_def by blast
  have "flights_inv (cnow s) info (used s) (plane s) (remove1 f (flights s))"
    using i(2) distinct_map_remove1[of "CmdID \<circ> fst" "flights s" f] set_mp[OF set_remove1_subset, of _ f "flights s"]
    unfolding flights_inv_def by blast
  then show ?case using i(1) unfolding cmd_inv_def by auto
next
  case (consumed r s fails acked)
  from consumed(2) obtain info where i: "plane_inv (cnow s) info (used s) (plane s)" "flights_inv (cnow s) info (used s) (plane s) (flights s)"
    unfolding cmd_inv_def by blast
  note c = consumed_inv[OF i(1) consumed(1), of fails acked]
  have "flights_inv (cnow s) info (used s) (handleAudit fails acked r (plane s)) (flights s)"
    by (rule flights_inv_later[OF i(2)]) (use c in auto)
  then show ?case using c(1) unfolding cmd_inv_def by auto
next
  case (answered c s redis fails t)
  from answered(2) obtain info where i: "plane_inv (cnow s) info (used s) (plane s)" "flights_inv (cnow s) info (used s) (plane s) (flights s)"
    unfolding cmd_inv_def by blast
  have "c \<in> down_ids (plane s)" using answered(1) by (auto simp: down_ids_def list_ex_iff)
  note c = answered_inv[OF i(1) this, of redis fails t]
  have "flights_inv (cnow s) info (used s) (snd (getCmd redis fails c t (plane s))) (flights s)"
    by (rule flights_inv_later[OF i(2)]) (use c in auto)
  then show ?case using c(1) unfolding cmd_inv_def by auto
next
  case (grant_asked s t flt gid sn ticket operator actions)
  from grant_asked(2) obtain info where i: "plane_inv (cnow s) info (used s) (plane s)" "flights_inv (cnow s) info (used s) (plane s) (flights s)"
    unfolding cmd_inv_def by blast
  let ?db = "snd (RequestGrant flt gid t sn ticket operator actions (sup (plane s)))"
  have ok: "grants_ok (sup (plane s))" "\<forall>g \<in> set (grants (sup (plane s))). granted_before (cnow s) g" using i(1) unfolding plane_inv_def by blast+
  have "granted_before t g" if "granted_before (cnow s) g" for g
    using that grant_asked(1) by (auto simp: granted_before_def split: option.splits)
  moreover have "GStatus g = ''requested'' \<Longrightarrow> grant_row_ok g \<Longrightarrow> granted_before t g" for g by (auto simp: grant_row_ok_def granted_before_def)
  ultimately have "\<forall>g \<in> set (grants ?db). granted_before t g"
    using ok(2) RequestGrant_effect[of flt gid t sn ticket operator actions "sup (plane s)"] by auto
  from sup_inv[OF i grant_asked(1) RequestGrant_ok[OF ok(1)] this] show ?case
    unfolding cmd_inv_def by (auto intro: consent_asked)
next
  case (grant_moved s t flt gid to)
  from grant_moved(2) obtain info where i: "plane_inv (cnow s) info (used s) (plane s)" "flights_inv (cnow s) info (used s) (plane s) (flights s)"
    unfolding cmd_inv_def by blast
  let ?db = "snd (TransitionGrant flt gid to t (sup (plane s)))"
  have ok: "grants_ok (sup (plane s))" "\<forall>g \<in> set (grants (sup (plane s))). granted_before (cnow s) g" using i(1) unfolding plane_inv_def by blast+
  have "cnow s \<le> t" using grant_moved(1) by simp
  from sup_inv[OF i this TransitionGrant_ok[OF ok(1)] granted_before_moves[OF ok(2) this]] show ?case
    unfolding cmd_inv_def using consent_moves[OF ok(1)] grant_moved(1) by fastforce
next
  case (owners s bs)
  from owners obtain info where i: "plane_inv (cnow s) info (used s) (plane s)" "flights_inv (cnow s) info (used s) (plane s) (flights s)"
    unfolding cmd_inv_def by blast
  have ok: "grants_ok ((sup (plane s))\<lparr>bindings := bs\<rparr>)" "\<forall>g \<in> set (grants ((sup (plane s))\<lparr>bindings := bs\<rparr>)). granted_before (cnow s) g"
    using i(1) unfolding plane_inv_def grants_ok_def by simp_all
  from sup_inv[OF i order_refl ok] show ?case unfolding cmd_inv_def by (auto simp: consent_def)
next
  case (ticked s t)
  then show ?case unfolding cmd_inv_def by (auto intro!: plane_inv_later[OF _ ticked(1)] flights_inv_later[OF _ ticked(1)])
qed

lemma cmd_reach_inv: "cmd_reach s \<Longrightarrow> cmd_inv s"
proof -
  have "cmd_step\<^sup>*\<^sup>* s s' \<Longrightarrow> cmd_inv s \<Longrightarrow> cmd_inv s'" for s s'
    by (induction rule: rtranclp_induct) (auto intro: cmd_step_inv)
  moreover have "cmd_inv cmd_start"
    by (simp add: cmd_inv_def cmd_start_def empty_plane_def plane_inv_def flights_inv_def grants_ok_def)
  ultimately show "cmd_reach s \<Longrightarrow> ?thesis" unfolding cmd_reach_def by blast
qed

subsection \<open>What the service promises\<close>


definition demo_env :: "string \<Rightarrow> time \<Rightarrow> CmdEnv" where
  "demo_env uuid t = \<lparr>EDecoded = True, EShadow = Some [], EUUID = uuid, EChecker = True, ELookupFails = False, ECheckAt = t, EDeniedAt = t,
     ERecAt = t, EDeniedAudit = Acked, EAudit = Acked, EDown = Acked, EFailedAudit = Acked\<rparr>"

definition demo_req :: "string \<Rightarrow> string \<Rightarrow> string \<Rightarrow> CmdRequest" where
  "demo_req source operator action = \<lparr>QAction = action, QParams = PAbsent, QOperator = [], QSource = [], XSource = source, XOperator = operator\<rparr>"


definition demo_sup0 :: SupDb where
  "demo_sup0 = snd (RequestGrant (\<lambda>_. False) ''g1'' 1 ''SN1'' ''T1'' ''op'' [] \<lparr>grants = [], bindings = []\<rparr>)"

definition demo_sup1 :: SupDb where
  "demo_sup1 = snd (TransitionGrant (\<lambda>_. False) ''g1'' ''granted'' 10 demo_sup0)"

definition demo_record :: AuditRecord where
  "demo_record = (cmd_record (demo_env ''u1'' 20) ''SN1'' (demo_req ''support'' ''op'' ''self_check''))
     \<lparr>AParams := PObject [''grant_id'' \<mapsto> ''g1'']\<rparr>"

definition demo_sent :: Plane where
  "demo_sent = snd (send_cmd (demo_env ''u1'' 20) (demo_record\<lparr>ACreatedAt := 21\<rparr>) (empty_plane\<lparr>sup := demo_sup1\<rparr>))"

definition demo_stored :: Plane where
  "demo_stored = handleAudit False True (hd (stream demo_sent)) demo_sent"

lemma demo_sup1_eq: "demo_sup1 = \<lparr>grants = [\<lparr>GrantID = ''g1'', GSN = ''SN1'', GTicketID = ''T1'', GOperator = ''op'', Actions = [''self_check''],
    GStatus = ''granted'', RequestedAt = 1, GrantedAt = Some 10, ExpiresAt = Some (10 + GrantTTL), RevokedAt = None, DeniedAt = None\<rparr>], bindings = []\<rparr>"
proof -
  have "ValidGrantRequest ''SN1'' ''T1'' ''op'' [] = Inr [''self_check'']" by code_simp
  then have eq0: "demo_sup0 = \<lparr>grants = [\<lparr>GrantID = ''g1'', GSN = ''SN1'', GTicketID = ''T1'', GOperator = ''op'', Actions = [''self_check''],
    GStatus = ''requested'', RequestedAt = 1, GrantedAt = None, ExpiresAt = None, RevokedAt = None, DeniedAt = None\<rparr>], bindings = []\<rparr>"
    by (simp add: demo_sup0_def RequestGrant_def Let_def InsertGrant_def)
  have "GrantSources ''granted'' = [''requested'']" by code_simp
  then show ?thesis by (simp add: demo_sup1_def eq0 TransitionGrant_def Let_def move_grant_def)
qed

lemma demo_admit: "admit (demo_env ''u1'' 20) ''SN1'' (demo_req ''support'' ''op'' ''self_check'') demo_sup1 = Some demo_record"
proof -
  have "resolveSource ''support'' [] = ''support''" by code_simp
  moreover have "trimSpace ''g1'' = ''g1''" by code_simp
  ultimately show ?thesis
    by (simp add: admit_def precheck_def DecideCmd_def cmd_whitelist_def demo_env_def demo_req_def cmd_decision_def authorize_def NeedsGrant_def
      Check_def demo_sup1_eq grant_covers_def Effective_def GrantTTL_def demo_record_def withGrantID_def cmd_params_def)
qed

lemma demo_sent_eq: "stream demo_sent = [demo_record\<lparr>ACreatedAt := 21\<rparr>]"
  "downs demo_sent = [\<lparr>DownSN = ''SN1'', DownCmd = ''u1'', DownAction = ''self_check'', DownParams = PObject [''grant_id'' \<mapsto> ''g1'']\<rparr>]" "cmd_audit demo_sent = []"
  by (simp_all add: demo_sent_def send_cmd_def demo_env_def publishAudit_def PublishDown_def empty_plane_def demo_record_def cmd_record_def demo_req_def)

lemma demo_fits: "row_fits (demo_record\<lparr>ACreatedAt := 21\<rparr>)"
proof -
  have "resolveSource ''support'' [] = ''support''" "trimSpace ''op'' = ''op''" by code_simp+
  then show ?thesis by (simp add: row_fits_def demo_record_def cmd_record_def demo_env_def demo_req_def cmd_operator_def Let_def)
qed

lemma demo_stored_eq: "cmd_audit demo_stored = [audit_row (demo_record\<lparr>ACreatedAt := 21\<rparr>)]"
  using demo_fits by (simp add: demo_stored_def demo_sent_eq handleAudit_def InsertAudit_def Let_def) (simp add: demo_record_def cmd_record_def demo_env_def)

lemma demo_run:
  "\<exists>s. cmd_reach s \<and> plane s = demo_sent" "\<exists>s. cmd_reach s \<and> plane s = demo_stored"
proof -
  let ?s1 = "cmd_start\<lparr>cnow := 1, plane := empty_plane\<lparr>sup := demo_sup0\<rparr>\<rparr>"
  let ?s2 = "?s1\<lparr>cnow := 10, plane := empty_plane\<lparr>sup := demo_sup1\<rparr>\<rparr>"
  let ?s3 = "?s2\<lparr>cnow := 20, flights := [(demo_record, 20)], used := {''u1''}\<rparr>"
  let ?s4 = "?s3\<lparr>cnow := 21, plane := demo_sent, flights := []\<rparr>"
  have "cmd_step cmd_start ?s1"
    using cmd_step.grant_asked[of cmd_start 1 "\<lambda>_. False" "''g1''" "''SN1''" "''T1''" "''op''" "[]"]
    by (simp add: cmd_start_def empty_plane_def demo_sup0_def)
  moreover have "cmd_step ?s1 ?s2"
    using cmd_step.grant_moved[of ?s1 10 "\<lambda>_. False" "''g1''" "''granted''"] by (simp add: demo_sup1_def)
  moreover have "cmd_step ?s2 ?s3"
    using cmd_step.admitted[of ?s2 20 "demo_env ''u1'' 20" "''SN1''" "demo_req ''support'' ''op'' ''self_check''" demo_record] demo_admit
    by (simp add: demo_env_def cmd_start_def)
  moreover have "cmd_step ?s3 ?s4"
    using cmd_step.sent[of ?s3 21 demo_record 20 "demo_env ''u1'' 20"] by (simp add: demo_sent_def)
  ultimately have r: "cmd_reach ?s4" unfolding cmd_reach_def by (meson rtranclp.rtrancl_into_rtrancl rtranclp.rtrancl_refl)
  then show "\<exists>s. cmd_reach s \<and> plane s = demo_sent" by (intro exI[of _ ?s4]) simp
  have "cmd_step ?s4 (?s4\<lparr>plane := demo_stored\<rparr>)"
    using cmd_step.consumed[of "hd (stream demo_sent)" ?s4 False True] by (simp add: demo_stored_def demo_sent_eq)
  with r show "\<exists>s. cmd_reach s \<and> plane s = demo_stored" unfolding cmd_reach_def
    by (intro exI[of _ "?s4\<lparr>plane := demo_stored\<rparr>"]) (simp add: rtranclp.rtrancl_into_rtrancl)
qed



definition audited :: "Plane \<Rightarrow> Down \<Rightarrow> bool" where
  "audited p d \<longleftrightarrow>
     list_ex (\<lambda>r. CmdID r = DownCmd d \<and> ASN r = DownSN d \<and> AAction r = DownAction d \<and> AParams r = DownParams d) (stream p) \<or>
     list_ex (\<lambda>r. CmdID r = DownCmd d \<and> ASN r = DownSN d \<and> AAction r = DownAction d \<and> AParams r = DownParams d) (cmd_audit p)"

lemma plane_audited: "plane_inv now info us p \<Longrightarrow> d \<in> set (downs p) \<Longrightarrow> audited p d"
proof -
  assume p: "plane_inv now info us p" "d \<in> set (downs p)"
  then have d: "DownCmd d \<in> audit_ids p" "info (DownCmd d) = (DownSN d, DownAction d, DownParams d)"
    unfolding plane_inv_def down_inv_def by blast+
  have "\<forall>r \<in> set (stream p). info (CmdID r) = (ASN r, AAction r, AParams r)" "\<forall>r \<in> set (cmd_audit p). info (CmdID r) = (ASN r, AAction r, AParams r)"
    using p(1) unfolding plane_inv_def rec_inv_def row_inv_def rec_base_def by blast+
  with d show ?thesis by (auto simp: audited_def audit_ids_def list_ex_iff)
qed

text \<open>
  No command without an audit message first, and none outside the white list. In every reachable state each delivered command has a message still
  in the audit stream or a row in the audit table with its identifier, device, action and parameters.
\<close>

theorem audited_before_sent:
  assumes "cmd_reach s" "d \<in> set (downs (plane s))"
  shows "audited (plane s) d \<and> DownAction d \<in> set cmd_whitelist"
proof -
  obtain info where p: "plane_inv (cnow s) info (used s) (plane s)" using cmd_reach_inv[OF assms(1)] unfolding cmd_inv_def by blast
  moreover have "DownAction d \<in> set cmd_whitelist" using p assms(2) unfolding plane_inv_def down_inv_def by blast
  ultimately show ?thesis using plane_audited assms(2) by blast
qed

theorem audited_before_sent_witness:
  "audited demo_sent (hd (downs demo_sent)) \<and> DownAction (hd (downs demo_sent)) = ''self_check''"
proof -
  obtain s where s: "cmd_reach s" "plane s = demo_sent" using demo_run(1) by blast
  show ?thesis using audited_before_sent[OF s(1), of "hd (downs demo_sent)"] by (simp add: s(2) demo_sent_eq)
qed

text \<open>The consumer working off the stream without failures.\<close>

fun drain_audit :: "nat \<Rightarrow> Plane \<Rightarrow> Plane" where
  "drain_audit 0 p = p"
| "drain_audit (Suc n) p = (case stream p of [] \<Rightarrow> p | r # rs \<Rightarrow> drain_audit n (handleAudit False True r p))"

lemma handleAudit_takes:
  assumes "plane_inv now info us p" "stream p = r # rs" "row_fits r"
  shows "stream (handleAudit False True r p) = rs" "downs (handleAudit False True r p) = downs p"
proof -
  have "rec_inv (sup p) now info us (down_ids p) r" using assms(1,2) unfolding plane_inv_def by (metis list.set_intros(1))
  then have "\<not> (CmdID r = [] \<or> ASN r = [])" by (simp add: rec_inv_def rec_base_def)
  then show "stream (handleAudit False True r p) = rs" "downs (handleAudit False True r p) = downs p"
    using assms(2,3) by (simp_all add: handleAudit_def InsertAudit_def)
qed

lemma drain_inv:
  "plane_inv now info us p \<Longrightarrow> n = length (stream p) \<Longrightarrow> list_all row_fits (stream p) \<Longrightarrow>
   plane_inv now info us (drain_audit n p) \<and> stream (drain_audit n p) = [] \<and> downs (drain_audit n p) = downs p"
proof (induction n arbitrary: p)
  case (Suc n)
  then obtain r rs where st: "stream p = r # rs" by (cases "stream p") auto
  then have "row_fits r" using Suc.prems(3) by simp
  note h = handleAudit_takes[OF Suc.prems(1) st this] consumed_inv(1)[OF Suc.prems(1), of r False True]
  from Suc.IH[of "handleAudit False True r p"] show ?case using h st Suc.prems by simp
qed simp

text \<open>
  C9: Every command ends in the audit table. Once the consumer has worked off its stream, each delivered command has a row with
  its identifier, device, action and parameters, as long as the texts of the messages fit their columns.
\<close>

theorem every_command_audited:
  assumes "cmd_reach s" "list_all row_fits (stream (plane s))" "d \<in> set (downs (plane s))"
  defines "p \<equiv> drain_audit (length (stream (plane s))) (plane s)"
  shows "\<exists>x \<in> set (cmd_audit p). CmdID x = DownCmd d \<and> ASN x = DownSN d \<and> AAction x = DownAction d \<and> AParams x = DownParams d"
proof -
  obtain info where "plane_inv (cnow s) info (used s) (plane s)" using cmd_reach_inv[OF assms(1)] unfolding cmd_inv_def by blast
  from drain_inv[OF this refl assms(2)] have "plane_inv (cnow s) info (used s) p" "stream p = []" "d \<in> set (downs p)"
    using assms(3) by (simp_all add: p_def)
  then show ?thesis using plane_audited[of "cnow s" info "used s" p d] by (auto simp: audited_def list_ex_iff)
qed

theorem every_command_audited_witness:
  "\<exists>x \<in> set (cmd_audit (drain_audit 1 demo_sent)). CmdID x = ''u1'' \<and> ASN x = ''SN1'' \<and> AAction x = ''self_check''"
proof -
  obtain s where s: "cmd_reach s" "plane s = demo_sent" using demo_run(1) by blast
  show ?thesis using every_command_audited[OF s(1), of "hd (downs demo_sent)"] demo_fits by (auto simp: s(2) demo_sent_eq)
qed

end
