(* ===== verification/AuditRecon.thy ===== *)
theory AuditRecon
  imports CommandSafety
begin

text \<open>
  The reconciliation of commands with permissions, \<open>internal/support/reconcile.go\<close>, and the self check that the support service has a
  device make, \<open>selfcheck.go\<close> and \<open>agent.go\<close>, which goes through the device API of \<open>Command\<close>.
\<close>

subsection \<open>Reconciliation\<close>

text \<open>The zero value of \<open>time.Time\<close>, the first instant of the year 1.\<close>

definition zero_time :: time where "zero_time = - 62135596800000000"

record GrantWindow =
  WGrantID :: string
  WSN :: string
  WGrantedAt :: time
  WExpiresAt :: time
  WRevokedAt :: "time option"

definition Covers :: "GrantWindow \<Rightarrow> string \<Rightarrow> time \<Rightarrow> bool" where
  "Covers g sn t \<longleftrightarrow>
     (if WSN g \<noteq> sn \<or> WGrantedAt g = zero_time \<or> WExpiresAt g = zero_time then False
      else if t < WGrantedAt g \<or> \<not> t < WExpiresAt g then False
      else case WRevokedAt g of None \<Rightarrow> True | Some rv \<Rightarrow> t < rv)"

definition UnauthorizedCmds :: "AuditRow list \<Rightarrow> GrantWindow list \<Rightarrow> AuditRow list" where
  "UnauthorizedCmds cmds gs =
     sort_key ACreatedAt (filter (\<lambda>c. \<not> list_ex (\<lambda>g. Covers g (ASN c) (ACreatedAt c)) (filter (\<lambda>g. WSN g = ASN c) gs)) cmds)"

definition AuditCmdsSince :: "time \<Rightarrow> AuditRow list \<Rightarrow> AuditRow list" where
  "AuditCmdsSince since rows =
     sort_key ACreatedAt (filter (\<lambda>c. ACreatedAt c \<ge> since \<and> ASource c \<in> {''support'', ''agent''} \<and> AResult c \<noteq> ''denied'') rows)"

definition grant_window :: "Grant \<Rightarrow> GrantWindow" where
  "grant_window g = \<lparr>WGrantID = GrantID g, WSN = GSN g, WGrantedAt = the (GrantedAt g), WExpiresAt = the (ExpiresAt g), WRevokedAt = RevokedAt g\<rparr>"

definition GrantWindowsSince :: "time \<Rightarrow> SupDb \<Rightarrow> GrantWindow list" where
  "GrantWindowsSince since db =
     map grant_window (filter (\<lambda>g. GrantedAt g \<noteq> None \<and> ExpiresAt g \<noteq> None \<and> the (ExpiresAt g) \<ge> since \<and>
       GStatus g \<in> {''granted'', ''revoked''}) (grants db))"

abbreviation DefaultAuditWindow :: duration where "DefaultAuditWindow \<equiv> 30 * support_minute"

record AuditReport =
  Checked :: nat
  RGrants :: nat
  Unauthorized :: nat

record AuditReconciler =
  RHasStore :: bool
  RWindow :: duration
  RM :: metrics

text \<open>A round: its result, the commands it reports, the counters.\<close>

definition NewAuditReconciler :: "bool \<Rightarrow> metrics \<Rightarrow> duration \<Rightarrow> AuditReconciler" where
  "NewAuditReconciler has m window = \<lparr>RHasStore = has, RWindow = (if window \<le> 0 then DefaultAuditWindow else window), RM = m\<rparr>"

definition AuditRunOnce :: "(string \<Rightarrow> bool) \<Rightarrow> time \<Rightarrow> Plane \<Rightarrow> AuditReconciler \<Rightarrow> (support_error + AuditReport) \<times> AuditRow list \<times> AuditReconciler" where
  "AuditRunOnce flt now p r =
     (if \<not> RHasStore r then (Inl SupUnavailable, [], r)
      else let since = now - RWindow r in
        if flt ''audit'' then (Inl SupDbError, [], r\<lparr>RM := Inc ''audit_reconcile_errors'' (RM r)\<rparr>)
        else let cmds = AuditCmdsSince since (cmd_audit p) in
        if flt ''grants'' then (Inl SupDbError, [], r\<lparr>RM := Inc ''audit_reconcile_errors'' (RM r)\<rparr>)
        else let gs = GrantWindowsSince since (sup p); bad = UnauthorizedCmds cmds gs in
          (Inr \<lparr>Checked = length cmds, RGrants = length gs, Unauthorized = length bad\<rparr>, bad,
           r\<lparr>RM := Add ''audit_unauthorized'' (int (length bad)) (Add ''audit_checked'' (int (length cmds)) (Inc ''audit_reconcile_runs'' (RM r)))\<rparr>))"

text \<open>A row of any status and age covers an instant.\<close>

definition row_covers :: "Grant \<Rightarrow> string \<Rightarrow> time \<Rightarrow> bool" where
  "row_covers g sn t \<longleftrightarrow> GSN g = sn \<and>
     (case (GrantedAt g, ExpiresAt g) of (Some a, Some e) \<Rightarrow> a \<le> t \<and> t < e | _ \<Rightarrow> False) \<and>
     (case RevokedAt g of None \<Rightarrow> True | Some rv \<Rightarrow> t < rv)"

text \<open>Rows granted in the first microsecond of the year 1 aside, the statements of the round lose nothing.\<close>

definition sane_clock :: "SupDb \<Rightarrow> bool" where
  "sane_clock db \<longleftrightarrow> list_all (\<lambda>g. GrantedAt g \<noteq> Some zero_time \<and> ExpiresAt g \<noteq> Some zero_time) (grants db)"

lemma Covers_window:
  assumes "grant_row_ok g" "GrantedAt g \<noteq> Some zero_time" "ExpiresAt g \<noteq> Some zero_time"
  shows "(GrantedAt g \<noteq> None \<and> ExpiresAt g \<noteq> None \<and> GStatus g \<in> {''granted'', ''revoked''} \<and> Covers (grant_window g) sn t) \<longleftrightarrow> row_covers g sn t"
proof (cases "GStatus g = ''granted'' \<or> GStatus g = ''revoked''")
  case True
  then obtain a where a: "GrantedAt g = Some a" "ExpiresAt g = Some (a + GrantTTL)"
    using assms(1) unfolding grant_row_ok_def by (elim conjE disjE) auto
  then show ?thesis using True assms(2,3) by (auto simp: row_covers_def Covers_def grant_window_def)
next
  case False
  then have "GrantedAt g = None" using assms(1) unfolding grant_row_ok_def by (elim conjE disjE) auto
  then show ?thesis by (simp add: row_covers_def)
qed

definition accused :: "time \<Rightarrow> Plane \<Rightarrow> AuditRow \<Rightarrow> bool" where
  "accused since p c \<longleftrightarrow> since \<le> ACreatedAt c \<and> NeedsGrant (ASource c) \<and> AResult c \<noteq> ''denied'' \<and>
     \<not> list_ex (\<lambda>g. row_covers g (ASN c) (ACreatedAt c)) (grants (sup p))"

lemma filter_sort_key: "filter P (sort_key f xs) = sort_key f (filter P xs)"
  by (induction xs) (simp_all add: filter_insort filter_insort_triv)

lemma sort_key_idem [simp]: "sort_key f (sort_key f xs) = sort_key f xs"
  by (rule sort_key_id_if_sorted) simp

lemma windows_cover:
  assumes "grants_ok (sup p)" "sane_clock (sup p)" "since \<le> t"
  shows "list_ex (\<lambda>g. Covers g sn t) (filter (\<lambda>g. WSN g = sn) (GrantWindowsSince since (sup p))) \<longleftrightarrow>
    list_ex (\<lambda>g. row_covers g sn t) (grants (sup p))"
proof -
  have row: "(GrantedAt g \<noteq> None \<and> ExpiresAt g \<noteq> None \<and> the (ExpiresAt g) \<ge> since \<and> GStatus g \<in> {''granted'', ''revoked''}) \<and>
      Covers (grant_window g) sn t \<longleftrightarrow> row_covers g sn t" if "g \<in> set (grants (sup p))" for g
  proof -
    have ok: "grant_row_ok g" "GrantedAt g \<noteq> Some zero_time" "ExpiresAt g \<noteq> Some zero_time"
      using assms(1,2) that by (auto simp: grants_ok_def sane_clock_def list_all_iff)
    have "ExpiresAt g \<noteq> None \<and> Covers (grant_window g) sn t \<Longrightarrow> the (ExpiresAt g) \<ge> since"
      using assms(3) by (auto simp: Covers_def grant_window_def split: if_splits)
    then show ?thesis using Covers_window[OF ok, of sn t] by blast
  qed
  have "list_ex (\<lambda>g. Covers g sn t) (filter (\<lambda>g. WSN g = sn) ws) \<longleftrightarrow> (\<exists>w \<in> set ws. Covers w sn t)" for ws
    by (auto simp: list_ex_iff Covers_def)
  moreover have "(\<exists>w \<in> set (GrantWindowsSince since (sup p)). Covers w sn t) \<longleftrightarrow>
      (\<exists>g \<in> set (grants (sup p)). (GrantedAt g \<noteq> None \<and> ExpiresAt g \<noteq> None \<and> the (ExpiresAt g) \<ge> since \<and> GStatus g \<in> {''granted'', ''revoked''}) \<and>
        Covers (grant_window g) sn t)" unfolding GrantWindowsSince_def set_map set_filter by blast
  moreover have "\<dots> \<longleftrightarrow> (\<exists>g \<in> set (grants (sup p)). row_covers g sn t)" by (rule bex_cong[OF refl row])
  ultimately show ?thesis unfolding list_ex_iff by simp
qed


definition demo_recon :: AuditReconciler where
  "demo_recon = NewAuditReconciler True (\<lambda>_. 0) 0"

definition demo_rogue :: AuditRow where
  "demo_rogue = \<lparr>CmdID = ''x'', ASN = ''SN1'', AAction = ''stop'', AParams = PNull, AOperator = ''op'', ASource = ''support'', AResult = ''dispatched'',
     ACreatedAt = 5, AckedAt = None\<rparr>"


text \<open>
  No false alarm but one. A command that went through the device API is reported only if its permission ended,
  by its time or by the owner, after the check and not later than the record: the command was checked under a permission that was
  good at that instant.
\<close>

theorem accused_only_if_ended:
  assumes "cmd_reach s" "c \<in> set (cmd_audit (plane s))" "accused since (plane s) c"
  shows "\<exists>g tc e. g \<in> set (grants (sup (plane s))) \<and> GSN g = ASN c \<and> tc \<le> ACreatedAt c \<and> row_covers g (ASN c) tc \<and>
     (ExpiresAt g = Some e \<or> RevokedAt g = Some e) \<and> tc < e \<and> e \<le> ACreatedAt c"
proof -
  obtain info where inv: "plane_inv (cnow s) info (used s) (plane s)" using cmd_reach_inv[OF assms(1)] unfolding cmd_inv_def by blast
  then have "rec_base (sup (plane s)) (cnow s) info (used s) c" using assms(2) unfolding plane_inv_def row_inv_def by blast
  then obtain tc where tc: "tc \<le> ACreatedAt c" "consent (sup (plane s)) (ASN c) (AAction c) tc"
    using assms(3) by (auto simp: rec_base_def rec_authorised_def accused_def)
  then obtain g a where g: "g \<in> set (grants (sup (plane s)))" "GSN g = ASN c" "GrantedAt g = Some a" "ExpiresAt g = Some (a + GrantTTL)"
      "a \<le> tc" "tc < a + GrantTTL" "case RevokedAt g of None \<Rightarrow> True | Some rv \<Rightarrow> tc < rv"
    unfolding consent_def by blast
  then have now: "row_covers g (ASN c) tc" by (simp add: row_covers_def)
  have "\<not> row_covers g (ASN c) (ACreatedAt c)" using assms(3) g(1) by (auto simp: accused_def list_ex_iff)
  then have "a + GrantTTL \<le> ACreatedAt c \<or> (\<exists>rv. RevokedAt g = Some rv \<and> rv \<le> ACreatedAt c)"
    using g tc(1) by (auto simp: row_covers_def split: option.splits)
  then show ?thesis
  proof
    assume "a + GrantTTL \<le> ACreatedAt c"
    then show ?thesis using g now tc(1) by (intro exI[of _ g] exI[of _ tc] exI[of _ "a + GrantTTL"]) simp
  next
    assume "\<exists>rv. RevokedAt g = Some rv \<and> rv \<le> ACreatedAt c"
    then obtain rv where "RevokedAt g = Some rv" "rv \<le> ACreatedAt c" by blast
    then show ?thesis using g now tc(1) by (intro exI[of _ g] exI[of _ tc] exI[of _ rv]) simp
  qed
qed

text \<open>
  That case occurs: the owner withdraws between the check and the record, and a command that was permitted when it was checked is reported.
\<close>

definition demo_revoked :: SupDb where
  "demo_revoked = snd (TransitionGrant (\<lambda>_. False) ''g1'' ''revoked'' 21 demo_sup1)"

definition demo_late :: Plane where
  "demo_late = snd (send_cmd (demo_env ''u1'' 20) (demo_record\<lparr>ACreatedAt := 22\<rparr>) (empty_plane\<lparr>sup := demo_revoked\<rparr>))"

definition demo_late_stored :: Plane where
  "demo_late_stored = handleAudit False True (demo_record\<lparr>ACreatedAt := 22\<rparr>) demo_late"

lemma demo_late_eq: "stream demo_late = [demo_record\<lparr>ACreatedAt := 22\<rparr>]" "cmd_audit demo_late_stored = [audit_row (demo_record\<lparr>ACreatedAt := 22\<rparr>)]"
  "sup demo_late_stored = demo_revoked"
proof -
  show st: "stream demo_late = [demo_record\<lparr>ACreatedAt := 22\<rparr>]"
    by (simp add: demo_late_def send_cmd_def demo_env_def publishAudit_def PublishDown_def empty_plane_def)
  have "row_fits (demo_record\<lparr>ACreatedAt := 22\<rparr>)" using demo_fits by (simp add: row_fits_def)
  moreover have "cmd_audit demo_late = []" "sup demo_late = demo_revoked"
    by (simp_all add: demo_late_def send_cmd_def demo_env_def publishAudit_def PublishDown_def empty_plane_def)
  moreover have "CmdID demo_record \<noteq> []" "ASN demo_record \<noteq> []" by (simp_all add: demo_record_def cmd_record_def demo_env_def)
  ultimately show "cmd_audit demo_late_stored = [audit_row (demo_record\<lparr>ACreatedAt := 22\<rparr>)]" "sup demo_late_stored = demo_revoked"
    by (simp_all add: demo_late_stored_def handleAudit_def InsertAudit_def Let_def)
qed

lemma demo_revoked_eq: "demo_revoked = demo_sup1\<lparr>grants := [(hd (grants demo_sup1))\<lparr>GStatus := ''revoked'', RevokedAt := Some 21\<rparr>]\<rparr>"
proof -
  have "GrantSources ''revoked'' = [''granted'']" by code_simp
  then show ?thesis by (simp add: demo_revoked_def TransitionGrant_def Let_def move_grant_def demo_sup1_eq)
qed

lemma demo_late_run: "\<exists>s. cmd_reach s \<and> plane s = demo_late_stored"
proof -
  let ?s1 = "cmd_start\<lparr>cnow := 1, plane := empty_plane\<lparr>sup := demo_sup0\<rparr>\<rparr>"
  let ?s2 = "?s1\<lparr>cnow := 10, plane := empty_plane\<lparr>sup := demo_sup1\<rparr>\<rparr>"
  let ?s3 = "?s2\<lparr>cnow := 20, flights := [(demo_record, 20)], used := {''u1''}\<rparr>"
  let ?s4 = "?s3\<lparr>cnow := 21, plane := empty_plane\<lparr>sup := demo_revoked\<rparr>\<rparr>"
  let ?s5 = "?s4\<lparr>cnow := 22, plane := demo_late, flights := []\<rparr>"
  have "cmd_step cmd_start ?s1"
    using cmd_step.grant_asked[of cmd_start 1 "\<lambda>_. False" "''g1''" "''SN1''" "''T1''" "''op''" "[]"]
    by (simp add: cmd_start_def empty_plane_def demo_sup0_def)
  moreover have "cmd_step ?s1 ?s2"
    using cmd_step.grant_moved[of ?s1 10 "\<lambda>_. False" "''g1''" "''granted''"] by (simp add: demo_sup1_def)
  moreover have "cmd_step ?s2 ?s3"
    using cmd_step.admitted[of ?s2 20 "demo_env ''u1'' 20" "''SN1''" "demo_req ''support'' ''op'' ''self_check''" demo_record] demo_admit
    by (simp add: demo_env_def cmd_start_def)
  moreover have "cmd_step ?s3 ?s4"
    using cmd_step.grant_moved[of ?s3 21 "\<lambda>_. False" "''g1''" "''revoked''"] by (simp add: demo_revoked_def)
  moreover have "cmd_step ?s4 ?s5"
    using cmd_step.sent[of ?s4 22 demo_record 20 "demo_env ''u1'' 20"] by (simp add: demo_late_def)
  moreover have "cmd_step ?s5 (?s5\<lparr>plane := demo_late_stored\<rparr>)"
    using cmd_step.consumed[of "demo_record\<lparr>ACreatedAt := 22\<rparr>" ?s5 False True] by (simp add: demo_late_stored_def demo_late_eq(1))
  ultimately have "cmd_reach (?s5\<lparr>plane := demo_late_stored\<rparr>)" unfolding cmd_reach_def by (meson rtranclp.rtrancl_into_rtrancl rtranclp.rtrancl_refl)
  then show ?thesis by (intro exI[of _ "?s5\<lparr>plane := demo_late_stored\<rparr>"]) simp
qed

theorem permitted_command_reported:
  "\<exists>s. cmd_reach s \<and> accused 0 (plane s) (hd (cmd_audit (plane s)))"
proof -
  obtain s where s: "cmd_reach s" "plane s = demo_late_stored" using demo_late_run by blast
  have "resolveSource ''support'' [] = ''support''" by code_simp
  then have "accused 0 demo_late_stored (hd (cmd_audit demo_late_stored))"
    by (simp add: demo_late_eq accused_def audit_row_def demo_record_def cmd_record_def demo_env_def demo_req_def NeedsGrant_def demo_revoked_eq
      row_covers_def demo_sup1_eq)
  then show ?thesis using s by metis
qed

theorem accused_only_if_ended_witness:
  "\<exists>g tc e. GSN g = ''SN1'' \<and> row_covers g ''SN1'' tc \<and> (ExpiresAt g = Some e \<or> RevokedAt g = Some e) \<and> tc < e \<and> e \<le> 22"
proof -
  obtain s where s: "cmd_reach s" "plane s = demo_late_stored" using demo_late_run by blast
  have "resolveSource ''support'' [] = ''support''" by code_simp
  then have "accused 0 demo_late_stored (hd (cmd_audit demo_late_stored))"
    by (simp add: demo_late_eq accused_def audit_row_def demo_record_def cmd_record_def demo_env_def demo_req_def NeedsGrant_def demo_revoked_eq
      row_covers_def demo_sup1_eq)
  then show ?thesis using accused_only_if_ended[OF s(1), of "hd (cmd_audit demo_late_stored)" 0]
    by (simp add: s(2) demo_late_eq) (auto simp: audit_row_def demo_record_def cmd_record_def demo_env_def)
qed

subsection \<open>What the audit does not see\<close>

text \<open>A window covers a command of any action: a permission for self checks hides a \<open>stop\<close>.\<close>

theorem other_action_not_reported:
  "\<not> accused 0 (empty_plane\<lparr>sup := demo_sup1, cmd_audit := [demo_rogue\<lparr>ACreatedAt := 20\<rparr>]\<rparr>) (demo_rogue\<lparr>ACreatedAt := 20\<rparr>) \<and>
   Actions (hd (grants demo_sup1)) = [''self_check''] \<and> AAction demo_rogue = ''stop''"
  by (simp add: accused_def demo_rogue_def row_covers_def demo_sup1_eq GrantTTL_def)

text \<open>A device that answers \<open>denied\<close> takes its command out of the reconciliation.\<close>

theorem denied_answer_hides_command:
  "\<exists>p c. accused 0 p c \<and> cmd_audit p = [c] \<and>
     (\<forall>x \<in> set (cmd_audit (snd (getCmd (Inr (Some ''denied'')) False (CmdID c) 9 p))). \<not> accused 0 (snd (getCmd (Inr (Some ''denied'')) False (CmdID c) 9 p)) x)"
proof -
  let ?p = "empty_plane\<lparr>cmd_audit := [demo_rogue]\<rparr>"
  have "ack_result ''denied'' = ''denied''" by code_simp
  then have "\<forall>x \<in> set (cmd_audit (snd (getCmd (Inr (Some ''denied'')) False (CmdID demo_rogue) 9 ?p))). AResult x = ''denied''"
    by (simp add: getCmd_def MarkAcked_def demo_rogue_def)
  moreover have "accused 0 ?p demo_rogue" by (simp add: accused_def demo_rogue_def NeedsGrant_def empty_plane_def)
  ultimately show ?thesis by (intro exI[of _ ?p] exI[of _ demo_rogue]) (auto simp: accused_def)
qed

text \<open>The second audit message of a command that could not be sent has the key of the first and is dropped.\<close>

theorem dispatch_failed_not_stored:
  assumes "row_fits r"
  shows "snd (InsertAudit f (r\<lparr>AResult := ''dispatch_failed''\<rparr>) (snd (InsertAudit False r rows))) = snd (InsertAudit False r rows)"
proof -
  have "list_ex (\<lambda>x. CmdID x = CmdID r \<and> ACreatedAt x = ACreatedAt r) (snd (InsertAudit False r rows))"
    using assms by (auto simp: InsertAudit_def audit_row_def list_ex_iff)
  moreover have "list_ex (\<lambda>x. CmdID x = CmdID r \<and> ACreatedAt x = ACreatedAt r) rs \<Longrightarrow> snd (InsertAudit f (r\<lparr>AResult := ''dispatch_failed''\<rparr>) rs) = rs" for rs
    by (simp add: InsertAudit_def)
  ultimately show ?thesis by blast
qed

text \<open>An operator of more than 64 characters: the command is sent, its audit message is stored in no row however often it comes.\<close>

theorem long_operator_never_audited:
  assumes "64 < length (cmd_operator q)" "cmd_operator q = AOperator r"
  shows "cmd_audit (handleAudit fails acked r p) = cmd_audit p"
  using assms by (simp add: handleAudit_def InsertAudit_def row_fits_def Let_def)

theorem long_operator_sent:
  "fst (postCmd (demo_env ''u1'' 20) ''SN1'' (demo_req ''app'' (replicate 65 (CHR ''x'')) ''stop'') empty_plane) = HOK ''u1''"
proof -
  have "resolveSource ''app'' [] = ''app''" by code_simp
  then show ?thesis
    by (simp add: postCmd_def demo_env_def demo_req_def DecideCmd_def cmd_whitelist_def authorize_def NeedsGrant_def send_cmd_def publishAudit_def
      PublishDown_def Let_def)
qed

subsection \<open>Self checks\<close>

record CmdTicket =
  TCmdID :: string
  TTicketID :: string
  TGrantID :: string
  TSN :: string
  TSource :: string
  TCreatedAt :: time

record AgentCall =
  CAgentID :: string
  CTicketID :: string
  CSN :: string
  CEndpoint :: string
  CGrantID :: string
  CCreatedAt :: time

record SupWorld =
  device_plane :: Plane
  tickets :: "CmdTicket list"
  agent_calls :: "AgentCall list"
  sup_metrics :: metrics

text \<open>\<open>HTTPDeviceAPI.PostCmd\<close>: the request may not arrive, or arrive and its answer be lost.\<close>

datatype api_call = Answered | AnswerLost | NotReached

definition CallPostCmd :: "api_call \<Rightarrow> CmdEnv \<Rightarrow> string \<Rightarrow> string \<Rightarrow> Params \<Rightarrow> string \<Rightarrow> string \<Rightarrow> Plane \<Rightarrow> (string \<times> nat) option \<times> Plane" where
  "CallPostCmd call e sn action params source operator p =
     (if call = NotReached then (None, p)
      else case postCmd e sn \<lparr>QAction = action, QParams = params, QOperator = operator, QSource = [], XSource = source, XOperator = operator\<rparr> p of
        (resp, p') \<Rightarrow>
          (if call = AnswerLost then None
           else Some (case resp of HOK c \<Rightarrow> (c, 200) | HErr st _ _ \<Rightarrow> ([], st)), p'))"

text \<open>
  The wait for the answer: \<open>reply k\<close> is what the device API says at the \<open>k\<close>-th question (\<open>Some a\<close> when acknowledged), \<open>clock k\<close> the time
  after it, \<open>cancelled k\<close> whether the request has been given up by then or while waiting. The result is the answer and the number of questions.
\<close>

partial_function (option) poll ::
  "(nat \<Rightarrow> string option) \<Rightarrow> (nat \<Rightarrow> time) \<Rightarrow> (nat \<Rightarrow> bool) \<Rightarrow> time \<Rightarrow> nat \<Rightarrow> (string option \<times> nat) option" where
  "poll reply clock cancelled deadline k =
     (case reply k of
        Some a \<Rightarrow> Some (Some a, Suc k)
      | None \<Rightarrow> if \<not> clock k < deadline \<or> cancelled k then Some (None, Suc k) else poll reply clock cancelled deadline (Suc k))"

declare poll.simps [code]

text \<open>
  C12: The wait ends. If every pause takes at least the interval, the self check returns, and after at most as many
  questions as intervals fit into the timeout and two more; a timeout of ten seconds and half a second between questions make it 22.
\<close>

theorem poll_ends:
  assumes "0 < interval" "\<And>k. clock k + interval \<le> clock (Suc k)" "deadline \<le> clock 0 + timeout"
  shows "\<exists>res n. poll reply clock cancelled deadline 0 = Some (res, n) \<and> n \<le> nat (timeout div interval) + 2"
proof -
  have pace: "clock 0 + int k * interval \<le> clock k" for k
  proof (induction k)
    case (Suc k)
    then show ?case using assms(2)[of k] by (simp add: algebra_simps)
  qed simp
  let ?m = "nat (timeout div interval) + 1"
  have "deadline \<le> clock ?m"
  proof -
    have "timeout < (timeout div interval + 1) * interval"
      using assms(1) by (metis add.commute int_distrib(1) mult.commute mult_1 pos_mod_bound add_strict_left_mono div_mult_mod_eq mult.left_neutral)
    also have "\<dots> \<le> int ?m * interval" using assms(1) by (intro mult_right_mono) auto
    finally show ?thesis using pace[of ?m] assms(3) by linarith
  qed
  then have "\<exists>res n. poll reply clock cancelled deadline k = Some (res, n) \<and> n \<le> ?m + 1" if "k \<le> ?m" for k
    using that
  proof (induction "?m - k" arbitrary: k)
    case 0
    then have "k = ?m" by simp
    then show ?case using \<open>deadline \<le> clock ?m\<close> by (subst poll.simps) (auto split: option.splits)
  next
    case (Suc d)
    then have "\<exists>res n. poll reply clock cancelled deadline (Suc k) = Some (res, n) \<and> n \<le> ?m + 1" by (intro Suc.hyps(1)) auto
    then show ?case using Suc.prems by (subst poll.simps) (auto split: option.splits)
  qed
  from this[of 0] show ?thesis by simp
qed

theorem poll_ends_witness:
  "\<exists>res n. poll (\<lambda>_. None) (\<lambda>k. int k * 500000) (\<lambda>_. False) 10000000 0 = Some (res, n) \<and> n \<le> 22"
  using poll_ends[of 500000 "\<lambda>k. int k * 500000" 10000000 10000000 "\<lambda>_. None" "\<lambda>_. False"] by simp

record SelfCheckResult =
  SCCmdID :: string
  SCGrantID :: string
  SCTicketID :: string
  SCSN :: string
  SCStatus :: string
  SCAck :: "string option"

text \<open>What a self check meets: database errors, whether a device API is configured, its call, the two clocks, the replies while it waits.\<close>

record SelfEnv =
  sflt :: "string \<Rightarrow> bool"
  s_configured :: bool
  s_call :: api_call
  s_env :: CmdEnv
  s_now :: time
  s_ticket_at :: time
  s_start :: time
  s_reply :: "nat \<Rightarrow> string option"
  s_clock :: "nat \<Rightarrow> time"
  s_cancelled :: "nat \<Rightarrow> bool"
  s_timeout :: duration

definition pollTimeout :: "duration \<Rightarrow> duration" where
  "pollTimeout configured = (if configured > 0 then configured else 10000000)"

definition sup_inc :: "string \<Rightarrow> SupWorld \<Rightarrow> SupWorld" where
  "sup_inc k w = w\<lparr>sup_metrics := Inc k (sup_metrics w)\<rparr>"

definition InsertCmdTicket :: "CmdTicket \<Rightarrow> SupWorld \<Rightarrow> SupWorld" where
  "InsertCmdTicket m w = (if list_ex (\<lambda>x. TCmdID x = TCmdID m) (tickets w) then w else w\<lparr>tickets := tickets w @ [m]\<rparr>)"

text \<open>The result is \<open>None\<close> when the wait never ends.\<close>

definition SelfCheck :: "SelfEnv \<Rightarrow> string \<Rightarrow> string \<Rightarrow> string \<Rightarrow> SupWorld \<Rightarrow> (support_error + SelfCheckResult) option \<times> SupWorld" where
  "SelfCheck e gid source operator w =
     (if source \<noteq> ''support'' \<and> source \<noteq> ''agent'' then (Some (Inl SupBadParam), w)
      else case GetGrant (sflt e ''get grant'') gid (sup (device_plane w)) of
        Inl er \<Rightarrow> (Some (Inl er), w)
      | Inr g \<Rightarrow>
          if \<not> Effective g (s_now e) then (Some (Inl SupDenied), sup_inc ''selfcheck_refused'' w)
          else if \<not> s_configured e then (Some (Inl SupUnavailable), w)
          else (case CallPostCmd (s_call e) (s_env e) (GSN g) ActionSelfCheck (PObject [''grant_id'' \<mapsto> GrantID g]) source operator (device_plane w) of
              (None, p) \<Rightarrow> (Some (Inl SupUnavailable), w\<lparr>device_plane := p\<rparr>)
            | (Some (cmdID, status), p) \<Rightarrow>
                let w1 = w\<lparr>device_plane := p\<rparr> in
                if status = 403 then (Some (Inl SupDenied), sup_inc ''selfcheck_refused'' w1)
                else if status \<noteq> 200 \<or> cmdID = [] then (Some (Inl SupUnavailable), w1)
                else if sflt e ''insert ticket'' then (Some (Inl SupDbError), w1)
                else let w2 = sup_inc ''selfcheck_dispatched'' (InsertCmdTicket \<lparr>TCmdID = cmdID, TTicketID = GTicketID g, TGrantID = GrantID g,
                         TSN = GSN g, TSource = source, TCreatedAt = s_ticket_at e\<rparr> w1);
                       res = \<lparr>SCCmdID = cmdID, SCGrantID = GrantID g, SCTicketID = GTicketID g, SCSN = GSN g, SCStatus = ''unknown'', SCAck = None\<rparr> in
                (case poll (s_reply e) (s_clock e) (s_cancelled e) (s_start e + pollTimeout (s_timeout e)) 0 of
                   None \<Rightarrow> (None, w2)
                 | Some (Some a, n) \<Rightarrow> (Some (Inr (res\<lparr>SCStatus := ''acked'', SCAck := Some a\<rparr>)), w2)
                 | Some (None, n) \<Rightarrow> (Some (Inr res), sup_inc ''selfcheck_result_unknown'' w2))))"

definition log_call :: "bool \<Rightarrow> AgentCall \<Rightarrow> SupWorld \<Rightarrow> SupWorld" where
  "log_call fails c w = (if fails then w else w\<lparr>agent_calls := agent_calls w @ [c]\<rparr>)"

definition AgentSelfCheck :: "SelfEnv \<Rightarrow> string \<Rightarrow> string \<Rightarrow> string \<Rightarrow> SupWorld \<Rightarrow> (support_error + SelfCheckResult) option \<times> SupWorld" where
  "AgentSelfCheck e sn gid agentID w =
     (if agentID = [] then (Some (Inl SupBadParam), w)
      else case GetGrant (sflt e ''get grant'') gid (sup (device_plane w)) of
        Inl er \<Rightarrow> (Some (Inl er), w)
      | Inr g \<Rightarrow>
          let call = (\<lambda>endpoint. \<lparr>CAgentID = agentID, CTicketID = GTicketID g, CSN = sn, CEndpoint = endpoint, CGrantID = gid, CCreatedAt = s_now e\<rparr>) in
          if GSN g \<noteq> sn then
            (Some (Inl SupDenied), sup_inc ''agent_refused'' (sup_inc ''agent_calls'' (log_call (sflt e ''agent log'') (call ''self_check_refused'') w)))
          else (case SelfCheck e gid ''agent'' agentID w of
              (None, w') \<Rightarrow> (None, w')
            | (Some res, w') \<Rightarrow>
                let w2 = sup_inc ''agent_calls'' (log_call (sflt e ''agent log'') (call ''self_check'') w') in
                (Some res, if isl res then sup_inc ''agent_refused'' w2 else w2)))"

lemma sup_frame [simp]:
  "device_plane (sup_inc k w) = device_plane w" "tickets (sup_inc k w) = tickets w" "agent_calls (sup_inc k w) = agent_calls w"
  "device_plane (log_call f c w) = device_plane w" "device_plane (InsertCmdTicket m w) = device_plane w" "agent_calls (InsertCmdTicket m w) = agent_calls w"
  "tickets (log_call f c w) = tickets w"
  by (simp_all add: sup_inc_def log_call_def InsertCmdTicket_def)

text \<open>What one call of the handler can add to the commands.\<close>

lemma postCmd_downs:
  "downs (snd (postCmd e sn q p)) = downs p \<or>
   (\<exists>r. admit e sn q (sup p) = Some r \<and>
      downs (snd (postCmd e sn q p)) = downs p @ [\<lparr>DownSN = ASN r, DownCmd = CmdID r, DownAction = AAction r, DownParams = AParams r\<rparr>])"
proof (cases "admit e sn q (sup p)")
  case (Some r)
  obtain rs ds where form: "snd (send_cmd e r p) = grown rs ds p"
      "ds = [] \<or> ds = [\<lparr>DownSN = ASN r, DownCmd = CmdID r, DownAction = AAction r, DownParams = AParams r\<rparr>]"
  proof -
    have "downs (snd (send_cmd e r p)) \<in> {downs p, downs p @ [\<lparr>DownSN = ASN r, DownCmd = CmdID r, DownAction = AAction r, DownParams = AParams r\<rparr>]}"
      by (cases "EAudit e"; cases "EDown e"; cases "EFailedAudit e") (simp_all add: send_cmd_def publishAudit_def PublishDown_def)
    moreover obtain rs ds where "snd (send_cmd e r p) = grown rs ds p" using send_cmd_form[of e r p] by blast
    ultimately show ?thesis using that[of rs ds] by auto
  qed
  then show ?thesis using Some by (auto simp: postCmd_parts)
next
  case None
  then show ?thesis by (auto simp: postCmd_parts publishAudit_def split: option.split)
qed

lemma call_downs:
  assumes "CallPostCmd call e sn action params source operator p = (x, p')" "source \<in> {''support'', ''agent''}"
  shows "downs p' = downs p \<or> (\<exists>d. downs p' = downs p @ [d] \<and> DownSN d = sn \<and> DownAction d = action \<and>
    (\<exists>g \<in> set (grants (sup p)). grant_covers sn action (ECheckAt e) g))"
proof -
  let ?q = "\<lparr>QAction = action, QParams = params, QOperator = operator, QSource = [], XSource = source, XOperator = operator\<rparr>"
  have "resolveSource ''support'' [] = ''support''" "resolveSource ''agent'' [] = ''agent''" by code_simp+
  then have src: "resolveSource source [] = source" "NeedsGrant source" using assms(2) by (auto simp: NeedsGrant_def)
  have "p' = p \<or> p' = snd (postCmd e sn ?q p)"
    using assms(1) by (auto simp: CallPostCmd_def split: if_splits prod.splits)
  moreover have "\<exists>g \<in> set (grants (sup p)). grant_covers sn action (ECheckAt e) g" if "admit e sn ?q (sup p) = Some r" for r
  proof -
    have "DOK (cmd_decision e sn ?q (sup p))" using that by (simp add: admit_def split: if_split_asm)
    then obtain d where "Check True (ELookupFails e) sn source action (ECheckAt e) (sup p) = Some d" "DOK d"
      using src by (auto simp: cmd_decision_def authorize_def refuse_def split: if_splits option.splits)
    then show ?thesis using Check_ok src(2) by blast
  qed
  moreover have "ASN r = sn \<and> AAction r = action" if "admit e sn ?q (sup p) = Some r" for r
    using that by (auto simp: admit_def cmd_record_def split: if_splits)
  ultimately show ?thesis using postCmd_downs[of e sn ?q p] by fastforce
qed

lemma GetGrant_in: "GetGrant f gid db = Inr g \<Longrightarrow> g \<in> set (grants db) \<and> GrantID g = gid"
  by (auto simp: GetGrant_def find_Some_iff split: if_splits option.splits)

lemma SelfCheck_downs:
  assumes "SelfCheck e gid source operator w = (x, w')"
  shows "agent_calls w' = agent_calls w \<and> (downs (device_plane w') = downs (device_plane w) \<or>
     (\<exists>d g. downs (device_plane w') = downs (device_plane w) @ [d] \<and> g \<in> set (grants (sup (device_plane w))) \<and> GrantID g = gid \<and> Effective g (s_now e) \<and>
        GetGrant (sflt e ''get grant'') gid (sup (device_plane w)) = Inr g \<and> DownSN d = GSN g \<and> DownAction d = ActionSelfCheck \<and>
        (\<exists>h \<in> set (grants (sup (device_plane w))). grant_covers (GSN g) ActionSelfCheck (ECheckAt (s_env e)) h)))"
proof (cases "(source = ''support'' \<or> source = ''agent'') \<and> (\<exists>g. GetGrant (sflt e ''get grant'') gid (sup (device_plane w)) = Inr g \<and> Effective g (s_now e)) \<and> s_configured e")
  case True
  then obtain g where g: "GetGrant (sflt e ''get grant'') gid (sup (device_plane w)) = Inr g" "Effective g (s_now e)" and src: "source \<in> {''support'', ''agent''}" by blast
  obtain y p where c: "CallPostCmd (s_call e) (s_env e) (GSN g) ActionSelfCheck (PObject [''grant_id'' \<mapsto> GrantID g]) source operator (device_plane w) = (y, p)"
    by fastforce
  have "device_plane w' = p \<and> agent_calls w' = agent_calls w"
    using assms True g src c by (auto simp: SelfCheck_def Let_def split: option.splits prod.splits if_splits)
  then show ?thesis using call_downs[OF c src] GetGrant_in[OF g(1)] g by metis
next
  case False
  then have "device_plane w' = device_plane w \<and> agent_calls w' = agent_calls w"
    using assms by (auto simp: SelfCheck_def split: if_splits sum.splits)
  then show ?thesis by simp
qed

text \<open>
  An agent reaches only the device it was permitted for. Whatever the permission it names, the network and the databases do, a call of an
  agent sends nothing, or one self check to the device it names, for which the named permission is in force by the support service's clock, and a permission
  for that device by the device API's; and when it returns with an existing permission, the call is in the agent's log unless that failed.
\<close>

theorem agent_reaches_only_permitted:
  assumes "AgentSelfCheck e sn gid agentID w = (res, w')"
  shows "(downs (device_plane w') = downs (device_plane w) \<or>
      (\<exists>d g h. downs (device_plane w') = downs (device_plane w) @ [d] \<and> DownSN d = sn \<and> DownAction d = ActionSelfCheck \<and>
         g \<in> set (grants (sup (device_plane w))) \<and> GrantID g = gid \<and> GSN g = sn \<and> Effective g (s_now e) \<and>
         h \<in> set (grants (sup (device_plane w))) \<and> grant_covers sn ActionSelfCheck (ECheckAt (s_env e)) h)) \<and>
    (agentID = [] \<or> isl (GetGrant (sflt e ''get grant'') gid (sup (device_plane w))) \<or> sflt e ''agent log'' \<or> res = None \<or>
      (\<exists>c. agent_calls w' = agent_calls w @ [c] \<and> CAgentID c = agentID \<and> CSN c = sn \<and> CGrantID c = gid))"
proof (cases "agentID \<noteq> [] \<and> (\<exists>g. GetGrant (sflt e ''get grant'') gid (sup (device_plane w)) = Inr g)")
  case True
  then obtain g where g: "GetGrant (sflt e ''get grant'') gid (sup (device_plane w)) = Inr g" by blast
  show ?thesis
  proof (cases "GSN g = sn")
    case sn: True
    obtain r w1 where sc: "SelfCheck e gid ''agent'' agentID w = (r, w1)" by fastforce
    have "device_plane w' = device_plane w1" using assms True g sn sc by (auto simp: AgentSelfCheck_def Let_def split: option.splits if_splits)
    moreover have "res = r \<and> (r = None \<or> sflt e ''agent log'' \<or> (\<exists>c. agent_calls w' = agent_calls w1 @ [c] \<and> CAgentID c = agentID \<and> CSN c = sn \<and> CGrantID c = gid))"
      using assms True g sn sc by (auto simp: AgentSelfCheck_def Let_def log_call_def sup_inc_def split: option.splits if_splits)
    ultimately show ?thesis using SelfCheck_downs[OF sc] g sn True by auto
  next
    case False
    with assms True g have "device_plane w' = device_plane w"
      "sflt e ''agent log'' \<or> (\<exists>c. agent_calls w' = agent_calls w @ [c] \<and> CAgentID c = agentID \<and> CSN c = sn \<and> CGrantID c = gid)"
      by (auto simp: AgentSelfCheck_def Let_def log_call_def sup_inc_def split: if_splits)
    then show ?thesis by auto
  qed
next
  case False
  then show ?thesis using assms by (cases "GetGrant (sflt e ''get grant'') gid (sup (device_plane w))") (auto simp: AgentSelfCheck_def split: if_splits)
qed

definition demo_self_env :: SelfEnv where
  "demo_self_env = \<lparr>sflt = (\<lambda>_. False), s_configured = True, s_call = Answered, s_env = demo_env ''u9'' 20, s_now = 20, s_ticket_at = 20, s_start = 20,
     s_reply = (\<lambda>_. Some ''ok''), s_clock = (\<lambda>_. 20), s_cancelled = (\<lambda>_. False), s_timeout = 0\<rparr>"

definition demo_world :: SupWorld where
  "demo_world = \<lparr>device_plane = empty_plane\<lparr>sup := demo_sup1\<rparr>, tickets = [], agent_calls = [], sup_metrics = (\<lambda>_. 0)\<rparr>"

theorem agent_reaches_only_permitted_witness:
  "downs (device_plane (snd (AgentSelfCheck demo_self_env ''SN2'' ''g1'' ''a1'' demo_world))) = [] \<or>
   (\<exists>d. downs (device_plane (snd (AgentSelfCheck demo_self_env ''SN2'' ''g1'' ''a1'' demo_world))) = [d] \<and> DownSN d = ''SN2'')"
proof -
  obtain res w' where run: "AgentSelfCheck demo_self_env ''SN2'' ''g1'' ''a1'' demo_world = (res, w')" by fastforce
  from agent_reaches_only_permitted[OF this] show ?thesis unfolding run by (auto simp: demo_world_def empty_plane_def)
qed

end
