(* ===== verification/DeviceView.thy ===== *)
theory DeviceView
  imports Command
begin

text \<open>
  What the device API shows and stores of a device: the switches of \<open>switches.go\<close>, the ranges and table names of \<open>telemetry.go\<close> and
  \<open>sanitize.go\<close>, and the desired state of \<open>server.go\<close> and \<open>store.go\<close> with its cache in Redis. Instants are microseconds.
\<close>

subsection \<open>Switches\<close>

text \<open>A member of the desired document: a boolean or the text of anything else.\<close>

datatype jval = JBool bool | JOther string

type_synonym desired = "string \<rightharpoonup> jval"

record SwitchInfo =
  SwValue :: bool
  SwState :: string

definition asBool :: "string option \<Rightarrow> bool" where
  "asBool v = (case v of None \<Rightarrow> False | Some s \<Rightarrow> ParseBoolLoose s = Some True)"

definition SwitchState :: "string option \<Rightarrow> bool \<Rightarrow> bool \<Rightarrow> bool \<times> string" where
  "SwitchState reported d online =
     (let r = asBool reported in
      if r = d then (d, ''applied'') else if online then (r, ''pending'') else (r, ''offline''))"

definition OnlineFromReported :: "reported \<Rightarrow> time \<Rightarrow> bool option" where
  "OnlineFromReported rep now =
     (case map_of rep ''updated_at'' of
        None \<Rightarrow> None
      | Some raw \<Rightarrow> if raw = [] then None else (case ParseInt raw of None \<Rightarrow> None | Some ms \<Rightarrow> Some (now - ms * 1000 \<le> 90000000)))"

definition BuildSwitches :: "reported \<Rightarrow> desired \<Rightarrow> time \<Rightarrow> string \<Rightarrow> SwitchInfo option" where
  "BuildSwitches rep d now k =
     (let online = (case OnlineFromReported rep now of None \<Rightarrow> True | Some b \<Rightarrow> b) in
      case d k of
        Some (JBool b) \<Rightarrow> (case SwitchState (map_of rep k) b online of (v, st) \<Rightarrow> Some \<lparr>SwValue = v, SwState = st\<rparr>)
      | _ \<Rightarrow> None)"

text \<open>
  A switch never shows more than the device reported. There is one for each boolean member of the desired document, its value is
  the reported one (off when none was reported), it counts as applied exactly if the wish is met, and as pending or offline
  by the age of the report, where an unknown age counts as online.
\<close>

theorem switches_show_reported:
  "BuildSwitches rep d now k =
     (case d k of
        Some (JBool b) \<Rightarrow> Some \<lparr>SwValue = asBool (map_of rep k), SwState =
          (if asBool (map_of rep k) = b then ''applied''
           else if OnlineFromReported rep now = Some False then ''offline'' else ''pending'')\<rparr>
      | _ \<Rightarrow> None)"
  by (auto simp: BuildSwitches_def SwitchState_def Let_def split: option.splits jval.splits)

subsection \<open>Telemetry\<close>

abbreviation DefaultTelemetryLimit :: int where "DefaultTelemetryLimit \<equiv> 100"
abbreviation MaxTelemetryLimit :: int where "MaxTelemetryLimit \<equiv> 1000"
abbreviation RangeMillis :: int where "RangeMillis \<equiv> 3600000"

record TelemetryRange =
  TFrom :: int
  TTo :: int
  TLimit :: int

text \<open>The parameters of the query as texts, empty when missing; \<open>now\<close> in milliseconds.\<close>

definition ParseTelemetryRange :: "string \<Rightarrow> string \<Rightarrow> string \<Rightarrow> int \<Rightarrow> string + TelemetryRange" where
  "ParseTelemetryRange from0 to0 limit0 now =
     (case (if to0 = [] then Some now else case ParseInt to0 of None \<Rightarrow> None | Some n \<Rightarrow> if n < 0 then None else Some n) of
        None \<Rightarrow> Inl ''to must be ms epoch''
      | Some t \<Rightarrow>
          (case (if from0 = [] then Some (t - RangeMillis) else case ParseInt from0 of None \<Rightarrow> None | Some n \<Rightarrow> if n < 0 then None else Some n) of
             None \<Rightarrow> Inl ''from must be ms epoch''
           | Some f \<Rightarrow>
               if f > t then Inl ''from must be <= to''
               else if limit0 = [] then Inr \<lparr>TFrom = f, TTo = t, TLimit = DefaultTelemetryLimit\<rparr>
               else (case ParseInt limit0 of
                   None \<Rightarrow> Inl ''limit must be a positive integer''
                 | Some n \<Rightarrow> if n \<le> 0 then Inl ''limit must be a positive integer''
                     else Inr \<lparr>TFrom = f, TTo = t, TLimit = (if n > MaxTelemetryLimit then MaxTelemetryLimit else n)\<rparr>)))"

definition SanitizeSN :: "string \<Rightarrow> string" where
  "SanitizeSN sn = map (\<lambda>c. if between CHR ''a'' CHR ''z'' c \<or> is_digit c \<or> c = CHR ''_'' then c else CHR ''_'') (toLower sn)"

definition BuildTelemetryQuery :: "string \<Rightarrow> TelemetryRange \<Rightarrow> string" where
  "BuildTelemetryQuery sn r =
     ''SELECT ts,seq,work_state,power_level,temp_cavity,temp_water,fan_rpm,laser_hours,progress FROM iot.t_'' @ SanitizeSN sn @
     '' WHERE ts >= '' @ FormatInt (TFrom r) @ '' AND ts <= '' @ FormatInt (TTo r) @ '' ORDER BY ts DESC LIMIT '' @ FormatInt (TLimit r)"

text \<open>Characters that can stand in the variable parts of the query.\<close>

definition query_char :: "char \<Rightarrow> bool" where
  "query_char c \<longleftrightarrow> between CHR ''a'' CHR ''z'' c \<or> is_digit c \<or> c = CHR ''_'' \<or> c = CHR ''-''"

lemma SanitizeSN_chars: "list_all query_char (SanitizeSN sn)"
  by (auto simp: SanitizeSN_def list_all_iff query_char_def between_def code_def)

lemma FormatInt_chars: "list_all query_char (FormatInt n)"
proof -
  have d: "is_digit c \<Longrightarrow> query_char c" for c by (simp add: query_char_def)
  have "list_all query_char (itoa_nat m)" for m using itoa_nat_digits[of m] d unfolding list_all_iff by blast
  then show ?thesis by (simp add: FormatInt_def) (simp add: query_char_def)
qed

text \<open>
  The query of an accepted request asks for a sane range and nothing can be slipped into it: the start is not after the
  end, one to a thousand rows, and the parts that come from the request consist of lower case letters, digits, underscores and minus signs.
\<close>

theorem telemetry_query_bounds:
  assumes "ParseTelemetryRange from0 to0 limit0 now = Inr r"
  shows "TFrom r \<le> TTo r \<and> 1 \<le> TLimit r \<and> TLimit r \<le> MaxTelemetryLimit \<and>
    (\<exists>t f e l. list_all query_char (t @ f @ e @ l) \<and> BuildTelemetryQuery sn r =
       ''SELECT ts,seq,work_state,power_level,temp_cavity,temp_water,fan_rpm,laser_hours,progress FROM iot.t_'' @ t @
       '' WHERE ts >= '' @ f @ '' AND ts <= '' @ e @ '' ORDER BY ts DESC LIMIT '' @ l)"
proof -
  have "TFrom r \<le> TTo r \<and> 1 \<le> TLimit r \<and> TLimit r \<le> MaxTelemetryLimit"
    using assms by (auto simp: ParseTelemetryRange_def split: option.splits if_splits)
  moreover have "list_all query_char (SanitizeSN sn @ FormatInt (TFrom r) @ FormatInt (TTo r) @ FormatInt (TLimit r))"
    using SanitizeSN_chars FormatInt_chars by simp
  ultimately show ?thesis unfolding BuildTelemetryQuery_def by blast
qed

theorem telemetry_query_bounds_witness:
  "\<exists>r. ParseTelemetryRange ''3'' ''8'' ''7'' 9 = Inr r \<and> TFrom r \<le> TTo r \<and> TLimit r \<le> 1000"
proof -
  have ok: "ParseTelemetryRange ''3'' ''8'' ''7'' 9 = Inr \<lparr>TFrom = 3, TTo = 8, TLimit = 7\<rparr>" by code_simp
  show ?thesis using ok telemetry_query_bounds[OF ok] by (intro exI[of _ "\<lparr>TFrom = 3, TTo = 8, TLimit = 7\<rparr>"]) simp
qed

text \<open>Two serial numbers that the services accept can have the same table.\<close>

theorem table_names_collide: "ValidSN ''AB-1'' \<and> ValidSN ''AB_1'' \<and> SanitizeSN ''AB-1'' = SanitizeSN ''AB_1''"
  by code_simp

text \<open>Rows by column name; a column without a name takes the one of the fixed order, a name that comes twice its last value.\<close>

definition telemetryColumns :: "string list" where
  "telemetryColumns = [''ts'', ''seq'', ''work_state'', ''power_level'', ''temp_cavity'', ''temp_water'', ''fan_rpm'', ''laser_hours'', ''progress'']"

definition column_names :: "string option list \<Rightarrow> string list" where
  "column_names meta =
     (if meta = [] then telemetryColumns
      else map (\<lambda>(i, m). let n = (case m of None \<Rightarrow> [] | Some s \<Rightarrow> s) in
        if n = [] \<and> i < length telemetryColumns then telemetryColumns ! i else n) (enumerate 0 meta))"

definition RowsToMaps :: "string option list \<Rightarrow> 'v list list \<Rightarrow> (string \<rightharpoonup> 'v) list" where
  "RowsToMaps meta rows = map (\<lambda>row. map_of (rev (zip (column_names meta) row))) rows"

text \<open>\<open>GET /api/v1/devices/{sn}/telemetry\<close>: \<open>query\<close> is the database's answer to the text, an error by its message.\<close>

definition containsString :: "string \<Rightarrow> string \<Rightarrow> bool" where
  "containsString s sub \<longleftrightarrow> list_ex (\<lambda>i. hasPrefix (drop i s) sub) [0..<Suc (length s)]"

definition getTelemetry ::
  "(string \<Rightarrow> string + string option list \<times> 'v list list) \<Rightarrow> string \<Rightarrow> string \<Rightarrow> string \<Rightarrow> string \<Rightarrow> int \<Rightarrow> nat + (string \<rightharpoonup> 'v) list" where
  "getTelemetry query sn from0 to0 limit0 now =
     (case ParseTelemetryRange from0 to0 limit0 now of
        Inl _ \<Rightarrow> Inl 400
      | Inr r \<Rightarrow>
          (case query (BuildTelemetryQuery sn r) of
             Inl e \<Rightarrow> if containsString (toLower e) ''not exist'' then Inr [] else Inl 502
           | Inr (meta, rows) \<Rightarrow> Inr (RowsToMaps meta rows)))"

text \<open>\<open>POST /api/v1/devices/shadows\<close>: the shadows of at most 200 devices, each read once; \<open>read sn\<close> fails with \<open>None\<close>.\<close>

abbreviation MaxShadowBatch :: nat where "MaxShadowBatch \<equiv> 200"

fun read_shadows :: "bool \<Rightarrow> (string \<Rightarrow> reported option) \<Rightarrow> string list \<Rightarrow> (string \<rightharpoonup> reported) \<Rightarrow> (string \<rightharpoonup> reported) option" where
  "read_shadows configured read [] out = Some out"
| "read_shadows configured read (sn # sns) out =
     (if out sn \<noteq> None then read_shadows configured read sns out
      else if \<not> configured then read_shadows configured read sns (out(sn \<mapsto> []))
      else case read sn of None \<Rightarrow> None | Some rep \<Rightarrow> read_shadows configured read sns (out(sn \<mapsto> rep)))"

definition postShadows :: "bool \<Rightarrow> bool \<Rightarrow> (string \<Rightarrow> reported option) \<Rightarrow> string list \<Rightarrow> nat + (string \<rightharpoonup> reported)" where
  "postShadows decoded configured read sns =
     (if \<not> decoded \<or> sns = [] \<or> length sns > MaxShadowBatch then Inl 400
      else case read_shadows configured read sns Map.empty of None \<Rightarrow> Inl 500 | Some out \<Rightarrow> Inr out)"

lemma read_shadows_result:
  "read_shadows True read sns out = Some m \<Longrightarrow>
   m = (\<lambda>sn. case out sn of Some r \<Rightarrow> Some r | None \<Rightarrow> if sn \<in> set sns then read sn else None) \<and>
   (\<forall>sn \<in> set sns. out sn = None \<longrightarrow> read sn \<noteq> None)"
proof (induction sns arbitrary: out)
  case (Cons s sns)
  show ?case
  proof (cases "out s")
    case None
    then obtain rep where r: "read s = Some rep" "read_shadows True read sns (out(s \<mapsto> rep)) = Some m"
      using Cons.prems by (auto split: option.splits)
    note ih = Cons.IH[OF r(2)]
    have "m = (\<lambda>sn. case out sn of Some r \<Rightarrow> Some r | None \<Rightarrow> if sn \<in> set (s # sns) then read sn else None)"
      using conjunct1[OF ih] r(1) None by (auto simp: fun_eq_iff split: option.splits)
    moreover have "read x \<noteq> None" if "x \<in> set (s # sns)" "out x = None" for x
      using conjunct2[OF ih] r(1) that by (cases "x = s") auto
    ultimately show ?thesis by blast
  next
    case (Some a)
    with Cons.prems have "read_shadows True read sns out = Some m" by simp
    from Cons.IH[OF this] Some show ?thesis by (auto simp: fun_eq_iff split: option.splits)
  qed
qed (auto split: option.splits)

text \<open>The board gets exactly the devices it asked for, each with its shadow.\<close>

lemma postShadows_exact:
  "postShadows decoded True read sns = Inr m \<Longrightarrow> m = (\<lambda>sn. if sn \<in> set sns then read sn else None) \<and> dom m = set sns"
  using read_shadows_result[of read sns Map.empty m] by (auto simp: postShadows_def dom_def split: if_splits option.splits)

subsection \<open>Identifiers and rate keys\<close>

text \<open>The identifier made of sixteen random bytes.\<close>

definition NewUUIDv4 :: "byte list \<Rightarrow> string" where
  "NewUUIDv4 raw =
     (let b = raw[6 := or (and (raw ! 6) 0x0f) 0x40, 8 := or (and (raw ! 8) 0x3f) 0x80] in
      EncodeHex (take 4 b) @ ''-'' @ EncodeHex (take 2 (drop 4 b)) @ ''-'' @ EncodeHex (take 2 (drop 6 b)) @ ''-'' @
      EncodeHex (take 2 (drop 8 b)) @ ''-'' @ EncodeHex (drop 10 b))"

lemma NewUUIDv4_length: "length raw = 16 \<Longrightarrow> length (NewUUIDv4 raw) = 36"
  by (simp add: NewUUIDv4_def Let_def EncodeHex_ok(2))

text \<open>The device a request is counted under: the header wins over the path; and the bucket it falls into.\<close>

definition DeviceAuth :: "string \<Rightarrow> string \<Rightarrow> nat + string" where
  "DeviceAuth header path_sn = (let i = (if header = [] then path_sn else header) in if i = [] then Inl 400 else Inr i)"

definition DeviceRateKey :: "string \<Rightarrow> string \<Rightarrow> string \<Rightarrow> string option" where
  "DeviceRateKey device pattern url = (if device = [] then None else Some (device @ ''|'' @ (if pattern = [] then url else pattern)))"

text \<open>The requests of one device can be spread over any number of buckets: the header is taken as it comes.\<close>

theorem rate_key_chosen_by_caller: "x \<noteq> [] \<Longrightarrow> DeviceAuth x sn = Inr x"
  by (simp add: DeviceAuth_def)

subsection \<open>The desired state\<close>

abbreviation DesiredCacheTTL :: duration where "DesiredCacheTTL \<equiv> 3600000000"

record DesiredWorld =
  dtable :: "string \<rightharpoonup> int \<times> desired"
  dcache :: "string \<rightharpoonup> time \<times> int \<times> desired"
  dmsgs :: "(string \<times> int \<times> desired) list"

definition GetDesired :: "string \<Rightarrow> DesiredWorld \<Rightarrow> int \<times> desired" where
  "GetDesired sn w = (case dtable w sn of None \<Rightarrow> (0, Map.empty) | Some x \<Rightarrow> x)"

text \<open>\<open>desired || patch\<close> on the top level, and the version counted up.\<close>

definition merged :: "desired \<Rightarrow> (int \<times> desired) option \<Rightarrow> int \<times> desired" where
  "merged patch row = (case row of None \<Rightarrow> (1, patch) | Some (v, d) \<Rightarrow> (v + 1, d ++ patch))"

definition MergeDesired :: "string \<Rightarrow> desired \<Rightarrow> DesiredWorld \<Rightarrow> DesiredWorld" where
  "MergeDesired sn patch w = w\<lparr>dtable := (dtable w)(sn \<mapsto> merged patch (dtable w sn))\<rparr>"

text \<open>What Redis has at an instant, when it answers.\<close>

definition cached :: "string \<Rightarrow> time \<Rightarrow> DesiredWorld \<Rightarrow> (int \<times> desired) option" where
  "cached sn now w = (case dcache w sn of None \<Rightarrow> None | Some (e, x) \<Rightarrow> if now \<le> e then Some x else None)"

definition fill_cache :: "string \<Rightarrow> time \<Rightarrow> int \<times> desired \<Rightarrow> DesiredWorld \<Rightarrow> DesiredWorld" where
  "fill_cache sn now x w = w\<lparr>dcache := (dcache w)(sn \<mapsto> (now + DesiredCacheTTL, x))\<rparr>"

definition loadDesired :: "(string \<Rightarrow> bool) \<Rightarrow> string \<Rightarrow> time \<Rightarrow> DesiredWorld \<Rightarrow> (int \<times> desired) option \<times> DesiredWorld" where
  "loadDesired flt sn now w =
     (case (if flt ''redis get'' then None else cached sn now w) of
        Some x \<Rightarrow> (Some x, w)
      | None \<Rightarrow>
          if flt ''get desired'' then (None, w)
          else let x = GetDesired sn w in (Some x, if flt ''redis set'' then w else fill_cache sn now x w))"

text \<open>\<open>PATCH /api/v1/devices/{sn}/desired\<close>: the result is the new version and document, the transaction may fail or be reported lost.\<close>

definition patchDesired :: "(string \<Rightarrow> bool) \<Rightarrow> string \<Rightarrow> desired \<Rightarrow> DesiredWorld \<Rightarrow> (nat + int \<times> desired) \<times> DesiredWorld" where
  "patchDesired flt sn patch w =
     (if flt ''decode'' \<or> patch = Map.empty then (Inl 400, w)
      else if flt ''merge'' then (Inl 500, w)
      else let w1 = MergeDesired sn patch w; x = GetDesired sn w1 in
        if flt ''commit lost'' then (Inl 500, w1)
        else let w2 = (if flt ''redis del'' then w1 else w1\<lparr>dcache := (dcache w1)(sn := None)\<rparr>) in
          (Inr x, if flt ''publish'' then w2 else w2\<lparr>dmsgs := dmsgs w2 @ [(sn, x)]\<rparr>))"

text \<open>
  Read your own write. When Redis answers and nothing comes in between, the state shown after a patch is the merged one: the version
  one higher, the members of the patch in place and all others as they were; and the device is sent the same.
\<close>

theorem patch_then_load:
  assumes "patch \<noteq> Map.empty" "\<And>n. \<not> flt n" "\<And>n. \<not> flt' n"
  shows "\<exists>x w'. patchDesired flt sn patch w = (Inr x, w') \<and> fst (loadDesired flt' sn now w') = Some x \<and> x = merged patch (dtable w sn) \<and>
    dmsgs w' = dmsgs w @ [(sn, x)] \<and> (\<forall>k. snd x k = (if patch k = None then (snd (GetDesired sn w)) k else patch k))"
proof -
  have "GetDesired sn (MergeDesired sn patch w) = merged patch (dtable w sn)" by (simp add: GetDesired_def MergeDesired_def)
  then show ?thesis using assms
    by (auto simp: patchDesired_def loadDesired_def cached_def Let_def merged_def GetDesired_def MergeDesired_def map_add_def split: option.splits)
qed

theorem patch_then_load_witness:
  "\<exists>w'. patchDesired (\<lambda>_. False) ''SN1'' [''cam'' \<mapsto> JBool True] \<lparr>dtable = Map.empty, dcache = Map.empty, dmsgs = []\<rparr> =
     (Inr (1, [''cam'' \<mapsto> JBool True]), w') \<and> fst (loadDesired (\<lambda>_. False) ''SN1'' 5 w') = Some (1, [''cam'' \<mapsto> JBool True])"
  using patch_then_load[of "[''cam'' \<mapsto> JBool True]" "\<lambda>_. False" "\<lambda>_. False" "''SN1''" "\<lparr>dtable = Map.empty, dcache = Map.empty, dmsgs = []\<rparr>" 5]
  by (auto simp: merged_def)

subsection \<open>The cache among concurrent requests\<close>

text \<open>
  A load that missed the cache has read the table and fills the cache later; a patch has committed and removes the cache entry later.
  The fleet service merges into the same table and leaves the cache alone.
\<close>

record DesiredState =
  dworld :: DesiredWorld
  loads :: "(string \<times> int \<times> desired) list"

inductive desired_step :: "DesiredState \<Rightarrow> DesiredState \<Rightarrow> bool" where
  load_reads: "desired_step s (s\<lparr>loads := (sn, GetDesired sn (dworld s)) # loads s\<rparr>)"
| load_fills: "(sn, x) \<in> set (loads s) \<Longrightarrow> desired_step s (s\<lparr>dworld := fill_cache sn now x (dworld s), loads := remove1 (sn, x) (loads s)\<rparr>)"
| load_stops: "desired_step s (s\<lparr>loads := remove1 l (loads s)\<rparr>)"
| merges: "desired_step s (s\<lparr>dworld := MergeDesired sn patch (dworld s)\<rparr>)"
| invalidates: "desired_step s (s\<lparr>dworld := (dworld s)\<lparr>dcache := (dcache (dworld s))(sn := None)\<rparr>\<rparr>)"
| publishes: "desired_step s (s\<lparr>dworld := (dworld s)\<lparr>dmsgs := dmsgs (dworld s) @ [m]\<rparr>\<rparr>)"

definition empty_desired :: DesiredState where
  "empty_desired = \<lparr>dworld = \<lparr>dtable = Map.empty, dcache = Map.empty, dmsgs = []\<rparr>, loads = []\<rparr>"

text \<open>A value read earlier: not newer than the table, and the same if its version is.\<close>

definition past_value :: "DesiredWorld \<Rightarrow> string \<Rightarrow> int \<times> desired \<Rightarrow> bool" where
  "past_value w sn x \<longleftrightarrow> fst x \<le> fst (GetDesired sn w) \<and> (fst x = fst (GetDesired sn w) \<longrightarrow> x = GetDesired sn w)"

definition desired_inv :: "DesiredState \<Rightarrow> bool" where
  "desired_inv s \<longleftrightarrow> (\<forall>(sn, x) \<in> set (loads s). past_value (dworld s) sn x) \<and>
     (\<forall>sn e x. dcache (dworld s) sn = Some (e, x) \<longrightarrow> past_value (dworld s) sn x)"

lemma past_value_merge: "past_value w sn x \<Longrightarrow> past_value (MergeDesired sn' patch w) sn x"
  by (cases "sn = sn'") (auto simp: past_value_def GetDesired_def MergeDesired_def merged_def split: option.splits)

lemma past_value_now: "past_value w sn (GetDesired sn w)"
  by (simp add: past_value_def)

lemma past_value_frame [simp]:
  "past_value (w\<lparr>dcache := c\<rparr>) sn x = past_value w sn x" "past_value (w\<lparr>dmsgs := m\<rparr>) sn x = past_value w sn x"
  by (simp_all add: past_value_def GetDesired_def)

lemma desired_step_inv: "desired_step s s' \<Longrightarrow> desired_inv s \<Longrightarrow> desired_inv s'"
proof (induction rule: desired_step.induct)
  case (load_reads s sn)
  then show ?case by (auto simp: desired_inv_def past_value_now)
next
  case (load_fills sn x s now)
  then have "past_value (dworld s) sn x" unfolding desired_inv_def by blast
  moreover have "\<forall>l \<in> set (remove1 (sn, x) (loads s)). l \<in> set (loads s)" using set_remove1_subset[of "(sn, x)" "loads s"] by blast
  ultimately show ?case using load_fills by (auto simp: desired_inv_def fill_cache_def)
next
  case (load_stops s l)
  have "\<forall>k \<in> set (remove1 l (loads s)). k \<in> set (loads s)" using set_remove1_subset[of l "loads s"] by blast
  then show ?case using load_stops by (auto simp: desired_inv_def)
next
  case (merges s sn patch)
  moreover have "dcache (MergeDesired sn patch (dworld s)) = dcache (dworld s)" by (simp add: MergeDesired_def)
  ultimately show ?case by (auto simp: desired_inv_def past_value_merge)
qed (auto simp: desired_inv_def)

text \<open>
  C13: What the cache serves was true once. In every interleaving of loads, patches, merges of the fleet service and invalidations the cached
  document is not newer than the table, and if it carries the table's version it is the table's document.
\<close>

theorem cache_serves_the_past:
  assumes "desired_step\<^sup>*\<^sup>* empty_desired s" "cached sn now (dworld s) = Some x"
  shows "fst x \<le> fst (GetDesired sn (dworld s)) \<and> (fst x = fst (GetDesired sn (dworld s)) \<longrightarrow> x = GetDesired sn (dworld s))"
proof -
  have "desired_inv empty_desired" by (simp add: desired_inv_def empty_desired_def)
  with assms(1) have "desired_inv s" by (induction rule: rtranclp_induct) (auto intro: desired_step_inv)
  moreover obtain e where "dcache (dworld s) sn = Some (e, x)" using assms(2) by (auto simp: cached_def split: option.splits if_splits)
  ultimately have "past_value (dworld s) sn x" unfolding desired_inv_def by blast
  then show ?thesis unfolding past_value_def .
qed

text \<open>
  It may stay behind: a load that reads before a patch and fills the cache after the patch removed its entry leaves the old
  document there for an hour.
\<close>

definition demo_patch :: desired where "demo_patch = [''cam'' \<mapsto> JBool True]"

theorem stale_after_patch:
  "\<exists>s. desired_step\<^sup>*\<^sup>* empty_desired s \<and> loads s = [] \<and> dmsgs (dworld s) = [(''SN1'', 1, demo_patch)] \<and>
     GetDesired ''SN1'' (dworld s) = (1, demo_patch) \<and> cached ''SN1'' 3600000000 (dworld s) = Some (0, Map.empty)"
proof -
  let ?s1 = "empty_desired\<lparr>loads := (''SN1'', GetDesired ''SN1'' (dworld empty_desired)) # loads empty_desired\<rparr>"
  let ?s2 = "?s1\<lparr>dworld := MergeDesired ''SN1'' demo_patch (dworld ?s1)\<rparr>"
  let ?s3 = "?s2\<lparr>dworld := (dworld ?s2)\<lparr>dcache := (dcache (dworld ?s2))(''SN1'' := None)\<rparr>\<rparr>"
  let ?s4 = "?s3\<lparr>dworld := (dworld ?s3)\<lparr>dmsgs := dmsgs (dworld ?s3) @ [(''SN1'', 1, demo_patch)]\<rparr>\<rparr>"
  let ?s5 = "?s4\<lparr>dworld := fill_cache ''SN1'' 0 (0, Map.empty) (dworld ?s4), loads := remove1 (''SN1'', 0, Map.empty) (loads ?s4)\<rparr>"
  have "desired_step empty_desired ?s1" by (rule desired_step.load_reads)
  moreover have "desired_step ?s1 ?s2" by (rule desired_step.merges)
  moreover have "desired_step ?s2 ?s3" by (rule desired_step.invalidates)
  moreover have "desired_step ?s3 ?s4" by (rule desired_step.publishes)
  moreover have "desired_step ?s4 ?s5" by (rule desired_step.load_fills) (simp add: GetDesired_def empty_desired_def)
  ultimately have "desired_step\<^sup>*\<^sup>* empty_desired ?s5" by (meson rtranclp.rtrancl_into_rtrancl rtranclp.rtrancl_refl)
  then show ?thesis
    by (intro exI[of _ ?s5]) (simp add: GetDesired_def MergeDesired_def merged_def fill_cache_def cached_def empty_desired_def)
qed

theorem cache_serves_the_past_witness:
  "\<exists>s :: DesiredState. cached ''SN1'' 3600000000 (dworld s) = Some (0, Map.empty) \<and> (0::int) \<le> fst (GetDesired ''SN1'' (dworld s))"
proof -
  obtain s where s: "desired_step\<^sup>*\<^sup>* empty_desired s" "cached ''SN1'' 3600000000 (dworld s) = Some (0, Map.empty)" using stale_after_patch by blast
  from cache_serves_the_past[OF s] have "0 \<le> fst (GetDesired ''SN1'' (dworld s))" by simp
  then show ?thesis using s(2) by blast
qed

text \<open>\<open>GET /api/v1/devices/{sn}/shadow\<close>: report, wish, version and switches together.\<close>

record ShadowView =
  VReported :: reported
  VDesired :: desired
  VVersion :: int
  VSwitches :: "string \<rightharpoonup> SwitchInfo"

definition getShadow :: "(string \<Rightarrow> bool) \<Rightarrow> reported option \<Rightarrow> string \<Rightarrow> time \<Rightarrow> DesiredWorld \<Rightarrow> (nat + ShadowView) \<times> DesiredWorld" where
  "getShadow flt shadow sn now w =
     (case shadow of
        None \<Rightarrow> (Inl 500, w)
      | Some rep \<Rightarrow>
          (case loadDesired flt sn now w of
             (None, w') \<Rightarrow> (Inl 500, w')
           | (Some (v, d), w') \<Rightarrow> (Inr \<lparr>VReported = rep, VDesired = d, VVersion = v, VSwitches = BuildSwitches rep d now\<rparr>, w')))"

end
