(* ===== verification/Sql.thy ===== *)
theory Sql
  imports Prelude
begin

text \<open>
  Statements and what their callers learn. A statement outside a transaction, or a transaction as a whole, is done, is refused, or is
  done although an error is reported; in the last case the caller goes on as if nothing had happened.
\<close>

datatype answer = Done | Refused | LostReply

definition took :: "answer \<Rightarrow> bool" where "took a \<longleftrightarrow> a \<noteq> Refused"

text \<open>A statement gives a result and the tables afterwards, or \<open>None\<close> when a constraint refuses it. \<open>None\<close> is an error for the caller.\<close>

definition exec :: "answer \<Rightarrow> ('db \<Rightarrow> ('r \<times> 'db) option) \<Rightarrow> 'db \<Rightarrow> 'r option \<times> 'db" where
  "exec a st db =
     (if \<not> took a then (None, db)
      else (case st db of None \<Rightarrow> (None, db) | Some (n, db') \<Rightarrow> (if a = Done then Some n else None, db')))"

lemma exec_keeps:
  assumes "P db" "\<And>n db'. st db = Some (n, db') \<Longrightarrow> P db'"
  shows "P (snd (exec a st db))"
  using assms by (auto simp: exec_def split: option.splits)

lemma exec_same: "st db = Some (n, db) \<Longrightarrow> exec a st db = (if a = Done then Some n else None, db)"
  by (cases a) (auto simp: exec_def took_def)

lemma exec_result: "exec a st db = (Some n, db') \<Longrightarrow> st db = Some (n, db')"
  by (auto simp: exec_def split: if_splits option.splits)

lemma exec_refused: "st db = None \<Longrightarrow> exec a st db = (None, db)"
  by (simp add: exec_def)

end
