(* ===== verification/Job.thy ===== *)
theory Job
  imports Topics Sql "HOL-Library.List_Lexorder" "HOL-Library.Char_ord"
begin

text \<open>
  Processing records and the marks users give them, \<open>internal/job\<close>: the consumer of job events (\<open>consumer.go\<close>, \<open>service.go\<close>) that
  writes only with the owner's consent (\<open>optin.go\<close>) and only fields of a fixed shape (\<open>fields.go\<close>), the marks, which may
  arrive before the record, the deletion after a withdrawal and the reconciliation of the consent (\<open>reconcile.go\<close>),
  over the tables of \<open>store.go\<close>. Instants are milliseconds. Every statement
  answers in one of three ways: done, refused, or done although an error is reported.
\<close>

subsection \<open>Fields\<close>

record JobFields =
  JobID :: string
  MaterialID :: string
  ParamProfileID :: string
  ParamsHash :: string
  MaterialCodeID :: string

record EventPayload =
  PSeq :: int
  PTs :: int
  PCode :: string
  PFields :: JobFields

definition IsJobCode :: "string \<Rightarrow> bool" where
  "IsJobCode c \<longleftrightarrow> c \<in> {''JOB_START'', ''JOB_DONE'', ''JOB_FAIL'', ''JOB_PAUSE''}"

definition OutcomeFor :: "string \<Rightarrow> string" where
  "OutcomeFor c = (if c = ''JOB_DONE'' then ''done'' else if c = ''JOB_FAIL'' then ''fail''
     else if c = ''JOB_PAUSE'' then ''pause'' else [])"

definition Ratings :: "string list" where "Ratings = [''good'', ''burnt'', ''uncut'']"

definition hex_any :: "char \<Rightarrow> bool" where
  "hex_any c \<longleftrightarrow> is_digit c \<or> between CHR ''a'' CHR ''f'' c \<or> between CHR ''A'' CHR ''F'' c"

definition id_char :: "char \<Rightarrow> bool" where
  "id_char c \<longleftrightarrow> between CHR ''A'' CHR ''Z'' c \<or> between CHR ''a'' CHR ''z'' c \<or> is_digit c \<or> c = CHR ''_'' \<or> c = CHR ''-''"

text \<open>The four regular expressions; \<open>$\<close> is the end of the text.\<close>

definition uuidRe :: "string \<Rightarrow> bool" where
  "uuidRe s \<longleftrightarrow> length s = 36 \<and>
     list_all (\<lambda>(i, c). if i \<in> {8, 13, 18, 23} then c = CHR ''-'' else hex_any c) (enumerate 0 s)"

definition idRe :: "string \<Rightarrow> bool" where
  "idRe s \<longleftrightarrow> s \<noteq> [] \<and> length s \<le> 32 \<and> list_all id_char s"

definition hashRe :: "string \<Rightarrow> bool" where
  "hashRe s \<longleftrightarrow> length s = 64 \<and> list_all lower_hex s"

definition matCodeRe :: "string \<Rightarrow> bool" where
  "matCodeRe s \<longleftrightarrow> length s = 31 \<and>
     list_all (\<lambda>c. between CHR ''A'' CHR ''Z'' c \<or> between CHR ''2'' CHR ''7'' c) s"

text \<open>The first field out of the white list with its length, which is all the error says.\<close>

definition ValidateJobFields :: "JobFields \<Rightarrow> (string \<times> nat) option" where
  "ValidateJobFields f =
     (if \<not> uuidRe (JobID f) then Some (''job_id'', length (JobID f))
      else if MaterialID f \<noteq> [] \<and> \<not> idRe (MaterialID f) then Some (''material_id'', length (MaterialID f))
      else if ParamProfileID f \<noteq> [] \<and> \<not> idRe (ParamProfileID f) then Some (''param_profile_id'', length (ParamProfileID f))
      else if ParamsHash f \<noteq> [] \<and> \<not> hashRe (ParamsHash f) then Some (''params_hash'', length (ParamsHash f))
      else if MaterialCodeID f \<noteq> [] \<and> \<not> matCodeRe (MaterialCodeID f) then Some (''material_code_id'', length (MaterialCodeID f))
      else None)"

text \<open>The JSON document is given decoded; \<open>None\<close> does not decode.\<close>

definition ParseEvent :: "EventPayload option \<Rightarrow> EventPayload option" where
  "ParseEvent raw = (case raw of None \<Rightarrow> None | Some p \<Rightarrow> if PCode p = [] then None else Some p)"

subsection \<open>Consent\<close>

definition OptInField :: string where "OptInField = ''job_feedback_optin''"

datatype OptInState = OptInAllowed | OptInFalse | OptInMissing | OptInErr

fun OptInName :: "OptInState \<Rightarrow> string" where
  "OptInName OptInAllowed = ''allowed''"
| "OptInName OptInFalse = ''false''"
| "OptInName OptInMissing = ''missing''"
| "OptInName OptInErr = ''err''"

fun OptInMetric :: "OptInState \<Rightarrow> string" where
  "OptInMetric OptInAllowed = []"
| "OptInMetric OptInFalse = ''dropped_optin_false''"
| "OptInMetric OptInMissing = ''dropped_optin_missing''"
| "OptInMetric OptInErr = ''dropped_optin_err''"

definition ParseBool :: "string \<Rightarrow> bool option" where
  "ParseBool v =
     (let l = toLower (trimSpace v) in
      if l \<in> {''1'', ''true'', ''t'', ''yes''} then Some True
      else if l \<in> {''0'', ''false'', ''f'', ''no'', ''''} then Some False else None)"

text \<open>A Redis shadow, or \<open>None\<close> when it cannot be read.\<close>

type_synonym shadow = "(string \<rightharpoonup> string) option"

definition DecideOptIn :: "shadow \<Rightarrow> OptInState" where
  "DecideOptIn sh =
     (case sh of
        None \<Rightarrow> OptInErr
      | Some reported \<Rightarrow>
          (case reported OptInField of
             None \<Rightarrow> OptInMissing
           | Some v \<Rightarrow> (case ParseBool v of None \<Rightarrow> OptInMissing | Some b \<Rightarrow> if b then OptInAllowed else OptInFalse)))"

text \<open>A member of the desired document.\<close>

datatype dval = DBool bool | DStr string | DOther

definition NeedPurge :: "(string \<rightharpoonup> dval) \<Rightarrow> bool" where
  "NeedPurge desired =
     (case desired OptInField of
        None \<Rightarrow> False
      | Some (DBool b) \<Rightarrow> \<not> b
      | Some (DStr x) \<Rightarrow> ParseBool x = Some False
      | Some DOther \<Rightarrow> False)"

subsection \<open>Tables\<close>

record JobRecord =
  RJobID :: string
  RSN :: string
  RMaterial :: "string option"
  RProfile :: "string option"
  RHash :: "string option"
  RStarted :: time
  RFinished :: "time option"
  ROutcome :: "string option"
  RDuration :: "int option"

record Mark =
  MJobID :: string
  MSN :: string
  MRating :: string
  MCreated :: time

record JobDB =
  records :: "JobRecord list"
  feedback :: "Mark list"
  pending :: "Mark list"
  desired :: "(string \<times> (string \<rightharpoonup> dval)) list"

definition nullif :: "string \<Rightarrow> string option" where
  "nullif s = (if s = [] then None else Some s)"

text \<open>\<open>ON CONFLICT (job_id) DO UPDATE\<close> of the two tables of marks.\<close>

definition upsert_mark :: "Mark \<Rightarrow> Mark list \<Rightarrow> Mark list" where
  "upsert_mark m ms = (if list_ex (\<lambda>x. MJobID x = MJobID m) ms then update_where (\<lambda>x. MJobID x = MJobID m)
     (\<lambda>x. x\<lparr>MRating := MRating m, MCreated := MCreated m\<rparr>) ms else ms @ [m])"

definition upsert_pending :: "Mark \<Rightarrow> Mark list \<Rightarrow> Mark list" where
  "upsert_pending m ms = (if list_ex (\<lambda>x. MJobID x = MJobID m) ms then update_where (\<lambda>x. MJobID x = MJobID m)
     (\<lambda>x. x\<lparr>MRating := MRating m, MSN := MSN m, MCreated := MCreated m\<rparr>) ms else ms @ [m])"

text \<open>\<open>GREATEST(0, EXTRACT(EPOCH FROM b - a))::int\<close>: a number of seconds, rounded, which has to fit 32 bits.\<close>

definition duration_s :: "time \<Rightarrow> time \<Rightarrow> int" where
  "duration_s a b = (max 0 (b - a) + 500) div 1000"

abbreviation max_int32 :: int where "max_int32 \<equiv> 2147483647"

text \<open>The statements. A column is too narrow for a serial number of more than 32 bytes, whatever the conflict clause says.\<close>

definition stmt_start :: "JobFields \<Rightarrow> string \<Rightarrow> time \<Rightarrow> JobDB \<Rightarrow> (nat \<times> JobDB) option" where
  "stmt_start f sn at db =
     (if 32 < length sn then None
      else if list_ex (\<lambda>r. RJobID r = JobID f) (records db) then Some (0, db)
      else Some (1, db\<lparr>records := records db @ [\<lparr>RJobID = JobID f, RSN = sn, RMaterial = nullif (MaterialID f),
             RProfile = nullif (ParamProfileID f), RHash = nullif (ParamsHash f), RStarted = at, RFinished = None,
             ROutcome = None, RDuration = None\<rparr>]\<rparr>))"

definition stmt_finish :: "JobFields \<Rightarrow> time \<Rightarrow> string \<Rightarrow> JobDB \<Rightarrow> (nat \<times> JobDB) option" where
  "stmt_finish f at out db =
     (let hit = (\<lambda>r. RJobID r = JobID f) in
      if list_ex (\<lambda>r. hit r \<and> max_int32 < duration_s (RStarted r) at) (records db) then None
      else Some (affected hit (records db), db\<lparr>records := update_where hit
             (\<lambda>r. r\<lparr>RFinished := Some at, ROutcome := Some out, RDuration := Some (duration_s (RStarted r) at)\<rparr>) (records db)\<rparr>))"

definition stmt_late :: "JobFields \<Rightarrow> string \<Rightarrow> time \<Rightarrow> string \<Rightarrow> JobDB \<Rightarrow> (nat \<times> JobDB) option" where
  "stmt_late f sn at out db =
     (if 32 < length sn then None
      else if list_ex (\<lambda>r. RJobID r = JobID f) (records db) then
        Some (1, db\<lparr>records := update_where (\<lambda>r. RJobID r = JobID f) (\<lambda>r. r\<lparr>RFinished := Some at, ROutcome := Some out\<rparr>) (records db)\<rparr>)
      else Some (1, db\<lparr>records := records db @ [\<lparr>RJobID = JobID f, RSN = sn, RMaterial = nullif (MaterialID f),
             RProfile = nullif (ParamProfileID f), RHash = nullif (ParamsHash f), RStarted = at, RFinished = Some at,
             ROutcome = Some out, RDuration = Some 0\<rparr>]\<rparr>))"

text \<open>A mark needs its record (a foreign key).\<close>

definition stmt_feedback :: "Mark \<Rightarrow> JobDB \<Rightarrow> (nat \<times> JobDB) option" where
  "stmt_feedback m db =
     (if 32 < length (MSN m) \<or> \<not> list_ex (\<lambda>r. RJobID r = MJobID m) (records db) then None
      else Some (1, db\<lparr>feedback := upsert_mark m (feedback db)\<rparr>))"

definition stmt_pending :: "Mark \<Rightarrow> JobDB \<Rightarrow> (nat \<times> JobDB) option" where
  "stmt_pending m db = (if 32 < length (MSN m) then None else Some (1, db\<lparr>pending := upsert_pending m (pending db)\<rparr>))"

text \<open>The two transactions, as they are when they commit.\<close>

definition tx_merge :: "string \<Rightarrow> time \<Rightarrow> JobDB \<Rightarrow> (nat \<times> JobDB) option" where
  "tx_merge job now db =
     (case find (\<lambda>m. MJobID m = job) (pending db) of
        None \<Rightarrow> Some (0, db)
      | Some m \<Rightarrow>
          (case stmt_feedback (m\<lparr>MCreated := now\<rparr>) (db\<lparr>pending := filter (\<lambda>x. MJobID x \<noteq> job) (pending db)\<rparr>) of
             None \<Rightarrow> None
           | Some (n, db') \<Rightarrow> Some (1, db')))"

definition tx_purge :: "string \<Rightarrow> JobDB \<Rightarrow> (nat \<times> JobDB) option" where
  "tx_purge sn db =
     (let gone = map RJobID (filter (\<lambda>r. RSN r = sn) (records db)) in
      Some (affected (\<lambda>r. RSN r = sn) (records db) + affected (\<lambda>m. MSN m = sn) (pending db),
        db\<lparr>records := filter (\<lambda>r. RSN r \<noteq> sn) (records db),
           feedback := filter (\<lambda>m. MJobID m \<notin> set gone) (feedback db),
           pending := filter (\<lambda>m. MSN m \<noteq> sn) (pending db)\<rparr>))"

subsection \<open>The store\<close>

definition RecordStart :: "answer \<Rightarrow> JobFields \<Rightarrow> string \<Rightarrow> time \<Rightarrow> JobDB \<Rightarrow> bool option \<times> JobDB" where
  "RecordStart a f sn at db = (case exec a (stmt_start f sn at) db of (r, db') \<Rightarrow> (map_option (\<lambda>n. n = 1) r, db'))"

definition RecordFinish :: "answer \<Rightarrow> answer \<Rightarrow> JobFields \<Rightarrow> string \<Rightarrow> time \<Rightarrow> string \<Rightarrow> JobDB \<Rightarrow> bool option \<times> JobDB" where
  "RecordFinish a1 a2 f sn at out db =
     (case exec a1 (stmt_finish f at out) db of
        (None, db1) \<Rightarrow> (None, db1)
      | (Some n, db1) \<Rightarrow>
          if n = 1 then (Some False, db1)
          else (case exec a2 (stmt_late f sn at out) db1 of (r, db2) \<Rightarrow> (map_option (\<lambda>n. True) r, db2)))"

definition MergePending :: "answer \<Rightarrow> string \<Rightarrow> time \<Rightarrow> JobDB \<Rightarrow> bool option \<times> JobDB" where
  "MergePending a job now db = (case exec a (tx_merge job now) db of (r, db') \<Rightarrow> (map_option (\<lambda>n. n = 1) r, db'))"

text \<open>\<open>None\<close> is an error, \<open>Some None\<close> no record.\<close>

definition RecordSN :: "answer \<Rightarrow> string \<Rightarrow> JobDB \<Rightarrow> string option option" where
  "RecordSN a job db =
     (if a = Done then Some (map_option RSN (find (\<lambda>r. RJobID r = job) (records db))) else None)"

definition UpsertFeedback :: "answer \<Rightarrow> string \<Rightarrow> string \<Rightarrow> string \<Rightarrow> time \<Rightarrow> JobDB \<Rightarrow> bool \<times> JobDB" where
  "UpsertFeedback a job sn rating now db =
     (case exec a (stmt_feedback \<lparr>MJobID = job, MSN = sn, MRating = rating, MCreated = now\<rparr>) db of (r, db') \<Rightarrow> (r \<noteq> None, db'))"

definition InsertPending :: "answer \<Rightarrow> string \<Rightarrow> string \<Rightarrow> string \<Rightarrow> time \<Rightarrow> JobDB \<Rightarrow> bool \<times> JobDB" where
  "InsertPending a job sn rating now db =
     (case exec a (stmt_pending \<lparr>MJobID = job, MSN = sn, MRating = rating, MCreated = now\<rparr>) db of (r, db') \<Rightarrow> (r \<noteq> None, db'))"

text \<open>\<open>desired->>'job_feedback_optin' = 'false'\<close>: the operator gives the text of a value, of a string without its quotes.\<close>

definition opted_out :: "(string \<rightharpoonup> dval) \<Rightarrow> bool" where
  "opted_out d = (case d OptInField of
     None \<Rightarrow> False | Some (DBool b) \<Rightarrow> \<not> b | Some (DStr x) \<Rightarrow> x = ''false'' | Some DOther \<Rightarrow> False)"

definition OptedOutSNs :: "answer \<Rightarrow> JobDB \<Rightarrow> string list option" where
  "OptedOutSNs a db = (if a = Done then Some (map fst (filter (\<lambda>(sn, d). opted_out d) (desired db))) else None)"

definition PurgeSN :: "answer \<Rightarrow> string \<Rightarrow> JobDB \<Rightarrow> nat option \<times> JobDB" where
  "PurgeSN a sn db = exec a (tx_purge sn) db"

definition DistinctJobSNs :: "answer \<Rightarrow> JobDB \<Rightarrow> string list option" where
  "DistinctJobSNs a db = (if a = Done then Some (sort (remdups (map RSN (records db)))) else None)"

subsection \<open>Events\<close>

record JobSvc =
  jdb :: JobDB
  jm :: metrics

datatype Outcome = OutcomeStarted | OutcomeFinished | OutcomeIgnored | OutcomeDropped | OutcomeBad | OutcomeDupStart

record JobEnv =
  EShadow :: shadow
  EStart :: answer
  EFinish :: answer
  ELate :: answer
  EMerge :: answer
  ENow :: time

definition jinc :: "string \<Rightarrow> JobSvc \<Rightarrow> JobSvc" where "jinc n s = s\<lparr>jm := Inc n (jm s)\<rparr>"

definition optIn :: "shadow \<Rightarrow> JobSvc \<Rightarrow> OptInState \<times> JobSvc" where
  "optIn sh s = (let st = DecideOptIn sh in (st, if OptInMetric st = [] then s else jinc (OptInMetric st) s))"

definition event_time :: "EventPayload \<Rightarrow> 'p Envelope \<Rightarrow> time" where
  "event_time p env = (if PTs p = 0 then RecvTs env else PTs p)"

text \<open>The third step, writing the record.\<close>

definition store_event :: "JobEnv \<Rightarrow> EventPayload \<Rightarrow> string \<Rightarrow> time \<Rightarrow> JobSvc \<Rightarrow> Outcome option \<times> JobSvc" where
  "store_event e p sn at s =
     (if PCode p = ''JOB_START'' then
        (case RecordStart (EStart e) (PFields p) sn at (jdb s) of
           (None, db) \<Rightarrow> (None, jinc ''db_errors'' (s\<lparr>jdb := db\<rparr>))
         | (Some True, db) \<Rightarrow> (Some OutcomeStarted, jinc ''records_started'' (s\<lparr>jdb := db\<rparr>))
         | (Some False, db) \<Rightarrow> (Some OutcomeDupStart, s\<lparr>jdb := db\<rparr>))
      else
        (case RecordFinish (EFinish e) (ELate e) (PFields p) sn at (OutcomeFor (PCode p)) (jdb s) of
           (None, db) \<Rightarrow> (None, jinc ''db_errors'' (s\<lparr>jdb := db\<rparr>))
         | (Some late, db) \<Rightarrow>
             (Some OutcomeFinished, (if late then jinc ''late_start'' else (\<lambda>x. x)) (jinc ''records_finished'' (s\<lparr>jdb := db\<rparr>)))))"

definition merge_event :: "JobEnv \<Rightarrow> string \<Rightarrow> Outcome \<Rightarrow> JobSvc \<Rightarrow> Outcome option \<times> JobSvc" where
  "merge_event e job out s =
     (case MergePending (EMerge e) job (ENow e) (jdb s) of
        (None, db) \<Rightarrow> (None, jinc ''db_errors'' (s\<lparr>jdb := db\<rparr>))
      | (Some merged, db) \<Rightarrow> (Some out, (if merged then jinc ''pending_merged'' else (\<lambda>x. x)) (s\<lparr>jdb := db\<rparr>)))"

text \<open>\<open>None\<close> is an error, on which the message is given back.\<close>

definition HandleEvent :: "JobEnv \<Rightarrow> EventPayload option Envelope \<Rightarrow> JobSvc \<Rightarrow> Outcome option \<times> JobSvc" where
  "HandleEvent e env s0 =
     (let s = jinc ''consumed'' s0 in
      case ParseEvent (EPayload env) of
        None \<Rightarrow> (Some OutcomeBad, jinc ''payload_bad'' s)
      | Some p \<Rightarrow>
          if \<not> IsJobCode (PCode p) then (Some OutcomeIgnored, jinc ''ignored_code'' s)
          else (case optIn (EShadow e) s of (st, s1) \<Rightarrow>
            if st \<noteq> OptInAllowed then (Some OutcomeDropped, s1)
            else if ValidateJobFields (PFields p) \<noteq> None then (Some OutcomeDropped, jinc ''dropped_bad_fields'' s1)
            else (case store_event e p (SN env) (event_time p env) s1 of
              (None, s2) \<Rightarrow> (None, s2)
            | (Some out, s2) \<Rightarrow> merge_event e (JobID (PFields p)) out s2)))"

text \<open>What the consumer does with a message, which may not be an envelope at all.\<close>

datatype disposition = MsgAck | MsgNak nat

definition consume_event :: "JobEnv \<Rightarrow> EventPayload option Envelope option \<Rightarrow> JobSvc \<Rightarrow> disposition \<times> JobSvc" where
  "consume_event e msg s =
     (case msg of
        None \<Rightarrow> (MsgAck, jinc ''envelope_bad'' s)
      | Some env \<Rightarrow> (case HandleEvent e env s of (None, s') \<Rightarrow> (MsgNak 2, s') | (Some out, s') \<Rightarrow> (MsgAck, s')))"

subsection \<open>Marks\<close>

datatype feedback_error = OptInDenied | SNMismatch | BadRating | JobDbError

datatype FeedbackStatus = FeedbackStored | FeedbackPending

record MarkEnv =
  FShadow :: shadow
  FLookup :: answer
  FPending :: answer
  FUpsert :: answer
  FNow :: time

definition Feedback :: "MarkEnv \<Rightarrow> string \<Rightarrow> string \<Rightarrow> string \<Rightarrow> JobSvc \<Rightarrow> (feedback_error + FeedbackStatus) \<times> JobSvc" where
  "Feedback e job sn rating s =
     (if rating \<notin> set Ratings then (Inl BadRating, s)
      else if \<not> uuidRe job \<or> \<not> idRe sn then (Inl BadRating, s)
      else (case optIn (FShadow e) s of (st, s1) \<Rightarrow>
        if st \<noteq> OptInAllowed then (Inl OptInDenied, jinc ''feedback_denied'' s1)
        else (case RecordSN (FLookup e) job (jdb s1) of
          None \<Rightarrow> (Inl JobDbError, jinc ''db_errors'' s1)
        | Some None \<Rightarrow>
            (case InsertPending (FPending e) job sn rating (FNow e) (jdb s1) of
               (False, db) \<Rightarrow> (Inl JobDbError, jinc ''db_errors'' (s1\<lparr>jdb := db\<rparr>))
             | (True, db) \<Rightarrow> (Inr FeedbackPending, jinc ''feedback_pending'' (s1\<lparr>jdb := db\<rparr>)))
        | Some (Some owner) \<Rightarrow>
            if owner \<noteq> sn then (Inl SNMismatch, jinc ''feedback_denied'' s1)
            else (case UpsertFeedback (FUpsert e) job sn rating (FNow e) (jdb s1) of
               (False, db) \<Rightarrow> (Inl JobDbError, jinc ''db_errors'' (s1\<lparr>jdb := db\<rparr>))
             | (True, db) \<Rightarrow> (Inr FeedbackStored, jinc ''feedback_ok'' (s1\<lparr>jdb := db\<rparr>))))))"

text \<open>The handler's status. The body is the rating, or \<open>None\<close> when it does not decode.\<close>

definition feedback_status :: "feedback_error + FeedbackStatus \<Rightarrow> nat" where
  "feedback_status r =
     (case r of Inr FeedbackPending \<Rightarrow> 202 | Inr FeedbackStored \<Rightarrow> 200 | Inl BadRating \<Rightarrow> 400
      | Inl OptInDenied \<Rightarrow> 403 | Inl SNMismatch \<Rightarrow> 403 | Inl JobDbError \<Rightarrow> 500)"

definition postFeedback :: "MarkEnv \<Rightarrow> string \<Rightarrow> string \<Rightarrow> string option \<Rightarrow> JobSvc \<Rightarrow> nat \<times> JobSvc" where
  "postFeedback e job sn body s =
     (if sn = [] then (400, s)
      else (case body of
        None \<Rightarrow> (400, s)
      | Some rating \<Rightarrow> (case Feedback e job sn rating s of (r, s') \<Rightarrow> (feedback_status r, s'))))"

subsection \<open>Withdrawal\<close>

text \<open>One deletion per serial number, each with its own answer; errors are counted and passed over.\<close>

fun purge_each :: "(string \<Rightarrow> answer) \<Rightarrow> string list \<Rightarrow> nat \<Rightarrow> JobSvc \<Rightarrow> nat \<times> JobSvc" where
  "purge_each a [] cnt s = (cnt, s)"
| "purge_each a (sn # sns) cnt s =
     (case PurgeSN (a sn) sn (jdb s) of
        (None, db) \<Rightarrow> purge_each a sns cnt (jinc ''db_errors'' (s\<lparr>jdb := db\<rparr>))
      | (Some n, db) \<Rightarrow> purge_each a sns (cnt + n) (s\<lparr>jdb := db\<rparr>))"

definition PurgeOnce :: "answer \<Rightarrow> (string \<Rightarrow> answer) \<Rightarrow> JobSvc \<Rightarrow> nat option \<times> JobSvc" where
  "PurgeOnce al a s0 =
     (let s = jinc ''purge_runs'' s0 in
      case OptedOutSNs al (jdb s) of
        None \<Rightarrow> (None, jinc ''db_errors'' s)
      | Some sns \<Rightarrow> (case purge_each a sns 0 s of (cnt, s') \<Rightarrow> (Some cnt, s'\<lparr>jm := Add ''purged_rows'' (int cnt) (jm s')\<rparr>)))"

subsection \<open>Reconciliation of the consent\<close>

text \<open>The Go map from serial numbers to states, as a list with distinct keys.\<close>

definition ViolatingSNs :: "(string \<times> OptInState) list \<Rightarrow> string list" where
  "ViolatingSNs m = sort (map fst (filter (\<lambda>(sn, st). st = OptInFalse \<or> st = OptInMissing) m))"

record OptInReport =
  Scanned :: nat
  Violations :: nat
  Purged :: nat
  PurgedRows :: nat
  ShadowErrors :: nat

definition read_states :: "(string \<Rightarrow> shadow) \<Rightarrow> string list \<Rightarrow> (string \<times> OptInState) list" where
  "read_states sh sns = filter (\<lambda>(sn, st). st \<noteq> OptInErr) (map (\<lambda>sn. (sn, DecideOptIn (sh sn))) sns)"

fun purge_bad :: "(string \<Rightarrow> answer) \<Rightarrow> string list \<Rightarrow> OptInReport \<times> JobSvc \<Rightarrow> OptInReport \<times> JobSvc" where
  "purge_bad a [] rs = rs"
| "purge_bad a (sn # sns) (rep, s) =
     (case PurgeSN (a sn) sn (jdb s) of
        (None, db) \<Rightarrow> purge_bad a sns (rep, jinc ''db_errors'' (jinc ''optin_reconcile_errors'' (s\<lparr>jdb := db\<rparr>)))
      | (Some n, db) \<Rightarrow> purge_bad a sns (rep\<lparr>Purged := Purged rep + 1, PurgedRows := PurgedRows rep + n\<rparr>,
          (jinc ''optin_purged'' (s\<lparr>jdb := db\<rparr>))\<lparr>jm := Add ''optin_purged_rows'' (int n) (jm (jinc ''optin_purged'' s))\<rparr>))"

definition RunOnce :: "answer \<Rightarrow> (string \<Rightarrow> shadow) \<Rightarrow> (string \<Rightarrow> answer) \<Rightarrow> JobSvc \<Rightarrow> OptInReport option \<times> JobSvc" where
  "RunOnce al sh a s0 =
     (let s = jinc ''optin_reconcile_runs'' s0 in
      case DistinctJobSNs al (jdb s) of
        None \<Rightarrow> (None, jinc ''db_errors'' (jinc ''optin_reconcile_errors'' s))
      | Some sns \<Rightarrow>
          (let errs = length (filter (\<lambda>sn. DecideOptIn (sh sn) = OptInErr) sns);
               bad = ViolatingSNs (read_states sh sns);
               rep = \<lparr>Scanned = length sns, Violations = length bad, Purged = 0, PurgedRows = 0, ShadowErrors = errs\<rparr>;
               s1 = s\<lparr>jm := Add ''optin_violations'' (int (length bad)) (Add ''optin_shadow_errors'' (int errs)
                        (Add ''optin_checked'' (int (length sns)) (jm s)))\<rparr>;
               (rep', s') = purge_bad a bad (rep, s1)
           in (Some rep', s')))"

end
