(* ===== verification/JobSafety.thy ===== *)
theory JobSafety
  imports Job
begin

text \<open>
  What holds of the processing records and marks in every interleaving of events, marks, withdrawals and reconciliations, statement by
  statement. \<open>consented\<close> collects the serial numbers whose shadow was read with the consent given; a crash between two
  statements is a statement that does not come.
\<close>

subsection \<open>Steps\<close>

record JobWorld =
  jw :: JobDB
  consented :: "string set"

inductive job_step :: "JobWorld \<Rightarrow> JobWorld \<Rightarrow> bool" where
  consent: "DecideOptIn sh = OptInAllowed \<Longrightarrow> job_step w (w\<lparr>consented := insert sn (consented w)\<rparr>)"
| started: "sn \<in> consented w \<Longrightarrow> ValidateJobFields f = None \<Longrightarrow>
    job_step w (w\<lparr>jw := snd (exec a (stmt_start f sn at) (jw w))\<rparr>)"
| finished: "sn \<in> consented w \<Longrightarrow> ValidateJobFields f = None \<Longrightarrow> out \<in> {''done'', ''fail'', ''pause''} \<Longrightarrow>
    job_step w (w\<lparr>jw := snd (exec a (stmt_finish f at out) (jw w))\<rparr>)"
| late: "sn \<in> consented w \<Longrightarrow> ValidateJobFields f = None \<Longrightarrow> out \<in> {''done'', ''fail'', ''pause''} \<Longrightarrow>
    job_step w (w\<lparr>jw := snd (exec a (stmt_late f sn at out) (jw w))\<rparr>)"
| merged: "job_step w (w\<lparr>jw := snd (exec a (tx_merge job now) (jw w))\<rparr>)"
| marked: "MSN m \<in> consented w \<Longrightarrow> MRating m \<in> set Ratings \<Longrightarrow>
    job_step w (w\<lparr>jw := snd (exec a (stmt_feedback m) (jw w))\<rparr>)"
| waiting: "MSN m \<in> consented w \<Longrightarrow> MRating m \<in> set Ratings \<Longrightarrow>
    job_step w (w\<lparr>jw := snd (exec a (stmt_pending m) (jw w))\<rparr>)"
| purged: "job_step w (w\<lparr>jw := snd (exec a (tx_purge sn) (jw w))\<rparr>)"
| wished: "job_step w (w\<lparr>jw := (jw w)\<lparr>desired := d\<rparr>\<rparr>)"

definition empty_jobs :: JobDB where
  "empty_jobs = \<lparr>records = [], feedback = [], pending = [], desired = []\<rparr>"

inductive job_reach :: "JobWorld \<Rightarrow> bool" where
  init: "job_reach \<lparr>jw = empty_jobs, consented = {}\<rparr>"
| step: "job_reach w \<Longrightarrow> job_step w w' \<Longrightarrow> job_reach w'"

subsection \<open>The invariant\<close>

definition opt_ok :: "(string \<Rightarrow> bool) \<Rightarrow> string option \<Rightarrow> bool" where
  "opt_ok P x \<longleftrightarrow> (case x of None \<Rightarrow> True | Some s \<Rightarrow> P s)"

definition outcome_ok :: "JobRecord \<Rightarrow> bool" where
  "outcome_ok r \<longleftrightarrow> (RFinished r = None \<longleftrightarrow> ROutcome r = None) \<and> opt_ok (\<lambda>x. x \<in> {''done'', ''fail'', ''pause''}) (ROutcome r) \<and>
     (case RDuration r of None \<Rightarrow> True | Some d \<Rightarrow> 0 \<le> d \<and> d \<le> max_int32)"

definition row_ok :: "string set \<Rightarrow> JobRecord \<Rightarrow> bool" where
  "row_ok cs r \<longleftrightarrow> RSN r \<in> cs \<and> length (RSN r) \<le> 32 \<and> uuidRe (RJobID r) \<and> opt_ok idRe (RMaterial r) \<and>
     opt_ok idRe (RProfile r) \<and> opt_ok hashRe (RHash r) \<and> outcome_ok r"

definition mark_ok :: "string set \<Rightarrow> Mark \<Rightarrow> bool" where
  "mark_ok cs m \<longleftrightarrow> MSN m \<in> cs \<and> length (MSN m) \<le> 32 \<and> MRating m \<in> set Ratings"

definition keys_ok :: "JobDB \<Rightarrow> bool" where
  "keys_ok db \<longleftrightarrow> distinct (map RJobID (records db)) \<and> distinct (map MJobID (feedback db)) \<and>
     distinct (map MJobID (pending db)) \<and> set (map MJobID (feedback db)) \<subseteq> set (map RJobID (records db))"

definition rows_ok :: "string set \<Rightarrow> JobDB \<Rightarrow> bool" where
  "rows_ok cs db \<longleftrightarrow> list_all (row_ok cs) (records db) \<and> list_all (mark_ok cs) (feedback db) \<and> list_all (mark_ok cs) (pending db)"

definition jobs_ok :: "JobWorld \<Rightarrow> bool" where
  "jobs_ok w \<longleftrightarrow> keys_ok (jw w) \<and> rows_ok (consented w) (jw w)"

lemma list_all_update_where:
  "list_all P rs \<Longrightarrow> (\<And>r. P r \<Longrightarrow> Q r \<Longrightarrow> P (f r)) \<Longrightarrow> list_all P (update_where Q f rs)"
  by (induction rs) auto

lemma list_all_filtered: "list_all P xs \<Longrightarrow> list_all P (filter Q xs)"
  by (induction xs) auto

lemma list_ex_key: "list_ex (\<lambda>x. f x = k) xs \<longleftrightarrow> k \<in> set (map f xs)"
  by (induction xs) auto

lemma upsert_mark_keys:
  "map MJobID (upsert_mark m ms) = (if MJobID m \<in> set (map MJobID ms) then map MJobID ms else map MJobID ms @ [MJobID m])"
  by (simp add: upsert_mark_def list_ex_key map_update_where_frame)

lemma upsert_pending_keys:
  "map MJobID (upsert_pending m ms) = (if MJobID m \<in> set (map MJobID ms) then map MJobID ms else map MJobID ms @ [MJobID m])"
  by (simp add: upsert_pending_def list_ex_key map_update_where_frame)

lemma upsert_mark_ok: "list_all (mark_ok cs) ms \<Longrightarrow> mark_ok cs m \<Longrightarrow> list_all (mark_ok cs) (upsert_mark m ms)"
  by (auto simp: upsert_mark_def mark_ok_def intro!: list_all_update_where)

lemma upsert_pending_ok: "list_all (mark_ok cs) ms \<Longrightarrow> mark_ok cs m \<Longrightarrow> list_all (mark_ok cs) (upsert_pending m ms)"
  by (auto simp: upsert_pending_def mark_ok_def intro!: list_all_update_where)

lemma duration_s_nonneg: "0 \<le> duration_s a b"
  by (simp add: duration_s_def)

lemma opt_ok_None [simp]: "opt_ok P None" "opt_ok P (Some x) = P x"
  by (simp_all add: opt_ok_def)

lemma opt_ok_nullif: "(s \<noteq> [] \<longrightarrow> P s) \<Longrightarrow> opt_ok P (nullif s)"
  by (simp add: opt_ok_def nullif_def)

lemma validated:
  assumes "ValidateJobFields f = None"
  shows "uuidRe (JobID f)" "opt_ok idRe (nullif (MaterialID f))" "opt_ok idRe (nullif (ParamProfileID f))"
    "opt_ok hashRe (nullif (ParamsHash f))"
  using assms by (auto simp: ValidateJobFields_def intro!: opt_ok_nullif split: if_splits)

lemma start_ok:
  assumes "keys_ok db" "rows_ok cs db" "sn \<in> cs" "ValidateJobFields f = None" "stmt_start f sn at db = Some (n, db')"
  shows "keys_ok db' \<and> rows_ok cs db'"
  using assms(1,2,3,5) validated[OF assms(4)]
  by (auto simp: stmt_start_def keys_ok_def rows_ok_def list_ex_key row_ok_def outcome_ok_def simp del: set_map split: if_splits)

lemma finish_row_ok:
  "row_ok cs r \<Longrightarrow> out \<in> {''done'', ''fail'', ''pause''} \<Longrightarrow> duration_s (RStarted r) at \<le> max_int32 \<Longrightarrow>
   row_ok cs (r\<lparr>RFinished := Some at, ROutcome := Some out, RDuration := Some (duration_s (RStarted r) at)\<rparr>)"
  by (simp add: row_ok_def outcome_ok_def opt_ok_def duration_s_nonneg)

lemma finish_ok:
  assumes "keys_ok db" "rows_ok cs db" "out \<in> {''done'', ''fail'', ''pause''}" "stmt_finish f at out db = Some (n, db')"
  shows "keys_ok db' \<and> rows_ok cs db'"
proof -
  let ?hit = "\<lambda>r. RJobID r = JobID f"
  let ?upd = "\<lambda>r. r\<lparr>RFinished := Some at, ROutcome := Some out, RDuration := Some (duration_s (RStarted r) at)\<rparr>"
  have small: "\<And>r. r \<in> set (records db) \<Longrightarrow> ?hit r \<Longrightarrow> duration_s (RStarted r) at \<le> max_int32"
    and db': "db' = db\<lparr>records := update_where ?hit ?upd (records db)\<rparr>"
    using assms(4) by (auto simp: stmt_finish_def Let_def list_ex_iff split: if_splits)
  have "row_ok cs (if ?hit r then ?upd r else r)" if r: "r \<in> set (records db)" for r
    using assms(2,3) r finish_row_ok small[OF r] by (auto simp: rows_ok_def list_all_iff)
  then have "list_all (row_ok cs) (update_where ?hit ?upd (records db))"
    unfolding list_all_iff ball_update_where by blast
  then show ?thesis
    using assms(1,2) by (simp add: db' keys_ok_def rows_ok_def map_update_where_frame)
qed

lemma late_ok:
  assumes "keys_ok db" "rows_ok cs db" "sn \<in> cs" "ValidateJobFields f = None" "out \<in> {''done'', ''fail'', ''pause''}"
    "stmt_late f sn at out db = Some (n, db')"
  shows "keys_ok db' \<and> rows_ok cs db'"
proof (cases "JobID f \<in> set (map RJobID (records db))")
  case True
  have "row_ok cs (r\<lparr>RFinished := Some at, ROutcome := Some out\<rparr>)" if "row_ok cs r" for r
    using that assms(5) by (auto simp: row_ok_def outcome_ok_def opt_ok_def)
  then show ?thesis
    using assms(1,2,6) True
    by (auto simp: stmt_late_def keys_ok_def rows_ok_def list_ex_key map_update_where_frame simp del: set_map intro!: list_all_update_where split: if_splits)
next
  case False
  then show ?thesis
    using assms(1-3,5,6) validated[OF assms(4)]
    by (auto simp: stmt_late_def keys_ok_def rows_ok_def list_ex_key row_ok_def outcome_ok_def simp del: set_map
        split: if_splits)
qed

lemma feedback_stmt_ok:
  assumes "keys_ok db" "rows_ok cs db" "MSN m \<in> cs" "MRating m \<in> set Ratings" "stmt_feedback m db = Some (n, db')"
  shows "keys_ok db' \<and> rows_ok cs db'"
  using assms by (auto simp: stmt_feedback_def keys_ok_def rows_ok_def list_ex_key upsert_mark_keys mark_ok_def
      simp del: set_map intro!: upsert_mark_ok split: if_splits)

lemma pending_stmt_ok:
  assumes "keys_ok db" "rows_ok cs db" "MSN m \<in> cs" "MRating m \<in> set Ratings" "stmt_pending m db = Some (n, db')"
  shows "keys_ok db' \<and> rows_ok cs db'"
  using assms by (auto simp: stmt_pending_def keys_ok_def rows_ok_def upsert_pending_keys mark_ok_def
      simp del: set_map intro!: upsert_pending_ok split: if_splits)

lemma merge_ok:
  assumes "keys_ok db" "rows_ok cs db" "tx_merge job now db = Some (n, db')"
  shows "keys_ok db' \<and> rows_ok cs db'"
proof (cases "find (\<lambda>m. MJobID m = job) (pending db)")
  case None
  then show ?thesis using assms by (simp add: tx_merge_def)
next
  case (Some m)
  let ?db = "db\<lparr>pending := filter (\<lambda>x. MJobID x \<noteq> job) (pending db)\<rparr>"
  obtain k where st: "stmt_feedback (m\<lparr>MCreated := now\<rparr>) ?db = Some (k, db')"
    using assms(3) Some by (auto simp: tx_merge_def split: option.splits)
  have "m \<in> set (pending db)" using Some by (auto simp: find_Some_iff)
  then have "mark_ok cs m" using assms(2) by (auto simp: rows_ok_def list_all_iff)
  moreover have "keys_ok ?db" "rows_ok cs ?db"
    using assms(1,2) by (simp_all add: keys_ok_def rows_ok_def list_all_filtered distinct_map_filter)
  ultimately show ?thesis using feedback_stmt_ok[OF _ _ _ _ st] by (simp add: mark_ok_def)
qed

lemma purge_ok:
  assumes "keys_ok db" "rows_ok cs db" "tx_purge sn db = Some (n, db')"
  shows "keys_ok db' \<and> rows_ok cs db'"
proof -
  have db': "db' = db\<lparr>records := filter (\<lambda>r. RSN r \<noteq> sn) (records db),
      feedback := filter (\<lambda>m. MJobID m \<notin> set (map RJobID (filter (\<lambda>r. RSN r = sn) (records db)))) (feedback db),
      pending := filter (\<lambda>m. MSN m \<noteq> sn) (pending db)\<rparr>"
    using assms(3) by (simp add: tx_purge_def Let_def)
  have "MJobID m \<in> set (map RJobID (records db'))" if m: "m \<in> set (feedback db')" for m
  proof -
    have "m \<in> set (feedback db)" "MJobID m \<notin> RJobID ` {r \<in> set (records db). RSN r = sn}" using m by (auto simp: db')
    moreover from this(1) have "MJobID m \<in> RJobID ` set (records db)" using assms(1) by (auto simp: keys_ok_def)
    ultimately show ?thesis by (auto simp: db')
  qed
  then have "set (map MJobID (feedback db')) \<subseteq> set (map RJobID (records db'))" by auto
  then show ?thesis
    using assms(1,2) by (simp add: keys_ok_def rows_ok_def db' list_all_filtered distinct_map_filter)
qed

lemma rows_ok_mono: "rows_ok cs db \<Longrightarrow> cs \<subseteq> cs' \<Longrightarrow> rows_ok cs' db"
  by (auto simp: rows_ok_def list_all_iff row_ok_def mark_ok_def)

lemma exec_jobs_ok:
  assumes "jobs_ok w"
    "\<And>n db'. keys_ok (jw w) \<Longrightarrow> rows_ok (consented w) (jw w) \<Longrightarrow> st (jw w) = Some (n, db') \<Longrightarrow>
       keys_ok db' \<and> rows_ok (consented w) db'"
  shows "jobs_ok (w\<lparr>jw := snd (exec a st (jw w))\<rparr>)"
  using assms exec_keeps[of "\<lambda>db. keys_ok db \<and> rows_ok (consented w) db" "jw w" st a] by (simp add: jobs_ok_def)

lemma job_step_ok: "job_step w w' \<Longrightarrow> jobs_ok w \<Longrightarrow> jobs_ok w'"
proof (induction rule: job_step.induct)
  case (consent sh w sn)
  then show ?case using rows_ok_mono[of "consented w" "jw w" "insert sn (consented w)"] by (auto simp: jobs_ok_def)
next
  case (wished w d)
  then show ?case by (simp add: jobs_ok_def keys_ok_def rows_ok_def)
qed (erule exec_jobs_ok, ((rule start_ok; assumption) | (rule finish_ok; assumption) | (rule late_ok; assumption) |
     (rule merge_ok; assumption) | (rule feedback_stmt_ok; assumption) | (rule pending_stmt_ok; assumption) | (rule purge_ok; assumption)))+

lemma job_reach_ok: "job_reach w \<Longrightarrow> jobs_ok w"
proof (induction rule: job_reach.induct)
  case init
  show ?case by (simp add: jobs_ok_def keys_ok_def rows_ok_def empty_jobs_def)
qed (rule job_step_ok)

subsection \<open>The operations are sequences of steps\<close>

abbreviation world :: "JobDB \<Rightarrow> string set \<Rightarrow> JobWorld" where
  "world db cs \<equiv> \<lparr>jw = db, consented = cs\<rparr>"

definition heard :: "shadow \<Rightarrow> string \<Rightarrow> string set \<Rightarrow> string set" where
  "heard sh sn cs = (if DecideOptIn sh = OptInAllowed then insert sn cs else cs)"

lemma jdb_jinc [simp]: "jdb (jinc n s) = jdb s"
  by (simp add: jinc_def)

lemma optIn_simps [simp]: "fst (optIn sh s) = DecideOptIn sh" "jdb (snd (optIn sh s)) = jdb s"
  by (simp_all add: optIn_def Let_def)

lemma heard_steps: "job_step\<^sup>*\<^sup>* (world db cs) (world db (heard sh sn cs))"
  using job_step.consent[of sh "world db cs" sn] by (auto simp: heard_def)

lemma exec_step:
  assumes "\<And>w :: JobWorld. consented w = cs \<Longrightarrow> job_step w (w\<lparr>jw := snd (exec a st (jw w))\<rparr>)"
  shows "job_step\<^sup>*\<^sup>* (world db cs) (world (snd (exec a st db)) cs)"
  using assms[of "world db cs"] by simp

lemma RecordStart_db: "snd (RecordStart a f sn at db) = snd (exec a (stmt_start f sn at) db)"
  by (simp add: RecordStart_def split: prod.split)

lemma RecordFinish_steps:
  assumes "sn \<in> cs" "ValidateJobFields f = None" "out \<in> {''done'', ''fail'', ''pause''}"
  shows "job_step\<^sup>*\<^sup>* (world db cs) (world (snd (RecordFinish a1 a2 f sn at out db)) cs)"
proof -
  let ?db1 = "snd (exec a1 (stmt_finish f at out) db)"
  have one: "job_step\<^sup>*\<^sup>* (world db cs) (world ?db1 cs)"
    by (rule exec_step, rule job_step.finished) (use assms in auto)
  moreover have "job_step\<^sup>*\<^sup>* (world ?db1 cs) (world (snd (exec a2 (stmt_late f sn at out) ?db1)) cs)"
    by (rule exec_step, rule job_step.late) (use assms in auto)
  ultimately have two: "job_step\<^sup>*\<^sup>* (world db cs) (world (snd (exec a2 (stmt_late f sn at out) ?db1)) cs)"
    by (rule rtranclp_trans)
  show ?thesis
    using one two by (auto simp: RecordFinish_def split: prod.splits option.splits)
qed

lemma MergePending_steps: "job_step\<^sup>*\<^sup>* (world db cs) (world (snd (MergePending a job now db)) cs)"
proof -
  have "snd (MergePending a job now db) = snd (exec a (tx_merge job now) db)"
    by (simp add: MergePending_def split: prod.split)
  then show ?thesis using exec_step[OF job_step.merged] by simp
qed

lemma job_codes: "IsJobCode c \<Longrightarrow> c \<noteq> ''JOB_START'' \<Longrightarrow> OutcomeFor c \<in> {''done'', ''fail'', ''pause''}"
  by (auto simp: IsJobCode_def OutcomeFor_def)

lemma store_event_steps:
  assumes "sn \<in> cs" "ValidateJobFields (PFields p) = None" "IsJobCode (PCode p)"
  shows "job_step\<^sup>*\<^sup>* (world (jdb s) cs) (world (jdb (snd (store_event e p sn at s))) cs)"
proof (cases "PCode p = ''JOB_START''")
  case True
  have "job_step\<^sup>*\<^sup>* (world (jdb s) cs) (world (snd (RecordStart (EStart e) (PFields p) sn at (jdb s))) cs)"
    unfolding RecordStart_db by (rule exec_step, rule job_step.started) (use assms in auto)
  then show ?thesis
    by (auto simp: store_event_def True split: prod.splits option.splits bool.splits)
next
  case False
  have "job_step\<^sup>*\<^sup>* (world (jdb s) cs)
      (world (snd (RecordFinish (EFinish e) (ELate e) (PFields p) sn at (OutcomeFor (PCode p)) (jdb s))) cs)"
    using RecordFinish_steps[OF assms(1,2) job_codes[OF assms(3) False]] .
  then show ?thesis
    by (auto simp: store_event_def False split: prod.splits option.splits)
qed

lemma merge_event_steps: "job_step\<^sup>*\<^sup>* (world (jdb s) cs) (world (jdb (snd (merge_event e job out s))) cs)"
  using MergePending_steps[of "jdb s" cs "EMerge e" job "ENow e"]
  by (auto simp: merge_event_def split: prod.splits option.splits)

lemma HandleEvent_steps:
  "job_step\<^sup>*\<^sup>* (world (jdb s) cs) (world (jdb (snd (HandleEvent e env s))) (heard (EShadow e) (SN env) cs))"
proof (cases "\<exists>p. ParseEvent (EPayload env) = Some p \<and> IsJobCode (PCode p) \<and> DecideOptIn (EShadow e) = OptInAllowed \<and>
    ValidateJobFields (PFields p) = None")
  case False
  then have "jdb (snd (HandleEvent e env s)) = jdb s"
    by (auto simp: HandleEvent_def Let_def case_prod_beta split: option.splits)
  then show ?thesis using heard_steps by simp
next
  case True
  then obtain p where p: "ParseEvent (EPayload env) = Some p" "IsJobCode (PCode p)" "DecideOptIn (EShadow e) = OptInAllowed"
    "ValidateJobFields (PFields p) = None" by blast
  let ?cs = "insert (SN env) cs"
  define s1 where "s1 = snd (optIn (EShadow e) (jinc ''consumed'' s))"
  define s2 where "s2 = snd (store_event e p (SN env) (event_time p env) s1)"
  have a: "job_step\<^sup>*\<^sup>* (world (jdb s) cs) (world (jdb s1) ?cs)"
    using heard_steps[of "jdb s" cs "EShadow e" "SN env"] p(3) by (simp add: heard_def s1_def)
  have b: "job_step\<^sup>*\<^sup>* (world (jdb s1) ?cs) (world (jdb s2) ?cs)"
    unfolding s2_def by (rule store_event_steps) (use p in auto)
  have ab: "job_step\<^sup>*\<^sup>* (world (jdb s) cs) (world (jdb s2) ?cs)" using a b by (rule rtranclp_trans)
  have r: "snd (HandleEvent e env s) = (case fst (store_event e p (SN env) (event_time p env) s1) of
      None \<Rightarrow> s2 | Some out \<Rightarrow> snd (merge_event e (JobID (PFields p)) out s2))"
    using p by (simp add: HandleEvent_def Let_def case_prod_beta s1_def s2_def split: option.split)
  show ?thesis
  proof (cases "fst (store_event e p (SN env) (event_time p env) s1)")
    case None
    then show ?thesis using ab r p(3) by (simp add: heard_def)
  next
    case (Some out)
    then show ?thesis using rtranclp_trans[OF ab merge_event_steps] r p(3) by (simp add: heard_def)
  qed
qed

lemma Feedback_steps:
  "job_step\<^sup>*\<^sup>* (world (jdb s) cs) (world (jdb (snd (Feedback e job sn rating s))) (heard (FShadow e) sn cs))"
proof (cases "rating \<in> set Ratings \<and> DecideOptIn (FShadow e) = OptInAllowed")
  case False
  then have "jdb (snd (Feedback e job sn rating s)) = jdb s"
    by (auto simp: Feedback_def Let_def case_prod_beta)
  then show ?thesis using heard_steps by simp
next
  case True
  let ?m = "\<lparr>MJobID = job, MSN = sn, MRating = rating, MCreated = FNow e\<rparr>"
  let ?cs = "heard (FShadow e) sn cs"
  have h: "sn \<in> ?cs" using True by (simp add: heard_def)
  have a: "job_step\<^sup>*\<^sup>* (world (jdb s) cs) (world (jdb s) ?cs)" by (rule heard_steps)
  have "job_step\<^sup>*\<^sup>* (world (jdb s) ?cs) (world (snd (exec (FPending e) (stmt_pending ?m) (jdb s))) ?cs)"
    by (rule exec_step, rule job_step.waiting) (use h True in auto)
  with a have b: "job_step\<^sup>*\<^sup>* (world (jdb s) cs) (world (snd (exec (FPending e) (stmt_pending ?m) (jdb s))) ?cs)"
    by (rule rtranclp_trans)
  have "job_step\<^sup>*\<^sup>* (world (jdb s) ?cs) (world (snd (exec (FUpsert e) (stmt_feedback ?m) (jdb s))) ?cs)"
    by (rule exec_step, rule job_step.marked) (use h True in auto)
  with a have c: "job_step\<^sup>*\<^sup>* (world (jdb s) cs) (world (snd (exec (FUpsert e) (stmt_feedback ?m) (jdb s))) ?cs)"
    by (rule rtranclp_trans)
  have "jdb (snd (Feedback e job sn rating s)) \<in>
      {jdb s, snd (exec (FPending e) (stmt_pending ?m) (jdb s)), snd (exec (FUpsert e) (stmt_feedback ?m) (jdb s))}"
    by (auto simp: Feedback_def InsertPending_def UpsertFeedback_def case_prod_beta split: option.splits bool.splits)
  then show ?thesis using a b c by auto
qed

lemma purge_each_steps: "job_step\<^sup>*\<^sup>* (world (jdb s) cs) (world (jdb (snd (purge_each a sns n s))) cs)"
proof (induction sns arbitrary: n s)
  case (Cons sn sns)
  have "job_step\<^sup>*\<^sup>* (world (jdb s) cs) (world (snd (PurgeSN (a sn) sn (jdb s))) cs)"
    unfolding PurgeSN_def by (rule exec_step, rule job_step.purged)
  moreover obtain k s' where "purge_each a (sn # sns) n s = purge_each a sns k s'" "jdb s' = snd (PurgeSN (a sn) sn (jdb s))"
    by (cases "PurgeSN (a sn) sn (jdb s)"; cases "fst (PurgeSN (a sn) sn (jdb s))") auto
  ultimately show ?case using Cons.IH[of s' k] by (simp add: rtranclp_trans)
qed simp

lemma purge_bad_steps: "job_step\<^sup>*\<^sup>* (world (jdb (snd rs)) cs) (world (jdb (snd (purge_bad a sns rs))) cs)"
proof (induction sns arbitrary: rs)
  case (Cons sn sns)
  obtain rep s where rs: "rs = (rep, s)" by (cases rs)
  have "job_step\<^sup>*\<^sup>* (world (jdb s) cs) (world (snd (PurgeSN (a sn) sn (jdb s))) cs)"
    unfolding PurgeSN_def by (rule exec_step, rule job_step.purged)
  moreover obtain rs' where "purge_bad a (sn # sns) rs = purge_bad a sns rs'" "jdb (snd rs') = snd (PurgeSN (a sn) sn (jdb s))"
    by (cases "PurgeSN (a sn) sn (jdb s)"; cases "fst (PurgeSN (a sn) sn (jdb s))") (auto simp: rs)
  ultimately show ?case using Cons.IH[of rs'] by (simp add: rs rtranclp_trans)
qed simp

lemma jobs_steps_reach: "job_step\<^sup>*\<^sup>* w w' \<Longrightarrow> job_reach w \<Longrightarrow> job_reach w'"
  by (induction rule: rtranclp_induct) (auto intro: job_reach.step)

text \<open>Handling an event, taking a mark, a purge and a reconciliation are sequences of the steps, on every branch and with every answer of the database.\<close>

theorem job_operations_steps:
  "job_step\<^sup>*\<^sup>* (world (jdb s) cs) (world (jdb (snd (HandleEvent e env s))) (heard (EShadow e) (SN env) cs)) \<and>
   job_step\<^sup>*\<^sup>* (world (jdb s) cs) (world (jdb (snd (Feedback me job sn rating s))) (heard (FShadow me) sn cs)) \<and>
   job_step\<^sup>*\<^sup>* (world (jdb s) cs) (world (jdb (snd (PurgeOnce al a s))) cs) \<and>
   job_step\<^sup>*\<^sup>* (world (jdb s) cs) (world (jdb (snd (RunOnce al sh a s))) cs)"
proof (intro conjI HandleEvent_steps Feedback_steps)
  show "job_step\<^sup>*\<^sup>* (world (jdb s) cs) (world (jdb (snd (PurgeOnce al a s))) cs)"
    using purge_each_steps[of "jinc ''purge_runs'' s" cs a _ 0]
    by (auto simp: PurgeOnce_def Let_def case_prod_beta split: option.split)
  show "job_step\<^sup>*\<^sup>* (world (jdb s) cs) (world (jdb (snd (RunOnce al sh a s))) cs)"
  proof (cases "DistinctJobSNs al (jdb s)")
    case (Some sns)
    let ?rs = "purge_bad a (ViolatingSNs (read_states sh sns))"
    obtain rep s1 where "snd (RunOnce al sh a s) = snd (?rs (rep, s1))" "jdb s1 = jdb s"
      using Some by (simp add: RunOnce_def Let_def case_prod_beta)
    then show ?thesis using purge_bad_steps[of "(rep, s1)" cs a] by simp
  qed (simp add: RunOnce_def Let_def)
qed

subsection \<open>No data without consent\<close>

definition consent_kept :: "string set \<Rightarrow> JobDB \<Rightarrow> bool" where
  "consent_kept cs db \<longleftrightarrow> RSN ` set (records db) \<subseteq> cs \<and> MSN ` set (feedback db) \<subseteq> cs \<and> MSN ` set (pending db) \<subseteq> cs"

lemma jobs_ok_consent: "jobs_ok w \<Longrightarrow> consent_kept (consented w) (jw w)"
  by (auto simp: jobs_ok_def rows_ok_def consent_kept_def list_all_iff row_ok_def mark_ok_def)


definition demo_uuid :: string where "demo_uuid = ''01234567-89ab-cdef-0123-456789ABCDEF''"

definition demo_fields :: JobFields where
  "demo_fields = \<lparr>JobID = demo_uuid, MaterialID = ''M1'', ParamProfileID = [], ParamsHash = [], MaterialCodeID = []\<rparr>"

lemma demo_fields_ok: "ValidateJobFields demo_fields = None" "uuidRe demo_uuid" "idRe ''A''" "idRe ''B''"
  by code_simp+

definition demo_shadow :: shadow where "demo_shadow = Some [OptInField \<mapsto> ''1'']"

lemma demo_shadow_allowed: "DecideOptIn demo_shadow = OptInAllowed"
  by code_simp

lemma demo_jobs_reach: "\<exists>w. job_reach w \<and> jw w \<noteq> empty_jobs"
proof -
  have a: "job_reach (world empty_jobs {''A''})"
    using job_reach.step[OF job_reach.init job_step.consent[OF demo_shadow_allowed, of _ "''A''"]] by simp
  have "job_reach (world (snd (exec Done (stmt_start demo_fields ''A'' 5) empty_jobs)) {''A''})"
    using job_reach.step[OF a job_step.started[of "''A''" _ demo_fields Done 5]] demo_fields_ok by simp
  moreover have "snd (exec Done (stmt_start demo_fields ''A'' 5) empty_jobs) \<noteq> empty_jobs"
    by (simp add: exec_def took_def stmt_start_def empty_jobs_def)
  ultimately show ?thesis by fastforce
qed


end
