(* ===== verification/JobFlow.thy ===== *)
theory JobFlow
  imports JobSafety
begin

text \<open>
  What the operations of the job service achieve: a handled event has its record and takes the waiting mark along, a redelivered event
  changes nothing, a purge and a reconciliation delete exactly what they should, and two gaps the checks leave.
\<close>

subsection \<open>Handled events\<close>

lemma RecordStart_result:
  assumes "RecordStart a f sn at db = (Some new, db')"
  shows "JobID f \<in> set (map RJobID (records db'))" "pending db' = pending db" "feedback db' = feedback db"
    "keys_ok db \<Longrightarrow> keys_ok db'"
  using assms
  by (auto simp: RecordStart_def exec_def stmt_start_def list_ex_key keys_ok_def simp del: set_map split: if_splits option.splits prod.splits)

lemma affected_of_key: "distinct (map f xs) \<Longrightarrow> affected (\<lambda>x. f x = k) xs = (if k \<in> set (map f xs) then 1 else 0)"
  by (induction xs) (auto simp: affected_0_iff)

lemma stmt_finish_result:
  assumes "stmt_finish f at out db = Some (n, db')" "keys_ok db"
  shows "n = (if JobID f \<in> set (map RJobID (records db)) then 1 else 0)" "pending db' = pending db" "feedback db' = feedback db"
    "map RJobID (records db') = map RJobID (records db)" "keys_ok db'"
  using assms affected_of_key[of RJobID "records db" "JobID f"]
  by (auto simp: stmt_finish_def Let_def keys_ok_def map_update_where_frame simp del: set_map split: if_splits)

lemma RecordFinish_result:
  assumes "RecordFinish a1 a2 f sn at out db = (Some l, db')" "keys_ok db"
  shows "JobID f \<in> set (map RJobID (records db'))" "pending db' = pending db" "feedback db' = feedback db" "keys_ok db'"
proof -
  obtain n db1 where one: "stmt_finish f at out db = Some (n, db1)" "exec a1 (stmt_finish f at out) db = (Some n, db1)"
    using assms(1) by (auto simp: RecordFinish_def exec_def split: if_splits option.splits prod.splits)
  note r = stmt_finish_result[OF one(1) assms(2)]
  have "JobID f \<in> set (map RJobID (records db')) \<and> pending db' = pending db \<and> feedback db' = feedback db \<and> keys_ok db'"
  proof (cases "n = 1")
    case True
    have "db' = db1" using assms(1) one True by (simp add: RecordFinish_def)
    moreover have "JobID f \<in> set (map RJobID (records db))" using True r(1) by (metis zero_neq_one)
    ultimately show ?thesis using r(2-5) by simp
  next
    case False
    then have fresh: "JobID f \<notin> set (map RJobID (records db1))" using r by (auto split: if_splits)
    obtain k where "stmt_late f sn at out db1 = Some (k, db')"
      using assms(1) one False by (auto simp: RecordFinish_def exec_def split: if_splits option.splits prod.splits)
    then show ?thesis using fresh r(2,3,5) by (auto simp: stmt_late_def list_ex_key keys_ok_def simp del: set_map split: if_splits)
  qed
  then show "JobID f \<in> set (map RJobID (records db'))" "pending db' = pending db" "feedback db' = feedback db" "keys_ok db'"
    by simp_all
qed

definition merged_marks :: "string \<Rightarrow> JobDB \<Rightarrow> JobDB \<Rightarrow> bool" where
  "merged_marks job db db' \<longleftrightarrow> job \<in> set (map RJobID (records db')) \<and> job \<notin> set (map MJobID (pending db')) \<and>
     (\<forall>m\<in>set (pending db). MJobID m = job \<longrightarrow> (\<exists>x\<in>set (feedback db'). MJobID x = job \<and> MRating x = MRating m))"

lemma upsert_mark_has: "\<exists>x\<in>set (upsert_mark m ms). MJobID x = MJobID m \<and> MRating x = MRating m"
proof (cases "list_ex (\<lambda>x. MJobID x = MJobID m) ms")
  case True
  then obtain x where "x \<in> set ms" "MJobID x = MJobID m" by (auto simp: list_ex_iff)
  then have "x\<lparr>MRating := MRating m, MCreated := MCreated m\<rparr> \<in> set (upsert_mark m ms)"
    using True by (auto simp: upsert_mark_def set_update_where)
  then show ?thesis by (rule rev_bexI) (simp add: \<open>MJobID x = MJobID m\<close>)
qed (simp add: upsert_mark_def)

lemma find_key: "distinct (map f xs) \<Longrightarrow> x \<in> set xs \<Longrightarrow> find (\<lambda>y. f y = f x) xs = Some x"
  by (induction xs) auto

lemma MergePending_result:
  assumes "MergePending a job now db = (Some b, db')" "keys_ok db" "job \<in> set (map RJobID (records db))"
  shows "merged_marks job db db'"
proof -
  obtain n where tx: "tx_merge job now db = Some (n, db')"
    using assms(1) by (auto simp: MergePending_def exec_def split: if_splits option.splits prod.splits)
  show ?thesis
  proof (cases "find (\<lambda>m. MJobID m = job) (pending db)")
    case None
    then have "db' = db" using tx by (simp add: tx_merge_def)
    moreover have "\<forall>m\<in>set (pending db). MJobID m \<noteq> job" using None by (auto simp: find_None_iff)
    ultimately show ?thesis using assms(3) by (auto simp: merged_marks_def)
  next
    case (Some m)
    then have m: "m \<in> set (pending db)" "MJobID m = job" by (auto simp: find_Some_iff)
    have db': "db' = db\<lparr>feedback := upsert_mark (m\<lparr>MCreated := now\<rparr>) (feedback db),
        pending := filter (\<lambda>x. MJobID x \<noteq> job) (pending db)\<rparr>"
      using tx Some by (auto simp: tx_merge_def stmt_feedback_def split: if_splits)
    have "x = m" if "x \<in> set (pending db)" "MJobID x = job" for x
      using that m assms(2) by (metis find_key keys_ok_def option.inject)
    then show ?thesis
      using assms(3) m(2) upsert_mark_has[of "m\<lparr>MCreated := now\<rparr>" "feedback db"] by (auto simp: merged_marks_def db')
  qed
qed

definition stored_outcome :: "Outcome \<Rightarrow> bool" where
  "stored_outcome o' \<longleftrightarrow> o' \<in> {OutcomeStarted, OutcomeFinished, OutcomeDupStart}"

lemma HandleEvent_stored:
  assumes "HandleEvent e env s = (Some out, s')" "stored_outcome out"
  obtains p s1 s2 where "ParseEvent (EPayload env) = Some p" "IsJobCode (PCode p)" "ValidateJobFields (PFields p) = None"
    "jdb s1 = jdb s" "store_event e p (SN env) (event_time p env) s1 = (Some out, s2)"
    "merge_event e (JobID (PFields p)) out s2 = (Some out, s')"
proof -
  obtain p where p: "ParseEvent (EPayload env) = Some p" "IsJobCode (PCode p)" "DecideOptIn (EShadow e) = OptInAllowed"
      "ValidateJobFields (PFields p) = None"
    using assms by (cases "ParseEvent (EPayload env)"; cases "IsJobCode (PCode (the (ParseEvent (EPayload env))))";
        cases "DecideOptIn (EShadow e) = OptInAllowed"; cases "ValidateJobFields (PFields (the (ParseEvent (EPayload env))))")
      (auto simp: HandleEvent_def Let_def stored_outcome_def case_prod_beta)
  define s1 where "s1 = snd (optIn (EShadow e) (jinc ''consumed'' s))"
  obtain q s2 where st: "store_event e p (SN env) (event_time p env) s1 = (q, s2)" by (cases "store_event e p (SN env) (event_time p env) s1")
  then obtain o1 where q: "q = Some o1" using assms(1) p by (cases q) (auto simp: HandleEvent_def Let_def case_prod_beta s1_def)
  then have m: "merge_event e (JobID (PFields p)) o1 s2 = (Some out, s')"
    using assms(1) p st by (simp add: HandleEvent_def Let_def case_prod_beta s1_def)
  then have "o1 = out" by (auto simp: merge_event_def split: prod.splits option.splits)
  then show ?thesis using that[of p s1 s2] p st q m by (simp add: s1_def)
qed

lemma store_event_result:
  assumes "store_event e p sn at s = (Some out, s')" "keys_ok (jdb s)"
  shows "JobID (PFields p) \<in> set (map RJobID (records (jdb s')))" "pending (jdb s') = pending (jdb s)" "keys_ok (jdb s')"
proof -
  have "JobID (PFields p) \<in> set (map RJobID (records (jdb s'))) \<and> pending (jdb s') = pending (jdb s) \<and> keys_ok (jdb s')"
  proof (cases "PCode p = ''JOB_START''")
    case True
    obtain b where "RecordStart (EStart e) (PFields p) sn at (jdb s) = (Some b, jdb s')"
      using assms(1) True by (auto simp: store_event_def split: prod.splits option.splits bool.splits)
    from RecordStart_result[OF this] show ?thesis using assms(2) by simp
  next
    case False
    obtain b where "RecordFinish (EFinish e) (ELate e) (PFields p) sn at (OutcomeFor (PCode p)) (jdb s) = (Some b, jdb s')"
      using assms(1) False by (auto simp: store_event_def split: prod.splits option.splits)
    from RecordFinish_result[OF this assms(2)] show ?thesis by simp
  qed
  then show "JobID (PFields p) \<in> set (map RJobID (records (jdb s')))" "pending (jdb s') = pending (jdb s)" "keys_ok (jdb s')"
    by simp_all
qed

lemma merge_event_db:
  "merge_event e job o1 s = (Some o2, s') \<Longrightarrow> \<exists>b. MergePending (EMerge e) job (ENow e) (jdb s) = (Some b, jdb s')"
  by (auto simp: merge_event_def split: prod.splits option.splits)


definition demo_event :: "string \<Rightarrow> EventPayload option Envelope" where
  "demo_event c = \<lparr>PK = ''P'', SN = ''A'', Kind = ''event'', Seq = 1, RecvTs = 7,
     EPayload = Some \<lparr>PSeq = 1, PTs = 5, PCode = c, PFields = demo_fields\<rparr>\<rparr>"

definition demo_env :: JobEnv where
  "demo_env = \<lparr>EShadow = demo_shadow, EStart = Done, EFinish = Done, ELate = Done, EMerge = Done, ENow = 9\<rparr>"

definition demo_mark_env :: MarkEnv where
  "demo_mark_env = \<lparr>FShadow = demo_shadow, FLookup = Done, FPending = Done, FUpsert = Done, FNow = 6\<rparr>"

definition demo_jobs :: JobSvc where "demo_jobs = \<lparr>jdb = empty_jobs, jm = (\<lambda>_. 0)\<rparr>"

text \<open>A device's own mark, taken before the record is there.\<close>

definition marked_early :: "string \<Rightarrow> JobSvc" where
  "marked_early sn = snd (Feedback demo_mark_env demo_uuid sn ''good'' demo_jobs)"

lemmas demo_jobs_defs = demo_event_def demo_env_def demo_mark_env_def demo_jobs_def marked_early_def empty_jobs_def

lemmas job_eval = HandleEvent_def ParseEvent_def optIn_def demo_shadow_allowed demo_fields_ok IsJobCode_def store_event_def
  merge_event_def RecordStart_def RecordFinish_def MergePending_def exec_def took_def stmt_start_def stmt_finish_def stmt_late_def
  tx_merge_def stmt_feedback_def upsert_mark_def stmt_pending_def upsert_pending_def InsertPending_def UpsertFeedback_def
  RecordSN_def Feedback_def event_time_def jinc_def Let_def demo_fields_def Ratings_def nullif_def

lemma marked_early_db:
  "sn \<in> {''A'', ''B''} \<Longrightarrow>
   jdb (marked_early sn) = empty_jobs\<lparr>pending := [\<lparr>MJobID = demo_uuid, MSN = sn, MRating = ''good'', MCreated = 6\<rparr>]\<rparr>"
  by (auto simp: demo_jobs_defs job_eval)

definition marked_then_started :: "string \<Rightarrow> JobDB" where
  "marked_then_started sn = \<lparr>records = [\<lparr>RJobID = demo_uuid, RSN = ''A'', RMaterial = Some ''M1'', RProfile = None, RHash = None, RStarted = 5,
        RFinished = None, ROutcome = None, RDuration = None\<rparr>],
      feedback = [\<lparr>MJobID = demo_uuid, MSN = sn, MRating = ''good'', MCreated = 9\<rparr>], pending = [], desired = []\<rparr>"

lemma demo_event_handled:
  assumes "sn \<in> {''A'', ''B''}"
  obtains s' where "HandleEvent demo_env (demo_event ''JOB_START'') (marked_early sn) = (Some OutcomeStarted, s')"
    "jdb s' = marked_then_started sn"
proof -
  have v: "ValidateJobFields \<lparr>JobID = demo_uuid, MaterialID = ''M1'', ParamProfileID = [], ParamsHash = [], MaterialCodeID = []\<rparr> = None"
    using demo_fields_ok(1) by (simp add: demo_fields_def)
  have "length sn \<le> 32" using assms by auto
  then show ?thesis
    using that marked_early_db[OF assms] v
    by (simp add: job_eval demo_event_def demo_env_def empty_jobs_def OutcomeFor_def marked_then_started_def)
qed


subsection \<open>Redelivery\<close>

lemma update_where_same: "(\<And>r. r \<in> set rs \<Longrightarrow> Q r \<Longrightarrow> f r = r) \<Longrightarrow> update_where Q f rs = rs"
  by (induction rs) auto

definition finish_settled :: "JobFields \<Rightarrow> time \<Rightarrow> string \<Rightarrow> JobRecord list \<Rightarrow> bool" where
  "finish_settled f at out rs \<longleftrightarrow> JobID f \<in> set (map RJobID rs) \<and>
     (\<forall>r\<in>set rs. RJobID r = JobID f \<longrightarrow> RFinished r = Some at \<and> ROutcome r = Some out \<and>
        RDuration r = Some (duration_s (RStarted r) at) \<and> duration_s (RStarted r) at \<le> max_int32)"

lemma stmt_finish_settled:
  assumes "finish_settled f at out (records db)" "keys_ok db"
  shows "stmt_finish f at out db = Some (1, db)"
proof -
  have "update_where (\<lambda>r. RJobID r = JobID f)
      (\<lambda>r. r\<lparr>RFinished := Some at, ROutcome := Some out, RDuration := Some (duration_s (RStarted r) at)\<rparr>) (records db) = records db"
    by (rule update_where_same) (use assms(1) in \<open>auto simp: finish_settled_def\<close>)
  moreover have "affected (\<lambda>r. RJobID r = JobID f) (records db) = 1"
    using assms affected_of_key[of RJobID "records db" "JobID f"] by (simp add: finish_settled_def keys_ok_def)
  moreover have "\<not> list_ex (\<lambda>r. RJobID r = JobID f \<and> max_int32 < duration_s (RStarted r) at) (records db)"
    using assms(1) by (auto simp: finish_settled_def list_ex_iff)
  ultimately show ?thesis by (simp add: stmt_finish_def)
qed

lemma duration_s_0 [simp]: "duration_s t t = 0"
  by (simp add: duration_s_def)

lemma RecordFinish_settles:
  assumes "RecordFinish a1 a2 f sn at out db = (Some l, db')" "keys_ok db"
  shows "finish_settled f at out (records db')"
proof -
  let ?hit = "\<lambda>r. RJobID r = JobID f"
  let ?upd = "\<lambda>r. r\<lparr>RFinished := Some at, ROutcome := Some out, RDuration := Some (duration_s (RStarted r) at)\<rparr>"
  obtain n db1 where one: "stmt_finish f at out db = Some (n, db1)" "exec a1 (stmt_finish f at out) db = (Some n, db1)"
    using assms(1) by (auto simp: RecordFinish_def exec_def split: if_splits option.splits prod.splits)
  note r = stmt_finish_result[OF one(1) assms(2)]
  have d: "records db1 = update_where ?hit ?upd (records db)"
    and small: "\<forall>r\<in>set (records db). ?hit r \<longrightarrow> duration_s (RStarted r) at \<le> max_int32"
    using one(1) by (auto simp: stmt_finish_def Let_def list_ex_iff split: if_splits)
  show ?thesis
  proof (cases "JobID f \<in> set (map RJobID (records db))")
    case True
    then have "db' = db1" using assms(1) one r(1) by (simp add: RecordFinish_def)
    moreover have "\<forall>r\<in>set (records db1). ?hit r \<longrightarrow> RFinished r = Some at \<and> ROutcome r = Some out \<and>
        RDuration r = Some (duration_s (RStarted r) at) \<and> duration_s (RStarted r) at \<le> max_int32"
      unfolding d ball_update_where using small by simp
    ultimately show ?thesis using True r(4) by (simp add: finish_settled_def del: set_map)
  next
    case False
    then have "JobID f \<notin> set (map RJobID (records db1))" using r(4) by simp
    then have fresh: "\<forall>r\<in>set (records db1). RJobID r \<noteq> JobID f" by (auto simp: image_iff)
    obtain k where "stmt_late f sn at out db1 = Some (k, db')"
      using assms(1) one r(1) False by (auto simp: RecordFinish_def exec_def split: if_splits option.splits prod.splits)
    then have "\<exists>r. records db' = records db1 @ [r] \<and> RJobID r = JobID f \<and> RFinished r = Some at \<and> ROutcome r = Some out \<and>
        RDuration r = Some 0 \<and> RStarted r = at"
      using fresh by (auto simp: stmt_late_def list_ex_iff split: if_splits)
    then show ?thesis using fresh by (auto simp: finish_settled_def)
  qed
qed

definition event_settled :: "EventPayload \<Rightarrow> time \<Rightarrow> JobDB \<Rightarrow> bool" where
  "event_settled p at db \<longleftrightarrow> JobID (PFields p) \<in> set (map RJobID (records db)) \<and> JobID (PFields p) \<notin> set (map MJobID (pending db)) \<and>
     (PCode p \<noteq> ''JOB_START'' \<longrightarrow> finish_settled (PFields p) at (OutcomeFor (PCode p)) (records db))"

lemma store_event_settled:
  assumes "event_settled p at (jdb s)" "keys_ok (jdb s)"
  shows "jdb (snd (store_event e p sn at s)) = jdb s"
proof (cases "PCode p = ''JOB_START''")
  case True
  have "stmt_start (PFields p) sn at (jdb s) = None \<or> stmt_start (PFields p) sn at (jdb s) = Some (0, jdb s)"
    using assms(1) by (simp add: stmt_start_def list_ex_key event_settled_def)
  then have "snd (exec (EStart e) (stmt_start (PFields p) sn at) (jdb s)) = jdb s"
    by (auto simp: exec_def)
  then show ?thesis
    by (auto simp: store_event_def True RecordStart_def split: prod.splits option.splits bool.splits)
next
  case False
  have "stmt_finish (PFields p) at (OutcomeFor (PCode p)) (jdb s) = Some (1, jdb s)"
    using assms False by (intro stmt_finish_settled) (auto simp: event_settled_def)
  then have "snd (RecordFinish (EFinish e) (ELate e) (PFields p) sn at (OutcomeFor (PCode p)) (jdb s)) = jdb s"
    by (simp add: RecordFinish_def exec_same split: option.split)
  then show ?thesis
    by (auto simp: store_event_def False split: prod.splits option.splits)
qed

lemma merge_event_settled:
  assumes "job \<notin> set (map MJobID (pending (jdb s)))"
  shows "jdb (snd (merge_event e job out s)) = jdb s"
proof -
  have "find (\<lambda>m. MJobID m = job) (pending (jdb s)) = None" using assms by (auto simp: find_None_iff)
  then have "tx_merge job (ENow e) (jdb s) = Some (0, jdb s)" by (simp add: tx_merge_def)
  then show ?thesis by (simp add: merge_event_def MergePending_def exec_same)
qed

lemma HandleEvent_settled:
  assumes "ParseEvent (EPayload env) = Some p" "event_settled p (event_time p env) (jdb s)" "keys_ok (jdb s)"
  shows "jdb (snd (HandleEvent e env s)) = jdb s"
proof -
  let ?s1 = "snd (optIn (EShadow e) (jinc ''consumed'' s))"
  have st: "jdb (snd (store_event e p (SN env) (event_time p env) ?s1)) = jdb s"
    using store_event_settled[of p "event_time p env" ?s1] assms by simp
  have "jdb (snd (merge_event e (JobID (PFields p)) out (snd (store_event e p (SN env) (event_time p env) ?s1)))) = jdb s" for out
    using merge_event_settled[of "JobID (PFields p)" "snd (store_event e p (SN env) (event_time p env) ?s1)"] st assms(2)
    by (simp add: event_settled_def)
  then show ?thesis
    using assms(1) st by (auto simp: HandleEvent_def Let_def case_prod_beta split: option.split)
qed

lemma tx_merge_keeps:
  assumes "tx_merge job now db = Some (n, db')"
  shows "records db' = records db" "keys_ok db \<Longrightarrow> keys_ok db'"
  using assms by (auto simp: tx_merge_def keys_ok_def stmt_feedback_def list_ex_key upsert_mark_keys distinct_map_filter
      simp del: set_map split: option.splits if_splits)

lemma HandleEvent_settles:
  assumes "HandleEvent e env s = (Some out, s')" "stored_outcome out" "keys_ok (jdb s)"
  obtains p where "ParseEvent (EPayload env) = Some p" "event_settled p (event_time p env) (jdb s')" "keys_ok (jdb s')"
proof -
  obtain p s1 s2 where p: "ParseEvent (EPayload env) = Some p" and st: "jdb s1 = jdb s"
      "store_event e p (SN env) (event_time p env) s1 = (Some out, s2)" "merge_event e (JobID (PFields p)) out s2 = (Some out, s')"
    using HandleEvent_stored[OF assms(1,2)] by metis
  have k1: "keys_ok (jdb s1)" using st(1) assms(3) by simp
  note r = store_event_result[OF st(2) k1]
  obtain b where m: "MergePending (EMerge e) (JobID (PFields p)) (ENow e) (jdb s2) = (Some b, jdb s')"
    using merge_event_db[OF st(3)] by blast
  then obtain n where tx: "tx_merge (JobID (PFields p)) (ENow e) (jdb s2) = Some (n, jdb s')"
    by (auto simp: MergePending_def exec_def split: if_splits option.splits prod.splits)
  have recs: "records (jdb s') = records (jdb s2)" using tx_merge_keeps(1)[OF tx] .
  have fin: "finish_settled (PFields p) (event_time p env) (OutcomeFor (PCode p)) (records (jdb s2))" if "PCode p \<noteq> ''JOB_START''"
    using st(2) that RecordFinish_settles[OF _ k1] by (auto simp: store_event_def split: prod.splits option.splits)
  have "merged_marks (JobID (PFields p)) (jdb s2) (jdb s')" using MergePending_result[OF m r(3) r(1)] .
  then have "event_settled p (event_time p env) (jdb s')"
    using recs fin by (auto simp: event_settled_def merged_marks_def)
  moreover have "keys_ok (jdb s')"
    using tx_merge_keeps(2)[OF tx r(3)] .
  ultimately show ?thesis using that p by blast
qed

text \<open>
  Delivering an event once more after it was stored and acknowledged changes no table, whatever its shadow
  and the database say the second time: at-least-once delivery is harmless.
\<close>

theorem redelivery_harmless:
  assumes "HandleEvent e env s = (Some out, s')" "stored_outcome out" "keys_ok (jdb s)"
  shows "jdb (snd (HandleEvent e' env s')) = jdb s'"
proof -
  obtain p where "ParseEvent (EPayload env) = Some p" "event_settled p (event_time p env) (jdb s')" "keys_ok (jdb s')"
    by (rule HandleEvent_settles[OF assms])
  then show ?thesis by (rule HandleEvent_settled)
qed

theorem redelivery_harmless_witness:
  "\<exists>s' :: JobSvc. records (jdb s') \<noteq> [] \<and> jdb (snd (HandleEvent demo_env (demo_event ''JOB_START'') s')) = jdb s'"
proof -
  obtain s' where h: "HandleEvent demo_env (demo_event ''JOB_START'') (marked_early ''A'') = (Some OutcomeStarted, s')"
      "jdb s' = marked_then_started ''A''"
    by (rule demo_event_handled[of "''A''"]) simp
  have "records (jdb s') \<noteq> []" by (simp add: h(2) marked_then_started_def)
  have "stored_outcome OutcomeStarted" "keys_ok (jdb (marked_early ''A''))"
    by (simp_all add: stored_outcome_def marked_early_db keys_ok_def empty_jobs_def)
  from redelivery_harmless[OF h(1) this, of demo_env] \<open>records (jdb s') \<noteq> []\<close> show ?thesis by blast
qed

subsection \<open>Deletion\<close>

definition purged_all :: "(string \<Rightarrow> bool) \<Rightarrow> JobDB \<Rightarrow> JobDB" where
  "purged_all P db = db\<lparr>records := filter (\<lambda>r. \<not> P (RSN r)) (records db),
     feedback := filter (\<lambda>m. \<forall>r\<in>set (records db). RJobID r = MJobID m \<longrightarrow> \<not> P (RSN r)) (feedback db),
     pending := filter (\<lambda>m. \<not> P (MSN m)) (pending db)\<rparr>"

lemma purged_all_none [simp]: "purged_all (\<lambda>sn. False) db = db"
  by (simp add: purged_all_def)

lemma purged_all_twice: "purged_all P (purged_all Q db) = purged_all (\<lambda>sn. Q sn \<or> P sn) db"
  by (rule JobDB.equality) (auto simp: purged_all_def intro!: filter_cong)

lemma PurgeSN_db: "snd (PurgeSN a sn db) = purged_all (\<lambda>x. x = sn \<and> took a) db"
proof (cases "took a")
  case True
  show ?thesis
    by (rule JobDB.equality) (auto simp: True PurgeSN_def exec_def tx_purge_def Let_def purged_all_def image_iff intro!: filter_cong)
qed (simp add: PurgeSN_def exec_def)

lemma purged_all_cong: "(\<And>sn. P sn = Q sn) \<Longrightarrow> purged_all P db = purged_all Q db"
  by (simp add: purged_all_def)

lemma purge_each_db: "jdb (snd (purge_each a sns n s)) = purged_all (\<lambda>sn. sn \<in> set sns \<and> took (a sn)) (jdb s)"
proof (induction sns arbitrary: n s)
  case (Cons sn sns)
  obtain k s' where "purge_each a (sn # sns) n s = purge_each a sns k s'" "jdb s' = snd (PurgeSN (a sn) sn (jdb s))"
    by (cases "PurgeSN (a sn) sn (jdb s)"; cases "fst (PurgeSN (a sn) sn (jdb s))") auto
  then show ?case using Cons.IH[of k s'] by (auto simp: PurgeSN_db purged_all_twice intro!: purged_all_cong)
qed simp

lemma purge_bad_db: "jdb (snd (purge_bad a sns (rep, s))) = purged_all (\<lambda>sn. sn \<in> set sns \<and> took (a sn)) (jdb s)"
proof (induction sns arbitrary: rep s)
  case (Cons sn sns)
  obtain rep' s' where "purge_bad a (sn # sns) (rep, s) = purge_bad a sns (rep', s')" "jdb s' = snd (PurgeSN (a sn) sn (jdb s))"
    by (cases "PurgeSN (a sn) sn (jdb s)"; cases "fst (PurgeSN (a sn) sn (jdb s))") auto
  then show ?case using Cons.IH[of rep' s'] by (auto simp: PurgeSN_db purged_all_twice intro!: purged_all_cong)
qed simp

lemma purge_bad_counts: "Scanned (fst (purge_bad a sns rs)) = Scanned (fst rs) \<and> Violations (fst (purge_bad a sns rs)) = Violations (fst rs)"
proof (induction sns arbitrary: rs)
  case (Cons sn sns)
  then show ?case by (cases rs; cases "PurgeSN (a sn) sn (jdb (snd rs))"; cases "fst (PurgeSN (a sn) sn (jdb (snd rs)))") auto
qed simp

definition without_consent :: "shadow \<Rightarrow> bool" where
  "without_consent sh \<longleftrightarrow> DecideOptIn sh \<in> {OptInFalse, OptInMissing}"

lemma set_ViolatingSNs: "set (ViolatingSNs (read_states sh sns)) = {sn \<in> set sns. without_consent (sh sn)}"
  by (auto simp: ViolatingSNs_def read_states_def without_consent_def image_iff)

lemma length_ViolatingSNs: "distinct sns \<Longrightarrow> length (ViolatingSNs (read_states sh sns)) = card {sn \<in> set sns. without_consent (sh sn)}"
proof (induction sns)
  case (Cons sn sns)
  have "{x \<in> set (sn # sns). without_consent (sh x)} =
      (if without_consent (sh sn) then insert sn {x \<in> set sns. without_consent (sh x)} else {x \<in> set sns. without_consent (sh x)})"
    by auto
  with Cons show ?case by (cases "DecideOptIn (sh sn)") (auto simp: ViolatingSNs_def read_states_def without_consent_def)
qed (simp add: ViolatingSNs_def read_states_def)


definition demo_row :: "string \<Rightarrow> string \<Rightarrow> JobRecord" where
  "demo_row i sn = \<lparr>RJobID = i, RSN = sn, RMaterial = None, RProfile = None, RHash = None, RStarted = 0, RFinished = None,
     ROutcome = None, RDuration = None\<rparr>"

definition demo_rows :: JobDB where
  "demo_rows = empty_jobs\<lparr>records := [demo_row ''1'' ''A'', demo_row ''2'' ''B'', demo_row ''3'' ''C'']\<rparr>"

definition demo_shadows :: "string \<Rightarrow> shadow" where
  "demo_shadows sn = (if sn = ''A'' then demo_shadow else if sn = ''B'' then Some Map.empty else None)"

lemma demo_shadows_consent: "without_consent (demo_shadows sn) \<longleftrightarrow> sn = ''B''"
  using demo_shadow_allowed by (auto simp: demo_shadows_def without_consent_def DecideOptIn_def)

lemma RunOnce_runs: "\<exists>rep s'. RunOnce Done sh a s = (Some rep, s')"
  by (simp add: RunOnce_def Let_def DistinctJobSNs_def case_prod_beta)

lemma demo_rows_purged:
  "records (purged_all (\<lambda>sn. sn \<in> RSN ` set (records demo_rows) \<and> without_consent (demo_shadows sn) \<and> took Done) demo_rows) =
   [demo_row ''1'' ''A'', demo_row ''3'' ''C'']"
  by (simp add: purged_all_def demo_rows_def demo_row_def demo_shadows_consent took_def)


text \<open>A purge deletes the data of the devices whose desired document says \<open>false\<close>.\<close>

theorem purge_round_exact:
  assumes "PurgeOnce al a s = (Some n, s')"
  shows "jdb s' = purged_all (\<lambda>sn. (\<exists>d. (sn, d) \<in> set (desired (jdb s)) \<and> opted_out d) \<and> took (a sn)) (jdb s)"
proof -
  have al: "OptedOutSNs al (jdb s) = Some (map fst (filter (\<lambda>(sn, d). opted_out d) (desired (jdb s))))"
    using assms by (auto simp: PurgeOnce_def Let_def OptedOutSNs_def split: if_splits)
  then have "jdb s' = jdb (snd (purge_each a (map fst (filter (\<lambda>(sn, d). opted_out d) (desired (jdb s)))) 0 (jinc ''purge_runs'' s)))"
    using assms by (auto simp: PurgeOnce_def Let_def case_prod_beta)
  then show ?thesis
    unfolding purge_each_db by (auto intro!: purged_all_cong simp: image_iff)
qed

subsection \<open>Gaps\<close>

text \<open>
  The check that a mark comes from the device that ran the job is made only when the record is there already. A mark of another
  consenting device waits, is merged with the record, and stays when that other device withdraws its consent and is purged.
\<close>

theorem foreign_mark_outlives_purge:
  "\<exists>s'. HandleEvent demo_env (demo_event ''JOB_START'') (marked_early ''B'') = (Some OutcomeStarted, s') \<and>
     map RSN (records (jdb s')) = [''A''] \<and> map MSN (feedback (jdb s')) = [''B''] \<and>
     map MSN (feedback (snd (PurgeSN Done ''B'' (jdb s')))) = [''B'']"
proof -
  obtain s' where "HandleEvent demo_env (demo_event ''JOB_START'') (marked_early ''B'') = (Some OutcomeStarted, s')"
      "jdb s' = marked_then_started ''B''"
    by (rule demo_event_handled[of "''B''"]) simp
  then show ?thesis by (simp add: PurgeSN_db purged_all_def marked_then_started_def took_def)
qed

text \<open>Where the record is there, the check holds: nothing is written for another device.\<close>

theorem mark_needs_owner:
  assumes "Feedback e job sn rating s = (Inr FeedbackStored, s')" "keys_ok (jdb s)"
  shows "\<exists>r\<in>set (records (jdb s)). RJobID r = job \<and> RSN r = sn"
proof -
  have "RecordSN (FLookup e) job (jdb s) = Some (Some sn)"
    using assms(1) by (auto simp: Feedback_def case_prod_beta split: if_splits option.splits bool.splits)
  then show ?thesis by (auto simp: RecordSN_def find_Some_iff split: if_splits)
qed

text \<open>
  The deletion asks the database for the text \<open>false\<close>; \<open>NeedPurge\<close>, which the tests check and nothing calls, also
  takes \<open>"0"\<close>, \<open>"no"\<close>, \<open>"False"\<close> and the empty string for a withdrawal.
\<close>

theorem purge_misses_withdrawals:
  "(opted_out d \<longrightarrow> NeedPurge d) \<and> NeedPurge [OptInField \<mapsto> DStr ''0''] \<and> \<not> opted_out [OptInField \<mapsto> DStr ''0'']"
proof -
  have f: "ParseBool ''false'' = Some False" "ParseBool ''0'' = Some False" by code_simp+
  have "opted_out d \<longrightarrow> NeedPurge d"
    using f(1) by (auto simp: opted_out_def NeedPurge_def split: option.splits dval.splits)
  then show ?thesis using f(2) by (simp add: opted_out_def NeedPurge_def)
qed

text \<open>
  An event whose time lies more than \<open>2\<^sup>31\<close> seconds after the start of its job is refused by the database each time and
  given back each time; the consumer sets no limit on deliveries.
\<close>

theorem late_event_never_settles:
  assumes "DecideOptIn (EShadow e) = OptInAllowed" "ParseEvent (EPayload env) = Some p" "ValidateJobFields (PFields p) = None"
    "PCode p \<in> {''JOB_DONE'', ''JOB_FAIL'', ''JOB_PAUSE''}" "r \<in> set (records (jdb s))" "RJobID r = JobID (PFields p)"
    "max_int32 < duration_s (RStarted r) (event_time p env)"
  shows "fst (consume_event e (Some env) s) = MsgNak 2 \<and> jdb (snd (consume_event e (Some env) s)) = jdb s"
proof -
  have "list_ex (\<lambda>r. RJobID r = JobID (PFields p) \<and> max_int32 < duration_s (RStarted r) (event_time p env)) (records (jdb s))"
    using assms(5-7) by (auto simp: list_ex_iff)
  then have "exec a (stmt_finish (PFields p) (event_time p env) out) (jdb s) = (None, jdb s)" for a out
    by (simp add: exec_def stmt_finish_def Let_def)
  then have "RecordFinish (EFinish e) (ELate e) (PFields p) (SN env) (event_time p env) (OutcomeFor (PCode p)) (jdb s) = (None, jdb s)"
    by (simp add: RecordFinish_def)
  moreover have "PCode p \<noteq> ''JOB_START''" "IsJobCode (PCode p)" using assms(4) by (auto simp: IsJobCode_def)
  ultimately have "fst (HandleEvent e env s) = None \<and> jdb (snd (HandleEvent e env s)) = jdb s"
    using assms(1-3) by (simp add: HandleEvent_def Let_def case_prod_beta store_event_def split: option.split)
  then show ?thesis by (simp add: consume_event_def case_prod_beta split: option.split)
qed

theorem late_event_never_settles_witness:
  "\<exists>(s :: JobSvc) env. records (jdb s) = [demo_row demo_uuid ''A''] \<and> fst (consume_event demo_env (Some env) s) = MsgNak 2"
proof -
  let ?s = "\<lparr>jdb = empty_jobs\<lparr>records := [demo_row demo_uuid ''A'']\<rparr>, jm = (\<lambda>_. 0)\<rparr>"
  let ?p = "\<lparr>PSeq = 1, PTs = 2147483648000, PCode = ''JOB_DONE'', PFields = demo_fields\<rparr>"
  let ?env = "(demo_event [])\<lparr>EPayload := Some ?p\<rparr>"
  have "fst (consume_event demo_env (Some ?env) ?s) = MsgNak 2 \<and> jdb (snd (consume_event demo_env (Some ?env) ?s)) = jdb ?s"
    by (rule late_event_never_settles[where p = ?p and r = "demo_row demo_uuid ''A''"])
      (simp_all add: demo_env_def demo_shadow_allowed ParseEvent_def demo_fields_ok demo_fields_ok(1)[unfolded demo_fields_def] demo_row_def demo_fields_def duration_s_def event_time_def)
  then show ?thesis by (intro exI[of _ ?s] exI[of _ ?env]) simp
qed

text \<open>
  A mark whose look-up found no record can be written after the record came and its last event was merged: it then waits
  beside its record.
\<close>

theorem mark_can_be_stranded:
  "\<exists>w :: JobWorld. job_reach w \<and> (\<exists>m\<in>set (pending (jw w)). MJobID m \<in> RJobID ` set (records (jw w)))"
proof -
  let ?m = "\<lparr>MJobID = demo_uuid, MSN = ''A'', MRating = ''good'', MCreated = 6\<rparr>"
  let ?db = "snd (exec Done (stmt_start demo_fields ''A'' 5) empty_jobs)"
  have a: "job_reach (world empty_jobs {''A''})"
    using job_reach.step[OF job_reach.init job_step.consent[OF demo_shadow_allowed, of _ "''A''"]] by simp
  have b: "job_reach (world ?db {''A''})"
    using job_reach.step[OF a job_step.started[of "''A''" _ demo_fields Done 5]] demo_fields_ok by simp
  have c: "job_reach (world (snd (exec Done (stmt_pending ?m) ?db)) {''A''})"
    using job_reach.step[OF b job_step.waiting[of ?m _ Done]] by (simp add: Ratings_def)
  show ?thesis
    by (rule exI, rule conjI, rule c)
      (simp add: exec_def took_def stmt_start_def stmt_pending_def upsert_pending_def empty_jobs_def demo_fields_def)
qed

end
