(* ===== verification/Binary64.thy ===== *)
theory Binary64
  imports Float64 GoStrings "HOL-Library.Log_Nat"
begin

text \<open>
  Go's \<open>float64\<close> outside the unit interval: finite values as the rationals they are, the two infinities and the values that are
  not numbers, with the operations the services use. Every result is rounded to 53 bits, ties to even, with the subnormal grid
  below and overflow above. The two zeros are one (nothing here divides by a negative zero), and products and
  sums are rounded one by one, as on amd64. \<open>Float64\<close> is the same rounding on the unit interval.
\<close>

subsection \<open>The exponent\<close>

definition log2 :: "rat \<Rightarrow> int" where
  "log2 x = (if x < 1 then - int (scale x) else bitlen \<lfloor>x\<rfloor> - 1)"

lemma log2_bounds:
  assumes "0 < x"
  shows "2 powi log2 x \<le> x" "x < 2 powi (log2 x + 1)"
proof -
  have "2 powi log2 x \<le> x \<and> x < 2 powi (log2 x + 1)"
  proof (cases "x < 1")
    case True
    have "1 \<le> x * 2 ^ scale x" "x * 2 ^ scale x < 2" using scale_range[of x] True assms by auto
    then have "1 / 2 ^ scale x \<le> x" "x < 2 * (1 / 2 ^ scale x)" by (simp_all add: field_simps)
    moreover have "(2 :: rat) powi (log2 x + 1) = 2 * 2 powi log2 x" by (simp add: power_int_add_1')
    moreover have "(2 :: rat) powi log2 x = 1 / 2 ^ scale x" using True by (simp add: log2_def power_int_minus field_simps)
    ultimately show ?thesis by simp
  next
    case False
    have f: "0 < \<lfloor>x\<rfloor>" using False by (simp add: less_floor_iff)
    have b: "2 ^ nat (bitlen \<lfloor>x\<rfloor> - 1) \<le> \<lfloor>x\<rfloor>" "\<lfloor>x\<rfloor> < 2 ^ nat (bitlen \<lfloor>x\<rfloor>)" using bitlen_bounds[OF f] by auto
    have p: "0 < bitlen \<lfloor>x\<rfloor>" using f by (metis bitlen_eq_zero_iff bitlen_nonneg le_less linorder_not_le)
    have "2 powi log2 x = (of_int (2 ^ nat (bitlen \<lfloor>x\<rfloor> - 1)) :: rat)" "2 powi (log2 x + 1) = (of_int (2 ^ nat (bitlen \<lfloor>x\<rfloor>)) :: rat)"
      using False p by (simp_all add: log2_def power_int_def)
    moreover have "of_int (2 ^ nat (bitlen \<lfloor>x\<rfloor> - 1)) \<le> x" using b(1) by (simp only: le_floor_iff)
    moreover have "x < of_int (2 ^ nat (bitlen \<lfloor>x\<rfloor>))" using b(2) by (simp only: floor_less_iff)
    ultimately show ?thesis by simp
  qed
  then show "2 powi log2 x \<le> x" "x < 2 powi (log2 x + 1)" by auto
qed

lemma two_powi_le: "(2 :: rat) powi a \<le> 2 powi b \<longleftrightarrow> a \<le> b"
  using power_int_increasing[of a b "2 :: rat"] power_int_strict_increasing[of b a "2 :: rat"] by (cases "a \<le> b") auto

lemma two_powi_less: "(2 :: rat) powi a < 2 powi b \<longleftrightarrow> a < b"
  using two_powi_le[of b a] by (simp add: not_le[symmetric])

lemma two_powi_pos [simp]: "(0 :: rat) < 2 powi a"
  by simp

lemma log2_unique:
  assumes "2 powi k \<le> x" "x < 2 powi (k + 1)"
  shows "log2 x = k"
proof -
  have x: "0 < x" using assms(1) two_powi_pos[of k] by linarith
  have "2 powi k < (2 :: rat) powi (log2 x + 1)" "2 powi log2 x < (2 :: rat) powi (k + 1)"
    using log2_bounds[OF x] assms by linarith+
  then show ?thesis unfolding two_powi_less by linarith
qed

lemma log2_mono:
  assumes "0 < x" "x \<le> y"
  shows "log2 x \<le> log2 y"
proof -
  have "2 powi log2 x < (2 :: rat) powi (log2 y + 1)" using log2_bounds[of x] log2_bounds[of y] assms by linarith
  then show ?thesis unfolding two_powi_less by linarith
qed

subsection \<open>Rounding\<close>

definition ulp_exp :: "rat \<Rightarrow> int" where
  "ulp_exp x = max (log2 x - 52) (- 1074)"

definition rnd_pos :: "rat \<Rightarrow> rat" where
  "rnd_pos x = (if x \<le> 0 then 0 else of_int (round_even (x / 2 powi ulp_exp x)) * 2 powi ulp_exp x)"

definition rnd :: "rat \<Rightarrow> rat" where
  "rnd x = (if x < 0 then - rnd_pos (- x) else rnd_pos x)"

lemma rnd_pos_nonneg: "0 \<le> rnd_pos x"
proof (cases "0 < x")
  case True
  then have "0 \<le> round_even (x / 2 powi ulp_exp x)" by (intro round_even_ge) simp
  then show ?thesis using True by (simp add: rnd_pos_def)
qed (simp add: rnd_pos_def)

text \<open>A power of two on the grid is not crossed.\<close>

lemma rnd_pos_le_pow:
  assumes "0 < x" "x \<le> 2 powi k" "ulp_exp x \<le> k"
  shows "rnd_pos x \<le> 2 powi k"
proof -
  let ?u = "ulp_exp x"
  have "x / 2 powi ?u \<le> 2 powi k / 2 powi ?u" using assms(2) by (intro divide_right_mono) auto
  also have "\<dots> = 2 powi (k - ?u)" by (simp add: power_int_diff)
  also have "\<dots> = of_int (2 ^ nat (k - ?u))" using assms(3) by (simp add: power_int_def)
  finally have "round_even (x / 2 powi ?u) \<le> 2 ^ nat (k - ?u)" by (rule round_even_le)
  then have "(of_int (round_even (x / 2 powi ?u)) :: rat) \<le> of_int (2 ^ nat (k - ?u))" by (simp only: of_int_le_iff)
  also have "\<dots> = 2 powi (k - ?u)" using assms(3) by (simp add: power_int_def)
  finally have "of_int (round_even (x / 2 powi ?u)) * 2 powi ?u \<le> 2 powi (k - ?u) * (2 :: rat) powi ?u"
    by (intro mult_right_mono) auto
  also have "\<dots> = 2 powi k" by (simp add: power_int_add[symmetric])
  finally show ?thesis using assms(1) by (simp add: rnd_pos_def)
qed

lemma rnd_pos_ge_pow:
  assumes "2 powi k \<le> x" "ulp_exp x \<le> k"
  shows "2 powi k \<le> rnd_pos x"
proof -
  let ?u = "ulp_exp x"
  have x: "0 < x" using assms(1) two_powi_pos[of k] by linarith
  have "(of_int (2 ^ nat (k - ?u)) :: rat) = 2 powi (k - ?u)" using assms(2) by (simp add: power_int_def)
  also have "\<dots> = 2 powi k / 2 powi ?u" by (simp add: power_int_diff)
  also have "\<dots> \<le> x / 2 powi ?u" using assms(1) by (intro divide_right_mono) auto
  finally have "2 ^ nat (k - ?u) \<le> round_even (x / 2 powi ?u)" by (rule round_even_ge)
  then have "(of_int (2 ^ nat (k - ?u)) :: rat) \<le> of_int (round_even (x / 2 powi ?u))" by (simp only: of_int_le_iff)
  then have "2 powi (k - ?u) \<le> (of_int (round_even (x / 2 powi ?u)) :: rat)" using assms(2) by (simp add: power_int_def)
  then have "2 powi (k - ?u) * (2 :: rat) powi ?u \<le> of_int (round_even (x / 2 powi ?u)) * 2 powi ?u"
    by (intro mult_right_mono) auto
  moreover have "2 powi (k - ?u) * (2 :: rat) powi ?u = 2 powi k" by (simp add: power_int_add[symmetric])
  ultimately show ?thesis using x by (simp add: rnd_pos_def)
qed

lemma rnd_pos_mono:
  assumes "x \<le> y"
  shows "rnd_pos x \<le> rnd_pos y"
proof (cases "0 < x")
  case False
  then show ?thesis using rnd_pos_nonneg[of y] by (simp add: rnd_pos_def)
next
  case True
  have l: "log2 x \<le> log2 y" using log2_mono[OF True assms] .
  show ?thesis
  proof (cases "ulp_exp x = ulp_exp y")
    case same: True
    have "x / 2 powi ulp_exp y \<le> y / 2 powi ulp_exp y" using assms by (intro divide_right_mono) auto
    then have "round_even (x / 2 powi ulp_exp y) \<le> round_even (y / 2 powi ulp_exp y)" by (rule round_even_mono)
    then show ?thesis using True assms same by (simp add: rnd_pos_def mult_right_mono)
  next
    case False
    then have u: "ulp_exp x < ulp_exp y" and y: "ulp_exp y = log2 y - 52" "log2 x < log2 y"
      using l by (auto simp: ulp_exp_def max_def split: if_splits)
    have "2 powi log2 y \<le> rnd_pos y" using log2_bounds[of y] True assms y(1) by (intro rnd_pos_ge_pow) auto
    moreover have "rnd_pos x \<le> 2 powi log2 y"
    proof (rule rnd_pos_le_pow)
      have "x < 2 powi (log2 x + 1)" using log2_bounds(2)[OF True] .
      moreover have "(2 :: rat) powi (log2 x + 1) \<le> 2 powi log2 y" using y(2) by (simp add: two_powi_le)
      ultimately show "x \<le> 2 powi log2 y" by linarith
    qed (use True u y in auto)
    ultimately show ?thesis by linarith
  qed
qed

lemma rnd_mono: "x \<le> y \<Longrightarrow> rnd x \<le> rnd y"
  using rnd_pos_mono[of x y] rnd_pos_mono[of "- y" "- x"] rnd_pos_nonneg[of "- x"] rnd_pos_nonneg[of y]
  by (auto simp: rnd_def)

lemma rnd_minus: "rnd (- x) = - rnd x"
  by (auto simp: rnd_def rnd_pos_def)

lemma rnd_0 [simp]: "rnd 0 = 0"
  by (simp add: rnd_def rnd_pos_def)

text \<open>Numbers with at most 53 significant bits are left alone.\<close>

lemma rnd_pos_exact:
  assumes "x = of_int m * 2 powi k" "0 < m" "m < 2 ^ 53" "- 1074 \<le> k"
  shows "rnd_pos x = x"
proof -
  have x: "0 < x" using assms(1,2) by simp
  have "(of_int m :: rat) < of_int (2 ^ 53)" using assms(3) by (simp only: of_int_less_iff)
  then have "x < of_int (2 ^ 53) * 2 powi k" unfolding assms(1) by (rule mult_strict_right_mono) simp
  also have "\<dots> = 2 powi (53 + k)" by (simp add: power_int_add)
  finally have "2 powi log2 x < (2 :: rat) powi (53 + k)" using log2_bounds(1)[OF x] by linarith
  then have e: "ulp_exp x \<le> k" using assms(4) by (simp add: two_powi_less ulp_exp_def)
  have "x / 2 powi ulp_exp x = of_int m * 2 powi (k - ulp_exp x)" by (simp add: assms(1) power_int_diff)
  also have "\<dots> = of_int (m * 2 ^ nat (k - ulp_exp x))" using e by (simp add: power_int_def)
  finally have "round_even (x / 2 powi ulp_exp x) = m * 2 ^ nat (k - ulp_exp x)" by (simp only: round_even_of_int)
  then have "of_int (round_even (x / 2 powi ulp_exp x)) = of_int m * (2 :: rat) powi (k - ulp_exp x)" using e by (simp add: power_int_def)
  then show ?thesis using x by (simp add: rnd_pos_def assms(1) mult.assoc power_int_add[symmetric])
qed

lemma rnd_of_int:
  assumes "\<bar>n\<bar> < 2 ^ 53"
  shows "rnd (of_int n) = of_int n"
proof -
  have p: "rnd_pos (of_int m) = of_int m" if "0 < m" "m < 2 ^ 53" for m
    using rnd_pos_exact[of "of_int m" m 0] that by simp
  show ?thesis
    using p[of n] p[of "- n"] assms by (cases "n = 0") (auto simp: rnd_def rnd_pos_def)
qed

lemma rnd_numeral [simp]: "(numeral n :: int) < 2 ^ 53 \<Longrightarrow> rnd (numeral n) = numeral n" "rnd 1 = 1"
  using rnd_of_int[of "numeral n"] rnd_of_int[of 1] by simp_all

subsection \<open>Values and operations\<close>

datatype f64 = Fin rat | PInf | NInf | NaN

definition of_rat64 :: "rat \<Rightarrow> f64" where
  "of_rat64 x = (let r = rnd x in if 2 ^ 1024 \<le> r then PInf else if r \<le> - (2 ^ 1024) then NInf else Fin r)"

definition f64_of_int :: "int \<Rightarrow> f64" where "f64_of_int n = of_rat64 (of_int n)"

fun fneg :: "f64 \<Rightarrow> f64" where
  "fneg (Fin a) = Fin (- a)"
| "fneg PInf = NInf"
| "fneg NInf = PInf"
| "fneg NaN = NaN"

fun fabs :: "f64 \<Rightarrow> f64" where
  "fabs (Fin a) = Fin \<bar>a\<bar>"
| "fabs PInf = PInf"
| "fabs NInf = PInf"
| "fabs NaN = NaN"

fun fsgn :: "f64 \<Rightarrow> int" where
  "fsgn (Fin a) = (if 0 < a then 1 else if a < 0 then - 1 else 0)"
| "fsgn PInf = 1"
| "fsgn NInf = - 1"
| "fsgn NaN = 0"

definition inf_of :: "int \<Rightarrow> f64" where
  "inf_of s = (if 0 < s then PInf else if s < 0 then NInf else NaN)"

definition fadd :: "f64 \<Rightarrow> f64 \<Rightarrow> f64" where
  "fadd x y = (case (x, y) of
     (NaN, _) \<Rightarrow> NaN | (_, NaN) \<Rightarrow> NaN
   | (Fin a, Fin b) \<Rightarrow> of_rat64 (a + b)
   | (Fin a, z) \<Rightarrow> z | (z, Fin b) \<Rightarrow> z
   | (z, w) \<Rightarrow> if z = w then z else NaN)"

definition fsub :: "f64 \<Rightarrow> f64 \<Rightarrow> f64" where "fsub x y = fadd x (fneg y)"

definition fmul :: "f64 \<Rightarrow> f64 \<Rightarrow> f64" where
  "fmul x y = (case (x, y) of
     (NaN, _) \<Rightarrow> NaN | (_, NaN) \<Rightarrow> NaN
   | (Fin a, Fin b) \<Rightarrow> of_rat64 (a * b)
   | (z, w) \<Rightarrow> inf_of (fsgn z * fsgn w))"

definition fdiv :: "f64 \<Rightarrow> f64 \<Rightarrow> f64" where
  "fdiv x y = (case (x, y) of
     (NaN, _) \<Rightarrow> NaN | (_, NaN) \<Rightarrow> NaN
   | (Fin a, Fin b) \<Rightarrow> if b = 0 then inf_of (fsgn x) else of_rat64 (a / b)
   | (Fin a, w) \<Rightarrow> Fin 0
   | (z, Fin b) \<Rightarrow> if b < 0 then fneg z else z
   | (z, w) \<Rightarrow> NaN)"

definition flt :: "f64 \<Rightarrow> f64 \<Rightarrow> bool" where
  "flt x y \<longleftrightarrow> (case (x, y) of
     (Fin a, Fin b) \<Rightarrow> a < b
   | (NaN, _) \<Rightarrow> False | (_, NaN) \<Rightarrow> False
   | (PInf, _) \<Rightarrow> False | (_, NInf) \<Rightarrow> False | _ \<Rightarrow> True)"

definition feq :: "f64 \<Rightarrow> f64 \<Rightarrow> bool" where "feq x y \<longleftrightarrow> x = y \<and> x \<noteq> NaN"

definition fle :: "f64 \<Rightarrow> f64 \<Rightarrow> bool" where "fle x y \<longleftrightarrow> flt x y \<or> feq x y"

text \<open>\<open>math.Max\<close>, \<open>math.Min\<close>: an infinity wins over a value that is not a number, which wins over the rest.\<close>

definition fmax :: "f64 \<Rightarrow> f64 \<Rightarrow> f64" where
  "fmax x y = (if x = PInf \<or> y = PInf then PInf else if x = NaN \<or> y = NaN then NaN else if flt y x then x else y)"

definition fmin :: "f64 \<Rightarrow> f64 \<Rightarrow> f64" where
  "fmin x y = (if x = NInf \<or> y = NInf then NInf else if x = NaN \<or> y = NaN then NaN else if flt x y then x else y)"

text \<open>\<open>math.Round\<close>: to the nearest integer, halves away from zero.\<close>

definition round_away :: "rat \<Rightarrow> int" where
  "round_away x = (if x < 0 then - \<lfloor>- x + 1 / 2\<rfloor> else \<lfloor>x + 1 / 2\<rfloor>)"

fun fround :: "f64 \<Rightarrow> f64" where
  "fround (Fin a) = of_rat64 (of_int (round_away a))"
| "fround z = z"

subsection \<open>Laws\<close>

lemma of_rat64_number [simp]: "of_rat64 x \<noteq> NaN"
  by (simp add: of_rat64_def Let_def)

lemma flt_simps [simp]:
  "flt (Fin a) (Fin b) \<longleftrightarrow> a < b" "\<not> flt x NaN" "\<not> flt NaN x" "\<not> flt PInf x" "\<not> flt x NInf"
  "flt (Fin a) PInf" "flt NInf (Fin a)" "flt NInf PInf"
  by (cases x; simp add: flt_def)+

lemma fle_simps [simp]:
  "fle (Fin a) (Fin b) \<longleftrightarrow> a \<le> b" "\<not> fle x NaN" "\<not> fle NaN x" "fle (Fin a) PInf" "fle NInf (Fin a)" "\<not> fle PInf (Fin a)"
  "\<not> fle (Fin a) NInf"
  by (auto simp: fle_def feq_def)

lemma flt_irrefl [simp]: "\<not> flt x x"
  by (cases x) simp_all

lemma flt_trans: "flt x y \<Longrightarrow> flt y z \<Longrightarrow> flt x z"
  by (cases x; cases y; cases z) simp_all

lemma flt_asym: "flt x y \<Longrightarrow> \<not> flt y x"
  by (cases x; cases y) simp_all

lemma flt_total: "x \<noteq> NaN \<Longrightarrow> y \<noteq> NaN \<Longrightarrow> flt x y \<or> x = y \<or> flt y x"
  by (cases x; cases y) auto

lemma fle_refl: "fle x x \<longleftrightarrow> x \<noteq> NaN"
  by (auto simp: fle_def feq_def)

lemma fle_antisym: "fle x y \<Longrightarrow> fle y x \<Longrightarrow> x = y"
  by (cases x; cases y) (auto simp: fle_def feq_def)

lemma fle_trans: "fle x y \<Longrightarrow> fle y z \<Longrightarrow> fle x z"
  by (cases x; cases y; cases z) (auto simp: fle_def feq_def)

lemma not_flt: "\<not> flt x y \<longleftrightarrow> x = NaN \<or> y = NaN \<or> fle y x"
  using flt_total[of x y] by (auto simp: fle_def feq_def flt_asym)

lemma f64_of_small_int: "\<bar>n\<bar> < 2 ^ 53 \<Longrightarrow> f64_of_int n = Fin (of_int n)"
proof -
  assume n: "\<bar>n\<bar> < 2 ^ 53"
  have "(2 :: int) ^ 53 < 2 ^ 1024" by (rule power_strict_increasing) auto
  then have b: "n < 2 ^ 1024" "- (2 ^ 1024) < n" using n by linarith+
  have "(of_int n :: rat) < of_int (2 ^ 1024)" "(of_int (- (2 ^ 1024)) :: rat) < of_int n" using b by (simp_all only: of_int_less_iff)
  then show ?thesis using rnd_of_int[OF n] by (simp add: f64_of_int_def of_rat64_def Let_def not_le)
qed

text \<open>Rounding keeps the order, so a result is between the roundings of its bounds.\<close>

lemma of_rat64_between:
  assumes "a \<le> x" "x \<le> b" "rnd a = a" "rnd b = b" "- (2 ^ 1024) < a" "b < 2 ^ 1024"
  shows "\<exists>r. of_rat64 x = Fin r \<and> r = rnd x \<and> a \<le> r \<and> r \<le> b"
  using rnd_mono[OF assms(1)] rnd_mono[OF assms(2)] assms(3-6) by (auto simp: of_rat64_def Let_def)

text \<open>On the unit interval this is \<open>rnd64\<close>, away from the subnormals.\<close>

lemma rnd_unit:
  assumes "0 < x" "x < 1" "scale x \<le> 1022"
  shows "rnd x = rnd64 x"
proof -
  have u: "ulp_exp x = - int (scale x + 52)" using assms(2,3) by (simp add: ulp_exp_def log2_def)
  have "(2 :: rat) powi ulp_exp x = inverse (2 powi int (scale x + 52))" by (simp only: u power_int_minus)
  then have "(2 :: rat) powi ulp_exp x = 1 / 2 ^ (scale x + 52)" by (simp only: power_int_of_nat inverse_eq_divide)
  then show ?thesis using assms(1) by (simp add: rnd_def rnd_pos_def rnd64_def)
qed

subsection \<open>Reading a number\<close>

text \<open>
  \<open>strconv.ParseFloat\<close> on decimal notation with an optional exponent, and the names of the special values in any case. Hexadecimal
  notation and underscores count as malformed. A decimal number out of range is an error.
\<close>

definition exponent :: "string \<Rightarrow> int option" where
  "exponent s = (case s of [] \<Rightarrow> None | c # r \<Rightarrow>
     (let (neg, d) = (if c = CHR ''-'' then (True, r) else if c = CHR ''+'' then (False, r) else (False, s)) in
      if d = [] \<or> \<not> list_all is_digit d then None else Some (if neg then - int (decimal d) else int (decimal d))))"

definition decimal_number :: "string \<Rightarrow> rat option" where
  "decimal_number s =
     (let whole = takeWhile is_digit s; r1 = dropWhile is_digit s;
          frac = (case r1 of [] \<Rightarrow> [] | c # r \<Rightarrow> if c = CHR ''.'' then takeWhile is_digit r else []);
          r2 = (case r1 of [] \<Rightarrow> [] | c # r \<Rightarrow> if c = CHR ''.'' then dropWhile is_digit r else r1);
          v = (of_nat (decimal whole) + of_nat (decimal frac) / 10 ^ length frac :: rat)
      in if whole = [] \<and> frac = [] then None
         else (case r2 of [] \<Rightarrow> Some v
           | c # r \<Rightarrow> if c = CHR ''e'' \<or> c = CHR ''E'' then map_option (\<lambda>k. v * 10 powi k) (exponent r) else None))"

definition ParseFloat64 :: "string \<Rightarrow> f64 option" where
  "ParseFloat64 s =
     (let l = toLower s;
          (neg, body) = (case l of [] \<Rightarrow> (False, []) | c # r \<Rightarrow>
             if c = CHR ''-'' then (True, r) else if c = CHR ''+'' then (False, r) else (False, l))
      in if l = ''nan'' then Some NaN
         else if body = ''inf'' \<or> body = ''infinity'' then Some (if neg then NInf else PInf)
         else (case decimal_number body of None \<Rightarrow> None
           | Some v \<Rightarrow> (case of_rat64 (if neg then - v else v) of Fin a \<Rightarrow> Some (Fin a) | _ \<Rightarrow> None)))"

end
