(* ===== verification/Param.thy ===== *)
theory Param
  imports Binary64
begin

text \<open>
  The parameter library, \<open>internal/param\<close>: profiles that live from one release to another, what a client of a release has to
  remove and add, the comparison before a release, rollback, staged visibility, corrections (\<open>model.go\<close>), the service
  (\<open>service.go\<close>) and its tables (\<open>store.go\<close>, \<open>sql/bl4.sql\<close>).
\<close>

subsection \<open>Profiles\<close>

text \<open>
  A member of a parameter document: a number as it is written, a text, \<open>null\<close>, or something else. A document is missing, no JSON at
  all, an object, whose last member of a name counts, an array by its texts, or something else.
\<close>

datatype pval = PNum rat | PStr string | PNull | POther

datatype pdoc = NoDoc | BadDoc | Doc "(string \<times> pval) list" | Arr "string list" | OtherDoc

definition pmember :: "pdoc \<Rightarrow> string \<Rightarrow> pval option" where
  "pmember d key = (case d of Doc m \<Rightarrow> map_of (rev m) key | _ \<Rightarrow> None)"

record Profile =
  ProfileID :: int
  PKey :: string
  Module :: string
  Material :: string
  Params :: pdoc
  Source :: string
  Added :: int
  Removed :: "int option"
  SampleCount :: int
  Confidence :: "f64 option"
  PApprovedBy :: string

record Release =
  RKey :: string
  Version :: int
  Note :: string
  SnapshotURL :: string
  RolloutPct :: int
  CreatedBy :: string
  ApprovedBy :: string
  ReleasedAt :: time
  RolledBackFrom :: "int option"

definition SourceOfficial :: string where "SourceOfficial = ''official''"
definition SourceRecommended :: string where "SourceRecommended = ''recommended''"

abbreviation DiffMaxCount :: nat where "DiffMaxCount \<equiv> 10"
abbreviation ForceFullBehind :: int where "ForceFullBehind \<equiv> 20"

definition IsEffective :: "int \<Rightarrow> Profile \<Rightarrow> bool" where
  "IsEffective v p \<longleftrightarrow> Added p \<le> v \<and> (case Removed p of None \<Rightarrow> True | Some r \<Rightarrow> v < r)"

definition EffectiveAt :: "Profile list \<Rightarrow> int \<Rightarrow> Profile list" where
  "EffectiveAt ps v = filter (IsEffective v) ps"

definition Delta :: "Profile list \<Rightarrow> int \<Rightarrow> int \<Rightarrow> int list \<times> Profile list" where
  "Delta ps since to =
     (sort (map ProfileID (filter (\<lambda>p. IsEffective since p \<and> \<not> IsEffective to p) ps)),
      filter (\<lambda>p. \<not> IsEffective since p \<and> IsEffective to p) ps)"

subsection \<open>The comparison before a release\<close>

record Violation =
  VModule :: string
  VMaterial :: string
  VSource :: string
  VField :: string
  Old :: f64
  New :: f64
  ChangePct :: f64

text \<open>\<open>json.Unmarshal\<close> of the whole document fails at a number out of range.\<close>

definition fits :: "pval \<Rightarrow> bool" where
  "fits v = (case v of PNum q \<Rightarrow> (case of_rat64 q of Fin _ \<Rightarrow> True | _ \<Rightarrow> False) | _ \<Rightarrow> True)"

definition ParamNum :: "pdoc \<Rightarrow> string \<Rightarrow> f64 option" where
  "ParamNum d key =
     (case d of
        Doc m \<Rightarrow>
          (if \<not> list_all (\<lambda>(k, v). fits v) m then None
           else (case pmember d key of
             Some (PNum q) \<Rightarrow> Some (of_rat64 q)
           | Some (PStr s) \<Rightarrow> ParseFloat64 s
           | _ \<Rightarrow> None))
      | _ \<Rightarrow> None)"

definition diffKey :: "Profile \<Rightarrow> string" where
  "diffKey p = Module p @ ''|'' @ Material p @ ''|'' @ Source p"

definition DiffPctThreshold :: f64 where "DiffPctThreshold = of_rat64 (30 / 100)"

definition round4 :: "f64 \<Rightarrow> f64" where
  "round4 x = fdiv (fround (fmul x (Fin 10000))) (Fin 10000)"

text \<open>The last profile of a key counts. A comparison with something that is no number is false.\<close>

definition compare_field :: "f64 \<Rightarrow> Profile \<Rightarrow> Profile \<Rightarrow> string \<Rightarrow> Violation list" where
  "compare_field threshold old n f =
     (case (ParamNum (Params old) f, ParamNum (Params n) f) of
        (Some ov, Some nv) \<Rightarrow>
          if feq ov (Fin 0) then []
          else (let pct = fdiv (fabs (fsub nv ov)) (fabs ov) in
                if flt threshold pct then [\<lparr>VModule = Module n, VMaterial = Material n, VSource = Source n, VField = f,
                  Old = ov, New = nv, ChangePct = round4 pct\<rparr>] else [])
      | _ \<Rightarrow> [])"

definition DiffValidate :: "Profile list \<Rightarrow> Profile list \<Rightarrow> f64 \<Rightarrow> Violation list" where
  "DiffValidate old new threshold =
     concat (map (\<lambda>n. case map_of (map (\<lambda>p. (diffKey p, p)) (rev old)) (diffKey n) of
        None \<Rightarrow> []
      | Some p \<Rightarrow> compare_field threshold p n ''power'' @ compare_field threshold p n ''speed'') new)"

definition DiffRejected :: "Violation list \<Rightarrow> nat \<Rightarrow> bool" where
  "DiffRejected v maxCount \<longleftrightarrow> maxCount < length v"

subsection \<open>Rollback\<close>

definition RollbackPlan :: "Profile list \<Rightarrow> Profile list \<Rightarrow> int list \<times> Profile list" where
  "RollbackPlan current target =
     (let cur = ProfileID ` set current; tgt = ProfileID ` set target in
      (sort (map ProfileID (filter (\<lambda>p. ProfileID p \<notin> tgt) current)),
       map (\<lambda>p. p\<lparr>ProfileID := 0, Removed := None\<rparr>) (filter (\<lambda>p. ProfileID p \<notin> cur) target)))"

subsection \<open>Visibility\<close>

definition Bucket :: "(string \<Rightarrow> byte list) \<Rightarrow> string \<Rightarrow> f64" where
  "Bucket md5 i = Fin (of_nat (foldl (\<lambda>n b. n * 256 + unat b) 0 (take 4 (drop 12 (md5 i)))) / 4294967296)"

text \<open>\<open>None\<close> is a client without a bucket.\<close>

definition InRollout :: "f64 option \<Rightarrow> int \<Rightarrow> bool" where
  "InRollout bucket pct =
     (if 100 \<le> pct then True
      else (case bucket of
        None \<Rightarrow> False
      | Some b \<Rightarrow> if pct \<le> 0 then False else flt b (fdiv (f64_of_int pct) (Fin 100))))"

definition VisibleVersion :: "Release list \<Rightarrow> f64 option \<Rightarrow> Release option" where
  "VisibleVersion rels bucket = find (\<lambda>r. InRollout bucket (RolloutPct r)) (sort_key (\<lambda>r. - Version r) rels)"

subsection \<open>Corrections\<close>

record Cfg =
  CfgA :: f64
  CfgB :: f64
  CfgC :: f64
  RatedHours :: f64

definition KMin :: f64 where "KMin = of_rat64 (8 / 10)"
definition KMax :: f64 where "KMax = Fin (125 / 100)"

definition DefaultCfg :: Cfg where
  "DefaultCfg = \<lparr>CfgA = of_rat64 (15 / 100), CfgB = of_rat64 (5 / 100), CfgC = of_rat64 (5 / 100), RatedHours = Fin 10000\<rparr>"

datatype Reason = InputMissing | HealthReason f64 f64 | HoursReason f64 f64 | LimitReason

record CorrResult =
  KPower :: f64
  KSpeed :: f64
  Reasons :: "Reason list"

definition clamp :: "f64 \<Rightarrow> f64 \<Rightarrow> f64 \<Rightarrow> f64" where
  "clamp x lo hi = fmax lo (fmin hi x)"

text \<open>A reason carries the amount behind its text, which is a percentage of it with one decimal.\<close>

definition Correction :: "Cfg \<Rightarrow> f64 option \<Rightarrow> f64 option \<Rightarrow> CorrResult" where
  "Correction cfg0 laserHours health =
     (case (laserHours, health) of
        (Some hours, Some h0) \<Rightarrow>
          (let cfg = (if fle (RatedHours cfg0) (Fin 0) then cfg0\<lparr>RatedHours := RatedHours DefaultCfg\<rparr> else cfg0);
               h = clamp h0 (Fin 0) (Fin 100);
               wear = fsub (Fin 1) (fdiv h (Fin 100));
               age = fdiv (fmul (CfgB cfg) hours) (RatedHours cfg);
               kp = clamp (fadd (fadd (Fin 1) (fmul (CfgA cfg) wear)) age) KMin KMax;
               ks = clamp (fsub (Fin 1) (fmul (CfgC cfg) wear)) KMin KMax
           in \<lparr>KPower = round4 kp, KSpeed = round4 ks,
               Reasons = (if flt (Fin 0) wear then [HealthReason h (fmul (CfgA cfg) wear)] else []) @
                 (if flt (Fin 0) hours then [HoursReason hours age] else []) @
                 (if fle KMax kp then [LimitReason] else [])\<rparr>)
      | _ \<Rightarrow> \<lparr>KPower = Fin 1, KSpeed = Fin 1, Reasons = [InputMissing]\<rparr>)"

definition ident_char :: "char \<Rightarrow> bool" where
  "ident_char c \<longleftrightarrow> between CHR ''A'' CHR ''Z'' c \<or> between CHR ''a'' CHR ''z'' c \<or> is_digit c \<or>
     c \<in> {CHR ''_'', CHR ''-'', CHR ''.''}"

definition ValidIdent :: "string \<Rightarrow> bool" where
  "ValidIdent s \<longleftrightarrow> s \<noteq> [] \<and> length s \<le> 32 \<and> list_all ident_char s"

definition identRe :: "string \<Rightarrow> bool" where
  "identRe s \<longleftrightarrow> 1 \<le> length s \<and> length s \<le> 32 \<and> list_all ident_char s"

lemma identRe_ValidIdent: "identRe s = ValidIdent s"
  by (cases s) (auto simp: identRe_def ValidIdent_def)

subsection \<open>Tables\<close>

record Recommendation =
  RecKey :: string
  RecModule :: string
  RecMaterial :: string
  RecHash :: string
  RecParams :: pdoc
  RecSamples :: int
  RecGood :: f64
  RecStatus :: string

record UserParam =
  UserID :: int
  UKey :: string
  UModule :: string
  UMaterial :: string
  UParams :: pdoc
  UVersion :: int
  UUpdatedAt :: time

text \<open>\<open>next_id\<close> is the identity column, which a transaction that is rolled back does not give back.\<close>

record ParamDB =
  profiles :: "Profile list"
  releases :: "Release list"
  next_id :: int
  products :: "string list"
  materials :: "string list"
  recommendations :: "Recommendation list"
  corrections :: "((string \<times> string) \<times> Cfg) list"
  user_params :: "UserParam list"

text \<open>The snapshot files by product and version. What a file holds is the document that was encoded.\<close>

record Snapshot =
  SnKey :: string
  SnVersion :: int
  SnReleasedAt :: time
  SnProfiles :: "Profile list"

record ParamSt =
  pdb :: ParamDB
  files :: "string \<times> int \<Rightarrow> Snapshot option"
  pm :: metrics

datatype param_error = PNotFound | PConflict | PDenied | PBadParam | PDiff "Violation list" | PDbError

record PublishPlan =
  PlKey :: string
  PlNote :: string
  PlCreatedBy :: string
  PlApprovedBy :: string
  PlRolloutPct :: int
  PlAdded :: "Profile list"
  PlRemoveIDs :: "int list"
  PlRolledBackFrom :: "int option"

subsection \<open>The checks of the database\<close>

text \<open>
  The cast of a member to \<open>numeric\<close>: a number, infinities, and a value that is not a number, which the database puts above all
  others; \<open>null\<close> stays unknown. A text that is no number makes the statement fail with another error than a violated check. The names
  of the special values are the same as in Go.
\<close>

datatype pgnum = PgNum rat | PgInf | PgNegInf | PgNaN | PgNull

definition special_number :: "string \<Rightarrow> pgnum option" where
  "special_number s =
     (let l = toLower s in
      if l = ''nan'' then Some PgNaN
      else if l \<in> {''inf'', ''infinity'', ''+inf'', ''+infinity''} then Some PgInf
      else if l \<in> {''-inf'', ''-infinity''} then Some PgNegInf else None)"

definition pg_numeric :: "pval \<Rightarrow> pgnum option" where
  "pg_numeric v =
     (case v of
        PNum q \<Rightarrow> Some (PgNum q)
      | PNull \<Rightarrow> Some PgNull
      | POther \<Rightarrow> None
      | PStr s0 \<Rightarrow>
          (let s = trimSpace s0 in
           case special_number s of
             Some n \<Rightarrow> Some n
           | None \<Rightarrow> (case signed_digits s of
               None \<Rightarrow> None
             | Some (neg, body) \<Rightarrow> map_option (\<lambda>q. PgNum (if neg then - q else q)) (decimal_number body))))"

text \<open>A comparison with something unknown is not false, and a check passes unless it is false.\<close>

fun pg_le0_100 :: "pgnum \<Rightarrow> bool" where
  "pg_le0_100 (PgNum q) = (0 \<le> q \<and> q \<le> 100)"
| "pg_le0_100 PgNull = True"
| "pg_le0_100 _ = False"

fun pg_positive :: "pgnum \<Rightarrow> bool" where
  "pg_positive (PgNum q) = (0 < q)"
| "pg_positive PgNegInf = False"
| "pg_positive _ = True"

text \<open>\<open>ck_profile_params\<close>: \<open>None\<close> is a failed cast. An array has its texts as keys and unknown members.\<close>

definition ck_profile_params :: "pdoc \<Rightarrow> bool option" where
  "ck_profile_params d =
     (case d of
        Arr ts \<Rightarrow> Some (''power'' \<in> set ts \<and> ''speed'' \<in> set ts)
      | _ \<Rightarrow>
       (case (pmember d ''power'', pmember d ''speed'') of
          (Some pw, Some sp) \<Rightarrow>
            (case pg_numeric pw of
               None \<Rightarrow> None
             | Some a \<Rightarrow> if \<not> pg_le0_100 a then Some False
                 else (case pg_numeric sp of None \<Rightarrow> None | Some b \<Rightarrow> Some (pg_positive b)))
        | _ \<Rightarrow> Some False))"

definition ck_release_approved :: "string \<Rightarrow> string \<Rightarrow> bool" where
  "ck_release_approved createdBy approvedBy \<longleftrightarrow> approvedBy \<noteq> [] \<and> approvedBy \<noteq> createdBy"

text \<open>What \<open>translatePG\<close> makes of a refused statement.\<close>

datatype pg_error = CheckViolation string | ForeignKey | UniqueViolation | OtherError

definition translatePG :: "pg_error \<Rightarrow> param_error" where
  "translatePG e =
     (case e of
        CheckViolation c \<Rightarrow> if c = ''ck_release_approved'' then PDenied else PBadParam
      | ForeignKey \<Rightarrow> PBadParam
      | UniqueViolation \<Rightarrow> PConflict
      | OtherError \<Rightarrow> PDbError)"

definition insert_release :: "Release \<Rightarrow> ParamDB \<Rightarrow> pg_error + ParamDB" where
  "insert_release r db =
     (if 64 < length (CreatedBy r) \<or> 64 < length (ApprovedBy r) then Inl OtherError
      else if \<not> ck_release_approved (CreatedBy r) (ApprovedBy r) then Inl (CheckViolation ''ck_release_approved'')
      else if RolloutPct r < 0 \<or> 100 < RolloutPct r then Inl (CheckViolation ''ck_release_rollout'')
      else if list_ex (\<lambda>x. RKey x = RKey r \<and> Version x = Version r) (releases db) then Inl UniqueViolation
      else if RKey r \<notin> set (products db) then Inl ForeignKey
      else Inr (db\<lparr>releases := releases db @ [r]\<rparr>))"

definition insert_profile :: "Profile \<Rightarrow> ParamDB \<Rightarrow> pg_error + ParamDB" where
  "insert_profile p db =
     (case (if Params p = NoDoc \<or> Params p = BadDoc then None else ck_profile_params (Params p)) of
        None \<Rightarrow> Inl OtherError
      | Some False \<Rightarrow> Inl (CheckViolation ''ck_profile_params'')
      | Some True \<Rightarrow>
          (if PKey p \<notin> set (products db) \<or> Material p \<notin> set (materials db) then Inl ForeignKey
           else Inr (db\<lparr>profiles := profiles db @ [p\<lparr>ProfileID := next_id db, Removed := None\<rparr>], next_id := next_id db + 1\<rparr>)))"

definition remove_profile :: "int \<Rightarrow> string \<Rightarrow> int \<Rightarrow> ParamDB \<Rightarrow> pg_error + nat \<times> ParamDB" where
  "remove_profile i pk v db =
     (let hit = (\<lambda>p. ProfileID p = i \<and> PKey p = pk \<and> Removed p = None) in
      if list_ex (\<lambda>p. hit p \<and> v \<le> Added p) (profiles db) then Inl (CheckViolation ''ck_profile_lifecycle'')
      else Inr (affected hit (profiles db), db\<lparr>profiles := update_where hit (\<lambda>p. p\<lparr>Removed := Some v\<rparr>) (profiles db)\<rparr>))"

subsection \<open>Publishing\<close>

text \<open>
  One transaction under an advisory lock of the product. \<open>PFault\<close> says which step reports an error of its own, \<open>PFile\<close> whether the
  snapshot can be written, \<open>PCommit\<close> how the commit ends: it may take effect although an error is reported.
\<close>

datatype pub_stage = PubBegin | PubLock | PubMax | PubRelease | PubRemove | PubInsert | PubLoad | PubURL

datatype commit = Committed | CommitFailed | CommitLost

record PubEnv =
  PFault :: "pub_stage \<Rightarrow> bool"
  PFile :: bool
  PCommit :: commit
  PNow :: time

definition max_version :: "string \<Rightarrow> ParamDB \<Rightarrow> int" where
  "max_version pk db = foldl max 0 (map Version (filter (\<lambda>r. RKey r = pk) (releases db)))"

fun remove_all :: "int list \<Rightarrow> string \<Rightarrow> int \<Rightarrow> ParamDB \<Rightarrow> param_error + ParamDB" where
  "remove_all [] pk v db = Inr db"
| "remove_all (i # is') pk v db =
     (case remove_profile i pk v db of
        Inl e \<Rightarrow> Inl (translatePG e)
      | Inr (n, db') \<Rightarrow> if n = 0 then Inl PBadParam else remove_all is' pk v db')"

definition new_profile :: "PublishPlan \<Rightarrow> int \<Rightarrow> Profile \<Rightarrow> Profile" where
  "new_profile plan v p = p\<lparr>PKey := PlKey plan, Source := (if Source p = [] then SourceOfficial else Source p), Added := v,
     PApprovedBy := (if PApprovedBy p = [] then PlApprovedBy plan else PApprovedBy p)\<rparr>"

fun insert_all :: "PublishPlan \<Rightarrow> int \<Rightarrow> Profile list \<Rightarrow> ParamDB \<Rightarrow> (param_error \<times> int) + ParamDB" where
  "insert_all plan v [] db = Inr db"
| "insert_all plan v (p # ps) db =
     (case insert_profile (new_profile plan v p) db of
        Inl e \<Rightarrow> Inl (translatePG e, next_id db + 1)
      | Inr db' \<Rightarrow> insert_all plan v ps db')"

definition product_profiles :: "string \<Rightarrow> ParamDB \<Rightarrow> Profile list" where
  "product_profiles pk db = filter (\<lambda>p. PKey p = pk) (profiles db)"

definition snapshot_url :: "string \<Rightarrow> int \<Rightarrow> string" where
  "snapshot_url pk v = ''/snapshots/'' @ pk @ ''/v'' @ FormatInt v @ ''.json''"

definition plan_pct :: "PublishPlan \<Rightarrow> int" where
  "plan_pct plan = (if PlRolloutPct plan \<le> 0 then 100 else PlRolloutPct plan)"

definition plan_release :: "PublishPlan \<Rightarrow> int \<Rightarrow> time \<Rightarrow> Release" where
  "plan_release plan v now = \<lparr>RKey = PlKey plan, Version = v, Note = PlNote plan, SnapshotURL = [], RolloutPct = plan_pct plan,
     CreatedBy = PlCreatedBy plan, ApprovedBy = PlApprovedBy plan, ReleasedAt = now, RolledBackFrom = PlRolledBackFrom plan\<rparr>"

text \<open>The tables as the transaction leaves them before the snapshot is written.\<close>

definition publish_tables :: "PubEnv \<Rightarrow> PublishPlan \<Rightarrow> ParamDB \<Rightarrow> (param_error \<times> int) + int \<times> ParamDB" where
  "publish_tables e plan db =
     (let v = max_version (PlKey plan) db + 1; old = next_id db in
      if PFault e PubBegin \<or> PFault e PubLock \<or> PFault e PubMax \<or> PFault e PubRelease then Inl (PDbError, old)
      else (case insert_release (plan_release plan v (PNow e)) db of
        Inl x \<Rightarrow> Inl (translatePG x, old)
      | Inr db1 \<Rightarrow>
          if PFault e PubRemove \<and> PlRemoveIDs plan \<noteq> [] then Inl (PDbError, old)
          else (case remove_all (PlRemoveIDs plan) (PlKey plan) v db1 of
            Inl x \<Rightarrow> Inl (x, old)
          | Inr db2 \<Rightarrow>
              if PFault e PubInsert \<and> PlAdded plan \<noteq> [] then Inl (PDbError, old)
              else (case insert_all plan v (PlAdded plan) db2 of
                Inl x \<Rightarrow> Inl x
              | Inr db3 \<Rightarrow> if PFault e PubLoad then Inl (PDbError, next_id db3) else Inr (v, db3)))))"

definition snapshot_of :: "string \<Rightarrow> int \<Rightarrow> time \<Rightarrow> ParamDB \<Rightarrow> Snapshot" where
  "snapshot_of pk v now db = \<lparr>SnKey = pk, SnVersion = v, SnReleasedAt = now, SnProfiles = EffectiveAt (product_profiles pk db) v\<rparr>"

definition set_url :: "string \<Rightarrow> int \<Rightarrow> string \<Rightarrow> ParamDB \<Rightarrow> ParamDB" where
  "set_url pk v url db = db\<lparr>releases := update_where (\<lambda>r. RKey r = pk \<and> Version r = v) (\<lambda>r. r\<lparr>SnapshotURL := url\<rparr>) (releases db)\<rparr>"

definition StorePublish :: "PubEnv \<Rightarrow> PublishPlan \<Rightarrow> ParamSt \<Rightarrow> (param_error + Release) \<times> ParamSt" where
  "StorePublish e plan s =
     (let pk = PlKey plan in
      case publish_tables e plan (pdb s) of
        Inl (x, nid) \<Rightarrow> (Inl x, s\<lparr>pdb := (pdb s)\<lparr>next_id := nid\<rparr>\<rparr>)
      | Inr (v, db) \<Rightarrow>
          (if \<not> PFile e then (Inl PDbError, s\<lparr>pdb := (pdb s)\<lparr>next_id := next_id db\<rparr>\<rparr>)
           else (let url = snapshot_url pk v; db' = set_url pk v url db;
                     s1 = s\<lparr>files := (files s)((pk, v) \<mapsto> snapshot_of pk v (PNow e) db)\<rparr>;
                     undone = s1\<lparr>pdb := (pdb s)\<lparr>next_id := next_id db\<rparr>\<rparr> in
                 if PFault e PubURL then (Inl PDbError, undone)
                 else (case PCommit e of
                   CommitFailed \<Rightarrow> (Inl PDbError, undone)
                 | CommitLost \<Rightarrow> (Inl PDbError, s1\<lparr>pdb := db'\<rparr>)
                 | Committed \<Rightarrow> (Inr ((plan_release plan v (PNow e))\<lparr>SnapshotURL := url\<rparr>), s1\<lparr>pdb := db'\<rparr>)))))"

end
