(* ===== verification/ParamService.thy ===== *)
theory ParamService
  imports Param Sql
begin

text \<open>
  The service of the parameter library, \<open>internal/param/service.go\<close>, and its handlers (\<open>handler.go\<close>): publishing with the comparison and
  the recommendations of the offline job, rollback, what a client may see and how it catches up, a user's own parameters
  with their version, snapshot files by name.
\<close>

subsection \<open>Publishing\<close>

record AddedReq =
  AModule :: string
  AMaterial :: string
  AParams :: pdoc
  ASource :: string

record PublishReq =
  QKey :: string
  QNote :: string
  QCreatedBy :: string
  QApprovedBy :: string
  QRolloutPct :: int
  QAdded :: "AddedReq list"
  QRemoved :: "int list"
  QForce :: bool

definition added_source :: "AddedReq \<Rightarrow> string" where
  "added_source a = (if ASource a = [] then SourceOfficial else ASource a)"

definition added_ok :: "AddedReq \<Rightarrow> bool" where
  "added_ok a \<longleftrightarrow> ValidIdent (AModule a) \<and> ValidIdent (AMaterial a) \<and> AParams a \<noteq> NoDoc \<and>
     added_source a \<in> {SourceOfficial, SourceRecommended}"

definition added_profile :: "string \<Rightarrow> AddedReq \<Rightarrow> Profile" where
  "added_profile pk a = \<lparr>ProfileID = 0, PKey = pk, Module = AModule a, Material = AMaterial a, Params = AParams a,
     Source = added_source a, Added = 0, Removed = None, SampleCount = 0, Confidence = None, PApprovedBy = []\<rparr>"

definition current_version :: "Profile list \<Rightarrow> int" where
  "current_version ps = foldl (\<lambda>c p. let c1 = max c (Added p) in case Removed p of None \<Rightarrow> c1 | Some r \<Rightarrow> max c1 r) 0 ps"

definition reco_profile :: "string \<Rightarrow> Recommendation \<Rightarrow> Profile" where
  "reco_profile pk r = \<lparr>ProfileID = 0, PKey = pk, Module = RecModule r, Material = RecMaterial r, Params = RecParams r,
     Source = SourceRecommended, Added = 0, Removed = None, SampleCount = RecSamples r, Confidence = Some (RecGood r), PApprovedBy = []\<rparr>"

definition reco_key :: "string \<Rightarrow> string \<Rightarrow> string \<Rightarrow> string" where
  "reco_key m mat h = m @ ''|'' @ mat @ ''|'' @ h"

text \<open>\<open>hash\<close> is \<open>CanonicalHash\<close>: SHA-256 over a document encoded again.\<close>

fun merge_recs :: "string \<Rightarrow> Recommendation list \<Rightarrow> string list \<Rightarrow> Profile list" where
  "merge_recs pk [] existing = []"
| "merge_recs pk (r # rs) existing =
     (let key = reco_key (RecModule r) (RecMaterial r) (RecHash r) in
      if key \<in> set existing \<or> RecParams r = NoDoc then merge_recs pk rs existing
      else reco_profile pk r # merge_recs pk rs (key # existing))"

definition PublishedRecommendations :: "string \<Rightarrow> ParamDB \<Rightarrow> Recommendation list" where
  "PublishedRecommendations pk db =
     filter (\<lambda>r. RecKey r = pk \<and> RecStatus r = ''published'' \<and> RecParams r \<noteq> NoDoc) (recommendations db)"

definition next_profiles :: "Profile list \<Rightarrow> int list \<Rightarrow> Profile list \<Rightarrow> Profile list" where
  "next_profiles old removed added = filter (\<lambda>p. ProfileID p \<notin> set removed) old @ added"

text \<open>
  The part before the transaction: a refusal, or the plan with the number of recommendations; and whether the comparison was overruled.
  \<open>failProfiles\<close> and \<open>failRecs\<close> are the two queries.
\<close>

definition prepare :: "(pdoc \<Rightarrow> string) \<Rightarrow> bool \<Rightarrow> bool \<Rightarrow> PublishReq \<Rightarrow> ParamDB \<Rightarrow> param_error \<times> bool + PublishPlan \<times> nat \<times> bool" where
  "prepare hash failProfiles failRecs req db =
     (let pk = QKey req in
      if \<not> identRe pk \<or> QCreatedBy req = [] then Inl (PBadParam, False)
      else if QRolloutPct req < 0 \<or> 100 < QRolloutPct req then Inl (PBadParam, False)
      else if \<not> list_all added_ok (QAdded req) then Inl (PBadParam, False)
      else if failProfiles then Inl (PDbError, False)
      else
       (let added = map (added_profile pk) (QAdded req);
            ps = product_profiles pk db;
            old = EffectiveAt ps (current_version ps);
            next = next_profiles old (QRemoved req) added;
            violations = DiffValidate old next DiffPctThreshold;
            rejected = DiffRejected violations DiffMaxCount
        in if rejected \<and> \<not> QForce req then Inl (PDiff violations, False)
           else if rejected \<and> QApprovedBy req = [] then Inl (PDenied, False)
           else if failRecs then Inl (PDbError, rejected)
           else
            (let existing = map (\<lambda>p. reco_key (Module p) (Material p) (hash (Params p))) (filter (\<lambda>p. Source p = SourceRecommended) next);
                 recs = merge_recs pk (PublishedRecommendations pk db) existing
             in Inr (\<lparr>PlKey = pk, PlNote = QNote req, PlCreatedBy = QCreatedBy req, PlApprovedBy = QApprovedBy req,
                   PlRolloutPct = QRolloutPct req, PlAdded = added @ recs, PlRemoveIDs = QRemoved req, PlRolledBackFrom = None\<rparr>,
                 length recs, rejected))))"

definition pinc :: "string \<Rightarrow> ParamSt \<Rightarrow> ParamSt" where "pinc n s = s\<lparr>pm := Inc n (pm s)\<rparr>"

definition padd :: "string \<Rightarrow> nat \<Rightarrow> ParamSt \<Rightarrow> ParamSt" where "padd n k s = s\<lparr>pm := Add n (int k) (pm s)\<rparr>"

text \<open>\<open>others\<close> is what others do between the reads and the transaction.\<close>

definition Publish ::
  "(pdoc \<Rightarrow> string) \<Rightarrow> bool \<Rightarrow> bool \<Rightarrow> PubEnv \<Rightarrow> (ParamSt \<Rightarrow> ParamSt) \<Rightarrow> PublishReq \<Rightarrow> ParamSt \<Rightarrow> (param_error + Release) \<times> ParamSt" where
  "Publish hash failProfiles failRecs e others req s =
     (case prepare hash failProfiles failRecs req (pdb s) of
        Inl (PDiff v, _) \<Rightarrow> (Inl (PDiff v), pinc ''diff_rejected'' s)
      | Inl (x, forced) \<Rightarrow> (Inl x, if forced then pinc ''diff_forced'' s else s)
      | Inr (plan, n, forced) \<Rightarrow>
          (case StorePublish e plan (others (if forced then pinc ''diff_forced'' s else s)) of
             (Inl x, s') \<Rightarrow> (Inl x, s')
           | (Inr rel, s') \<Rightarrow> (Inr rel, padd ''recommendations_published'' n (pinc ''releases_published'' s'))))"

record RollbackReq =
  ToVersion :: int
  BCreatedBy :: string
  BApprovedBy :: string
  BNote :: string

definition product_releases :: "string \<Rightarrow> ParamDB \<Rightarrow> Release list" where
  "product_releases pk db = sort_key (\<lambda>r. - Version r) (filter (\<lambda>r. RKey r = pk) (releases db))"

text \<open>The releases and the profiles are two queries, \<open>dbr\<close> and \<open>dbp\<close> what they see.\<close>

definition plan_rollback :: "string \<Rightarrow> RollbackReq \<Rightarrow> bool \<Rightarrow> bool \<Rightarrow> ParamDB \<Rightarrow> ParamDB \<Rightarrow> param_error + PublishPlan" where
  "plan_rollback pk req failReleases failProfiles dbr dbp =
     (if \<not> identRe pk \<or> BCreatedBy req = [] \<or> ToVersion req \<le> 0 then Inl PBadParam
      else if failReleases then Inl PDbError
      else if \<not> list_ex (\<lambda>r. Version r = ToVersion req) (product_releases pk dbr) then Inl PNotFound
      else if failProfiles then Inl PDbError
      else
       (let latest = foldl max 0 (map Version (product_releases pk dbr)); ps = product_profiles pk dbp;
            (toRemove, toReadd) = RollbackPlan (EffectiveAt ps latest) (EffectiveAt ps (ToVersion req))
        in Inr \<lparr>PlKey = pk, PlNote = (if BNote req = [] then ''rollback to v'' @ FormatInt (ToVersion req) else BNote req),
             PlCreatedBy = BCreatedBy req, PlApprovedBy = BApprovedBy req, PlRolloutPct = 100, PlAdded = toReadd,
             PlRemoveIDs = toRemove, PlRolledBackFrom = Some (ToVersion req)\<rparr>))"

definition Rollback ::
  "bool \<Rightarrow> bool \<Rightarrow> PubEnv \<Rightarrow> (ParamSt \<Rightarrow> ParamSt) \<Rightarrow> string \<Rightarrow> RollbackReq \<Rightarrow> ParamSt \<Rightarrow> (param_error + Release) \<times> ParamSt" where
  "Rollback failReleases failProfiles e others pk req s =
     (case plan_rollback pk req failReleases failProfiles (pdb s) (pdb s) of
        Inl x \<Rightarrow> (Inl x, s)
      | Inr plan \<Rightarrow>
          (case StorePublish e plan (others s) of
             (Inl x, s') \<Rightarrow> (Inl x, s')
           | (Inr rel, s') \<Rightarrow> (Inr rel, pinc ''rollbacks'' s')))"

subsection \<open>Catching up\<close>

record LatestResp =
  LVersion :: int
  LSnapshotURL :: string
  LReleasedAt :: time
  LRolloutPct :: int

definition Latest :: "bool \<Rightarrow> string \<Rightarrow> f64 option \<Rightarrow> ParamDB \<Rightarrow> param_error + LatestResp" where
  "Latest failReleases pk bucket db =
     (if failReleases then Inl PDbError
      else (case VisibleVersion (product_releases pk db) bucket of
        None \<Rightarrow> Inl PNotFound
      | Some r \<Rightarrow> Inr \<lparr>LVersion = Version r, LSnapshotURL = SnapshotURL r, LReleasedAt = ReleasedAt r, LRolloutPct = RolloutPct r\<rparr>))"

record DeltaResp =
  DVersion :: int
  ForceFull :: bool
  DSnapshotURL :: string
  DRemoved :: "int list"
  DAdded :: "Profile list"

text \<open>The releases are read in one query, the profiles in a later one.\<close>

definition ServiceDelta ::
  "bool \<Rightarrow> bool \<Rightarrow> string \<Rightarrow> int \<Rightarrow> f64 option \<Rightarrow> ParamDB \<Rightarrow> ParamDB \<Rightarrow> metrics \<Rightarrow> (param_error + DeltaResp) \<times> metrics" where
  "ServiceDelta failReleases failProfiles pk since0 bucket dbr dbp m =
     (case Latest failReleases pk bucket dbr of
        Inl x \<Rightarrow> (Inl x, m)
      | Inr latest \<Rightarrow>
          (let since = (if since0 < 0 then 0 else since0); v = LVersion latest in
           if v < since then (Inl PBadParam, m)
           else if ForceFullBehind < v - since then
             (Inr \<lparr>DVersion = v, ForceFull = True, DSnapshotURL = LSnapshotURL latest, DRemoved = [], DAdded = []\<rparr>, Inc ''full_served'' m)
           else if failProfiles then (Inl PDbError, m)
           else (case Delta (product_profiles pk dbp) since v of
             (rem, add) \<Rightarrow> (Inr \<lparr>DVersion = v, ForceFull = False, DSnapshotURL = [], DRemoved = rem, DAdded = add\<rparr>, Inc ''delta_served'' m))))"

subsection \<open>A user's own parameters\<close>

definition same_param :: "UserParam \<Rightarrow> UserParam \<Rightarrow> bool" where
  "same_param a b \<longleftrightarrow> UserID a = UserID b \<and> UKey a = UKey b \<and> UModule a = UModule b \<and> UMaterial a = UMaterial b"

definition stmt_put_new :: "UserParam \<Rightarrow> time \<Rightarrow> ParamDB \<Rightarrow> (int option \<times> ParamDB) option" where
  "stmt_put_new up now db =
     (if list_ex (same_param up) (user_params db) then Some (None, db)
      else Some (Some 1, db\<lparr>user_params := user_params db @ [up\<lparr>UVersion := 1, UUpdatedAt := now\<rparr>]\<rparr>))"

definition stmt_put_old :: "UserParam \<Rightarrow> int \<Rightarrow> time \<Rightarrow> ParamDB \<Rightarrow> (int option \<times> ParamDB) option" where
  "stmt_put_old up ifMatch now db =
     (let hit = (\<lambda>x. same_param up x \<and> UVersion x = ifMatch) in
      Some (if list_ex hit (user_params db) then Some (ifMatch + 1) else None,
        db\<lparr>user_params := update_where hit (\<lambda>x. x\<lparr>UParams := UParams up, UVersion := UVersion x + 1, UUpdatedAt := now\<rparr>) (user_params db)\<rparr>))"

text \<open>The version now in the table, 0 without a row; the first argument is the answer of the query.\<close>

definition currentUserParamVersion :: "answer \<Rightarrow> UserParam \<Rightarrow> ParamDB \<Rightarrow> int option" where
  "currentUserParamVersion a up db =
     (if a = Done then Some (case find (same_param up) (user_params db) of None \<Rightarrow> 0 | Some x \<Rightarrow> UVersion x) else None)"

text \<open>Version, version in the table, and whether they differ.\<close>

definition StorePutUserParam ::
  "answer \<Rightarrow> answer \<Rightarrow> UserParam \<Rightarrow> int \<Rightarrow> time \<Rightarrow> ParamDB \<Rightarrow> (param_error + int \<times> int \<times> bool) \<times> ParamDB" where
  "StorePutUserParam a1 a2 up ifMatch now db =
     (case exec a1 (if ifMatch = 0 then stmt_put_new up now else stmt_put_old up ifMatch now) db of
        (None, db') \<Rightarrow> (Inl PDbError, db')
      | (Some (Some v), db') \<Rightarrow> (Inr (v, v, False), db')
      | (Some None, db') \<Rightarrow> ((case currentUserParamVersion a2 up db' of None \<Rightarrow> Inl PDbError | Some c \<Rightarrow> Inr (0, c, True)), db'))"

definition valid_doc :: "pdoc \<Rightarrow> bool" where "valid_doc d \<longleftrightarrow> d \<noteq> NoDoc \<and> d \<noteq> BadDoc"

definition PutUserParam ::
  "answer \<Rightarrow> answer \<Rightarrow> UserParam \<Rightarrow> int \<Rightarrow> time \<Rightarrow> ParamSt \<Rightarrow> (param_error + int \<times> int \<times> bool) \<times> ParamSt" where
  "PutUserParam a1 a2 up ifMatch now s =
     (if \<not> ValidIdent (UKey up) \<or> \<not> ValidIdent (UModule up) \<or> \<not> ValidIdent (UMaterial up) \<or> \<not> valid_doc (UParams up)
      then (Inl PBadParam, s)
      else (case StorePutUserParam a1 a2 up ifMatch now (pdb s) of
        (Inl x, db) \<Rightarrow> (Inl x, s\<lparr>pdb := db\<rparr>)
      | (Inr (v, c, conflict), db) \<Rightarrow>
          (Inr (v, c, conflict), pinc (if conflict then ''user_param_conflicts'' else ''user_param_put'') (s\<lparr>pdb := db\<rparr>))))"

subsection \<open>Corrections and snapshots\<close>

definition CorrectionCfg :: "bool \<Rightarrow> string \<Rightarrow> string \<Rightarrow> ParamDB \<Rightarrow> Cfg option option" where
  "CorrectionCfg fails pk m db = (if fails then None else Some (map_of (corrections db) (pk, m)))"

definition Correct :: "bool \<Rightarrow> string \<Rightarrow> string \<Rightarrow> f64 option \<Rightarrow> f64 option \<Rightarrow> ParamSt \<Rightarrow> (param_error + CorrResult) \<times> ParamSt" where
  "Correct fails pk m hours health s =
     (let found = (if pk \<noteq> [] \<and> m \<noteq> [] then CorrectionCfg fails pk m (pdb s) else Some None) in
      case found of
        None \<Rightarrow> (Inl PDbError, s)
      | Some c \<Rightarrow> (Inr (Correction (case c of None \<Rightarrow> DefaultCfg | Some x \<Rightarrow> x) hours health),
          pinc (if hours = None \<or> health = None then ''correction_input_missing'' else ''correction_served'') s))"

text \<open>\<open>v\<close>, one to twelve digits, \<open>.json\<close>: the number of the version.\<close>

definition snapshotFileRe :: "string \<Rightarrow> string option" where
  "snapshotFileRe f =
     (case f of [] \<Rightarrow> None | c # r \<Rightarrow>
       (let d = takeWhile is_digit r in
        if c = CHR ''v'' \<and> 1 \<le> length d \<and> length d \<le> 12 \<and> dropWhile is_digit r = ''.json'' then Some d else None))"

text \<open>The path that is read, below the directory of the snapshots; nothing is read when a part of it is not on the white list.\<close>

definition ReadSnapshot_path :: "string \<Rightarrow> string \<Rightarrow> (string \<times> string) option" where
  "ReadSnapshot_path pk f = (if \<not> identRe pk \<or> snapshotFileRe f = None then None else Some (pk, f))"

subsection \<open>Requests\<close>

datatype bucket_error = BadBucket

text \<open>The query parameter wins over the user; without either there is no bucket.\<close>

definition bucketOf :: "(string \<Rightarrow> byte list) \<Rightarrow> string \<Rightarrow> string \<Rightarrow> bucket_error + f64 option" where
  "bucketOf md5 b user =
     (if b \<noteq> [] then
        (case ParseFloat64 b of
           None \<Rightarrow> Inl BadBucket
         | Some f \<Rightarrow> if flt f (Fin 0) \<or> fle (Fin 1) f then Inl BadBucket else Inr (Some f))
      else if trimSpace user \<noteq> [] then Inr (Some (Bucket md5 (trimSpace user)))
      else Inr None)"

definition parse_userID :: "string \<Rightarrow> int option" where
  "parse_userID h = (case ParseInt (trimSpace h) of None \<Rightarrow> None | Some u \<Rightarrow> if u \<le> 0 then None else Some u)"

definition trim_quotes :: "string \<Rightarrow> string" where
  "trim_quotes s = rev (dropWhile (\<lambda>c. c = CHR 0x22) (rev (dropWhile (\<lambda>c. c = CHR 0x22) s)))"

definition parseIfMatch :: "string \<Rightarrow> int option" where
  "parseIfMatch h0 =
     (let h = trimSpace (trim_quotes (trimSpace h0)) in
      if h = [] then None
      else (case ParseInt h of None \<Rightarrow> None | Some v \<Rightarrow> if v < 0 then None else Some v))"

definition etag :: "int \<Rightarrow> string" where "etag v = [CHR 0x22] @ FormatInt v @ [CHR 0x22]"

definition param_status :: "param_error \<Rightarrow> nat" where
  "param_status e = (case e of PDiff _ \<Rightarrow> 409 | PNotFound \<Rightarrow> 404 | PDenied \<Rightarrow> 403 | PBadParam \<Rightarrow> 400 | PConflict \<Rightarrow> 409 | PDbError \<Rightarrow> 500)"

text \<open>The tables as each of the three queries of the handler sees them.\<close>

definition getParams ::
  "(string \<Rightarrow> byte list) \<Rightarrow> bool \<Rightarrow> bool \<Rightarrow> bool \<Rightarrow> string \<Rightarrow> string \<Rightarrow> string \<Rightarrow> string \<Rightarrow> string \<Rightarrow> ParamDB \<Rightarrow> ParamDB \<Rightarrow> ParamDB \<Rightarrow>
     metrics \<Rightarrow> (nat \<times> string \<times> DeltaResp option) \<times> metrics" where
  "getParams md5 f1 f2 f3 pk sinceText bucketText user inm db1 db2 db3 m =
     (if \<not> identRe pk then ((400, [], None), m)
      else (let since = (case ParseInt sinceText of None \<Rightarrow> 0 | Some v \<Rightarrow> v) in
       case bucketOf md5 bucketText user of
         Inl _ \<Rightarrow> ((400, [], None), m)
       | Inr bucket \<Rightarrow>
          (case Latest f1 pk bucket db1 of
             Inl x \<Rightarrow> ((param_status x, [], None), m)
           | Inr latest \<Rightarrow>
              (let tag = etag (LVersion latest); h = trimSpace inm in
               if h \<noteq> [] \<and> (h = tag \<or> h = trim_quotes tag) then ((304, tag, None), Inc ''not_modified'' m)
               else (case ServiceDelta f2 f3 pk since bucket db2 db3 m of
                 (Inl x, m') \<Rightarrow> ((param_status x, [], None), m')
               | (Inr d, m') \<Rightarrow> ((200, tag, Some d), m'))))))"

end
