(* ===== verification/ParamSafety.thy ===== *)
theory ParamSafety
  imports ParamService "HOL-Library.Multiset"
begin

text \<open>
  What the parameter library keeps true in every sequence of publications, whatever fails in them: versions are consecutive, two people
  stand behind each, and the snapshot file of a release shows for ever what was effective at it.
\<close>

subsection \<open>The transaction\<close>

text \<open>What clients keep of a profile: not the release that ends it, which is set later.\<close>

definition erase :: "Profile \<Rightarrow> Profile" where "erase p = p\<lparr>Removed := None\<rparr>"

lemma erase_simps [simp]: "ProfileID (erase p) = ProfileID p" "PKey (erase p) = PKey p" "Added (erase p) = Added p"
  by (simp_all add: erase_def)

definition content :: "ParamDB \<Rightarrow> string \<Rightarrow> int \<Rightarrow> Profile list" where
  "content db pk v = map erase (EffectiveAt (product_profiles pk db) v)"

fun numbered :: "PublishPlan \<Rightarrow> int \<Rightarrow> int \<Rightarrow> Profile list \<Rightarrow> Profile list" where
  "numbered plan v n [] = []"
| "numbered plan v n (p # ps) = (new_profile plan v p)\<lparr>ProfileID := n, Removed := None\<rparr> # numbered plan v (n + 1) ps"

definition marked :: "int set \<Rightarrow> string \<Rightarrow> int \<Rightarrow> Profile list \<Rightarrow> Profile list" where
  "marked I pk v = update_where (\<lambda>p. ProfileID p \<in> I \<and> PKey p = pk \<and> Removed p = None) (\<lambda>p. p\<lparr>Removed := Some v\<rparr>)"

definition removable :: "string \<Rightarrow> int \<Rightarrow> Profile list \<Rightarrow> int \<Rightarrow> bool" where
  "removable pk v ps i \<longleftrightarrow> (\<exists>p\<in>set ps. ProfileID p = i \<and> PKey p = pk \<and> Removed p = None) \<and>
     (\<forall>p\<in>set ps. ProfileID p = i \<and> PKey p = pk \<and> Removed p = None \<longrightarrow> Added p < v)"

lemma marked_marked: "marked I pk v (marked J pk v ps) = marked (I \<union> J) pk v ps"
  by (induction ps) (auto simp: marked_def)

lemma remove_profile_effect:
  assumes "remove_profile i pk v db = Inr (n, db')" "n \<noteq> 0"
  shows "db' = db\<lparr>profiles := marked {i} pk v (profiles db)\<rparr>" "removable pk v (profiles db) i"
proof -
  let ?Q = "\<lambda>p. ProfileID p = i \<and> PKey p = pk \<and> Removed p = None"
  have d: "db' = db\<lparr>profiles := update_where ?Q (\<lambda>p. p\<lparr>Removed := Some v\<rparr>) (profiles db)\<rparr>" and n: "n = affected ?Q (profiles db)"
    and l: "\<forall>p\<in>set (profiles db). ?Q p \<longrightarrow> Added p < v"
    using assms(1) by (auto simp: remove_profile_def Let_def list_ex_iff split: if_splits)
  show "db' = db\<lparr>profiles := marked {i} pk v (profiles db)\<rparr>" by (simp add: d marked_def)
  have "affected ?Q (profiles db) \<noteq> 0" using assms(2) n by simp
  then have "\<exists>p\<in>set (profiles db). ?Q p" by (simp only: affected_0_iff) blast
  then show "removable pk v (profiles db) i" using l by (simp add: removable_def)
qed

lemma marked_mem: "p \<in> set (marked I pk v ps) \<Longrightarrow> Removed p = None \<Longrightarrow> p \<in> set ps"
  by (induction ps) (auto simp: marked_def split: if_splits)

lemma marked_keeps: "p \<in> set ps \<Longrightarrow> PKey p = pk \<Longrightarrow> Removed p = None \<Longrightarrow> ProfileID p \<notin> I \<Longrightarrow> p \<in> set (marked I pk v ps)"
  by (induction ps) (auto simp: marked_def)

lemma removable_marked:
  assumes "removable pk v ps j" "\<forall>p\<in>set ps. ProfileID p \<in> I \<and> PKey p = pk \<and> Removed p = None \<longrightarrow> Added p < v"
    "removable pk v (marked I pk v ps) i"
  shows "removable pk v ps i"
  using assms marked_mem marked_keeps unfolding removable_def by blast

lemma remove_all_effect:
  "remove_all is pk v db = Inr db' \<Longrightarrow>
     db' = db\<lparr>profiles := marked (set is) pk v (profiles db)\<rparr> \<and> list_all (removable pk v (profiles db)) is"
proof (induction "is" pk v db rule: remove_all.induct)
  case (1 pk v db)
  have "marked {} pk v ps = ps" for ps by (induction ps) (simp_all add: marked_def)
  then show ?case using 1 by simp
next
  case (2 i js pk v db)
  obtain n db1 where r: "remove_profile i pk v db = Inr (n, db1)" "n \<noteq> 0"
    using 2(2) by (cases "remove_profile i pk v db") (auto split: if_splits)
  note e = remove_profile_effect[OF r]
  have "remove_all js pk v db1 = Inr db'" using 2(2) r by simp
  then have h: "db' = db1\<lparr>profiles := marked (set js) pk v (profiles db1)\<rparr>" "list_all (removable pk v (profiles db1)) js"
    using 2(1)[OF r(1) refl r(2)] by auto
  have old: "\<forall>p\<in>set (profiles db). ProfileID p \<in> {i} \<and> PKey p = pk \<and> Removed p = None \<longrightarrow> Added p < v"
    using e(2) by (simp add: removable_def)
  have "list_all (removable pk v (profiles db)) js"
    using h(2) removable_marked[OF e(2), of "{i}"] old by (auto simp: list_all_iff e(1))
  then show ?case using h(1) e by (simp add: marked_marked)
qed

lemma insert_profile_effect:
  "insert_profile p db = Inr db' \<Longrightarrow>
     db' = db\<lparr>profiles := profiles db @ [p\<lparr>ProfileID := next_id db, Removed := None\<rparr>], next_id := next_id db + 1\<rparr>"
  by (auto simp: insert_profile_def split: option.splits bool.splits if_splits)

lemma insert_all_effect:
  "insert_all plan v ps db = Inr db' \<Longrightarrow>
     db' = db\<lparr>profiles := profiles db @ numbered plan v (next_id db) ps, next_id := next_id db + int (length ps)\<rparr>"
proof (induction plan v ps db rule: insert_all.induct)
  case (2 plan v p ps db)
  obtain db1 where r: "insert_profile (new_profile plan v p) db = Inr db1"
    using 2(2) by (cases "insert_profile (new_profile plan v p) db") auto
  then show ?case using 2 insert_profile_effect[OF r] by simp
qed simp

definition after_publish :: "PublishPlan \<Rightarrow> int \<Rightarrow> time \<Rightarrow> ParamDB \<Rightarrow> ParamDB" where
  "after_publish plan v now db = db\<lparr>releases := releases db @ [plan_release plan v now],
     profiles := marked (set (PlRemoveIDs plan)) (PlKey plan) v (profiles db) @ numbered plan v (next_id db) (PlAdded plan),
     next_id := next_id db + int (length (PlAdded plan))\<rparr>"

lemma insert_release_effect:
  "insert_release r db = Inr db' \<Longrightarrow> db' = db\<lparr>releases := releases db @ [r]\<rparr> \<and> ck_release_approved (CreatedBy r) (ApprovedBy r) \<and>
     0 \<le> RolloutPct r \<and> RolloutPct r \<le> 100"
  by (auto simp: insert_release_def split: if_splits)

lemma publish_tables_effect:
  assumes "publish_tables e plan db = Inr (v, db')"
  shows "v = max_version (PlKey plan) db + 1 \<and> db' = after_publish plan v (PNow e) db \<and>
    ck_release_approved (PlCreatedBy plan) (PlApprovedBy plan) \<and> 0 < plan_pct plan \<and> plan_pct plan \<le> 100 \<and>
    list_all (removable (PlKey plan) v (profiles db)) (PlRemoveIDs plan)"
proof -
  let ?v = "max_version (PlKey plan) db + 1"
  have v: "v = ?v" using assms by (auto simp: publish_tables_def Let_def split: sum.splits if_splits)
  obtain db1 where 1: "insert_release (plan_release plan ?v (PNow e)) db = Inr db1"
    using assms by (auto simp: publish_tables_def Let_def split: sum.splits if_splits)
  obtain db2 where 2: "remove_all (PlRemoveIDs plan) (PlKey plan) ?v db1 = Inr db2"
    using assms 1 by (auto simp: publish_tables_def Let_def split: sum.splits if_splits)
  have 3: "insert_all plan ?v (PlAdded plan) db2 = Inr db'"
    using assms 1 2 by (auto simp: publish_tables_def Let_def split: sum.splits if_splits)
  note e1 = insert_release_effect[OF 1] and e2 = remove_all_effect[OF 2] and e3 = insert_all_effect[OF 3]
  have "0 < plan_pct plan" by (simp add: plan_pct_def)
  then show ?thesis
    using e1 e2 unfolding e3 v by (simp add: after_publish_def plan_release_def)
qed

lemma publish_tables_refused:
  assumes "publish_tables e plan db = Inl (x, nid)" shows "next_id db \<le> nid"
proof -
  have ins: "next_id d \<le> n" if "insert_all plan v ps d = Inl (y, n)" for v ps d y n
    using that
  proof (induction plan v ps d rule: insert_all.induct)
    case (2 plan v p ps db)
    then show ?case
      by (cases "insert_profile (new_profile plan v p) db") (auto dest: insert_profile_effect)
  qed simp
  have ins2: "next_id db2 \<le> next_id db3" if "insert_all plan v ps db2 = Inr db3" for v ps db2 db3
    using insert_all_effect[OF that] by simp
  show ?thesis
    using assms
    by (auto simp: publish_tables_def Let_def split: sum.splits if_splits dest!: insert_release_effect remove_all_effect ins ins2)
qed

subsection \<open>What was effective before\<close>

lemma erase_removed [simp]: "erase (p\<lparr>Removed := r\<rparr>) = erase p"
  by (simp add: erase_def)

lemma numbered_rows:
  "p \<in> set (numbered plan v n ps) \<Longrightarrow> PKey p = PlKey plan \<and> Added p = v \<and> Removed p = None \<and> Source p \<noteq> [] \<and>
     (PlApprovedBy plan \<noteq> [] \<longrightarrow> PApprovedBy p \<noteq> []) \<and> n \<le> ProfileID p \<and> ProfileID p < n + int (length ps)"
  by (induction plan v n ps rule: numbered.induct) (auto simp: new_profile_def SourceOfficial_def split: if_splits)

lemma numbered_ids: "map ProfileID (numbered plan v n ps) = [n..n + int (length ps) - 1]"
proof (induction plan v n ps rule: numbered.induct)
  case (2 plan v n p ps)
  then show ?case by (subst upto_rec1) (auto simp: algebra_simps)
qed simp

lemma effective_marked:
  "w < v \<Longrightarrow> map erase (filter (IsEffective w) (marked I pk v ps)) = map erase (filter (IsEffective w) ps)"
  by (induction ps) (auto simp: marked_def IsEffective_def)

lemma product_marked: "filter (\<lambda>p. PKey p = k) (marked I pk v ps) = marked I pk v (filter (\<lambda>p. PKey p = k) ps)"
  by (induction ps) (auto simp: marked_def)

lemma marked_other: "k \<noteq> pk \<Longrightarrow> marked I pk v (filter (\<lambda>p. PKey p = k) ps) = filter (\<lambda>p. PKey p = k) ps"
  by (induction ps) (auto simp: marked_def)

lemma product_after_publish:
  "product_profiles k (after_publish plan v now db) =
     (if k = PlKey plan then marked (set (PlRemoveIDs plan)) k v (product_profiles k db) @ numbered plan v (next_id db) (PlAdded plan)
      else product_profiles k db)"
proof -
  have "filter (\<lambda>p. PKey p = k) (numbered plan v n ps) = (if k = PlKey plan then numbered plan v n ps else [])" for n ps
    using numbered_rows by (auto simp: filter_empty_conv)
  then show ?thesis by (simp add: product_profiles_def after_publish_def product_marked marked_other)
qed

lemma content_before: "w < v \<Longrightarrow> content (after_publish plan v now db) k w = content db k w"
proof -
  assume w: "w < v"
  then have "filter (IsEffective w) (numbered plan v n ps) = []" for n ps
    by (auto simp: filter_empty_conv IsEffective_def dest: numbered_rows)
  then show ?thesis by (simp add: content_def EffectiveAt_def product_after_publish effective_marked[OF w])
qed

text \<open>The release itself: everything effective before it but what was removed, and what was added.\<close>

definition before :: "int \<Rightarrow> Profile \<Rightarrow> bool" where
  "before v p \<longleftrightarrow> Added p < v \<and> (case Removed p of None \<Rightarrow> True | Some r \<Rightarrow> r < v)"

lemma effective_last_row:
  assumes "before v p"
  shows "IsEffective v p \<longleftrightarrow> Removed p = None" "IsEffective (v - 1) p \<longleftrightarrow> Removed p = None" "\<not> IsEffective v (p\<lparr>Removed := Some v\<rparr>)"
  using assms by (auto simp: before_def IsEffective_def split: option.splits)

lemma effective_last:
  "list_all (before v) ps \<Longrightarrow> list_all (\<lambda>p. PKey p = pk) ps \<Longrightarrow>
     map erase (filter (IsEffective v) (marked I pk v ps)) =
     filter (\<lambda>p. ProfileID p \<notin> I) (map erase (filter (IsEffective (v - 1)) ps))"
  by (induction ps) (simp_all add: marked_def effective_last_row)

lemma content_of_release:
  assumes "list_all (before v) (product_profiles (PlKey plan) db)"
  shows "content (after_publish plan v now db) (PlKey plan) v =
    filter (\<lambda>p. ProfileID p \<notin> set (PlRemoveIDs plan)) (content db (PlKey plan) (v - 1)) @ numbered plan v (next_id db) (PlAdded plan)"
proof -
  have "filter (IsEffective v) (numbered plan v n ps) = numbered plan v n ps" for n ps
    by (rule filter_True) (auto simp: IsEffective_def dest!: numbered_rows)
  moreover have "map erase (numbered plan v n ps) = numbered plan v n ps" for n ps
    by (rule map_idI) (auto simp: erase_def dest!: numbered_rows)
  ultimately show ?thesis
    using effective_last[OF assms, of "PlKey plan" "set (PlRemoveIDs plan)"]
    by (simp add: content_def EffectiveAt_def product_after_publish list_all_iff) (simp add: product_profiles_def)
qed

subsection \<open>The invariant\<close>

definition profile_ok :: "ParamDB \<Rightarrow> Profile \<Rightarrow> bool" where
  "profile_ok db p \<longleftrightarrow> 1 \<le> Added p \<and> before (max_version (PKey p) db + 1) p \<and> ProfileID p < next_id db \<and> Source p \<noteq> [] \<and>
     PApprovedBy p \<noteq> []"

definition versions :: "string \<Rightarrow> ParamDB \<Rightarrow> int list" where
  "versions pk db = map Version (filter (\<lambda>r. RKey r = pk) (releases db))"

definition release_ok :: "Release \<Rightarrow> bool" where
  "release_ok r \<longleftrightarrow> ck_release_approved (CreatedBy r) (ApprovedBy r) \<and> 1 \<le> RolloutPct r \<and> RolloutPct r \<le> 100 \<and>
     SnapshotURL r = snapshot_url (RKey r) (Version r)"

definition file_ok :: "ParamSt \<Rightarrow> Release \<Rightarrow> bool" where
  "file_ok s r \<longleftrightarrow> (case files s (RKey r, Version r) of None \<Rightarrow> False
     | Some sn \<Rightarrow> SnKey sn = RKey r \<and> SnVersion sn = Version r \<and> SnReleasedAt sn = ReleasedAt r \<and>
         map erase (SnProfiles sn) = content (pdb s) (RKey r) (Version r))"

definition param_ok :: "ParamSt \<Rightarrow> bool" where
  "param_ok s \<longleftrightarrow> (\<forall>pk. versions pk (pdb s) = [1..max_version pk (pdb s)]) \<and> list_all (profile_ok (pdb s)) (profiles (pdb s)) \<and>
     distinct (map ProfileID (profiles (pdb s))) \<and> list_all release_ok (releases (pdb s)) \<and> list_all (file_ok s) (releases (pdb s))"

lemma max_version_nonneg: "0 \<le> max_version pk db"
proof -
  have "(m :: int) \<le> foldl max m xs" for m xs
    by (induction xs arbitrary: m) (auto intro: order_trans[OF max.cobounded1])
  then show ?thesis by (simp add: max_version_def)
qed

lemma version_le_max: "r \<in> set (releases db) \<Longrightarrow> RKey r = pk \<Longrightarrow> Version r \<le> max_version pk db"
proof -
  have ge: "(m :: int) \<le> foldl max m xs" for m xs
    by (induction xs arbitrary: m) (auto intro: order_trans[OF max.cobounded1])
  have "x \<in> set xs \<Longrightarrow> (x :: int) \<le> foldl max m xs" for m x xs
    by (induction xs arbitrary: m) (auto intro: order_trans[OF max.cobounded2 ge])
  then show "r \<in> set (releases db) \<Longrightarrow> RKey r = pk \<Longrightarrow> Version r \<le> max_version pk db"
    by (simp add: max_version_def)
qed

lemma max_version_cong: "map Version (filter (\<lambda>r. RKey r = pk) (releases db')) = map Version (filter (\<lambda>r. RKey r = pk) (releases db)) \<Longrightarrow>
  max_version pk db' = max_version pk db"
  by (simp add: max_version_def)

lemma set_url_simps [simp]: "profiles (set_url pk v u db) = profiles db" "next_id (set_url pk v u db) = next_id db"
  "content (set_url pk v u db) k w = content db k w" "max_version k (set_url pk v u db) = max_version k db"
  "versions k (set_url pk v u db) = versions k db"
proof -
  have "map Version (filter (\<lambda>r. RKey r = k) (update_where Q (\<lambda>r. r\<lparr>SnapshotURL := u\<rparr>) rs)) = map Version (filter (\<lambda>r. RKey r = k) rs)" for Q rs
    by (induction rs) auto
  then have "map Version (filter (\<lambda>r. RKey r = k) (releases (set_url pk v u db))) = map Version (filter (\<lambda>r. RKey r = k) (releases db))"
    by (simp add: set_url_def)
  then show "max_version k (set_url pk v u db) = max_version k db" "versions k (set_url pk v u db) = versions k db"
    by (simp_all add: max_version_def versions_def)
qed (simp_all add: set_url_def content_def product_profiles_def)

text \<open>How a publication ends.\<close>

definition undone :: "string \<Rightarrow> ParamSt \<Rightarrow> ParamSt \<Rightarrow> bool" where
  "undone pk s s' \<longleftrightarrow> (\<exists>n\<ge>next_id (pdb s). pdb s' = (pdb s)\<lparr>next_id := n\<rparr>) \<and> pm s' = pm s \<and>
     (files s' = files s \<or> (\<exists>sn. files s' = (files s)((pk, max_version pk (pdb s) + 1) \<mapsto> sn)))"

definition committed :: "PublishPlan \<Rightarrow> time \<Rightarrow> ParamSt \<Rightarrow> ParamSt \<Rightarrow> bool" where
  "committed plan now s s' \<longleftrightarrow> (let pk = PlKey plan; v = max_version pk (pdb s) + 1; db = after_publish plan v now (pdb s) in
     pdb s' = set_url pk v (snapshot_url pk v) db \<and> files s' = (files s)((pk, v) \<mapsto> snapshot_of pk v now db) \<and> pm s' = pm s \<and>
     ck_release_approved (PlCreatedBy plan) (PlApprovedBy plan) \<and> 0 < plan_pct plan \<and> plan_pct plan \<le> 100 \<and>
     list_all (removable pk v (profiles (pdb s))) (PlRemoveIDs plan))"

lemma StorePublish_ends:
  assumes "StorePublish e plan s = (res, s')"
  shows "(\<exists>x. res = Inl x \<and> undone (PlKey plan) s s') \<or>
    (committed plan (PNow e) s s' \<and> (res = Inr ((plan_release plan (max_version (PlKey plan) (pdb s) + 1) (PNow e))
       \<lparr>SnapshotURL := snapshot_url (PlKey plan) (max_version (PlKey plan) (pdb s) + 1)\<rparr>) \<or> (\<exists>x. res = Inl x \<and> PCommit e = CommitLost)))"
proof (cases "publish_tables e plan (pdb s)")
  case (Inl y)
  then show ?thesis
    using assms publish_tables_refused[of e plan "pdb s" "fst y" "snd y"] by (cases y) (auto simp: StorePublish_def Let_def undone_def)
next
  case (Inr y)
  obtain v db where y: "y = (v, db)" by (cases y)
  note eff = publish_tables_effect[OF Inr[unfolded y]]
  have nid: "next_id (pdb s) \<le> next_id db" using eff by (simp add: after_publish_def)
  show ?thesis
    using assms nid eff unfolding StorePublish_def Inr y Let_def undone_def committed_def
    by (cases "PCommit e") (auto split: if_splits)
qed

lemma file_ok_same:
  "files s' (RKey r, Version r) = files s (RKey r, Version r) \<Longrightarrow>
   content (pdb s') (RKey r) (Version r) = content (pdb s) (RKey r) (Version r) \<Longrightarrow> file_ok s' r = file_ok s r"
  by (cases "files s (RKey r, Version r)") (simp_all add: file_ok_def)

lemma undone_keeps:
  assumes "param_ok s" "undone pk s s'" shows "param_ok s'"
proof -
  obtain n where d: "n \<ge> next_id (pdb s)" "pdb s' = (pdb s)\<lparr>next_id := n\<rparr>" using assms(2) by (auto simp: undone_def)
  have f: "files s' (RKey r, Version r) = files s (RKey r, Version r)" if "r \<in> set (releases (pdb s))" for r
    using assms(2) version_le_max[OF that refl] by (auto simp: undone_def)
  have same: "max_version k (pdb s') = max_version k (pdb s)" "versions k (pdb s') = versions k (pdb s)"
    "content (pdb s') k v = content (pdb s) k v" for k v
    by (simp_all add: d(2) max_version_def versions_def content_def product_profiles_def)
  have "list_all (file_ok s') (releases (pdb s))"
    using assms(1) file_ok_same[OF f same(3)] by (simp add: param_ok_def list_all_iff)
  then show ?thesis
    using assms(1) d(1) same by (auto simp: param_ok_def d(2) list_all_iff profile_ok_def)
qed

lemma max_version_after_publish:
  "max_version k (after_publish plan (max_version (PlKey plan) db + 1) now db) = (if k = PlKey plan then max_version k db + 1 else max_version k db)"
  by (simp add: max_version_def after_publish_def plan_release_def)

lemma versions_after_publish:
  "versions k (after_publish plan v now db) = versions k db @ (if k = PlKey plan then [v] else [])"
  by (simp add: versions_def after_publish_def plan_release_def)

lemma marked_ids: "map ProfileID (marked I pk v ps) = map ProfileID ps"
  unfolding marked_def by (rule map_update_where_frame) simp

lemma profile_ok_marked:
  assumes "profile_ok db p" "v = max_version pk db + 1"
    "p' = (if ProfileID p \<in> I \<and> PKey p = pk \<and> Removed p = None then p\<lparr>Removed := Some v\<rparr> else p)"
    "next_id db \<le> next_id db'" "\<And>k. max_version k db' = (if k = pk then v else max_version k db)"
  shows "profile_ok db' p'"
  using assms by (auto simp: profile_ok_def before_def split: option.splits)

lemma profiles_after_publish:
  assumes "list_all (profile_ok db) (profiles db)" "v = max_version (PlKey plan) db + 1" "PlApprovedBy plan \<noteq> []"
  shows "list_all (profile_ok (after_publish plan v now db)) (profiles (after_publish plan v now db))"
proof -
  let ?db = "after_publish plan v now db"
  have n: "next_id db \<le> next_id ?db" by (simp add: after_publish_def)
  have m: "max_version k ?db = (if k = PlKey plan then v else max_version k db)" for k
    using max_version_after_publish[of k plan db now] by (simp add: assms(2))
  have "list_all (profile_ok ?db) (marked (set (PlRemoveIDs plan)) (PlKey plan) v (profiles db))"
    using assms(1) unfolding marked_def list_all_iff ball_update_where
    by (intro ballI) (rule profile_ok_marked[OF _ assms(2) refl n m], blast)
  moreover have "next_id ?db = next_id db + int (length (PlAdded plan))" by (simp add: after_publish_def)
  then have "list_all (profile_ok ?db) (numbered plan v (next_id db) (PlAdded plan))"
    using assms(2,3) max_version_nonneg[of "PlKey plan" db]
    by (auto simp: list_all_iff profile_ok_def before_def max_version_after_publish dest!: numbered_rows)
  ultimately show ?thesis by (simp add: after_publish_def)
qed

lemma committed_releases:
  assumes "committed plan now s s'"
  shows "releases (pdb s') = releases (pdb s) @ [(plan_release plan (max_version (PlKey plan) (pdb s) + 1) now)
    \<lparr>SnapshotURL := snapshot_url (PlKey plan) (max_version (PlKey plan) (pdb s) + 1)\<rparr>]"
proof -
  have "update_where (\<lambda>r. RKey r = PlKey plan \<and> Version r = max_version (PlKey plan) (pdb s) + 1) f (releases (pdb s)) = releases (pdb s)" for f
    by (rule update_where_unaffected) (use version_le_max in \<open>fastforce simp: affected_0_iff\<close>)
  moreover have "pdb s' = set_url (PlKey plan) (max_version (PlKey plan) (pdb s) + 1)
      (snapshot_url (PlKey plan) (max_version (PlKey plan) (pdb s) + 1)) (after_publish plan (max_version (PlKey plan) (pdb s) + 1) now (pdb s))"
    using assms unfolding committed_def Let_def by blast
  ultimately show ?thesis by (simp add: set_url_def after_publish_def update_where_def plan_release_def)
qed

lemma committed_content:
  assumes "committed plan now s s'" "w \<le> max_version k (pdb s)"
  shows "content (pdb s') k w = content (pdb s) k w" "files s' (k, w) = files s (k, w)" "max_version k (pdb s) \<le> max_version k (pdb s')"
proof -
  let ?v = "max_version (PlKey plan) (pdb s) + 1"
  have db: "pdb s' = set_url (PlKey plan) ?v (snapshot_url (PlKey plan) ?v) (after_publish plan ?v now (pdb s))"
    and fs: "files s' = (files s)((PlKey plan, ?v) \<mapsto> snapshot_of (PlKey plan) ?v now (after_publish plan ?v now (pdb s)))"
    using assms(1) unfolding committed_def Let_def by blast+
  show "max_version k (pdb s) \<le> max_version k (pdb s')" by (simp add: db max_version_after_publish)
  have w: "w < ?v" if "k = PlKey plan" using that assms(2) by simp
  show "content (pdb s') k w = content (pdb s) k w"
  proof (cases "k = PlKey plan")
    case True
    then show ?thesis using content_before[OF w] by (simp add: db)
  next
    case False
    then show ?thesis by (simp add: db) (simp add: content_def product_after_publish)
  qed
  show "files s' (k, w) = files s (k, w)" using assms(2) by (auto simp: fs)
qed

lemma committed_keeps:
  assumes ok: "param_ok s" and c: "committed plan now s s'"
  shows "param_ok s'"
proof -
  let ?pk = "PlKey plan"
  let ?v = "max_version ?pk (pdb s) + 1"
  let ?db = "after_publish plan ?v now (pdb s)"
  let ?new = "(plan_release plan ?v now)\<lparr>SnapshotURL := snapshot_url ?pk ?v\<rparr>"
  note d = c[unfolded committed_def Let_def]
  have db: "pdb s' = set_url ?pk ?v (snapshot_url ?pk ?v) ?db" using d by blast
  have fs: "files s' = (files s)((?pk, ?v) \<mapsto> snapshot_of ?pk ?v now ?db)" using d by blast
  note rel = committed_releases[OF c]
  have "versions k (pdb s') = [1..max_version k (pdb s')]" for k
    using ok max_version_nonneg[of "PlKey plan" "pdb s"]
    by (simp add: param_ok_def db versions_after_publish max_version_after_publish upto_rec2[of 1 "max_version (PlKey plan) (pdb s) + 1"])
  moreover have "list_all (profile_ok (pdb s')) (profiles (pdb s'))"
  proof -
    have "PlApprovedBy plan \<noteq> []" using d by (simp add: ck_release_approved_def)
    then have "list_all (profile_ok ?db) (profiles ?db)"
      using ok profiles_after_publish[OF _ refl] by (simp add: param_ok_def)
    then show ?thesis by (simp add: db profile_ok_def list_all_iff)
  qed
  moreover have "distinct (map ProfileID (profiles (pdb s')))"
  proof -
    have "set (map ProfileID (profiles (pdb s))) \<inter> {next_id (pdb s)..n} = {}" for n
      using ok by (auto simp: param_ok_def list_all_iff profile_ok_def)
    then show ?thesis
      using ok by (simp add: param_ok_def db after_publish_def marked_ids numbered_ids del: set_map)
  qed
  moreover have "list_all release_ok (releases (pdb s'))"
  proof -
    have "ck_release_approved (PlCreatedBy plan) (PlApprovedBy plan) \<and> 0 < plan_pct plan \<and> plan_pct plan \<le> 100" using d by blast
    then show ?thesis unfolding rel using ok by (simp add: param_ok_def release_ok_def plan_release_def)
  qed
  moreover have "list_all (file_ok s') (releases (pdb s'))"
  proof -
    have "file_ok s' r = file_ok s r" if "r \<in> set (releases (pdb s))" for r
      using committed_content[OF c version_le_max[OF that refl]] by (intro file_ok_same)
    moreover have "file_ok s' ?new"
      by (simp add: file_ok_def fs plan_release_def snapshot_of_def db) (simp add: content_def)
    ultimately show ?thesis using ok by (simp add: param_ok_def list_all_iff rel)
  qed
  ultimately show ?thesis by (simp add: param_ok_def)
qed

subsection \<open>Every sequence of operations\<close>

text \<open>Transactions of publications and rollbacks, user parameters, and whatever else writes the other tables.\<close>

definition elsewhere :: "ParamSt \<Rightarrow> ParamSt \<Rightarrow> bool" where
  "elsewhere s s' \<longleftrightarrow> releases (pdb s') = releases (pdb s) \<and> profiles (pdb s') = profiles (pdb s) \<and> next_id (pdb s') = next_id (pdb s) \<and>
     user_params (pdb s') = user_params (pdb s) \<and> files s' = files s"

inductive param_step :: "ParamSt \<Rightarrow> ParamSt \<Rightarrow> bool" where
  transaction: "StorePublish e plan s = (res, s') \<Longrightarrow> param_step s s'"
| own: "PutUserParam a1 a2 up ifMatch now s = (res, s') \<Longrightarrow> param_step s s'"
| other: "elsewhere s s' \<Longrightarrow> param_step s s'"

abbreviation param_steps :: "ParamSt \<Rightarrow> ParamSt \<Rightarrow> bool" where "param_steps \<equiv> param_step\<^sup>*\<^sup>*"

definition param_reach :: "ParamSt \<Rightarrow> bool" where
  "param_reach s \<longleftrightarrow> (\<exists>s0. releases (pdb s0) = [] \<and> profiles (pdb s0) = [] \<and> user_params (pdb s0) = [] \<and> param_steps s0 s)"

text \<open>What two states of the library have in common when the releases and profiles are the same.\<close>

lemma same_library_ok:
  assumes "releases (pdb s') = releases (pdb s)" "profiles (pdb s') = profiles (pdb s)" "next_id (pdb s') = next_id (pdb s)"
    "files s' = files s" "param_ok s"
  shows "param_ok s'"
proof -
  have "max_version k (pdb s') = max_version k (pdb s)" "versions k (pdb s') = versions k (pdb s)"
    "content (pdb s') k v = content (pdb s) k v" for k v
    using assms by (simp_all add: max_version_def versions_def content_def product_profiles_def)
  then show ?thesis
    using assms file_ok_same[of s' _ s] by (simp add: param_ok_def list_all_iff profile_ok_def)
qed

lemma exec_frame:
  assumes "\<And>db r db'. f db = Some (r, db') \<Longrightarrow> g db' = g db" "exec a f db = (r, db')" shows "g db' = g db"
  using assms by (auto simp: exec_def split: answer.splits option.splits prod.splits if_splits)

lemma PutUserParam_frame:
  assumes "PutUserParam a1 a2 up ifMatch now s = (res, s')"
  shows "\<exists>ups. pdb s' = (pdb s)\<lparr>user_params := ups\<rparr>" "files s' = files s"
proof -
  let ?f = "if ifMatch = 0 then stmt_put_new up now else stmt_put_old up ifMatch now"
  let ?g = "\<lambda>db. db\<lparr>user_params := []\<rparr>"
  obtain r db where x: "exec a1 ?f (pdb s) = (r, db)" by fastforce
  have "?g db = ?g (pdb s)"
    by (rule exec_frame[OF _ x]) (auto simp: stmt_put_new_def stmt_put_old_def Let_def split: if_splits)
  then have "db = (pdb s)\<lparr>user_params := user_params db\<rparr>"
    by (cases db, cases "pdb s") simp
  moreover have "pdb s' = db \<or> s' = s"
    using assms x by (auto simp: PutUserParam_def StorePutUserParam_def pinc_def split: option.splits prod.splits sum.splits if_splits)
  ultimately show "\<exists>ups. pdb s' = (pdb s)\<lparr>user_params := ups\<rparr>"
    by (metis ParamDB.surjective ParamDB.update_convs(8))
  show "files s' = files s"
    using assms by (auto simp: PutUserParam_def pinc_def split: prod.splits sum.splits if_splits)
qed

lemma param_step_ok: "param_step s s' \<Longrightarrow> param_ok s \<Longrightarrow> param_ok s'"
proof (induction rule: param_step.induct)
  case (transaction e plan s res s')
  then show ?case using StorePublish_ends[OF transaction(1)] undone_keeps committed_keeps by blast
next
  case (own a1 a2 up ifMatch now s res s')
  obtain ups where "pdb s' = (pdb s)\<lparr>user_params := ups\<rparr>" using PutUserParam_frame(1)[OF own(1)] by blast
  then show ?case
    using same_library_ok[OF _ _ _ PutUserParam_frame(2)[OF own(1)] own(2)] by simp
next
  case (other s s')
  then show ?case using same_library_ok[of s' s] by (simp add: elsewhere_def)
qed

lemma param_steps_ok: "param_steps s s' \<Longrightarrow> param_ok s \<Longrightarrow> param_ok s'"
  by (induction rule: rtranclp_induct) (auto intro: param_step_ok)

lemma param_reach_ok: "param_reach s \<Longrightarrow> param_ok s"
  unfolding param_reach_def
proof (elim exE conjE)
  fix s0 assume "releases (pdb s0) = []" "profiles (pdb s0) = []" "param_steps s0 s"
  then show "param_ok s"
    by (elim param_steps_ok) (simp add: param_ok_def versions_def max_version_def)
qed

definition library_grows :: "ParamSt \<Rightarrow> ParamSt \<Rightarrow> bool" where
  "library_grows s s' \<longleftrightarrow> set (releases (pdb s)) \<subseteq> set (releases (pdb s')) \<and>
     (\<forall>k. max_version k (pdb s) \<le> max_version k (pdb s') \<and>
       (\<forall>w\<le>max_version k (pdb s). content (pdb s') k w = content (pdb s) k w \<and> files s' (k, w) = files s (k, w)))"

lemma library_grows_same:
  assumes "releases (pdb s') = releases (pdb s)" "profiles (pdb s') = profiles (pdb s)"
    "\<And>k w. w \<le> max_version k (pdb s) \<Longrightarrow> files s' (k, w) = files s (k, w)"
  shows "library_grows s s'"
  using assms by (simp add: library_grows_def max_version_def content_def product_profiles_def)

lemma library_grows_trans: "library_grows a b \<Longrightarrow> library_grows b c \<Longrightarrow> library_grows a c"
  unfolding library_grows_def by (metis order_trans)

lemma param_step_grows: "param_step s s' \<Longrightarrow> library_grows s s'"
proof (induction rule: param_step.induct)
  case (transaction e plan s res s')
  consider "undone (PlKey plan) s s'" | "committed plan (PNow e) s s'" using StorePublish_ends[OF transaction(1)] by blast
  then show ?case
  proof cases
    case 1
    then show ?thesis by (intro library_grows_same) (auto simp: undone_def)
  next
    case 2
    have "set (releases (pdb s)) \<subseteq> set (releases (pdb s'))" by (simp add: committed_releases[OF 2]) blast
    then show ?thesis using committed_content(1,2)[OF 2] committed_content(3)[OF 2 order_refl] by (simp add: library_grows_def)
  qed
next
  case (own a1 a2 up ifMatch now s res s')
  then show ?case using PutUserParam_frame[OF own(1)] by (intro library_grows_same) auto
next
  case (other s s')
  then show ?case by (intro library_grows_same) (auto simp: elsewhere_def)
qed

lemma param_steps_grow: "param_steps s s' \<Longrightarrow> library_grows s s'"
proof (induction rule: rtranclp_induct)
  case base
  show ?case by (simp add: library_grows_def)
next
  case (step y z)
  then show ?case using param_step_grows library_grows_trans by blast
qed

text \<open>The operations of the service are such steps.\<close>

lemma pinc_elsewhere: "elsewhere s (pinc n s)" "elsewhere s (padd n k s)"
  by (simp_all add: elsewhere_def pinc_def padd_def)

lemma StorePublish_step: "param_step s (snd (StorePublish e plan s))"
  by (rule param_step.transaction[of e plan s "fst (StorePublish e plan s)"]) simp

lemma metrics_steps: "param_steps s t \<Longrightarrow> param_steps s (pinc n t)" "param_steps s t \<Longrightarrow> param_steps s (padd n k t)"
  by (auto intro: rtranclp.rtrancl_into_rtrancl param_step.other pinc_elsewhere)

lemma Publish_steps:
  assumes "\<And>t. param_steps t (others t)"
  shows "param_steps s (snd (Publish hash f1 f2 e others req s))"
proof -
  have "param_steps s (snd (StorePublish e plan (others t)))" if "param_steps s t" for plan t
    using that assms[of t] by (meson StorePublish_step rtranclp.rtrancl_into_rtrancl rtranclp_trans)
  then have "param_steps s t'" if "StorePublish e plan (others t) = (r, t')" "param_steps s t" for plan t r t'
    using that by (metis snd_conv)
  then show ?thesis
    by (auto simp: Publish_def intro!: metrics_steps split: sum.splits prod.splits param_error.splits if_splits)
qed

subsection \<open>Releases are for ever\<close>

text \<open>
  C21: A release once made stays: its row never changes, its snapshot file never changes, has the address in the row and shows exactly
  the profiles the database takes to be effective at that version, then and in every later state; its versions are numbered without
  gaps; and somebody else than its creator approved it. Whatever statements, files and commits fail in this or other publications.
\<close>

theorem released_snapshots_immutable:
  assumes "param_reach s" "param_steps s t" "r \<in> set (releases (pdb s))"
  shows "r \<in> set (releases (pdb t)) \<and> files t (RKey r, Version r) = files s (RKey r, Version r) \<and>
    (\<exists>sn. files s (RKey r, Version r) = Some sn \<and> map erase (SnProfiles sn) = content (pdb t) (RKey r) (Version r)) \<and>
    SnapshotURL r = snapshot_url (RKey r) (Version r) \<and> ApprovedBy r \<noteq> [] \<and> ApprovedBy r \<noteq> CreatedBy r \<and>
    versions (RKey r) (pdb t) = [1..max_version (RKey r) (pdb t)]"
proof -
  have ok: "param_ok s" "param_ok t" using param_reach_ok[OF assms(1)] param_steps_ok[OF assms(2)] by blast+
  have g: "library_grows s t" by (rule param_steps_grow[OF assms(2)])
  have v: "Version r \<le> max_version (RKey r) (pdb s)" by (rule version_le_max[OF assms(3) refl])
  have "file_ok s r" "release_ok r" using ok(1) assms(3) by (auto simp: param_ok_def list_all_iff)
  then show ?thesis
    using g v ok(2) assms(3)
    by (auto simp: library_grows_def file_ok_def release_ok_def ck_release_approved_def param_ok_def split: option.splits)
qed

subsection \<open>Catching up\<close>

lemma delta_catches_up:
  assumes "distinct (map ProfileID ps)" "Delta ps since v = (rem, add)"
  shows "mset (map erase (EffectiveAt ps v)) =
    mset (filter (\<lambda>p. ProfileID p \<notin> set rem) (map erase (EffectiveAt ps since)) @ map erase add)"
  (is "?l = mset ?r")
proof -
  have one: "p \<in> set ps \<Longrightarrow> q \<in> set ps \<Longrightarrow> ProfileID p = ProfileID q \<Longrightarrow> p = q" for p q
    using assms(1) by (auto simp: distinct_map inj_on_def)
  have rem: "set rem = ProfileID ` {p \<in> set ps. IsEffective since p \<and> \<not> IsEffective v p}" and
    add: "add = filter (\<lambda>p. \<not> IsEffective since p \<and> IsEffective v p) ps"
    using assms(2) by (auto simp: Delta_def)
  have "filter (\<lambda>p. ProfileID p \<notin> set rem) (map erase (EffectiveAt ps since)) = map erase (filter (\<lambda>p. IsEffective since p \<and> IsEffective v p) ps)"
    using one by (auto simp: rem EffectiveAt_def filter_map comp_def intro!: arg_cong[where f = "map erase"] filter_cong)
  moreover have "mset (filter (IsEffective v) ps) =
      mset (filter (\<lambda>p. IsEffective since p \<and> IsEffective v p) ps) + mset (filter (\<lambda>p. \<not> IsEffective since p \<and> IsEffective v p) ps)"
    by (induction ps) auto
  ultimately show ?thesis by (simp add: add EffectiveAt_def)
qed

lemma foldl_max_Max: "foldl max m xs = Max (insert m (set xs))" for m :: int
proof (induction xs arbitrary: m)
  case (Cons x xs)
  have "Max (insert (max m x) (set xs)) = Max (insert m (insert x (set xs)))"
    by (cases "xs = []") (simp_all add: Max_insert max.assoc)
  then show ?case using Cons by simp
qed simp

lemma latest_max_version: "foldl max 0 (map Version (product_releases pk db)) = max_version pk db"
  by (simp add: product_releases_def max_version_def foldl_max_Max)

lemma Latest_known:
  assumes "Latest f pk bucket db = Inr l"
  shows "\<exists>r\<in>set (releases db). RKey r = pk \<and> Version r = LVersion l \<and> SnapshotURL r = LSnapshotURL l"
proof -
  obtain r where "find (\<lambda>r. InRollout bucket (RolloutPct r)) (sort_key (\<lambda>r. - Version r) (product_releases pk db)) = Some r"
    "Version r = LVersion l" "SnapshotURL r = LSnapshotURL l"
    using assms by (auto simp: Latest_def VisibleVersion_def split: option.splits if_splits)
  moreover have "r \<in> set (product_releases pk db)"
  proof -
    have "find P xs = Some x \<Longrightarrow> x \<in> set xs" for P x and xs :: "Release list"
      by (induction xs) (auto split: if_splits)
    then show ?thesis using calculation(1) by (metis set_sort)
  qed
  ultimately show ?thesis by (auto simp: product_releases_def)
qed

text \<open>
  C22: A client that applies the answer of a delta request to what was effective at its version has what is effective at the version of
  the answer, and that is what the snapshot file of that version shows, even if releases were made between the two
  queries that the answer rests on.
\<close>

theorem delta_brings_up_to_date:
  assumes "param_reach s" "param_steps s t" "0 \<le> since"
    "ServiceDelta f1 f2 pk since bucket (pdb s) (pdb t) m = (Inr d, m')" "\<not> ForceFull d"
  shows "mset (content (pdb t) pk (DVersion d)) =
      mset (filter (\<lambda>p. ProfileID p \<notin> set (DRemoved d)) (content (pdb s) pk since) @ map erase (DAdded d)) \<and>
    (\<exists>sn. files t (pk, DVersion d) = Some sn \<and> map erase (SnProfiles sn) = content (pdb t) pk (DVersion d))"
proof -
  have ok: "param_ok s" "param_ok t" using param_reach_ok[OF assms(1)] param_steps_ok[OF assms(2)] by blast+
  obtain l where l: "Latest f1 pk bucket (pdb s) = Inr l"
    using assms(4) by (cases "Latest f1 pk bucket (pdb s)") (auto simp: ServiceDelta_def)
  obtain r where r: "r \<in> set (releases (pdb s))" "RKey r = pk" "Version r = LVersion l" using Latest_known[OF l] by blast
  have d: "since \<le> LVersion l" "DVersion d = LVersion l" "Delta (product_profiles pk (pdb t)) since (LVersion l) = (DRemoved d, DAdded d)"
    using assms(3,4,5) l by (auto simp: ServiceDelta_def Let_def split: if_splits prod.splits)
  have le: "LVersion l \<le> max_version pk (pdb s)" using version_le_max[OF r(1,2)] r(3) by simp
  have g: "library_grows s t" by (rule param_steps_grow[OF assms(2)])
  have same: "content (pdb t) pk since = content (pdb s) pk since" "r \<in> set (releases (pdb t))"
    using g le d(1) r(1) by (auto simp: library_grows_def)
  have "distinct (map ProfileID (product_profiles pk (pdb t)))"
    using ok(2) by (simp add: param_ok_def product_profiles_def distinct_map_filter)
  then have "mset (content (pdb t) pk (LVersion l)) =
      mset (filter (\<lambda>p. ProfileID p \<notin> set (DRemoved d)) (content (pdb t) pk since) @ map erase (DAdded d))"
    unfolding content_def by (rule delta_catches_up[OF _ d(3)])
  moreover have "file_ok t r" using ok(2) same(2) by (auto simp: param_ok_def list_all_iff)
  ultimately show ?thesis
    using r(2,3) by (auto simp: same(1) d(2) file_ok_def split: option.splits)
qed

subsection \<open>Rolling back\<close>

text \<open>A profile without what identifies the row and its releases.\<close>

definition body :: "Profile \<Rightarrow> Profile" where "body p = p\<lparr>ProfileID := 0, Added := 0, Removed := None\<rparr>"

lemma body_erase [simp]: "body (erase p) = body p" "body (p\<lparr>ProfileID := i, Removed := r\<rparr>) = body p"
  by (simp_all add: body_def erase_def)

lemma body_numbered:
  "list_all (\<lambda>p. PKey p = PlKey plan \<and> Source p \<noteq> [] \<and> PApprovedBy p \<noteq> []) ps \<Longrightarrow> map body (numbered plan v n ps) = map body ps"
  by (induction plan v n ps rule: numbered.induct) (auto simp: new_profile_def body_def)

lemma rollback_bodies:
  assumes "distinct (map ProfileID ps)" "RollbackPlan (EffectiveAt ps l) (EffectiveAt ps t) = (rem, add)"
    "list_all (\<lambda>p. PKey p = PlKey plan \<and> Source p \<noteq> [] \<and> PApprovedBy p \<noteq> []) ps"
  shows "mset (map body (filter (\<lambda>p. ProfileID p \<notin> set rem) (map erase (EffectiveAt ps l)) @ numbered plan v n add)) =
    mset (map body (map erase (EffectiveAt ps t)))"
proof -
  have one: "p \<in> set ps \<Longrightarrow> q \<in> set ps \<Longrightarrow> ProfileID p = ProfileID q \<Longrightarrow> p = q" for p q
    using assms(1) by (auto simp: distinct_map inj_on_def)
  have mem: "p \<in> set ps \<Longrightarrow> ProfileID p \<in> ProfileID ` set (EffectiveAt ps w) \<longleftrightarrow> IsEffective w p" for p w
    using one by (auto simp: EffectiveAt_def)
  have add: "add = map (\<lambda>p. p\<lparr>ProfileID := 0, Removed := None\<rparr>) (filter (\<lambda>p. \<not> IsEffective l p \<and> IsEffective t p) ps)"
    and rem: "set rem = ProfileID ` {p \<in> set ps. IsEffective l p \<and> \<not> IsEffective t p}"
    using assms(2) mem[of _ l] mem[of _ t] unfolding RollbackPlan_def Let_def
    by (auto simp: EffectiveAt_def intro!: arg_cong[where f = "map _"] filter_cong)
  have "filter (\<lambda>p. ProfileID p \<notin> set rem) (map erase (EffectiveAt ps l)) = map erase (filter (\<lambda>p. IsEffective l p \<and> IsEffective t p) ps)"
    using one by (auto simp: rem EffectiveAt_def filter_map comp_def intro!: arg_cong[where f = "map erase"] filter_cong)
  moreover have "map body (numbered plan v n add) = map body (filter (\<lambda>p. \<not> IsEffective l p \<and> IsEffective t p) ps)"
    using assms(3) by (subst body_numbered) (auto simp: add list_all_iff comp_def)
  moreover have "mset (map body (filter (IsEffective t) ps)) =
      mset (map body (filter (\<lambda>p. IsEffective l p \<and> IsEffective t p) ps)) + mset (map body (filter (\<lambda>p. \<not> IsEffective l p \<and> IsEffective t p) ps))"
    by (induction ps) auto
  ultimately show ?thesis by (simp add: EffectiveAt_def comp_def)
qed

lemma same_version_same_profiles:
  assumes "param_steps s t" "max_version pk (pdb t) = max_version pk (pdb s)"
  shows "product_profiles pk (pdb t) = product_profiles pk (pdb s)"
  using assms
proof (induction rule: rtranclp_induct)
  case (step y z)
  have "max_version pk (pdb s) \<le> max_version pk (pdb y)" "max_version pk (pdb y) \<le> max_version pk (pdb z)"
    using param_steps_grow[OF step.hyps(1)] param_step_grows[OF step.hyps(2)] by (auto simp: library_grows_def)
  then have m: "max_version pk (pdb y) = max_version pk (pdb z)" "max_version pk (pdb y) = max_version pk (pdb s)"
    using step.prems by simp_all
  have "product_profiles pk (pdb z) = product_profiles pk (pdb y)"
    using step.hyps(2) m(1)
  proof (cases rule: param_step.cases)
    case (transaction e plan res)
    consider "undone (PlKey plan) y z" | "committed plan (PNow e) y z" using StorePublish_ends[OF transaction] by blast
    then show ?thesis
    proof cases
      case 1
      then show ?thesis by (auto simp: undone_def product_profiles_def)
    next
      case 2
      let ?v = "max_version (PlKey plan) (pdb y) + 1"
      have db: "pdb z = set_url (PlKey plan) ?v (snapshot_url (PlKey plan) ?v) (after_publish plan ?v (PNow e) (pdb y))"
        using 2 unfolding committed_def Let_def by blast
      have "pk \<noteq> PlKey plan" using m(1) by (auto simp: db max_version_after_publish)
      moreover have "product_profiles pk (pdb z) = product_profiles pk (after_publish plan ?v (PNow e) (pdb y))"
        by (simp add: db product_profiles_def)
      ultimately show ?thesis by (simp add: product_after_publish)
    qed
  next
    case (own a1 a2 up ifMatch now res)
    then show ?thesis using PutUserParam_frame(1)[OF own] by (auto simp: product_profiles_def)
  next
    case other
    then show ?thesis by (simp add: elsewhere_def product_profiles_def)
  qed
  then show ?case using step.IH m(2) by simp
qed simp


subsection \<open>An example\<close>

definition sample_doc :: "rat \<Rightarrow> pdoc" where "sample_doc q = Doc [(''power'', PNum q), (''speed'', PNum 200)]"

definition sample_start :: ParamSt where
  "sample_start = \<lparr>pdb = \<lparr>profiles = [], releases = [], next_id = 1, products = [''A''], materials = [''oak''], recommendations = [],
     corrections = [], user_params = []\<rparr>, files = (\<lambda>_. None), pm = (\<lambda>_. 0)\<rparr>"

definition sample_row :: "rat \<Rightarrow> Profile" where
  "sample_row q = \<lparr>ProfileID = 0, PKey = ''A'', Module = ''10W'', Material = ''oak'', Params = sample_doc q, Source = ''official'', Added = 0,
     Removed = None, SampleCount = 0, Confidence = None, PApprovedBy = []\<rparr>"

definition sample_plan :: "rat \<Rightarrow> int list \<Rightarrow> PublishPlan" where
  "sample_plan q gone = \<lparr>PlKey = ''A'', PlNote = [], PlCreatedBy = ''ann'', PlApprovedBy = ''bob'', PlRolloutPct = 100, PlAdded = [sample_row q],
     PlRemoveIDs = gone, PlRolledBackFrom = None\<rparr>"

definition sample_env :: PubEnv where "sample_env = \<lparr>PFault = (\<lambda>_. False), PFile = True, PCommit = Committed, PNow = 7\<rparr>"

definition sample_profile :: "int \<Rightarrow> rat \<Rightarrow> int \<Rightarrow> int option \<Rightarrow> Profile" where
  "sample_profile i q v r = (sample_row q)\<lparr>ProfileID := i, Added := v, Removed := r, PApprovedBy := ''bob''\<rparr>"

definition sample_release :: "int \<Rightarrow> Release" where
  "sample_release v = \<lparr>RKey = ''A'', Version = v, Note = [], SnapshotURL = snapshot_url ''A'' v, RolloutPct = 100, CreatedBy = ''ann'',
     ApprovedBy = ''bob'', ReleasedAt = 7, RolledBackFrom = None\<rparr>"

definition sample_one :: ParamSt where
  "sample_one = sample_start\<lparr>pdb := (pdb sample_start)\<lparr>releases := [sample_release 1], profiles := [sample_profile 1 50 1 None], next_id := 2\<rparr>,
     files := (\<lambda>_. None)((''A'', 1) \<mapsto> \<lparr>SnKey = ''A'', SnVersion = 1, SnReleasedAt = 7, SnProfiles = [sample_profile 1 50 1 None]\<rparr>)\<rparr>"

definition sample_two :: ParamSt where
  "sample_two = sample_one\<lparr>pdb := (pdb sample_one)\<lparr>releases := [sample_release 1, sample_release 2],
       profiles := [sample_profile 1 50 1 (Some 2), sample_profile 2 60 2 None], next_id := 3\<rparr>,
     files := (files sample_one)((''A'', 2) \<mapsto> \<lparr>SnKey = ''A'', SnVersion = 2, SnReleasedAt = 7, SnProfiles = [sample_profile 2 60 2 None]\<rparr>)\<rparr>"

lemmas sample_defs = sample_start_def sample_plan_def sample_row_def sample_doc_def sample_env_def sample_release_def
  sample_one_def sample_two_def sample_profile_def

lemma sample_check [simp]: "ck_profile_params (Doc [(''power'', PNum 50), (''speed'', PNum 200)]) = Some True"
  "ck_profile_params (Doc [(''power'', PNum 60), (''speed'', PNum 200)]) = Some True"
  by (simp_all add: ck_profile_params_def pmember_def pg_numeric_def)

lemmas publish_defs = StorePublish_def publish_tables_def max_version_def insert_release_def plan_release_def plan_pct_def
  ck_release_approved_def new_profile_def insert_profile_def snapshot_of_def set_url_def product_profiles_def EffectiveAt_def
  IsEffective_def remove_profile_def affected_def Let_def

lemma sample_first: "StorePublish sample_env (sample_plan 50 []) sample_start = (Inr (sample_release 1), sample_one)"
  by (simp add: publish_defs sample_defs)

lemma sample_second: "StorePublish sample_env (sample_plan 60 [1]) sample_one = (Inr (sample_release 2), sample_two)"
  by (simp add: publish_defs sample_defs)

lemma sample_reach: "param_reach sample_one" "param_steps sample_one sample_two" "param_reach sample_two"
proof -
  have 1: "param_step sample_start sample_one" by (rule param_step.transaction[OF sample_first])
  have 2: "param_step sample_one sample_two" by (rule param_step.transaction[OF sample_second])
  show "param_reach sample_one"
    unfolding param_reach_def by (rule exI[of _ sample_start]) (use 1 in \<open>simp add: sample_start_def\<close>)
  show "param_reach sample_two"
    unfolding param_reach_def by (rule exI[of _ sample_start]) (use rtranclp.rtrancl_into_rtrancl[OF r_into_rtranclp[of param_step, OF 1] 2] in \<open>simp add: sample_start_def\<close>)
  show "param_steps sample_one sample_two" using 2 by blast
qed

theorem released_snapshots_immutable_witness:
  "sample_one \<noteq> sample_two \<and> sample_release 1 \<in> set (releases (pdb sample_two)) \<and>
     (\<exists>sn. files sample_one (''A'', 1) = Some sn \<and> map erase (SnProfiles sn) = content (pdb sample_two) ''A'' 1)"
proof -
  have r: "sample_release 1 \<in> set (releases (pdb sample_one))" by (simp add: sample_one_def)
  have "length (profiles (pdb sample_one)) \<noteq> length (profiles (pdb sample_two))" by (simp add: sample_one_def sample_two_def)
  then have "sample_one \<noteq> sample_two" by metis
  moreover have "RKey (sample_release 1) = ''A''" "Version (sample_release 1) = 1" by (simp_all add: sample_release_def)
  ultimately show ?thesis using released_snapshots_immutable[OF sample_reach(1,2) r] by simp
qed

lemma sample_products:
  "product_profiles ''A'' (pdb sample_two) = [sample_profile 1 50 1 (Some 2), sample_profile 2 60 2 None]"
  by (simp add: product_profiles_def sample_two_def sample_profile_def sample_row_def)

theorem delta_brings_up_to_date_witness:
  "\<exists>d m. ServiceDelta False False ''A'' 1 None (pdb sample_two) (pdb sample_two) (\<lambda>_. 0) = (Inr d, m) \<and> DRemoved d = [1] \<and>
     mset (content (pdb sample_two) ''A'' (DVersion d)) =
       mset (filter (\<lambda>p. ProfileID p \<notin> set (DRemoved d)) (content (pdb sample_two) ''A'' 1) @ map erase (DAdded d))"
proof -
  have v: "VisibleVersion (product_releases ''A'' (pdb sample_two)) None = Some (sample_release 2)"
    by (simp add: VisibleVersion_def product_releases_def sample_two_def sample_release_def InRollout_def)
  have "Delta [sample_profile 1 50 1 (Some 2), sample_profile 2 60 2 None] 1 2 = ([1], [sample_profile 2 60 2 None])"
    by (simp add: Delta_def IsEffective_def sample_profile_def)
  then obtain d m where d: "ServiceDelta False False ''A'' 1 None (pdb sample_two) (pdb sample_two) (\<lambda>_. 0) = (Inr d, m)" "\<not> ForceFull d" "DRemoved d = [1]"
    using v by (simp add: ServiceDelta_def Latest_def Let_def) (simp add: sample_release_def sample_products)
  show ?thesis
    using delta_brings_up_to_date[OF sample_reach(3) rtranclp.rtrancl_refl _ d(1,2)] d by auto
qed

definition sample_back :: RollbackReq where
  "sample_back = \<lparr>ToVersion = 1, BCreatedBy = ''ann'', BApprovedBy = ''bob'', BNote = ''back''\<rparr>"

lemma sample_rolled_back: "\<exists>rel s'. Rollback False False sample_env (\<lambda>s. s) ''A'' sample_back sample_two = (Inr rel, s')"
proof -
  let ?plan = "(sample_plan 50 [2])\<lparr>PlAdded := [sample_profile 0 50 1 None], PlNote := ''back'', PlRolledBackFrom := Some 1\<rparr>"
  let ?p = "sample_profile 1 50 1 (Some 2)"
  let ?q = "sample_profile 2 60 2 None"
  have v: "max_version ''A'' (pdb sample_two) = 2" by (simp add: max_version_def sample_two_def sample_release_def)
  have l: "list_ex (\<lambda>r. Version r = 1) (product_releases ''A'' (pdb sample_two))"
    by (simp add: product_releases_def sample_two_def sample_release_def)
  have eff: "EffectiveAt [?p, ?q] 2 = [?q]" "EffectiveAt [?p, ?q] 1 = [?p]"
    by (simp_all add: EffectiveAt_def IsEffective_def sample_profile_def)
  have rb: "RollbackPlan [?q] [?p] = ([2], [sample_profile 0 50 1 None])"
    by (simp add: RollbackPlan_def sample_profile_def)
  have "identRe ''A''" by code_simp
  then have "plan_rollback ''A'' sample_back False False (pdb sample_two) (pdb sample_two) = Inr ?plan"
    using l by (simp add: plan_rollback_def latest_max_version v sample_back_def sample_products eff rb Let_def sample_plan_def)
  moreover have "\<exists>rel s'. StorePublish sample_env ?plan sample_two = (Inr rel, s')"
    by (simp add: publish_defs sample_defs)
  ultimately show ?thesis by (auto simp: Rollback_def)
qed


end
