(* ===== verification/ParamFlow.thy ===== *)
theory ParamFlow
  imports ParamSafety
begin

text \<open>
  Single operations of the parameter library: a publication that fails, the version of a user's own parameters, and the limits of the
  correction of power and speed.
\<close>

subsection \<open>A publication that fails\<close>

lemma prepare_key: "prepare hash f1 f2 req db = Inr x \<Longrightarrow> PlKey (fst x) = QKey req"
  by (simp add: prepare_def Let_def split: if_splits) (drule sym, simp)


definition sample_request :: PublishReq where
  "sample_request = \<lparr>QKey = ''A'', QNote = [], QCreatedBy = ''ann'', QApprovedBy = ''ann'', QRolloutPct = 100,
     QAdded = [\<lparr>AModule = ''10W'', AMaterial = ''oak'', AParams = sample_doc 50, ASource = []\<rparr>], QRemoved = [], QForce = False\<rparr>"


subsection \<open>A user's own parameters\<close>

definition ukey :: "UserParam \<Rightarrow> int \<times> string \<times> string \<times> string" where
  "ukey x = (UserID x, UKey x, UModule x, UMaterial x)"

lemma same_param_ukey: "same_param a b \<longleftrightarrow> ukey a = ukey b"
  by (auto simp: same_param_def ukey_def)

definition above :: "UserParam \<Rightarrow> int \<Rightarrow> ParamDB \<Rightarrow> bool" where
  "above up n db \<longleftrightarrow> distinct (map ukey (user_params db)) \<and> (\<exists>x\<in>set (user_params db). same_param up x \<and> n \<le> UVersion x)"

definition put_stmt :: "UserParam \<Rightarrow> int \<Rightarrow> time \<Rightarrow> ParamDB \<Rightarrow> (int option \<times> ParamDB) option" where
  "put_stmt up ifMatch now = (if ifMatch = 0 then stmt_put_new up now else stmt_put_old up ifMatch now)"

lemma put_new_fresh:
  assumes "\<not> list_ex (same_param up) (user_params db)" "distinct (map ukey (user_params db))"
  shows "distinct (map ukey (user_params db @ [up\<lparr>UVersion := 1, UUpdatedAt := now\<rparr>]))"
  using assms by (auto simp: list_ex_iff same_param_ukey) (auto simp: ukey_def)

lemma put_old_keys: "map ukey (update_where hit (\<lambda>x. x\<lparr>UParams := d, UVersion := UVersion x + 1, UUpdatedAt := now\<rparr>) rows) = map ukey rows"
  by (rule map_update_where_frame) (simp add: ukey_def)

lemma put_stmt_keys:
  assumes "put_stmt up n now db = Some (r, db')" "distinct (map ukey (user_params db))"
  shows "distinct (map ukey (user_params db'))"
  using assms put_new_fresh[of up db now] put_old_keys
  by (auto simp: put_stmt_def stmt_put_new_def stmt_put_old_def Let_def simp del: map_append set_map split: if_splits)

lemma put_stmt_above:
  assumes "put_stmt up n now db = Some (r, db')" "above w k db"
  shows "above w k db'"
proof -
  obtain x where x: "x \<in> set (user_params db)" "same_param w x" "k \<le> UVersion x" using assms(2) by (auto simp: above_def)
  have "\<exists>y\<in>set (user_params db'). same_param w y \<and> k \<le> UVersion y"
  proof (cases "n = 0")
    case True
    then have "user_params db' = user_params db \<or> (\<exists>z. user_params db' = user_params db @ [z])"
      using assms(1) by (auto simp: put_stmt_def stmt_put_new_def split: if_splits)
    then show ?thesis using x by auto
  next
    case False
    define f where "f y = (if same_param up y \<and> UVersion y = n then y\<lparr>UParams := UParams up, UVersion := UVersion y + 1, UUpdatedAt := now\<rparr> else y)" for y
    have "user_params db' = map f (user_params db)"
      using assms(1) False by (auto simp: put_stmt_def stmt_put_old_def Let_def update_where_def f_def)
    then have "f x \<in> set (user_params db')" using x(1) by simp
    moreover have "same_param w (f x)" "k \<le> UVersion (f x)" using x(2,3) by (auto simp: f_def same_param_def)
    ultimately show ?thesis by blast
  qed
  then show ?thesis using put_stmt_keys[OF assms(1)] assms(2) by (simp add: above_def)
qed

lemma put_stmt_taken:
  assumes "put_stmt up n now db = Some (Some v, db')" "distinct (map ukey (user_params db))"
  shows "v = n + 1" "above up (n + 1) db'"
proof -
  show "v = n + 1" using assms(1) by (auto simp: put_stmt_def stmt_put_new_def stmt_put_old_def Let_def split: if_splits)
  have "\<exists>y\<in>set (user_params db'). same_param up y \<and> n + 1 \<le> UVersion y"
  proof (cases "n = 0")
    case True
    then have "up\<lparr>UVersion := 1, UUpdatedAt := now\<rparr> \<in> set (user_params db')"
      using assms(1) by (auto simp: put_stmt_def stmt_put_new_def split: if_splits)
    then show ?thesis using True by (intro bexI) (auto simp: same_param_def)
  next
    case False
    define f where "f y = (if same_param up y \<and> UVersion y = n then y\<lparr>UParams := UParams up, UVersion := UVersion y + 1, UUpdatedAt := now\<rparr> else y)" for y
    obtain x where x: "x \<in> set (user_params db)" "same_param up x" "UVersion x = n"
      using assms(1) False by (auto simp: put_stmt_def stmt_put_old_def Let_def list_ex_iff split: if_splits)
    have "user_params db' = map f (user_params db)"
      using assms(1) False by (auto simp: put_stmt_def stmt_put_old_def Let_def update_where_def f_def)
    then have "f x \<in> set (user_params db')" using x(1) by simp
    moreover have "same_param up (f x)" "n + 1 \<le> UVersion (f x)" using x(2,3) by (auto simp: f_def same_param_def)
    ultimately show ?thesis by blast
  qed
  then show "above up (n + 1) db'" using put_stmt_keys[OF assms] by (simp add: above_def)
qed

lemma put_stmt_late:
  assumes "put_stmt up n now db = Some (r, db')" "above up (n + 1) db"
  shows "r = None"
proof -
  obtain x where x: "x \<in> set (user_params db)" "same_param up x" "n + 1 \<le> UVersion x" using assms(2) by (auto simp: above_def)
  have "y = x" if "y \<in> set (user_params db)" "same_param up y" for y
  proof -
    have "ukey y = ukey x" using that(2) x(2) by (simp add: same_param_ukey)
    then show ?thesis using assms(2) that(1) x(1) by (auto simp: above_def distinct_map dest: inj_onD)
  qed
  then have "\<not> list_ex (\<lambda>y. same_param up y \<and> UVersion y = n) (user_params db)" using x(3) by (auto simp: list_ex_iff)
  moreover have "list_ex (same_param up) (user_params db)" using x by (auto simp: list_ex_iff)
  ultimately show ?thesis using assms(1) by (auto simp: put_stmt_def stmt_put_new_def stmt_put_old_def Let_def split: if_splits)
qed

lemma PutUserParam_runs:
  assumes "PutUserParam a1 a2 up n now s = (res, s')"
  shows "pdb s' = pdb s \<or> (\<exists>r. put_stmt up n now (pdb s) = Some (r, pdb s'))"
    "res = Inr (v, c, conflict) \<Longrightarrow> \<exists>r. put_stmt up n now (pdb s) = Some (r, pdb s') \<and> (conflict \<longleftrightarrow> r = None) \<and> (\<not> conflict \<longrightarrow> r = Some v)"
proof -
  obtain r db where x: "exec a1 (put_stmt up n now) (pdb s) = (r, db)" by fastforce
  have e: "db = pdb s \<or> (\<exists>r. put_stmt up n now (pdb s) = Some (r, db))"
    using x by (auto simp: exec_def split: option.splits if_splits)
  have d: "pdb s' = db \<or> pdb s' = pdb s"
    using assms x by (auto simp: PutUserParam_def StorePutUserParam_def put_stmt_def pinc_def split: option.splits prod.splits sum.splits if_splits)
  show "pdb s' = pdb s \<or> (\<exists>r. put_stmt up n now (pdb s) = Some (r, pdb s'))" using d e by auto
  assume res: "res = Inr (v, c, conflict)"
  have "\<exists>q. r = Some q \<and> pdb s' = db \<and> (conflict \<longleftrightarrow> q = None) \<and> (\<not> conflict \<longrightarrow> q = Some v)"
    using assms x unfolding res
    by (auto simp: PutUserParam_def StorePutUserParam_def put_stmt_def pinc_def split: option.splits prod.splits sum.splits if_splits)
  then show "\<exists>r. put_stmt up n now (pdb s) = Some (r, pdb s') \<and> (conflict \<longleftrightarrow> r = None) \<and> (\<not> conflict \<longrightarrow> r = Some v)"
    using exec_result x by metis
qed

definition own_keys :: "ParamSt \<Rightarrow> bool" where "own_keys s \<longleftrightarrow> distinct (map ukey (user_params (pdb s)))"

lemma param_step_own:
  assumes "param_step s s'" "own_keys s"
  shows "own_keys s' \<and> (above w k (pdb s) \<longrightarrow> above w k (pdb s'))"
  using assms(1)
proof (cases rule: param_step.cases)
  case (transaction e plan res)
  have "user_params (pdb s') = user_params (pdb s)"
    using StorePublish_ends[OF transaction] by (auto simp: undone_def committed_def Let_def set_url_def after_publish_def)
  then show ?thesis using assms(2) by (simp add: own_keys_def above_def)
next
  case (own a1 a2 up n now res)
  then show ?thesis
    using PutUserParam_runs(1)[OF own] put_stmt_keys put_stmt_above assms(2) unfolding own_keys_def by metis
next
  case other
  then show ?thesis using assms(2) by (simp add: elsewhere_def own_keys_def above_def)
qed

lemma param_steps_own: "param_steps s s' \<Longrightarrow> own_keys s \<Longrightarrow> own_keys s' \<and> (above w k (pdb s) \<longrightarrow> above w k (pdb s'))"
proof (induction rule: rtranclp_induct)
  case (step y z)
  then show ?case using param_step_own[of y z] by blast
qed simp

lemma param_reach_own: "param_reach s \<Longrightarrow> own_keys s"
  unfolding param_reach_def using param_steps_own by (fastforce simp: own_keys_def)

text \<open>
  C25: Of all writes of a user's parameters for one product, module and material that name the same version at most one is told that
  it succeeded; it is told the next version, and every other is told of a conflict, however the calls interleave with everything else.
\<close>

theorem user_param_no_lost_update:
  assumes "param_reach s" "PutUserParam a1 a2 up n now s = (Inr (v, c, False), s1)" "param_steps s1 s2"
    "PutUserParam b1 b2 up' n now' s2 = (Inr (v', c', conflict), s3)" "same_param up up'"
  shows "v = n + 1 \<and> conflict"
proof -
  obtain r where p: "put_stmt up n now (pdb s) = Some (Some v, pdb s1)"
    using PutUserParam_runs(2)[OF assms(2) refl] by auto
  have k: "own_keys s" by (rule param_reach_own[OF assms(1)])
  then have v: "v = n + 1" and a: "above up (n + 1) (pdb s1)" using put_stmt_taken[OF p] by (auto simp: own_keys_def)
  have "own_keys s1" using a by (simp add: own_keys_def above_def)
  then have "above up (n + 1) (pdb s2)" using param_steps_own[OF assms(3)] a by blast
  then have "above up' (n + 1) (pdb s2)" using assms(5) by (auto simp: above_def same_param_ukey)
  then show ?thesis using PutUserParam_runs(2)[OF assms(4) refl] put_stmt_late v by blast
qed

definition sample_own :: "rat \<Rightarrow> UserParam" where
  "sample_own q = \<lparr>UserID = 5, UKey = ''A'', UModule = ''10W'', UMaterial = ''oak'', UParams = sample_doc q, UVersion = 0, UUpdatedAt = 0\<rparr>"

definition sample_kept :: ParamSt where
  "sample_kept = snd (PutUserParam Done Done (sample_own 50) 0 1 sample_start)"

lemma sample_put: "PutUserParam Done Done (sample_own 50) 0 1 sample_start = (Inr (1, 1, False), sample_kept)"
  "\<exists>s'. PutUserParam Done Done (sample_own 60) 0 2 sample_kept = (Inr (0, 1, True), s')"
proof -
  have v: "ValidIdent ''A'' \<and> ValidIdent ''10W'' \<and> ValidIdent ''oak''" by code_simp
  then have "fst (PutUserParam Done Done (sample_own 50) 0 1 sample_start) = Inr (1, 1, False)"
    by (simp add: PutUserParam_def StorePutUserParam_def sample_own_def sample_doc_def valid_doc_def sample_start_def exec_def took_def stmt_put_new_def)
  then show "PutUserParam Done Done (sample_own 50) 0 1 sample_start = (Inr (1, 1, False), sample_kept)"
    by (metis sample_kept_def prod.collapse)
  have "user_params (pdb sample_kept) = [(sample_own 50)\<lparr>UVersion := 1, UUpdatedAt := 1\<rparr>]"
    using v by (simp add: sample_kept_def PutUserParam_def StorePutUserParam_def sample_own_def sample_doc_def valid_doc_def sample_start_def
      exec_def took_def stmt_put_new_def pinc_def)
  moreover have "same_param (sample_own 60) ((sample_own 50)\<lparr>UVersion := 1, UUpdatedAt := 1\<rparr>)" by (simp add: sample_own_def same_param_def)
  ultimately show "\<exists>s'. PutUserParam Done Done (sample_own 60) 0 2 sample_kept = (Inr (0, 1, True), s')"
    using v by (simp add: PutUserParam_def StorePutUserParam_def valid_doc_def exec_def took_def stmt_put_new_def currentUserParamVersion_def)
      (simp add: sample_own_def sample_doc_def)
qed

theorem user_param_no_lost_update_witness:
  "\<exists>s'. PutUserParam Done Done (sample_own 60) 0 2 sample_kept = (Inr (0, 1, True), s') \<and> (1 :: int) = 0 + 1 \<and> True"
proof -
  have r: "param_reach sample_start" unfolding param_reach_def by (rule exI[of _ sample_start]) (simp add: sample_start_def)
  obtain s' where p: "PutUserParam Done Done (sample_own 60) 0 2 sample_kept = (Inr (0, 1, True), s')" using sample_put(2) by blast
  have "same_param (sample_own 50) (sample_own 60)" by (simp add: sample_own_def same_param_def)
  then have "(1 :: int) = 0 + 1 \<and> True"
    by (rule user_param_no_lost_update[OF r sample_put(1) rtranclp.rtrancl_refl p])
  then show ?thesis using p by blast
qed

subsection \<open>The limits of the correction\<close>

lemma rnd_dyadic: "0 < m \<Longrightarrow> m < 2 ^ 53 \<Longrightarrow> k \<le> 1074 \<Longrightarrow> rnd (of_int m / 2 ^ k) = of_int m / 2 ^ k"
  using rnd_pos_exact[of "of_int m / 2 ^ k" m "- int k"] by (simp add: rnd_def power_int_minus field_simps)

lemma big_enough: "(n :: int) < 2 ^ 53 \<Longrightarrow> (of_int n :: rat) < 2 ^ 1024"
proof -
  assume n: "n < 2 ^ 53"
  have "(2 :: int) ^ 53 < 2 ^ 1024" by (rule power_strict_increasing) auto
  then have "(of_int n :: rat) < of_int (2 ^ 1024)" using n by (simp only: of_int_less_iff)
  then show ?thesis by simp
qed

lemma small_fin: "0 \<le> x \<Longrightarrow> x \<le> of_int n \<Longrightarrow> 0 \<le> n \<Longrightarrow> n < 2 ^ 53 \<Longrightarrow> of_rat64 x = Fin (rnd x) \<and> 0 \<le> rnd x \<and> rnd x \<le> of_int n"
  using of_rat64_between[of 0 x "of_int n"] rnd_of_int[of n] big_enough[of n] by auto

lemma round_away_mono: "0 \<le> a \<Longrightarrow> a \<le> b \<Longrightarrow> round_away a \<le> round_away b"
  by (simp add: round_away_def floor_mono)

lemma round4_fin:
  assumes "0 \<le> a" "a \<le> 2"
  shows "round4 (Fin a) = Fin (rnd (of_int (round_away (rnd (a * 10000))) / 10000))"
proof -
  have 1: "of_rat64 (a * 10000) = Fin (rnd (a * 10000))" "0 \<le> rnd (a * 10000)" "rnd (a * 10000) \<le> 20000"
    using small_fin[of "a * 10000" 20000] assms by auto
  have "0 \<le> round_away (rnd (a * 10000))" "round_away (rnd (a * 10000)) \<le> 20000"
    using 1(2,3) round_away_mono[of 0 "rnd (a * 10000)"] round_away_mono[of "rnd (a * 10000)" 20000] by (auto simp: round_away_def floor_unique)
  moreover from this have "of_rat64 (of_int (round_away (rnd (a * 10000)))) = Fin (of_int (round_away (rnd (a * 10000))))"
    using f64_of_small_int[of "round_away (rnd (a * 10000))"] by (simp add: f64_of_int_def)
  moreover have "of_rat64 (of_int r / 10000) = Fin (rnd (of_int r / 10000))" if "0 \<le> r" "r \<le> 20000" for r
    using small_fin[of "of_int r / 10000" 2] that by auto
  ultimately show ?thesis by (simp add: round4_def fmul_def fdiv_def 1(1))
qed

lemma round4_mono:
  assumes "0 \<le> a" "a \<le> b" "b \<le> 2"
  shows "fle (round4 (Fin a)) (round4 (Fin b))"
proof -
  have "0 \<le> rnd (a * 10000)" using rnd_mono[of 0 "a * 10000"] assms by simp
  then have "round_away (rnd (a * 10000)) \<le> round_away (rnd (b * 10000))"
    using assms by (intro round_away_mono rnd_mono) auto
  then show ?thesis using assms round4_fin[of a] round4_fin[of b] by (simp add: rnd_mono divide_right_mono)
qed

text \<open>Eight tenths are not a \<open>float64\<close>; what is, stays what it is under the rounding to four digits.\<close>

lemma KMin_fin: "KMin = Fin (rnd (8 / 10))" "13107 / 2 ^ 14 \<le> rnd (8 / 10)" "rnd (8 / 10) \<le> 104858 / 2 ^ 17"
proof -
  have "of_rat64 (8 / 10) = Fin (rnd (8 / 10))" using small_fin[of "8 / 10" 1] by simp
  then show "KMin = Fin (rnd (8 / 10))" by (simp add: KMin_def)
  show "13107 / 2 ^ 14 \<le> rnd (8 / 10)" using rnd_mono[of "13107 / 2 ^ 14" "8 / 10"] rnd_dyadic[of 13107 14] by simp
  show "rnd (8 / 10) \<le> 104858 / 2 ^ 17" using rnd_mono[of "8 / 10" "104858 / 2 ^ 17"] rnd_dyadic[of 104858 17] by simp
qed

lemma round4_limits: "round4 KMin = KMin" "round4 KMax = KMax"
proof -
  let ?k = "rnd (8 / 10)"
  have "?k * 10000 \<le> 104858 / 2 ^ 17 * 10000" "13107 / 2 ^ 14 * 10000 \<le> ?k * 10000"
    using KMin_fin by (intro mult_right_mono; simp)+
  then have "rnd (?k * 10000) \<le> 8001 - 1 / 2 - 1 / 4" "8000 - 1 / 2 \<le> rnd (?k * 10000)"
    using rnd_mono[of "?k * 10000" "8001 - 1 / 2 - 1 / 4"] rnd_mono[of "8000 - 1 / 2" "?k * 10000"]
      rnd_dyadic[of 32001 2] rnd_dyadic[of 15999 1] by simp_all
  then have "round_away (rnd (?k * 10000)) = 8000"
    by (simp add: round_away_def) (linarith | (rule floor_unique; simp))
  then show "round4 KMin = KMin" using KMin_fin round4_fin[of ?k] by simp
  have "round_away 12500 = 12500" by (simp add: round_away_def floor_unique)
  then show "round4 KMax = KMax"
    using round4_fin[of "5 / 4"] rnd_dyadic[of 5 2] by (simp add: KMax_def)
qed

lemma clamp_between: "x \<noteq> NaN \<Longrightarrow> a \<le> b \<Longrightarrow> \<exists>r. clamp x (Fin a) (Fin b) = Fin r \<and> a \<le> r \<and> r \<le> b"
  by (cases x) (auto simp: clamp_def fmax_def fmin_def)

lemma round4_clamped:
  assumes "x \<noteq> NaN"
  shows "fle KMin (round4 (clamp x KMin KMax)) \<and> fle (round4 (clamp x KMin KMax)) KMax"
proof -
  let ?k = "rnd (8 / 10)"
  have k: "0 \<le> ?k" "?k \<le> 5 / 4" using KMin_fin by (auto intro: order_trans)
  obtain r where r: "clamp x KMin KMax = Fin r" "?k \<le> r" "r \<le> 5 / 4"
    using clamp_between[OF assms k(2)] KMin_fin(1) by (auto simp: KMax_def)
  have "fle (round4 KMin) (round4 (Fin r))" "fle (round4 (Fin r)) (round4 KMax)"
    using round4_mono[of ?k r] round4_mono[of r "5 / 4"] r k KMin_fin(1) by (simp_all add: KMax_def)
  then show ?thesis by (simp add: round4_limits r(1))
qed

definition cfg_sane :: "Cfg \<Rightarrow> bool" where
  "cfg_sane cfg \<longleftrightarrow> (\<exists>a b c r. CfgA cfg = Fin a \<and> CfgB cfg = Fin b \<and> CfgC cfg = Fin c \<and> RatedHours cfg = Fin r \<and>
     0 \<le> a \<and> a \<le> 1 \<and> 0 \<le> c \<and> c \<le> 1)"

lemma fdiv_number: "z \<noteq> NaN \<Longrightarrow> 0 < r \<Longrightarrow> fdiv z (Fin r) \<noteq> NaN" by (cases z) (auto simp: fdiv_def)

lemma fadd_number: "z \<noteq> NaN \<Longrightarrow> fadd (Fin a) z \<noteq> NaN" by (cases z) (auto simp: fadd_def)

lemma fmul_unit: "0 \<le> a \<Longrightarrow> a \<le> 1 \<Longrightarrow> 0 \<le> b \<Longrightarrow> b \<le> 1 \<Longrightarrow> \<exists>c. fmul (Fin a) (Fin b) = Fin c \<and> 0 \<le> c \<and> c \<le> 1"
  using small_fin[of "a * b" 1] mult_le_one[of a b] by (auto simp: fmul_def)

lemma fsub_unit: "0 \<le> a \<Longrightarrow> a \<le> 1 \<Longrightarrow> \<exists>c. fsub (Fin 1) (Fin a) = Fin c \<and> 0 \<le> c \<and> c \<le> 1"
  using small_fin[of "1 - a" 1] by (auto simp: fsub_def fadd_def)

lemma default_sane: "cfg_sane DefaultCfg"
  using small_fin[of "15 / 100" 1] small_fin[of "5 / 100" 1] by (auto simp: cfg_sane_def DefaultCfg_def)

lemma Correction_in_range:
  assumes "cfg_sane cfg0" "x \<noteq> NaN"
  shows "fle KMin (KPower (Correction cfg0 (Some (Fin h)) (Some x))) \<and> fle (KPower (Correction cfg0 (Some (Fin h)) (Some x))) KMax \<and>
    fle KMin (KSpeed (Correction cfg0 (Some (Fin h)) (Some x))) \<and> fle (KSpeed (Correction cfg0 (Some (Fin h)) (Some x))) KMax"
proof -
  define cfg where "cfg = (if fle (RatedHours cfg0) (Fin 0) then cfg0\<lparr>RatedHours := RatedHours DefaultCfg\<rparr> else cfg0)"
  obtain a b c r where cfg: "CfgA cfg = Fin a" "CfgB cfg = Fin b" "CfgC cfg = Fin c" "RatedHours cfg = Fin r" "0 < r"
      and u: "0 \<le> a" "a \<le> 1" "0 \<le> c" "c \<le> 1"
  proof -
    obtain a b c r where c0: "CfgA cfg0 = Fin a" "CfgB cfg0 = Fin b" "CfgC cfg0 = Fin c" "RatedHours cfg0 = Fin r" "0 \<le> a" "a \<le> 1" "0 \<le> c" "c \<le> 1"
      using assms(1) by (auto simp: cfg_sane_def)
    show thesis
    proof (cases "r \<le> 0")
      case True
      then show thesis using c0 that[of a b c 10000] by (simp add: cfg_def DefaultCfg_def)
    next
      case False
      then show thesis using c0 that[of a b c r] by (simp add: cfg_def)
    qed
  qed
  obtain v where v: "clamp x (Fin 0) (Fin 100) = Fin v" "0 \<le> v" "v \<le> 100" using clamp_between[OF assms(2), of 0 100] by auto
  have "fdiv (Fin v) (Fin 100) = Fin (rnd (v / 100)) \<and> 0 \<le> rnd (v / 100) \<and> rnd (v / 100) \<le> 1"
    using small_fin[of "v / 100" 1] v by (simp add: fdiv_def)
  then obtain w where w: "fsub (Fin 1) (fdiv (Fin v) (Fin 100)) = Fin w" "0 \<le> w" "w \<le> 1" using fsub_unit by metis
  obtain aw cw where aw: "fmul (Fin a) (Fin w) = Fin aw" "0 \<le> aw" "aw \<le> 1" and cw: "fmul (Fin c) (Fin w) = Fin cw"
    using fmul_unit u w by metis
  have "fmul (Fin b) (Fin h) \<noteq> NaN" by (simp add: fmul_def)
  then have age: "fdiv (fmul (Fin b) (Fin h)) (Fin r) \<noteq> NaN" by (rule fdiv_number[OF _ cfg(5)])
  obtain s where s: "fadd (Fin 1) (Fin aw) = Fin s" using small_fin[of "1 + aw" 2] aw by (auto simp: fadd_def)
  have kp: "fadd (fadd (Fin 1) (fmul (CfgA cfg) (fsub (Fin 1) (fdiv (clamp x (Fin 0) (Fin 100)) (Fin 100)))))
      (fdiv (fmul (CfgB cfg) (Fin h)) (RatedHours cfg)) \<noteq> NaN"
    unfolding cfg v(1) w(1) aw(1) s by (rule fadd_number[OF age])
  have ks: "fsub (Fin 1) (fmul (CfgC cfg) (fsub (Fin 1) (fdiv (clamp x (Fin 0) (Fin 100)) (Fin 100)))) \<noteq> NaN"
    unfolding cfg v(1) w(1) cw by (simp add: fsub_def fadd_def)
  show ?thesis
    using round4_clamped[OF kp] round4_clamped[OF ks] by (simp add: Correction_def Let_def cfg_def[symmetric])
qed

text \<open>
  The factors for power and speed that a client is given are between 0.8 and 1.25 (as \<open>float64\<close>, after the rounding to four
  digits), whatever its hours of operation and its health are, if the hours are a finite number, the health is a number, and the
  configured weights are finite with those of wear between 0 and 1.
\<close>

theorem correction_in_range:
  assumes "Correct fails pk m (Some (Fin h)) (Some x) s = (Inr r, s')" "x \<noteq> NaN"
    "\<forall>(k, c) \<in> set (corrections (pdb s)). cfg_sane c"
  shows "fle KMin (KPower r) \<and> fle (KPower r) KMax \<and> fle KMin (KSpeed r) \<and> fle (KSpeed r) KMax"
proof -
  have "\<exists>cfg. cfg_sane cfg \<and> r = Correction cfg (Some (Fin h)) (Some x)"
  proof (cases "map_of (corrections (pdb s)) (pk, m)")
    case None
    then have "r = Correction DefaultCfg (Some (Fin h)) (Some x)"
      using assms(1) by (auto simp: Correct_def CorrectionCfg_def split: if_splits)
    then show ?thesis using default_sane by blast
  next
    case (Some c)
    then have "cfg_sane c" using assms(3) by (auto dest: map_of_SomeD)
    moreover have "r \<in> {Correction c (Some (Fin h)) (Some x), Correction DefaultCfg (Some (Fin h)) (Some x)}"
      using assms(1) Some by (auto simp: Correct_def CorrectionCfg_def split: if_splits)
    ultimately show ?thesis using default_sane by blast
  qed
  then show ?thesis using Correction_in_range[OF _ assms(2)] by blast
qed

theorem correction_in_range_witness:
  "\<exists>r s'. Correct False ''A'' ''10W'' (Some (Fin 100000)) (Some (Fin 3)) sample_start = (Inr r, s') \<and> fle KMin (KPower r) \<and> fle (KPower r) KMax"
proof -
  obtain r s' where c: "Correct False ''A'' ''10W'' (Some (Fin 100000)) (Some (Fin 3)) sample_start = (Inr r, s')"
    by (simp add: Correct_def CorrectionCfg_def)
  have "\<forall>(k, c) \<in> set (corrections (pdb sample_start)). cfg_sane c" by (simp add: sample_start_def)
  then show ?thesis using correction_in_range[OF c] c by blast
qed

text \<open>An amount of hours that is not a number passes the limits, and the power a client then computes is not a number either.\<close>

lemma not_a_number [simp]: "fmul z NaN = NaN" "fdiv NaN z = NaN" "fadd z NaN = NaN"
  by (cases z; simp add: fmul_def fdiv_def fadd_def)+

lemma clamp_not_a_number [simp]: "clamp NaN KMin KMax = NaN"
proof -
  obtain a b where k: "KMin = Fin a" "KMax = Fin b" using KMin_fin(1) KMax_def by blast
  show ?thesis unfolding k by (simp add: clamp_def fmin_def fmax_def)
qed

theorem hours_not_a_number: "KPower (Correction DefaultCfg (Some NaN) (Some (Fin 50))) = NaN"
  by (simp add: Correction_def Let_def round4_def fmul_def[of NaN])

text \<open>A speed that is not a number is accepted by the check of the table.\<close>

theorem speed_not_a_number: "ck_profile_params (Doc [(''power'', PNum 50), (''speed'', PStr ''NaN'')]) = Some True"
  by code_simp

theorem unknown_power_and_speed:
  "ck_profile_params (Doc [(''power'', PNull), (''speed'', PNull)]) = Some True" "ck_profile_params (Arr [''power'', ''speed'']) = Some True"
  by (code_simp, code_simp)

end
