(* ===== verification/Pipeline.thy ===== *)
theory Pipeline
  imports Complex_Main Topics Sql "HOL-Library.Multiset"
begin

text \<open>
  The telemetry pipeline, \<open>internal/pipeline\<close>: collecting messages into batches (\<open>batcher.go\<close>), reading and checking them and turning
  them into rows (\<open>mapping.go\<close>), and the statements the TDengine client makes of the rows (\<open>internal/pkg/tdengine\<close>).
  JSON documents are given decoded: a message's envelope, and by \<open>Decoders\<close> the payload.
\<close>

subsection \<open>Batches\<close>

record 'a Batcher =
  BSize :: nat
  BWindow :: duration
  BItems :: "'a list"
  BFirst :: "time option"

definition NewBatcher :: "int \<Rightarrow> duration \<Rightarrow> 'a Batcher" where
  "NewBatcher n window = \<lparr>BSize = (if n \<le> 0 then 500 else nat n), BWindow = (if window \<le> 0 then 120000000 else window),
     BItems = [], BFirst = None\<rparr>"

definition Badd :: "'a \<Rightarrow> time \<Rightarrow> 'a Batcher \<Rightarrow> 'a Batcher" where
  "Badd x now b = b\<lparr>BFirst := (if BItems b = [] then Some now else BFirst b), BItems := BItems b @ [x]\<rparr>"

definition ShouldFlush :: "time \<Rightarrow> 'a Batcher \<Rightarrow> bool" where
  "ShouldFlush now b = (if BItems b = [] then False else if BSize b \<le> length (BItems b) then True
     else (case BFirst b of None \<Rightarrow> True | Some f \<Rightarrow> BWindow b \<le> now - f))"

definition TimeToFlush :: "time \<Rightarrow> 'a Batcher \<Rightarrow> duration" where
  "TimeToFlush now b =
     (if BItems b = [] then BWindow b else if BSize b \<le> length (BItems b) then 0
      else (let rem = BWindow b - (case BFirst b of None \<Rightarrow> BWindow b | Some f \<Rightarrow> now - f) in if rem < 0 then 0 else rem))"

definition Drain :: "'a Batcher \<Rightarrow> 'a list option \<times> 'a Batcher" where
  "Drain b = (if BItems b = [] then (None, b) else (Some (BItems b), b\<lparr>BItems := [], BFirst := None\<rparr>))"

text \<open>
  What wakes the loop of a worker: an item, the timer, or the end of the items. Each comes with the clock readings it makes; the timer
  fires after the time it was set to, or later.
\<close>

datatype 'a wake = Item 'a time time | Timer time | Closed

definition flush_if_due :: "time \<Rightarrow> 'a Batcher \<Rightarrow> 'a list list \<times> 'a Batcher" where
  "flush_if_due now b = (if ShouldFlush now b then (case Drain b of (None, b') \<Rightarrow> ([], b') | (Some xs, b') \<Rightarrow> ([xs], b')) else ([], b))"

fun batchLoop :: "'a wake list \<Rightarrow> 'a Batcher \<Rightarrow> 'a list list \<times> 'a Batcher" where
  "batchLoop [] b = ([], b)"
| "batchLoop (Item x t1 t2 # ws) b =
     (case flush_if_due t2 (Badd x t1 b) of (out, b1) \<Rightarrow> (case batchLoop ws b1 of (rest, b2) \<Rightarrow> (out @ rest, b2)))"
| "batchLoop (Timer t # ws) b =
     (case flush_if_due t b of (out, b1) \<Rightarrow> (case batchLoop ws b1 of (rest, b2) \<Rightarrow> (out @ rest, b2)))"
| "batchLoop (Closed # ws) b = (case Drain b of (None, b') \<Rightarrow> ([], b') | (Some xs, b') \<Rightarrow> ([xs], b'))"

fun wake_items :: "'a wake list \<Rightarrow> 'a list" where
  "wake_items [] = []"
| "wake_items (Item x t1 t2 # ws) = x # wake_items ws"
| "wake_items (Timer t # ws) = wake_items ws"
| "wake_items (Closed # ws) = []"

definition batch_inv :: "'a Batcher \<Rightarrow> bool" where
  "batch_inv b \<longleftrightarrow> 0 < BSize b \<and> length (BItems b) < BSize b"

lemma flush_if_due_keeps:
  assumes "flush_if_due now b = (out, b')" "0 < BSize b" "length (BItems b) \<le> BSize b"
  shows "batch_inv b' \<and> BSize b' = BSize b \<and> concat out @ BItems b' = BItems b \<and> list_all (\<lambda>xs. xs \<noteq> [] \<and> length xs \<le> BSize b) out"
  using assms by (auto simp: flush_if_due_def Drain_def ShouldFlush_def batch_inv_def split: if_splits)

lemma batchLoop_keeps:
  "batchLoop ws b = (out, b') \<Longrightarrow> batch_inv b \<Longrightarrow>
     concat out @ BItems b' = BItems b @ wake_items ws \<and> list_all (\<lambda>xs. xs \<noteq> [] \<and> length xs \<le> BSize b) out"
proof (induction ws b arbitrary: out b' rule: batchLoop.induct)
  case (2 x t1 t2 ws b)
  obtain o1 b1 where f: "flush_if_due t2 (Badd x t1 b) = (o1, b1)" by fastforce
  obtain o2 b2 where r: "batchLoop ws b1 = (o2, b2)" by fastforce
  have k: "batch_inv b1 \<and> BSize b1 = BSize b \<and> concat o1 @ BItems b1 = BItems b @ [x] \<and> list_all (\<lambda>xs. xs \<noteq> [] \<and> length xs \<le> BSize b) o1"
    using flush_if_due_keeps[OF f] 2(3) by (auto simp: Badd_def batch_inv_def)
  have h: "concat o2 @ BItems b2 = BItems b1 @ wake_items ws" "list_all (\<lambda>xs. xs \<noteq> [] \<and> length xs \<le> BSize b1) o2"
    using 2(1)[OF f[symmetric] r] k by blast+
  have os: "out = o1 @ o2" "b' = b2" using 2(2) f r by simp_all
  have "concat out @ BItems b' = (concat o1 @ BItems b1) @ wake_items ws" unfolding os using h(1) by simp
  then show ?case using k h(2) by (simp add: os(1))
next
  case (3 t ws b)
  obtain o1 b1 where f: "flush_if_due t b = (o1, b1)" by fastforce
  obtain o2 b2 where r: "batchLoop ws b1 = (o2, b2)" by fastforce
  have k: "batch_inv b1 \<and> BSize b1 = BSize b \<and> concat o1 @ BItems b1 = BItems b \<and> list_all (\<lambda>xs. xs \<noteq> [] \<and> length xs \<le> BSize b) o1"
    using flush_if_due_keeps[OF f] 3(3) by (auto simp: batch_inv_def)
  have h: "concat o2 @ BItems b2 = BItems b1 @ wake_items ws" "list_all (\<lambda>xs. xs \<noteq> [] \<and> length xs \<le> BSize b1) o2"
    using 3(1)[OF f[symmetric] r] k by blast+
  have os: "out = o1 @ o2" "b' = b2" using 3(2) f r by simp_all
  have "concat out @ BItems b' = (concat o1 @ BItems b1) @ wake_items ws" unfolding os using h(1) by simp
  then show ?case using k h(2) by (simp add: os(1))
qed (auto simp: Drain_def batch_inv_def list_all_iff split: if_splits)

text \<open>
  C28: Whatever wakes it, the loop of a worker hands on every item exactly once and in order, in batches that are never empty nor larger
  than the batch size, and at the end keeps none back.
\<close>

theorem batches_complete:
  assumes "batchLoop (ws @ [Closed]) (NewBatcher n window) = (out, b)" "Closed \<notin> set ws"
  shows "concat out = wake_items ws \<and> BItems b = [] \<and>
    list_all (\<lambda>xs. xs \<noteq> [] \<and> length xs \<le> (if n \<le> 0 then 500 else nat n)) out"
proof -
  have i: "batch_inv (NewBatcher n window)" by (simp add: NewBatcher_def batch_inv_def)
  have k: "concat out @ BItems b = wake_items (ws @ [Closed]) \<and> list_all (\<lambda>xs. xs \<noteq> [] \<and> length xs \<le> BSize (NewBatcher n window)) out"
    using batchLoop_keeps[OF assms(1) i] by (simp add: NewBatcher_def)
  have e: "BItems b' = []" if "batchLoop (ws @ [Closed]) b0 = (out', b')" "Closed \<notin> set ws" for b0 out' b'
    using that
  proof (induction ws arbitrary: b0 out')
    case (Cons w ws)
    then show ?case by (cases w) (auto split: prod.splits)
  qed (auto simp: Drain_def split: if_splits)
  have "wake_items (ws @ [Closed]) = wake_items ws"
    using assms(2)
  proof (induction ws)
    case (Cons w ws)
    then show ?case by (cases w) auto
  qed simp
  then show ?thesis using k e[OF assms] by (auto simp: NewBatcher_def)
qed

theorem batches_complete_witness:
  "\<exists>out b. batchLoop ([Item (1 :: nat) 0 0, Item 2 1 1, Timer 5, Item 3 6 6] @ [Closed]) (NewBatcher 2 100) = (out, b) \<and>
     concat out = [1, 2, 3] \<and> out = [[1, 2], [3]]"
proof -
  let ?ws = "[Item (1 :: nat) 0 0, Item 2 1 1, Timer 5, Item 3 6 6]"
  obtain out b where r: "batchLoop (?ws @ [Closed]) (NewBatcher 2 100) = (out, b)" by fastforce
  have "out = [[1, 2], [3]]" using r
    by (simp add: NewBatcher_def flush_if_due_def Badd_def ShouldFlush_def Drain_def)
  then show ?thesis using batches_complete[OF r] r by simp
qed

text \<open>The timer is set to nothing exactly when the batch is due.\<close>

lemma TimeToFlush_due: "BItems b \<noteq> [] \<Longrightarrow> TimeToFlush now b = 0 \<longleftrightarrow> ShouldFlush now b"
  by (auto simp: TimeToFlush_def ShouldFlush_def Let_def split: option.splits)

lemma due_after_timer:
  assumes "BItems b \<noteq> []" "TimeToFlush now b \<le> later - now" shows "ShouldFlush later b"
  using assms by (auto simp: TimeToFlush_def ShouldFlush_def Let_def split: option.splits if_splits)

subsection \<open>Payloads\<close>

record TelemetryPayload =
  LSeq :: int
  LTs :: int
  LWorkState :: rat
  LPowerLevel :: rat
  LTempCavity :: rat
  LTempWater :: rat
  LFanRPM :: rat
  LLaserHours :: rat
  LProgress :: rat

record EvPayload =
  VSeq :: int
  VTs :: int
  VCode :: string
  VMsg :: string
  VJobID :: string
  VMaterialID :: string
  VParamProfileID :: string
  VParamsHash :: string

record CmdAckPayload =
  ASeq :: int
  ATs :: int
  ACmdID :: string
  AResult :: string
  ADetail :: string

text \<open>A member of the document: a scalar, or an object, a list or \<open>null\<close>.\<close>

datatype member = MStr string | MBool bool | MNum rat | MOther

text \<open>
  What \<open>encoding/json\<close> makes of a payload: into each of the three structs, or not; whether it is a document at all; its members, each
  name once, or not an object. \<open>PEmpty\<close> says that there are no bytes.
\<close>

record 'p Decoders =
  DTelemetry :: "'p \<Rightarrow> TelemetryPayload option"
  DEvent :: "'p \<Rightarrow> EvPayload option"
  DCmdAck :: "'p \<Rightarrow> CmdAckPayload option"
  DValid :: "'p \<Rightarrow> bool"
  DMembers :: "'p \<Rightarrow> (string \<times> member) list option"
  DEmpty :: "'p \<Rightarrow> bool"

definition telemetryKnownKeys :: "string list" where
  "telemetryKnownKeys = [''seq'', ''ts'', ''work_state'', ''power_level'', ''temp_cavity'', ''temp_water'', ''fan_rpm'', ''laser_hours'', ''progress'']"

abbreviation MaxTelemetryExtras :: nat where "MaxTelemetryExtras \<equiv> 32"

definition validExtraKey :: "string \<Rightarrow> bool" where
  "validExtraKey k \<longleftrightarrow> k \<noteq> [] \<and> length k \<le> 32 \<and>
     list_all (\<lambda>(i, c). c = CHR ''_'' \<or> between CHR ''a'' CHR ''z'' c \<or> (is_digit c \<and> i \<noteq> 0)) (enumerate 0 k)"

fun take_scalars :: "nat \<Rightarrow> (string \<times> member) list \<Rightarrow> (string \<times> member) list" where
  "take_scalars n [] = []"
| "take_scalars 0 ms = []"
| "take_scalars (Suc n) ((k, v) # ms) = (if v = MOther then take_scalars (Suc n) ms else (k, v) # take_scalars n ms)"

text \<open>In the order of the names.\<close>

definition sort_members :: "(string \<times> member) list \<Rightarrow> (string \<times> member) list" where
  "sort_members ms = sort_str fst ms"

definition ExtractTelemetryExtras :: "(string \<times> member) list option \<Rightarrow> (string \<times> member) list" where
  "ExtractTelemetryExtras ms =
     (case ms of None \<Rightarrow> []
      | Some m \<Rightarrow> take_scalars MaxTelemetryExtras (sort_members (filter (\<lambda>(k, v). k \<notin> set telemetryKnownKeys \<and> validExtraKey k) m)))"

lemma take_scalars_bound: "length (take_scalars n ms) \<le> n \<and> set (take_scalars n ms) \<subseteq> {(k, v) \<in> set ms. v \<noteq> MOther}"
  by (induction n ms rule: take_scalars.induct) auto

text \<open>The properties that go through to the shadow are scalars under unmodelled, well-formed names, at most 32.\<close>

theorem extras_bounded:
  "length (ExtractTelemetryExtras ms) \<le> 32 \<and>
   list_all (\<lambda>(k, v). v \<noteq> MOther \<and> k \<notin> set telemetryKnownKeys \<and> validExtraKey k) (ExtractTelemetryExtras ms)"
proof (cases ms)
  case (Some m)
  then show ?thesis
    using take_scalars_bound[of 32 "sort_members (filter (\<lambda>(k, v). k \<notin> set telemetryKnownKeys \<and> validExtraKey k) m)"]
    by (auto simp: ExtractTelemetryExtras_def list_all_iff sort_members_def)
qed (simp add: ExtractTelemetryExtras_def)

datatype body = BTelemetry TelemetryPayload "(string \<times> member) list" | BEvent EvPayload | BCmdAck CmdAckPayload | BProgress

definition pick :: "int \<Rightarrow> int \<Rightarrow> int" where "pick a b = (if a \<le> 0 then b else a)"

definition Unmarshal_ok :: "'p Envelope \<Rightarrow> bool" where "Unmarshal_ok env \<longleftrightarrow> SN env \<noteq> [] \<and> Kind env \<noteq> []"

text \<open>\<open>None\<close> is a poison message. The sequence number of the result is that of the payload if it has one.\<close>

definition ParseAndValidate :: "'p Decoders \<Rightarrow> 'p Envelope option \<Rightarrow> ('p Envelope \<times> body) option" where
  "ParseAndValidate d msg =
     (case msg of
        None \<Rightarrow> None
      | Some env \<Rightarrow>
          if \<not> Unmarshal_ok env \<or> DEmpty d (EPayload env) then None
          else if Kind env = KindTelemetry then
            (case DTelemetry d (EPayload env) of
               None \<Rightarrow> None
             | Some t0 \<Rightarrow>
                 (let t = t0\<lparr>LSeq := pick (LSeq t0) (Seq env), LTs := pick (LTs t0) (RecvTs env)\<rparr> in
                  if LSeq t \<le> 0 \<or> LTs t \<le> 0 then None
                  else Some (env\<lparr>Seq := LSeq t\<rparr>, BTelemetry t (ExtractTelemetryExtras (DMembers d (EPayload env))))))
          else if Kind env = KindEvent then
            (case DEvent d (EPayload env) of
               None \<Rightarrow> None
             | Some v0 \<Rightarrow>
                 (let v = v0\<lparr>VSeq := pick (VSeq v0) (Seq env), VTs := pick (VTs v0) (RecvTs env)\<rparr> in
                  if VSeq v \<le> 0 \<or> VCode v = [] then None else Some (env\<lparr>Seq := VSeq v\<rparr>, BEvent v)))
          else if Kind env = KindCmdAck then
            (case DCmdAck d (EPayload env) of
               None \<Rightarrow> None
             | Some a0 \<Rightarrow>
                 (let a = a0\<lparr>ASeq := pick (ASeq a0) (Seq env)\<rparr> in
                  if ASeq a \<le> 0 \<or> ACmdID a = [] then None else Some (env\<lparr>Seq := ASeq a\<rparr>, BCmdAck a)))
          else if Kind env = KindOTAProgress then (if DValid d (EPayload env) then Some (env, BProgress) else None)
          else None)"

lemma ParseAndValidate_seq:
  "ParseAndValidate d msg = Some (env, b) \<Longrightarrow> b \<noteq> BProgress \<Longrightarrow> 0 < Seq env \<and> SN env \<noteq> []"
  by (auto simp: ParseAndValidate_def Let_def Unmarshal_ok_def split: option.splits if_splits)

subsection \<open>Rows\<close>

record DeviceInfo =
  DPK :: string
  DFW :: string
  DRegion :: string
  DCell :: int

text \<open>\<open>strconv.Atoi\<close> on a 64-bit machine.\<close>

abbreviation Atoi :: "string \<Rightarrow> int option" where "Atoi \<equiv> ParseInt"

definition field_or :: "(string \<rightharpoonup> string) \<Rightarrow> string \<Rightarrow> string \<Rightarrow> string" where
  "field_or f k dflt = (case f k of None \<Rightarrow> dflt | Some v \<Rightarrow> if v = [] then dflt else v)"

definition MergeDevice :: "'p Envelope \<Rightarrow> int \<Rightarrow> (string \<rightharpoonup> string) \<Rightarrow> DeviceInfo" where
  "MergeDevice env subjectCell f = \<lparr>DPK = field_or f ''pk'' (PK env), DFW = field_or f ''fw'' ''unknown'',
     DRegion = field_or f ''region'' ''US'',
     DCell = (case f ''cell'' of None \<Rightarrow> subjectCell
       | Some v \<Rightarrow> (case Atoi v of Some n \<Rightarrow> if 0 < n then n else subjectCell | None \<Rightarrow> subjectCell))\<rparr>"

definition CellFromSubject :: "string \<Rightarrow> int" where
  "CellFromSubject subject =
     (if CHR ''.'' \<notin> set subject then 0
      else (case Atoi (rev (takeWhile (\<lambda>c. c \<noteq> CHR ''.'') (rev subject))) of
        None \<Rightarrow> 0 | Some n \<Rightarrow> if n \<le> 0 then 0 else n))"

definition KindFromSubject :: "string \<Rightarrow> string" where
  "KindFromSubject subject =
     (let parts = splitc CHR ''.'' subject in
      if 3 \<le> length parts \<and> parts ! 0 = ''iot'' \<and> parts ! 1 = ''up'' then parts ! 2 else [])"

text \<open>Go's conversion to \<open>int\<close> drops the fraction; out of range the result is the least integer on amd64.\<close>

definition go_int :: "rat \<Rightarrow> int" where
  "go_int q = (let n = (if q < 0 then - \<lfloor>- q\<rfloor> else \<lfloor>q\<rfloor>) in if - (2 ^ 63) \<le> n \<and> n < 2 ^ 63 then n else - (2 ^ 63))"

record TelemetryRow =
  RSN :: string
  RPK :: string
  RFW :: string
  RRegion :: string
  RCell :: int
  RTs :: int
  RSeq :: int
  RWorkState :: int
  RPowerLevel :: int
  RTempCavity :: rat
  RTempWater :: rat
  RFanRPM :: int
  RLaserHours :: rat
  RProgress :: int

record EventRow =
  WSN :: string
  WPK :: string
  WTs :: int
  WSeq :: int
  WCode :: string
  WMsg :: string
  WJobID :: string
  WMaterialID :: string
  WParamProfileID :: string
  WParamsHash :: string

definition ToTelemetryRow :: "'p Envelope \<Rightarrow> DeviceInfo \<Rightarrow> TelemetryPayload \<Rightarrow> TelemetryRow" where
  "ToTelemetryRow env d t = \<lparr>RSN = SN env, RPK = DPK d, RFW = DFW d, RRegion = DRegion d, RCell = DCell d, RTs = LTs t, RSeq = LSeq t,
     RWorkState = go_int (LWorkState t), RPowerLevel = go_int (LPowerLevel t), RTempCavity = LTempCavity t, RTempWater = LTempWater t,
     RFanRPM = go_int (LFanRPM t), RLaserHours = LLaserHours t, RProgress = go_int (LProgress t)\<rparr>"

definition ToEventRow :: "'p Envelope \<Rightarrow> DeviceInfo \<Rightarrow> EvPayload \<Rightarrow> EventRow" where
  "ToEventRow env d v = \<lparr>WSN = SN env, WPK = DPK d, WTs = VTs v, WSeq = VSeq v, WCode = VCode v, WMsg = VMsg v, WJobID = VJobID v,
     WMaterialID = VMaterialID v, WParamProfileID = VParamProfileID v, WParamsHash = VParamsHash v\<rparr>"

text \<open>A value in the shadow.\<close>

datatype sval = SInt int | SNum rat | SText string | SFlag bool

definition ShadowFields :: "TelemetryRow \<Rightarrow> (string \<times> sval) list" where
  "ShadowFields r = [(''work_state'', SInt (RWorkState r)), (''power_level'', SInt (RPowerLevel r)), (''temp_cavity'', SNum (RTempCavity r)),
     (''temp_water'', SNum (RTempWater r)), (''fan_rpm'', SInt (RFanRPM r)), (''laser_hours'', SNum (RLaserHours r)),
     (''progress'', SInt (RProgress r)), (''seq'', SInt (RSeq r)), (''ts'', SInt (RTs r))]"

fun scalar :: "member \<Rightarrow> sval option" where
  "scalar (MStr s) = Some (SText s)"
| "scalar (MBool b) = Some (SFlag b)"
| "scalar (MNum q) = Some (SNum q)"
| "scalar MOther = None"

definition ShadowFieldsWithExtras :: "TelemetryRow \<Rightarrow> (string \<rightharpoonup> sval) \<Rightarrow> string \<rightharpoonup> sval" where
  "ShadowFieldsWithExtras r extras = extras ++ map_of (ShadowFields r)"

definition EventShadowFields :: "EvPayload \<Rightarrow> string \<rightharpoonup> sval" where
  "EventShadowFields v = [''last_event_code'' \<mapsto> SText (VCode v), ''last_event_msg'' \<mapsto> SText (VMsg v), ''last_event_ts'' \<mapsto> SInt (VTs v),
     ''last_event_seq'' \<mapsto> SInt (VSeq v)]"

definition newer :: "TelemetryRow \<Rightarrow> TelemetryRow \<Rightarrow> bool" where
  "newer r cur \<longleftrightarrow> RTs cur < RTs r \<or> (RTs r = RTs cur \<and> RSeq cur < RSeq r)"

definition latest_step :: "TelemetryRow list \<Rightarrow> TelemetryRow \<Rightarrow> TelemetryRow list" where
  "latest_step out r =
     (if list_ex (\<lambda>x. RSN x = RSN r) out then map (\<lambda>x. if RSN x = RSN r \<and> newer r x then r else x) out else out @ [r])"

definition LatestPerSN :: "TelemetryRow list \<Rightarrow> TelemetryRow list" where
  "LatestPerSN rows = foldl latest_step [] rows"

definition latest_of :: "TelemetryRow list \<Rightarrow> TelemetryRow \<Rightarrow> bool" where
  "latest_of rows r \<longleftrightarrow> r \<in> set rows \<and> (\<forall>x\<in>set rows. RSN x = RSN r \<longrightarrow> \<not> newer x r)"

definition latest_inv :: "TelemetryRow list \<Rightarrow> TelemetryRow list \<Rightarrow> bool" where
  "latest_inv rows out \<longleftrightarrow> distinct (map RSN out) \<and> set (map RSN out) = set (map RSN rows) \<and> list_all (latest_of rows) out"

lemma newer_trans: "newer a b \<Longrightarrow> \<not> newer c b \<Longrightarrow> \<not> newer c a"
  by (auto simp: newer_def)

lemma not_newer_trans: "\<not> newer a b \<Longrightarrow> \<not> newer b c \<Longrightarrow> \<not> newer a c"
  by (auto simp: newer_def)

lemma latest_step_inv:
  assumes "latest_inv rows out" shows "latest_inv (rows @ [r]) (latest_step out r)"
proof (cases "list_ex (\<lambda>x. RSN x = RSN r) out")
  case True
  let ?f = "\<lambda>x. if RSN x = RSN r \<and> newer r x then r else x"
  have k: "map RSN (map ?f out) = map RSN out" by simp
  have "latest_of (rows @ [r]) (?f x)" if "x \<in> set out" for x
  proof -
    have x: "latest_of rows x" using assms that by (auto simp: latest_inv_def list_all_iff)
    show ?thesis
    proof (cases "RSN x = RSN r \<and> newer r x")
      case True
      then have "\<not> newer y r" if "y \<in> set rows" "RSN y = RSN r" for y
        using newer_trans[of r x y] x that by (simp add: latest_of_def)
      moreover have "\<not> newer r r" by (simp add: newer_def)
      ultimately show ?thesis using True by (auto simp: latest_of_def)
    next
      case False
      then show ?thesis using x by (auto simp: latest_of_def)
    qed
  qed
  moreover have "RSN r \<in> set (map RSN rows)" 
  proof -
    obtain x where "x \<in> set out" "RSN x = RSN r" using True by (auto simp: list_ex_iff)
    then have "RSN r \<in> set (map RSN out)" by (metis image_eqI set_map)
    then show ?thesis using assms unfolding latest_inv_def by blast
  qed
  ultimately show ?thesis
  proof -
    assume a: "\<And>x. x \<in> set out \<Longrightarrow> latest_of (rows @ [r]) (?f x)" and b: "RSN r \<in> set (map RSN rows)"
    have s: "latest_step out r = map ?f out" using True by (simp add: latest_step_def)
    have "set (map RSN (rows @ [r])) = set (map RSN rows)" using b by auto
    moreover have "list_all (latest_of (rows @ [r])) (map ?f out)" unfolding list_all_iff set_map using a by blast
    ultimately show ?thesis using assms unfolding latest_inv_def s k by simp
  qed
next
  case False
  then have n: "RSN r \<notin> set (map RSN rows)" 
  proof -
    have "RSN r \<notin> set (map RSN out)" using False by (auto simp: list_ex_iff)
    then show ?thesis using assms unfolding latest_inv_def by blast
  qed
  have "latest_of (rows @ [r]) x" if "x \<in> set out" for x
  proof -
    have x: "latest_of rows x" using assms that by (auto simp: latest_inv_def list_all_iff)
    then have "RSN r \<noteq> RSN x" using n by (auto simp: latest_of_def)
    then show ?thesis using x by (auto simp: latest_of_def)
  qed
  moreover have "RSN y \<noteq> RSN r" if "y \<in> set rows" for y using n that by (metis image_eqI set_map)
  then have "latest_of (rows @ [r]) r" by (auto simp: latest_of_def newer_def)
  moreover have "latest_step out r = out @ [r]" using False by (simp add: latest_step_def)
  moreover have "distinct (map RSN (out @ [r]))" "set (map RSN (out @ [r])) = set (map RSN (rows @ [r]))"
    using assms n by (simp_all add: latest_inv_def del: set_map)
  ultimately show ?thesis by (simp add: latest_inv_def list_all_iff del: set_map map_append)
qed

text \<open>Of the rows of a batch the shadow gets exactly one of each device, and none of the device is newer.\<close>

theorem LatestPerSN_spec: "latest_inv rows (LatestPerSN rows)"
proof -
  have "latest_inv (done @ rest) (foldl latest_step out rest)" if "latest_inv done out" for "done" rest out
    using that
  proof (induction rest arbitrary: "done" out)
    case (Cons r rest)
    show ?case using Cons.IH[OF latest_step_inv[OF Cons.prems, of r]] by simp
  qed simp
  from this[of "[]" "[]" rows] show ?thesis by (simp add: LatestPerSN_def latest_inv_def)
qed

subsection \<open>Statements\<close>

text \<open>\<open>q\<close> doubles the quotes of a text; \<open>num\<close> is Go's \<open>%g\<close>.\<close>

definition quoted :: "string \<Rightarrow> string" where
  "quoted s = [CHR 0x27] @ concat (map (\<lambda>c. if c = CHR 0x27 then [CHR 0x27, CHR 0x27] else [c]) s) @ [CHR 0x27]"

definition qn :: "string \<Rightarrow> string" where "qn s = (if s = [] then ''NULL'' else quoted s)"

definition sanitize :: "string \<Rightarrow> string" where
  "sanitize sn = map (\<lambda>c. if between CHR ''a'' CHR ''z'' c \<or> is_digit c \<or> c = CHR ''_'' then c else CHR ''_'') (toLower sn)"

abbreviation maxSQLBytes :: nat where "maxSQLBytes \<equiv> 921600"

definition comma :: "string list \<Rightarrow> string" where "comma xs = joinc CHR '','' xs"

definition row_text :: "(rat \<Rightarrow> string) \<Rightarrow> TelemetryRow \<Rightarrow> string" where
  "row_text num r = ''('' @ comma [FormatInt (RTs r), FormatInt (RSeq r), FormatInt (RWorkState r), FormatInt (RPowerLevel r),
     num (RTempCavity r), num (RTempWater r), FormatInt (RFanRPM r), num (RLaserHours r), FormatInt (RProgress r)] @ '') ''"

text \<open>The rows of one device, with the tags of the first.\<close>

definition part_text :: "(rat \<Rightarrow> string) \<Rightarrow> TelemetryRow list \<Rightarrow> string" where
  "part_text num rs = (let f = hd rs in ''iot.t_'' @ sanitize (RSN f) @ '' USING iot.telemetry TAGS ('' @
     comma [quoted (RSN f), quoted (RPK f), quoted (RFW f), quoted (RRegion f), FormatInt (RCell f)] @ '') VALUES '' @
     concat (map (row_text num) rs))"

text \<open>The devices in order, and the rows of each in order of time (Go's sort leaves the order of equal times open).\<close>

definition groups :: "TelemetryRow list \<Rightarrow> TelemetryRow list list" where
  "groups rows = map (\<lambda>sn. sort_key RTs (filter (\<lambda>r. RSN r = sn) rows)) (sort_str (\<lambda>sn. sn) (remdups (map RSN rows)))"

text \<open>The groups each statement takes: as many as fit, but at least one.\<close>

fun pack :: "(TelemetryRow list \<Rightarrow> nat) \<Rightarrow> nat \<Rightarrow> TelemetryRow list list \<Rightarrow> TelemetryRow list list \<Rightarrow> TelemetryRow list list list" where
  "pack len used cur [] = [cur]"
| "pack len used cur (g # gs) =
     (if maxSQLBytes < used + len g \<and> 12 < used then cur # pack len (12 + len g) [g] gs
      else pack len (used + len g) (cur @ [g]) gs)"

definition telemetry_statements :: "(rat \<Rightarrow> string) \<Rightarrow> TelemetryRow list \<Rightarrow> TelemetryRow list list list" where
  "telemetry_statements num rows = (if rows = [] then [] else pack (\<lambda>g. length (part_text num g)) 12 [] (groups rows))"

definition BuildTelemetryInserts :: "(rat \<Rightarrow> string) \<Rightarrow> TelemetryRow list \<Rightarrow> string list" where
  "BuildTelemetryInserts num rows = map (\<lambda>gs. ''INSERT INTO '' @ concat (map (part_text num) gs)) (telemetry_statements num rows)"

definition event_text :: "EventRow \<Rightarrow> string" where
  "event_text r = ''iot.e_'' @ sanitize (WSN r) @ '' USING iot.events TAGS ('' @ comma [quoted (WSN r), quoted (WPK r)] @ '') VALUES ('' @
     comma [FormatInt (WTs r), FormatInt (WSeq r), quoted (WCode r), quoted (WMsg r), qn (WJobID r), qn (WMaterialID r),
       qn (WParamProfileID r), qn (WParamsHash r)] @ '') ''"

definition BuildEventInserts :: "EventRow list \<Rightarrow> string list" where
  "BuildEventInserts rows = (if rows = [] then [] else [''INSERT INTO '' @ concat (map event_text rows)])"

text \<open>Every row is in exactly one statement, with all others of its device, and a statement of more than one device is within the limit.\<close>

lemma pack_concat: "concat (pack len used cur gs) = cur @ gs"
  by (induction len used cur gs rule: pack.induct) auto

lemma mset_filter_groups:
  "distinct ks \<Longrightarrow> mset (concat (map (\<lambda>k. sort_key RTs (filter (\<lambda>r. RSN r = k) rows)) ks)) = mset (filter (\<lambda>r. RSN r \<in> set ks) rows)"
proof (induction ks)
  case (Cons k ks)
  have "mset (filter (\<lambda>r. RSN r = k \<or> RSN r \<in> set ks) rows) = mset (filter (\<lambda>r. RSN r = k) rows) + mset (filter (\<lambda>r. RSN r \<in> set ks) rows)"
    using Cons.prems by (induction rows) auto
  then show ?case using Cons by simp
qed simp

lemma pack_size:
  assumes "used = 12 + sum_list (map len cur)" "length cur \<le> 1 \<or> used \<le> maxSQLBytes" "\<And>g. 0 < len g"
  shows "list_all (\<lambda>st. length st \<le> 1 \<or> 12 + sum_list (map len st) \<le> maxSQLBytes) (pack len used cur gs)"
  using assms
proof (induction len used cur gs rule: pack.induct)
  case (2 len used cur g gs)
  show ?case
  proof (cases "maxSQLBytes < used + len g \<and> 12 < used")
    case True
    then show ?thesis using 2 by simp
  next
    case False
    have "length (cur @ [g]) \<le> 1 \<or> used + len g \<le> maxSQLBytes"
    proof (cases cur)
      case (Cons h t)
      then have "12 < used" using 2(3) 2(5)[of h] by simp
      then show ?thesis using False by auto
    qed simp
    moreover have "pack len used cur (g # gs) = pack len (used + len g) (cur @ [g]) gs" using False by auto
    ultimately show ?thesis using 2(2)[OF False] 2(3) 2(5) by simp
  qed
qed simp

lemma statements_mset: "mset (concat (concat (telemetry_statements num rows))) = mset rows"
proof (cases "rows = []")
  case False
  have "set (sort_str (\<lambda>sn. sn) (remdups (map RSN rows))) = set (map RSN rows)" "distinct (sort_str (\<lambda>sn. sn) (remdups (map RSN rows)))"
    by auto
  then show ?thesis
    using mset_filter_groups[of "sort_str (\<lambda>sn. sn) (remdups (map RSN rows))" rows] False
    by (simp add: telemetry_statements_def pack_concat groups_def)
qed (simp add: telemetry_statements_def)

lemma statements_rows: "set (concat (concat (telemetry_statements num rows))) = set rows"
  by (metis set_mset_mset statements_mset)

text \<open>
  C29: The statements made of a batch hold every row of it exactly once; the rows of a device are all in one statement, in order of time;
  and a statement for more than one device is not longer than the limit of the server's side.
\<close>

theorem statements_cover:
  "mset (concat (concat (telemetry_statements num rows))) = mset rows \<and>
   distinct (map (\<lambda>g. RSN (hd g)) (concat (telemetry_statements num rows))) \<and>
   list_all (\<lambda>g. g \<noteq> [] \<and> sorted (map RTs g) \<and> (\<exists>sn. g = sort_key RTs (filter (\<lambda>r. RSN r = sn) rows))) (concat (telemetry_statements num rows)) \<and>
   list_all (\<lambda>gs. length gs \<le> 1 \<or> length (''INSERT INTO '' @ concat (map (part_text num) gs)) \<le> maxSQLBytes) (telemetry_statements num rows)"
proof (cases "rows = []")
  case False
  let ?ks = "sort_str (\<lambda>sn. sn) (remdups (map RSN rows))"
  have ks: "set ?ks = set (map RSN rows)" "distinct ?ks" by auto
  have c: "concat (telemetry_statements num rows) = groups rows" using False by (simp add: telemetry_statements_def pack_concat)
  have empty: "sort_key RTs xs = [] \<longleftrightarrow> xs = []" for xs by (metis set_empty set_sort)
  have ne: "filter (\<lambda>r. RSN r = k) rows \<noteq> []" if "k \<in> set ?ks" for k using that ks(1) by (auto simp: filter_empty_conv)
  have hd: "RSN (hd (sort_key RTs (filter (\<lambda>r. RSN r = k) rows))) = k" if "k \<in> set ?ks" for k
  proof -
    have "sort_key RTs (filter (\<lambda>r. RSN r = k) rows) \<noteq> []" using ne[OF that] by (metis set_empty set_sort)
    then have "hd (sort_key RTs (filter (\<lambda>r. RSN r = k) rows)) \<in> set (filter (\<lambda>r. RSN r = k) rows)" using hd_in_set by (metis set_sort)
    then show ?thesis by simp
  qed
  have "map (\<lambda>g. RSN (hd g)) (groups rows) = ?ks" unfolding groups_def map_map by (rule map_idI) (simp add: hd)
  moreover have "mset (concat (groups rows)) = mset rows" using statements_mset[of num rows] c by simp
  moreover have "list_all (\<lambda>g. g \<noteq> [] \<and> sorted (map RTs g) \<and> (\<exists>sn. g = sort_key RTs (filter (\<lambda>r. RSN r = sn) rows))) (groups rows)"
    using ne empty by (auto simp: groups_def list_all_iff)
  moreover have "list_all (\<lambda>gs. length gs \<le> 1 \<or> length (''INSERT INTO '' @ concat (map (part_text num) gs)) \<le> maxSQLBytes) (telemetry_statements num rows)"
    using pack_size[of 12 "\<lambda>g. length (part_text num g)" "[]" "groups rows"] False
    by (simp add: telemetry_statements_def length_concat comp_def part_text_def Let_def)
  ultimately show ?thesis unfolding c using ks(2) by simp
qed (simp add: telemetry_statements_def)

subsection \<open>The schema\<close>

fun cut_comment :: "string \<Rightarrow> string" where
  "cut_comment (a # b # r) = (if a = CHR ''-'' \<and> b = CHR ''-'' then [] else a # cut_comment (b # r))"
| "cut_comment s = s"

definition SplitStatements :: "string \<Rightarrow> string list" where
  "SplitStatements sql = filter (\<lambda>s. s \<noteq> [])
     (map trimSpace (splitc CHR '';'' (joinc (CHR 0x0A) (map cut_comment (splitc (CHR 0x0A) sql)))))"

definition StreamNeedsRebuild :: "string list \<Rightarrow> string list \<Rightarrow> bool" where
  "StreamNeedsRebuild existing required \<longleftrightarrow> existing \<noteq> [] \<and>
     list_ex (\<lambda>r. toLower r \<notin> set (map (\<lambda>c. toLower (trimSpace c)) existing)) required"

text \<open>A comment with the separator in it does not make a statement.\<close>

lemma comment_separator: "SplitStatements (''a; -- b; c'' @ [CHR 0x0A] @ ''d;'') = [''a'', ''d'']"
  by code_simp

end
