(* ===== verification/PipeWorker.thy ===== *)
theory PipeWorker
  imports Pipeline
begin

text \<open>
  The worker of the pipeline, \<open>internal/pipeline/worker.go\<close>, with the keys of \<open>internal/pkg/dedupe\<close> and the writes of
  \<open>internal/pkg/shadow\<close>: what one message and one batch do to Redis, TDengine, the dead letters and the message itself.
\<close>

subsection \<open>State\<close>

record 'p Msg =
  MsgNo :: nat
  MSubject :: string
  Data :: "'p Envelope option"

record 'p item =
  ItMsg :: "'p Msg"
  ItEnv :: "'p Envelope"
  ItRow :: TelemetryRow
  ItExtras :: "(string \<times> member) list"

text \<open>
  \<open>Dims\<close> is the device dimension in Redis, \<open>DedupeKeys\<close> the keys in force, \<open>Queue\<close> what was handed to the batch loop and not yet flushed,
  \<open>Acked\<close> the messages the server takes for handled. \<open>TelTable\<close> and \<open>EvTable\<close> are the rows TDengine was given.
\<close>

record 'p Pipe =
  Dims :: "string \<Rightarrow> string \<rightharpoonup> string"
  DedupeKeys :: "string set"
  TelTable :: "TelemetryRow list"
  EvTable :: "EventRow list"
  Shadows :: "string \<Rightarrow> string \<rightharpoonup> sval"
  CmdRes :: "string \<rightharpoonup> 'p"
  Dead :: "(string \<times> 'p Msg) list"
  Queue :: "'p item list"
  Acked :: "nat set"
  PipeM :: metrics

text \<open>How the calls of a step end: the dimension look-up, SETNX, the insertion of an event, the writes of shadow and command result,
  DEL, the dead letter, each statement of a batch, and each acknowledgement.\<close>

record PipeEnv =
  PDims :: bool
  PSeen :: answer
  PInsertEvent :: answer
  PShadow :: answer
  PCmdRes :: answer
  PDel :: answer
  PDead :: answer
  PStatement :: "nat \<Rightarrow> answer"
  PAck :: "nat \<Rightarrow> answer"
  PClock :: time

record PipeCfg =
  WCell :: int
  HasDLQ :: bool
  NumText :: "rat \<Rightarrow> string"

definition dedupe_key :: "string \<Rightarrow> int \<Rightarrow> string" where
  "dedupe_key sn seq = ''dedupe:'' @ sn @ '':'' @ FormatInt seq"

definition env_key :: "'p Envelope \<Rightarrow> string" where "env_key env = dedupe_key (SN env) (Seq env)"

definition wcount :: "string \<Rightarrow> 'p Pipe \<Rightarrow> 'p Pipe" where "wcount n w = w\<lparr>PipeM := Inc n (PipeM w)\<rparr>"

definition wadd :: "string \<Rightarrow> nat \<Rightarrow> 'p Pipe \<Rightarrow> 'p Pipe" where "wadd n k w = w\<lparr>PipeM := Add n (int k) (PipeM w)\<rparr>"

text \<open>Whether it is a duplicate, or \<open>None\<close> for an error of Redis.\<close>

definition Seen :: "answer \<Rightarrow> string \<Rightarrow> 'p Pipe \<Rightarrow> bool option \<times> 'p Pipe" where
  "Seen a key w = exec a (\<lambda>w. Some (key \<in> DedupeKeys w, w\<lparr>DedupeKeys := insert key (DedupeKeys w)\<rparr>)) w"

definition ack :: "PipeEnv \<Rightarrow> 'p Msg \<Rightarrow> 'p Pipe \<Rightarrow> 'p Pipe" where
  "ack e m w =
     (let w1 = (if took (PAck e (MsgNo m)) then w\<lparr>Acked := insert (MsgNo m) (Acked w)\<rparr> else w) in
      if PAck e (MsgNo m) = Done then w1 else wcount ''ack_err'' w1)"

text \<open>The messages go back to the server, which is what happens to them anyway.\<close>

definition nakAll :: "PipeEnv \<Rightarrow> ('p Msg \<times> 'p Envelope) list \<Rightarrow> 'p Pipe \<Rightarrow> 'p Pipe" where
  "nakAll e batch w =
     (let w1 = (if took (PDel e) then w\<lparr>DedupeKeys := DedupeKeys w - set (map (\<lambda>(m, env). env_key env) batch)\<rparr> else w) in
      wadd ''nak'' (length batch) (wadd ''ack_err'' (length (filter (\<lambda>(m, env). PAck e (MsgNo m) \<noteq> Done) batch)) w1))"

definition WriteReported :: "time \<Rightarrow> string \<Rightarrow> (string \<rightharpoonup> sval) \<Rightarrow> 'p Pipe \<Rightarrow> 'p Pipe" where
  "WriteReported now sn f w = w\<lparr>Shadows := (Shadows w)(sn := Shadows w sn ++ f(''updated_at'' \<mapsto> SInt now))\<rparr>"

subsection \<open>One message\<close>

definition handlePoison :: "PipeCfg \<Rightarrow> PipeEnv \<Rightarrow> 'p Msg \<Rightarrow> 'p Pipe \<Rightarrow> 'p Pipe" where
  "handlePoison c e m w =
     (if \<not> HasDLQ c then ack e m w
      else (case exec (PDead e) (\<lambda>w. Some ((), w\<lparr>Dead := Dead w @ [(SubjectDLQ (KindFromSubject (MSubject m)), m)]\<rparr>)) w of
        (None, w1) \<Rightarrow> (let w2 = wcount ''dlq_publish_err'' w1 in wcount ''nak'' (if PAck e (MsgNo m) = Done then w2 else wcount ''ack_err'' w2))
      | (Some _, w1) \<Rightarrow> ack e m (wcount ''dlq'' w1)))"

definition handleEvent :: "PipeEnv \<Rightarrow> 'p Msg \<Rightarrow> 'p Envelope \<Rightarrow> DeviceInfo \<Rightarrow> EvPayload \<Rightarrow> 'p Pipe \<Rightarrow> 'p Pipe" where
  "handleEvent e m env dev v w =
     (case exec (PInsertEvent e) (\<lambda>w. Some ((), w\<lparr>EvTable := EvTable w @ [ToEventRow env dev v]\<rparr>)) w of
        (None, w1) \<Rightarrow> nakAll e [(m, env)] w1
      | (Some _, w1) \<Rightarrow>
          (let w2 = (if took (PShadow e) then WriteReported (PClock e) (SN env) (EventShadowFields v) w1 else w1);
               w3 = (if PShadow e = Done then w2 else wcount ''shadow_err'' w2)
           in ack e m (wcount ''events'' w3)))"

definition handleCmdAck :: "PipeEnv \<Rightarrow> 'p Msg \<Rightarrow> 'p Envelope \<Rightarrow> CmdAckPayload \<Rightarrow> 'p Pipe \<Rightarrow> 'p Pipe" where
  "handleCmdAck e m env a w =
     (case exec (PCmdRes e) (\<lambda>w. Some ((), w\<lparr>CmdRes := (CmdRes w)(ACmdID a \<mapsto> EPayload env)\<rparr>)) w of
        (None, w1) \<Rightarrow> nakAll e [(m, env)] w1
      | (Some _, w1) \<Rightarrow> ack e m (wcount ''cmd_acks'' w1))"

definition no_fields :: "string \<rightharpoonup> string" where "no_fields = (\<lambda>_. None)"

definition device_of :: "PipeCfg \<Rightarrow> PipeEnv \<Rightarrow> 'p Msg \<Rightarrow> 'p Envelope \<Rightarrow> 'p Pipe \<Rightarrow> DeviceInfo" where
  "device_of c e m env w =
     (let cell = CellFromSubject (MSubject m) in
      MergeDevice env (if cell = 0 then WCell c else cell) (if PDims e then Dims w (SN env) else no_fields))"

definition enrich_counts :: "PipeEnv \<Rightarrow> 'p Envelope \<Rightarrow> 'p Pipe \<Rightarrow> 'p Pipe" where
  "enrich_counts e env w =
     (if \<not> PDims e then wcount ''enrich_err'' w else if Dims w (SN env) = no_fields then wcount ''enrich_missing'' w else w)"

definition dispatch_body :: "PipeEnv \<Rightarrow> 'p Msg \<Rightarrow> 'p Envelope \<Rightarrow> DeviceInfo \<Rightarrow> body \<Rightarrow> 'p Pipe \<Rightarrow> 'p Pipe" where
  "dispatch_body e m env dev b w =
     (case b of
        BTelemetry t extras \<Rightarrow>
          w\<lparr>Queue := Queue w @ [\<lparr>ItMsg = m, ItEnv = env, ItRow = ToTelemetryRow env dev t, ItExtras = extras\<rparr>]\<rparr>
      | BEvent v \<Rightarrow> handleEvent e m env dev v w
      | BCmdAck a \<Rightarrow> handleCmdAck e m env a w
      | BProgress \<Rightarrow> w)"

definition process :: "'p Decoders \<Rightarrow> PipeCfg \<Rightarrow> PipeEnv \<Rightarrow> 'p Msg \<Rightarrow> 'p Pipe \<Rightarrow> 'p Pipe" where
  "process d c e m w0 =
     (let w = wcount ''consumed'' w0 in
      case ParseAndValidate d (Data m) of
        None \<Rightarrow> handlePoison c e m (wcount ''poison'' w)
      | Some (env, b) \<Rightarrow>
          (if Kind env = KindOTAProgress then ack e m (wcount ''ota_acked'' w)
           else (case Seen (PSeen e) (env_key env) (enrich_counts e env w) of
             (None, w1) \<Rightarrow> dispatch_body e m env (device_of c e m env w) b (wcount ''dedupe_redis_err'' w1)
           | (Some True, w1) \<Rightarrow> ack e m (wcount ''dup'' w1)
           | (Some False, w1) \<Rightarrow> dispatch_body e m env (device_of c e m env w) b w1)))"

subsection \<open>One batch\<close>

text \<open>The statements one after the other, until one fails; it may have been carried out all the same.\<close>

fun exec_statements :: "(nat \<Rightarrow> answer) \<Rightarrow> nat \<Rightarrow> TelemetryRow list list list \<Rightarrow> 'p Pipe \<Rightarrow> bool \<times> 'p Pipe" where
  "exec_statements a i [] w = (True, w)"
| "exec_statements a i (st # sts) w =
     (let w1 = (if took (a i) then w\<lparr>TelTable := TelTable w @ concat st\<rparr> else w) in
      if a i = Done then exec_statements a (i + 1) sts w1 else (False, w1))"

definition extras_map :: "(string \<times> member) list \<Rightarrow> string \<rightharpoonup> sval" where
  "extras_map ms = (\<lambda>k. case map_of ms k of None \<Rightarrow> None | Some v \<Rightarrow> scalar v)"

definition merged_extras :: "'p item list \<Rightarrow> string \<Rightarrow> string \<rightharpoonup> sval" where
  "merged_extras batch sn = foldl (\<lambda>f it. if RSN (ItRow it) = sn then f ++ extras_map (ItExtras it) else f) (\<lambda>_. None) batch"

definition write_shadows :: "time \<Rightarrow> 'p item list \<Rightarrow> 'p Pipe \<Rightarrow> 'p Pipe" where
  "write_shadows now batch w =
     foldl (\<lambda>w r. WriteReported now (RSN r) (ShadowFieldsWithExtras r (merged_extras batch (RSN r))) w) w (LatestPerSN (map ItRow batch))"

definition flush :: "PipeCfg \<Rightarrow> PipeEnv \<Rightarrow> 'p item list \<Rightarrow> 'p Pipe \<Rightarrow> 'p Pipe" where
  "flush c e batch w =
     (if batch = [] then w
      else (case exec_statements (PStatement e) 0 (telemetry_statements (NumText c) (map ItRow batch)) w of
        (False, w1) \<Rightarrow> nakAll e (map (\<lambda>it. (ItMsg it, ItEnv it)) batch) w1
      | (True, w1) \<Rightarrow>
          (let w2 = (if took (PShadow e) then write_shadows (PClock e) batch w1 else w1);
               w3 = (if PShadow e = Done then w2 else wcount ''shadow_err'' w2);
               w4 = foldl (\<lambda>w it. ack e (ItMsg it) w) w3 batch
           in wadd ''rows_written'' (length batch) (wcount ''batches'' w4))))"

end
