(* ===== verification/PipeSafety.thy ===== *)
theory PipeSafety
  imports PipeWorker
begin

text \<open>
  What the pipeline may acknowledge. Messages may be delivered again and in any order, keys expire, batches fail in the middle; the
  worker may crash. Poison messages are kept in every run. That a message is written before it is acknowledged holds in calm runs only:
  those without a crash that loses a batch, without redelivery of a message still in a batch, in which DEL works, and in
  which a device uses a sequence number once. Without that the key set before the write makes the redelivered message a duplicate.
\<close>

subsection \<open>Steps\<close>

text \<open>\<open>M\<close> are the messages of the stream. The worker takes a batch from the front of what it has accepted.\<close>

inductive pipe_step :: "'p Decoders \<Rightarrow> PipeCfg \<Rightarrow> 'p Msg set \<Rightarrow> bool \<Rightarrow> 'p Pipe \<Rightarrow> 'p Pipe \<Rightarrow> bool" for d c M calm where
  deliver: "m \<in> M \<Longrightarrow> calm \<longrightarrow> took (PDel e) \<and> m \<notin> ItMsg ` set (Queue w) \<Longrightarrow> pipe_step d c M calm w (process d c e m w)"
| batch: "Queue w = batch @ rest \<Longrightarrow> calm \<longrightarrow> took (PDel e) \<Longrightarrow> pipe_step d c M calm w (flush c e batch (w\<lparr>Queue := rest\<rparr>))"
| expire: "pipe_step d c M calm w (w\<lparr>DedupeKeys := DedupeKeys w - K\<rparr>)"
| crash: "calm \<longrightarrow> Queue w = [] \<Longrightarrow> pipe_step d c M calm w (w\<lparr>Queue := []\<rparr>)"
| devices: "pipe_step d c M calm w (w\<lparr>Dims := dims\<rparr>)"

inductive_cases pipe_stepE: "pipe_step d c M calm w w'"

definition empty_pipe :: "'p Pipe \<Rightarrow> bool" where
  "empty_pipe w \<longleftrightarrow> DedupeKeys w = {} \<and> TelTable w = [] \<and> EvTable w = [] \<and> CmdRes w = Map.empty \<and> Dead w = [] \<and> Queue w = [] \<and> Acked w = {}"

inductive pipe_reach :: "'p Decoders \<Rightarrow> PipeCfg \<Rightarrow> 'p Msg set \<Rightarrow> bool \<Rightarrow> 'p Pipe \<Rightarrow> bool" for d c M calm where
  start: "empty_pipe w \<Longrightarrow> pipe_reach d c M calm w"
| step: "pipe_reach d c M calm w \<Longrightarrow> pipe_step d c M calm w w' \<Longrightarrow> pipe_reach d c M calm w'"

subsection \<open>What a step leaves alone\<close>

lemma pcount_frame [simp]:
  "TelTable (wcount n w) = TelTable w" "EvTable (wcount n w) = EvTable w" "CmdRes (wcount n w) = CmdRes w" "Dead (wcount n w) = Dead w"
  "Queue (wcount n w) = Queue w" "Acked (wcount n w) = Acked w" "DedupeKeys (wcount n w) = DedupeKeys w"
  "TelTable (wadd n k w) = TelTable w" "EvTable (wadd n k w) = EvTable w" "CmdRes (wadd n k w) = CmdRes w" "Dead (wadd n k w) = Dead w"
  "Queue (wadd n k w) = Queue w" "Acked (wadd n k w) = Acked w" "DedupeKeys (wadd n k w) = DedupeKeys w"
  by (simp_all add: wcount_def wadd_def)

lemma ack_frame [simp]:
  "TelTable (ack e m w) = TelTable w" "EvTable (ack e m w) = EvTable w" "CmdRes (ack e m w) = CmdRes w" "Dead (ack e m w) = Dead w"
  "Queue (ack e m w) = Queue w" "DedupeKeys (ack e m w) = DedupeKeys w"
  "Acked (ack e m w) = (if took (PAck e (MsgNo m)) then insert (MsgNo m) (Acked w) else Acked w)"
  by (simp_all add: ack_def Let_def)

lemma nakAll_frame [simp]:
  "TelTable (nakAll e b w) = TelTable w" "EvTable (nakAll e b w) = EvTable w" "CmdRes (nakAll e b w) = CmdRes w" "Dead (nakAll e b w) = Dead w"
  "Queue (nakAll e b w) = Queue w" "Acked (nakAll e b w) = Acked w"
  "DedupeKeys (nakAll e b w) = (if took (PDel e) then DedupeKeys w - set (map (\<lambda>(m, env). env_key env) b) else DedupeKeys w)"
  by (simp_all add: nakAll_def Let_def)

lemma WriteReported_frame [simp]:
  "TelTable (WriteReported t sn f w) = TelTable w" "EvTable (WriteReported t sn f w) = EvTable w" "CmdRes (WriteReported t sn f w) = CmdRes w"
  "Dead (WriteReported t sn f w) = Dead w" "Queue (WriteReported t sn f w) = Queue w" "Acked (WriteReported t sn f w) = Acked w"
  "DedupeKeys (WriteReported t sn f w) = DedupeKeys w"
  by (simp_all add: WriteReported_def)

lemma enrich_frame [simp]:
  "TelTable (enrich_counts e env w) = TelTable w" "EvTable (enrich_counts e env w) = EvTable w" "CmdRes (enrich_counts e env w) = CmdRes w"
  "Dead (enrich_counts e env w) = Dead w" "Queue (enrich_counts e env w) = Queue w" "Acked (enrich_counts e env w) = Acked w"
  "DedupeKeys (enrich_counts e env w) = DedupeKeys w"
  by (simp_all add: enrich_counts_def)

lemma write_all_frame [simp]:
  "TelTable (foldl (\<lambda>w r. WriteReported t (g r) (f r) w) w rs) = TelTable w" "EvTable (foldl (\<lambda>w r. WriteReported t (g r) (f r) w) w rs) = EvTable w"
  "CmdRes (foldl (\<lambda>w r. WriteReported t (g r) (f r) w) w rs) = CmdRes w" "Dead (foldl (\<lambda>w r. WriteReported t (g r) (f r) w) w rs) = Dead w"
  "Queue (foldl (\<lambda>w r. WriteReported t (g r) (f r) w) w rs) = Queue w" "Acked (foldl (\<lambda>w r. WriteReported t (g r) (f r) w) w rs) = Acked w"
  "DedupeKeys (foldl (\<lambda>w r. WriteReported t (g r) (f r) w) w rs) = DedupeKeys w"
  by (induction rs arbitrary: w) simp_all

lemma write_shadows_frame [simp]:
  "TelTable (write_shadows t b w) = TelTable w" "EvTable (write_shadows t b w) = EvTable w" "CmdRes (write_shadows t b w) = CmdRes w"
  "Dead (write_shadows t b w) = Dead w" "Queue (write_shadows t b w) = Queue w" "Acked (write_shadows t b w) = Acked w"
  "DedupeKeys (write_shadows t b w) = DedupeKeys w"
  by (simp_all add: write_shadows_def)

lemma ack_all_frame [simp]:
  "TelTable (foldl (\<lambda>w it. ack e (ItMsg it) w) w b) = TelTable w" "EvTable (foldl (\<lambda>w it. ack e (ItMsg it) w) w b) = EvTable w"
  "CmdRes (foldl (\<lambda>w it. ack e (ItMsg it) w) w b) = CmdRes w" "Dead (foldl (\<lambda>w it. ack e (ItMsg it) w) w b) = Dead w"
  "Queue (foldl (\<lambda>w it. ack e (ItMsg it) w) w b) = Queue w" "DedupeKeys (foldl (\<lambda>w it. ack e (ItMsg it) w) w b) = DedupeKeys w"
  by (induction b arbitrary: w) simp_all

lemma ack_all_acked: "Acked (foldl (\<lambda>w it. ack e (ItMsg it) w) w b) \<subseteq> Acked w \<union> MsgNo ` ItMsg ` set b"
proof (induction b arbitrary: w)
  case (Cons it b)
  have "Acked (ack e (ItMsg it) w) \<subseteq> insert (MsgNo (ItMsg it)) (Acked w)" by auto
  then show ?case using Cons[of "ack e (ItMsg it) w"] by auto
qed simp

lemma statements_frame:
  "exec_statements a i sts w = (ok, w') \<Longrightarrow> EvTable w' = EvTable w \<and> CmdRes w' = CmdRes w \<and> Dead w' = Dead w \<and> Queue w' = Queue w \<and>
     Acked w' = Acked w \<and> DedupeKeys w' = DedupeKeys w \<and> set (TelTable w) \<subseteq> set (TelTable w') \<and>
     set (TelTable w') \<subseteq> set (TelTable w) \<union> set (concat (concat sts)) \<and> (ok \<longrightarrow> set (TelTable w') = set (TelTable w) \<union> set (concat (concat sts)))"
proof (induction a i sts w rule: exec_statements.induct)
  case (2 a i st sts w)
  let ?w = "if took (a i) then w\<lparr>TelTable := TelTable w @ concat st\<rparr> else w"
  have k: "EvTable ?w = EvTable w \<and> CmdRes ?w = CmdRes w \<and> Dead ?w = Dead w \<and> Queue ?w = Queue w \<and> Acked ?w = Acked w \<and> DedupeKeys ?w = DedupeKeys w \<and>
      set (TelTable w) \<subseteq> set (TelTable ?w) \<and> set (TelTable ?w) \<subseteq> set (TelTable w) \<union> set (concat st)"
    by auto
  show ?case
  proof (cases "a i = Done")
    case True
    then have "exec_statements a (i + 1) sts ?w = (ok, w')" "took (a i)" using 2(2) by (simp_all add: Let_def took_def)
    then show ?thesis using 2(1)[OF refl True] by auto
  next
    case False
    then have "ok = False" "w' = ?w" using 2(2) by (simp_all add: Let_def)
    then show ?thesis using k by auto
  qed
qed simp

subsection \<open>Poison\<close>

definition dead_kept :: "PipeCfg \<Rightarrow> 'p Decoders \<Rightarrow> 'p Msg set \<Rightarrow> 'p Pipe \<Rightarrow> bool" where
  "dead_kept c d M w \<longleftrightarrow> (\<forall>m\<in>M. MsgNo m \<in> Acked w \<and> ParseAndValidate d (Data m) = None \<longrightarrow>
     (SubjectDLQ (KindFromSubject (MSubject m)), m) \<in> set (Dead w))"

lemma dead_kept_more:
  assumes "dead_kept c d M w" "set (Dead w) \<subseteq> set (Dead w')" "Acked w' \<subseteq> insert (MsgNo m) (Acked w)" "inj_on MsgNo M" "m \<in> M"
    "ParseAndValidate d (Data m) = None \<Longrightarrow> MsgNo m \<in> Acked w' \<Longrightarrow> MsgNo m \<notin> Acked w \<Longrightarrow> (SubjectDLQ (KindFromSubject (MSubject m)), m) \<in> set (Dead w')"
  shows "dead_kept c d M w'"
  unfolding dead_kept_def
proof (intro ballI impI)
  fix x assume x: "x \<in> M" "MsgNo x \<in> Acked w' \<and> ParseAndValidate d (Data x) = None"
  show "(SubjectDLQ (KindFromSubject (MSubject x)), x) \<in> set (Dead w')"
  proof (cases "MsgNo x \<in> Acked w")
    case True
    then show ?thesis using assms(1,2) x unfolding dead_kept_def by blast
  next
    case False
    then have "x = m" using x assms(3-5) by (auto dest: inj_onD)
    then show ?thesis using assms(6) x False by blast
  qed
qed

definition queue_parsed :: "'p Decoders \<Rightarrow> 'p Pipe \<Rightarrow> bool" where
  "queue_parsed d w \<longleftrightarrow> (\<forall>it\<in>set (Queue w). ParseAndValidate d (Data (ItMsg it)) \<noteq> None)"

lemma event_frame:
  "Dead (handleEvent e m env dev v w) = Dead w" "Queue (handleEvent e m env dev v w) = Queue w"
  "Acked (handleEvent e m env dev v w) \<subseteq> insert (MsgNo m) (Acked w)" "TelTable (handleEvent e m env dev v w) = TelTable w"
  "set (EvTable w) \<subseteq> set (EvTable (handleEvent e m env dev v w))" "CmdRes (handleEvent e m env dev v w) = CmdRes w"
  by (auto simp: handleEvent_def exec_def Let_def)

lemma cmdack_frame:
  "Dead (handleCmdAck e m env a w) = Dead w" "Queue (handleCmdAck e m env a w) = Queue w"
  "Acked (handleCmdAck e m env a w) \<subseteq> insert (MsgNo m) (Acked w)" "TelTable (handleCmdAck e m env a w) = TelTable w"
  "EvTable (handleCmdAck e m env a w) = EvTable w" "dom (CmdRes w) \<subseteq> dom (CmdRes (handleCmdAck e m env a w))"
  by (auto simp: handleCmdAck_def exec_def Let_def)

lemma dispatch_frame:
  "Dead (dispatch_body e m env dev b w) = Dead w" "Acked (dispatch_body e m env dev b w) \<subseteq> insert (MsgNo m) (Acked w)"
  "TelTable (dispatch_body e m env dev b w) = TelTable w" "set (EvTable w) \<subseteq> set (EvTable (dispatch_body e m env dev b w))"
  "dom (CmdRes w) \<subseteq> dom (CmdRes (dispatch_body e m env dev b w))"
  "set (Queue (dispatch_body e m env dev b w)) \<subseteq> set (Queue w) \<union> (case b of BTelemetry t ex \<Rightarrow>
     {\<lparr>ItMsg = m, ItEnv = env, ItRow = ToTelemetryRow env dev t, ItExtras = ex\<rparr>} | _ \<Rightarrow> {})"
  using event_frame[where e = e and m = m and env = env and dev = dev and w = w]
    cmdack_frame[where e = e and m = m and env = env and w = w]
  by (auto simp: dispatch_body_def split: body.splits)

lemma Seen_frame:
  assumes "Seen a k w = (r, w')"
  shows "w' = w \<and> r = None \<or> w' = w\<lparr>DedupeKeys := insert k (DedupeKeys w)\<rparr> \<and> (r = None \<or> r = Some (k \<in> DedupeKeys w))"
  using assms by (auto simp: Seen_def exec_def split: if_splits)

text \<open>A message that parses: what its delivery does.\<close>

lemma process_parsed:
  assumes "ParseAndValidate d (Data m) = Some (env, b)"
  obtains (progress) "Kind env = KindOTAProgress" "process d c e m w = ack e m (wcount ''ota_acked'' (wcount ''consumed'' w))"
  | (duplicate) w1 where "Kind env \<noteq> KindOTAProgress" "env_key env \<in> DedupeKeys w" "process d c e m w = ack e m w1" "TelTable w1 = TelTable w" "EvTable w1 = EvTable w"
      "CmdRes w1 = CmdRes w" "Dead w1 = Dead w" "Queue w1 = Queue w" "Acked w1 = Acked w" "DedupeKeys w1 = DedupeKeys w"
  | (handled) w1 dev where "Kind env \<noteq> KindOTAProgress" "process d c e m w = dispatch_body e m env dev b w1" "TelTable w1 = TelTable w" "EvTable w1 = EvTable w"
      "CmdRes w1 = CmdRes w" "Dead w1 = Dead w" "Queue w1 = Queue w" "Acked w1 = Acked w" "DedupeKeys w1 \<subseteq> insert (env_key env) (DedupeKeys w)"
proof (cases "Kind env = KindOTAProgress")
  case True
  then show ?thesis using progress assms by (simp add: process_def Let_def)
next
  case False
  let ?w = "wcount ''consumed'' w"
  obtain r w1 where s: "Seen (PSeen e) (env_key env) (enrich_counts e env ?w) = (r, w1)" by fastforce
  note f = Seen_frame[OF s]
  show ?thesis
  proof (cases "r = Some True")
    case True
    then have "process d c e m w = ack e m (wcount ''dup'' w1)" using assms False s by (simp add: process_def Let_def)
    moreover have "env_key env \<in> DedupeKeys w" "w1 = (enrich_counts e env ?w)\<lparr>DedupeKeys := insert (env_key env) (DedupeKeys w)\<rparr>" using f True by auto
    ultimately show ?thesis using duplicate[of "wcount ''dup'' w1"] False by (simp add: insert_absorb)
  next
    case n: False
    let ?w1 = "if r = None then wcount ''dedupe_redis_err'' w1 else w1"
    have "process d c e m w = dispatch_body e m env (device_of c e m env ?w) b ?w1"
      using assms False s n by (cases r) (auto simp: process_def Let_def)
    moreover have "TelTable w1 = TelTable w" "EvTable w1 = EvTable w" "CmdRes w1 = CmdRes w" "Dead w1 = Dead w" "Queue w1 = Queue w" "Acked w1 = Acked w"
      "DedupeKeys w1 \<subseteq> insert (env_key env) (DedupeKeys w)"
      using f by auto
    ultimately show ?thesis using handled[of "device_of c e m env ?w" ?w1] False by simp
  qed
qed

text \<open>A batch is written as a whole and acknowledged, or goes back.\<close>

lemma flush_result:
  assumes "batch \<noteq> []"
  obtains (written) "set (TelTable (flush c e batch w)) = set (TelTable w) \<union> ItRow ` set batch" "EvTable (flush c e batch w) = EvTable w" "CmdRes (flush c e batch w) = CmdRes w"
      "Dead (flush c e batch w) = Dead w" "Queue (flush c e batch w) = Queue w" "Acked (flush c e batch w) \<subseteq> Acked w \<union> MsgNo ` ItMsg ` set batch"
      "DedupeKeys (flush c e batch w) = DedupeKeys w"
  | (failed) "set (TelTable w) \<subseteq> set (TelTable (flush c e batch w))" "set (TelTable (flush c e batch w)) \<subseteq> set (TelTable w) \<union> ItRow ` set batch"
      "EvTable (flush c e batch w) = EvTable w" "CmdRes (flush c e batch w) = CmdRes w" "Dead (flush c e batch w) = Dead w" "Queue (flush c e batch w) = Queue w"
      "Acked (flush c e batch w) = Acked w"
      "DedupeKeys (flush c e batch w) = (if took (PDel e) then DedupeKeys w - (env_key \<circ> ItEnv) ` set batch else DedupeKeys w)"
proof -
  let ?st = "telemetry_statements (NumText c) (map ItRow batch)"
  obtain ok w1 where s: "exec_statements (PStatement e) 0 ?st w = (ok, w1)" by fastforce
  note f = statements_frame[OF s, unfolded statements_rows]
  show thesis
  proof (cases ok)
    case True
    let ?w2 = "if took (PShadow e) then write_shadows (PClock e) batch w1 else w1"
    let ?w3 = "if PShadow e = Done then ?w2 else wcount ''shadow_err'' ?w2"
    let ?w4 = "foldl (\<lambda>w it. ack e (ItMsg it) w) ?w3 batch"
    have r: "flush c e batch w = wadd ''rows_written'' (length batch) (wcount ''batches'' ?w4)"
      using assms s True by (simp add: flush_def Let_def)
    have "Acked ?w3 = Acked w" using f by auto
    then have "Acked ?w4 \<subseteq> Acked w \<union> MsgNo ` ItMsg ` set batch" using ack_all_acked[of e ?w3 batch] by metis
    moreover have "TelTable ?w3 = TelTable w1" "EvTable ?w3 = EvTable w1" "CmdRes ?w3 = CmdRes w1" "Dead ?w3 = Dead w1" "Queue ?w3 = Queue w1"
      "DedupeKeys ?w3 = DedupeKeys w1" by auto
    ultimately show thesis by (intro written; simp only: r pcount_frame ack_all_frame) (use f True in auto)
  next
    case False
    then have r: "flush c e batch w = nakAll e (map (\<lambda>it. (ItMsg it, ItEnv it)) batch) w1" using assms s by (simp add: flush_def)
    have k: "set (map (\<lambda>(m, env). env_key env) (map (\<lambda>it. (ItMsg it, ItEnv it)) batch)) = (env_key \<circ> ItEnv) ` set batch"
      by (force simp: comp_def)
    show thesis by (intro failed; simp only: r nakAll_frame k) (use f in auto)
  qed
qed

lemma flush_empty: "flush c e [] w = w" by (simp add: flush_def)

lemma poison_step:
  assumes "pipe_step d c M calm w w'" "HasDLQ c" "inj_on MsgNo M" "dead_kept c d M w \<and> queue_parsed d w \<and> ItMsg ` set (Queue w) \<subseteq> M"
  shows "dead_kept c d M w' \<and> queue_parsed d w' \<and> ItMsg ` set (Queue w') \<subseteq> M"
  using assms(1)
proof (cases rule: pipe_step.cases)
  case (deliver m e)
  show ?thesis
  proof (cases "ParseAndValidate d (Data m)")
    case None
    let ?w = "wcount ''poison'' (wcount ''consumed'' w)"
    have p: "process d c e m w = handlePoison c e m ?w" using None by (simp add: process_def)
    have q: "Queue (handlePoison c e m ?w) = Queue w" "set (Dead w) \<subseteq> set (Dead (handlePoison c e m ?w))"
      "Acked (handlePoison c e m ?w) = Acked w \<or> Acked (handlePoison c e m ?w) = insert (MsgNo m) (Acked w) \<and>
         (SubjectDLQ (KindFromSubject (MSubject m)), m) \<in> set (Dead (handlePoison c e m ?w))"
      using assms(2) by (auto simp: handlePoison_def exec_def Let_def)
    have "dead_kept c d M (handlePoison c e m ?w)"
      by (rule dead_kept_more[of c d M w _ m]) (use q assms(3,4) deliver(2) in auto)
    then show ?thesis using assms(4) q(1) by (simp add: deliver(1) p queue_parsed_def)
  next
    case (Some y)
    obtain env b where y: "y = (env, b)" by (cases y)
    have "dead_kept c d M (process d c e m w) \<and> set (Queue (process d c e m w)) \<subseteq> set (Queue w) \<union> {it. ItMsg it = m}"
      using Some[unfolded y]
    proof (cases rule: process_parsed[where e = e and w = w and c = c])
      case progress
      have "Acked (process d c e m w) \<subseteq> insert (MsgNo m) (Acked w)" "Dead (process d c e m w) = Dead w" "Queue (process d c e m w) = Queue w"
        by (auto simp: progress(2))
      then show ?thesis using dead_kept_more[of c d M w "process d c e m w" m] assms(3,4) deliver(2) Some by auto
    next
      case (duplicate w1)
      have "Acked (process d c e m w) \<subseteq> insert (MsgNo m) (Acked w)" "Dead (process d c e m w) = Dead w" "Queue (process d c e m w) = Queue w"
        by (auto simp: duplicate)
      then show ?thesis using dead_kept_more[of c d M w "process d c e m w" m] assms(3,4) deliver(2) Some by auto
    next
      case (handled w1 dev)
      have "Acked (process d c e m w) \<subseteq> insert (MsgNo m) (Acked w)" "Dead (process d c e m w) = Dead w"
        "set (Queue (process d c e m w)) \<subseteq> set (Queue w) \<union> {it. ItMsg it = m}"
        using dispatch_frame(1,2,6)[of e m env dev b w1] by (auto simp: handled split: body.splits)
      then show ?thesis using dead_kept_more[of c d M w "process d c e m w" m] assms(3,4) deliver(2) Some by auto
    qed
    then have k: "dead_kept c d M (process d c e m w)" "set (Queue (process d c e m w)) \<subseteq> set (Queue w) \<union> {it. ItMsg it = m}" by blast+
    have "ParseAndValidate d (Data (ItMsg it)) \<noteq> None \<and> ItMsg it \<in> M" if "it \<in> set (Queue (process d c e m w))" for it
      using that k(2) assms(4) deliver(2) Some unfolding queue_parsed_def by (cases "it \<in> set (Queue w)") auto
    then show ?thesis using k(1) unfolding deliver(1) queue_parsed_def by blast
  qed
next
  case (batch b rest e)
  have q: "Queue w' = rest \<and> Dead w' = Dead w \<and> Acked w' \<subseteq> Acked w \<union> MsgNo ` ItMsg ` set b"
  proof (cases "b = []")
    case True
    then show ?thesis by (simp add: batch(1) flush_empty)
  next
    case False
    then show ?thesis
    proof (cases rule: flush_result[where c = c and e = e and w = "w\<lparr>Queue := rest\<rparr>"])
      case written
      then show ?thesis by (simp add: batch(1))
    next
      case failed
      then show ?thesis by (simp add: batch(1))
    qed
  qed
  have "ParseAndValidate d (Data m) \<noteq> None" if "m \<in> M" "MsgNo m \<in> MsgNo ` ItMsg ` set b" for m
  proof -
    from that(2) obtain it where it: "it \<in> set b" "MsgNo (ItMsg it) = MsgNo m" by auto
    then have "ItMsg it = m" using assms(3,4) \<open>m \<in> M\<close> batch(2) by (auto dest: inj_onD)
    then show ?thesis using assms(4) it(1) batch(2) by (auto simp: queue_parsed_def)
  qed
  then have "MsgNo m \<in> Acked w" if "m \<in> M" "MsgNo m \<in> Acked w'" "ParseAndValidate d (Data m) = None" for m using that q by blast
  then have "dead_kept c d M w'" using q assms(4) unfolding dead_kept_def by metis
  then show ?thesis using q assms(4) batch(2) by (auto simp: queue_parsed_def)
qed (use assms(4) in \<open>auto simp: dead_kept_def queue_parsed_def\<close>)

text \<open>
  C27: With a dead-letter stream configured, in every run, with crashes, redeliveries and failures of any call, a message that cannot be
  parsed or is not valid is acknowledged only after it was stored among the dead letters, under the subject of its kind.
\<close>

theorem poison_is_kept:
  assumes "pipe_reach d c M calm w" "HasDLQ c" "inj_on MsgNo M" "m \<in> M" "MsgNo m \<in> Acked w" "ParseAndValidate d (Data m) = None"
  shows "(SubjectDLQ (KindFromSubject (MSubject m)), m) \<in> set (Dead w)"
proof -
  have "dead_kept c d M w \<and> queue_parsed d w \<and> ItMsg ` set (Queue w) \<subseteq> M"
    using assms(1)
  proof (induction rule: pipe_reach.induct)
    case (step w w')
    then show ?case using poison_step[OF step.hyps(2) assms(2,3)] by blast
  qed (simp add: empty_pipe_def dead_kept_def queue_parsed_def)
  then show ?thesis using assms(4-6) by (simp add: dead_kept_def)
qed


subsection \<open>Nothing is acknowledged unwritten\<close>

definition written :: "'p Pipe \<Rightarrow> 'p Envelope \<Rightarrow> body \<Rightarrow> bool" where
  "written w env b = (case b of
     BTelemetry t ex \<Rightarrow> (\<exists>r\<in>set (TelTable w). RSN r = SN env \<and> RTs r = LTs t \<and> RSeq r = LSeq t)
   | BEvent v \<Rightarrow> (\<exists>r\<in>set (EvTable w). WSN r = SN env \<and> WTs r = VTs v \<and> WSeq r = VSeq v \<and> WCode r = VCode v)
   | BCmdAck a \<Rightarrow> CmdRes w (ACmdID a) \<noteq> None
   | BProgress \<Rightarrow> True)"

definition item_ok :: "'p Decoders \<Rightarrow> 'p Msg set \<Rightarrow> 'p item \<Rightarrow> bool" where
  "item_ok d M it \<longleftrightarrow> ItMsg it \<in> M \<and> (\<exists>t ex. ParseAndValidate d (Data (ItMsg it)) = Some (ItEnv it, BTelemetry t ex) \<and>
     RSN (ItRow it) = SN (ItEnv it) \<and> RTs (ItRow it) = LTs t \<and> RSeq (ItRow it) = LSeq t)"

definition served :: "'p Decoders \<Rightarrow> 'p Msg set \<Rightarrow> 'p Pipe \<Rightarrow> string \<Rightarrow> bool" where
  "served d M w k \<longleftrightarrow> (\<exists>it\<in>set (Queue w). env_key (ItEnv it) = k) \<or>
     (\<exists>m\<in>M. \<exists>env b. ParseAndValidate d (Data m) = Some (env, b) \<and> b \<noteq> BProgress \<and> env_key env = k \<and> written w env b)"

definition handled_ok :: "'p Decoders \<Rightarrow> 'p Pipe \<Rightarrow> 'p Msg \<Rightarrow> bool" where
  "handled_ok d w m \<longleftrightarrow> (case ParseAndValidate d (Data m) of None \<Rightarrow> True | Some (env, b) \<Rightarrow> MsgNo m \<in> Acked w \<longrightarrow> written w env b)"

definition pipe_inv :: "'p Decoders \<Rightarrow> 'p Msg set \<Rightarrow> 'p Pipe \<Rightarrow> bool" where
  "pipe_inv d M w \<longleftrightarrow> list_all (item_ok d M) (Queue w) \<and> (\<forall>k\<in>DedupeKeys w. served d M w k) \<and> (\<forall>m\<in>M. handled_ok d w m)"

text \<open>Every message has its number, and a device uses a sequence number for one message only.\<close>

definition unique_keys :: "'p Decoders \<Rightarrow> 'p Msg set \<Rightarrow> bool" where
  "unique_keys d M \<longleftrightarrow> inj_on MsgNo M \<and> (\<forall>m\<in>M. \<forall>m'\<in>M. \<forall>env b env' b'. ParseAndValidate d (Data m) = Some (env, b) \<and> b \<noteq> BProgress \<and>
     ParseAndValidate d (Data m') = Some (env', b') \<and> b' \<noteq> BProgress \<and> env_key env = env_key env' \<longrightarrow> m = m')"

definition grows :: "'p Pipe \<Rightarrow> 'p Pipe \<Rightarrow> bool" where
  "grows w w' \<longleftrightarrow> set (TelTable w) \<subseteq> set (TelTable w') \<and> set (EvTable w) \<subseteq> set (EvTable w') \<and> dom (CmdRes w) \<subseteq> dom (CmdRes w')"

lemma written_grows: "grows w w' \<Longrightarrow> written w env b \<Longrightarrow> written w' env b"
  by (cases b) (auto simp: grows_def written_def)

lemma served_grows: "grows w w' \<Longrightarrow> set (Queue w) \<subseteq> set (Queue w') \<Longrightarrow> served d M w k \<Longrightarrow> served d M w' k"
  using written_grows unfolding served_def by blast

lemma handled_grows: "grows w w' \<Longrightarrow> handled_ok d w m \<Longrightarrow> MsgNo m \<notin> Acked w' \<or> MsgNo m \<in> Acked w \<Longrightarrow> handled_ok d w' m"
  using written_grows unfolding handled_ok_def by (auto split: option.splits)

lemma body_kind: "ParseAndValidate d msg = Some (env, b) \<Longrightarrow> b = BProgress \<longleftrightarrow> Kind env = KindOTAProgress"
  by (auto simp: ParseAndValidate_def Let_def split: option.splits if_splits)

lemma dispatch_result:
  assumes "took (PDel e)" "b \<noteq> BProgress"
  obtains (queued) t ex where "b = BTelemetry t ex" "dispatch_body e m env dev b w =
      w\<lparr>Queue := Queue w @ [\<lparr>ItMsg = m, ItEnv = env, ItRow = ToTelemetryRow env dev t, ItExtras = ex\<rparr>]\<rparr>"
  | (stored) "Queue (dispatch_body e m env dev b w) = Queue w" "written (dispatch_body e m env dev b w) env b"
      "DedupeKeys (dispatch_body e m env dev b w) = DedupeKeys w" "Acked (dispatch_body e m env dev b w) \<subseteq> insert (MsgNo m) (Acked w)"
  | (returned) "Queue (dispatch_body e m env dev b w) = Queue w" "Acked (dispatch_body e m env dev b w) = Acked w"
      "DedupeKeys (dispatch_body e m env dev b w) = DedupeKeys w - {env_key env}"
proof (cases b)
  case (BTelemetry t ex)
  then show ?thesis using queued by (simp add: dispatch_body_def)
next
  case (BEvent v)
  show ?thesis
  proof (cases "PInsertEvent e = Done")
    case True
    then show ?thesis
      by (intro stored) (auto simp: BEvent dispatch_body_def handleEvent_def exec_def took_def Let_def written_def ToEventRow_def)
  next
    case False
    then show ?thesis
      using assms(1) by (intro returned) (auto simp: BEvent dispatch_body_def handleEvent_def exec_def)
  qed
next
  case (BCmdAck a)
  show ?thesis
  proof (cases "PCmdRes e = Done")
    case True
    then show ?thesis
      by (intro stored) (auto simp: BCmdAck dispatch_body_def handleCmdAck_def exec_def took_def written_def)
  next
    case False
    then show ?thesis
      using assms(1) by (intro returned) (auto simp: BCmdAck dispatch_body_def handleCmdAck_def exec_def)
  qed
qed (use assms(2) in simp)


lemma process_grows: "grows w (process d c e m w)"
proof (cases "ParseAndValidate d (Data m)")
  case None
  then show ?thesis by (auto simp: process_def handlePoison_def exec_def Let_def grows_def)
next
  case (Some y)
  obtain env b where y: "y = (env, b)" by (cases y)
  show ?thesis using Some[unfolded y]
  proof (cases rule: process_parsed[where e = e and w = w and c = c])
    case (handled w1 dev)
    then show ?thesis
      using dispatch_frame(3)[of e m env dev b w1] dispatch_frame(4)[of w1 e m env dev b] dispatch_frame(5)[of w1 e m env dev b]
      by (simp add: grows_def)
  qed (auto simp: grows_def)
qed

lemma inv_deliver:
  assumes "pipe_inv d M w" "unique_keys d M" "m \<in> M" "took (PDel e)" "m \<notin> ItMsg ` set (Queue w)"
  shows "pipe_inv d M (process d c e m w)"
proof -
  let ?w = "process d c e m w"
  have i: "list_all (item_ok d M) (Queue w)" "\<And>k. k \<in> DedupeKeys w \<Longrightarrow> served d M w k" "\<And>m. m \<in> M \<Longrightarrow> handled_ok d w m"
    using assms(1) by (auto simp: pipe_inv_def)
  have inj: "x = m" if "x \<in> M" "MsgNo x = MsgNo m" for x using assms(2,3) that by (auto simp: unique_keys_def dest: inj_onD)
  have rest: "\<forall>x\<in>M. handled_ok d ?w x" if "handled_ok d ?w m" "Acked ?w \<subseteq> insert (MsgNo m) (Acked w)"
    using that inj handled_grows[OF process_grows i(3)] by (metis insert_iff subsetD)
  show ?thesis
  proof (cases "ParseAndValidate d (Data m)")
    case None
    have q: "Queue ?w = Queue w" "DedupeKeys ?w = DedupeKeys w" "Acked ?w \<subseteq> insert (MsgNo m) (Acked w)"
      using None by (auto simp: process_def handlePoison_def exec_def Let_def)
    have "handled_ok d ?w m" using None by (simp add: handled_ok_def)
    then show ?thesis
      using rest q i(1,2) served_grows[OF process_grows] unfolding pipe_inv_def by (metis order_refl)
  next
    case (Some y)
    obtain env b where y: "y = (env, b)" by (cases y)
    note p = Some[unfolded y]
    have ok: "handled_ok d ?w m" if "written ?w env b" using that p by (simp add: handled_ok_def)
    show ?thesis using p
    proof (cases rule: process_parsed[where e = e and w = w and c = c])
      case progress
      then have "b = BProgress" using body_kind[OF p] by blast
      then have "handled_ok d ?w m" by (intro ok) (simp add: written_def)
      moreover have "Queue ?w = Queue w" "DedupeKeys ?w = DedupeKeys w" "Acked ?w \<subseteq> insert (MsgNo m) (Acked w)" by (auto simp: progress(2))
      ultimately show ?thesis
        using rest i(1,2) served_grows[OF process_grows] unfolding pipe_inv_def by (metis order_refl)
    next
      case (duplicate w1)
      have b: "b \<noteq> BProgress" using body_kind[OF p] duplicate(1) by blast
      have s: "served d M w (env_key env)" using i(2) duplicate(2) by blast
      have "written w env b"
      proof -
        from s consider it where "it \<in> set (Queue w)" "env_key (ItEnv it) = env_key env"
          | m' env' b' where "m' \<in> M" "ParseAndValidate d (Data m') = Some (env', b')" "b' \<noteq> BProgress" "env_key env' = env_key env" "written w env' b'"
          unfolding served_def by blast
        then show ?thesis
        proof cases
          case (1 it)
          have "item_ok d M it" using i(1) 1(1) by (simp add: list_all_iff)
          then obtain t ex where it: "ItMsg it \<in> M" "ParseAndValidate d (Data (ItMsg it)) = Some (ItEnv it, BTelemetry t ex)" by (auto simp: item_ok_def)
          then have "ItMsg it = m" using assms(2,3) p b 1(2) unfolding unique_keys_def by (metis body.distinct(5))
          then show ?thesis using assms(5) 1(1) by blast
        next
          case (2 m' env' b')
          then have "m' = m" using assms(2,3) p b unfolding unique_keys_def by metis
          then show ?thesis using 2 p by simp
        qed
      qed
      then have "handled_ok d ?w m" by (intro ok written_grows[OF process_grows])
      moreover have "Queue ?w = Queue w" "DedupeKeys ?w = DedupeKeys w" "Acked ?w \<subseteq> insert (MsgNo m) (Acked w)" by (auto simp: duplicate)
      ultimately show ?thesis
        using rest i(1,2) served_grows[OF process_grows] unfolding pipe_inv_def by (metis order_refl)
    next
      case (handled w1 dev)
      have b: "b \<noteq> BProgress" using body_kind[OF p] handled(1) by blast
      have same: "handled_ok d ?w m" if "Acked ?w = Acked w" using handled_grows[OF process_grows i(3)[OF assms(3)]] that by blast
      show ?thesis using assms(4) b
      proof (cases rule: dispatch_result[where m = m and env = env and dev = dev and w = w1])
        case (queued t ex)
        let ?it = "\<lparr>ItMsg = m, ItEnv = env, ItRow = ToTelemetryRow env dev t, ItExtras = ex\<rparr>"
        have q: "Queue ?w = Queue w @ [?it]" "Acked ?w = Acked w" "DedupeKeys ?w \<subseteq> insert (env_key env) (DedupeKeys w)"
          using handled by (simp_all add: queued(2))
        have "item_ok d M ?it" using assms(3) p queued(1) by (simp add: item_ok_def ToTelemetryRow_def)
        moreover have "served d M ?w k" if "k \<in> DedupeKeys ?w" for k
        proof (cases "k = env_key env")
          case True
          then show ?thesis by (auto simp: served_def q(1))
        next
          case False
          then show ?thesis using that q i(2) served_grows[OF process_grows] by (metis Un_upper1 insertE set_append subsetD)
        qed
        ultimately show ?thesis using i(1) rest same[OF q(2)] q unfolding pipe_inv_def by auto
      next
        case stored
        have q: "Queue ?w = Queue w" "Acked ?w \<subseteq> insert (MsgNo m) (Acked w)" "DedupeKeys ?w \<subseteq> insert (env_key env) (DedupeKeys w)" "written ?w env b"
          using handled stored by auto
        have "served d M ?w k" if "k \<in> DedupeKeys ?w" for k
        proof (cases "k = env_key env")
          case True
          then show ?thesis using assms(3) p b q(4) unfolding served_def by blast
        next
          case False
          then show ?thesis using that q i(2) served_grows[OF process_grows] by (metis insertE order_refl subsetD)
        qed
        then show ?thesis using i(1) rest ok[OF q(4)] q unfolding pipe_inv_def by auto
      next
        case returned
        have q: "Queue ?w = Queue w" "Acked ?w = Acked w" "DedupeKeys ?w \<subseteq> DedupeKeys w"
          using handled returned by auto
        then show ?thesis
          using i(1,2) rest same served_grows[OF process_grows] unfolding pipe_inv_def by (metis order_refl subsetD subset_insertI)
      qed
    qed
  qed
qed

lemma flush_grows: "grows w (flush c e batch (w\<lparr>Queue := rest\<rparr>))"
proof (cases "batch = []")
  case False
  then show ?thesis
    by (cases rule: flush_result[where c = c and e = e and w = "w\<lparr>Queue := rest\<rparr>"]) (auto simp: grows_def)
qed (simp add: flush_empty grows_def)

lemma inv_batch:
  assumes "pipe_inv d M w" "unique_keys d M" "Queue w = batch @ rest" "took (PDel e)"
  shows "pipe_inv d M (flush c e batch (w\<lparr>Queue := rest\<rparr>))"
proof (cases "batch = []")
  case True
  then show ?thesis using assms(1,3) by (cases w) (simp add: flush_empty)
next
  case False
  let ?w = "flush c e batch (w\<lparr>Queue := rest\<rparr>)"
  have i: "\<And>it. it \<in> set batch \<Longrightarrow> item_ok d M it" "list_all (item_ok d M) rest" "\<And>k. k \<in> DedupeKeys w \<Longrightarrow> served d M w k"
      "\<And>m. m \<in> M \<Longrightarrow> handled_ok d w m"
    using assms(1,3) by (auto simp: pipe_inv_def list_all_iff)
  show ?thesis using False
  proof (cases rule: flush_result[where c = c and e = e and w = "w\<lparr>Queue := rest\<rparr>"])
    case written
    have row: "written ?w (ItEnv it) b" if "it \<in> set batch" "ParseAndValidate d (Data (ItMsg it)) = Some (ItEnv it, b)" for it b
    proof -
      from i(1)[OF that(1)] that(2) obtain t ex where "b = BTelemetry t ex" "RSN (ItRow it) = SN (ItEnv it)" "RTs (ItRow it) = LTs t" "RSeq (ItRow it) = LSeq t"
        by (auto simp: item_ok_def)
      then show ?thesis using written(1) that(1) by (auto simp: written_def intro!: bexI[of _ "ItRow it"])
    qed
    have "served d M ?w k" if "k \<in> DedupeKeys ?w" for k
    proof -
      have "served d M w k" using that i(3) written(7) by simp
      then consider it where "it \<in> set batch" "env_key (ItEnv it) = k" | it where "it \<in> set rest" "env_key (ItEnv it) = k"
        | m env b where "m \<in> M" "ParseAndValidate d (Data m) = Some (env, b)" "b \<noteq> BProgress" "env_key env = k" "written w env b"
        unfolding served_def assms(3) by auto
      then show ?thesis
      proof cases
        case (1 it)
        then show ?thesis using i(1)[OF 1(1)] row[OF 1(1)] unfolding item_ok_def served_def by blast
      next
        case (2 it)
        then show ?thesis using written(5) by (auto simp: served_def)
      next
        case (3 m env b)
        then show ?thesis using written_grows[OF flush_grows 3(5)] unfolding served_def by blast
      qed
    qed
    moreover have "handled_ok d ?w m" if "m \<in> M" for m
    proof (cases "MsgNo m \<in> MsgNo ` ItMsg ` set batch")
      case True
      then obtain it where it: "it \<in> set batch" "MsgNo (ItMsg it) = MsgNo m" by auto
      then have "ItMsg it = m" using i(1)[OF it(1)] assms(2) that by (auto simp: unique_keys_def item_ok_def dest: inj_onD)
      then show ?thesis using row[OF it(1)] i(1)[OF it(1)] by (auto simp: handled_ok_def item_ok_def)
    next
      case False
      then have "MsgNo m \<notin> Acked ?w \<or> MsgNo m \<in> Acked w" using written(6) by auto
      then show ?thesis by (rule handled_grows[OF flush_grows i(4)[OF that]])
    qed
    ultimately show ?thesis using i(2) written(5) by (simp add: pipe_inv_def)
  next
    case failed
    have "served d M ?w k" if "k \<in> DedupeKeys ?w" for k
    proof -
      have k: "k \<in> DedupeKeys w" "k \<notin> (env_key \<circ> ItEnv) ` set batch" using that failed(8) assms(4) by auto
      from i(3)[OF k(1)] consider it where "it \<in> set rest" "env_key (ItEnv it) = k"
        | m env b where "m \<in> M" "ParseAndValidate d (Data m) = Some (env, b)" "b \<noteq> BProgress" "env_key env = k" "written w env b"
        unfolding served_def assms(3) using k(2) by (auto simp: image_iff)
      then show ?thesis
      proof cases
        case (1 it)
        then show ?thesis using failed(6) by (auto simp: served_def)
      next
        case (2 m env b)
        then show ?thesis using written_grows[OF flush_grows 2(5)] unfolding served_def by blast
      qed
    qed
    moreover have "handled_ok d ?w m" if "m \<in> M" for m
      using handled_grows[OF flush_grows i(4)[OF that]] failed(7) by auto
    ultimately show ?thesis using i(2) failed(6) by (simp add: pipe_inv_def)
  qed
qed

lemma written_same [simp]: "written (w\<lparr>DedupeKeys := K\<rparr>) env b = written w env b" "written (w\<lparr>Dims := dims\<rparr>) env b = written w env b"
  by (cases b; simp add: written_def)+

lemma handled_same [simp]: "handled_ok d (w\<lparr>DedupeKeys := K\<rparr>) m = handled_ok d w m" "handled_ok d (w\<lparr>Dims := dims\<rparr>) m = handled_ok d w m"
  by (cases "ParseAndValidate d (Data m)"; auto simp: handled_ok_def)+

lemma inv_less_keys: "pipe_inv d M w \<Longrightarrow> pipe_inv d M (w\<lparr>DedupeKeys := DedupeKeys w - K\<rparr>)"
  by (simp add: pipe_inv_def served_def)

lemma inv_dims: "pipe_inv d M w \<Longrightarrow> pipe_inv d M (w\<lparr>Dims := dims\<rparr>)"
  by (simp add: pipe_inv_def served_def)

lemma inv_pipe_step:
  assumes "pipe_step d c M True w w'" "unique_keys d M" "pipe_inv d M w"
  shows "pipe_inv d M w'"
  using assms(1)
proof (cases rule: pipe_step.cases)
  case (deliver m e)
  then show ?thesis using inv_deliver[OF assms(3,2)] by simp
next
  case (batch b rest e)
  then show ?thesis using inv_batch[OF assms(3,2)] by simp
next
  case expire
  then show ?thesis using inv_less_keys[OF assms(3)] by simp
next
  case crash
  then show ?thesis using assms(3) by (cases w) simp
next
  case devices
  then show ?thesis using inv_dims[OF assms(3)] by simp
qed

text \<open>
  C26: In a run without a crash that loses a batch, without redelivery of a message that is still in a batch and with a DEL that works,
  in which no device uses a sequence number twice, a message is acknowledged only after its telemetry row, its event row or its
  command result was written, whatever calls fail and however batches fail half way.
\<close>

theorem acknowledged_is_written:
  assumes "pipe_reach d c M True w" "unique_keys d M" "m \<in> M" "MsgNo m \<in> Acked w" "ParseAndValidate d (Data m) = Some (env, b)"
  shows "written w env b"
proof -
  have "pipe_inv d M w"
    using assms(1)
  proof (induction rule: pipe_reach.induct)
    case (start w)
    then show ?case by (auto simp: empty_pipe_def pipe_inv_def handled_ok_def split: option.splits)
  next
    case (step w w')
    then show ?case using inv_pipe_step[OF step.hyps(2) assms(2)] by blast
  qed
  then show ?thesis using assms(3-5) by (auto simp: pipe_inv_def handled_ok_def)
qed

subsection \<open>Examples\<close>

definition demo_tel :: TelemetryPayload where
  "demo_tel = \<lparr>LSeq = 5, LTs = 70, LWorkState = 1, LPowerLevel = 2, LTempCavity = 30, LTempWater = 20, LFanRPM = 900, LLaserHours = 12, LProgress = 0\<rparr>"

definition demo_ev :: EvPayload where
  "demo_ev = \<lparr>VSeq = 5, VTs = 71, VCode = ''FLAME_DETECTED'', VMsg = [], VJobID = [], VMaterialID = [], VParamProfileID = [], VParamsHash = []\<rparr>"

definition demo_dec :: "nat Decoders" where
  "demo_dec = \<lparr>DTelemetry = (\<lambda>p. if p = 1 then Some demo_tel else None), DEvent = (\<lambda>p. if p = 2 then Some demo_ev else None),
     DCmdAck = (\<lambda>_. None), DValid = (\<lambda>_. True), DMembers = (\<lambda>_. None), DEmpty = (\<lambda>_. False)\<rparr>"

definition demo_cfg :: PipeCfg where "demo_cfg = \<lparr>WCell = 1, HasDLQ = True, NumText = (\<lambda>_. [])\<rparr>"

definition demo_fine :: PipeEnv where
  "demo_fine = \<lparr>PDims = True, PSeen = Done, PInsertEvent = Done, PShadow = Done, PCmdRes = Done, PDel = Done, PDead = Done,
     PStatement = (\<lambda>_. Done), PAck = (\<lambda>_. Done), PClock = 0\<rparr>"

definition demo_msg :: "nat \<Rightarrow> string \<Rightarrow> nat \<Rightarrow> nat Msg" where
  "demo_msg n kind p = \<lparr>MsgNo = n, MSubject = ''iot.up.'' @ kind @ ''.1'', Data = Some \<lparr>PK = ''P'', SN = ''A'', Kind = kind, Seq = 1, RecvTs = 7, EPayload = p\<rparr>\<rparr>"

definition demo_m1 :: "nat Msg" where "demo_m1 = demo_msg 1 ''telemetry'' 1"
definition demo_m2 :: "nat Msg" where "demo_m2 = demo_msg 2 ''event'' 2"
definition demo_bad :: "nat Msg" where "demo_bad = demo_msg 3 ''event'' 9"

definition demo_seq :: "nat Envelope \<Rightarrow> nat Envelope" where "demo_seq env = env\<lparr>Seq := 5\<rparr>"

definition demo_idle :: "nat Pipe" where
  "demo_idle = \<lparr>Dims = (\<lambda>_ _. None), DedupeKeys = {}, TelTable = [], EvTable = [], Shadows = (\<lambda>_ _. None), CmdRes = (\<lambda>_. None), Dead = [],
     Queue = [], Acked = {}, PipeM = (\<lambda>_. 0)\<rparr>"

lemma demo_parse:
  "ParseAndValidate demo_dec (Data demo_m1) = Some (demo_seq (the (Data demo_m1)), BTelemetry demo_tel [])"
  "ParseAndValidate demo_dec (Data demo_m2) = Some (demo_seq (the (Data demo_m2)), BEvent demo_ev)"
  "ParseAndValidate demo_dec (Data demo_bad) = None"
  by (simp_all add: ParseAndValidate_def demo_m1_def demo_m2_def demo_bad_def demo_msg_def demo_dec_def Unmarshal_ok_def pick_def
    demo_tel_def demo_ev_def demo_seq_def Let_def ExtractTelemetryExtras_def)

lemma demo_keys: "env_key (demo_seq (the (Data demo_m2))) = env_key (demo_seq (the (Data demo_m1)))" "Kind (demo_seq (the (Data demo_m1))) \<noteq> KindOTAProgress"
  "Kind (demo_seq (the (Data demo_m2))) \<noteq> KindOTAProgress" "MsgNo demo_m1 = 1" "MsgNo demo_m2 = 2" "MsgNo demo_bad = 3"
  by (simp_all add: env_key_def demo_seq_def demo_m1_def demo_m2_def demo_bad_def demo_msg_def)

lemma demo_idle_empty: "empty_pipe demo_idle" by (simp add: empty_pipe_def demo_idle_def)

lemma fine_answers [simp]: "PSeen demo_fine = Done" "took (PDel demo_fine)" "took (PAck demo_fine n)" "PAck demo_fine n = Done" "PDead demo_fine = Done" "took Done"
  by (simp_all add: demo_fine_def took_def)

lemma deliver_again:
  assumes "ParseAndValidate d (Data m) = Some (env, b)" "Kind env \<noteq> KindOTAProgress" "env_key env \<in> DedupeKeys w"
  shows "Acked (process d c demo_fine m w) = insert (MsgNo m) (Acked w)" "TelTable (process d c demo_fine m w) = TelTable w"
    "EvTable (process d c demo_fine m w) = EvTable w" "Queue (process d c demo_fine m w) = Queue w"
  using assms by (simp_all add: process_def Seen_def exec_def took_def Let_def)

lemma deliver_new:
  assumes "ParseAndValidate d (Data m) = Some (env, BTelemetry t ex)" "Kind env \<noteq> KindOTAProgress" "env_key env \<notin> DedupeKeys w"
  obtains it where "Queue (process d c demo_fine m w) = Queue w @ [it]" "ItMsg it = m" "Acked (process d c demo_fine m w) = Acked w"
    "TelTable (process d c demo_fine m w) = TelTable w" "EvTable (process d c demo_fine m w) = EvTable w"
    "DedupeKeys (process d c demo_fine m w) = insert (env_key env) (DedupeKeys w)"
  using assms by (simp add: process_def Seen_def exec_def took_def Let_def dispatch_body_def)

definition demo_taken :: "nat Pipe" where "demo_taken = process demo_dec demo_cfg demo_fine demo_m1 demo_idle"

lemma demo_taken_is: "\<exists>it. Queue demo_taken = [it] \<and> ItMsg it = demo_m1" "Acked demo_taken = {}" "TelTable demo_taken = []" "EvTable demo_taken = []"
  "DedupeKeys demo_taken = {env_key (demo_seq (the (Data demo_m1)))}"
proof -
  have "env_key (demo_seq (the (Data demo_m1))) \<notin> DedupeKeys demo_idle" by (simp add: demo_idle_def)
  from deliver_new[OF demo_parse(1) demo_keys(2) this, of demo_cfg] obtain it where
    "Queue demo_taken = Queue demo_idle @ [it]" "ItMsg it = demo_m1" "Acked demo_taken = Acked demo_idle" "TelTable demo_taken = TelTable demo_idle"
    "EvTable demo_taken = EvTable demo_idle" "DedupeKeys demo_taken = insert (env_key (demo_seq (the (Data demo_m1)))) (DedupeKeys demo_idle)"
    unfolding demo_taken_def by metis
  then show "\<exists>it. Queue demo_taken = [it] \<and> ItMsg it = demo_m1" "Acked demo_taken = {}" "TelTable demo_taken = []" "EvTable demo_taken = []"
    "DedupeKeys demo_taken = {env_key (demo_seq (the (Data demo_m1)))}"
    by (simp_all add: demo_idle_def)
qed

text \<open>
  A crash between the key and the write loses the message: delivered again it is taken for a duplicate and acknowledged, and no row of it
  is ever written.
\<close>

theorem crash_loses_telemetry:
  "\<exists>w. pipe_reach demo_dec demo_cfg {demo_m1} False w \<and> unique_keys demo_dec {demo_m1} \<and> MsgNo demo_m1 \<in> Acked w \<and> TelTable w = [] \<and> Queue w = []"
proof -
  let ?w = "demo_taken\<lparr>Queue := []\<rparr>"
  have 1: "pipe_reach demo_dec demo_cfg {demo_m1} False demo_taken"
    unfolding demo_taken_def by (rule pipe_reach.step[OF pipe_reach.start[OF demo_idle_empty]], rule pipe_step.deliver) simp_all
  have 2: "pipe_reach demo_dec demo_cfg {demo_m1} False ?w" by (rule pipe_reach.step[OF 1], rule pipe_step.crash) simp
  have 3: "pipe_reach demo_dec demo_cfg {demo_m1} False (process demo_dec demo_cfg demo_fine demo_m1 ?w)"
    by (rule pipe_reach.step[OF 2], rule pipe_step.deliver) simp_all
  have "env_key (demo_seq (the (Data demo_m1))) \<in> DedupeKeys ?w" by (simp add: demo_taken_is)
  note a = deliver_again[OF demo_parse(1) demo_keys(2) this, of demo_cfg]
  have "unique_keys demo_dec {demo_m1}" by (simp add: unique_keys_def)
  then show ?thesis using 3 a demo_taken_is by (intro exI[of _ "process demo_dec demo_cfg demo_fine demo_m1 ?w"]) simp
qed

text \<open>The key does not say what kind of message it was: an event with the sequence number of a telemetry message is acknowledged unwritten.\<close>

theorem shared_number_drops_event:
  "\<exists>w. pipe_reach demo_dec demo_cfg {demo_m1, demo_m2} True w \<and> MsgNo demo_m2 \<in> Acked w \<and> EvTable w = []"
proof -
  have 1: "pipe_reach demo_dec demo_cfg {demo_m1, demo_m2} True demo_taken"
    unfolding demo_taken_def by (rule pipe_reach.step[OF pipe_reach.start[OF demo_idle_empty]], rule pipe_step.deliver) (simp_all add: demo_idle_def)
  have n: "demo_m2 \<notin> ItMsg ` set (Queue demo_taken)" using demo_taken_is(1) demo_keys(4,5) by auto
  have 2: "pipe_reach demo_dec demo_cfg {demo_m1, demo_m2} True (process demo_dec demo_cfg demo_fine demo_m2 demo_taken)"
    by (rule pipe_reach.step[OF 1], rule pipe_step.deliver) (use n in simp_all)
  have "env_key (demo_seq (the (Data demo_m2))) \<in> DedupeKeys demo_taken" by (simp add: demo_taken_is demo_keys)
  note a = deliver_again[OF demo_parse(2) demo_keys(3) this, of demo_cfg]
  show ?thesis using 2 a demo_taken_is by (intro exI[of _ "process demo_dec demo_cfg demo_fine demo_m2 demo_taken"]) simp
qed

theorem poison_is_kept_witness:
  "\<exists>w :: nat Pipe. MsgNo demo_bad \<in> Acked w \<and> (SubjectDLQ (KindFromSubject (MSubject demo_bad)), demo_bad) \<in> set (Dead w)"
proof -
  let ?w = "process demo_dec demo_cfg demo_fine demo_bad demo_idle"
  have r: "pipe_reach demo_dec demo_cfg {demo_bad} False ?w"
    by (rule pipe_reach.step[OF pipe_reach.start[OF demo_idle_empty]], rule pipe_step.deliver) simp_all
  have a: "MsgNo demo_bad \<in> Acked ?w"
    by (simp add: process_def demo_parse handlePoison_def exec_def took_def Let_def demo_cfg_def)
  have h: "HasDLQ demo_cfg" "inj_on MsgNo {demo_bad}" "demo_bad \<in> {demo_bad}" by (simp_all add: demo_cfg_def)
  show ?thesis using poison_is_kept[OF r h a demo_parse(3)] a by blast
qed

theorem acknowledged_is_written_witness:
  "\<exists>(w :: nat Pipe) env b. MsgNo demo_m1 \<in> Acked w \<and> ParseAndValidate demo_dec (Data demo_m1) = Some (env, b) \<and> written w env b"
proof -
  obtain it where it: "Queue demo_taken = [it]" "ItMsg it = demo_m1" using demo_taken_is(1) by blast
  let ?w = "flush demo_cfg demo_fine [it] (demo_taken\<lparr>Queue := []\<rparr>)"
  have 1: "pipe_reach demo_dec demo_cfg {demo_m1} True demo_taken"
    unfolding demo_taken_def by (rule pipe_reach.step[OF pipe_reach.start[OF demo_idle_empty]], rule pipe_step.deliver) (simp_all add: demo_idle_def)
  have 2: "pipe_reach demo_dec demo_cfg {demo_m1} True ?w"
    by (rule pipe_reach.step[OF 1], rule pipe_step.batch) (simp_all add: it(1))
  have s: "fst (exec_statements (PStatement demo_fine) i st w)" for i st and w :: "nat Pipe"
    by (induction "PStatement demo_fine" i st w rule: exec_statements.induct) (simp_all add: demo_fine_def Let_def)
  obtain w1 where w1: "exec_statements (PStatement demo_fine) 0 (telemetry_statements (NumText demo_cfg) (map ItRow [it])) (demo_taken\<lparr>Queue := []\<rparr>) = (True, w1)"
    using s by (metis prod.collapse)
  have a: "MsgNo demo_m1 \<in> Acked ?w"
    using w1 it(2) by (simp add: flush_def Let_def)
  have u: "unique_keys demo_dec {demo_m1}" "demo_m1 \<in> {demo_m1}" by (simp_all add: unique_keys_def)
  show ?thesis using acknowledged_is_written[OF 2 u a demo_parse(1)] a demo_parse(1) by blast
qed

end
