(* ===== verification/Health.thy ===== *)
theory Health
  imports Binary64
begin

text \<open>
  Health of consumables, the functions of \<open>internal/health/model.go\<close>: hours weighted by power, the score and its penalty, the rule
  that it does not rise, the detection of a new module, the predicted end of life, and whether a reminder is due. Instants and durations
  are nanoseconds, numbers are those of \<open>Binary64\<close>.
\<close>

subsection \<open>The model's numbers\<close>

record HCfg =
  Rated :: f64
  WLow :: f64
  WMid :: f64
  WHigh :: f64
  OvertempPenalty :: f64
  CfgVersion :: int

definition DefaultCfg :: HCfg where
  "DefaultCfg = \<lparr>Rated = Fin 10000, WLow = Fin 1, WMid = of_rat64 (13 / 10), WHigh = of_rat64 (18 / 10),
     OvertempPenalty = of_rat64 (1 / 2), CfgVersion = 1\<rparr>"

abbreviation hour :: duration where "hour \<equiv> 3600000000000"

definition MaxPenalty :: f64 where "MaxPenalty = Fin 10"
definition MaxBucketHours :: f64 where "MaxBucketHours = Fin 1"
definition HoursResetRatio :: f64 where "HoursResetRatio = of_rat64 (5 / 100)"
definition HoursResetBuckets :: nat where "HoursResetBuckets = 2"
definition UserMarkWindow :: duration where "UserMarkWindow = 24 * hour"
definition ModuleHoursRatio :: f64 where "ModuleHoursRatio = of_rat64 (1 / 2)"
definition MinPredictDays :: f64 where "MinPredictDays = Fin 7"
definition EOLHealth :: f64 where "EOLHealth = Fin 20"
definition DefaultCooldown :: duration where "DefaultCooldown = 7 * 24 * hour"
definition SuspiciousThreshold :: int where "SuspiciousThreshold = 5"
definition AttributionWindow :: duration where "AttributionWindow = 30 * 24 * hour"

definition Levels :: "int list" where "Levels = [80, 50, 20]"

text \<open>A difference of instants is a 64-bit number of nanoseconds; the library stops at its ends.\<close>

definition tsub :: "time \<Rightarrow> time \<Rightarrow> duration" where
  "tsub a b = max (- (2 ^ 63)) (min (2 ^ 63 - 1) (a - b))"

subsection \<open>Hours and score\<close>

datatype HoursFlag = FlagOK | FlagRegress | FlagClipped

definition weight :: "f64 \<Rightarrow> f64 \<Rightarrow> f64 \<Rightarrow> HCfg \<Rightarrow> f64" where
  "weight lo mid hi cfg =
     (let sum = fadd (fadd lo mid) hi in
      if fle sum (Fin 0) then Fin 1
      else fdiv (fadd (fadd (fmul lo (WLow cfg)) (fmul mid (WMid cfg))) (fmul hi (WHigh cfg))) sum)"

definition WeightedHours :: "f64 \<Rightarrow> f64 \<Rightarrow> f64 \<Rightarrow> f64 \<Rightarrow> HCfg \<Rightarrow> f64 \<times> HoursFlag" where
  "WeightedHours delta lo mid hi cfg =
     (if flt delta (Fin 0) \<or> delta = NaN then (Fin 0, FlagRegress)
      else if flt MaxBucketHours delta then (fmul MaxBucketHours (weight lo mid hi cfg), FlagClipped)
      else (fmul delta (weight lo mid hi cfg), FlagOK))"

definition ShareFromAvgPower :: "f64 \<Rightarrow> f64 \<times> f64 \<times> f64" where
  "ShareFromAvgPower p =
     (if fle p (Fin 50) then (Fin 1, Fin 0, Fin 0) else if fle p (Fin 80) then (Fin 0, Fin 1, Fin 0) else (Fin 0, Fin 0, Fin 1))"

definition hclamp :: "f64 \<Rightarrow> f64 \<Rightarrow> f64 \<Rightarrow> f64" where
  "hclamp v lo hi = (if flt v lo then lo else if flt hi v then hi else v)"

text \<open>The score and its penalty.\<close>

definition HealthScore :: "f64 \<Rightarrow> f64 \<Rightarrow> int \<Rightarrow> HCfg \<Rightarrow> f64 \<times> f64" where
  "HealthScore used rated overtemp cfg =
     (if fle rated (Fin 0) then (Fin 0, Fin 0)
      else (let n = (if overtemp < 0 then 0 else overtemp);
                penalty = fmin (fmul (OvertempPenalty cfg) (f64_of_int n)) MaxPenalty;
                base = fmul (Fin 100) (fsub (Fin 1) (fdiv used rated))
            in (hclamp (fsub base penalty) (Fin 0) (Fin 100), penalty)))"

text \<open>\<open>time.Duration(x)\<close> for finite \<open>x\<close> drops the fraction.\<close>

fun ftrunc :: "f64 \<Rightarrow> int" where
  "ftrunc (Fin a) = (if a < 0 then - \<lfloor>- a\<rfloor> else \<lfloor>a\<rfloor>)"
| "ftrunc z = 0"

definition PredictEOL :: "f64 \<Rightarrow> f64 \<Rightarrow> f64 \<Rightarrow> time \<Rightarrow> time option" where
  "PredictEOL health rated rate now =
     (if fle rate (Fin 0) \<or> fle rated (Fin 0) \<or> fle health EOLHealth then None
      else (let remaining = fmul (fdiv (fsub health EOLHealth) (Fin 100)) rated;
                days = fdiv remaining rate
            in if days = PInf \<or> days = NInf \<or> days = NaN \<or> flt (Fin 7300) days then None
               else Some (now + ftrunc (fmul (fmul days (Fin 24)) (Fin 3600000000000)))))"

record Inputs =
  InUsed :: f64
  HasUsed :: bool
  InOvertemp :: int
  InCfg :: HCfg
  InRate :: f64
  InNow :: time

definition ComputeHealth :: "Inputs \<Rightarrow> (f64 \<times> time option) option" where
  "ComputeHealth i =
     (if \<not> HasUsed i \<or> fle (Rated (InCfg i)) (Fin 0) then None
      else (let score = fst (HealthScore (InUsed i) (Rated (InCfg i)) (InOvertemp i) (InCfg i)) in
            Some (score, PredictEOL score (Rated (InCfg i)) (InRate i) (InNow i))))"

definition Monotonic :: "f64 \<Rightarrow> f64 \<Rightarrow> bool \<Rightarrow> f64 \<times> bool" where
  "Monotonic prev nxt swapped =
     (if swapped \<or> flt prev (Fin 0) then (nxt, False) else if flt prev nxt then (prev, True) else (nxt, False))"

definition Rate30d :: "f64 \<Rightarrow> f64 \<Rightarrow> f64" where
  "Rate30d weighted days = (if flt days MinPredictDays \<or> fle weighted (Fin 0) then Fin 0 else fdiv weighted days)"

subsection \<open>A new module\<close>

text \<open>The loop over the new buckets: as many in a row below the bound.\<close>

fun run_of_drops :: "f64 \<Rightarrow> nat \<Rightarrow> f64 list \<Rightarrow> bool" where
  "run_of_drops bound n [] = False"
| "run_of_drops bound n (h # hs) =
     (if flt h bound then (if HoursResetBuckets \<le> Suc n then True else run_of_drops bound (Suc n) hs) else run_of_drops bound 0 hs)"

definition DetectSwap :: "string \<Rightarrow> string \<Rightarrow> f64 list \<Rightarrow> time option \<Rightarrow> f64 option \<Rightarrow> time \<Rightarrow> string option" where
  "DetectSwap prevModel curModel hist marked moduleHours now =
     (if prevModel \<noteq> [] \<and> curModel \<noteq> [] \<and> prevModel \<noteq> curModel then Some ''model_change''
      else (let last = (case hist of [] \<Rightarrow> Fin 0 | h # _ \<Rightarrow> h); bound = fmul HoursResetRatio last in
            if (case moduleHours of None \<Rightarrow> False | Some m \<Rightarrow> flt (Fin 10) last \<and> flt m (fmul ModuleHoursRatio last)) then Some ''module_hours''
            else if flt (Fin 0) last \<and> run_of_drops bound 0 (tl hist) then Some ''hours_reset''
            else if (case marked of None \<Rightarrow> False | Some t \<Rightarrow> 0 \<le> tsub now t \<and> tsub now t \<le> UserMarkWindow) \<and> flt (Fin 0) last \<and>
                    list_ex (\<lambda>h. flt h bound) (tl hist) then Some ''user_marked''
            else None))"

subsection \<open>Reminders\<close>

datatype ReminderAction = ActionSend | ActionSuppressed | ActionDeferred | ActionNone

record ReminderInput =
  HealthPrev :: f64
  HealthNow :: f64
  LevelsSentIn :: "int list"
  LastSent :: "time option"
  WorkState :: int
  Optout :: bool
  RNow :: time
  Cooldown :: duration

record ReminderDecision =
  Action :: ReminderAction
  DLevel :: int
  Reason :: string

text \<open>The lowest level crossed and not yet sent, or 0.\<close>

definition crossed :: "f64 \<Rightarrow> f64 \<Rightarrow> int list \<Rightarrow> int" where
  "crossed prev now sent =
     foldl (\<lambda>level l. if flt (f64_of_int l) prev \<and> fle now (f64_of_int l) \<and> l \<notin> set sent then l else level) 0 (rev (sort Levels))"

definition DecideReminder :: "ReminderInput \<Rightarrow> ReminderDecision" where
  "DecideReminder i =
     (let level = crossed (HealthPrev i) (HealthNow i) (LevelsSentIn i);
          cd = (if Cooldown i \<le> 0 then DefaultCooldown else Cooldown i)
      in if level = 0 then \<lparr>Action = ActionNone, DLevel = 0, Reason = []\<rparr>
         else if Optout i then \<lparr>Action = ActionSuppressed, DLevel = level, Reason = ''optout''\<rparr>
         else if (case LastSent i of None \<Rightarrow> False | Some t \<Rightarrow> tsub (RNow i) t < cd) then
           \<lparr>Action = ActionSuppressed, DLevel = level, Reason = ''cooldown''\<rparr>
         else if WorkState i = 1 \<or> WorkState i = 2 then \<lparr>Action = ActionDeferred, DLevel = level, Reason = []\<rparr>
         else \<lparr>Action = ActionSend, DLevel = level, Reason = []\<rparr>)"

definition ShouldFuseBatch :: "nat \<Rightarrow> nat \<Rightarrow> f64 \<Rightarrow> bool" where
  "ShouldFuseBatch skipped all ratio =
     (if all = 0 \<or> skipped = 0 then False else flt ratio (fdiv (f64_of_int (int skipped)) (f64_of_int (int all))))"

definition SuspiciousByScans :: "int \<Rightarrow> int \<Rightarrow> bool" where
  "SuspiciousByScans users threshold = ((if threshold \<le> 0 then SuspiciousThreshold else threshold) < users)"

definition AttributionWindowOK :: "time \<Rightarrow> time \<Rightarrow> duration \<Rightarrow> bool" where
  "AttributionWindowOK sent paid window =
     (let w = (if window \<le> 0 then AttributionWindow else window); d = tsub paid sent in 0 \<le> d \<and> d \<le> w)"

definition StaleHealth :: "time \<Rightarrow> time \<Rightarrow> duration \<Rightarrow> bool" where
  "StaleHealth updated now after = (after < tsub now updated)"

subsection \<open>The score is a percentage and only falls with use\<close>

lemma of_rat64_mono: "x \<le> y \<Longrightarrow> fle (of_rat64 x) (of_rat64 y)"
  using rnd_mono[of x y] by (auto simp: of_rat64_def Let_def fle_def feq_def flt_def)

lemma fle_ends:
  "fle NInf x \<longleftrightarrow> x \<noteq> NaN" "fle x PInf \<longleftrightarrow> x \<noteq> NaN" "fle x NInf \<longleftrightarrow> x = NInf" "fle PInf x \<longleftrightarrow> x = PInf"
  by (cases x; auto simp: fle_def feq_def)+

lemma fle_numbers: "fle u v \<Longrightarrow> u \<noteq> NaN \<and> v \<noteq> NaN"
  by (cases u; cases v) auto

lemma hclamp_range: "v \<noteq> NaN \<Longrightarrow> \<exists>r. hclamp v (Fin 0) (Fin 100) = Fin r \<and> 0 \<le> r \<and> r \<le> 100"
  by (cases v) (auto simp: hclamp_def)

lemma hclamp_mono: "fle u v \<Longrightarrow> fle (hclamp u (Fin 0) (Fin 100)) (hclamp v (Fin 0) (Fin 100))"
  by (cases u; cases v) (auto simp: hclamp_def fle_ends)

lemma fdiv_mono: "fle u v \<Longrightarrow> 0 < q \<Longrightarrow> fle (fdiv u (Fin q)) (fdiv v (Fin q))"
  by (cases u; cases v) (simp_all add: fdiv_def of_rat64_mono divide_right_mono fle_ends)

lemma fsub_anti: "fle u v \<Longrightarrow> fle (fsub (Fin a) v) (fsub (Fin a) u)"
  by (cases u; cases v) (simp_all add: fsub_def fadd_def of_rat64_mono fle_ends)

lemma fmul_mono: "fle u v \<Longrightarrow> 0 < c \<Longrightarrow> fle (fmul (Fin c) u) (fmul (Fin c) v)"
  by (cases u; cases v) (simp_all add: fmul_def of_rat64_mono mult_left_mono fle_ends inf_of_def)

lemma fsub_mono: "fle u v \<Longrightarrow> p \<le> p' \<Longrightarrow> fle (fsub u (Fin p')) (fsub v (Fin p))"
  by (cases u; cases v) (simp_all add: fsub_def fadd_def of_rat64_mono fle_ends)

text \<open>The penalty of a finite rate is finite, between 0 and 10, and grows with the count.\<close>

definition penalty_of :: "HCfg \<Rightarrow> int \<Rightarrow> f64" where
  "penalty_of cfg n = fmin (fmul (OvertempPenalty cfg) (f64_of_int (if n < 0 then 0 else n))) MaxPenalty"

lemma penalty_mono:
  assumes "OvertempPenalty cfg = Fin p" "0 \<le> p" "m \<le> n" "n < 2 ^ 53"
  shows "\<exists>a b. penalty_of cfg m = Fin a \<and> penalty_of cfg n = Fin b \<and> 0 \<le> a \<and> a \<le> b \<and> b \<le> 10"
proof -
  let ?i = "\<lambda>k. if k < 0 then 0 else k :: int"
  have i: "f64_of_int (?i k) = Fin (of_int (?i k))" if "k < 2 ^ 53" for k using that by (intro f64_of_small_int) auto
  have le: "p * of_int (?i m) \<le> p * of_int (?i n)" using assms by (intro mult_left_mono) auto
  have pos: "0 \<le> p * of_int (?i m)" using assms(2) by simp
  have e: "penalty_of cfg k = (case of_rat64 (p * of_int (?i k)) of PInf \<Rightarrow> Fin 10 | NInf \<Rightarrow> NInf | NaN \<Rightarrow> NaN | Fin a \<Rightarrow> Fin (min a 10))"
    if "k < 2 ^ 53" for k
    unfolding penalty_of_def assms(1) i[OF that] MaxPenalty_def by (cases "of_rat64 (p * of_int (?i k))") (auto simp: fmul_def fmin_def)
  have "fle (of_rat64 (p * of_int (?i m))) (of_rat64 (p * of_int (?i n)))" "fle (Fin 0) (of_rat64 (p * of_int (?i m)))"
    using of_rat64_mono[OF le] of_rat64_mono[OF pos] by (simp_all add: of_rat64_def[of 0])
  then show ?thesis using e[of m] e[of n] assms(3,4)
    by (cases "of_rat64 (p * of_int (?i m))"; cases "of_rat64 (p * of_int (?i n))") (auto simp: fle_ends)
qed

lemma HealthScore_eq:
  "HealthScore used (Fin q) n cfg = (if q \<le> 0 then (Fin 0, Fin 0)
     else (hclamp (fsub (fmul (Fin 100) (fsub (Fin 1) (fdiv used (Fin q)))) (penalty_of cfg n)) (Fin 0) (Fin 100), penalty_of cfg n))"
  by (simp add: HealthScore_def penalty_of_def Let_def)

lemma score_antitone:
  assumes "0 < q" "OvertempPenalty cfg = Fin p" "0 \<le> p" "fle u v" "m \<le> n" "n < 2 ^ 53"
  shows "fle (fst (HealthScore v (Fin q) n cfg)) (fst (HealthScore u (Fin q) m cfg))"
proof -
  obtain a b where ab: "penalty_of cfg m = Fin a" "penalty_of cfg n = Fin b" "a \<le> b" using penalty_mono[OF assms(2,3,5,6)] by auto
  have "fle (fmul (Fin 100) (fsub (Fin 1) (fdiv v (Fin q)))) (fmul (Fin 100) (fsub (Fin 1) (fdiv u (Fin q))))"
    using fmul_mono[OF fsub_anti[OF fdiv_mono[OF assms(4,1)]], of 100] by simp
  then have "fle (fsub (fmul (Fin 100) (fsub (Fin 1) (fdiv v (Fin q)))) (Fin b)) (fsub (fmul (Fin 100) (fsub (Fin 1) (fdiv u (Fin q)))) (Fin a))"
    using ab(3) by (rule fsub_mono)
  then show ?thesis using hclamp_mono ab assms(1) by (simp add: HealthScore_eq)
qed

lemma score_range:
  assumes "0 < q" "OvertempPenalty cfg = Fin p" "0 \<le> p" "u \<noteq> NaN" "n < 2 ^ 53"
  shows "\<exists>r a. HealthScore u (Fin q) n cfg = (Fin r, Fin a) \<and> 0 \<le> r \<and> r \<le> 100 \<and> 0 \<le> a \<and> a \<le> 10"
proof -
  obtain a where a: "penalty_of cfg n = Fin a" "0 \<le> a" "a \<le> 10" using penalty_mono[OF assms(2,3) order_refl assms(5)] by auto
  have "fle u u" using assms(4) by (simp add: fle_refl)
  then have "fst (HealthScore u (Fin q) n cfg) \<noteq> NaN"
    using score_antitone[OF assms(1-3) _ order_refl assms(5)] fle_numbers by blast
  then have "fsub (fmul (Fin 100) (fsub (Fin 1) (fdiv u (Fin q)))) (Fin a) \<noteq> NaN" using a assms(1) by (auto simp: HealthScore_eq hclamp_def)
  then show ?thesis using hclamp_range a assms(1) by (auto simp: HealthScore_eq)
qed

subsection \<open>Levels\<close>

lemma crossed_eq:
  "crossed prev now sent =
     (if flt (Fin 20) prev \<and> fle now (Fin 20) \<and> 20 \<notin> set sent then 20
      else if flt (Fin 50) prev \<and> fle now (Fin 50) \<and> 50 \<notin> set sent then 50
      else if flt (Fin 80) prev \<and> fle now (Fin 80) \<and> 80 \<notin> set sent then 80 else 0)"
proof -
  have "rev (sort Levels) = [80, 50, 20]" by (simp add: Levels_def)
  moreover have "f64_of_int 80 = Fin 80" "f64_of_int 50 = Fin 50" "f64_of_int 20 = Fin 20"
    using f64_of_small_int[of 80] f64_of_small_int[of 50] f64_of_small_int[of 20] by simp_all
  ultimately show ?thesis by (simp add: crossed_def)
qed

lemma crossed_level: "crossed prev now sent = l \<Longrightarrow> l \<noteq> 0 \<Longrightarrow> l \<in> {20, 50, 80} \<and> l \<notin> set sent \<and> flt (Fin (of_int l)) prev \<and> fle now (Fin (of_int l))"
  by (auto simp: crossed_eq split: if_splits)

text \<open>A level the health is already at or below is never chosen again, whether its reminder went out or not.\<close>

lemma crossed_once: "fle prev (Fin (of_int l)) \<Longrightarrow> l \<in> {20, 50, 80} \<Longrightarrow> crossed prev now sent \<noteq> l"
  by (cases prev) (auto simp: crossed_eq)

lemma DecideReminder_send:
  assumes "Action (DecideReminder i) = ActionSend"
  shows "DLevel (DecideReminder i) = crossed (HealthPrev i) (HealthNow i) (LevelsSentIn i)" "DLevel (DecideReminder i) \<noteq> 0"
    "\<not> Optout i" "LastSent i = Some t \<Longrightarrow> (if Cooldown i \<le> 0 then DefaultCooldown else Cooldown i) \<le> tsub (RNow i) t"
    "WorkState i \<noteq> 1 \<and> WorkState i \<noteq> 2"
  using assms by (auto simp: DecideReminder_def Let_def split: if_splits option.splits)

end
