(* ===== verification/HealthStore.thy ===== *)
theory HealthStore
  imports Health Schedule Sql
begin

text \<open>
  The tables of the health service and what is read for a round: \<open>internal/health/store.go\<close> with the schema of \<open>sql/bl3.sql\<close>. How a
  NUMERIC column keeps a float is a parameter (\<open>numeric\<close>: precision, scale, value; \<open>None\<close> is an overflow).
\<close>

subsection \<open>What the queries of TDengine return\<close>

datatype cell = CString string | CFloat f64 | CInt int | COther

record Bucket =
  BSN :: string
  BProductKey :: string
  BTs :: time
  LaserHours :: "f64 option"
  AvgPower :: "f64 option"
  ShareLow :: "f64 option"
  ShareMid :: "f64 option"
  ShareHigh :: "f64 option"

fun cellString :: "cell \<Rightarrow> string" where
  "cellString (CString s) = s"
| "cellString _ = []"

fun cellFloat :: "cell \<Rightarrow> f64 option" where
  "cellFloat (CFloat x) = Some x"
| "cellFloat (CInt n) = Some (f64_of_int n)"
| "cellFloat (CString s) = ParseFloat64 s"
| "cellFloat COther = None"

text \<open>
  \<open>time.Parse\<close> with the three layouts, for dates and clock readings written with all their digits: RFC 3339 with an optional fraction
  and a zone, or three digits of a second and none.
\<close>

definition digits_at :: "nat \<Rightarrow> nat \<Rightarrow> string \<Rightarrow> int option" where
  "digits_at i n s = (let d = take n (drop i s) in if length d = n \<and> list_all is_digit d then Some (int (decimal d)) else None)"

definition days_from_civil :: "int \<Rightarrow> int \<Rightarrow> int \<Rightarrow> int" where
  "days_from_civil y m d =
     (let y' = (if m \<le> 2 then y - 1 else y);
          doy = (153 * (if m > 2 then m - 3 else m + 9) + 2) div 5 + d - 1
      in (y' div 400) * 146097 + (y' mod 400) * 365 + (y' mod 400) div 4 - (y' mod 400) div 100 + doy - 719468)"

definition clock_seconds :: "string \<Rightarrow> int option" where
  "clock_seconds s =
     (case (digits_at 0 4 s, digits_at 5 2 s, digits_at 8 2 s, digits_at 11 2 s, digits_at 14 2 s, digits_at 17 2 s) of
        (Some y, Some mo, Some d, Some h, Some mi, Some sec) \<Rightarrow>
          if s ! 4 = CHR ''-'' \<and> s ! 7 = CHR ''-'' \<and> s ! 13 = CHR '':'' \<and> s ! 16 = CHR '':'' \<and> 1 \<le> mo \<and> mo \<le> 12 \<and> 1 \<le> d \<and>
             d \<le> int (days_in (nat mo) (nat y)) \<and> h < 24 \<and> mi < 60 \<and> sec < 60
          then Some (days_from_civil y mo d * 86400 + h * 3600 + mi * 60 + sec) else None
      | _ \<Rightarrow> None)"

text \<open>A fraction, as nanoseconds, and the zone after it, as seconds east.\<close>

definition fraction :: "string \<Rightarrow> int \<times> string" where
  "fraction s = (case s of [] \<Rightarrow> (0, []) | c # r \<Rightarrow>
     if c = CHR ''.'' \<and> takeWhile is_digit r \<noteq> []
     then (int (decimal (take 9 (takeWhile is_digit r @ replicate 9 CHR ''0''))), dropWhile is_digit r) else (0, s))"

definition zone_offset :: "string \<Rightarrow> int option" where
  "zone_offset s = (if s = ''Z'' then Some 0
     else if length s = 6 \<and> s ! 3 = CHR '':'' \<and> (s ! 0 = CHR ''+'' \<or> s ! 0 = CHR ''-'') then
       (case (digits_at 1 2 s, digits_at 4 2 s) of
          (Some h, Some m) \<Rightarrow> if h \<le> 24 \<and> m < 60 then Some ((if s ! 0 = CHR ''-'' then - 1 else 1) * (h * 3600 + m * 60)) else None
        | _ \<Rightarrow> None)
     else None)"

definition parse_instant :: "string \<Rightarrow> time option" where
  "parse_instant s =
     (case clock_seconds s of
        None \<Rightarrow> None
      | Some t \<Rightarrow>
          (let sep = s ! 10; rest = drop 19 s; (ns, z) = fraction rest in
           case (if sep = CHR ''T'' then zone_offset z else None) of
             Some off \<Rightarrow> Some ((t - off) * 1000000000 + ns)
           | None \<Rightarrow> if (sep = CHR ''T'' \<or> sep = CHR '' '') \<and> length rest = 4 \<and> z = [] then Some (t * 1000000000 + ns) else None))"

definition cellTime :: "cell \<Rightarrow> time option" where
  "cellTime c = (case c of CString s \<Rightarrow> parse_instant s | CFloat x \<Rightarrow> Some (ftrunc x * 1000000) | _ \<Rightarrow> None)"

fun parse_rows :: "cell list list \<Rightarrow> Bucket list option" where
  "parse_rows [] = Some []"
| "parse_rows (row # rows) =
     (if length row < 8 then None
      else (case cellTime (row ! 2) of
        None \<Rightarrow> None
      | Some ts \<Rightarrow> map_option (\<lambda>bs. \<lparr>BSN = cellString (row ! 0), BProductKey = cellString (row ! 1), BTs = ts, LaserHours = cellFloat (row ! 3),
          AvgPower = cellFloat (row ! 4), ShareLow = cellFloat (row ! 5), ShareMid = cellFloat (row ! 6), ShareHigh = cellFloat (row ! 7)\<rparr> # bs)
          (parse_rows rows)))"

definition ParseBuckets :: "cell list list \<Rightarrow> Bucket list option" where
  "ParseBuckets rows = map_option (\<lambda>bs. sort_str BSN (sort_key BTs bs)) (parse_rows rows)"

definition OvertempCounts :: "cell list list \<Rightarrow> string \<Rightarrow> int" where
  "OvertempCounts rows = foldl (\<lambda>m row. if length row < 2 then m
     else (case cellFloat (row ! 1) of None \<Rightarrow> m
       | Some f \<Rightarrow> if flt (Fin 0) f then m(cellString (row ! 0) := ftrunc f) else m)) (\<lambda>_. 0) rows"

text \<open>The queries themselves; \<open>millis\<close> is \<open>UnixMilli\<close>.\<close>

definition millis :: "time \<Rightarrow> int" where "millis t = t div 1000000"

definition BucketsSQL :: "time \<Rightarrow> string" where
  "BucketsSQL since = (let nl = [CHR 0x0A, CHR '' ''] in
     ''SELECT sn, product_key, _wstart, last(laser_hours), avg(power_level),'' @ nl @
     ''sum(case when power_level <= 50 then 1 else 0 end) / count(*),'' @ nl @
     ''sum(case when power_level > 50 and power_level <= 80 then 1 else 0 end) / count(*),'' @ nl @
     ''sum(case when power_level > 80 then 1 else 0 end) / count(*)'' @ nl @
     ''FROM iot.telemetry WHERE ts > '' @ FormatInt (millis since) @ '' PARTITION BY sn, product_key INTERVAL(1h)'')"

definition OvertempSQL :: "time \<Rightarrow> string" where
  "OvertempSQL since = ''SELECT sn, count(*) FROM iot.events WHERE code='' @ [CHR 0x27] @ ''OVER_TEMP'' @ [CHR 0x27] @
     '' AND ts > '' @ FormatInt (millis since) @ '' PARTITION BY sn''"

subsection \<open>What is read from the shadow\<close>

record Reported =
  Found :: bool
  RModel :: string
  RWorkState :: int
  ROptout :: bool

definition ParseReported :: "(string \<rightharpoonup> string) \<Rightarrow> Reported" where
  "ParseReported m =
     (if m = Map.empty then \<lparr>Found = False, RModel = [], RWorkState = 0, ROptout = False\<rparr>
      else (let field = (\<lambda>k. trimSpace (case m k of None \<Rightarrow> [] | Some v \<Rightarrow> v)) in
        \<lparr>Found = True, RModel = field ''module_model'',
         RWorkState = (case ParseInt (field ''work_state'') of None \<Rightarrow> 0 | Some n \<Rightarrow> n),
         ROptout = toLower (field ''consumable_notify_optout'') \<in> {''true'', ''1''}\<rparr>))"

subsection \<open>Levels already sent\<close>

definition ParseLevels :: "string \<Rightarrow> int list" where
  "ParseLevels s = List.map_filter (\<lambda>p. let t = trimSpace p in if t = [] then None else ParseInt t) (splitc CHR '','' s)"

definition FormatLevels :: "int list \<Rightarrow> string" where
  "FormatLevels ls = joinc CHR '','' (map FormatInt (sort (remdups ls)))"

text \<open>Written and read again, the levels are the same set, in order.\<close>

lemma FormatInt_no_comma: "CHR '','' \<notin> set (FormatInt n)"
proof -
  have "CHR '','' \<notin> set (itoa_nat k)" for k
    using itoa_nat_digits[of k] by (auto simp: list_all_iff between_def code_def)
  then show ?thesis by (simp add: FormatInt_def)
qed

lemma trim_FormatInt: "trimSpace (FormatInt n) = FormatInt n \<and> FormatInt n \<noteq> []"
proof -
  have "\<not> is_space c" if "c \<in> set (FormatInt n)" for c
    using that itoa_nat_digits[of "nat n"] itoa_nat_digits[of "nat (- n)"]
    by (auto simp: FormatInt_def list_all_iff is_space_def between_def code_def split: if_splits)
  then have "trimSpace (FormatInt n) = FormatInt n" by (rule trimSpace_id)
  moreover have "FormatInt n \<noteq> []" using itoa_nat_digits[of "nat n"] by (auto simp: FormatInt_def)
  ultimately show ?thesis by simp
qed

lemma levels_roundtrip:
  assumes "\<And>l. l \<in> set ls \<Longrightarrow> - (2 ^ 63) \<le> l \<and> l < 2 ^ 63"
  shows "ParseLevels (FormatLevels ls) = sort (remdups ls)"
proof (cases "ls = []")
  case True
  then show ?thesis by (simp add: ParseLevels_def FormatLevels_def trimSpace_def List.map_filter_simps)
next
  case False
  let ?u = "sort (remdups ls)"
  have ne: "map FormatInt ?u \<noteq> []" using False by (metis list.set_intros(1) list.exhaust empty_iff list.map_disc_iff list.set(1) set_remdups set_sort)
  have split: "splitc CHR '','' (joinc CHR '','' (map FormatInt ?u)) = map FormatInt ?u"
    by (rule splitc_joinc[OF ne]) (simp add: FormatInt_no_comma)
  have "List.map_filter (\<lambda>p. let t = trimSpace p in if t = [] then None else ParseInt t) (map FormatInt xs) = xs" if "set xs \<subseteq> set ls" for xs
    using that assms by (induction xs) (auto simp: List.map_filter_simps trim_FormatInt ParseInt_FormatInt)
  from this[of ?u] split show ?thesis by (simp add: ParseLevels_def FormatLevels_def)
qed

subsection \<open>Tables\<close>

record HealthRow =
  HRHealth :: f64
  UsedHours :: f64
  PredictedEOLAt :: "time option"
  UpdatedAt :: time

text \<open>A row of \<open>health_explain\<close>; \<open>LevelsText\<close> is the column.\<close>

record Explain =
  ModelVersion :: int
  UsedWeighted :: f64
  ExRated :: f64
  ExLow :: f64
  ExMid :: f64
  ExHigh :: f64
  OvertempCount :: int
  Penalty :: f64
  LastBucketTs :: "time option"
  LastHours :: "f64 option"
  ModuleModel :: string
  LevelsText :: string
  ComputedAt :: time

definition LevelsSent :: "Explain \<Rightarrow> int list" where "LevelsSent e = ParseLevels (LevelsText e)"

record Swap =
  SwSN :: string
  FromModel :: string
  ToModel :: string
  SwReason :: string
  EOLBefore :: "time option"
  DetectedAt :: time

record Reminder =
  RID :: nat
  RSN :: string
  RPart :: string
  RLevel :: string
  HealthAt :: f64
  RSku :: string
  SentAt :: "time option"
  SuppressedReason :: string

record Attribution =
  AUser :: "int option"
  AOrder :: "string option"
  ASku :: "string option"
  ClickedAt :: "time option"
  PaidAt :: "time option"

record SKU =
  KPart :: string
  KProduct :: string
  KModel :: string
  SkuID :: string
  Sellable :: bool

record Scan =
  ScCode :: string
  ScUser :: "int option"
  ScSN :: "string option"
  Verified :: bool
  ScannedAt :: time

record MaterialCode =
  CodeID :: string
  MaterialID :: string
  CBatch :: string
  CSeq :: int
  CStatus :: string

text \<open>The health of the part \<open>module\<close>, the only part that is scored, by serial number. \<open>materials\<close> joins \<open>material_index\<close> and \<open>material\<close>.\<close>

record HealthDb =
  health_rows :: "string \<rightharpoonup> HealthRow"
  explains :: "string \<rightharpoonup> Explain"
  swaps :: "Swap list"
  reminders :: "Reminder list"
  attributions :: "nat \<rightharpoonup> Attribution"
  cfg_rows :: "(string \<times> string \<times> HCfg) list"
  skus :: "SKU list"
  codes :: "MaterialCode list"
  materials :: "int \<rightharpoonup> string \<times> f64 option"
  scans :: "Scan list"
  published :: "(Reminder \<times> time option) list"
  HealthM :: metrics

definition hcount :: "string \<Rightarrow> HealthDb \<Rightarrow> HealthDb" where "hcount n db = db\<lparr>HealthM := Inc n (HealthM db)\<rparr>"

text \<open>A TIMESTAMPTZ column keeps microseconds, the driver cuts off the rest.\<close>

definition pgtime :: "time \<Rightarrow> time" where "pgtime t = t div 1000 * 1000"

type_synonym numeric = "nat \<Rightarrow> nat \<Rightarrow> f64 \<Rightarrow> f64 option"

subsection \<open>Statements\<close>

text \<open>\<open>Cfg\<close>: the row with the highest version.\<close>

definition Cfg :: "string \<Rightarrow> string \<Rightarrow> HealthDb \<Rightarrow> HCfg option" where
  "Cfg pk model db =
     (case sort_key (\<lambda>(p, m, c). - CfgVersion c) (filter (\<lambda>(p, m, c). p = pk \<and> m = model) (cfg_rows db)) of
        [] \<Rightarrow> None | (p, m, c) # _ \<Rightarrow> Some c)"

record HealthUpdate =
  UpSN :: string
  UpRow :: HealthRow
  UpExplain :: Explain
  UpLevels :: "int list"
  UpSwap :: "Swap option"

fun opt_num :: "numeric \<Rightarrow> nat \<Rightarrow> nat \<Rightarrow> f64 option \<Rightarrow> f64 option option" where
  "opt_num num p s None = Some None"
| "opt_num num p s (Some x) = map_option Some (num p s x)"

text \<open>The row as the columns keep it, or \<open>None\<close> when a number or a text does not fit.\<close>

definition stored_row :: "numeric \<Rightarrow> HealthRow \<Rightarrow> HealthRow option" where
  "stored_row num r =
     (case (num 5 2 (HRHealth r), num 10 2 (UsedHours r)) of
        (Some h, Some u) \<Rightarrow> Some \<lparr>HRHealth = h, UsedHours = u, PredictedEOLAt = map_option pgtime (PredictedEOLAt r), UpdatedAt = pgtime (UpdatedAt r)\<rparr>
      | _ \<Rightarrow> None)"

definition fits32 :: "int \<Rightarrow> bool" where "fits32 n \<longleftrightarrow> - (2 ^ 31) \<le> n \<and> n < 2 ^ 31"

definition stored_explain :: "numeric \<Rightarrow> Explain \<Rightarrow> int list \<Rightarrow> Explain option" where
  "stored_explain num e levels =
     (if \<not> fits32 (ModelVersion e) \<or> \<not> fits32 (OvertempCount e) \<or> length (ModuleModel e) > 32 \<or> length (FormatLevels levels) > 32 then None
      else (case (num 12 3 (UsedWeighted e), num 10 2 (ExRated e), num 5 4 (ExLow e), num 5 4 (ExMid e), num 5 4 (ExHigh e)) of
        (Some u, Some r, Some lo, Some mid, Some hi) \<Rightarrow>
          (case (num 6 2 (Penalty e), opt_num num 12 3 (LastHours e)) of
             (Some p, Some h) \<Rightarrow> Some (e\<lparr>UsedWeighted := u, ExRated := r, ExLow := lo, ExMid := mid, ExHigh := hi, Penalty := p, LastHours := h,
                LastBucketTs := map_option pgtime (LastBucketTs e), LevelsText := FormatLevels levels, ComputedAt := pgtime (ComputedAt e)\<rparr>)
           | _ \<Rightarrow> None)
      | _ \<Rightarrow> None))"

definition WriteHealth :: "numeric \<Rightarrow> HealthUpdate \<Rightarrow> HealthDb \<Rightarrow> (unit \<times> HealthDb) option" where
  "WriteHealth num up db =
     (if length (UpSN up) > 32 then None
      else (case (stored_row num (UpRow up), stored_explain num (UpExplain up) (UpLevels up)) of
        (Some r, Some e) \<Rightarrow>
          (case UpSwap up of
             None \<Rightarrow> Some ((), db\<lparr>health_rows := (health_rows db)(UpSN up \<mapsto> r), explains := (explains db)(UpSN up \<mapsto> e)\<rparr>)
           | Some sw \<Rightarrow>
               if length (FromModel sw) > 32 \<or> length (ToModel sw) > 32 \<or> SwReason sw \<notin> {''model_change'', ''hours_reset'', ''user_marked'', ''module_hours''}
               then None
               else Some ((), db\<lparr>health_rows := (health_rows db)(UpSN up \<mapsto> r), explains := (explains db)(UpSN up \<mapsto> e),
                  swaps := swaps db @ [sw\<lparr>DetectedAt := pgtime (DetectedAt sw), EOLBefore := map_option pgtime (EOLBefore sw)\<rparr>]\<rparr>))
      | _ \<Rightarrow> None))"

fun latest :: "time list \<Rightarrow> time option" where
  "latest [] = None"
| "latest (t # ts) = (case latest ts of None \<Rightarrow> Some t | Some u \<Rightarrow> Some (max t u))"

definition LastSentAt :: "string \<Rightarrow> string \<Rightarrow> HealthDb \<Rightarrow> time option" where
  "LastSentAt sn part db = latest (List.map_filter SentAt (filter (\<lambda>r. RSN r = sn \<and> RPart r = part) (reminders db)))"

definition InsertReminder :: "numeric \<Rightarrow> Reminder \<Rightarrow> HealthDb \<Rightarrow> (Reminder \<times> HealthDb) option" where
  "InsertReminder num r db =
     (if RLevel r \<notin> {''80'', ''50'', ''20'', ''lens'', ''material''} \<or> length (RSN r) > 32 \<or> length (RSku r) > 64 then None
      else (case num 5 2 (HealthAt r) of
        None \<Rightarrow> None
      | Some h \<Rightarrow> (let i = Suc (Max (insert 0 (RID ` set (reminders db))));
          row = r\<lparr>RID := i, HealthAt := h, SentAt := map_option pgtime (SentAt r)\<rparr>
        in Some (r\<lparr>RID := i\<rparr>, db\<lparr>reminders := reminders db @ [row]\<rparr>))))"

definition find_reminder :: "nat \<Rightarrow> HealthDb \<Rightarrow> Reminder option" where
  "find_reminder i db = find (\<lambda>r. RID r = i) (reminders db)"

definition SKUs :: "string \<Rightarrow> string \<Rightarrow> HealthDb \<Rightarrow> SKU list" where
  "SKUs pk part db = sort_str KPart (sort_str KModel (filter (\<lambda>k. KProduct k = pk \<and> (part = [] \<or> KPart k = part)) (skus db)))"

end
