(* ===== verification/HealthService.thy ===== *)
theory HealthService
  imports HealthStore
begin

text \<open>
  A round of the health service, \<open>internal/health/service.go\<close>: scoring of a device from its hourly buckets, the fuse on missing inputs,
  the writes and the reminders.
\<close>

subsection \<open>Parameters and answers\<close>

record HealthOptions =
  OCooldown :: duration
  OStaleAfter :: duration
  OScanWindow :: duration
  OFuseRatio :: f64
  OMaxScans :: int
  ONumeric :: numeric
  ONotify :: bool

text \<open>\<open>NewService\<close> puts the defaults in place of what is not positive.\<close>

definition NewHealthOptions :: "HealthOptions \<Rightarrow> HealthOptions" where
  "NewHealthOptions o' = o'\<lparr>OCooldown := (if OCooldown o' \<le> 0 then DefaultCooldown else OCooldown o'),
     OStaleAfter := (if OStaleAfter o' \<le> 0 then 2 * hour else OStaleAfter o'),
     OScanWindow := (if OScanWindow o' \<le> 0 then 720 * hour else OScanWindow o'),
     OFuseRatio := (if fle (OFuseRatio o') (Fin 0) then of_rat64 (3 / 10) else OFuseRatio o')\<rparr>"

text \<open>How the calls of one round end, by device: \<open>False\<close> and \<open>None\<close> are errors.\<close>

record HealthEnv =
  ENow :: time
  EBuckets :: "Bucket list option"
  EOvertemp :: "(string \<Rightarrow> int) option"
  EReadRow :: "string \<Rightarrow> bool"
  EReadExplain :: "string \<Rightarrow> bool"
  EReadCfg :: "string \<Rightarrow> bool"
  EShadow :: "string \<Rightarrow> Reported option"
  EReadLast :: "string \<Rightarrow> bool"
  EWrite :: "string \<Rightarrow> answer"
  EReadSku :: "string \<Rightarrow> bool"
  EInsert :: "string \<Rightarrow> answer"
  EPublish :: "string \<Rightarrow> answer"

subsection \<open>Scoring a device\<close>

definition deref :: "f64 option \<Rightarrow> f64" where "deref p = (case p of None \<Rightarrow> Fin 0 | Some x \<Rightarrow> x)"

definition bucketShares :: "Bucket \<Rightarrow> f64 \<times> f64 \<times> f64" where
  "bucketShares b =
     (let lo = deref (ShareLow b); mid = deref (ShareMid b); hi = deref (ShareHigh b) in
      if (ShareLow b \<noteq> None \<or> ShareMid b \<noteq> None \<or> ShareHigh b \<noteq> None) \<and> flt (Fin 0) (fadd (fadd lo mid) hi) then (lo, mid, hi)
      else (case AvgPower b of Some p \<Rightarrow> ShareFromAvgPower p | None \<Rightarrow> (Fin 0, Fin 0, Fin 0)))"

text \<open>What the loop over the new buckets carries: the last reading, the weighted hours, the shares of the last bucket that counted.\<close>

record scoring =
  PrevHours :: "f64 option"
  UsedSum :: f64
  Shares :: "f64 \<times> f64 \<times> f64"
  ScM :: metrics

definition score_bucket :: "HCfg \<Rightarrow> Bucket \<Rightarrow> scoring \<Rightarrow> scoring" where
  "score_bucket cfg b s =
     (case LaserHours b of
        None \<Rightarrow> s
      | Some h \<Rightarrow>
          (case PrevHours s of
             None \<Rightarrow> s\<lparr>PrevHours := Some h\<rparr>
           | Some p \<Rightarrow>
               (let (lo, mid, hi) = bucketShares b; (w, flag) = WeightedHours (fsub h p) lo mid hi cfg
                in s\<lparr>PrevHours := Some h, UsedSum := fadd (UsedSum s) w, Shares := (lo, mid, hi),
                     ScM := (case flag of FlagRegress \<Rightarrow> Inc ''hours_regress'' (ScM s) | FlagClipped \<Rightarrow> Inc ''hours_clipped'' (ScM s) | FlagOK \<Rightarrow> ScM s)\<rparr>)))"

definition zero_instant :: time where "zero_instant = - 62135596800000000000"

text \<open>\<open>Duration.Hours\<close>, and a sum of durations, which wraps.\<close>

definition Hours :: "duration \<Rightarrow> f64" where
  "Hours d = fadd (f64_of_int (sgn d * (\<bar>d\<bar> div hour))) (fdiv (f64_of_int (sgn d * (\<bar>d\<bar> mod hour))) (Fin 3600000000000))"

definition dadd :: "duration \<Rightarrow> duration \<Rightarrow> duration" where
  "dadd a b = (a + b + 2 ^ 63) mod 2 ^ 64 - 2 ^ 63"

record window =
  WPrev :: "f64 option"
  WSum :: f64
  WFirst :: time
  WLast :: time

definition window_bucket :: "HCfg \<Rightarrow> Bucket \<Rightarrow> window \<Rightarrow> window" where
  "window_bucket cfg b s =
     (case LaserHours b of
        None \<Rightarrow> s
      | Some h \<Rightarrow>
          (let s1 = s\<lparr>WFirst := (if WFirst s = zero_instant then BTs b else WFirst s), WLast := BTs b, WPrev := Some h\<rparr> in
           case WPrev s of
             None \<Rightarrow> s1
           | Some p \<Rightarrow> (let (lo, mid, hi) = bucketShares b in s1\<lparr>WSum := fadd (WSum s) (fst (WeightedHours (fsub h p) lo mid hi cfg))\<rparr>)))"

definition windowRate :: "Bucket list \<Rightarrow> HCfg \<Rightarrow> f64" where
  "windowRate bs cfg =
     (let s = fold (window_bucket cfg) bs \<lparr>WPrev = None, WSum = Fin 0, WFirst = zero_instant, WLast = zero_instant\<rparr> in
      if WFirst s = zero_instant then Fin 0
      else Rate30d (WSum s) (fdiv (Hours (dadd (tsub (WLast s) (WFirst s)) hour)) (Fin 24)))"

record pending =
  PUp :: HealthUpdate
  PPrevHealth :: f64
  PRep :: Reported
  PProduct :: string
  PCfg :: HCfg

datatype scored = ScoreErr | Skip string | Unchanged | Scored pending

text \<open>
  Buckets not later than the one last counted are old. A missing model, configuration or reading skips the device.
\<close>

definition new_buckets :: "Explain option \<Rightarrow> Bucket list \<Rightarrow> Bucket list" where
  "new_buckets ex bs =
     filter (\<lambda>b. case ex of None \<Rightarrow> True | Some e \<Rightarrow> (case LastBucketTs e of None \<Rightarrow> True | Some t \<Rightarrow> t < BTs b)) bs"

definition module_of :: "Explain option \<Rightarrow> Reported \<Rightarrow> string" where
  "module_of ex rep = (if RModel rep = [] then (case ex of None \<Rightarrow> [] | Some e \<Rightarrow> ModuleModel e) else RModel rep)"

definition hours_history :: "Explain option \<Rightarrow> Bucket list \<Rightarrow> f64 list" where
  "hours_history ex bs = (case ex of None \<Rightarrow> [] | Some e \<Rightarrow> (case LastHours e of None \<Rightarrow> [] | Some v \<Rightarrow> [v])) @ List.map_filter LaserHours bs"

text \<open>The counting itself, and what it comes to.\<close>

definition count_hours :: "HCfg \<Rightarrow> Explain option \<Rightarrow> bool \<Rightarrow> Bucket list \<Rightarrow> metrics \<Rightarrow> scoring" where
  "count_hours cfg ex swapped bs m =
     fold (score_bucket cfg) bs
       \<lparr>PrevHours = (if swapped then None else case ex of None \<Rightarrow> None | Some e \<Rightarrow> LastHours e),
        UsedSum = (if swapped then Fin 0 else case ex of None \<Rightarrow> Fin 0 | Some e \<Rightarrow> UsedWeighted e),
        Shares = (case ex of None \<Rightarrow> (Fin 0, Fin 0, Fin 0) | Some e \<Rightarrow> (ExLow e, ExMid e, ExHigh e)),
        ScM = (if swapped then Inc ''module_swaps'' m else m)\<rparr>"

definition finish_score :: "string \<Rightarrow> time \<Rightarrow> int \<Rightarrow> HCfg \<Rightarrow> HealthRow option \<Rightarrow> Explain option \<Rightarrow> Reported \<Rightarrow> string \<Rightarrow> string \<Rightarrow>
    string option \<Rightarrow> Bucket list \<Rightarrow> Bucket list \<Rightarrow> scoring \<Rightarrow> scored \<times> metrics" where
  "finish_score sn now overtemp cfg row ex rep pk mdl swap bs newBs s =
     (let rate = windowRate bs cfg; swapped = (swap \<noteq> None) in
      case ComputeHealth \<lparr>InUsed = UsedSum s, HasUsed = True, InOvertemp = overtemp, InCfg = cfg, InRate = rate, InNow = now\<rparr> of
        None \<Rightarrow> (Skip ''missing_cfg'', ScM s)
      | Some (score, eol) \<Rightarrow>
          (let penalty = snd (HealthScore (UsedSum s) (Rated cfg) overtemp cfg);
               prevHealth = (case row of Some r \<Rightarrow> if swapped then Fin (- 1) else HRHealth r | None \<Rightarrow> Fin (- 1));
               (val, kept) = Monotonic prevHealth score swapped;
               eol' = (if kept then PredictEOL val (Rated cfg) rate now else eol);
               (lo, mid, hi) = Shares s;
               levels = (case ex of Some e \<Rightarrow> if swapped then [] else LevelsSent e | None \<Rightarrow> [])
           in (Scored \<lparr>PUp = \<lparr>UpSN = sn,
                  UpRow = \<lparr>HRHealth = val, UsedHours = UsedSum s, PredictedEOLAt = eol', UpdatedAt = now\<rparr>,
                  UpExplain = \<lparr>ModelVersion = CfgVersion cfg, UsedWeighted = UsedSum s, ExRated = Rated cfg, ExLow = lo, ExMid = mid, ExHigh = hi,
                    OvertempCount = overtemp, Penalty = penalty, LastBucketTs = Some (BTs (last newBs)), LastHours = PrevHours s,
                    ModuleModel = mdl, LevelsText = [], ComputedAt = now\<rparr>,
                  UpLevels = levels,
                  UpSwap = (case swap of None \<Rightarrow> None | Some reason \<Rightarrow> Some \<lparr>SwSN = sn, FromModel = (case ex of None \<Rightarrow> [] | Some e \<Rightarrow> ModuleModel e),
                    ToModel = mdl, SwReason = reason, EOLBefore = (case row of None \<Rightarrow> None | Some r \<Rightarrow> PredictedEOLAt r), DetectedAt = now\<rparr>)\<rparr>,
                PPrevHealth = (if fle (Fin 0) prevHealth then prevHealth else Fin 101), PRep = rep, PProduct = pk, PCfg = cfg\<rparr>,
              if kept then Inc ''health_nonmonotonic'' (ScM s) else ScM s)))"

definition scoreDevice :: "HealthEnv \<Rightarrow> string \<Rightarrow> Bucket list \<Rightarrow> int \<Rightarrow> HealthDb \<Rightarrow> scored \<times> metrics" where
  "scoreDevice e sn bs overtemp db =
     (let m = HealthM db; row = health_rows db sn; ex = explains db sn; newBs = new_buckets ex bs in
      if \<not> EReadRow e sn \<or> \<not> EReadExplain e sn then (ScoreErr, m)
      else if newBs = [] then (Unchanged, m)
      else (case EShadow e sn of
        None \<Rightarrow> (Skip ''shadow_error'', m)
      | Some rep \<Rightarrow>
          (let mdl = module_of ex rep; pk = BProductKey (hd bs) in
           if mdl = [] then (Skip ''missing_model'', m)
           else if pk = [] then (Skip ''missing_cfg'', m)
           else if \<not> EReadCfg e sn then (ScoreErr, m)
           else (case Cfg pk mdl db of
             None \<Rightarrow> (Skip ''missing_cfg'', m)
           | Some cfg \<Rightarrow>
               if list_all (\<lambda>b. LaserHours b = None) newBs then (Skip ''missing_hours'', m)
               else (let swap = DetectSwap (case ex of None \<Rightarrow> [] | Some x \<Rightarrow> ModuleModel x) mdl (hours_history ex newBs) None None (ENow e)
                     in finish_score sn (ENow e) overtemp cfg row ex rep pk mdl swap bs newBs
                          (count_hours cfg ex (swap \<noteq> None) newBs m))))))"

subsection \<open>Writing a device\<close>

fun pick_sku :: "SKU option \<Rightarrow> SKU list \<Rightarrow> string \<Rightarrow> SKU option" where
  "pick_sku wild [] mdl = wild"
| "pick_sku wild (k # ks) mdl =
     (if \<not> Sellable k then pick_sku wild ks mdl
      else if KModel k = mdl then Some k
      else pick_sku (if KModel k = ''*'' \<and> wild = None then Some k else wild) ks mdl)"

definition PickSKU :: "SKU list \<Rightarrow> string \<Rightarrow> SKU option" where "PickSKU ks mdl = pick_sku None ks mdl"

definition publishReminder :: "HealthOptions \<Rightarrow> answer \<Rightarrow> Reminder \<Rightarrow> time option \<Rightarrow> HealthDb \<Rightarrow> HealthDb" where
  "publishReminder op a r eol db =
     (if \<not> ONotify op then db
      else (let db1 = (if took a then db\<lparr>published := published db @ [(r, eol)]\<rparr> else db) in
            if a = Done then db1 else hcount ''notify_publish_err'' db1))"

definition decision_of :: "HealthOptions \<Rightarrow> pending \<Rightarrow> time \<Rightarrow> HealthDb \<Rightarrow> ReminderDecision" where
  "decision_of op p now db = DecideReminder \<lparr>HealthPrev = PPrevHealth p, HealthNow = HRHealth (UpRow (PUp p)), LevelsSentIn = UpLevels (PUp p),
     LastSent = LastSentAt (UpSN (PUp p)) ''module'' db, WorkState = RWorkState (PRep p), Optout = ROptout (PRep p), RNow = now,
     Cooldown = OCooldown op\<rparr>"

definition reminder_of :: "HealthEnv \<Rightarrow> pending \<Rightarrow> ReminderDecision \<Rightarrow> time \<Rightarrow> HealthDb \<Rightarrow> Reminder" where
  "reminder_of e p dec now db =
     (let sn = UpSN (PUp p);
          sku = (if Action dec = ActionSend \<and> EReadSku e sn then PickSKU (SKUs (PProduct p) ''module'' db) (ModuleModel (UpExplain (PUp p))) else None)
      in \<lparr>RID = 0, RSN = sn, RPart = ''module'', RLevel = FormatInt (DLevel dec), HealthAt = HRHealth (UpRow (PUp p)),
          RSku = (case sku of None \<Rightarrow> [] | Some k \<Rightarrow> SkuID k),
          SentAt = (if Action dec = ActionSend then Some now else None),
          SuppressedReason = (case Action dec of ActionSuppressed \<Rightarrow> Reason dec | ActionDeferred \<Rightarrow> ''deferred'' | _ \<Rightarrow> [])\<rparr>)"

text \<open>\<open>None\<close> is an error; otherwise whether a reminder was sent.\<close>

definition commit :: "HealthOptions \<Rightarrow> HealthEnv \<Rightarrow> pending \<Rightarrow> HealthDb \<Rightarrow> bool option \<times> HealthDb" where
  "commit op e p db =
     (let sn = UpSN (PUp p); now = ENow e in
      if \<not> EReadLast e sn then (None, db)
      else (let dec = decision_of op p now db;
                up = (if Action dec = ActionSend then (PUp p)\<lparr>UpLevels := UpLevels (PUp p) @ [DLevel dec]\<rparr> else PUp p)
            in case exec (EWrite e sn) (WriteHealth (ONumeric op) up) db of
                 (None, db1) \<Rightarrow> (None, db1)
               | (Some _, db1) \<Rightarrow>
                   if Action dec = ActionNone then (Some False, db1)
                   else (case exec (EInsert e sn) (InsertReminder (ONumeric op) (reminder_of e p dec now db1)) db1 of
                     (None, db2) \<Rightarrow> (None, db2)
                   | (Some r, db2) \<Rightarrow>
                       (case Action dec of
                          ActionSend \<Rightarrow> (Some True, publishReminder op (EPublish e sn) r (PredictedEOLAt (UpRow (PUp p))) (hcount ''reminders_sent'' db2))
                        | ActionSuppressed \<Rightarrow> (Some False, hcount (if Reason dec = ''cooldown'' then ''reminders_cooled'' else ''reminders_optout'') db2)
                        | ActionDeferred \<Rightarrow> (Some False, hcount ''reminders_deferred'' db2)
                        | ActionNone \<Rightarrow> (Some False, db2)))))"

subsection \<open>A round\<close>

record RunReport =
  Total :: nat
  NScored :: nat
  Skipped :: nat
  NUnchanged :: nat
  Fused :: bool
  NReminders :: nat
  Skips :: "string \<Rightarrow> nat"

definition empty_report :: RunReport where
  "empty_report = \<lparr>Total = 0, NScored = 0, Skipped = 0, NUnchanged = 0, Fused = False, NReminders = 0, Skips = (\<lambda>_. 0)\<rparr>"

text \<open>The first pass scores; an error ends it.\<close>

fun score_all :: "HealthEnv \<Rightarrow> (string \<Rightarrow> int) \<Rightarrow> (string \<times> Bucket list) list \<Rightarrow> RunReport \<Rightarrow> pending list \<Rightarrow> HealthDb \<Rightarrow>
    (RunReport \<times> pending list) option \<times> RunReport \<times> HealthDb" where
  "score_all e over [] rep ps db = (Some (rep, ps), rep, db)"
| "score_all e over ((sn, bs) # rest) rep ps db =
     (case scoreDevice e sn bs (over sn) db of
        (ScoreErr, m) \<Rightarrow> (None, rep, hcount ''batch_errors'' (db\<lparr>HealthM := m\<rparr>))
      | (Skip why, m) \<Rightarrow> score_all e over rest (rep\<lparr>Skipped := Skipped rep + 1, Skips := (Skips rep)(why := Skips rep why + 1)\<rparr>) ps
          (hcount ''skipped_missing'' (db\<lparr>HealthM := m\<rparr>))
      | (Unchanged, m) \<Rightarrow> score_all e over rest (rep\<lparr>NUnchanged := NUnchanged rep + 1\<rparr>) ps (db\<lparr>HealthM := m\<rparr>)
      | (Scored p, m) \<Rightarrow> score_all e over rest rep (ps @ [p]) (db\<lparr>HealthM := m\<rparr>))"

fun write_all :: "HealthOptions \<Rightarrow> HealthEnv \<Rightarrow> pending list \<Rightarrow> RunReport \<Rightarrow> HealthDb \<Rightarrow> RunReport \<times> HealthDb" where
  "write_all op e [] rep db = (rep, db)"
| "write_all op e (p # ps) rep db =
     (case commit op e p db of
        (None, db1) \<Rightarrow> write_all op e ps rep (hcount ''batch_errors'' db1)
      | (Some sent, db1) \<Rightarrow> write_all op e ps (rep\<lparr>NScored := NScored rep + 1, NReminders := NReminders rep + (if sent then 1 else 0)\<rparr>)
          (hcount ''devices_scored'' db1))"

definition by_device :: "string list \<Rightarrow> Bucket list \<Rightarrow> (string \<times> Bucket list) list" where
  "by_device only bs =
     (let mine = filter (\<lambda>b. only = [] \<or> BSN b \<in> set only) bs in
      map (\<lambda>sn. (sn, filter (\<lambda>b. BSN b = sn) mine)) (sort_str (\<lambda>sn. sn) (remdups (map BSN mine))))"

text \<open>The report and whether the round ended without an error.\<close>

definition RunOnce :: "HealthOptions \<Rightarrow> HealthEnv \<Rightarrow> string list \<Rightarrow> HealthDb \<Rightarrow> RunReport \<times> bool \<times> HealthDb" where
  "RunOnce op e only db =
     (case (EBuckets e, EOvertemp e) of
        (Some bs, Some over) \<Rightarrow>
          (case score_all e over (by_device only bs) empty_report [] db of
             (None, rep, db1) \<Rightarrow> (rep, False, db1)
           | (Some (rep, ps), _, db1) \<Rightarrow>
               (let rep1 = rep\<lparr>Total := Skipped rep + length ps\<rparr> in
                if ShouldFuseBatch (Skipped rep1) (Total rep1) (OFuseRatio op)
                then (rep1\<lparr>Fused := True\<rparr>, True, hcount ''batch_runs'' (hcount ''batch_fused'' db1))
                else (case write_all op e ps rep1 db1 of (rep2, db2) \<Rightarrow> (rep2, True, hcount ''batch_runs'' db2))))
      | _ \<Rightarrow> (empty_report, False, hcount ''batch_errors'' db))"

end
