(* ===== verification/HealthSafety.thy ===== *)
theory HealthSafety
  imports HealthService
begin

text \<open>
  What rounds do to the tables: a device is written only with all its inputs, its health is a percentage that falls until the module is
  changed, two reminders are a cooldown apart, and a level is reminded of at most once in the life of a module.
\<close>

subsection \<open>The columns\<close>

text \<open>
  What NUMERIC columns promise: a finite number gives a finite number (an infinity does not fit), in the same order, whole numbers within
  the precision are kept, and what was read from a column goes back unchanged.
\<close>

definition numeric_ok :: "numeric \<Rightarrow> bool" where
  "numeric_ok num \<longleftrightarrow>
     (\<forall>p s x y. num p s x = Some y \<longrightarrow> (x = NaN \<and> y = NaN) \<or> (\<exists>a b. x = Fin a \<and> y = Fin b)) \<and>
     (\<forall>p s a b a' b'. num p s (Fin a) = Some (Fin b) \<longrightarrow> num p s (Fin a') = Some (Fin b') \<longrightarrow> a \<le> a' \<longrightarrow> b \<le> b') \<and>
     (\<forall>p s n. \<bar>n\<bar> < 10 ^ (p - s) \<longrightarrow> num p s (Fin (of_int n)) = Some (Fin (of_int n))) \<and>
     (\<forall>p s x y. num p s x = Some y \<longrightarrow> num p s y = Some y)"

lemma numeric_fin: "numeric_ok num \<Longrightarrow> num p s x = Some y \<Longrightarrow> x \<noteq> NaN \<Longrightarrow> \<exists>a b. x = Fin a \<and> y = Fin b"
  unfolding numeric_ok_def by metis

lemma numeric_mono: "numeric_ok num \<Longrightarrow> num p s (Fin a) = Some (Fin b) \<Longrightarrow> num p s (Fin a') = Some (Fin b') \<Longrightarrow> a \<le> a' \<Longrightarrow> b \<le> b'"
  unfolding numeric_ok_def by metis

lemma numeric_int: "numeric_ok num \<Longrightarrow> \<bar>n\<bar> < 10 ^ (p - s) \<Longrightarrow> num p s (Fin (of_int n)) = Some (Fin (of_int n))"
  unfolding numeric_ok_def by metis

lemma numeric_again: "numeric_ok num \<Longrightarrow> num p s x = Some y \<Longrightarrow> num p s y = Some y"
  unfolding numeric_ok_def by metis

lemma numeric_percent:
  assumes "numeric_ok num" "num 5 2 (Fin a) = Some y" "0 \<le> a" "a \<le> 100"
  shows "\<exists>b. y = Fin b \<and> 0 \<le> b \<and> b \<le> 100"
proof -
  obtain b where b: "y = Fin b" using numeric_fin[OF assms(1,2)] by auto
  have "num 5 2 (Fin 0) = Some (Fin 0)" "num 5 2 (Fin 100) = Some (Fin 100)"
    using numeric_int[OF assms(1), of 0 5 2] numeric_int[OF assms(1), of 100 5 2] by simp_all
  then show ?thesis using numeric_mono[OF assms(1)] assms(2-4) b by blast
qed

subsection \<open>One device\<close>

lemma hcount_frame [simp]:
  "health_rows (hcount n db) = health_rows db" "explains (hcount n db) = explains db" "swaps (hcount n db) = swaps db"
  "reminders (hcount n db) = reminders db" "attributions (hcount n db) = attributions db" "cfg_rows (hcount n db) = cfg_rows db"
  "skus (hcount n db) = skus db" "codes (hcount n db) = codes db" "materials (hcount n db) = materials db" "scans (hcount n db) = scans db"
  by (simp_all add: hcount_def)

lemma publish_frame [simp]:
  "health_rows (publishReminder op a r t db) = health_rows db" "explains (publishReminder op a r t db) = explains db"
  "swaps (publishReminder op a r t db) = swaps db" "reminders (publishReminder op a r t db) = reminders db"
  "attributions (publishReminder op a r t db) = attributions db" "cfg_rows (publishReminder op a r t db) = cfg_rows db"
  "codes (publishReminder op a r t db) = codes db" "scans (publishReminder op a r t db) = scans db"
  by (simp_all add: publishReminder_def Let_def)

text \<open>The tables without the counters and the notifications.\<close>

definition same_tables :: "HealthDb \<Rightarrow> HealthDb \<Rightarrow> bool" where
  "same_tables db db' \<longleftrightarrow> health_rows db' = health_rows db \<and> explains db' = explains db \<and> swaps db' = swaps db \<and> reminders db' = reminders db \<and>
     attributions db' = attributions db \<and> cfg_rows db' = cfg_rows db \<and> codes db' = codes db \<and> scans db' = scans db"

lemma same_health_refl [simp]: "same_tables db db" by (simp add: same_tables_def)

lemma same_health_trans: "same_tables a b \<Longrightarrow> same_tables b c \<Longrightarrow> same_tables a c" by (simp add: same_tables_def)

lemma same_tables_metrics [simp]: "same_tables db (db\<lparr>HealthM := m\<rparr>)" "same_tables db (hcount n db)" by (simp_all add: same_tables_def)

text \<open>What a scored device had.\<close>

lemma scoreDevice_Scored:
  assumes "scoreDevice e sn bs over db = (Scored p, m)"
  obtains rep cfg swap where "EShadow e sn = Some rep" "module_of (explains db sn) rep \<noteq> []"
    "Cfg (BProductKey (hd bs)) (module_of (explains db sn) rep) db = Some cfg"
    "list_ex (\<lambda>b. LaserHours b \<noteq> None) (new_buckets (explains db sn) bs)"
    "swap = DetectSwap (case explains db sn of None \<Rightarrow> [] | Some x \<Rightarrow> ModuleModel x) (module_of (explains db sn) rep)
       (hours_history (explains db sn) (new_buckets (explains db sn) bs)) None None (ENow e)"
    "finish_score sn (ENow e) over cfg (health_rows db sn) (explains db sn) rep (BProductKey (hd bs)) (module_of (explains db sn) rep) swap bs
       (new_buckets (explains db sn) bs)
       (count_hours cfg (explains db sn) (swap \<noteq> None) (new_buckets (explains db sn) bs) (HealthM db)) = (Scored p, m)"
  using assms by (auto simp: scoreDevice_def Let_def list_ex_iff list_all_iff split: if_splits option.splits)

definition before :: "HealthRow option \<Rightarrow> bool \<Rightarrow> f64" where
  "before row swapped = (case row of Some r \<Rightarrow> if swapped then Fin (- 1) else HRHealth r | None \<Rightarrow> Fin (- 1))"

lemma finish_score_Scored:
  assumes "finish_score sn now over cfg row ex rep pk mdl swap bs newBs s = (Scored p, m)"
  shows "UpSN (PUp p) = sn" "PRep p = rep"
    "HRHealth (UpRow (PUp p)) = fst (Monotonic (before row (swap \<noteq> None)) (fst (HealthScore (UsedSum s) (Rated cfg) over cfg)) (swap \<noteq> None))"
    "PPrevHealth p = (if fle (Fin 0) (before row (swap \<noteq> None)) then before row (swap \<noteq> None) else Fin 101)"
    "UpLevels (PUp p) = (case ex of Some x \<Rightarrow> if swap \<noteq> None then [] else LevelsSent x | None \<Rightarrow> [])"
    "UpSwap (PUp p) = None \<longleftrightarrow> swap = None" "UpSwap (PUp p) = Some sw \<Longrightarrow> SwSN sw = sn"
    "UsedWeighted (UpExplain (PUp p)) = UsedSum s" "LastHours (UpExplain (PUp p)) = PrevHours s"
  using assms
  by (auto simp: finish_score_def before_def Let_def ComputeHealth_def split: option.splits prod.splits if_splits)

text \<open>The row written is the old one or lower unless the module was changed.\<close>

lemma Monotonic_le: "prev \<noteq> NaN \<Longrightarrow> nxt \<noteq> NaN \<Longrightarrow> fle (Fin 0) prev \<Longrightarrow> fle (fst (Monotonic prev nxt False)) prev"
  by (cases prev; cases nxt) (auto simp: Monotonic_def fle_ends)

lemma Monotonic_one: "fst (Monotonic prev nxt swapped) = nxt \<or> (fst (Monotonic prev nxt swapped) = prev \<and> fle (Fin 0) prev)"
  by (cases prev; cases nxt) (auto simp: Monotonic_def fle_ends)

subsection \<open>A commit\<close>

definition levels_after :: "ReminderDecision \<Rightarrow> pending \<Rightarrow> int list" where
  "levels_after dec p = (if Action dec = ActionSend then UpLevels (PUp p) @ [DLevel dec] else UpLevels (PUp p))"

text \<open>The write took place: rows and reminders afterwards.\<close>

definition wrote :: "HealthOptions \<Rightarrow> HealthEnv \<Rightarrow> pending \<Rightarrow> HealthDb \<Rightarrow> HealthDb \<Rightarrow> bool" where
  "wrote op e p db db' \<longleftrightarrow>
     (\<exists>r x. stored_row (ONumeric op) (UpRow (PUp p)) = Some r \<and>
        stored_explain (ONumeric op) (UpExplain (PUp p)) (levels_after (decision_of op p (ENow e) db) p) = Some x \<and>
        health_rows db' = (health_rows db)(UpSN (PUp p) \<mapsto> r) \<and> explains db' = (explains db)(UpSN (PUp p) \<mapsto> x)) \<and>
     (case UpSwap (PUp p) of None \<Rightarrow> swaps db' = swaps db | Some sw \<Rightarrow> (\<exists>sw'. SwSN sw' = SwSN sw \<and> swaps db' = swaps db @ [sw'])) \<and>
     (reminders db' = reminders db \<or>
      (\<exists>row. reminders db' = reminders db @ [row] \<and> RSN row = UpSN (PUp p) \<and> RPart row = ''module'' \<and>
         RID row \<notin> RID ` set (reminders db) \<and>
         RLevel row = FormatInt (DLevel (decision_of op p (ENow e) db)) \<and> Action (decision_of op p (ENow e) db) \<noteq> ActionNone \<and>
         SentAt row = (if Action (decision_of op p (ENow e) db) = ActionSend then Some (pgtime (ENow e)) else None))) \<and>
     attributions db' = attributions db \<and> cfg_rows db' = cfg_rows db \<and> codes db' = codes db \<and> scans db' = scans db"

lemma WriteHealth_Some:
  assumes "WriteHealth num up db = Some ((), db1)"
  obtains r x where "stored_row num (UpRow up) = Some r" "stored_explain num (UpExplain up) (UpLevels up) = Some x"
    "health_rows db1 = (health_rows db)(UpSN up \<mapsto> r)" "explains db1 = (explains db)(UpSN up \<mapsto> x)"
    "case UpSwap up of None \<Rightarrow> swaps db1 = swaps db | Some sw \<Rightarrow> (\<exists>sw'. SwSN sw' = SwSN sw \<and> swaps db1 = swaps db @ [sw'])"
    "reminders db1 = reminders db" "attributions db1 = attributions db" "cfg_rows db1 = cfg_rows db" "codes db1 = codes db" "scans db1 = scans db"
  using assms by (auto simp: WriteHealth_def split: if_splits option.splits)

lemma InsertReminder_Some:
  assumes "InsertReminder num r db = Some (r', db1)"
  obtains row where "reminders db1 = reminders db @ [row]" "RSN row = RSN r" "RPart row = RPart r" "RLevel row = RLevel r"
    "SentAt row = map_option pgtime (SentAt r)" "RID row \<notin> RID ` set (reminders db)"
    "health_rows db1 = health_rows db" "explains db1 = explains db" "swaps db1 = swaps db" "attributions db1 = attributions db"
    "cfg_rows db1 = cfg_rows db" "codes db1 = codes db" "scans db1 = scans db"
proof -
  let ?i = "Suc (Max (insert 0 (RID ` set (reminders db))))"
  obtain h where h: "num 5 2 (HealthAt r) = Some h" and db1: "db1 = db\<lparr>reminders := reminders db @ [r\<lparr>RID := ?i, HealthAt := h, SentAt := map_option pgtime (SentAt r)\<rparr>]\<rparr>"
    using assms by (auto simp: InsertReminder_def Let_def split: if_splits option.splits)
  have "n \<le> Max (insert 0 (RID ` set (reminders db)))" if "n \<in> RID ` set (reminders db)" for n using that by (intro Max_ge) auto
  then have "?i \<notin> RID ` set (reminders db)" by (metis Suc_n_not_le_n)
  then show ?thesis using that[of "r\<lparr>RID := ?i, HealthAt := h, SentAt := map_option pgtime (SentAt r)\<rparr>"] by (simp add: db1)
qed

lemma exec_cases:
  assumes "exec a st db = (res, db')"
  obtains "res = None" "db' = db" | n where "st db = Some (n, db')" "res = None \<or> res = Some n"
  using assms by (auto simp: exec_def split: if_splits option.splits)

lemma commit_cases:
  assumes "commit op e p db = (res, db')"
  shows "same_tables db db' \<or> wrote op e p db db'"
proof (cases "EReadLast e (UpSN (PUp p))")
  case False
  then show ?thesis using assms by (simp add: commit_def Let_def)
next
  case True
  let ?dec = "decision_of op p (ENow e) db"
  let ?up = "if Action ?dec = ActionSend then (PUp p)\<lparr>UpLevels := UpLevels (PUp p) @ [DLevel ?dec]\<rparr> else PUp p"
  obtain w db1 where w: "exec (EWrite e (UpSN (PUp p))) (WriteHealth (ONumeric op) ?up) db = (w, db1)" by fastforce
  then show ?thesis
  proof (cases rule: exec_cases)
    case 1
    then show ?thesis using assms True w by (simp add: commit_def Let_def)
  next
    case (2 u)
    have up: "UpRow ?up = UpRow (PUp p)" "UpExplain ?up = UpExplain (PUp p)" "UpLevels ?up = levels_after ?dec p" "UpSN ?up = UpSN (PUp p)"
      "UpSwap ?up = UpSwap (PUp p)" by (simp_all add: levels_after_def)
    have wr: "WriteHealth (ONumeric op) ?up db = Some ((), db1)" using 2(1) by (cases u) simp
    have base: "wrote op e p db dbx" if "health_rows dbx = health_rows db1" "explains dbx = explains db1" "swaps dbx = swaps db1"
      "attributions dbx = attributions db1" "cfg_rows dbx = cfg_rows db1" "codes dbx = codes db1" "scans dbx = scans db1"
      "reminders dbx = reminders db1 \<or> (\<exists>row. reminders dbx = reminders db1 @ [row] \<and> RSN row = UpSN (PUp p) \<and> RPart row = ''module'' \<and>
         RID row \<notin> RID ` set (reminders db1) \<and> RLevel row = FormatInt (DLevel ?dec) \<and> Action ?dec \<noteq> ActionNone \<and>
         SentAt row = (if Action ?dec = ActionSend then Some (pgtime (ENow e)) else None))" for dbx
      using wr
    proof (rule WriteHealth_Some)
      fix r x assume "stored_row (ONumeric op) (UpRow ?up) = Some r" "stored_explain (ONumeric op) (UpExplain ?up) (UpLevels ?up) = Some x"
        "health_rows db1 = (health_rows db)(UpSN ?up \<mapsto> r)" "explains db1 = (explains db)(UpSN ?up \<mapsto> x)"
        "case UpSwap ?up of None \<Rightarrow> swaps db1 = swaps db | Some sw \<Rightarrow> (\<exists>sw'. SwSN sw' = SwSN sw \<and> swaps db1 = swaps db @ [sw'])"
        "reminders db1 = reminders db" "attributions db1 = attributions db" "cfg_rows db1 = cfg_rows db" "codes db1 = codes db" "scans db1 = scans db"
      then show ?thesis using that unfolding wrote_def up by (cases "UpSwap (PUp p)") simp_all
    qed
    show ?thesis
    proof (cases "w = None \<or> Action ?dec = ActionNone")
      case True
      then have "db' = db1" using assms w \<open>EReadLast e (UpSN (PUp p))\<close> by (auto simp: commit_def Let_def split: option.splits)
      then show ?thesis using base[of db1] by simp
    next
      case False
      then obtain z where z: "w = Some z" by auto
      let ?r = "reminder_of e p ?dec (ENow e) db1"
      obtain i db2 where i: "exec (EInsert e (UpSN (PUp p))) (InsertReminder (ONumeric op) ?r) db1 = (i, db2)" by fastforce
      have out: "health_rows db' = health_rows db2" "explains db' = explains db2" "swaps db' = swaps db2" "attributions db' = attributions db2"
        "cfg_rows db' = cfg_rows db2" "codes db' = codes db2" "scans db' = scans db2" "reminders db' = reminders db2"
        using assms w z i False \<open>EReadLast e (UpSN (PUp p))\<close>
        by (auto simp: commit_def Let_def split: option.splits ReminderAction.splits if_splits)
      from i show ?thesis
      proof (cases rule: exec_cases)
        case 1
        then show ?thesis using base[of db'] out by simp
      next
        case (2 r')
        from 2(1) show ?thesis
        proof (rule InsertReminder_Some)
          fix row assume row: "reminders db2 = reminders db1 @ [row]" "RSN row = RSN ?r" "RPart row = RPart ?r" "RLevel row = RLevel ?r"
            "SentAt row = map_option pgtime (SentAt ?r)" "RID row \<notin> RID ` set (reminders db1)"
            "health_rows db2 = health_rows db1" "explains db2 = explains db1" "swaps db2 = swaps db1" "attributions db2 = attributions db1"
            "cfg_rows db2 = cfg_rows db1" "codes db2 = codes db1" "scans db2 = scans db1"
          have r: "RSN ?r = UpSN (PUp p)" "RPart ?r = ''module''" "RLevel ?r = FormatInt (DLevel ?dec)"
            "SentAt ?r = (if Action ?dec = ActionSend then Some (ENow e) else None)" by (simp_all add: reminder_of_def Let_def)
          show ?thesis using base[of db'] out row r False by auto
        qed
      qed
    qed
  qed
qed

subsection \<open>A round\<close>

text \<open>A pending write comes from the scoring of its device against these tables.\<close>

definition scored_dev :: "HealthEnv \<Rightarrow> (string \<Rightarrow> int) \<Rightarrow> (string \<times> Bucket list) list \<Rightarrow> HealthDb \<Rightarrow> pending \<Rightarrow> bool" where
  "scored_dev e over l db p \<longleftrightarrow> (\<exists>bs m m'. (UpSN (PUp p), bs) \<in> set l \<and>
     scoreDevice e (UpSN (PUp p)) bs (over (UpSN (PUp p))) (db\<lparr>HealthM := m\<rparr>) = (Scored p, m'))"

lemma scoreDevice_same:
  assumes "health_rows d' sn = health_rows d sn" "explains d' sn = explains d sn" "cfg_rows d' = cfg_rows d"
  shows "scoreDevice e sn bs ov (d'\<lparr>HealthM := m\<rparr>) = scoreDevice e sn bs ov (d\<lparr>HealthM := m\<rparr>)"
proof -
  have "health_rows (d'\<lparr>HealthM := m\<rparr>) sn = health_rows (d\<lparr>HealthM := m\<rparr>) sn" "explains (d'\<lparr>HealthM := m\<rparr>) sn = explains (d\<lparr>HealthM := m\<rparr>) sn"
    "cfg_rows (d'\<lparr>HealthM := m\<rparr>) = cfg_rows (d\<lparr>HealthM := m\<rparr>)" "HealthM (d'\<lparr>HealthM := m\<rparr>) = HealthM (d\<lparr>HealthM := m\<rparr>)"
    using assms by simp_all
  note eqs = this
  show ?thesis unfolding scoreDevice_def Cfg_def Let_def eqs by (rule refl)
qed

lemma scored_dev_same:
  assumes "scored_dev e over l d p" "health_rows d' (UpSN (PUp p)) = health_rows d (UpSN (PUp p))"
    "explains d' (UpSN (PUp p)) = explains d (UpSN (PUp p))" "cfg_rows d' = cfg_rows d"
  shows "scored_dev e over l d' p"
  using assms(1) scoreDevice_same[OF assms(2-4)] unfolding scored_dev_def by metis

lemma scoreDevice_sn: "scoreDevice e sn bs ov db = (Scored p, m) \<Longrightarrow> UpSN (PUp p) = sn"
  by (erule scoreDevice_Scored) (rule finish_score_Scored(1))

lemma score_all_spec:
  assumes "score_all e over l rep ps db = (res, rep', db')"
  shows "\<exists>m. db' = db\<lparr>HealthM := m\<rparr>"
    "res = Some (r, qs) \<Longrightarrow> distinct (map fst l) \<Longrightarrow> \<exists>new. qs = ps @ new \<and> distinct (map (\<lambda>p. UpSN (PUp p)) new) \<and>
       (\<lambda>p. UpSN (PUp p)) ` set new \<subseteq> fst ` set l \<and> list_all (scored_dev e over l db) new"
proof -
  have "(\<exists>m. db' = db\<lparr>HealthM := m\<rparr>) \<and> (res = Some (r, qs) \<longrightarrow> distinct (map fst l) \<longrightarrow> (\<exists>new. qs = ps @ new \<and> distinct (map (\<lambda>p. UpSN (PUp p)) new) \<and>
       (\<lambda>p. UpSN (PUp p)) ` set new \<subseteq> fst ` set l \<and> list_all (scored_dev e over l db) new))"
    using assms
  proof (induction e over l rep ps db arbitrary: res rep' db' rule: score_all.induct)
    case (1 e over rep ps db)
    then show ?case by (auto intro: exI[of _ "HealthM db"])
  next
    case (2 e over sn bs rest rep ps db)
    have widen: "scored_dev e over ((sn, bs) # rest) db p" if "scored_dev e over rest (db\<lparr>HealthM := m\<rparr>) p" for p m
      using that by (auto simp: scored_dev_def)
    have lift: "(\<exists>m. db' = db\<lparr>HealthM := m\<rparr>) \<and> (res = Some (r, qs) \<longrightarrow> distinct (map fst ((sn, bs) # rest)) \<longrightarrow>
        (\<exists>new. qs = ps @ new \<and> distinct (map (\<lambda>p. UpSN (PUp p)) new) \<and>
          (\<lambda>p. UpSN (PUp p)) ` set new \<subseteq> fst ` set ((sn, bs) # rest) \<and> list_all (scored_dev e over ((sn, bs) # rest) db) new))"
      if ih: "(\<exists>ma. db' = db\<lparr>HealthM := m2, HealthM := ma\<rparr>) \<and> (res = Some (r, qs) \<longrightarrow> distinct (map fst rest) \<longrightarrow>
        (\<exists>new. qs = ps @ new \<and> distinct (map (\<lambda>p. UpSN (PUp p)) new) \<and>
          (\<lambda>p. UpSN (PUp p)) ` set new \<subseteq> fst ` set rest \<and> list_all (scored_dev e over rest (db\<lparr>HealthM := m2\<rparr>)) new))" for m2
    proof (intro conjI impI)
      show "\<exists>m. db' = db\<lparr>HealthM := m\<rparr>" using ih by auto
      assume "res = Some (r, qs)" "distinct (map fst ((sn, bs) # rest))"
      then obtain new where "qs = ps @ new" "distinct (map (\<lambda>p. UpSN (PUp p)) new)" "(\<lambda>p. UpSN (PUp p)) ` set new \<subseteq> fst ` set rest"
        "list_all (scored_dev e over rest (db\<lparr>HealthM := m2\<rparr>)) new" using ih by auto
      then show "\<exists>new. qs = ps @ new \<and> distinct (map (\<lambda>p. UpSN (PUp p)) new) \<and>
          (\<lambda>p. UpSN (PUp p)) ` set new \<subseteq> fst ` set ((sn, bs) # rest) \<and> list_all (scored_dev e over ((sn, bs) # rest) db) new"
        using widen by (intro exI[of _ new]) (auto simp: list_all_iff)
    qed
    obtain sc m where sc: "scoreDevice e sn bs (over sn) db = (sc, m)" by fastforce
    show ?case
    proof (cases sc)
      case ScoreErr
      then show ?thesis using "2.prems" sc by (auto simp: hcount_def)
    next
      case (Skip why)
      have k: "hcount ''skipped_missing'' (db\<lparr>HealthM := m\<rparr>) = db\<lparr>HealthM := Inc ''skipped_missing'' m\<rparr>" by (simp add: hcount_def)
      have "score_all e over rest (rep\<lparr>Skipped := Skipped rep + 1, Skips := (Skips rep)(why := Skips rep why + 1)\<rparr>) ps
          (hcount ''skipped_missing'' (db\<lparr>HealthM := m\<rparr>)) = (res, rep', db')" using "2.prems" sc Skip by simp
      then show ?thesis using "2.IH"(1)[OF sc[symmetric] Skip] lift unfolding k by blast
    next
      case Unchanged
      have "score_all e over rest (rep\<lparr>NUnchanged := NUnchanged rep + 1\<rparr>) ps (db\<lparr>HealthM := m\<rparr>) = (res, rep', db')"
        using "2.prems" sc Unchanged by simp
      then show ?thesis using "2.IH"(2)[OF sc[symmetric] Unchanged] lift by blast
    next
      case (Scored p)
      note ih = "2.IH"(3)[OF sc[symmetric] Scored]
      have eq: "score_all e over rest rep (ps @ [p]) (db\<lparr>HealthM := m\<rparr>) = (res, rep', db')" using "2.prems" sc Scored by simp
      have sn: "UpSN (PUp p) = sn" using scoreDevice_sn[of e sn bs "over sn" db p m] sc Scored by simp
      have here: "scored_dev e over ((sn, bs) # rest) db p"
        using sc Scored sn unfolding scored_dev_def by (intro exI[of _ bs] exI[of _ "HealthM db"] exI[of _ m]) simp
      have "\<exists>new. qs = ps @ new \<and> distinct (map (\<lambda>p. UpSN (PUp p)) new) \<and>
          (\<lambda>p. UpSN (PUp p)) ` set new \<subseteq> fst ` set ((sn, bs) # rest) \<and> list_all (scored_dev e over ((sn, bs) # rest) db) new"
        if r: "res = Some (r, qs)" "distinct (map fst ((sn, bs) # rest))"
      proof -
        obtain new where new: "qs = (ps @ [p]) @ new" "distinct (map (\<lambda>p. UpSN (PUp p)) new)" "(\<lambda>p. UpSN (PUp p)) ` set new \<subseteq> fst ` set rest"
          "list_all (scored_dev e over rest (db\<lparr>HealthM := m\<rparr>)) new"
          using ih[OF eq] r by auto
        then show ?thesis using here sn r(2) widen by (intro exI[of _ "p # new"]) (auto simp: list_all_iff)
      qed
      moreover have "\<exists>m'. db' = db\<lparr>HealthM := m'\<rparr>" using ih[OF eq] by auto
      ultimately show ?thesis by blast
    qed
  qed
  then show "\<exists>m. db' = db\<lparr>HealthM := m\<rparr>"
    "res = Some (r, qs) \<Longrightarrow> distinct (map fst l) \<Longrightarrow> \<exists>new. qs = ps @ new \<and> distinct (map (\<lambda>p. UpSN (PUp p)) new) \<and>
       (\<lambda>p. UpSN (PUp p)) ` set new \<subseteq> fst ` set l \<and> list_all (scored_dev e over l db) new" by blast+
qed

lemma score_all_fused: "score_all e over l rep ps db = (Some (r, qs), rp, db') \<Longrightarrow> Fused r = Fused rep"
  by (induction e over l rep ps db rule: score_all.induct) (auto split: prod.splits scored.splits)

lemma write_all_fused: "write_all op e ps rep db = (rep', db') \<Longrightarrow> Fused rep' = Fused rep"
  by (induction op e ps rep db rule: write_all.induct) (auto split: prod.splits option.splits)

text \<open>A round is a sequence of commits; what every write keeps, the round keeps.\<close>

lemma write_all_keeps:
  assumes "write_all op e ps rep db = (rep', db')" "Q db" "list_all (scored_dev e over l db) ps" "distinct (map (\<lambda>p. UpSN (PUp p)) ps)"
    and same: "\<And>d d'. Q d \<Longrightarrow> same_tables d d' \<Longrightarrow> Q d'"
    and wr: "\<And>p d d'. Q d \<Longrightarrow> scored_dev e over l d p \<Longrightarrow> p \<in> set ps \<Longrightarrow> wrote op e p d d' \<Longrightarrow> Q d'"
  shows "Q db'"
  using assms(1-4) wr
proof (induction op e ps rep db arbitrary: rep' db' rule: write_all.induct)
  case (2 op e p ps rep db)
  obtain res db1 where c: "commit op e p db = (res, db1)" by fastforce
  have q1: "Q db1" using commit_cases[OF c] same[OF "2.prems"(2)] "2.prems"(5)[OF "2.prems"(2), of p db1] "2.prems"(3) by auto
  have rest: "scored_dev e over l db1 q" if "q \<in> set ps" for q
  proof (rule scored_dev_same[of e over l db])
    show "scored_dev e over l db q" using "2.prems"(3) that by (auto simp: list_all_iff)
    have ne: "UpSN (PUp q) \<noteq> UpSN (PUp p)" using "2.prems"(4) that by (auto simp: image_iff)
    show "health_rows db1 (UpSN (PUp q)) = health_rows db (UpSN (PUp q))" "explains db1 (UpSN (PUp q)) = explains db (UpSN (PUp q))"
      "cfg_rows db1 = cfg_rows db" using commit_cases[OF c] ne by (auto simp: same_tables_def wrote_def)
  qed
  have qm: "Q (hcount n db1)" for n using same[OF q1] by simp
  have restm: "list_all (scored_dev e over l (hcount n db1)) ps" for n
    using rest by (auto simp: list_all_iff intro: scored_dev_same[of e over l db1])
  have d: "distinct (map (\<lambda>p. UpSN (PUp p)) ps)" using "2.prems"(4) by simp
  show ?case
  proof (cases res)
    case None
    then show ?thesis using "2.IH"(1)[OF c[symmetric] None] "2.prems"(1,5) c qm restm d by simp
  next
    case (Some sent)
    then show ?thesis using "2.IH"(2)[OF c[symmetric] Some] "2.prems"(1,5) c qm restm d by simp
  qed
qed simp

lemma by_device_distinct: "distinct (map fst (by_device only bs))"
  by (simp add: by_device_def Let_def comp_def)

lemma RunOnce_keeps:
  assumes "RunOnce op e only db = (rep, ok, db')" "Q db"
    and same: "\<And>d d'. Q d \<Longrightarrow> same_tables d d' \<Longrightarrow> Q d'"
    and wr: "\<And>p d d' bs over. Q d \<Longrightarrow> EBuckets e = Some bs \<Longrightarrow> EOvertemp e = Some over \<Longrightarrow> \<not> Fused rep \<Longrightarrow>
        scored_dev e over (by_device only bs) d p \<Longrightarrow> wrote op e p d d' \<Longrightarrow> Q d'"
  shows "Q db'"
proof (cases "EBuckets e = None \<or> EOvertemp e = None")
  case True
  then have "db' = hcount ''batch_errors'' db" using assms(1) by (auto simp: RunOnce_def split: option.splits)
  then show ?thesis using same[OF assms(2)] by simp
next
  case False
  then obtain bs over where eb: "EBuckets e = Some bs" "EOvertemp e = Some over" by auto
  obtain res rp db1 where sc: "score_all e over (by_device only bs) empty_report [] db = (res, rp, db1)" by (metis prod_cases3)
  obtain m where m: "db1 = db\<lparr>HealthM := m\<rparr>" using score_all_spec(1)[OF sc] by auto
  have q1: "Q db1" using same[OF assms(2)] m by simp
  show ?thesis
  proof (cases res)
    case None
    then show ?thesis using assms(1) eb sc q1 by (auto simp: RunOnce_def)
  next
    case (Some rq)
    obtain r qs where rq: "rq = (r, qs)" by fastforce
    obtain new where new: "qs = new" "distinct (map (\<lambda>p. UpSN (PUp p)) new)" "list_all (scored_dev e over (by_device only bs) db) new"
      using score_all_spec(2)[OF sc _ by_device_distinct, of r qs] Some rq by auto
    let ?rep = "r\<lparr>Total := Skipped r + length qs\<rparr>"
    show ?thesis
    proof (cases "ShouldFuseBatch (Skipped ?rep) (Total ?rep) (OFuseRatio op)")
      case True
      then show ?thesis using assms(1) eb sc Some rq same[OF q1] by (auto simp: RunOnce_def Let_def same_tables_def)
    next
      case nf: False
      obtain rep2 db2 where w: "write_all op e qs ?rep db1 = (rep2, db2)" by fastforce
      have out: "db' = hcount ''batch_runs'' db2" "rep = rep2" using assms(1) eb sc Some rq nf w by (auto simp: RunOnce_def Let_def)
      have r0: "Fused r = False" using score_all_fused[OF sc[unfolded Some rq]] by (simp add: empty_report_def)
      have "Fused rep2 = Fused ?rep" using write_all_fused[OF w] .
      then have nfr: "\<not> Fused rep" using out r0 by simp
      have "list_all (scored_dev e over (by_device only bs) db1) qs"
        using new by (auto simp: list_all_iff m intro: scored_dev_same[of e over "by_device only bs" db])
      moreover have "distinct (map (\<lambda>p. UpSN (PUp p)) qs)" using new(1,2) by simp
      ultimately have "Q db2" by (rule write_all_keeps[where Q=Q, OF w q1]) (erule same, assumption, rule wr[OF _ eb nfr])
      then show ?thesis using same out(1) by simp
    qed
  qed
qed

end
