(* ===== verification/HealthFlow.thy ===== *)
theory HealthFlow
  imports HealthSafety
begin

text \<open>
  Runs of the health service: rounds one after another (\<open>runMu\<close> in the process, the advisory lock between replicas), with whatever the
  handlers do in between, and the properties of the tables they reach.
\<close>

subsection \<open>Runs\<close>

text \<open>
  Readings are finite, shares are counts of rows divided by their number in the hour, and configurations satisfy the checks of the table
  (and are finite).
\<close>

definition share_ok :: "f64 option \<Rightarrow> bool" where
  "share_ok x \<longleftrightarrow> (case x of None \<Rightarrow> True | Some y \<Rightarrow> \<exists>s. y = Fin s \<and> (s = 0 \<or> (1 / 2 ^ 40 \<le> s \<and> s \<le> 1)))"

definition bucket_ok :: "Bucket \<Rightarrow> bool" where
  "bucket_ok b \<longleftrightarrow> share_ok (ShareLow b) \<and> share_ok (ShareMid b) \<and> share_ok (ShareHigh b) \<and> LaserHours b \<notin> {Some PInf, Some NInf, Some NaN}"

definition env_ok :: "HealthEnv \<Rightarrow> bool" where
  "env_ok e \<longleftrightarrow> (case EBuckets e of None \<Rightarrow> True | Some bs \<Rightarrow> list_all bucket_ok bs) \<and>
     (case EOvertemp e of None \<Rightarrow> True | Some over \<Rightarrow> \<forall>sn. over sn < 2 ^ 53)"

definition weight_ok :: "f64 \<Rightarrow> bool" where "weight_ok x \<longleftrightarrow> (\<exists>a. x = Fin a \<and> 1 / 2 \<le> a \<and> a \<le> 3)"

definition cfg_ok :: "HCfg \<Rightarrow> bool" where
  "cfg_ok c \<longleftrightarrow> (\<exists>q. Rated c = Fin q \<and> 0 < q) \<and> weight_ok (WLow c) \<and> weight_ok (WMid c) \<and> weight_ok (WHigh c) \<and>
     (\<exists>p. OvertempPenalty c = Fin p \<and> 0 \<le> p \<and> p \<le> 10)"

inductive health_step :: "HealthOptions \<Rightarrow> HealthDb \<Rightarrow> HealthDb \<Rightarrow> bool" for op where
  round: "env_ok e \<Longrightarrow> RunOnce op e only db = (rep, ok, db') \<Longrightarrow> health_step op db db'"
| handlers: "health_step op db (db\<lparr>attributions := a, codes := c, scans := s, HealthM := m\<rparr>)"
| settings: "list_all (\<lambda>(pk, mdl, c). cfg_ok c) cfgs \<Longrightarrow> health_step op db (db\<lparr>cfg_rows := cfgs, skus := k, materials := i\<rparr>)"

definition empty_health :: "HealthDb \<Rightarrow> bool" where
  "empty_health db \<longleftrightarrow> health_rows db = Map.empty \<and> explains db = Map.empty \<and> swaps db = [] \<and> reminders db = [] \<and> attributions db = Map.empty \<and>
     cfg_rows db = [] \<and> codes db = [] \<and> scans db = []"

inductive health_reach :: "HealthOptions \<Rightarrow> HealthDb \<Rightarrow> bool" for op where
  start: "empty_health db \<Longrightarrow> health_reach op db"
| step: "health_reach op db \<Longrightarrow> health_step op db db' \<Longrightarrow> health_reach op db'"

lemma health_reach_steps: "(health_step op)\<^sup>*\<^sup>* db db' \<Longrightarrow> health_reach op db \<Longrightarrow> health_reach op db'"
  by (induction rule: rtranclp_induct) (auto intro: health_reach.step)

text \<open>What the scoring says of a pending write, in terms of the tables it came from.\<close>

definition swapped_of :: "pending \<Rightarrow> bool" where "swapped_of p \<longleftrightarrow> UpSwap (PUp p) \<noteq> None"

definition levels_of :: "string \<Rightarrow> HealthDb \<Rightarrow> int list" where
  "levels_of sn db = (case explains db sn of None \<Rightarrow> [] | Some x \<Rightarrow> LevelsSent x)"

lemma Cfg_metrics [simp]: "Cfg pk mdl (db\<lparr>HealthM := m\<rparr>) = Cfg pk mdl db"
  by (simp add: Cfg_def)

definition counted :: "HCfg \<Rightarrow> HealthDb \<Rightarrow> pending \<Rightarrow> Bucket list \<Rightarrow> metrics \<Rightarrow> scoring" where
  "counted cfg db p bs m = count_hours cfg (explains db (UpSN (PUp p))) (swapped_of p) (new_buckets (explains db (UpSN (PUp p))) bs) m"

lemma scored_devE:
  assumes "scored_dev e over l db p"
  obtains bs rep cfg m where "(UpSN (PUp p), bs) \<in> set l" "EShadow e (UpSN (PUp p)) = Some rep"
    "module_of (explains db (UpSN (PUp p))) rep \<noteq> []"
    "Cfg (BProductKey (hd bs)) (module_of (explains db (UpSN (PUp p))) rep) db = Some cfg"
    "list_ex (\<lambda>b. LaserHours b \<noteq> None) (new_buckets (explains db (UpSN (PUp p))) bs)"
    "HRHealth (UpRow (PUp p)) = fst (Monotonic (before (health_rows db (UpSN (PUp p))) (swapped_of p))
       (fst (HealthScore (UsedSum (counted cfg db p bs m)) (Rated cfg) (over (UpSN (PUp p))) cfg)) (swapped_of p))"
    "PPrevHealth p = (if fle (Fin 0) (before (health_rows db (UpSN (PUp p))) (swapped_of p)) then before (health_rows db (UpSN (PUp p))) (swapped_of p) else Fin 101)"
    "UpLevels (PUp p) = (if swapped_of p then [] else levels_of (UpSN (PUp p)) db)"
    "UsedWeighted (UpExplain (PUp p)) = UsedSum (counted cfg db p bs m)" "LastHours (UpExplain (PUp p)) = PrevHours (counted cfg db p bs m)"
    "\<And>sw. UpSwap (PUp p) = Some sw \<Longrightarrow> SwSN sw = UpSN (PUp p)"
proof -
  obtain bs m m' where sc: "(UpSN (PUp p), bs) \<in> set l" "scoreDevice e (UpSN (PUp p)) bs (over (UpSN (PUp p))) (db\<lparr>HealthM := m\<rparr>) = (Scored p, m')"
    using assms by (auto simp: scored_dev_def)
  obtain rep cfg swap where f: "EShadow e (UpSN (PUp p)) = Some rep"
    "module_of (explains db (UpSN (PUp p))) rep \<noteq> []"
    "Cfg (BProductKey (hd bs)) (module_of (explains db (UpSN (PUp p))) rep) db = Some cfg"
    "list_ex (\<lambda>b. LaserHours b \<noteq> None) (new_buckets (explains db (UpSN (PUp p))) bs)"
    "finish_score (UpSN (PUp p)) (ENow e) (over (UpSN (PUp p))) cfg (health_rows db (UpSN (PUp p))) (explains db (UpSN (PUp p))) rep
       (BProductKey (hd bs)) (module_of (explains db (UpSN (PUp p))) rep) swap bs (new_buckets (explains db (UpSN (PUp p))) bs)
       (count_hours cfg (explains db (UpSN (PUp p))) (swap \<noteq> None) (new_buckets (explains db (UpSN (PUp p))) bs) m) = (Scored p, m')"
    using sc(2) by (rule scoreDevice_Scored) simp
  note g = finish_score_Scored[OF f(5)]
  have sw: "(swap \<noteq> None) = swapped_of p" using g(6) by (simp add: swapped_of_def)
  show ?thesis
  proof (rule that[OF sc(1) f(1-4)])
    show "UpLevels (PUp p) = (if swapped_of p then [] else levels_of (UpSN (PUp p)) db)"
      using g(5) sw by (auto simp: levels_of_def split: option.splits)
  qed (use g sw in \<open>simp_all add: counted_def\<close>)
qed

lemma scored_levels: "scored_dev e over l db p \<Longrightarrow> UpLevels (PUp p) = (if swapped_of p then [] else levels_of (UpSN (PUp p)) db)"
  by (erule scored_devE)

lemma scored_swap_sn: "scored_dev e over l db p \<Longrightarrow> UpSwap (PUp p) = Some sw \<Longrightarrow> SwSN sw = UpSN (PUp p)"
  by (erule scored_devE) blast

lemma wrote_swaps:
  assumes "scored_dev e over l d p" "wrote op e p d d'"
  shows "\<exists>k. swaps d' = swaps d @ k \<and> (\<forall>sw\<in>set k. SwSN sw = UpSN (PUp p)) \<and> (k = [] \<longleftrightarrow> \<not> swapped_of p)"
proof (cases "UpSwap (PUp p)")
  case None
  then show ?thesis using assms(2) by (auto simp: wrote_def swapped_of_def)
next
  case (Some sw)
  then obtain sw' where "SwSN sw' = SwSN sw" "swaps d' = swaps d @ [sw']" using assms(2) by (auto simp: wrote_def)
  then show ?thesis using scored_swap_sn[OF assms(1) Some] Some by (auto simp: swapped_of_def)
qed

lemma decision_send:
  assumes "Action (decision_of op p now db) = ActionSend"
  shows "DLevel (decision_of op p now db) \<in> {20, 50, 80}" "DLevel (decision_of op p now db) \<notin> set (UpLevels (PUp p))"
    "flt (Fin (of_int (DLevel (decision_of op p now db)))) (PPrevHealth p)"
    "LastSentAt (UpSN (PUp p)) ''module'' db = Some t \<Longrightarrow> 0 < OCooldown op \<Longrightarrow> OCooldown op \<le> now - t"
proof -
  note d = DecideReminder_send[OF assms[unfolded decision_of_def], folded decision_of_def]
  have "crossed (PPrevHealth p) (HRHealth (UpRow (PUp p))) (UpLevels (PUp p)) = DLevel (decision_of op p now db)" using d(1) by simp
  from crossed_level[OF this d(2)]
  show "DLevel (decision_of op p now db) \<in> {20, 50, 80}" "DLevel (decision_of op p now db) \<notin> set (UpLevels (PUp p))"
    "flt (Fin (of_int (DLevel (decision_of op p now db)))) (PPrevHealth p)" by auto
  show "OCooldown op \<le> now - t" if "LastSentAt (UpSN (PUp p)) ''module'' db = Some t" "0 < OCooldown op"
    using d(4) that by (auto simp: tsub_def)
qed

subsection \<open>Reminders are a cooldown apart\<close>

definition apart :: "duration \<Rightarrow> Reminder \<Rightarrow> Reminder \<Rightarrow> bool" where
  "apart cd a b \<longleftrightarrow> (RSN a = RSN b \<and> RPart a = RPart b \<longrightarrow>
     (case (SentAt a, SentAt b) of (Some t, Some u) \<Rightarrow> cd \<le> \<bar>u - t\<bar> | _ \<Rightarrow> True))"

definition micros :: "Reminder list \<Rightarrow> bool" where
  "micros rs \<longleftrightarrow> list_all (\<lambda>r. case SentAt r of None \<Rightarrow> True | Some t \<Rightarrow> t mod 1000 = 0) rs"

lemma latest_max: "t \<in> set ts \<Longrightarrow> \<exists>u. latest ts = Some u \<and> t \<le> u"
  by (induction ts) (auto split: option.splits)

lemma LastSentAt_max:
  assumes "r \<in> set (reminders db)" "RSN r = sn" "RPart r = part" "SentAt r = Some t"
  shows "\<exists>u. LastSentAt sn part db = Some u \<and> t \<le> u"
proof -
  have "t \<in> set (List.map_filter SentAt (filter (\<lambda>r. RSN r = sn \<and> RPart r = part) (reminders db)))"
    using assms by (force simp: List.map_filter_def)
  then show ?thesis unfolding LastSentAt_def by (rule latest_max)
qed

lemma pgtime_ge:
  assumes "cd \<le> now - t" "t mod 1000 = 0" "cd mod 1000 = 0"
  shows "cd \<le> pgtime now - t"
proof -
  obtain a b where "t = 1000 * a" "cd = 1000 * b" using assms(2,3) mod_0_imp_dvd by (fastforce elim: dvdE)
  then have "1000 * (a + b) \<le> now" using assms(1) by simp
  then have "1000 * (a + b) div 1000 \<le> now div 1000" by (rule zdiv_mono1) simp
  then have "a + b \<le> now div 1000" by simp
  then show ?thesis using \<open>t = 1000 * a\<close> \<open>cd = 1000 * b\<close> by (simp add: pgtime_def)
qed

lemma wrote_spaced:
  assumes "sorted_wrt (apart (OCooldown op)) (reminders d) \<and> micros (reminders d)" "wrote op e p d d'" "0 < OCooldown op" "OCooldown op mod 1000 = 0"
  shows "sorted_wrt (apart (OCooldown op)) (reminders d') \<and> micros (reminders d')"
proof (cases "reminders d' = reminders d")
  case False
  let ?dec = "decision_of op p (ENow e) d"
  obtain row where row: "reminders d' = reminders d @ [row]" "RSN row = UpSN (PUp p)" "RPart row = ''module''"
    "SentAt row = (if Action ?dec = ActionSend then Some (pgtime (ENow e)) else None)"
    using assms(2) False by (auto simp: wrote_def)
  have "apart (OCooldown op) r row" if r: "r \<in> set (reminders d)" for r
  proof (cases "Action ?dec = ActionSend \<and> RSN r = RSN row \<and> RPart r = RPart row \<and> SentAt r \<noteq> None")
    case True
    then obtain t where t: "SentAt r = Some t" by auto
    then obtain u where u: "LastSentAt (UpSN (PUp p)) ''module'' d = Some u" "t \<le> u"
      using LastSentAt_max[OF r, of "UpSN (PUp p)" "''module''" t] True row by auto
    have "OCooldown op \<le> ENow e - u" using decision_send(4)[OF _ u(1) assms(3)] True by blast
    then have "OCooldown op \<le> ENow e - t" using u(2) by linarith
    moreover have "t mod 1000 = 0" using assms(1) r t by (auto simp: micros_def list_all_iff)
    ultimately have "OCooldown op \<le> pgtime (ENow e) - t" using assms(4) by (rule pgtime_ge)
    then show ?thesis using t row(4) True by (simp add: apart_def)
  qed (auto simp: apart_def row(4) split: option.splits)
  then show ?thesis using assms(1) row by (auto simp: sorted_wrt_append micros_def pgtime_def)
qed (use assms(1) in simp)

text \<open>
  In every run two reminders that were sent for the same part of a device are at least a cooldown apart, whatever the clock does, whatever statements
  fail or lose their answer.
\<close>

theorem reminders_spaced:
  assumes "health_reach op db" "0 < OCooldown op" "OCooldown op mod 1000 = 0"
    "i < j" "j < length (reminders db)" "RSN (reminders db ! i) = RSN (reminders db ! j)" "RPart (reminders db ! i) = RPart (reminders db ! j)"
    "SentAt (reminders db ! i) = Some t" "SentAt (reminders db ! j) = Some u"
  shows "OCooldown op \<le> \<bar>u - t\<bar>"
proof -
  let ?Q = "\<lambda>d. sorted_wrt (apart (OCooldown op)) (reminders d) \<and> micros (reminders d)"
  have "?Q db"
    using assms(1)
  proof (induction rule: health_reach.induct)
    case (step d d')
    from step.hyps(2) show ?case
    proof cases
      case (round e only rep ok)
      show ?thesis
        by (rule RunOnce_keeps[where Q="?Q", OF round(2) step.IH])
          (simp add: same_tables_def, erule wrote_spaced, assumption, rule assms(2), rule assms(3))
    qed (use step.IH in simp_all)
  qed (simp add: empty_health_def micros_def)
  then have "apart (OCooldown op) (reminders db ! i) (reminders db ! j)" using assms(4,5) by (simp add: sorted_wrt_iff_nth_less)
  then show ?thesis using assms(6-9) by (simp add: apart_def)
qed

subsection \<open>A level once in the life of a module\<close>

definition sent_for :: "string \<Rightarrow> int \<Rightarrow> HealthDb \<Rightarrow> nat" where
  "sent_for sn l db = length (filter (\<lambda>r. RSN r = sn \<and> RLevel r = FormatInt l \<and> SentAt r \<noteq> None) (reminders db))"

definition swaps_of :: "string \<Rightarrow> HealthDb \<Rightarrow> Swap list" where "swaps_of sn db = filter (\<lambda>s. SwSN s = sn) (swaps db)"

definition known_levels :: "HealthDb \<Rightarrow> bool" where "known_levels db \<longleftrightarrow> (\<forall>sn. set (levels_of sn db) \<subseteq> {20, 50, 80})"

lemma stored_levels:
  assumes "stored_explain num x levels = Some y" "set levels \<subseteq> {20, 50, 80}"
  shows "set (LevelsSent y) = set levels"
proof -
  have "LevelsText y = FormatLevels levels" using assms(1) by (auto simp: stored_explain_def split: if_splits option.splits)
  moreover have "- (2 ^ 63) \<le> i \<and> i < 2 ^ 63" if "i \<in> set levels" for i :: int using that assms(2) by auto
  ultimately show ?thesis using levels_roundtrip[of levels] by (simp add: LevelsSent_def)
qed

text \<open>The levels of a device after a write: those it had in this life, and the one that was sent.\<close>

lemma wrote_levels:
  assumes "scored_dev e over l d p" "wrote op e p d d'" "known_levels d"
  shows "set (levels_of (UpSN (PUp p)) d') = (if swapped_of p then {} else set (levels_of (UpSN (PUp p)) d)) \<union>
      (if Action (decision_of op p (ENow e) d) = ActionSend then {DLevel (decision_of op p (ENow e) d)} else {})"
    "sn \<noteq> UpSN (PUp p) \<Longrightarrow> levels_of sn d' = levels_of sn d" "known_levels d'"
proof -
  let ?sn = "UpSN (PUp p)" and ?dec = "decision_of op p (ENow e) d"
  obtain x where x: "stored_explain (ONumeric op) (UpExplain (PUp p)) (levels_after ?dec p) = Some x" "explains d' = (explains d)(?sn \<mapsto> x)"
    using assms(2) by (auto simp: wrote_def)
  have up: "UpLevels (PUp p) = (if swapped_of p then [] else levels_of ?sn d)" using scored_levels[OF assms(1)] .
  have k: "set (levels_after ?dec p) \<subseteq> {20, 50, 80}"
    using assms(3) decision_send(1)[of op p "ENow e" d] by (auto simp: levels_after_def up known_levels_def)
  have "levels_of ?sn d' = LevelsSent x" using x(2) by (simp add: levels_of_def)
  then have own: "set (levels_of ?sn d') = set (levels_after ?dec p)" using stored_levels[OF x(1) k] by simp
  then show "set (levels_of ?sn d') = (if swapped_of p then {} else set (levels_of ?sn d)) \<union> (if Action ?dec = ActionSend then {DLevel ?dec} else {})"
    by (auto simp: levels_after_def up)
  have other: "levels_of sn d' = levels_of sn d" if "sn \<noteq> ?sn" for sn using x(2) that by (simp add: levels_of_def)
  then show "sn \<noteq> ?sn \<Longrightarrow> levels_of sn d' = levels_of sn d" .
  have "set (levels_of s d') \<subseteq> {20, 50, 80}" for s using assms(3) own other[of s] k by (cases "s = ?sn") (auto simp: known_levels_def)
  then show "known_levels d'" by (simp add: known_levels_def)
qed

lemma FormatInt_level: "a \<in> {20, 50, 80} \<Longrightarrow> b \<in> {20, 50, 80} \<Longrightarrow> FormatInt a = FormatInt b \<Longrightarrow> a = (b :: int)"
proof -
  assume r: "a \<in> {20, 50, 80}" "b \<in> {20, 50, 80}" "FormatInt a = FormatInt b"
  have "Some a = Some b" using r ParseInt_FormatInt[of a] ParseInt_FormatInt[of b] by fastforce
  then show "a = b" by simp
qed

text \<open>Since \<open>db0\<close>: as long as the device kept its module, the level was sent once more at most, and then it is among the levels kept.\<close>

definition once_since :: "string \<Rightarrow> int \<Rightarrow> HealthDb \<Rightarrow> HealthDb \<Rightarrow> bool" where
  "once_since sn l db0 d \<longleftrightarrow> known_levels d \<and> (\<exists>k. swaps d = swaps db0 @ k \<and> (filter (\<lambda>s. SwSN s = sn) k = [] \<longrightarrow>
     sent_for sn l d + (if l \<in> set (levels_of sn db0) then 1 else 0) \<le> sent_for sn l db0 + (if l \<in> set (levels_of sn d) then 1 else 0)))"

lemma wrote_once:
  assumes "once_since sn l db0 d" "scored_dev e over ll d p" "wrote op e p d d'" "l \<in> {20, 50, 80}"
  shows "once_since sn l db0 d'"
proof -
  let ?dec = "decision_of op p (ENow e) d"
  have kl: "known_levels d" using assms(1) by (simp add: once_since_def)
  obtain k where k: "swaps d = swaps db0 @ k" and bound: "filter (\<lambda>s. SwSN s = sn) k = [] \<longrightarrow>
      sent_for sn l d + (if l \<in> set (levels_of sn db0) then 1 else 0) \<le> sent_for sn l db0 + (if l \<in> set (levels_of sn d) then 1 else 0)"
    using assms(1) by (auto simp: once_since_def)
  obtain k2 where k2: "swaps d' = swaps d @ k2" "\<forall>sw\<in>set k2. SwSN sw = UpSN (PUp p)" "k2 = [] \<longleftrightarrow> \<not> swapped_of p"
    using wrote_swaps[OF assms(2,3)] by auto
  note lev = wrote_levels[OF assms(2,3) kl]
  have rem: "sent_for sn l d' \<le> sent_for sn l d + (if sn = UpSN (PUp p) \<and> Action ?dec = ActionSend \<and> DLevel ?dec = l then 1 else 0)"
  proof (cases "reminders d' = reminders d")
    case False
    then obtain row where row: "reminders d' = reminders d @ [row]" "RSN row = UpSN (PUp p)" "RLevel row = FormatInt (DLevel ?dec)"
      "SentAt row = (if Action ?dec = ActionSend then Some (pgtime (ENow e)) else None)" using assms(3) by (auto simp: wrote_def)
    then show ?thesis using FormatInt_level[of "DLevel ?dec" l] decision_send(1)[of op p "ENow e" d] assms(4) by (auto simp: sent_for_def)
  qed (simp add: sent_for_def)
  have "sent_for sn l d' + (if l \<in> set (levels_of sn db0) then 1 else 0) \<le> sent_for sn l db0 + (if l \<in> set (levels_of sn d') then 1 else 0)"
    if none: "filter (\<lambda>s. SwSN s = sn) (k @ k2) = []"
  proof (cases "sn = UpSN (PUp p)")
    case True
    have ns: "\<not> swapped_of p" using none k2 True by (cases k2) auto
    have new: "l \<notin> set (levels_of sn d)" if "Action ?dec = ActionSend" "DLevel ?dec = l"
      using decision_send(2)[OF that(1)] scored_levels[OF assms(2)] ns that(2) True by simp
    show ?thesis using bound none rem new lev(1) ns True by (auto split: if_splits)
  next
    case False
    then show ?thesis using bound none rem lev(2)[of sn] by auto
  qed
  then show ?thesis using lev(3) k k2(1) unfolding once_since_def by (intro conjI exI[of _ "k @ k2"]) auto
qed

lemma once_same_tables: "once_since sn l db0 d \<Longrightarrow> same_tables d d' \<Longrightarrow> once_since sn l db0 d'"
  by (simp add: once_since_def same_tables_def known_levels_def levels_of_def sent_for_def)

lemma known_levels_reach: "health_reach op db \<Longrightarrow> known_levels db"
proof (induction rule: health_reach.induct)
  case (step d d')
  from step.hyps(2) show ?case
  proof cases
    case (round e only rep ok)
    show ?thesis
      by (rule RunOnce_keeps[where Q=known_levels, OF round(2) step.IH])
        (simp add: known_levels_def levels_of_def same_tables_def, erule wrote_levels(3)[rotated -1])
  qed (use step.IH in \<open>simp_all add: known_levels_def levels_of_def\<close>)
qed (simp add: empty_health_def known_levels_def levels_of_def)

text \<open>
  Between two changes of its module a device is reminded of each level at most once, and not at all of one already among the levels
  kept for it, whatever statements fail or lose their answers.
\<close>

theorem level_once_per_module:
  assumes "health_reach op db0" "(health_step op)\<^sup>*\<^sup>* db0 db" "swaps_of sn db = swaps_of sn db0" "l \<in> {20, 50, 80}"
  shows "sent_for sn l db \<le> sent_for sn l db0 + (if l \<in> set (levels_of sn db0) then 0 else 1)"
proof -
  have "once_since sn l db0 db"
    using assms(2)
  proof (induction rule: rtranclp_induct)
    case base
    show ?case using known_levels_reach[OF assms(1)] by (auto simp: once_since_def)
  next
    case (step d d')
    from step.hyps(2) show ?case
    proof cases
      case (round e only rep ok)
      show ?thesis
        by (rule RunOnce_keeps[where Q="once_since sn l db0", OF round(2) step.IH])
          (erule once_same_tables, assumption, erule wrote_once, assumption, assumption, rule assms(4))
    next
      case (handlers a c s m)
      then show ?thesis using step.IH by (simp add: once_since_def known_levels_def levels_of_def sent_for_def)
    next
      case (settings cfgs k i)
      then show ?thesis using step.IH by (simp add: once_since_def known_levels_def levels_of_def sent_for_def)
    qed
  qed
  then obtain k where k: "swaps db = swaps db0 @ k" "filter (\<lambda>s. SwSN s = sn) k = [] \<longrightarrow>
     sent_for sn l db + (if l \<in> set (levels_of sn db0) then 1 else 0) \<le> sent_for sn l db0 + (if l \<in> set (levels_of sn db) then 1 else 0)"
    by (auto simp: once_since_def)
  have "filter (\<lambda>s. SwSN s = sn) k = []" using assms(3) k(1) by (simp add: swaps_of_def)
  then show ?thesis using k(2) by (auto split: if_splits)
qed

subsection \<open>The weighted hours stay numbers\<close>

definition small_share :: "f64 \<Rightarrow> bool" where "small_share x \<longleftrightarrow> (\<exists>s. x = Fin s \<and> (s = 0 \<or> (1 / 2 ^ 40 \<le> s \<and> s \<le> 1)))"

lemma rnd_tiny: "rnd (1 / 2 ^ 40) = 1 / 2 ^ 40"
proof -
  have "rnd_pos (1 / 2 ^ 40) = 1 / 2 ^ 40" by (rule rnd_pos_exact[of _ 1 "- 40"]) (simp_all add: power_int_minus power_int_def power_divide)
  then show ?thesis by (simp add: rnd_def)
qed

lemma rnd_whole: "0 \<le> n \<Longrightarrow> n < 2 ^ 53 \<Longrightarrow> rnd (of_int n) = of_int n" for n :: int
  by (rule rnd_of_int) simp

lemma huge_less: "0 \<le> a \<Longrightarrow> a < 2 ^ 53 \<Longrightarrow> a < (2 :: rat) ^ 1024"
proof -
  assume a: "a < 2 ^ 53"
  have "(2 :: rat) ^ 53 \<le> 2 ^ 1024" by (rule power_increasing) auto
  then show "a < 2 ^ 1024" using a by linarith
qed

text \<open>A value between two whole numbers stays between them.\<close>

lemma of_rat64_whole:
  assumes "0 \<le> x" "x \<le> of_int n" "n < 2 ^ 53"
  shows "\<exists>r. of_rat64 x = Fin r \<and> 0 \<le> r \<and> r \<le> of_int n"
proof -
  have n: "0 \<le> n" using assms(1,2) by (metis of_int_0_le_iff order_trans)
  have "(of_int n :: rat) < of_int (2 ^ 53)" using assms(3) by (simp only: of_int_less_iff)
  then have "(of_int n :: rat) < 2 ^ 1024" using n by (intro huge_less) simp_all
  then show ?thesis using of_rat64_between[of 0 x "of_int n"] assms rnd_whole[OF n assms(3)] by auto
qed

lemma fadd_whole:
  assumes "0 \<le> a" "a \<le> of_int m" "0 \<le> b" "b \<le> of_int n" "m + n < 2 ^ 53"
  shows "\<exists>r. fadd (Fin a) (Fin b) = Fin r \<and> 0 \<le> r \<and> r \<le> of_int (m + n)"
  using of_rat64_whole[of "a + b" "m + n"] assms by (simp add: fadd_def)

lemma fmul_share:
  assumes "0 \<le> a" "a \<le> 1" "0 \<le> b" "b \<le> of_int n" "n < 2 ^ 53"
  shows "\<exists>r. fmul (Fin a) (Fin b) = Fin r \<and> 0 \<le> r \<and> r \<le> of_int n"
proof -
  have "a * b \<le> 1 * b" using assms by (intro mult_right_mono) auto
  then show ?thesis using of_rat64_whole[of "a * b" n] assms by (simp add: fmul_def)
qed

lemma fadd_lower:
  assumes "c \<le> a \<or> c \<le> b" "0 \<le> a" "0 \<le> b" "c = 1 / 2 ^ 40" "fadd (Fin a) (Fin b) = Fin r"
  shows "c \<le> r"
proof -
  have r: "r = rnd (a + b)" using assms(5) by (auto simp: fadd_def of_rat64_def Let_def split: if_splits)
  have "c \<le> a + b" using assms(1-3) by linarith
  then have "rnd c \<le> rnd (a + b)" by (rule rnd_mono)
  then show ?thesis using r rnd_tiny assms(4) by simp
qed

lemma small_share_bounds: "small_share x \<Longrightarrow> \<exists>s. x = Fin s \<and> 0 \<le> s \<and> s \<le> 1 \<and> (s = 0 \<or> 1 / 2 ^ 40 \<le> s)"
  by (auto simp: small_share_def intro: order_trans[rotated])

lemma weight_fin:
  assumes "small_share lo" "small_share mid" "small_share hi" "cfg_ok cfg"
  shows "\<exists>w. weight lo mid hi cfg = Fin w \<and> 0 \<le> w \<and> w \<le> 17592186044416"
proof (cases "fle (fadd (fadd lo mid) hi) (Fin 0)")
  case True
  then show ?thesis by (simp add: weight_def)
next
  case False
  obtain a where a: "lo = Fin a" "0 \<le> a" "a \<le> 1" "a = 0 \<or> 1 / 2 ^ 40 \<le> a" using small_share_bounds[OF assms(1)] by auto
  obtain b where b: "mid = Fin b" "0 \<le> b" "b \<le> 1" "b = 0 \<or> 1 / 2 ^ 40 \<le> b" using small_share_bounds[OF assms(2)] by auto
  obtain c where c: "hi = Fin c" "0 \<le> c" "c \<le> 1" "c = 0 \<or> 1 / 2 ^ 40 \<le> c" using small_share_bounds[OF assms(3)] by auto
  obtain u v w where w: "WLow cfg = Fin u" "0 \<le> u" "u \<le> 3" "WMid cfg = Fin v" "0 \<le> v" "v \<le> 3" "WHigh cfg = Fin w" "0 \<le> w" "w \<le> 3"
    using assms(4) by (auto simp: cfg_ok_def weight_ok_def)
  obtain s1 where s1: "fadd lo mid = Fin s1" "0 \<le> s1" "s1 \<le> 2" using fadd_whole[of a 1 b 1] a b by auto
  obtain s where s: "fadd (fadd lo mid) hi = Fin s" "0 \<le> s" "s \<le> 3" using fadd_whole[of s1 2 c 1] s1 c by auto
  have pos: "0 < s" using False s by simp
  have "1 / 2 ^ 40 \<le> s"
  proof (cases "c = 0 \<and> a = 0 \<and> b = 0")
    case True
    then have "s1 = 0" using s1(1) a b by (simp add: fadd_def of_rat64_def)
    then have "s = 0" using s(1) s1(1) c True by (simp add: fadd_def of_rat64_def)
    then show ?thesis using pos by simp
  next
    case False
    then have "1 / 2 ^ 40 \<le> s1 \<or> 1 / 2 ^ 40 \<le> c"
      using fadd_lower[OF _ a(2) b(2) refl, of s1] s1(1) a b c by fastforce
    then show ?thesis using fadd_lower[of "1 / 2 ^ 40" s1 c s] s1 s c by simp
  qed
  obtain x where x: "fmul lo (WLow cfg) = Fin x" "0 \<le> x" "x \<le> 3" using fmul_share[of a u 3] a w by auto
  obtain y where y: "fmul mid (WMid cfg) = Fin y" "0 \<le> y" "y \<le> 3" using fmul_share[of b v 3] b w by auto
  obtain z where z: "fmul hi (WHigh cfg) = Fin z" "0 \<le> z" "z \<le> 3" using fmul_share[of c w 3] c w by auto
  obtain t1 where t1: "fadd (Fin x) (Fin y) = Fin t1" "0 \<le> t1" "t1 \<le> 6" using fadd_whole[of x 3 y 3] x y by auto
  obtain t where t: "fadd (Fin t1) (Fin z) = Fin t" "0 \<le> t" "t \<le> 9" using fadd_whole[of t1 6 z 3] t1 z by auto
  have "t / s \<le> 9 / (1 / 2 ^ 40)" using t(2,3) \<open>1 / 2 ^ 40 \<le> s\<close> by (intro frac_le) auto
  then have "t / s \<le> of_int 17592186044416" by simp
  moreover have "0 \<le> t / s" using t pos by simp
  ultimately obtain r where "of_rat64 (t / s) = Fin r" "0 \<le> r" "r \<le> 17592186044416" using of_rat64_whole[of "t / s" 17592186044416] by auto
  then show ?thesis using False pos s x y z t1 t by (simp add: weight_def fdiv_def)
qed

lemma WeightedHours_fin:
  assumes "delta \<noteq> NaN" "small_share lo" "small_share mid" "small_share hi" "cfg_ok cfg"
  shows "\<exists>w. fst (WeightedHours delta lo mid hi cfg) = Fin w \<and> 0 \<le> w"
proof -
  obtain w where w: "weight lo mid hi cfg = Fin w" "0 \<le> w" "w \<le> 17592186044416" using weight_fin[OF assms(2-5)] by auto
  have m: "\<exists>r. fmul (Fin d) (Fin w) = Fin r \<and> 0 \<le> r" if "0 \<le> d" "d \<le> 1" for d
    using fmul_share[of d w 17592186044416] that w by auto
  show ?thesis using assms(1) w(1) m[of 1] m by (cases delta) (auto simp: WeightedHours_def MaxBucketHours_def)
qed

lemma bucketShares_small:
  assumes "bucket_ok b" "bucketShares b = (lo, mid, hi)"
  shows "small_share lo \<and> small_share mid \<and> small_share hi"
proof -
  have z: "small_share (Fin 0)" "small_share (Fin 1)" by (simp_all add: small_share_def)
  have d: "small_share (deref x)" if "share_ok x" for x using that z by (cases x) (auto simp: share_ok_def deref_def small_share_def)
  show ?thesis using assms z d
    by (auto simp: bucketShares_def bucket_ok_def Let_def ShareFromAvgPower_def split: if_splits option.splits)
qed

definition sane_scoring :: "scoring \<Rightarrow> bool" where
  "sane_scoring s \<longleftrightarrow> UsedSum s \<noteq> NaN \<and> PrevHours s \<notin> {Some PInf, Some NInf, Some NaN}"

lemma score_bucket_sane:
  assumes "sane_scoring s" "bucket_ok b" "cfg_ok cfg"
  shows "sane_scoring (score_bucket cfg b s)"
proof (cases "LaserHours b")
  case (Some h)
  obtain a where a: "h = Fin a" using assms(2) Some by (cases h) (auto simp: bucket_ok_def)
  show ?thesis
  proof (cases "PrevHours s")
    case None
    then show ?thesis using Some a assms(1) by (simp add: score_bucket_def sane_scoring_def)
  next
    case p: (Some q)
    obtain c where c: "q = Fin c" using assms(1) p by (cases q) (auto simp: sane_scoring_def)
    obtain lo mid hi where sh: "bucketShares b = (lo, mid, hi)" by (metis prod_cases3)
    obtain w fl where wf: "WeightedHours (fsub h q) lo mid hi cfg = (w, fl)" by fastforce
    have "fsub h q \<noteq> NaN" by (simp add: a c fsub_def fadd_def)
    then obtain x where "w = Fin x" using WeightedHours_fin bucketShares_small[OF assms(2) sh] assms(3) wf by (metis fst_conv)
    moreover have "fadd u (Fin x) \<noteq> NaN" if "u \<noteq> NaN" for u using that by (cases u) (auto simp: fadd_def)
    ultimately show ?thesis using assms(1) Some p a sh wf by (simp add: score_bucket_def sane_scoring_def Let_def)
  qed
qed (use assms in \<open>simp add: score_bucket_def\<close>)

lemma fold_score_sane: "list_all bucket_ok bs \<Longrightarrow> cfg_ok cfg \<Longrightarrow> sane_scoring s \<Longrightarrow> sane_scoring (fold (score_bucket cfg) bs s)"
  by (induction bs arbitrary: s) (simp_all add: score_bucket_sane)

subsection \<open>Health is a percentage and falls\<close>

definition rows_ok :: "numeric \<Rightarrow> HealthDb \<Rightarrow> bool" where
  "rows_ok num d \<longleftrightarrow>
     (\<forall>sn r. health_rows d sn = Some r \<longrightarrow> (\<exists>h. HRHealth r = Fin h \<and> 0 \<le> h \<and> h \<le> 100) \<and> num 5 2 (HRHealth r) = Some (HRHealth r)) \<and>
     (\<forall>sn x. explains d sn = Some x \<longrightarrow> (\<exists>u. UsedWeighted x = Fin u) \<and> LastHours x \<notin> {Some PInf, Some NInf, Some NaN}) \<and>
     list_all (\<lambda>(pk, mdl, c). cfg_ok c) (cfg_rows d)"

lemma Cfg_ok:
  assumes "Cfg pk mdl d = Some c" "rows_ok num d"
  shows "cfg_ok c"
proof -
  obtain p m rest where s: "sort_key (\<lambda>(p, m, c). - CfgVersion c) (filter (\<lambda>(p, m, c). p = pk \<and> m = mdl) (cfg_rows d)) = (p, m, c) # rest"
    using assms(1) by (auto simp: Cfg_def split: list.splits)
  have "(p, m, c) \<in> set (sort_key (\<lambda>(p, m, c). - CfgVersion c) (filter (\<lambda>(p, m, c). p = pk \<and> m = mdl) (cfg_rows d)))"
    unfolding s by simp
  then have "(p, m, c) \<in> set (cfg_rows d)" by auto
  then show ?thesis using assms(2) by (auto simp: rows_ok_def list_all_iff)
qed

definition lower_or_swapped :: "string \<Rightarrow> HealthDb \<Rightarrow> HealthDb \<Rightarrow> bool" where
  "lower_or_swapped sn d d' \<longleftrightarrow>
     (case health_rows d sn of None \<Rightarrow> True | Some old \<Rightarrow> (case health_rows d' sn of None \<Rightarrow> False | Some r \<Rightarrow> fle (HRHealth r) (HRHealth old))) \<or>
     (\<exists>k. swaps d' = swaps d @ k \<and> filter (\<lambda>s. SwSN s = sn) k \<noteq> [])"

lemma wrote_falls:
  assumes "rows_ok num d" "scored_dev e over (by_device only bs) d p" "wrote op e p d d'" "list_all bucket_ok bs" "\<forall>sn. over sn < 2 ^ 53"
    "ONumeric op = num" "numeric_ok num"
  shows "rows_ok num d'" "lower_or_swapped (UpSN (PUp p)) d d'" "cfg_rows d' = cfg_rows d"
proof -
  let ?sn = "UpSN (PUp p)"
  from assms(3) obtain r x where r: "stored_row num (UpRow (PUp p)) = Some r" "health_rows d' = (health_rows d)(?sn \<mapsto> r)"
    and x: "stored_explain num (UpExplain (PUp p)) (levels_after (decision_of op p (ENow e) d) p) = Some x" "explains d' = (explains d)(?sn \<mapsto> x)"
    using assms(6) by (auto simp: wrote_def)
  show c: "cfg_rows d' = cfg_rows d" using assms(3) by (simp add: wrote_def)
  obtain dev rep cfg m where s: "(?sn, dev) \<in> set (by_device only bs)" "Cfg (BProductKey (hd dev)) (module_of (explains d ?sn) rep) d = Some cfg"
    "HRHealth (UpRow (PUp p)) = fst (Monotonic (before (health_rows d ?sn) (swapped_of p))
       (fst (HealthScore (UsedSum (counted cfg d p dev m)) (Rated cfg) (over ?sn) cfg)) (swapped_of p))"
    "UsedWeighted (UpExplain (PUp p)) = UsedSum (counted cfg d p dev m)" "LastHours (UpExplain (PUp p)) = PrevHours (counted cfg d p dev m)"
    using assms(2) by (rule scored_devE) metis
  have cfg: "cfg_ok cfg" using Cfg_ok[OF s(2) assms(1)] .
  have dev: "list_all bucket_ok (new_buckets (explains d ?sn) dev)"
    using s(1) assms(4) by (auto simp: by_device_def Let_def list_all_iff new_buckets_def)
  have ex: "\<exists>u. UsedWeighted y = Fin u" "LastHours y \<notin> {Some PInf, Some NInf, Some NaN}" if "explains d ?sn = Some y" for y
    using assms(1) that unfolding rows_ok_def by blast+
  have sane: "sane_scoring (counted cfg d p dev m)"
    unfolding counted_def count_hours_def using ex by (intro fold_score_sane[OF dev cfg]) (auto simp: sane_scoring_def split: option.splits)
  obtain q pen where q: "Rated cfg = Fin q" "0 < q" "OvertempPenalty cfg = Fin pen" "0 \<le> pen" using cfg by (auto simp: cfg_ok_def)
  let ?score = "fst (HealthScore (UsedSum (counted cfg d p dev m)) (Rated cfg) (over ?sn) cfg)"
  obtain sc where sc: "?score = Fin sc" "0 \<le> sc" "sc \<le> 100"
    using score_range[OF q(2,3,4), of "UsedSum (counted cfg d p dev m)" "over ?sn"] sane assms(5) q(1) by (auto simp: sane_scoring_def)
  have bef: "before (health_rows d ?sn) (swapped_of p) = Fin (- 1) \<or>
      (\<exists>old h. health_rows d ?sn = Some old \<and> \<not> swapped_of p \<and> before (health_rows d ?sn) (swapped_of p) = HRHealth old \<and> HRHealth old = Fin h \<and> 0 \<le> h \<and> h \<le> 100)"
    using assms(1) unfolding before_def rows_ok_def by (cases "health_rows d ?sn") auto
  obtain v where v: "HRHealth (UpRow (PUp p)) = Fin v" "0 \<le> v" "v \<le> 100"
    using bef sc s(3) unfolding Monotonic_def by (auto split: if_splits)
  have st: "num 5 2 (Fin v) = Some (HRHealth r)" using r(1) v(1) by (auto simp: stored_row_def split: option.splits)
  obtain b where b: "HRHealth r = Fin b" "0 \<le> b" "b \<le> 100" using numeric_percent[OF assms(7) st v(2,3)] by auto
  have again: "num 5 2 (HRHealth r) = Some (HRHealth r)" using numeric_again[OF assms(7) st] .
  have lh: "LastHours x \<notin> {Some PInf, Some NInf, Some NaN} \<and> (\<exists>u. UsedWeighted x = Fin u)"
  proof -
    have u: "num 12 3 (UsedSum (counted cfg d p dev m)) = Some (UsedWeighted x)" "opt_num num 12 3 (PrevHours (counted cfg d p dev m)) = Some (LastHours x)"
      using x(1) s(4,5) by (auto simp: stored_explain_def split: if_splits option.splits)
    have "\<exists>u. UsedWeighted x = Fin u" using numeric_fin[OF assms(7) u(1)] sane by (auto simp: sane_scoring_def)
    moreover have "LastHours x \<notin> {Some PInf, Some NInf, Some NaN}"
    proof (cases "PrevHours (counted cfg d p dev m)")
      case None
      then show ?thesis using u(2) by auto
    next
      case (Some h)
      then obtain y where y: "num 12 3 h = Some y" "LastHours x = Some y"
        using u(2) by (cases "num 12 3 h") auto
      have "h \<noteq> NaN" using sane Some by (auto simp: sane_scoring_def)
      then show ?thesis using numeric_fin[OF assms(7) y(1)] y(2) by auto
    qed
    ultimately show ?thesis by simp
  qed
  show "rows_ok num d'" using assms(1) b again lh unfolding rows_ok_def r(2) x(2) c by auto
  show "lower_or_swapped ?sn d d'"
  proof (cases "swapped_of p")
    case True
    then obtain k where "swaps d' = swaps d @ k" "\<forall>sw\<in>set k. SwSN sw = ?sn" "k \<noteq> []" using wrote_swaps[OF assms(2,3)] by auto
    then show ?thesis by (cases k) (auto simp: lower_or_swapped_def)
  next
    case ns: False
    show ?thesis
    proof (cases "health_rows d ?sn")
      case (Some old)
      then obtain h where h: "HRHealth old = Fin h" "num 5 2 (HRHealth old) = Some (HRHealth old)" "0 \<le> h" using assms(1) unfolding rows_ok_def by blast
      have "fle (HRHealth (UpRow (PUp p))) (HRHealth old)"
        using Monotonic_le[of "HRHealth old" ?score] h(1,3) sc s(3) Some ns by (simp add: before_def)
      then have "v \<le> h" using v(1) h(1) by simp
      then have "b \<le> h" using numeric_mono[OF assms(7), of 5 2 v b h h] st b(1) h by simp
      then show ?thesis using Some b(1) h(1) r(2) by (simp add: lower_or_swapped_def)
    qed (simp add: lower_or_swapped_def)
  qed
qed

text \<open>Seen over a round: the row is lower, or a change of the module was recorded; the rows of other devices are as they were.\<close>

lemma lower_refl: "rows_ok num d \<Longrightarrow> lower_or_swapped sn d d"
proof (cases "health_rows d sn")
  case (Some r)
  assume "rows_ok num d"
  then obtain h where "HRHealth r = Fin h" using Some unfolding rows_ok_def by blast
  then show ?thesis using Some by (simp add: lower_or_swapped_def)
qed (simp add: lower_or_swapped_def)

lemma lower_same: "health_rows v = health_rows u \<Longrightarrow> swaps v = swaps u \<Longrightarrow> lower_or_swapped sn a v = lower_or_swapped sn a u"
  unfolding lower_or_swapped_def by (cases "health_rows a sn") simp_all

lemma rows_ok_same: "health_rows v = health_rows u \<Longrightarrow> explains v = explains u \<Longrightarrow> cfg_rows v = cfg_rows u \<Longrightarrow> rows_ok num v = rows_ok num u"
  by (simp add: rows_ok_def)

lemma lower_trans:
  assumes "lower_or_swapped sn a b" "lower_or_swapped sn b c" "\<exists>k. swaps b = swaps a @ k" "\<exists>k. swaps c = swaps b @ k"
  shows "lower_or_swapped sn a c"
proof -
  obtain k1 k2 where k: "swaps b = swaps a @ k1" "swaps c = swaps b @ k2" using assms(3,4) by auto
  show ?thesis
  proof (cases "filter (\<lambda>s. SwSN s = sn) (k1 @ k2) = []")
    case True
    then have "case health_rows a sn of None \<Rightarrow> True | Some old \<Rightarrow> (case health_rows b sn of None \<Rightarrow> False | Some r \<Rightarrow> fle (HRHealth r) (HRHealth old))"
      "case health_rows b sn of None \<Rightarrow> True | Some old \<Rightarrow> (case health_rows c sn of None \<Rightarrow> False | Some r \<Rightarrow> fle (HRHealth r) (HRHealth old))"
      using assms(1,2) k unfolding lower_or_swapped_def by (auto simp: filter_empty_conv)
    then show ?thesis unfolding lower_or_swapped_def by (auto split: option.splits intro: fle_trans)
  next
    case False
    then show ?thesis unfolding lower_or_swapped_def k by (intro disjI2 exI[of _ "k1 @ k2"]) simp
  qed
qed

text \<open>
  In every run the stored health of a module is a number between 0 and 100, and a step never raises it unless a change of the module is
  recorded in the same step; this includes the rounding of the floats and of the columns.
\<close>

theorem health_falls:
  assumes "health_reach op d" "health_step op d d'" "numeric_ok (ONumeric op)"
  shows "rows_ok (ONumeric op) d' \<and> lower_or_swapped sn d d'"
proof -
  let ?num = "ONumeric op"
  let ?Q = "\<lambda>a x. rows_ok ?num x \<and> (\<exists>k. swaps x = swaps a @ k) \<and> (\<forall>sn. lower_or_swapped sn a x)"
  have keep: "?Q a y" if q: "?Q a x" and st: "health_step op x y" for a x y
    using st
  proof cases
    case (round e only rep ok)
    have same: "?Q a v" if "?Q a u" "same_tables u v" for u v
      using that lower_same[of v u] rows_ok_same[of v u] by (simp add: same_tables_def)
    have wr: "?Q a v" if u: "?Q a u" and eb: "EBuckets e = Some bs" "EOvertemp e = Some over" and sc: "scored_dev e over (by_device only bs) u p"
      and w: "wrote op e p u v" for u v p bs over
    proof -
      have b: "list_all bucket_ok bs" "\<forall>sn. over sn < 2 ^ 53" using round(1) eb by (simp_all add: env_ok_def)
      note f = wrote_falls[OF conjunct1[OF u] sc w b refl assms(3)]
      obtain k where k: "swaps v = swaps u @ k" using wrote_swaps[OF sc w] by auto
      have other: "lower_or_swapped sn u v" if "sn \<noteq> UpSN (PUp p)" for sn
      proof -
        have "health_rows v sn = health_rows u sn" using w that by (auto simp: wrote_def)
        then show ?thesis using lower_refl[OF conjunct1[OF u], of sn] unfolding lower_or_swapped_def by (auto split: option.splits)
      qed
      have "lower_or_swapped sn a v" for sn
      proof (rule lower_trans[of sn a u v])
        show "lower_or_swapped sn a u" "\<exists>k. swaps u = swaps a @ k" using u by auto
        show "lower_or_swapped sn u v" using f(2) other by (cases "sn = UpSN (PUp p)") auto
      qed (use k in auto)
      then show ?thesis using f(1) u k by auto
    qed
    show ?thesis by (rule RunOnce_keeps[where Q="?Q a", OF round(2) q]) (erule same, assumption, erule wr, assumption+)
  next
    case (handlers at c s m)
    then show ?thesis using q lower_same[of y x] rows_ok_same[of y x] by simp
  next
    case (settings cfgs k i)
    then show ?thesis using q lower_same[of y x] by (simp add: rows_ok_def)
  qed
  have r: "rows_ok ?num d"
    using assms(1)
  proof (induction rule: health_reach.induct)
    case (start d)
    then show ?case by (simp add: empty_health_def rows_ok_def)
  next
    case (step d d')
    then show ?case using keep[of d d d'] lower_refl by auto
  qed
  then show ?thesis using keep[of d d d'] assms(2) lower_refl by auto
qed

subsection \<open>Missing inputs\<close>

text \<open>What has to be there for a device to be scored.\<close>

definition inputs_present :: "HealthEnv \<Rightarrow> string list \<Rightarrow> string \<Rightarrow> HealthDb \<Rightarrow> bool" where
  "inputs_present e only sn d \<longleftrightarrow>
     (case (EBuckets e, EShadow e sn) of
        (Some bs, Some rep) \<Rightarrow>
          (only = [] \<or> sn \<in> set only) \<and> module_of (explains d sn) rep \<noteq> [] \<and>
          list_ex (\<lambda>b. LaserHours b \<noteq> None) (new_buckets (explains d sn) (filter (\<lambda>b. BSN b = sn) bs)) \<and>
          Cfg (BProductKey (hd (filter (\<lambda>b. BSN b = sn) bs))) (module_of (explains d sn) rep) d \<noteq> None
      | _ \<Rightarrow> False)"

lemma by_device_member:
  assumes "(sn, dev) \<in> set (by_device only bs)"
  shows "(only = [] \<or> sn \<in> set only) \<and> dev = filter (\<lambda>b. BSN b = sn) bs"
proof -
  have *: "dev = filter (\<lambda>b. BSN b = sn) (filter (\<lambda>b. only = [] \<or> BSN b \<in> set only) bs)"
    "\<exists>b\<in>set bs. (only = [] \<or> BSN b \<in> set only) \<and> BSN b = sn"
    using assms by (auto simp: by_device_def Let_def)
  then have o: "only = [] \<or> sn \<in> set only" by auto
  then have "filter (\<lambda>b. (only = [] \<or> BSN b \<in> set only) \<and> BSN b = sn) bs = filter (\<lambda>b. BSN b = sn) bs" by (auto intro: filter_cong)
  then show ?thesis using * o by simp
qed

lemma scored_inputs:
  assumes "scored_dev e over (by_device only bs) d p" "EBuckets e = Some bs"
  shows "inputs_present e only (UpSN (PUp p)) d"
  using assms by (elim scored_devE) (auto simp: inputs_present_def dest: by_device_member)

lemma RunOnce_error:
  assumes "RunOnce op e only d = (rep, ok, d')" "\<not> ok"
  shows "same_tables d d'"
proof (cases "EBuckets e = None \<or> EOvertemp e = None")
  case True
  then have "d' = hcount ''batch_errors'' d" using assms(1) by (auto simp: RunOnce_def split: option.splits)
  then show ?thesis by simp
next
  case False
  then obtain bs over where eb: "EBuckets e = Some bs" "EOvertemp e = Some over" by auto
  obtain res rp d1 where sc: "score_all e over (by_device only bs) empty_report [] d = (res, rp, d1)" by (metis prod_cases3)
  obtain m where m: "d1 = d\<lparr>HealthM := m\<rparr>" using score_all_spec(1)[OF sc] by auto
  have "res = None"
  proof (cases res)
    case (Some rq)
    then show ?thesis using assms eb sc by (cases rq) (simp add: RunOnce_def Let_def split: if_splits prod.splits)
  qed simp
  then have "d' = d1" using assms(1) eb sc by (simp add: RunOnce_def)
  then show ?thesis by (simp add: m)
qed

text \<open>
  A round that the fuse stopped, or that ended with an error, changes no table; any round writes only devices whose model, configuration and a
  new reading were all there when it began: a missing input never becomes a score, in particular never 0.
\<close>

theorem missing_input_never_scored:
  assumes "RunOnce op e only d = (rep, ok, d')"
  shows "(Fused rep \<or> \<not> ok \<longrightarrow> same_tables d d') \<and>
    (\<not> inputs_present e only sn d \<longrightarrow> health_rows d' sn = health_rows d sn \<and> explains d' sn = explains d sn \<and> swaps_of sn d' = swaps_of sn d \<and>
       filter (\<lambda>r. RSN r = sn) (reminders d') = filter (\<lambda>r. RSN r = sn) (reminders d))"
proof (intro conjI impI)
  assume "Fused rep \<or> \<not> ok"
  then show "same_tables d d'"
  proof
    assume f: "Fused rep"
    show ?thesis
      by (rule RunOnce_keeps[where Q="same_tables d", OF assms same_health_refl])
        (erule same_health_trans, assumption, simp add: f)
  next
    assume "\<not> ok"
    then show ?thesis by (rule RunOnce_error[OF assms])
  qed
next
  assume no: "\<not> inputs_present e only sn d"
  let ?Q = "\<lambda>x. health_rows x sn = health_rows d sn \<and> explains x sn = explains d sn \<and> swaps_of sn x = swaps_of sn d \<and>
       filter (\<lambda>r. RSN r = sn) (reminders x) = filter (\<lambda>r. RSN r = sn) (reminders d) \<and> cfg_rows x = cfg_rows d"
  have "?Q d'"
  proof (rule RunOnce_keeps[where Q="?Q", OF assms])
    fix p u v bs over
    assume q: "?Q u" and eb: "EBuckets e = Some bs" and sc: "scored_dev e over (by_device only bs) u p" and w: "wrote op e p u v"
    have "UpSN (PUp p) \<noteq> sn"
    proof
      assume "UpSN (PUp p) = sn"
      then have "inputs_present e only sn u" using scored_inputs[OF sc eb] by simp
      moreover have "inputs_present e only sn u = inputs_present e only sn d"
      proof -
        have c: "Cfg pk mdl u = Cfg pk mdl d" for pk mdl using q by (simp add: Cfg_def)
        have x: "explains u sn = explains d sn" using q by simp
        show ?thesis unfolding inputs_present_def c x by (rule refl)
      qed
      ultimately show False using no by simp
    qed
    moreover obtain k where "swaps v = swaps u @ k" "\<forall>sw\<in>set k. SwSN sw = UpSN (PUp p)" using wrote_swaps[OF sc w] by auto
    ultimately show "?Q v" using q w by (auto simp: wrote_def swaps_of_def filter_empty_conv)
  qed (auto simp: same_tables_def swaps_of_def)
  then show "health_rows d' sn = health_rows d sn" "explains d' sn = explains d sn" "swaps_of sn d' = swaps_of sn d"
    "filter (\<lambda>r. RSN r = sn) (reminders d') = filter (\<lambda>r. RSN r = sn) (reminders d)" by auto
qed

subsection \<open>Reminders that never come\<close>

text \<open>
  A module that was changed for one of the same model is recognised by two new readings in a row far below the last one. A round that sees one new reading,
  the rule when rounds are hourly, never finds it, and keeps the low reading as the last.
\<close>

lemma hourly_round_finds_no_reset: "DetectSwap mdl mdl [prev, h] None None now = None"
  by (simp add: DetectSwap_def HoursResetBuckets_def Let_def)

lemma first_round_finds_no_reset: "DetectSwap [] mdl [h] None None now = None"
  by (simp add: DetectSwap_def Let_def)

text \<open>
  A level is looked at only in the round in which the health crosses it. One that was suppressed in the cooldown or put off during a job is not
  sent in any later round, and a health that rounds to the level from above when it is stored never crosses it.
\<close>

theorem missed_level_stays_missed:
  assumes "health_rows db (UpSN (PUp p)) = Some r" "HRHealth r = Fin h" "0 \<le> h" "h \<le> of_int l" "l \<in> {20, 50, 80}"
    "scored_dev e over ll db p" "\<not> swapped_of p"
  shows "DLevel (decision_of op p now db) \<noteq> l"
proof -
  have "PPrevHealth p = Fin h"
    using assms(6) by (rule scored_devE) (use assms(1-3,7) in \<open>simp add: before_def\<close>)
  then have "fle (PPrevHealth p) (Fin (of_int l))" using assms(4) by simp
  then have "crossed (PPrevHealth p) (HRHealth (UpRow (PUp p))) (UpLevels (PUp p)) \<noteq> l" using crossed_once assms(5) by blast
  then show ?thesis using assms(5) by (auto simp: decision_of_def DecideReminder_def Let_def split: if_splits option.splits)
qed

theorem rounded_level_skipped:
  "Action (DecideReminder \<lparr>HealthPrev = Fin 81, HealthNow = Fin (20481 / 256), LevelsSentIn = [], LastSent = None, WorkState = 0, Optout = False,
     RNow = 0, Cooldown = 0\<rparr>) = ActionNone \<and> (of_int (round_away (20481 / 256 * 100)) / 100 :: rat) = 80 \<and>
   (fle now (Fin 80) \<longrightarrow> crossed (Fin 80) now [] \<noteq> 80)"
  by (auto simp: DecideReminder_def crossed_eq Let_def round_away_def floor_eq_iff)

subsection \<open>Examples\<close>

text \<open>Three rounds of a device whose module is rated for four hours: 0, 1 and 2 hours of use. Columns that keep every finite number.\<close>

definition demo_numeric :: numeric where
  "demo_numeric p s x = (case x of Fin a \<Rightarrow> Some (Fin a) | NaN \<Rightarrow> Some NaN | _ \<Rightarrow> None)"

lemma demo_numeric_ok: "numeric_ok demo_numeric"
  by (auto simp: numeric_ok_def demo_numeric_def split: f64.splits)

definition demo_hopts :: HealthOptions where
  "demo_hopts = \<lparr>OCooldown = 1000000, OStaleAfter = 5, OScanWindow = 5, OFuseRatio = of_rat64 (3 / 10), OMaxScans = 1, ONumeric = demo_numeric, ONotify = False\<rparr>"

definition demo_hcfg :: HCfg where
  "demo_hcfg = \<lparr>Rated = Fin 4, WLow = Fin 1, WMid = Fin 1, WHigh = Fin 1, OvertempPenalty = Fin 0, CfgVersion = 1\<rparr>"

definition demo_bucket :: "time \<Rightarrow> rat \<Rightarrow> Bucket" where
  "demo_bucket t h = \<lparr>BSN = ''A'', BProductKey = ''P'', BTs = t, LaserHours = Some (Fin h), AvgPower = None, ShareLow = None, ShareMid = None, ShareHigh = None\<rparr>"

definition demo_henv :: "time \<Rightarrow> rat \<Rightarrow> HealthEnv" where
  "demo_henv t h = \<lparr>ENow = t, EBuckets = Some [demo_bucket t h], EOvertemp = Some (\<lambda>_. 0), EReadRow = (\<lambda>_. True), EReadExplain = (\<lambda>_. True),
     EReadCfg = (\<lambda>_. True), EShadow = (\<lambda>_. Some \<lparr>Found = True, RModel = ''M'', RWorkState = 0, ROptout = False\<rparr>), EReadLast = (\<lambda>_. True),
     EWrite = (\<lambda>_. Done), EReadSku = (\<lambda>_. True), EInsert = (\<lambda>_. Done), EPublish = (\<lambda>_. Done)\<rparr>"

definition demo_h0 :: HealthDb where
  "demo_h0 = \<lparr>health_rows = (\<lambda>_. None), explains = (\<lambda>_. None), swaps = [], reminders = [], attributions = (\<lambda>_. None), cfg_rows = [],
     skus = [], codes = [], materials = (\<lambda>_. None), scans = [], published = [], HealthM = (\<lambda>_. 0)\<rparr>"

definition demo_h1 :: HealthDb where "demo_h1 = demo_h0\<lparr>cfg_rows := [(''P'', ''M'', demo_hcfg)]\<rparr>"
definition demo_h2 :: HealthDb where "demo_h2 = snd (snd (RunOnce demo_hopts (demo_henv 1000000 0) [] demo_h1))"
definition demo_h3 :: HealthDb where "demo_h3 = snd (snd (RunOnce demo_hopts (demo_henv 3000000 1) [] demo_h2))"
definition demo_h4 :: HealthDb where "demo_h4 = snd (snd (RunOnce demo_hopts (demo_henv 5000000 2) [] demo_h3))"

lemma demo_env_ok: "env_ok (demo_henv t h)"
  by (simp add: env_ok_def demo_henv_def bucket_ok_def demo_bucket_def share_ok_def)

lemma demo_hreach: "health_reach demo_hopts demo_h1" "health_reach demo_hopts demo_h2" "health_reach demo_hopts demo_h3" "health_reach demo_hopts demo_h4"
  "health_step demo_hopts demo_h1 demo_h2" "health_step demo_hopts demo_h2 demo_h3" "health_step demo_hopts demo_h3 demo_h4"
proof -
  have st: "health_step demo_hopts d (snd (snd (RunOnce demo_hopts (demo_henv t h) [] d)))" for d t h
    by (metis health_step.round demo_env_ok prod.collapse)
  show s: "health_step demo_hopts demo_h1 demo_h2" "health_step demo_hopts demo_h2 demo_h3" "health_step demo_hopts demo_h3 demo_h4"
    unfolding demo_h2_def demo_h3_def demo_h4_def by (rule st)+
  have "health_reach demo_hopts demo_h0" by (rule health_reach.start) (simp add: empty_health_def demo_h0_def)
  moreover have "health_step demo_hopts demo_h0 demo_h1"
    using health_step.settings[where cfgs="[(''P'', ''M'', demo_hcfg)]" and op=demo_hopts and db=demo_h0 and k="[]" and i="\<lambda>_. None"]
    by (simp add: demo_h1_def demo_h0_def cfg_ok_def weight_ok_def demo_hcfg_def)
  ultimately show r1: "health_reach demo_hopts demo_h1" by (rule health_reach.step)
  show r2: "health_reach demo_hopts demo_h2" using r1 s(1) by (rule health_reach.step)
  show r3: "health_reach demo_hopts demo_h3" using r2 s(2) by (rule health_reach.step)
  show "health_reach demo_hopts demo_h4" using r3 s(3) by (rule health_reach.step)
qed

lemma of_rat64_quarter:
  assumes "0 < m" "m < 2 ^ 53"
  shows "of_rat64 (of_int m / 4) = Fin (of_int m / 4)"
proof -
  have "rnd_pos (of_int m / 4) = of_int m / 4" by (rule rnd_pos_exact[of _ m "- 2"]) (use assms in \<open>simp_all add: power_int_minus power_int_def power_divide\<close>)
  then have r: "rnd (of_int m / 4) = of_int m / 4" using assms(1) by (simp add: rnd_def)
  have "(of_int m :: rat) < of_int (2 ^ 53)" using assms(2) by (simp only: of_int_less_iff)
  then have "(of_int m / 4 :: rat) < 2 ^ 1024" using assms(1) by (intro huge_less) simp_all
  then show ?thesis using r assms(1) by (simp add: of_rat64_def Let_def not_le)
qed

lemma demo_floats:
  "of_rat64 0 = Fin 0" "of_rat64 1 = Fin 1" "of_rat64 2 = Fin 2" "of_rat64 (1 / 4) = Fin (1 / 4)" "of_rat64 (1 / 2) = Fin (1 / 2)" "of_rat64 (3 / 4) = Fin (3 / 4)"
  "of_rat64 75 = Fin 75" "of_rat64 50 = Fin 50" "of_rat64 100 = Fin 100" "f64_of_int 0 = Fin 0"
  using of_rat64_quarter[of 4] of_rat64_quarter[of 8] of_rat64_quarter[of 1] of_rat64_quarter[of 2] of_rat64_quarter[of 3]
    of_rat64_quarter[of 300] of_rat64_quarter[of 200] of_rat64_quarter[of 400] f64_of_small_int[of 0]
  by (simp_all add: of_rat64_def)

lemmas demo_eval = RunOnce_def by_device_def demo_hopts_def demo_henv_def demo_bucket_def sort_str_def ShouldFuseBatch_def empty_report_def
  scoreDevice_def new_buckets_def module_of_def hours_history_def List.map_filter_def Cfg_def hourly_round_finds_no_reset first_round_finds_no_reset count_hours_def score_bucket_def
  finish_score_def windowRate_def window_bucket_def zero_instant_def Rate30d_def ComputeHealth_def HealthScore_def PredictEOL_def Monotonic_def hclamp_def
  commit_def decision_of_def DecideReminder_def crossed_eq WriteHealth_def stored_row_def stored_explain_def demo_numeric_def fits32_def hcount_def
  InsertReminder_def reminder_of_def publishReminder_def LastSentAt_def PickSKU_def SKUs_def exec_def took_def demo_hcfg_def bucketShares_def deref_def
  WeightedHours_def weight_def MaxBucketHours_def MaxPenalty_def fmin_def fadd_def fsub_def fmul_def fdiv_def tsub_def Let_def demo_floats


lemma demo_levels: "FormatLevels [] = []" "FormatLevels [80] = ''80''" "ParseLevels [] = []" "ParseLevels ''80'' = [80]" 
  "FormatLevels [80, 50] = ''50,80''" "FormatInt 80 = ''80''" "FormatInt 50 = ''50''"
  by code_simp+


lemmas demo_runs = demo_h1_def demo_h0_def demo_eval demo_levels LevelsSent_def pgtime_def

text \<open>The tables after each round.\<close>

definition demo_row :: "rat \<Rightarrow> rat \<Rightarrow> time \<Rightarrow> HealthRow" where
  "demo_row h u t = \<lparr>HRHealth = Fin h, UsedHours = Fin u, PredictedEOLAt = None, UpdatedAt = t\<rparr>"

definition demo_explain :: "rat \<Rightarrow> time \<Rightarrow> string \<Rightarrow> Explain" where
  "demo_explain u t levels = \<lparr>ModelVersion = 1, UsedWeighted = Fin u, ExRated = Fin 4, ExLow = Fin 0, ExMid = Fin 0, ExHigh = Fin 0, OvertempCount = 0,
     Penalty = Fin 0, LastBucketTs = Some t, LastHours = Some (Fin u), ModuleModel = ''M'', LevelsText = levels, ComputedAt = t\<rparr>"

definition demo_reminder :: "nat \<Rightarrow> string \<Rightarrow> rat \<Rightarrow> time \<Rightarrow> Reminder" where
  "demo_reminder i level h t = \<lparr>RID = i, RSN = ''A'', RPart = ''module'', RLevel = level, HealthAt = Fin h, RSku = [], SentAt = Some t, SuppressedReason = []\<rparr>"

lemma demo_h2_is: "\<exists>m. demo_h2 = demo_h1\<lparr>health_rows := [''A'' \<mapsto> demo_row 100 0 1000000], explains := [''A'' \<mapsto> demo_explain 0 1000000 []], HealthM := m\<rparr>"
  by (simp add: demo_h2_def demo_runs demo_row_def demo_explain_def)

lemma demo_h3_is: "\<exists>m. demo_h3 = demo_h1\<lparr>health_rows := [''A'' \<mapsto> demo_row 75 1 3000000], explains := [''A'' \<mapsto> demo_explain 1 3000000 ''80''],
    reminders := [demo_reminder 1 ''80'' 75 3000000], HealthM := m\<rparr>"
proof -
  obtain m where m: "demo_h2 = demo_h1\<lparr>health_rows := [''A'' \<mapsto> demo_row 100 0 1000000], explains := [''A'' \<mapsto> demo_explain 0 1000000 []], HealthM := m\<rparr>"
    using demo_h2_is by auto
  show ?thesis unfolding demo_h3_def m by (simp add: demo_runs demo_row_def demo_explain_def demo_reminder_def)
qed

lemma demo_h4_is: "\<exists>m. demo_h4 = demo_h1\<lparr>health_rows := [''A'' \<mapsto> demo_row 50 2 5000000], explains := [''A'' \<mapsto> demo_explain 2 5000000 ''50,80''],
    reminders := [demo_reminder 1 ''80'' 75 3000000, demo_reminder 2 ''50'' 50 5000000], HealthM := m\<rparr>"
proof -
  obtain m where m: "demo_h3 = demo_h1\<lparr>health_rows := [''A'' \<mapsto> demo_row 75 1 3000000], explains := [''A'' \<mapsto> demo_explain 1 3000000 ''80''],
    reminders := [demo_reminder 1 ''80'' 75 3000000], HealthM := m\<rparr>" using demo_h3_is by auto
  show ?thesis unfolding demo_h4_def m by (simp add: demo_runs demo_row_def demo_explain_def demo_reminder_def)
qed

lemma demo_values:
  "map_option HRHealth (health_rows demo_h2 ''A'') = Some (Fin 100)" "swaps demo_h2 = []" "reminders demo_h2 = []" "levels_of ''A'' demo_h2 = []"
  "map_option HRHealth (health_rows demo_h3 ''A'') = Some (Fin 75)" "health_rows demo_h3 ''B'' = None" "swaps demo_h4 = []"
  "reminders demo_h4 = [demo_reminder 1 ''80'' 75 3000000, demo_reminder 2 ''50'' 50 5000000]"
proof -
  obtain m2 m3 m4 where
    h: "demo_h2 = demo_h1\<lparr>health_rows := [''A'' \<mapsto> demo_row 100 0 1000000], explains := [''A'' \<mapsto> demo_explain 0 1000000 []], HealthM := m2\<rparr>"
    "demo_h3 = demo_h1\<lparr>health_rows := [''A'' \<mapsto> demo_row 75 1 3000000], explains := [''A'' \<mapsto> demo_explain 1 3000000 ''80''],
      reminders := [demo_reminder 1 ''80'' 75 3000000], HealthM := m3\<rparr>"
    "demo_h4 = demo_h1\<lparr>health_rows := [''A'' \<mapsto> demo_row 50 2 5000000], explains := [''A'' \<mapsto> demo_explain 2 5000000 ''50,80''],
      reminders := [demo_reminder 1 ''80'' 75 3000000, demo_reminder 2 ''50'' 50 5000000], HealthM := m4\<rparr>"
    using demo_h2_is demo_h3_is demo_h4_is by metis
  show "map_option HRHealth (health_rows demo_h2 ''A'') = Some (Fin 100)" "swaps demo_h2 = []" "reminders demo_h2 = []" "levels_of ''A'' demo_h2 = []"
    "map_option HRHealth (health_rows demo_h3 ''A'') = Some (Fin 75)" "health_rows demo_h3 ''B'' = None" "swaps demo_h4 = []"
    "reminders demo_h4 = [demo_reminder 1 ''80'' 75 3000000, demo_reminder 2 ''50'' 50 5000000]"
    unfolding h by (simp_all add: demo_h1_def demo_h0_def demo_row_def demo_explain_def levels_of_def LevelsSent_def demo_levels)
qed

theorem reminders_spaced_witness:
  "length (reminders demo_h4) = 2 \<and> SentAt (reminders demo_h4 ! 0) = Some 3000000 \<and> SentAt (reminders demo_h4 ! 1) = Some 5000000 \<and>
   OCooldown demo_hopts \<le> \<bar>5000000 - 3000000\<bar>"
  using reminders_spaced[OF demo_hreach(4), of 0 1 3000000 5000000] by (simp add: demo_values demo_reminder_def demo_hopts_def)

theorem level_once_per_module_witness:
  "sent_for ''A'' 80 demo_h2 = 0 \<and> sent_for ''A'' 80 demo_h4 = 1 \<and> swaps_of ''A'' demo_h4 = swaps_of ''A'' demo_h2 \<and>
   sent_for ''A'' 80 demo_h4 \<le> sent_for ''A'' 80 demo_h2 + 1"
proof -
  have sw: "swaps_of ''A'' demo_h4 = swaps_of ''A'' demo_h2" by (simp add: swaps_of_def demo_values)
  have "(health_step demo_hopts)\<^sup>*\<^sup>* demo_h2 demo_h4" using demo_hreach(6,7) by (meson converse_rtranclp_into_rtranclp rtranclp.rtrancl_refl)
  from level_once_per_module[OF demo_hreach(2) this sw, of 80] show ?thesis
    using sw by (simp add: sent_for_def demo_values demo_levels demo_reminder_def)
qed

theorem health_falls_witness:
  "map_option HRHealth (health_rows demo_h2 ''A'') = Some (Fin 100) \<and> map_option HRHealth (health_rows demo_h3 ''A'') = Some (Fin 75) \<and>
   rows_ok demo_numeric demo_h3 \<and> lower_or_swapped ''A'' demo_h2 demo_h3"
  using health_falls[OF demo_hreach(2,6)] demo_numeric_ok by (simp add: demo_values demo_hopts_def)

theorem missing_input_never_scored_witness:
  "\<not> inputs_present (demo_henv 3000000 1) [] ''B'' demo_h2 \<and> health_rows demo_h3 ''B'' = health_rows demo_h2 ''B'' \<and>
   health_rows demo_h3 ''A'' \<noteq> health_rows demo_h2 ''A''"
proof -
  have n: "\<not> inputs_present (demo_henv 3000000 1) [] ''B'' demo_h2"
    by (simp add: inputs_present_def demo_henv_def demo_bucket_def new_buckets_def)
  obtain rep ok where r: "RunOnce demo_hopts (demo_henv 3000000 1) [] demo_h2 = (rep, ok, demo_h3)" by (metis demo_h3_def prod.collapse)
  have "health_rows demo_h3 ''A'' \<noteq> health_rows demo_h2 ''A''" using demo_values(1,5) by auto
  then show ?thesis using missing_input_never_scored[OF r, of "''B''"] n by simp
qed

end
