(* ===== verification/Spec2Isabelle.thy ===== *)
theory Spec2Isabelle
  imports Breaker Mqtt Topics Access Buffer Bridge Lock Schedule MaintWindow Rollout OtaFlow Alarm Reconcile Linkage Engine FleetSafety FleetOta OemSign AuditRecon DeviceView JobFlow ParamFlow PipeSafety HealthFlow
begin

text \<open>Header.\<close>

end
